(* ===== verification/Rill_Prelude.thy ===== *)
theory Rill_Prelude imports Complex_Main "HOL-Library.Word" "HOL-Library.List_Lexorder" "HOL-Library.Char_ord" "HOL-Library.Code_Target_Nat" begin

text \<open>
  What every component shares: names for the machine integers of the Rust source, its
  \<open>Result\<close> type as a sum (\<open>Inl\<close> is \<open>Err\<close>) with the \<open>?\<close> operator as \<open>and_then\<close>, the checked
  and saturating integer operations of the standard library, and the loops over slices that
  stop at the first error. Facts that discharge error branches are collected in
  \<open>result_simps\<close>, facts on the checked arithmetic in \<open>checked_simps\<close>.
\<close>

named_theorems result_simps \<open>inversion of sequenced fallible steps\<close>
named_theorems checked_simps \<open>checked machine arithmetic read as natural numbers\<close>

section \<open>Machine integers\<close>

type_synonym u8 = "8 word"
type_synonym u32 = "32 word"
type_synonym u64 = "64 word"
type_synonym u128 = "128 word"

text \<open>
  A \<open>usize\<close> is a natural number: the source only compares lengths and capacities, or adds to
  them with a checked operation; the bound of a 64-bit target is written out where it matters.
\<close>

type_synonym usize = nat

definition usize_max :: usize where
  "usize_max = 2 ^ 64 - 1"

definition u64_max :: u64 where
  "u64_max = - 1"

definition checked_add_u64 :: "u64 \<Rightarrow> u64 \<Rightarrow> u64 option" where
  "checked_add_u64 a b = (if unat a + unat b < 2 ^ 64 then Some (a + b) else None)"

definition saturating_add_u64 :: "u64 \<Rightarrow> u64 \<Rightarrow> u64" where
  "saturating_add_u64 a b = (if unat a + unat b < 2 ^ 64 then a + b else u64_max)"

definition saturating_sub_u64 :: "u64 \<Rightarrow> u64 \<Rightarrow> u64" where
  "saturating_sub_u64 a b = (if b \<le> a then a - b else 0)"

definition checked_add_usize :: "usize \<Rightarrow> usize \<Rightarrow> usize option" where
  "checked_add_usize a b = (if a + b \<le> usize_max then Some (a + b) else None)"

definition checked_mul_usize :: "usize \<Rightarrow> usize \<Rightarrow> usize option" where
  "checked_mul_usize a b = (if a * b \<le> usize_max then Some (a * b) else None)"

lemma unat_u64_less: "unat (a :: u64) < 2 ^ 64"
  using unsigned_less [of a] by simp

lemma checked_add_u64_Some [checked_simps]:
  "checked_add_u64 a b = Some c \<longleftrightarrow> unat a + unat b < 2 ^ 64 \<and> c = a + b"
  by (auto simp: checked_add_u64_def)

lemma checked_add_u64_None [checked_simps]:
  "checked_add_u64 a b = None \<longleftrightarrow> 2 ^ 64 \<le> unat a + unat b"
  by (auto simp: checked_add_u64_def)

lemma unat_add_u64: "unat a + unat b < 2 ^ 64 \<Longrightarrow> unat ((a :: u64) + b) = unat a + unat b"
  by (simp add: unat_word_ariths)

lemma unat_inc: "unat (n :: u64) + 1 < 2 ^ 64 \<Longrightarrow> unat (n + 1) = unat n + 1"
  by (simp add: unat_add_u64)

lemma inc_nz: "unat (n :: u64) + 1 < 2 ^ 64 \<Longrightarrow> n + 1 \<noteq> 0"
  using unat_inc [of n] by (metis add_is_0 unat_0 zero_neq_one)

lemma unat_checked_add_u64:
  "checked_add_u64 a b = Some c \<Longrightarrow> unat c = unat a + unat b"
  by (auto simp: checked_simps unat_add_u64)

lemma saturating_add_u64_ge: "a \<le> saturating_add_u64 a b"
proof (cases "unat a + unat b < 2 ^ 64")
  case True
  then show ?thesis
    by (simp only: saturating_add_u64_def if_True word_le_nat_alt unat_add_u64)
qed (simp add: saturating_add_u64_def u64_max_def)

lemma unat_minus_u64: "b \<le> a \<Longrightarrow> unat ((a :: u64) - b) = unat a - unat b"
  by (simp add: unat_sub word_le_nat_alt)

lemma unat_saturating_sub_u64: "unat (saturating_sub_u64 a b) = unat a - unat b"
  by (auto simp: saturating_sub_u64_def unat_minus_u64 word_le_nat_alt)

lemma checked_add_usize_Some [checked_simps]:
  "checked_add_usize a b = Some c \<longleftrightarrow> a + b \<le> usize_max \<and> c = a + b"
  by (auto simp: checked_add_usize_def)

lemma checked_mul_usize_Some [checked_simps]:
  "checked_mul_usize a b = Some c \<longleftrightarrow> a * b \<le> usize_max \<and> c = a * b"
  by (auto simp: checked_mul_usize_def)

section \<open>Results\<close>

text \<open>\<open>and_then m f\<close> is the source's \<open>let x = m?; f(x)\<close>.\<close>

fun and_then :: "'e + 'a \<Rightarrow> ('a \<Rightarrow> 'e + 'b) \<Rightarrow> 'e + 'b" where
  "and_then (Inl e) f = Inl e"
| "and_then (Inr x) f = f x"

definition ensure :: "bool \<Rightarrow> 'e \<Rightarrow> 'e + unit" where
  "ensure b e = (if b then Inr () else Inl e)"

definition ok_or :: "'a option \<Rightarrow> 'e \<Rightarrow> 'e + 'a" where
  "ok_or x e = (case x of None \<Rightarrow> Inl e | Some y \<Rightarrow> Inr y)"

fun map_err :: "('e \<Rightarrow> 'f) \<Rightarrow> 'e + 'a \<Rightarrow> 'f + 'a" where
  "map_err f (Inl e) = Inl (f e)"
| "map_err f (Inr x) = Inr x"

fun is_err :: "'e + 'a \<Rightarrow> bool" where
  "is_err (Inl e) = True"
| "is_err (Inr x) = False"

text \<open>\<open>for x in xs { f(x)?; }\<close>: the first error stops the loop.\<close>

fun try_for_each :: "('a \<Rightarrow> 'e + unit) \<Rightarrow> 'a list \<Rightarrow> 'e + unit" where
  "try_for_each f [] = Inr ()"
| "try_for_each f (x # xs) = and_then (f x) (\<lambda>_. try_for_each f xs)"

text \<open>\<open>try_fold\<close>: the accumulator is threaded, the first error stops the loop.\<close>

fun try_fold :: "('s \<Rightarrow> 'a \<Rightarrow> 'e + 's) \<Rightarrow> 's \<Rightarrow> 'a list \<Rightarrow> 'e + 's" where
  "try_fold f s [] = Inr s"
| "try_fold f s (x # xs) = and_then (f s x) (\<lambda>s'. try_fold f s' xs)"

text \<open>A loop that maps a fallible step over a slice.\<close>

fun try_map :: "('a \<Rightarrow> 'e + 'b) \<Rightarrow> 'a list \<Rightarrow> 'e + 'b list" where
  "try_map f [] = Inr []"
| "try_map f (x # xs) = and_then (f x) (\<lambda>y. and_then (try_map f xs) (\<lambda>ys. Inr (y # ys)))"

lemma and_then_Inr [result_simps]:
  "and_then m f = Inr y \<longleftrightarrow> (\<exists>x. m = Inr x \<and> f x = Inr y)"
  by (cases m) auto

lemma and_then_Inl [result_simps]:
  "and_then m f = Inl e \<longleftrightarrow> m = Inl e \<or> (\<exists>x. m = Inr x \<and> f x = Inl e)"
  by (cases m) auto

lemma ensure_Inr [result_simps]: "ensure b e = Inr u \<longleftrightarrow> b"
  by (auto simp: ensure_def)

lemma ensure_Inl [result_simps]: "ensure b e = Inl e' \<longleftrightarrow> \<not> b \<and> e' = e"
  by (auto simp: ensure_def)

lemma ok_or_Inr [result_simps]: "ok_or x e = Inr y \<longleftrightarrow> x = Some y"
  by (cases x) (auto simp: ok_or_def)

lemma ok_or_Inl [result_simps]: "ok_or x e = Inl e' \<longleftrightarrow> x = None \<and> e' = e"
  by (cases x) (auto simp: ok_or_def)

lemma map_err_Inr [result_simps]: "map_err f m = Inr y \<longleftrightarrow> m = Inr y"
  by (cases m) auto

lemma map_err_Inl [result_simps]: "map_err f m = Inl e \<longleftrightarrow> (\<exists>e'. m = Inl e' \<and> e = f e')"
  by (cases m) auto

lemma is_err_iff [result_simps]: "is_err m \<longleftrightarrow> (\<exists>e. m = Inl e)"
  by (cases m) auto

lemma not_is_err_iff: "\<not> is_err m \<longleftrightarrow> (\<exists>x. m = Inr x)"
  by (cases m) auto

lemma try_for_each_Inr [result_simps]:
  "try_for_each f xs = Inr u \<longleftrightarrow> (\<forall>x \<in> set xs. f x = Inr ())"
proof (induction xs)
  case (Cons x xs)
  then show ?case by (cases "f x") simp_all
qed simp

lemma try_map_Inr [result_simps]:
  "try_map f xs = Inr ys \<longleftrightarrow> list_all2 (\<lambda>x y. f x = Inr y) xs ys"
  by (induction xs arbitrary: ys) (auto simp: and_then_Inr list_all2_Cons1)

lemma try_map_upt_Inr:
  "try_map f [0..<d] = Inr ys \<longleftrightarrow> length ys = d \<and> (\<forall>i < d. f i = Inr (ys ! i))"
  by (auto simp: try_map_Inr list_all2_conv_all_nth)

lemma list_all2_right:
  "list_all2 p xs ys \<Longrightarrow> y \<in> set ys \<Longrightarrow> (\<And>x. x \<in> set xs \<Longrightarrow> p x y \<Longrightarrow> q y) \<Longrightarrow> q y"
  by (auto simp: list_all2_conv_all_nth in_set_conv_nth) metis

lemma try_fold_append:
  "try_fold f s (xs @ ys) = and_then (try_fold f s xs) (\<lambda>s'. try_fold f s' ys)"
proof (induction xs arbitrary: s)
  case (Cons x xs)
  then show ?case by (cases "f s x") auto
qed simp

text \<open>An invariant of the body is an invariant of the loop.\<close>

lemma try_fold_invariant:
  assumes "try_fold f s xs = Inr t" and "I s"
    and "\<And>s x s'. I s \<Longrightarrow> x \<in> set xs \<Longrightarrow> f s x = Inr s' \<Longrightarrow> I s'"
  shows "I t"
  using assms
proof (induction xs arbitrary: s)
  case (Cons x xs)
  from Cons.prems(1) obtain s' where s': "f s x = Inr s'" "try_fold f s' xs = Inr t"
    by (cases "f s x") simp_all
  have "I s'"
    using Cons.prems(3) [OF Cons.prems(2) _ s'(1)] by simp
  with s'(2) show ?case
    by (rule Cons.IH) (rule Cons.prems(3), simp_all)
qed simp

section \<open>Names that may occur once\<close>

text \<open>
  \<open>!seen.insert(x)\<close> over a slice, with a \<open>BTreeSet\<close>: the slice holds no name twice.
\<close>

fun all_fresh :: "'a list \<Rightarrow> 'a list \<Rightarrow> bool" where
  "all_fresh seen [] = True"
| "all_fresh seen (x # xs) = (x \<notin> set seen \<and> all_fresh (x # seen) xs)"

lemma all_fresh_iff: "all_fresh seen xs \<longleftrightarrow> distinct xs \<and> set xs \<inter> set seen = {}"
  by (induction xs arbitrary: seen) auto

end
