(* ===== verification/BTree_Map.thy ===== *)
theory BTree_Map imports Rill_Prelude begin

text \<open>
  Rust's \<open>BTreeMap\<close>: a finite map whose iteration order is the order of its keys. A value is the
  list of its entries in strictly ascending key order, so two maps are equal exactly when they
  hold the same entries, as the derived \<open>PartialEq\<close> has it. The locale \<open>ordered_map\<close> is the
  interface the components rely on; its laws are discharged for the model of \<open>BTreeMap\<close>.
\<close>

section \<open>Entries in key order\<close>

fun put_entry :: "'k::linorder \<Rightarrow> 'v \<Rightarrow> ('k \<times> 'v) list \<Rightarrow> ('k \<times> 'v) list" where
  "put_entry k v [] = [(k, v)]"
| "put_entry k v (e # es) =
     (if fst e < k then e # put_entry k v es
      else if k < fst e then (k, v) # e # es
      else (k, v) # es)"

lemma set_put_entry: "fst ` set (put_entry k v es) = insert k (fst ` set es)"
  by (induction es) (auto simp: not_less)

lemma strict_put_entry:
  "sorted_wrt (<) (map fst es) \<Longrightarrow> sorted_wrt (<) (map fst (put_entry k v es))"
proof (induction es)
  case (Cons e es)
  then show ?case
    using set_put_entry [of k v es] by (fastforce simp: image_iff)
qed simp

lemma map_of_put_entry:
  "sorted_wrt (<) (map fst es) \<Longrightarrow> map_of (put_entry k v es) = (map_of es)(k \<mapsto> v)"
proof (induction es)
  case (Cons e es)
  then show ?case by (cases e) (auto simp: fun_eq_iff not_less)
qed simp

lemma strict_sorted_unique:
  fixes xs ys :: "('k::linorder \<times> 'v) list"
  assumes "sorted_wrt (<) (map fst xs)" "sorted_wrt (<) (map fst ys)" "map_of xs = map_of ys"
  shows "xs = ys"
proof -
  have d: "distinct (map fst xs)" "distinct (map fst ys)"
    and o: "sorted (map fst xs)" "sorted (map fst ys)"
    using assms(1,2) strict_sorted_iff by blast+
  have s: "set xs = set ys"
    using assms(3) d by (simp add: map_of_inject_set)
  have "inj_on fst (set xs \<union> set ys)"
    using d(1) by (simp add: distinct_map flip: s)
  then show ?thesis
    using d o s by (intro map_sorted_distinct_set_unique)
qed

section \<open>The map type\<close>

typedef (overloaded) ('k::linorder, 'v) btree =
    "{es :: ('k \<times> 'v) list. sorted_wrt (<) (map fst es)}"
  morphisms bt_entries bt_of_entries
  by (rule exI [of _ "[]"]) simp

setup_lifting type_definition_btree

lift_definition bt_empty :: "('k::linorder, 'v) btree" is "[]"
  by simp

lift_definition bt_get :: "('k::linorder, 'v) btree \<Rightarrow> 'k \<Rightarrow> 'v option" is map_of .

lift_definition bt_insert :: "'k::linorder \<Rightarrow> 'v \<Rightarrow> ('k, 'v) btree \<Rightarrow> ('k, 'v) btree"
  is put_entry
  by (rule strict_put_entry)

lift_definition bt_retain :: "('k::linorder \<Rightarrow> 'v \<Rightarrow> bool) \<Rightarrow> ('k, 'v) btree \<Rightarrow> ('k, 'v) btree"
  is "\<lambda>p. filter (\<lambda>e. p (fst e) (snd e))"
  by (simp add: sorted_wrt_map sorted_wrt_filter)

definition bt_remove :: "'k::linorder \<Rightarrow> ('k, 'v) btree \<Rightarrow> ('k, 'v) btree" where
  "bt_remove k = bt_retain (\<lambda>k' _. k' \<noteq> k)"

definition bt_remove_all :: "'k::linorder list \<Rightarrow> ('k, 'v) btree \<Rightarrow> ('k, 'v) btree" where
  "bt_remove_all ks m = fold bt_remove ks m"

definition bt_contains :: "('k::linorder, 'v) btree \<Rightarrow> 'k \<Rightarrow> bool" where
  "bt_contains m k \<longleftrightarrow> bt_get m k \<noteq> None"

definition bt_len :: "('k::linorder, 'v) btree \<Rightarrow> nat" where
  "bt_len m = length (bt_entries m)"

definition bt_values :: "('k::linorder, 'v) btree \<Rightarrow> 'v list" where
  "bt_values m = map snd (bt_entries m)"

definition bt_keys :: "('k::linorder, 'v) btree \<Rightarrow> 'k list" where
  "bt_keys m = map fst (bt_entries m)"

instantiation btree :: (linorder, equal) equal begin

definition equal_btree :: "('a, 'b) btree \<Rightarrow> ('a, 'b) btree \<Rightarrow> bool" where
  "equal_btree m n \<longleftrightarrow> HOL.equal (bt_entries m) (bt_entries n)"

instance
  by standard (simp add: equal_btree_def equal_eq bt_entries_inject)

end

lemma bt_strict: "sorted_wrt (<) (map fst (bt_entries m))"
  using bt_entries [of m] by simp

lemma bt_distinct: "distinct (map fst (bt_entries m))"
  using bt_strict strict_sorted_iff by blast

lemma bt_ext: "(\<And>k. bt_get m k = bt_get n k) \<Longrightarrow> m = n"
  by transfer (blast intro: strict_sorted_unique)

lemma bt_get_empty [simp]: "bt_get bt_empty k = None"
  by transfer simp

lemma bt_get_insert [simp]: "bt_get (bt_insert k v m) k' = (if k' = k then Some v else bt_get m k')"
  by transfer (simp add: map_of_put_entry)

lemma bt_get_entries: "bt_get m k = map_of (bt_entries m) k"
  by (simp add: bt_get.rep_eq)

lemma bt_get_iff: "bt_get m k = Some v \<longleftrightarrow> (k, v) \<in> set (bt_entries m)"
  by (simp add: bt_get_entries bt_distinct map_of_eq_Some_iff)

lemma bt_get_retain: "bt_get (bt_retain p m) k =
   (case bt_get m k of None \<Rightarrow> None | Some v \<Rightarrow> if p k v then Some v else None)"
proof -
  have e: "bt_get (bt_retain p m) k = Some v \<longleftrightarrow> bt_get m k = Some v \<and> p k v" for v
    by (auto simp: bt_get_iff bt_retain.rep_eq)
  show ?thesis
  proof (cases "bt_get (bt_retain p m) k")
    case None
    then show ?thesis using e by (cases "bt_get m k") simp_all
  next
    case (Some v)
    then show ?thesis using e [of v] by simp
  qed
qed

lemma bt_get_remove [simp]: "bt_get (bt_remove k m) k' = (if k' = k then None else bt_get m k')"
  by (auto simp: bt_remove_def bt_get_retain split: option.splits)

lemma bt_get_remove_all [simp]:
  "bt_get (bt_remove_all ks m) k = (if k \<in> set ks then None else bt_get m k)"
  unfolding bt_remove_all_def by (induction ks arbitrary: m) auto

lemma bt_contains_iff: "bt_contains m k \<longleftrightarrow> (\<exists>v. bt_get m k = Some v)"
  by (auto simp: bt_contains_def)

lemma bt_contains_simps [simp]:
  "\<not> bt_contains bt_empty k"
  "bt_contains (bt_insert k v m) k' \<longleftrightarrow> k' = k \<or> bt_contains m k'"
  "bt_contains (bt_remove k m) k' \<longleftrightarrow> k' \<noteq> k \<and> bt_contains m k'"
  by (auto simp: bt_contains_def)

lemma dom_bt_get: "dom (bt_get m) = set (map fst (bt_entries m))"
  by transfer (simp add: dom_map_of_conv_image_fst)

lemma bt_len_card: "bt_len m = card (dom (bt_get m))"
  using distinct_card [OF bt_distinct [of m]] by (simp add: bt_len_def dom_bt_get)

lemma finite_dom_bt_get [simp]: "finite (dom (bt_get m))"
  by (simp add: dom_bt_get)

lemma bt_len_empty [simp]: "bt_len bt_empty = 0"
  by (simp add: bt_len_def bt_empty.rep_eq)

lemma bt_entries_empty [simp]: "bt_entries bt_empty = []"
  by (rule bt_empty.rep_eq)

lemma dom_bt_insert: "dom (bt_get (bt_insert k v m)) = insert k (dom (bt_get m))"
  by (auto simp: dom_def)

lemma dom_bt_remove: "dom (bt_get (bt_remove k m)) = dom (bt_get m) - {k}"
  by (auto simp: dom_def)

lemma bt_len_insert:
  "bt_len (bt_insert k v m) = (if bt_contains m k then bt_len m else Suc (bt_len m))"
proof -
  have "k \<in> dom (bt_get m) \<longleftrightarrow> bt_contains m k"
    by (auto simp: bt_contains_def)
  then show ?thesis
    by (simp add: bt_len_card dom_bt_insert card_insert_if del: domIff)
qed

lemma bt_len_remove:
  "bt_len (bt_remove k m) = (if bt_contains m k then bt_len m - 1 else bt_len m)"
proof -
  have "k \<in> dom (bt_get m) \<longleftrightarrow> bt_contains m k"
    by (auto simp: bt_contains_def)
  then show ?thesis
    by (simp add: bt_len_card dom_bt_remove card_Diff_singleton_if del: domIff)
qed

lemma bt_len_pos: "bt_contains m k \<Longrightarrow> 0 < bt_len m"
  by (auto simp: bt_contains_iff bt_get_iff bt_len_def)

lemma bt_len_retain: "bt_len (bt_retain p m) \<le> bt_len m"
  by (simp add: bt_len_def bt_retain.rep_eq)

lemma bt_values_set: "set (bt_values m) = ran (bt_get m)"
  by (auto simp: bt_values_def ran_def bt_get_iff image_iff) force

lemma bt_get_value: "bt_get m k = Some v \<Longrightarrow> v \<in> set (bt_values m)"
  by (auto simp: bt_values_set ran_def)

lemma bt_keys_set: "set (bt_keys m) = dom (bt_get m)"
  by (simp add: bt_keys_def dom_bt_get)

lemma bt_ids_where:
  "k \<in> set (map fst (filter (\<lambda>e. P (snd e)) (bt_entries m))) \<longleftrightarrow> (\<exists>v. bt_get m k = Some v \<and> P v)"
  by (auto simp: bt_get_iff image_iff)

lemma bt_get_remove_where:
  "bt_get (bt_remove_all (map fst (filter (\<lambda>e. P (snd e)) (bt_entries m))) m) k =
     (case bt_get m k of None \<Rightarrow> None | Some v \<Rightarrow> if P v then None else Some v)"
  unfolding bt_get_remove_all bt_ids_where by (auto split: option.splits)

lemma bt_remove_all_sub:
  "bt_remove_all ks m = bt_retain (\<lambda>k _. k \<notin> set ks) m"
  by (rule bt_ext) (simp add: bt_get_retain split: option.splits)

lemma bt_len_remove_all: "bt_len (bt_remove_all ks m) \<le> bt_len m"
  unfolding bt_remove_all_sub by (rule bt_len_retain)

lemma bt_insert_remove_same: "bt_insert k v (bt_remove k m) = bt_insert k v m"
  by (rule bt_ext) simp

section \<open>The interface of ordered maps\<close>

text \<open>
  What the ledgers of this development need of a map, and what follows from it: moving an entry
  from one map to another keeps their keys apart and keeps every entry in exactly one of them.
\<close>

locale ordered_map =
  fixes empty :: "'m"
    and get :: "'m \<Rightarrow> 'k \<Rightarrow> 'v option"
    and put :: "'k \<Rightarrow> 'v \<Rightarrow> 'm \<Rightarrow> 'm"
    and drop :: "'k \<Rightarrow> 'm \<Rightarrow> 'm"
    and size_of :: "'m \<Rightarrow> nat"
  assumes get_empty: "get empty k = None"
    and get_put: "get (put k v m) k' = (if k' = k then Some v else get m k')"
    and get_drop: "get (drop k m) k' = (if k' = k then None else get m k')"
    and size_empty: "size_of empty = 0"
    and size_put: "size_of (put k v m) = (if get m k = None then Suc (size_of m) else size_of m)"
    and size_drop: "size_of (drop k m) = (if get m k = None then size_of m else size_of m - 1)"
begin

lemma forall_put:
  "(\<forall>k'. pred_option (P k') (get (put k v m) k')) \<longleftrightarrow>
     P k v \<and> (\<forall>k'. k' \<noteq> k \<longrightarrow> pred_option (P k') (get m k'))"
  by (auto simp: get_put)

lemma forall_putI:
  "P k v \<Longrightarrow> (\<forall>k'. pred_option (P k') (get m k')) \<Longrightarrow> (\<forall>k'. pred_option (P k') (get (put k v m) k'))"
  by (simp add: get_put)

lemma forall_dropI:
  "(\<forall>k'. pred_option (P k') (get m k')) \<Longrightarrow> (\<forall>k'. pred_option (P k') (get (drop k m) k'))"
  by (simp add: get_drop)

lemma size_put_bound: "size_of m < n \<Longrightarrow> size_of (put k v m) \<le> n"
  by (simp add: size_put)

lemma size_drop_bound: "size_of m \<le> n \<Longrightarrow> size_of (drop k m) \<le> n"
  by (cases "get m k") (simp_all add: size_drop)

lemma move_apart:
  "(\<forall>k'. get m k' = None \<or> get n k' = None) \<Longrightarrow>
     (\<forall>k'. get (drop k m) k' = None \<or> get (put k v n) k' = None)"
  by (simp add: get_drop get_put)

lemma move_total:
  "get m k \<noteq> None \<Longrightarrow> get n k = None \<Longrightarrow> 0 < size_of m \<Longrightarrow>
     size_of (drop k m) + size_of (put k v n) = size_of m + size_of n"
  by (simp add: size_drop size_put)

end

interpretation bt: ordered_map bt_empty bt_get bt_insert bt_remove bt_len
  by unfold_locales (auto simp: bt_len_insert bt_len_remove bt_contains_def)

end
