(* ===== verification/Rounding.thy ===== *)
theory Rounding imports Complex_Main "HOL-Library.Log_Nat" "HOL-Library.Code_Target_Nat" begin

text \<open>
  Rounding to binary64, the arithmetic core of the IEEE-754 model in F64. A finite double is a
  rational \<open>m * 2 powi e\<close> with \<open>\<bar>m\<bar> \<le> 2 ^ 53\<close> and \<open>e \<ge> -1074\<close>. The function \<open>rnd\<close> takes a rational
  to the nearest such number, ties to the even significand, as if the exponent were unbounded
  above; F64 adds the overflow to infinity. Everything computes on rationals.
  The facts the components use: \<open>rnd\<close> is monotone, odd and idempotent, and the identity on
  integers up to \<open>2 ^ 53\<close>.
\<close>

section \<open>Binary logarithm of a rational\<close>

definition ilog2 :: "rat \<Rightarrow> int" where
  "ilog2 x = (let q = quotient_of x; k = bitlen (fst q) - bitlen (snd q)
              in if 2 powi k \<le> x then k else k - 1)"

lemma powi_less_iff: "(2 :: rat) powi a < 2 powi b \<longleftrightarrow> a < b"
  by (metis linorder_not_less one_less_numeral_iff power_int_increasing
      power_int_strict_increasing semiring_norm(76) less_imp_le)

lemma powi_le_iff: "(2 :: rat) powi a \<le> 2 powi b \<longleftrightarrow> a \<le> b"
  by (meson linorder_not_less powi_less_iff)

lemma powi_pos [simp]: "0 < (2 :: rat) powi a"
  by (simp add: zero_less_power_int)

lemma powi_nz [simp]: "(2 :: rat) powi a \<noteq> 0"
  by (simp add: power_int_not_zero)

lemma powi_split: "(2 :: rat) powi (a + b) = 2 powi a * 2 powi b"
  by (simp add: power_int_add)

lemma powi_diff: "(2 :: rat) powi (a - b) = 2 powi a / 2 powi b"
  by (simp add: power_int_diff)

lemma powi_int: "0 \<le> a \<Longrightarrow> (2 :: rat) powi a = of_int (2 ^ nat a)"
  by (simp add: power_int_def)

lemma bitlen_powi:
  assumes "0 < n"
  shows "2 powi (bitlen n - 1) \<le> (of_int n :: rat)" "(of_int n :: rat) < 2 powi bitlen n"
proof -
  have b: "2 ^ nat (bitlen n - 1) \<le> n" "n < 2 ^ nat (bitlen n)"
    using bitlen_bounds [OF assms] by auto
  have "0 < bitlen n" using assms by (simp add: bitlen_eq_zero_iff order.strict_iff_order bitlen_nonneg)
  then show "2 powi (bitlen n - 1) \<le> (of_int n :: rat)" "(of_int n :: rat) < 2 powi bitlen n"
    using b by (simp_all add: powi_int del: of_int_power)
qed

lemma ilog2_bounds:
  assumes "0 < x"
  shows "2 powi ilog2 x \<le> x" "x < 2 powi (ilog2 x + 1)"
proof -
  obtain n d where q: "quotient_of x = (n, d)" by fastforce
  have x: "x = of_int n / of_int d" and d: "0 < d"
    using quotient_of_div [OF q] quotient_of_denom_pos [OF q] by auto
  have n: "0 < n" using assms d unfolding x by (simp add: zero_less_divide_iff)
  define k where "k = bitlen n - bitlen d"
  have u: "x < 2 powi (k + 1)"
  proof -
    have "x < 2 powi bitlen n / of_int d"
      unfolding x using bitlen_powi(2) [OF n] d by (simp add: divide_strict_right_mono)
    also have "\<dots> \<le> 2 powi bitlen n / 2 powi (bitlen d - 1)"
      using bitlen_powi(1) [OF d] d by (intro divide_left_mono) simp_all
    finally show ?thesis
      unfolding k_def powi_diff [symmetric] by (simp add: algebra_simps)
  qed
  have l: "2 powi (k - 1) \<le> x"
  proof -
    have "2 powi (k - 1) = (2 powi (bitlen n - 1) :: rat) / 2 powi bitlen d"
      by (simp add: k_def algebra_simps flip: powi_diff)
    also have "\<dots> \<le> of_int n / 2 powi bitlen d"
      using bitlen_powi(1) [OF n] by (simp add: divide_right_mono)
    also have "\<dots> \<le> x"
      unfolding x using bitlen_powi(2) [OF d] d n by (intro divide_left_mono) simp_all
    finally show ?thesis .
  qed
  have i: "ilog2 x = (if 2 powi k \<le> x then k else k - 1)"
    by (simp add: ilog2_def q k_def)
  show "2 powi ilog2 x \<le> x" "x < 2 powi (ilog2 x + 1)"
    using u l by (simp_all add: i)
qed

lemma ilog2_unique:
  assumes "2 powi e \<le> x" "x < 2 powi (e + 1)"
  shows "ilog2 x = e"
proof -
  have x: "0 < x" using assms(1) powi_pos less_le_trans by blast
  have "2 powi ilog2 x < (2 :: rat) powi (e + 1)" "2 powi e < (2 :: rat) powi (ilog2 x + 1)"
    using ilog2_bounds [OF x] assms by (meson le_less_trans)+
  then show ?thesis by (simp add: powi_less_iff)
qed

lemma ilog2_less: "0 < x \<Longrightarrow> x < 2 powi e \<Longrightarrow> ilog2 x < e"
  using ilog2_bounds(1) [of x] by (metis le_less_trans powi_less_iff)

lemma ilog2_ge: "2 powi e \<le> x \<Longrightarrow> e \<le> ilog2 x"
  using ilog2_bounds(2) [of x] powi_pos [of e]
  by (metis le_less_trans less_le_trans powi_less_iff zless_add1_eq linorder_not_less less_le)

lemma ilog2_mono: "0 < x \<Longrightarrow> x \<le> y \<Longrightarrow> ilog2 x \<le> ilog2 y"
  using ilog2_bounds(1) [of x] ilog2_ge by (meson order_trans)

section \<open>Nearest integer, ties to even\<close>

definition rne :: "rat \<Rightarrow> int" where
  "rne x = (let f = \<lfloor>x\<rfloor>; r = x - of_int f
            in if r < 1 / 2 \<or> r = 1 / 2 \<and> even f then f else f + 1)"

lemma rne_of_int [simp]: "rne (of_int n) = n"
  by (simp add: rne_def)

lemma rne_floor: "\<lfloor>x\<rfloor> \<le> rne x" "rne x \<le> \<lfloor>x\<rfloor> + 1"
  by (simp_all add: rne_def Let_def)

lemma rne_mono: "x \<le> y \<Longrightarrow> rne x \<le> rne y"
proof (cases "\<lfloor>x\<rfloor> = \<lfloor>y\<rfloor>")
  case True
  assume "x \<le> y"
  with True show ?thesis by (simp add: rne_def Let_def)
next
  case False
  assume "x \<le> y"
  with False have "\<lfloor>x\<rfloor> + 1 \<le> \<lfloor>y\<rfloor>" by (metis floor_mono order_le_imp_less_or_eq zless_imp_add1_zle)
  then show ?thesis using rne_floor [of x] rne_floor [of y] by linarith
qed

lemma rne_le: "x \<le> of_int n \<Longrightarrow> rne x \<le> n"
  by (metis rne_mono rne_of_int)

lemma rne_ge: "of_int n \<le> x \<Longrightarrow> n \<le> rne x"
  by (metis rne_mono rne_of_int)

lemma rne_error: "\<bar>of_int (rne x) - x\<bar> \<le> 1 / 2"
proof -
  have "0 \<le> x - of_int \<lfloor>x\<rfloor>" "x - of_int \<lfloor>x\<rfloor> < 1" by linarith+
  then have "rne x = \<lfloor>x\<rfloor> \<and> x - of_int \<lfloor>x\<rfloor> \<le> 1 / 2 \<or> rne x = \<lfloor>x\<rfloor> + 1 \<and> 1 / 2 \<le> x - of_int \<lfloor>x\<rfloor>"
    by (auto simp: rne_def Let_def)
  then show ?thesis using \<open>0 \<le> x - of_int \<lfloor>x\<rfloor>\<close> \<open>x - of_int \<lfloor>x\<rfloor> < 1\<close> by (auto simp: abs_le_iff)
qed

lemma rne_uminus: "rne (- x) = - rne x"
proof (cases "x = of_int \<lfloor>x\<rfloor>")
  case True
  then show ?thesis by (metis of_int_minus rne_of_int)
next
  case False
  then have f: "\<lfloor>- x\<rfloor> = - \<lfloor>x\<rfloor> - 1"
    by (intro floor_unique) (simp_all, linarith+)
  then show ?thesis by (auto simp: rne_def Let_def)
qed

section \<open>Rounding to 53 significant bits\<close>

text \<open>The exponent of the last place of \<open>x\<close>, bounded below for the subnormal numbers.\<close>

definition fexp :: "rat \<Rightarrow> int" where
  "fexp x = max (ilog2 \<bar>x\<bar> - 52) (- 1074)"

definition rnd :: "rat \<Rightarrow> rat" where
  "rnd x = (if x = 0 then 0 else of_int (rne (x / 2 powi fexp x)) * 2 powi fexp x)"

lemma rnd_0 [simp]: "rnd 0 = 0"
  by (simp add: rnd_def)

lemma rnd_uminus [simp]: "rnd (- x) = - rnd x"
  by (simp add: rnd_def fexp_def rne_uminus)

lemma rnd_le_grid: "0 < x \<Longrightarrow> x \<le> of_int k * 2 powi fexp x \<Longrightarrow> rnd x \<le> of_int k * 2 powi fexp x"
  by (simp add: rnd_def rne_le pos_divide_le_eq)

lemma rnd_ge_grid: "0 < x \<Longrightarrow> of_int k * 2 powi fexp x \<le> x \<Longrightarrow> of_int k * 2 powi fexp x \<le> rnd x"
  by (simp add: rnd_def rne_ge pos_le_divide_eq)

lemma powi_on_grid: "e' \<le> e \<Longrightarrow> 2 powi e = of_int (2 ^ nat (e - e')) * (2 :: rat) powi e'"
  by (simp add: powi_int [of "e - e'", symmetric] flip: powi_split del: of_int_power)

lemma rnd_le_powi: "0 < x \<Longrightarrow> fexp x \<le> e \<Longrightarrow> x \<le> 2 powi e \<Longrightarrow> rnd x \<le> 2 powi e"
  using rnd_le_grid [of x "2 ^ nat (e - fexp x)"] by (simp only: powi_on_grid [of "fexp x" e])

lemma rnd_ge_powi: "0 < x \<Longrightarrow> fexp x \<le> e \<Longrightarrow> 2 powi e \<le> x \<Longrightarrow> 2 powi e \<le> rnd x"
  using rnd_ge_grid [of x "2 ^ nat (e - fexp x)"] by (simp only: powi_on_grid [of "fexp x" e])

lemma rnd_pos: "0 \<le> x \<Longrightarrow> 0 \<le> rnd x"
  using rnd_ge_grid [of x 0] by (cases "x = 0") auto

lemma fexp_mono: "0 < x \<Longrightarrow> x \<le> y \<Longrightarrow> fexp x \<le> fexp y"
  using ilog2_mono [of x y] by (simp add: fexp_def)

lemma rnd_mono_pos:
  assumes x: "0 < x" and le: "x \<le> y"
  shows "rnd x \<le> rnd y"
proof (cases "fexp x = fexp y")
  case True
  have "rne (x / 2 powi fexp y) \<le> rne (y / 2 powi fexp y)"
    using le by (intro rne_mono) (simp add: divide_right_mono)
  then show ?thesis using x le True by (simp add: rnd_def)
next
  case False
  have less: "fexp x < fexp y" using False fexp_mono [OF x le] by simp
  then have fy: "fexp y = ilog2 y - 52" and l: "ilog2 x < ilog2 y"
    using x le by (auto simp: fexp_def max_def split: if_splits)
  have "rnd x \<le> 2 powi ilog2 y"
  proof (rule rnd_le_powi [OF x])
    show "fexp x \<le> ilog2 y" using less fy by simp
    show "x \<le> 2 powi ilog2 y" using ilog2_bounds(1) [of y] x le l ilog2_bounds(2) [OF x]
      by (meson less_le_trans less_imp_le powi_le_iff zless_imp_add1_zle)
  qed
  also have "\<dots> \<le> rnd y"
    using x le fy ilog2_bounds(1) [of y] by (intro rnd_ge_powi) auto
  finally show ?thesis .
qed

lemma rnd_mono: "x \<le> y \<Longrightarrow> rnd x \<le> rnd y"
proof -
  assume le: "x \<le> y"
  consider "0 < x" | "x \<le> 0" "0 \<le> y" | "y < 0" by linarith
  then show ?thesis
  proof cases
    case 1
    then show ?thesis using le by (rule rnd_mono_pos)
  next
    case 2
    then show ?thesis using rnd_pos [of y] rnd_pos [of "- x"] by simp
  next
    case 3
    then show ?thesis using rnd_mono_pos [of "- y" "- x"] le by simp
  qed
qed

lemma rnd_exact:
  assumes "y = of_int m * 2 powi e" "fexp y \<le> e"
  shows "rnd y = y"
proof -
  have "y = of_int (m * 2 ^ nat (e - fexp y)) * 2 powi fexp y"
    unfolding of_int_mult mult.assoc powi_on_grid [OF assms(2), symmetric] by (rule assms(1))
  then have "y / 2 powi fexp y = of_int (m * 2 ^ nat (e - fexp y))"
    by (metis nonzero_mult_div_cancel_right powi_nz)
  then show ?thesis
    by (metis rnd_def rne_of_int nonzero_eq_divide_eq powi_nz)
qed

lemma fexp_small:
  assumes "m \<noteq> 0" "\<bar>m\<bar> < 2 ^ 53" "- 1074 \<le> e"
  shows "fexp (of_int m * 2 powi e) \<le> e"
proof -
  have "of_int \<bar>m\<bar> < (2 :: rat) powi 53"
    using assms(2) by (simp add: power_int_def flip: of_int_abs)
  then have "\<bar>of_int m * 2 powi e\<bar> < (2 :: rat) powi (e + 53)"
    by (simp add: powi_split abs_mult mult.commute)
  then have "ilog2 \<bar>of_int m * 2 powi e\<bar> < e + 53"
    using assms(1) by (intro ilog2_less) simp_all
  then show ?thesis using assms(3) by (simp add: fexp_def)
qed

lemma rnd_representable:
  assumes "\<bar>m\<bar> \<le> 2 ^ 53" "- 1074 \<le> e"
  shows "rnd (of_int m * 2 powi e) = of_int m * 2 powi e"
proof -
  consider "m = 0" | "m \<noteq> 0" "\<bar>m\<bar> < 2 ^ 53" | "m = 2 ^ 53 \<or> m = - (2 ^ 53)"
    using assms(1) by linarith
  then show ?thesis
  proof cases
    case 2
    then show ?thesis using assms(2) by (intro rnd_exact [OF refl] fexp_small)
  next
    case 3
    then obtain n :: int where n: "m = n * 2" "n \<noteq> 0" "\<bar>n\<bar> < 2 ^ 53" by auto
    then have e: "of_int m * (2 :: rat) powi e = of_int n * 2 powi (e + 1)"
      by (simp add: powi_split)
    show ?thesis
      unfolding e using n assms(2) by (intro rnd_exact [OF refl] fexp_small) auto
  qed simp
qed

lemma rne_significand:
  assumes "x \<noteq> 0"
  shows "\<bar>rne (x / 2 powi fexp x)\<bar> \<le> 2 ^ 53"
proof -
  have "\<bar>x\<bar> \<le> 2 powi (ilog2 \<bar>x\<bar> + 1)"
    using ilog2_bounds(2) [of "\<bar>x\<bar>"] assms by simp
  also have "\<dots> \<le> 2 powi (53 + fexp x)"
    by (simp add: powi_le_iff fexp_def)
  finally have "\<bar>x\<bar> \<le> of_int (2 ^ 53) * 2 powi fexp x"
    by (simp only: powi_split powi_int) simp
  then have "x / 2 powi fexp x \<le> of_int (2 ^ 53)" "of_int (- (2 ^ 53)) \<le> x / 2 powi fexp x"
    by (auto simp: pos_divide_le_eq pos_le_divide_eq abs_le_iff)
  then show ?thesis using rne_le rne_ge by (metis abs_le_iff minus_le_iff)
qed

lemma rnd_idem [simp]: "rnd (rnd x) = rnd x"
proof (cases "x = 0")
  case False
  then show ?thesis
    using rnd_representable [OF rne_significand, of x "fexp x"] by (simp add: rnd_def fexp_def)
qed simp

lemma rnd_of_int: "\<bar>n\<bar> \<le> 2 ^ 53 \<Longrightarrow> rnd (of_int n) = of_int n"
  using rnd_representable [of n 0] by simp

lemma rnd_of_nat: "n \<le> 2 ^ 53 \<Longrightarrow> rnd (of_nat n) = of_nat n"
  using rnd_of_int [of "int n"] by simp

lemma rnd_of_nat_iff_mono: "m \<le> n \<Longrightarrow> rnd (of_nat m) \<le> rnd (of_nat n)"
  by (simp add: rnd_mono)

lemma rnd_upper: "rnd y = y \<Longrightarrow> x \<le> y \<Longrightarrow> rnd x \<le> y"
  using rnd_mono [of x y] by simp

lemma rnd_lower: "rnd y = y \<Longrightarrow> y \<le> x \<Longrightarrow> y \<le> rnd x"
  using rnd_mono [of y x] by simp

lemma rnd_eq_0_or_grid: "\<exists>m e. \<bar>m\<bar> \<le> 2 ^ 53 \<and> - 1074 \<le> e \<and> rnd x = of_int m * 2 powi e"
proof (cases "x = 0")
  case True
  then show ?thesis by (intro exI [of _ 0]) simp
next
  case False
  then have "rnd x = of_int (rne (x / 2 powi fexp x)) * 2 powi fexp x" "- 1074 \<le> fexp x"
    by (simp_all add: rnd_def fexp_def)
  then show ?thesis using rne_significand [OF False] by blast
qed

section \<open>Integer square root\<close>

function isqrt :: "int \<Rightarrow> int" where
  "isqrt n = (if n \<le> 0 then 0
              else let r = 2 * isqrt (n div 4) in if (r + 1) * (r + 1) \<le> n then r + 1 else r)"
  by pat_completeness auto
termination
  by (relation "measure nat") auto

declare isqrt.simps [simp del]

lemma isqrt_bounds: "0 \<le> n \<Longrightarrow> 0 \<le> isqrt n \<and> isqrt n * isqrt n \<le> n \<and> n < (isqrt n + 1) * (isqrt n + 1)"
proof (induction n rule: isqrt.induct)
  case (1 n)
  show ?case
  proof (cases "n = 0")
    case False
    define r where "r = isqrt (n div 4)"
    have r: "0 \<le> r" "r * r \<le> n div 4" "n div 4 < (r + 1) * (r + 1)"
      using 1 False by (simp_all add: r_def)
    then have "4 * (r * r) \<le> n" "n < 4 * ((r + 1) * (r + 1))" by linarith+
    then show ?thesis
      using False r(1) 1 by (simp add: isqrt.simps [of n] r_def [symmetric] Let_def algebra_simps)
  qed (simp add: isqrt.simps)
qed

section \<open>Evaluation on integers\<close>

text \<open>
  Code equations that carry out \<open>ilog2\<close> and \<open>rnd\<close> on numerators and denominators, so that
  evaluating a rounded operation normalises one fraction only.
\<close>

function pow2 :: "int \<Rightarrow> int" where
  "pow2 e = (if e \<le> 0 then 1
             else let h = pow2 (e div 2) in if even e then h * h else 2 * (h * h))"
  by pat_completeness auto
termination
  by (relation "measure nat") auto

declare pow2.simps [simp del]

lemma pow2_eq: "pow2 e = 2 ^ nat e"
proof (induction e rule: pow2.induct)
  case (1 e)
  show ?case
  proof (cases "e \<le> 0")
    case False
    then have "nat e = nat (e div 2) + nat (e div 2) + (if even e then 0 else 1)"
      by (auto elim!: evenE oddE)
    then show ?thesis
      using 1 False by (simp add: pow2.simps [of e] Let_def power_add)
  qed (simp add: pow2.simps)
qed

lemma powi_pow2: "(2 :: rat) powi e = (if 0 \<le> e then of_int (pow2 e) else 1 / of_int (pow2 (- e)))"
  by (simp add: pow2_eq power_int_def power_one_over inverse_eq_divide)

lemma pow2_pos [simp]: "0 < pow2 e"
  by (simp add: pow2_eq)

definition rne_div :: "int \<Rightarrow> int \<Rightarrow> int" where
  "rne_div a b = (let f = a div b; r = 2 * (a mod b) in if r < b \<or> r = b \<and> even f then f else f + 1)"

lemma rne_div_eq:
  assumes "0 < b"
  shows "rne_div a b = rne (of_int a / of_int b)"
proof -
  have f: "\<lfloor>of_int a / of_int b :: rat\<rfloor> = a div b"
    by (simp add: floor_divide_of_int_eq)
  have "of_int a = of_int (a div b) * of_int b + (of_int (a mod b) :: rat)"
    by (metis div_mult_mod_eq of_int_add of_int_mult)
  then have r: "of_int a / of_int b - of_int (a div b) = (of_int (a mod b) :: rat) / of_int b"
    using assms by (simp add: field_simps)
  have h: "m / of_int b < 1 / 2 \<longleftrightarrow> 2 * m < of_int b"
    "m / of_int b = 1 / 2 \<longleftrightarrow> 2 * m = of_int b" for m :: rat
    using assms by (auto simp: field_simps)
  have c: "(of_int (a mod b) :: rat) / of_int b < 1 / 2 \<longleftrightarrow> 2 * (a mod b) < b"
    "(of_int (a mod b) :: rat) / of_int b = 1 / 2 \<longleftrightarrow> 2 * (a mod b) = b"
    unfolding h by (metis of_int_less_iff of_int_mult of_int_numeral)
      (metis of_int_eq_iff of_int_mult of_int_numeral)
  show ?thesis
    unfolding rne_def rne_div_def Let_def f r c by (rule refl)
qed

lemma quotient_of_E:
  obtains n d where "quotient_of x = (n, d)" "x = of_int n / of_int d" "0 < d"
  by (metis quotient_of_denom_pos quotient_of_div surj_pair)

lemma ilog2_code [code]:
  "ilog2 x = (let q = quotient_of x; n = fst q; d = snd q; k = bitlen n - bitlen d
              in if (if 0 \<le> k then pow2 k * d \<le> n else d \<le> n * pow2 (- k)) then k else k - 1)"
proof -
  obtain n d where q: "quotient_of x = (n, d)" "x = of_int n / of_int d" "0 < d"
    by (rule quotient_of_E)
  have d: "p \<le> x \<longleftrightarrow> p * of_int d \<le> of_int n" "1 / s \<le> x \<longleftrightarrow> of_int d \<le> of_int n * s"
    if "0 < s" for p s
    using q(3) that unfolding q(2) by (simp_all add: field_simps)
  have "2 powi k \<le> x \<longleftrightarrow> (if 0 \<le> k then pow2 k * d \<le> n else d \<le> n * pow2 (- k))" for k
  proof (cases "0 \<le> k")
    case True
    then show ?thesis
      by (simp only: powi_pow2 if_True d(1) [OF zero_less_one] of_int_mult [symmetric] of_int_le_iff)
  next
    case False
    have "0 < (of_int (pow2 (- k)) :: rat)" by simp
    from d(2) [OF this] show ?thesis
      using False by (simp only: powi_pow2 if_False of_int_mult [symmetric] of_int_le_iff)
  qed
  then show ?thesis by (simp add: ilog2_def q(1) Let_def)
qed

lemma div_powi_nonneg:
  "0 \<le> g \<Longrightarrow> of_int n / of_int d / (2 :: rat) powi g = of_int n / of_int (d * pow2 g)"
  by (simp add: powi_pow2)

lemma div_powi_neg:
  "g < 0 \<Longrightarrow> of_int n / of_int d / (2 :: rat) powi g = of_int (n * pow2 (- g)) / of_int d"
  by (simp add: powi_pow2)

lemma rnd_code [code]:
  "rnd x = (let q = quotient_of x; n = fst q; d = snd q; g = fexp x
     in if n = 0 then 0
        else if 0 \<le> g then of_int (rne_div n (d * pow2 g) * pow2 g)
        else Fract (rne_div (n * pow2 (- g)) d) (pow2 (- g)))"
proof -
  obtain n d where q: "quotient_of x = (n, d)" "x = of_int n / of_int d" "0 < d"
    by (rule quotient_of_E)
  have z: "x = 0 \<longleftrightarrow> n = 0" using q(2,3) by simp
  define g where "g = fexp x"
  have r: "rnd x = (if n = 0 then 0 else of_int (rne (of_int n / of_int d / 2 powi g)) * 2 powi g)"
    by (simp only: rnd_def z g_def flip: q(2))
  show ?thesis
  proof (cases "0 \<le> g")
    case True
    have "0 < d * pow2 g" using q(3) by simp
    from rne_div_eq [OF this, of n] show ?thesis
      unfolding r q(1) Let_def fst_conv snd_conv g_def [symmetric] div_powi_nonneg [OF True]
      using True by (simp add: powi_pow2)
  next
    case False
    then have g: "g < 0" by simp
    from rne_div_eq [OF q(3), of "n * pow2 (- g)"] show ?thesis
      unfolding r q(1) Let_def fst_conv snd_conv g_def [symmetric] div_powi_neg [OF g]
      using False by (simp add: powi_pow2 Fract_of_int_quotient)
  qed
qed

end
