(* ===== verification/F64.thy ===== *)
theory F64 imports Rounding Rill_Prelude begin

text \<open>
  Rust's \<open>f64\<close>: IEEE-754 binary64 with round-to-nearest-even, as an executable model. A value is
  a NaN, an infinity, a negative zero, or a rational that is exactly representable; the sum,
  difference, product, quotient and square root are the exact results rounded by \<open>rnd\<close>, with
  overflow to infinity and signed zeros. Comparisons are false on NaN and identify the two zeros.
  The functions \<open>ln\<close>, \<open>exp\<close> and \<open>powf\<close> of the platform's libm, whose precision Rust leaves
  open, are not defined here: components that call them take them as parameters.
\<close>

section \<open>Values\<close>

datatype fp = FNaN | FInf bool | FNegZero | FFin rat

definition overflows :: "rat \<Rightarrow> bool" where
  "overflows y \<longleftrightarrow> y \<noteq> 0 \<and> 1024 \<le> ilog2 \<bar>y\<bar>"

lemma overflows_iff: "overflows y \<longleftrightarrow> 2 powi 1024 \<le> \<bar>y\<bar>"
proof (cases "y = 0")
  case False
  then have y: "0 < \<bar>y\<bar>" by simp
  have "1024 \<le> ilog2 \<bar>y\<bar> \<longleftrightarrow> 2 powi 1024 \<le> \<bar>y\<bar>"
    using ilog2_ge [of 1024 "\<bar>y\<bar>"] ilog2_less [OF y, of 1024] by force
  then show ?thesis using False by (simp only: overflows_def) simp
qed (simp add: overflows_def)

fun canonical :: "fp \<Rightarrow> bool" where
  "canonical (FFin q) = (rnd q = q \<and> \<not> overflows q)"
| "canonical _ = True"

typedef f64 = "{x. canonical x}"
  morphisms fp_of f64_of
  by (rule exI [of _ FNaN]) simp

setup_lifting type_definition_f64

instantiation f64 :: equal begin

definition equal_f64 :: "f64 \<Rightarrow> f64 \<Rightarrow> bool" where
  "equal_f64 x y \<longleftrightarrow> fp_of x = fp_of y"

instance
  by standard (simp add: equal_f64_def fp_of_inject)

end

section \<open>Operations on raw values\<close>

fun fp_val :: "fp \<Rightarrow> rat" where
  "fp_val (FFin q) = q"
| "fp_val _ = 0"

fun fp_finite :: "fp \<Rightarrow> bool" where
  "fp_finite (FFin q) = True"
| "fp_finite FNegZero = True"
| "fp_finite _ = False"

fun fp_sign :: "fp \<Rightarrow> bool" where
  "fp_sign FNaN = False"
| "fp_sign (FInf s) = s"
| "fp_sign FNegZero = True"
| "fp_sign (FFin q) = (q < 0)"

definition fp_zero :: "bool \<Rightarrow> fp" where
  "fp_zero s = (if s then FNegZero else FFin 0)"

definition fp_round :: "bool \<Rightarrow> rat \<Rightarrow> fp" where
  "fp_round s q = (let y = rnd q in
     if y = 0 then fp_zero s else if overflows y then FInf (y < 0) else FFin y)"

fun fp_uminus :: "fp \<Rightarrow> fp" where
  "fp_uminus FNaN = FNaN"
| "fp_uminus (FInf s) = FInf (\<not> s)"
| "fp_uminus FNegZero = FFin 0"
| "fp_uminus (FFin q) = (if q = 0 then FNegZero else FFin (- q))"

definition fp_plus :: "fp \<Rightarrow> fp \<Rightarrow> fp" where
  "fp_plus x y =
     (if fp_finite x \<and> fp_finite y then
        (let z = fp_val x + fp_val y in
         if z = 0 then fp_zero (fp_sign x \<and> fp_sign y) else fp_round False z)
      else if x = FNaN \<or> y = FNaN then FNaN
      else if fp_finite x then y
      else if fp_finite y then x
      else if x = y then x else FNaN)"

definition fp_times :: "fp \<Rightarrow> fp \<Rightarrow> fp" where
  "fp_times x y =
     (if fp_finite x \<and> fp_finite y then fp_round (fp_sign x \<noteq> fp_sign y) (fp_val x * fp_val y)
      else if x = FNaN \<or> y = FNaN then FNaN
      else if fp_finite x \<and> fp_val x = 0 \<or> fp_finite y \<and> fp_val y = 0 then FNaN
      else FInf (fp_sign x \<noteq> fp_sign y))"

definition fp_divide :: "fp \<Rightarrow> fp \<Rightarrow> fp" where
  "fp_divide x y =
     (if x = FNaN \<or> y = FNaN then FNaN
      else if fp_finite x \<and> fp_finite y then
        (if fp_val y \<noteq> 0 then fp_round (fp_sign x \<noteq> fp_sign y) (fp_val x / fp_val y)
         else if fp_val x = 0 then FNaN else FInf (fp_sign x \<noteq> fp_sign y))
      else if fp_finite x then fp_zero (fp_sign x \<noteq> fp_sign y)
      else if fp_finite y then FInf (fp_sign x \<noteq> fp_sign y)
      else FNaN)"

text \<open>
  The square root of a positive rational: the significand is the integer square root of the
  argument scaled to 53 bits, rounded to the nearest; the last rounding only turns the value into
  a double.
\<close>

definition sqrt_sig :: "rat \<Rightarrow> rat" where
  "sqrt_sig t = (let s = isqrt \<lfloor>t\<rfloor>; h = (of_int s + 1 / 2) * (of_int s + 1 / 2)
     in of_int (if t < h \<or> t = h \<and> even s then s else s + 1))"

definition rat_sqrt :: "rat \<Rightarrow> rat" where
  "rat_sqrt q = (let g = max (ilog2 q div 2 - 52) (- 1074)
     in sqrt_sig (q / 2 powi (2 * g)) * 2 powi g)"

fun fp_sqrt :: "fp \<Rightarrow> fp" where
  "fp_sqrt FNaN = FNaN"
| "fp_sqrt (FInf s) = (if s then FNaN else FInf False)"
| "fp_sqrt FNegZero = FNegZero"
| "fp_sqrt (FFin q) = (if q < 0 then FNaN else if q = 0 then FFin 0
                        else fp_round False (rat_sqrt q))"

fun fp_rank :: "fp \<Rightarrow> int" where
  "fp_rank (FInf s) = (if s then - 1 else 1)"
| "fp_rank _ = 0"

definition fp_less :: "fp \<Rightarrow> fp \<Rightarrow> bool" where
  "fp_less x y \<longleftrightarrow> x \<noteq> FNaN \<and> y \<noteq> FNaN \<and>
     (fp_rank x < fp_rank y \<or> fp_rank x = fp_rank y \<and> fp_val x < fp_val y)"

definition fp_less_eq :: "fp \<Rightarrow> fp \<Rightarrow> bool" where
  "fp_less_eq x y \<longleftrightarrow> x \<noteq> FNaN \<and> y \<noteq> FNaN \<and>
     (fp_rank x < fp_rank y \<or> fp_rank x = fp_rank y \<and> fp_val x \<le> fp_val y)"

lemma overflows_simps [simp]: "\<not> overflows 0" "overflows (- y) \<longleftrightarrow> overflows y"
  by (simp_all add: overflows_def)

lemma canonical_zero [simp]: "canonical (fp_zero s)"
  by (simp add: fp_zero_def)

lemma canonical_round [simp]: "canonical (fp_round s q)"
  by (simp add: fp_round_def Let_def)

lemma canonical_uminus: "canonical x \<Longrightarrow> canonical (fp_uminus x)"
  by (cases x) simp_all

lemma canonical_plus: "canonical x \<Longrightarrow> canonical y \<Longrightarrow> canonical (fp_plus x y)"
  by (simp add: fp_plus_def Let_def)

lemma canonical_times: "canonical (fp_times x y)"
  by (simp add: fp_times_def)

lemma canonical_divide: "canonical (fp_divide x y)"
  by (simp add: fp_divide_def)

lemma canonical_sqrt: "canonical (fp_sqrt x)"
  by (cases x) simp_all

section \<open>The type and its operations\<close>

instantiation f64 :: "{zero, one, plus, minus, times, inverse, uminus, abs, ord}" begin

lift_definition zero_f64 :: f64 is "FFin 0"
  by (simp add: overflows_def)

lift_definition one_f64 :: f64 is "FFin 1"
  using rnd_of_int [of 1] by (simp add: overflows_iff)

lift_definition plus_f64 :: "f64 \<Rightarrow> f64 \<Rightarrow> f64" is fp_plus by (rule canonical_plus)

lift_definition uminus_f64 :: "f64 \<Rightarrow> f64" is fp_uminus by (rule canonical_uminus)

lift_definition minus_f64 :: "f64 \<Rightarrow> f64 \<Rightarrow> f64" is "\<lambda>x y. fp_plus x (fp_uminus y)"
  by (intro canonical_plus canonical_uminus)

lift_definition times_f64 :: "f64 \<Rightarrow> f64 \<Rightarrow> f64" is fp_times by (rule canonical_times)

lift_definition divide_f64 :: "f64 \<Rightarrow> f64 \<Rightarrow> f64" is fp_divide by (rule canonical_divide)

lift_definition inverse_f64 :: "f64 \<Rightarrow> f64" is "fp_divide (FFin 1)" by (rule canonical_divide)

lift_definition abs_f64 :: "f64 \<Rightarrow> f64" is "\<lambda>x. if fp_sign x then fp_uminus x else x"
  by (simp add: canonical_uminus)

lift_definition less_f64 :: "f64 \<Rightarrow> f64 \<Rightarrow> bool" is fp_less .

lift_definition less_eq_f64 :: "f64 \<Rightarrow> f64 \<Rightarrow> bool" is fp_less_eq .

instance ..

end

lift_definition f_nan :: f64 is FNaN by simp

lift_definition f_inf :: f64 is "FInf False" by simp

lift_definition f_neg_inf :: f64 is "FInf True" by simp

lift_definition f_sqrt :: "f64 \<Rightarrow> f64" is fp_sqrt by (rule canonical_sqrt)

text \<open>A decimal literal, or an integer converted with \<open>as f64\<close>: the nearest double.\<close>

lift_definition f_of_rat :: "rat \<Rightarrow> f64" is "fp_round False" by simp

definition f_of_nat :: "nat \<Rightarrow> f64" where
  "f_of_nat n = f_of_rat (of_nat n)"

definition f_of_u64 :: "u64 \<Rightarrow> f64" where
  "f_of_u64 n = f_of_nat (unat n)"

lift_definition is_finite :: "f64 \<Rightarrow> bool" is fp_finite .

lift_definition is_nan :: "f64 \<Rightarrow> bool" is "\<lambda>x. x = FNaN" .

lift_definition is_sign_negative :: "f64 \<Rightarrow> bool" is fp_sign .

lift_definition f_val :: "f64 \<Rightarrow> rat" is fp_val .

text \<open>Rust's \<open>==\<close> on \<open>f64\<close>, which is not the equality of values.\<close>

definition feq :: "f64 \<Rightarrow> f64 \<Rightarrow> bool" where
  "feq x y \<longleftrightarrow> x \<le> y \<and> y \<le> x"

text \<open>\<open>f64::max\<close> and \<open>f64::min\<close> ignore a NaN argument; \<open>clamp\<close> keeps it.\<close>

definition f_max :: "f64 \<Rightarrow> f64 \<Rightarrow> f64" where
  "f_max x y = (if is_nan x then y else if is_nan y then x else if x < y then y else x)"

definition f_min :: "f64 \<Rightarrow> f64 \<Rightarrow> f64" where
  "f_min x y = (if is_nan x then y else if is_nan y then x else if y < x then y else x)"

definition f_clamp :: "f64 \<Rightarrow> f64 \<Rightarrow> f64 \<Rightarrow> f64" where
  "f_clamp lo hi x = (let y = (if x < lo then lo else x) in if hi < y then hi else y)"

section \<open>Facts on doubles\<close>

named_theorems f64_simps \<open>values and finiteness of rounded operations\<close>

lemma fp_round_finite: "fp_finite (fp_round s q) \<longleftrightarrow> \<not> overflows (rnd q)"
  by (auto simp: fp_round_def fp_zero_def Let_def)

lemma fp_round_val: "fp_finite (fp_round s q) \<Longrightarrow> fp_val (fp_round s q) = rnd q"
  by (auto simp: fp_round_def fp_zero_def Let_def split: if_splits)

lemma fp_round_not_nan [simp]: "fp_round s q \<noteq> FNaN"
  by (simp add: fp_round_def fp_zero_def Let_def)

lemma fp_zero_simps [simp]: "fp_finite (fp_zero s)" "fp_val (fp_zero s) = 0" "fp_zero s \<noteq> FNaN"
  by (simp_all add: fp_zero_def)

lemma fp_not_finite: "\<not> fp_finite x \<longleftrightarrow> x = FNaN \<or> x = FInf True \<or> x = FInf False"
  by (cases x) auto

lemma fp_uminus_facts [simp]:
  "fp_finite (fp_uminus x) \<longleftrightarrow> fp_finite x" "fp_val (fp_uminus x) = - fp_val x"
  by (cases x; simp)+

lemma fp_abs_facts:
  "fp_val (if fp_sign x then fp_uminus x else x) = \<bar>fp_val x\<bar>"
  by (cases x) simp_all

lemma fp_finite_rank: "fp_finite x \<Longrightarrow> fp_rank x = 0 \<and> x \<noteq> FNaN"
  by (cases x) simp_all

lemma fp_rank_finite: "fp_rank x = 0 \<Longrightarrow> x \<noteq> FNaN \<Longrightarrow> fp_finite x"
  by (cases x) (simp_all split: if_splits)

lemma fp_rank_bounds: "- 1 \<le> fp_rank x \<and> fp_rank x \<le> 1"
  by (cases x) simp_all

lemma is_finite_simps [simp]:
  "is_finite 0" "is_finite 1" "\<not> is_finite f_nan" "\<not> is_finite f_inf" "\<not> is_finite f_neg_inf"
  by (transfer; simp)+

lemma f_val_simps [simp]: "f_val 0 = 0" "f_val 1 = 1"
  by (transfer; simp)+

lemma finite_not_nan [simp]: "is_finite x \<Longrightarrow> \<not> is_nan x"
  by transfer auto

lemma f_val_rnd [simp]: "rnd (f_val x) = f_val x"
  by transfer (metis canonical.simps(1) fp_val.elims rnd_0)

lemma f_val_no_overflow [simp]: "\<not> overflows (f_val x)"
  by transfer (metis canonical.simps(1) fp_val.elims overflows_simps(1))

lemma nan_cases:
  obtains (finite) "is_finite x" | (nan) "x = f_nan" | (inf) "x = f_inf" | (neg_inf) "x = f_neg_inf"
  by transfer (use fp_not_finite in blast)

lemma finite_uminus [simp]: "is_finite (- x) \<longleftrightarrow> is_finite x"
  by transfer simp

lemma f_val_uminus [simp]: "f_val (- x) = - f_val x"
  by transfer simp

lemma finite_abs [simp]: "is_finite \<bar>x\<bar> \<longleftrightarrow> is_finite (x :: f64)"
  by transfer simp

lemma f_val_abs [simp]: "f_val \<bar>x\<bar> = \<bar>f_val x\<bar>"
  by transfer (rule fp_abs_facts)

lemma minus_as_plus: "x - y = x + - (y :: f64)"
  by transfer simp

text \<open>A finite result has finite arguments, and its value is the rounded exact result.\<close>

lemma finite_plusD: "is_finite (x + y) \<Longrightarrow> is_finite x \<and> is_finite y"
  by transfer (auto simp: fp_plus_def split: if_splits)

lemma f_val_plus [f64_simps]: "is_finite (x + y) \<Longrightarrow> f_val (x + y) = rnd (f_val x + f_val y)"
proof transfer
  fix x y
  assume f: "fp_finite (fp_plus x y)"
  then have xy: "fp_finite x" "fp_finite y"
    by (auto simp: fp_plus_def split: if_splits)
  then show "fp_val (fp_plus x y) = rnd (fp_val x + fp_val y)"
    using f by (cases "fp_val x + fp_val y = 0") (simp_all add: fp_plus_def Let_def fp_round_val)
qed

lemma finite_plus: "is_finite x \<Longrightarrow> is_finite y \<Longrightarrow> is_finite (x + y) \<longleftrightarrow> \<not> overflows (rnd (f_val x + f_val y))"
  by transfer (simp add: fp_plus_def Let_def fp_round_finite)

lemma finite_minusD: "is_finite (x - y) \<Longrightarrow> is_finite x \<and> is_finite y"
  unfolding minus_as_plus by (drule finite_plusD) simp

lemma f_val_minus [f64_simps]: "is_finite (x - y) \<Longrightarrow> f_val (x - y) = rnd (f_val x - f_val y)"
  unfolding minus_as_plus by (simp add: f_val_plus)

lemma finite_minus: "is_finite x \<Longrightarrow> is_finite y \<Longrightarrow> is_finite (x - y) \<longleftrightarrow> \<not> overflows (rnd (f_val x - f_val y))"
  unfolding minus_as_plus by (simp add: finite_plus)

lemma finite_timesD: "is_finite (x * y) \<Longrightarrow> is_finite x \<and> is_finite y"
  by transfer (auto simp: fp_times_def split: if_splits)

lemma f_val_times [f64_simps]: "is_finite (x * y) \<Longrightarrow> f_val (x * y) = rnd (f_val x * f_val y)"
  by transfer (auto simp: fp_times_def fp_round_val split: if_splits)

lemma finite_times: "is_finite x \<Longrightarrow> is_finite y \<Longrightarrow> is_finite (x * y) \<longleftrightarrow> \<not> overflows (rnd (f_val x * f_val y))"
  by transfer (simp add: fp_times_def fp_round_finite)

lemma f_val_divide [f64_simps]:
  "is_finite (x / y) \<Longrightarrow> is_finite y \<Longrightarrow> f_val (x / y) = rnd (f_val x / f_val y)"
  by transfer (auto simp: fp_divide_def fp_round_val split: if_splits)

lemma finite_divide:
  "is_finite x \<Longrightarrow> is_finite y \<Longrightarrow> f_val y \<noteq> 0 \<Longrightarrow>
     is_finite (x / y) \<longleftrightarrow> \<not> overflows (rnd (f_val x / f_val y))"
  by transfer (auto simp: fp_divide_def fp_round_finite)

lemma finite_divideD: "is_finite (x / y) \<Longrightarrow> is_finite y \<Longrightarrow> is_finite x \<and> f_val y \<noteq> 0"
  by transfer (auto simp: fp_divide_def split: if_splits)

section \<open>Order\<close>

lemma less_eq_finite [f64_simps]: "is_finite x \<Longrightarrow> is_finite y \<Longrightarrow> x \<le> y \<longleftrightarrow> f_val x \<le> f_val y"
  by transfer (simp add: fp_less_eq_def fp_finite_rank)

lemma less_finite [f64_simps]: "is_finite x \<Longrightarrow> is_finite y \<Longrightarrow> x < y \<longleftrightarrow> f_val x < f_val y"
  by transfer (simp add: fp_less_def fp_finite_rank)

lemma feq_finite [f64_simps]: "is_finite x \<Longrightarrow> is_finite y \<Longrightarrow> feq x y \<longleftrightarrow> f_val x = f_val y"
  by (auto simp: feq_def less_eq_finite)

lemma less_eq_not_nan: "x \<le> y \<Longrightarrow> \<not> is_nan x \<and> \<not> is_nan y"
  by transfer (simp add: fp_less_eq_def)

lemma less_not_nan: "x < y \<Longrightarrow> \<not> is_nan x \<and> \<not> is_nan (y :: f64)"
  by transfer (simp add: fp_less_def)

lemma f_less_imp_le: "x < y \<Longrightarrow> x \<le> (y :: f64)"
  by transfer (auto simp: fp_less_def fp_less_eq_def)

lemma f_not_less: "\<not> is_nan x \<Longrightarrow> \<not> is_nan y \<Longrightarrow> \<not> x < y \<longleftrightarrow> y \<le> (x :: f64)"
  by transfer (auto simp: fp_less_def fp_less_eq_def)

lemma f_le_trans: "x \<le> y \<Longrightarrow> y \<le> z \<Longrightarrow> x \<le> (z :: f64)"
  by transfer (auto simp: fp_less_eq_def)

lemma f_less_le_trans: "x < y \<Longrightarrow> y \<le> z \<Longrightarrow> x < (z :: f64)"
  by transfer (auto simp: fp_less_eq_def fp_less_def)

lemma f_le_less_trans: "x \<le> y \<Longrightarrow> y < z \<Longrightarrow> x < (z :: f64)"
  by transfer (auto simp: fp_less_eq_def fp_less_def)

lemma f_le_refl: "\<not> is_nan x \<Longrightarrow> x \<le> (x :: f64)"
  by transfer (auto simp: fp_less_eq_def)

lemma f_not_nan_finite_between: "is_finite x \<Longrightarrow> is_finite z \<Longrightarrow> x \<le> y \<Longrightarrow> y \<le> z \<Longrightarrow> is_finite y"
  by transfer (auto simp: fp_less_eq_def intro: fp_rank_finite dest!: fp_finite_rank)

lemma feq_refl: "\<not> is_nan x \<Longrightarrow> feq x x"
  by (simp add: feq_def f_le_refl)

lemma feq_sym: "feq x y \<longleftrightarrow> feq y x"
  by (auto simp: feq_def)

lemma feq_trans: "feq x y \<Longrightarrow> feq y z \<Longrightarrow> feq x z"
  by (auto simp: feq_def intro: f_le_trans)

lemma fp_same_rank_finite:
  "fp_less_eq x y \<Longrightarrow> fp_less_eq y x \<Longrightarrow> fp_finite x \<longleftrightarrow> fp_finite y"
proof -
  assume "fp_less_eq x y" "fp_less_eq y x"
  then have "x \<noteq> FNaN" "y \<noteq> FNaN" "fp_rank x = fp_rank y"
    by (auto simp: fp_less_eq_def)
  then show ?thesis using fp_finite_rank fp_rank_finite by metis
qed

lemma feq_finite_iff: "feq x y \<Longrightarrow> is_finite x \<longleftrightarrow> is_finite y"
  unfolding feq_def by transfer (blast dest: fp_same_rank_finite)

section \<open>Conversions, extrema, square root\<close>

lemma f_of_rat_finite: "is_finite (f_of_rat q) \<longleftrightarrow> \<not> overflows (rnd q)"
  by transfer (simp add: fp_round_finite)

lemma f_val_of_rat: "is_finite (f_of_rat q) \<Longrightarrow> f_val (f_of_rat q) = rnd q"
  by transfer (simp add: fp_round_val)

lemma overflows_small: "\<bar>y\<bar> \<le> 2 powi e \<Longrightarrow> e < 1024 \<Longrightarrow> \<not> overflows y"
  unfolding overflows_iff using powi_less_iff [of e 1024] by linarith

lemma rnd_small_no_overflow:
  assumes "\<bar>q\<bar> \<le> 2 powi e" "- 1074 \<le> e" "e < 1024"
  shows "\<not> overflows (rnd q)"
proof -
  have r: "rnd (2 powi e) = 2 powi e" using rnd_representable [of 1 e] assms(2) by simp
  have "q \<le> 2 powi e" "- (2 powi e) \<le> q" using assms(1) by (auto simp: abs_le_iff)
  then have "rnd q \<le> 2 powi e" "- (2 powi e) \<le> rnd q"
    using rnd_upper [OF r] rnd_lower [of "- (2 powi e)"] by (simp_all add: r)
  then show ?thesis using assms(3) by (intro overflows_small [of _ e]) (auto simp: abs_le_iff)
qed

lemma f_of_nat_finite [simp]: "n < 2 ^ 64 \<Longrightarrow> is_finite (f_of_nat n)"
proof -
  assume "n < 2 ^ 64"
  then have "(of_nat n :: rat) \<le> of_nat (2 ^ 64)" by (simp only: of_nat_le_iff)
  then have "\<bar>of_nat n :: rat\<bar> \<le> 2 powi 64" by (simp add: power_int_def)
  then show ?thesis
    unfolding f_of_nat_def f_of_rat_finite by (rule rnd_small_no_overflow) simp_all
qed

lemma f_val_of_nat: "n < 2 ^ 64 \<Longrightarrow> f_val (f_of_nat n) = rnd (of_nat n)"
  using f_of_nat_finite [of n] unfolding f_of_nat_def by (rule f_val_of_rat)

lemma f_val_of_nat_exact: "n \<le> 2 ^ 53 \<Longrightarrow> f_val (f_of_nat n) = of_nat n"
  by (simp add: f_val_of_nat rnd_of_nat)

lemma f_of_u64_finite [simp]: "is_finite (f_of_u64 n)"
  using unat_u64_less [of n] by (simp add: f_of_u64_def)

lemma f_val_of_u64: "f_val (f_of_u64 n) = rnd (of_nat (unat n))"
  using unat_u64_less [of n] by (simp add: f_of_u64_def f_val_of_nat)

lemma f_val_of_u64_ge: "m \<le> 2 ^ 53 \<Longrightarrow> m \<le> unat n \<Longrightarrow> of_nat m \<le> f_val (f_of_u64 n)"
  unfolding f_val_of_u64 by (rule rnd_lower) (simp_all only: rnd_of_nat of_nat_le_iff)

lemma f_val_of_u64_pos: "0 < unat n \<Longrightarrow> 0 < f_val (f_of_u64 n)"
  using f_val_of_u64_ge [of 1 n] by simp

lemma f_max_finite: "is_finite x \<Longrightarrow> is_finite y \<Longrightarrow> is_finite (f_max x y)"
  by (simp add: f_max_def)

lemma f_val_max: "is_finite x \<Longrightarrow> is_finite y \<Longrightarrow> f_val (f_max x y) = max (f_val x) (f_val y)"
  by (simp add: f_max_def less_finite max_def)

lemma f_min_finite: "is_finite x \<Longrightarrow> is_finite y \<Longrightarrow> is_finite (f_min x y)"
  by (simp add: f_min_def)

lemma f_val_min: "is_finite x \<Longrightarrow> is_finite y \<Longrightarrow> f_val (f_min x y) = min (f_val x) (f_val y)"
  by (simp add: f_min_def less_finite min_def)

lemma f_clamp_bounds:
  "is_finite lo \<Longrightarrow> is_finite hi \<Longrightarrow> lo \<le> hi \<Longrightarrow> \<not> is_nan x \<Longrightarrow>
     is_finite (f_clamp lo hi x) \<and> lo \<le> f_clamp lo hi x \<and> f_clamp lo hi x \<le> hi"
proof -
  assume a: "is_finite lo" "is_finite hi" "lo \<le> hi" "\<not> is_nan x"
  show ?thesis
  proof (cases "x < lo")
    case True
    then show ?thesis using a by (auto simp: f_clamp_def f_le_refl f_not_less)
  next
    case False
    then have x: "lo \<le> x" using a f_not_less finite_not_nan by blast
    show ?thesis
    proof (cases "hi < x")
      case True
      then show ?thesis using a False by (simp add: f_clamp_def f_le_refl)
    next
      case h: False
      then have "x \<le> hi" using a f_not_less finite_not_nan by blast
      then show ?thesis
        using a x False h f_not_nan_finite_between [of lo hi x] by (simp add: f_clamp_def)
    qed
  qed
qed

end
