(* ===== verification/Rill_Error.thy ===== *)
theory Rill_Error imports F64 begin

text \<open>
  The error type of the online-learning library (\<open>src/error.rs\<close>) and its validation helpers.
  A message built with \<open>format!\<close> is the concatenated string.
\<close>

datatype rill_error =
    DimensionMismatch (dm_expected: usize) (dm_actual: usize)
  | EmptyFeatures
  | InvalidWindowSize
  | InvalidLearningRate f64
  | InvalidParameter string f64
  | NonFiniteValue string f64
  | InvalidProbability f64
  | InsufficientData
  | IncompatibleStateVersion u32 u32
  | UnsortedFeatureIds
  | DuplicateFeatureId u64
  | InvalidHashDimension usize
  | UnknownCategory string
  | MissingValue usize
  | InvalidCapacity usize
  | InvalidSignificanceLevel f64
  | InvalidArmCount usize
  | InvalidEpsilon f64
  | InvalidArm usize usize
  | InvalidReward f64
  | InvalidFeatureCount usize
  | InvalidState string

definition ensure_finite :: "string \<Rightarrow> f64 \<Rightarrow> rill_error + unit" where
  "ensure_finite field v = (if is_finite v then Inr () else Inl (NonFiniteValue field v))"

definition checked_finite_add :: "f64 \<Rightarrow> f64 \<Rightarrow> string \<Rightarrow> rill_error + f64" where
  "checked_finite_add current delta field =
     (let v = current + delta in and_then (ensure_finite field v) (\<lambda>_. Inr v))"

definition checked_increment :: "u64 \<Rightarrow> string \<Rightarrow> rill_error + u64" where
  "checked_increment v field =
     ok_or (checked_add_u64 v 1) (InvalidState (field @ '' counter overflow''))"

definition validate_features :: "usize \<Rightarrow> f64 list \<Rightarrow> rill_error + unit" where
  "validate_features expected features =
     (if features = [] then Inl EmptyFeatures
      else if length features \<noteq> expected then Inl (DimensionMismatch expected (length features))
      else try_for_each (ensure_finite ''feature'') features)"

definition ensure_finite_target :: "f64 \<Rightarrow> rill_error + unit" where
  "ensure_finite_target v = ensure_finite ''target'' v"

lemma ensure_finite_Inr [result_simps]: "ensure_finite field v = Inr u \<longleftrightarrow> is_finite v"
  by (simp add: ensure_finite_def)

lemma ensure_finite_Inl [result_simps]:
  "ensure_finite field v = Inl e \<longleftrightarrow> \<not> is_finite v \<and> e = NonFiniteValue field v"
  by (auto simp: ensure_finite_def)

lemma checked_finite_add_Inr [result_simps]:
  "checked_finite_add a b field = Inr v \<longleftrightarrow> v = a + b \<and> is_finite (a + b)"
  by (auto simp: checked_finite_add_def Let_def ensure_finite_def)

lemma checked_increment_Inr [result_simps]:
  "checked_increment v field = Inr w \<longleftrightarrow> unat v + 1 < 2 ^ 64 \<and> w = v + 1"
  by (auto simp: checked_increment_def result_simps checked_simps)

lemma checked_increment_Inl [result_simps]:
  "checked_increment v field = Inl e \<longleftrightarrow>
     unat v + 1 = 2 ^ 64 \<and> e = InvalidState (field @ '' counter overflow'')"
  using unat_u64_less [of v] by (auto simp: checked_increment_def result_simps checked_simps)

lemma unat_checked_increment: "checked_increment v field = Inr w \<Longrightarrow> unat w = unat v + 1"
  by (auto simp: result_simps unat_add_u64)

lemma checked_increment_gt: "checked_increment v field = Inr w \<Longrightarrow> v < w"
  by (drule unat_checked_increment) (simp add: word_less_nat_alt)

lemma validate_features_Inr [result_simps]:
  "validate_features n xs = Inr u \<longleftrightarrow> xs \<noteq> [] \<and> length xs = n \<and> (\<forall>x \<in> set xs. is_finite x)"
  by (auto simp: validate_features_def result_simps)

end
