(* ===== verification/Decision_Ledger.thy ===== *)
theory Decision_Ledger imports BTree_Map Rill_Error begin

text \<open>
  The bounded ledger of decisions with delayed feedback, \<open>src/decision/mod.rs\<close>. Contexts and
  actions are generic in the source through the trait \<open>BoundedDecisionValue\<close> and \<open>PartialEq\<close>;
  here a record of the two operations is passed along. An operation on \<open>&mut self\<close> returns its
  result together with the ledger it leaves behind, on the error paths as well, so that atomicity
  is a theorem and not a convention of the model.
\<close>

section \<open>Errors and bounded values\<close>

datatype decision_ledger_error =
    InvalidLedgerCapacity | InvalidTimeRange | NonFiniteReward | PendingCapacityExceeded
  | CompletedCapacityExceeded | ValueTooLarge | InvalidValue | DecisionConflict
  | UnknownDecision | DuplicateFeedback | FeedbackBeforeDecision | FeedbackExpired
  | GenerationMismatch | ActionMismatch

fun ledger_error_msg :: "decision_ledger_error \<Rightarrow> string" where
  "ledger_error_msg InvalidLedgerCapacity = ''decision ledger capacities must be greater than zero''"
| "ledger_error_msg InvalidTimeRange = ''decision expiry precedes its creation time''"
| "ledger_error_msg NonFiniteReward = ''decision reward must be finite''"
| "ledger_error_msg PendingCapacityExceeded = ''pending decision capacity is exhausted''"
| "ledger_error_msg CompletedCapacityExceeded = ''completed decision capacity is exhausted''"
| "ledger_error_msg ValueTooLarge = ''decision context or action exceeds its configured byte limit''"
| "ledger_error_msg InvalidValue = ''decision context or action is invalid''"
| "ledger_error_msg DecisionConflict = ''decision id already exists with different facts''"
| "ledger_error_msg UnknownDecision = ''feedback references an unknown decision''"
| "ledger_error_msg DuplicateFeedback = ''feedback was already applied''"
| "ledger_error_msg FeedbackBeforeDecision = ''feedback predates the decision''"
| "ledger_error_msg FeedbackExpired = ''feedback arrived after decision expiry''"
| "ledger_error_msg GenerationMismatch = ''feedback model generation does not match the decision''"
| "ledger_error_msg ActionMismatch = ''feedback action does not match the decision''"

record 'v value_ops =
  v_eq :: "'v \<Rightarrow> 'v \<Rightarrow> bool"
  v_validate :: "'v \<Rightarrow> usize \<Rightarrow> decision_ledger_error + unit"

text \<open>The implementations for \<open>Vec<f64>\<close>, \<open>Vec<u8>\<close>, \<open>String\<close> and the fixed-size integers.\<close>

definition validate_vec_f64 :: "f64 list \<Rightarrow> usize \<Rightarrow> decision_ledger_error + unit" where
  "validate_vec_f64 xs max_bytes =
     (if (case checked_mul_usize (length xs) 8 of None \<Rightarrow> True | Some bytes \<Rightarrow> bytes > max_bytes)
      then Inl ValueTooLarge
      else if \<exists>x \<in> set xs. \<not> is_finite x then Inl InvalidValue
      else Inr ())"

definition validate_bytes :: "'b list \<Rightarrow> usize \<Rightarrow> decision_ledger_error + unit" where
  "validate_bytes xs max_bytes = (if length xs > max_bytes then Inl ValueTooLarge else Inr ())"

definition validate_fixed :: "usize \<Rightarrow> 'v \<Rightarrow> usize \<Rightarrow> decision_ledger_error + unit" where
  "validate_fixed width v max_bytes = (if width > max_bytes then Inl ValueTooLarge else Inr ())"

definition vec_f64_ops :: "f64 list value_ops" where
  "vec_f64_ops = \<lparr>v_eq = list_all2 feq, v_validate = validate_vec_f64\<rparr>"

definition bytes_ops :: "'b list value_ops" where
  "bytes_ops = \<lparr>v_eq = (=), v_validate = validate_bytes\<rparr>"

definition fixed_ops :: "usize \<Rightarrow> 'v value_ops" where
  "fixed_ops width = \<lparr>v_eq = (=), v_validate = validate_fixed width\<rparr>"

definition usize_ops :: "usize value_ops" where
  "usize_ops = fixed_ops 8"

section \<open>State\<close>

record ledger_config =
  max_pending :: usize
  max_completed :: usize
  max_context_bytes :: usize
  max_action_bytes :: usize

definition default_max_context_bytes :: usize where
  "default_max_context_bytes = 1024 * 1024"

definition default_max_action_bytes :: usize where
  "default_max_action_bytes = 64 * 1024"

definition ledger_config_new :: "usize \<Rightarrow> usize \<Rightarrow> decision_ledger_error + ledger_config" where
  "ledger_config_new mp mc =
     (if mp = 0 \<or> mc = 0 then Inl InvalidLedgerCapacity
      else Inr \<lparr>max_pending = mp, max_completed = mc,
                max_context_bytes = default_max_context_bytes,
                max_action_bytes = default_max_action_bytes\<rparr>)"

definition with_value_limits ::
    "ledger_config \<Rightarrow> usize \<Rightarrow> usize \<Rightarrow> decision_ledger_error + ledger_config" where
  "with_value_limits cfg ctx act =
     (if ctx = 0 \<or> act = 0 then Inl InvalidLedgerCapacity
      else Inr (cfg\<lparr>max_context_bytes := ctx, max_action_bytes := act\<rparr>))"

definition ledger_config_default :: ledger_config where
  "ledger_config_default = \<lparr>max_pending = 1024, max_completed = 4096,
     max_context_bytes = default_max_context_bytes, max_action_bytes = default_max_action_bytes\<rparr>"

record ('c, 'a) pending_decision =
  pd_id :: u128
  pd_context :: 'c
  pd_action :: 'a
  pd_created_at :: u64
  pd_expires_at :: u64
  pd_model_generation :: u64

record 'a decision_outcome =
  do_decision_id :: u128
  do_action :: 'a
  do_reward :: f64
  do_observed_at :: u64
  do_model_generation :: u64

record ('c, 'a) completed_decision =
  cd_decision :: "('c, 'a) pending_decision"
  cd_reward :: f64
  cd_observed_at :: u64

datatype registration_status = Registered | PendingReplay | CompletedReplay

record decision_receipt =
  rc_id :: u128
  rc_status :: registration_status

datatype feedback_status = Applied

definition decision_ledger_state_version :: u32 where
  "decision_ledger_state_version = 1"

record ('c, 'a) decision_ledger =
  dl_state_version :: u32
  dl_config :: ledger_config
  dl_pending :: "(u128, ('c, 'a) pending_decision) btree"
  dl_completed :: "(u128, ('c, 'a) completed_decision) btree"

text \<open>The derived \<open>PartialEq\<close> of \<open>PendingDecision\<close> compares every field.\<close>

definition pending_eq ::
    "'c value_ops \<Rightarrow> 'a value_ops \<Rightarrow> ('c, 'a) pending_decision \<Rightarrow> ('c, 'a) pending_decision \<Rightarrow> bool" where
  "pending_eq cv av d e \<longleftrightarrow>
     pd_id d = pd_id e \<and> v_eq cv (pd_context d) (pd_context e) \<and> v_eq av (pd_action d) (pd_action e) \<and>
     pd_created_at d = pd_created_at e \<and> pd_expires_at d = pd_expires_at e \<and>
     pd_model_generation d = pd_model_generation e"

section \<open>Operations\<close>

definition ledger_new :: "ledger_config \<Rightarrow> decision_ledger_error + ('c, 'a) decision_ledger" where
  "ledger_new cfg =
     (if max_pending cfg = 0 \<or> max_completed cfg = 0 \<or> max_context_bytes cfg = 0
         \<or> max_action_bytes cfg = 0
      then Inl InvalidLedgerCapacity
      else Inr \<lparr>dl_state_version = decision_ledger_state_version, dl_config = cfg,
                dl_pending = bt_empty, dl_completed = bt_empty\<rparr>)"

definition register ::
    "'c value_ops \<Rightarrow> 'a value_ops \<Rightarrow> ('c, 'a) pending_decision \<Rightarrow> ('c, 'a) decision_ledger
     \<Rightarrow> (decision_ledger_error + decision_receipt) \<times> ('c, 'a) decision_ledger" where
  "register cv av d l =
     (if pd_expires_at d < pd_created_at d then (Inl InvalidTimeRange, l)
      else case v_validate cv (pd_context d) (max_context_bytes (dl_config l)) of
        Inl e \<Rightarrow> (Inl e, l)
      | Inr _ \<Rightarrow>
     (case v_validate av (pd_action d) (max_action_bytes (dl_config l)) of
        Inl e \<Rightarrow> (Inl e, l)
      | Inr _ \<Rightarrow>
     (case bt_get (dl_pending l) (pd_id d) of
        Some existing \<Rightarrow>
          (if pending_eq cv av existing d
           then (Inr \<lparr>rc_id = pd_id d, rc_status = PendingReplay\<rparr>, l)
           else (Inl DecisionConflict, l))
      | None \<Rightarrow>
     (case bt_get (dl_completed l) (pd_id d) of
        Some existing \<Rightarrow>
          (if pending_eq cv av (cd_decision existing) d
           then (Inr \<lparr>rc_id = pd_id d, rc_status = CompletedReplay\<rparr>, l)
           else (Inl DecisionConflict, l))
      | None \<Rightarrow>
      if bt_len (dl_pending l) \<ge> max_pending (dl_config l) then (Inl PendingCapacityExceeded, l)
      else (Inr \<lparr>rc_id = pd_id d, rc_status = Registered\<rparr>,
            l\<lparr>dl_pending := bt_insert (pd_id d) d (dl_pending l)\<rparr>)))))"

definition apply_feedback ::
    "'a value_ops \<Rightarrow> 'a decision_outcome \<Rightarrow> ('c, 'a) decision_ledger
     \<Rightarrow> (decision_ledger_error + feedback_status) \<times> ('c, 'a) decision_ledger" where
  "apply_feedback av oc l =
     (if \<not> is_finite (do_reward oc) then (Inl NonFiniteReward, l)
      else case v_validate av (do_action oc) (max_action_bytes (dl_config l)) of
        Inl e \<Rightarrow> (Inl e, l)
      | Inr _ \<Rightarrow>
      if bt_contains (dl_completed l) (do_decision_id oc) then (Inl DuplicateFeedback, l)
      else case bt_get (dl_pending l) (do_decision_id oc) of
        None \<Rightarrow> (Inl UnknownDecision, l)
      | Some d \<Rightarrow>
      if do_observed_at oc < pd_created_at d then (Inl FeedbackBeforeDecision, l)
      else if do_observed_at oc > pd_expires_at d then (Inl FeedbackExpired, l)
      else if do_model_generation oc \<noteq> pd_model_generation d then (Inl GenerationMismatch, l)
      else if \<not> v_eq av (do_action oc) (pd_action d) then (Inl ActionMismatch, l)
      else if bt_len (dl_completed l) \<ge> max_completed (dl_config l)
        then (Inl CompletedCapacityExceeded, l)
      else (Inr Applied,
            l\<lparr>dl_pending := bt_remove (do_decision_id oc) (dl_pending l),
              dl_completed := bt_insert (do_decision_id oc)
                \<lparr>cd_decision = d, cd_reward = do_reward oc, cd_observed_at = do_observed_at oc\<rparr>
                (dl_completed l)\<rparr>))"

definition ledger_pending :: "('c, 'a) decision_ledger \<Rightarrow> u128 \<Rightarrow> ('c, 'a) pending_decision option" where
  "ledger_pending l i = bt_get (dl_pending l) i"

definition ledger_completed :: "('c, 'a) decision_ledger \<Rightarrow> u128 \<Rightarrow> ('c, 'a) completed_decision option" where
  "ledger_completed l i = bt_get (dl_completed l) i"

definition pending_len :: "('c, 'a) decision_ledger \<Rightarrow> usize" where
  "pending_len l = bt_len (dl_pending l)"

definition completed_len :: "('c, 'a) decision_ledger \<Rightarrow> usize" where
  "completed_len l = bt_len (dl_completed l)"

definition clear_expired ::
    "u64 \<Rightarrow> ('c, 'a) decision_ledger \<Rightarrow> u128 list \<times> ('c, 'a) decision_ledger" where
  "clear_expired now l =
     (let ids = map fst (filter (\<lambda>e. pd_expires_at (snd e) < now) (bt_entries (dl_pending l)))
      in (ids, l\<lparr>dl_pending := bt_remove_all ids (dl_pending l)\<rparr>))"

definition clear_completed_before ::
    "u64 \<Rightarrow> ('c, 'a) decision_ledger \<Rightarrow> u128 list \<times> ('c, 'a) decision_ledger" where
  "clear_completed_before before l =
     (let ids = map fst (filter (\<lambda>e. cd_observed_at (snd e) < before) (bt_entries (dl_completed l)))
      in (ids, l\<lparr>dl_completed := bt_remove_all ids (dl_completed l)\<rparr>))"

definition state_error :: "decision_ledger_error \<Rightarrow> rill_error" where
  "state_error e = InvalidState (ledger_error_msg e)"

definition validate_pending_entry ::
    "'c value_ops \<Rightarrow> 'a value_ops \<Rightarrow> ('c, 'a) decision_ledger
     \<Rightarrow> u128 \<times> ('c, 'a) pending_decision \<Rightarrow> rill_error + unit" where
  "validate_pending_entry cv av l = (\<lambda>(i, d).
     if i \<noteq> pd_id d \<or> pd_expires_at d < pd_created_at d
     then Inl (InvalidState ''pending decision has inconsistent id or timestamps'')
     else if bt_contains (dl_completed l) i
     then Inl (InvalidState ''decision exists in pending and completed sets'')
     else and_then (map_err state_error (v_validate cv (pd_context d) (max_context_bytes (dl_config l))))
            (\<lambda>_. map_err state_error (v_validate av (pd_action d) (max_action_bytes (dl_config l)))))"

definition validate_completed_entry ::
    "'c value_ops \<Rightarrow> 'a value_ops \<Rightarrow> ('c, 'a) decision_ledger
     \<Rightarrow> u128 \<times> ('c, 'a) completed_decision \<Rightarrow> rill_error + unit" where
  "validate_completed_entry cv av l = (\<lambda>(i, c).
     let d = cd_decision c in
     if i \<noteq> pd_id d \<or> pd_expires_at d < pd_created_at d \<or> cd_observed_at c < pd_created_at d
        \<or> cd_observed_at c > pd_expires_at d \<or> \<not> is_finite (cd_reward c)
     then Inl (InvalidState ''completed decision has inconsistent state'')
     else and_then (map_err state_error (v_validate cv (pd_context d) (max_context_bytes (dl_config l))))
            (\<lambda>_. map_err state_error (v_validate av (pd_action d) (max_action_bytes (dl_config l)))))"

definition validate_structure ::
    "'c value_ops \<Rightarrow> 'a value_ops \<Rightarrow> ('c, 'a) decision_ledger \<Rightarrow> rill_error + unit" where
  "validate_structure cv av l =
     (if dl_state_version l \<noteq> decision_ledger_state_version
      then Inl (IncompatibleStateVersion decision_ledger_state_version (dl_state_version l))
      else if max_pending (dl_config l) = 0 \<or> max_completed (dl_config l) = 0
        \<or> max_context_bytes (dl_config l) = 0 \<or> max_action_bytes (dl_config l) = 0
      then Inl (InvalidState ''decision ledger capacity must be non-zero'')
      else if bt_len (dl_pending l) > max_pending (dl_config l)
        \<or> bt_len (dl_completed l) > max_completed (dl_config l)
      then Inl (InvalidState ''decision ledger exceeds its configured capacity'')
      else and_then (try_for_each (validate_pending_entry cv av l) (bt_entries (dl_pending l)))
             (\<lambda>_. try_for_each (validate_completed_entry cv av l) (bt_entries (dl_completed l))))"

text \<open>The closures of \<open>validate_state_with\<close> are functions of the value they check.\<close>

definition validate_state_with ::
    "'c value_ops \<Rightarrow> 'a value_ops \<Rightarrow> ('c \<Rightarrow> rill_error + unit) \<Rightarrow> ('a \<Rightarrow> rill_error + unit)
     \<Rightarrow> ('c, 'a) decision_ledger \<Rightarrow> rill_error + unit" where
  "validate_state_with cv av fc fa l =
     and_then (validate_structure cv av l)
       (\<lambda>_. and_then (try_for_each (\<lambda>d. and_then (fc (pd_context d)) (\<lambda>_. fa (pd_action d)))
                        (bt_values (dl_pending l)))
              (\<lambda>_. try_for_each (\<lambda>c. and_then (fc (pd_context (cd_decision c)))
                                        (\<lambda>_. fa (pd_action (cd_decision c))))
                      (bt_values (dl_completed l))))"


section \<open>The invariant\<close>

definition ledger_wf :: "'c value_ops \<Rightarrow> 'a value_ops \<Rightarrow> ('c, 'a) decision_ledger \<Rightarrow> bool" where
  "ledger_wf cv av l \<longleftrightarrow> validate_structure cv av l = Inr ()"

definition values_ok :: "'c value_ops \<Rightarrow> 'a value_ops \<Rightarrow> ledger_config \<Rightarrow> ('c, 'a) pending_decision \<Rightarrow> bool" where
  "values_ok cv av cfg d \<longleftrightarrow> v_validate cv (pd_context d) (max_context_bytes cfg) = Inr ()
     \<and> v_validate av (pd_action d) (max_action_bytes cfg) = Inr ()"

definition pending_ok :: "'c value_ops \<Rightarrow> 'a value_ops \<Rightarrow> ledger_config \<Rightarrow> u128 \<Rightarrow> ('c, 'a) pending_decision \<Rightarrow> bool" where
  "pending_ok cv av cfg i d \<longleftrightarrow> pd_id d = i \<and> pd_created_at d \<le> pd_expires_at d \<and> values_ok cv av cfg d"

definition completed_ok :: "'c value_ops \<Rightarrow> 'a value_ops \<Rightarrow> ledger_config \<Rightarrow> u128 \<Rightarrow> ('c, 'a) completed_decision \<Rightarrow> bool" where
  "completed_ok cv av cfg i c \<longleftrightarrow> pending_ok cv av cfg i (cd_decision c) \<and> is_finite (cd_reward c)
     \<and> pd_created_at (cd_decision c) \<le> cd_observed_at c \<and> cd_observed_at c \<le> pd_expires_at (cd_decision c)"

lemma ledger_wf_iff:
  "ledger_wf cv av l \<longleftrightarrow>
     dl_state_version l = decision_ledger_state_version \<and>
     0 < max_pending (dl_config l) \<and> 0 < max_completed (dl_config l) \<and>
     0 < max_context_bytes (dl_config l) \<and> 0 < max_action_bytes (dl_config l) \<and>
     bt_len (dl_pending l) \<le> max_pending (dl_config l) \<and>
     bt_len (dl_completed l) \<le> max_completed (dl_config l) \<and>
     (\<forall>i. pred_option (pending_ok cv av (dl_config l) i) (bt_get (dl_pending l) i)) \<and>
     (\<forall>i. bt_get (dl_pending l) i = None \<or> bt_get (dl_completed l) i = None) \<and>
     (\<forall>i. pred_option (completed_ok cv av (dl_config l) i) (bt_get (dl_completed l) i))"
proof -
  have p: "validate_pending_entry cv av l (i, d) = Inr () \<longleftrightarrow>
      pending_ok cv av (dl_config l) i d \<and> bt_get (dl_completed l) i = None" for i d
    by (auto simp: validate_pending_entry_def pending_ok_def values_ok_def result_simps bt_contains_def)
  have c: "validate_completed_entry cv av l (i, d) = Inr () \<longleftrightarrow> completed_ok cv av (dl_config l) i d" for i d
    by (auto simp: validate_completed_entry_def completed_ok_def pending_ok_def values_ok_def
        result_simps Let_def)
  have a: "try_for_each (validate_pending_entry cv av l) (bt_entries (dl_pending l)) = Inr () \<longleftrightarrow>
      (\<forall>i d. bt_get (dl_pending l) i = Some d \<longrightarrow>
         pending_ok cv av (dl_config l) i d \<and> bt_get (dl_completed l) i = None)"
    by (auto simp: result_simps p bt_get_iff)
  have b: "try_for_each (validate_completed_entry cv av l) (bt_entries (dl_completed l)) = Inr () \<longleftrightarrow>
      (\<forall>i d. bt_get (dl_completed l) i = Some d \<longrightarrow> completed_ok cv av (dl_config l) i d)"
    by (auto simp: result_simps c bt_get_iff)
  have o: "(\<forall>i. pred_option (P i) (m i)) \<longleftrightarrow> (\<forall>i d. m i = Some d \<longrightarrow> P i d)" for P and m :: "_ \<Rightarrow> _ option"
    by (auto simp: pred_option_def)
  have e: "(\<forall>i. bt_get (dl_pending l) i = None \<or> bt_get (dl_completed l) i = None) \<longleftrightarrow>
      (\<forall>i d. bt_get (dl_pending l) i = Some d \<longrightarrow> bt_get (dl_completed l) i = None)"
    by (metis option.exhaust option.simps(3))
  show ?thesis
    unfolding ledger_wf_def validate_structure_def o e
    by (auto simp: and_then_Inr a b not_less)
qed

lemma ledger_new_wf: "ledger_new cfg = Inr l \<Longrightarrow> ledger_wf cv av l"
  by (auto simp: ledger_new_def ledger_wf_iff split: if_splits)

section \<open>Operations as steps\<close>

datatype ('c, 'a) ledger_op =
    Op_register "('c, 'a) pending_decision"
  | Op_feedback "'a decision_outcome"
  | Op_clear_expired u64
  | Op_clear_completed u64

fun ledger_apply ::
    "'c value_ops \<Rightarrow> 'a value_ops \<Rightarrow> ('c, 'a) decision_ledger \<Rightarrow> ('c, 'a) ledger_op \<Rightarrow> ('c, 'a) decision_ledger" where
  "ledger_apply cv av l (Op_register d) = snd (register cv av d l)"
| "ledger_apply cv av l (Op_feedback oc) = snd (apply_feedback av oc l)"
| "ledger_apply cv av l (Op_clear_expired t) = snd (clear_expired t l)"
| "ledger_apply cv av l (Op_clear_completed t) = snd (clear_completed_before t l)"

definition ledger_run ::
    "'c value_ops \<Rightarrow> 'a value_ops \<Rightarrow> ('c, 'a) decision_ledger \<Rightarrow> ('c, 'a) ledger_op list \<Rightarrow> ('c, 'a) decision_ledger" where
  "ledger_run cv av = foldl (ledger_apply cv av)"

lemma ledger_run_simps [simp]:
  "ledger_run cv av l [] = l"
  "ledger_run cv av l (x # xs) = ledger_run cv av (ledger_apply cv av l x) xs"
  by (simp_all add: ledger_run_def)

lemmas ledger_ops_def = register_def apply_feedback_def clear_expired_def clear_completed_before_def

lemma ledger_apply_frame:
  "dl_config (ledger_apply cv av l x) = dl_config l"
  "dl_state_version (ledger_apply cv av l x) = dl_state_version l"
  by (cases x; simp add: ledger_ops_def Let_def split: sum.split option.split)+

text \<open>What a successful registration and accepted feedback do to the two maps.\<close>

lemma register_not_new:
  "fst (register cv av d l) \<noteq> Inr \<lparr>rc_id = pd_id d, rc_status = Registered\<rparr> \<Longrightarrow>
     snd (register cv av d l) = l"
  by (auto simp: register_def split: if_splits sum.splits option.splits)

lemma register_new:
  "fst (register cv av d l) = Inr \<lparr>rc_id = pd_id d, rc_status = Registered\<rparr> \<longleftrightarrow>
     pending_ok cv av (dl_config l) (pd_id d) d \<and>
     bt_get (dl_pending l) (pd_id d) = None \<and> bt_get (dl_completed l) (pd_id d) = None \<and>
     bt_len (dl_pending l) < max_pending (dl_config l)"
  by (auto simp: register_def pending_ok_def values_ok_def not_less not_le
      split: if_splits sum.splits option.splits)

lemma register_new_state:
  "fst (register cv av d l) = Inr \<lparr>rc_id = pd_id d, rc_status = Registered\<rparr> \<Longrightarrow>
     snd (register cv av d l) = l\<lparr>dl_pending := bt_insert (pd_id d) d (dl_pending l)\<rparr>"
  by (auto simp: register_def split: if_splits sum.splits option.splits)

definition feedback_accepted ::
    "'a value_ops \<Rightarrow> ledger_config \<Rightarrow> 'a decision_outcome \<Rightarrow> ('c, 'a) pending_decision \<Rightarrow> bool" where
  "feedback_accepted av cfg oc d \<longleftrightarrow> is_finite (do_reward oc) \<and>
     v_validate av (do_action oc) (max_action_bytes cfg) = Inr () \<and>
     pd_created_at d \<le> do_observed_at oc \<and> do_observed_at oc \<le> pd_expires_at d \<and>
     do_model_generation oc = pd_model_generation d \<and> v_eq av (do_action oc) (pd_action d)"

lemma feedback_error: "fst (apply_feedback av oc l) \<noteq> Inr Applied \<Longrightarrow> snd (apply_feedback av oc l) = l"
  by (auto simp: apply_feedback_def split: if_splits sum.splits option.splits)

lemma feedback_applied:
  "fst (apply_feedback av oc l) = Inr Applied \<longleftrightarrow>
     bt_get (dl_completed l) (do_decision_id oc) = None \<and>
     bt_len (dl_completed l) < max_completed (dl_config l) \<and>
     (\<exists>d. bt_get (dl_pending l) (do_decision_id oc) = Some d \<and> feedback_accepted av (dl_config l) oc d)"
  by (auto simp: apply_feedback_def feedback_accepted_def bt_contains_def not_less not_le
      split: if_splits sum.splits option.splits)

lemma feedback_applied_state:
  "fst (apply_feedback av oc l) = Inr Applied \<Longrightarrow>
     bt_get (dl_pending l) (do_decision_id oc) = Some d \<Longrightarrow>
     snd (apply_feedback av oc l) = l\<lparr>dl_pending := bt_remove (do_decision_id oc) (dl_pending l),
       dl_completed := bt_insert (do_decision_id oc)
         \<lparr>cd_decision = d, cd_reward = do_reward oc, cd_observed_at = do_observed_at oc\<rparr> (dl_completed l)\<rparr>"
  by (auto simp: apply_feedback_def split: if_splits sum.splits option.splits)

lemma clear_expired_get:
  "bt_get (dl_pending (snd (clear_expired now l))) i =
     (case bt_get (dl_pending l) i of None \<Rightarrow> None
      | Some d \<Rightarrow> if pd_expires_at d < now then None else Some d)"
  using bt_get_remove_where [of "\<lambda>d. pd_expires_at d < now" "dl_pending l" i]
  by (simp add: clear_expired_def Let_def del: bt_get_remove_all)

lemma clear_completed_get:
  "bt_get (dl_completed (snd (clear_completed_before now l))) i =
     (case bt_get (dl_completed l) i of None \<Rightarrow> None
      | Some c \<Rightarrow> if cd_observed_at c < now then None else Some c)"
  using bt_get_remove_where [of "\<lambda>c. cd_observed_at c < now" "dl_completed l" i]
  by (simp add: clear_completed_before_def Let_def del: bt_get_remove_all)

lemma clear_frame:
  "dl_completed (snd (clear_expired now l)) = dl_completed l"
  "dl_pending (snd (clear_completed_before now l)) = dl_pending l"
  "bt_len (dl_pending (snd (clear_expired now l))) \<le> bt_len (dl_pending l)"
  "bt_len (dl_completed (snd (clear_completed_before now l))) \<le> bt_len (dl_completed l)"
  by (simp_all add: clear_expired_def clear_completed_before_def Let_def bt_len_remove_all)

lemma none_or_case:
  "x = None \<or> y = None \<Longrightarrow> (case x of None \<Rightarrow> None | Some d \<Rightarrow> if q d then None else Some d) = None \<or> y = None"
  "y = None \<or> x = None \<Longrightarrow> y = None \<or> (case x of None \<Rightarrow> None | Some d \<Rightarrow> if q d then None else Some d) = None"
  by (cases x; auto)+

lemma pred_option_case:
  "pred_option P x \<Longrightarrow> pred_option P (case x of None \<Rightarrow> None | Some d \<Rightarrow> if q d then None else Some d)"
  by (cases x) auto

lemma ledger_apply_wf:
  assumes wf: "ledger_wf cv av l"
  shows "ledger_wf cv av (ledger_apply cv av l x)"
proof (cases x)
  case (Op_register d)
  show ?thesis
  proof (cases "fst (register cv av d l) = Inr \<lparr>rc_id = pd_id d, rc_status = Registered\<rparr>")
    case False
    then show ?thesis using wf Op_register by (simp add: register_not_new)
  next
    case True
    then show ?thesis
      using wf register_new_state [OF True] Op_register unfolding ledger_wf_iff register_new
      by (simp add: bt.size_put_bound bt.forall_putI)
  qed
next
  case (Op_feedback oc)
  show ?thesis
  proof (cases "fst (apply_feedback av oc l) = Inr Applied")
    case False
    then show ?thesis using wf Op_feedback by (simp add: feedback_error)
  next
    case True
    then obtain d where d: "bt_get (dl_pending l) (do_decision_id oc) = Some d"
        "feedback_accepted av (dl_config l) oc d" "bt_len (dl_completed l) < max_completed (dl_config l)"
      unfolding feedback_applied by blast
    have "pending_ok cv av (dl_config l) (do_decision_id oc) d"
      using wf d(1) unfolding ledger_wf_iff by (metis option.pred_inject(2))
    then show ?thesis
      using wf Op_feedback feedback_applied_state [OF True d(1)] d unfolding ledger_wf_iff
      by (simp add: bt.size_put_bound bt.size_drop_bound completed_ok_def feedback_accepted_def)
  qed
next
  case (Op_clear_expired t)
  have "bt_len (dl_pending (snd (clear_expired t l))) \<le> max_pending (dl_config l)"
    using wf clear_frame(3) [of t l] unfolding ledger_wf_iff by linarith
  then show ?thesis
    using wf Op_clear_expired ledger_apply_frame [of cv av l x] unfolding ledger_wf_iff
    by (simp add: clear_frame clear_expired_get pred_option_case none_or_case)
next
  case (Op_clear_completed t)
  have "bt_len (dl_completed (snd (clear_completed_before t l))) \<le> max_completed (dl_config l)"
    using wf clear_frame(4) [of t l] unfolding ledger_wf_iff by linarith
  then show ?thesis
    using wf Op_clear_completed ledger_apply_frame [of cv av l x] unfolding ledger_wf_iff
    by (simp add: clear_frame clear_completed_get pred_option_case none_or_case)
qed

lemma ledger_run_wf: "ledger_wf cv av l \<Longrightarrow> ledger_wf cv av (ledger_run cv av l xs)"
  by (induction xs arbitrary: l) (simp_all add: ledger_apply_wf)

section \<open>The interface of bounded values\<close>

text \<open>
  What the ledger relies on when it compares stored facts: a validated value equals itself,
  although the \<open>==\<close> of doubles is not reflexive, and a value that fits a limit fits a larger one.
\<close>

locale bounded_value =
  fixes vo :: "'v value_ops"
  assumes valid_refl: "v_validate vo x n = Inr () \<Longrightarrow> v_eq vo x x"
    and eq_sym: "v_eq vo x y \<Longrightarrow> v_eq vo y x"
    and eq_valid: "v_eq vo x y \<Longrightarrow> v_validate vo x n = v_validate vo y n"
    and valid_mono: "v_validate vo x n = Inr () \<Longrightarrow> n \<le> m \<Longrightarrow> v_validate vo x m = Inr ()"

locale decision_values =
  ctx: bounded_value cv + act: bounded_value av for cv :: "'c value_ops" and av :: "'a value_ops"
begin

lemma pending_ok_refl: "pending_ok cv av cfg i d \<Longrightarrow> pending_eq cv av d d"
  by (auto simp: pending_ok_def values_ok_def pending_eq_def intro: ctx.valid_refl act.valid_refl)

lemma register_again:
  assumes "fst (register cv av d l) = Inr \<lparr>rc_id = pd_id d, rc_status = Registered\<rparr>"
  shows "register cv av d (snd (register cv av d l)) =
     (Inr \<lparr>rc_id = pd_id d, rc_status = PendingReplay\<rparr>, snd (register cv av d l))"
proof -
  have ok: "pending_ok cv av (dl_config l) (pd_id d) d" using assms unfolding register_new by blast
  then show ?thesis
    using pending_ok_refl [OF ok] unfolding register_new_state [OF assms]
    by (simp add: register_def pending_ok_def values_ok_def not_less)
qed

lemma replay_after_feedback:
  assumes wf: "ledger_wf cv av l" and d: "bt_get (dl_pending l) (do_decision_id oc) = Some d"
    and f: "fst (apply_feedback av oc l) = Inr Applied"
  shows "register cv av d (snd (apply_feedback av oc l)) =
     (Inr \<lparr>rc_id = pd_id d, rc_status = CompletedReplay\<rparr>, snd (apply_feedback av oc l))"
proof -
  have ok: "pending_ok cv av (dl_config l) (do_decision_id oc) d"
    using wf d unfolding ledger_wf_iff by (metis option.pred_inject(2))
  then show ?thesis
    using pending_ok_refl [OF ok] unfolding feedback_applied_state [OF f d]
    by (simp add: register_def pending_ok_def values_ok_def not_less)
qed

lemma action_mismatch_symmetric: "v_eq av x y \<longleftrightarrow> v_eq av y x"
  using act.eq_sym by blast

end

lemma validate_vec_f64_Inr:
  "validate_vec_f64 xs n = Inr u \<longleftrightarrow>
     length xs * 8 \<le> usize_max \<and> length xs * 8 \<le> n \<and> (\<forall>x \<in> set xs. is_finite x)"
  by (auto simp: validate_vec_f64_def checked_mul_usize_def)

lemma list_feq_finite: "list_all2 feq xs ys \<Longrightarrow> (\<forall>x \<in> set xs. is_finite x) \<longleftrightarrow> (\<forall>y \<in> set ys. is_finite y)"
  by (induction rule: list_all2_induct) (auto simp: feq_finite_iff)

interpretation vec_f64_value: bounded_value vec_f64_ops
proof unfold_locales
  fix xs ys :: "f64 list" and n m
  show "v_validate vec_f64_ops xs n = Inr () \<Longrightarrow> v_eq vec_f64_ops xs xs"
    by (auto simp: vec_f64_ops_def validate_vec_f64_Inr feq_refl intro!: list.rel_refl_strong)
  show "v_eq vec_f64_ops xs ys \<Longrightarrow> v_eq vec_f64_ops ys xs"
    using feq_sym by (auto simp: vec_f64_ops_def list_all2_conv_all_nth)
  show "v_validate vec_f64_ops xs n = v_validate vec_f64_ops ys n" if "v_eq vec_f64_ops xs ys"
    using that list_feq_finite [of xs ys] list_all2_lengthD [of feq xs ys]
    by (auto simp: vec_f64_ops_def validate_vec_f64_def)
  show "v_validate vec_f64_ops xs n = Inr () \<Longrightarrow> n \<le> m \<Longrightarrow> v_validate vec_f64_ops xs m = Inr ()"
    by (auto simp: vec_f64_ops_def validate_vec_f64_Inr)
qed

interpretation bytes_value: bounded_value "bytes_ops :: 'b list value_ops"
  by unfold_locales (auto simp: bytes_ops_def validate_bytes_def split: if_splits)

interpretation usize_value: bounded_value usize_ops
  by unfold_locales (auto simp: usize_ops_def fixed_ops_def validate_fixed_def split: if_splits)

interpretation contextual: decision_values vec_f64_ops usize_ops
  by unfold_locales

section \<open>The life of a decision\<close>

text \<open>
  The contract of the ledger, without its representation: every identifier is unknown, live with
  its immutable facts, or done with the facts, the accepted reward and the outcome time. The
  abstract operations are total functions on these lives.
\<close>

datatype ('c, 'a) life =
    Unknown
  | Live "('c, 'a) pending_decision"
  | Done "('c, 'a) completed_decision"

definition life_of :: "('c, 'a) decision_ledger \<Rightarrow> u128 \<Rightarrow> ('c, 'a) life" where
  "life_of l i = (case bt_get (dl_completed l) i of Some c \<Rightarrow> Done c
     | None \<Rightarrow> (case bt_get (dl_pending l) i of Some d \<Rightarrow> Live d | None \<Rightarrow> Unknown))"

definition live_ids :: "(u128 \<Rightarrow> ('c, 'a) life) \<Rightarrow> u128 set" where
  "live_ids L = {i. \<exists>d. L i = Live d}"

definition done_ids :: "(u128 \<Rightarrow> ('c, 'a) life) \<Rightarrow> u128 set" where
  "done_ids L = {i. \<exists>c. L i = Done c}"

fun life_step ::
    "'c value_ops \<Rightarrow> 'a value_ops \<Rightarrow> ledger_config \<Rightarrow> (u128 \<Rightarrow> ('c, 'a) life) \<Rightarrow> ('c, 'a) ledger_op
     \<Rightarrow> (u128 \<Rightarrow> ('c, 'a) life)" where
  "life_step cv av cfg L (Op_register d) =
     (if pending_ok cv av cfg (pd_id d) d \<and> L (pd_id d) = Unknown \<and> card (live_ids L) < max_pending cfg
      then L(pd_id d := Live d) else L)"
| "life_step cv av cfg L (Op_feedback oc) =
     (case L (do_decision_id oc) of
        Live d \<Rightarrow>
          (if feedback_accepted av cfg oc d \<and> card (done_ids L) < max_completed cfg
           then L(do_decision_id oc := Done \<lparr>cd_decision = d, cd_reward = do_reward oc,
                                              cd_observed_at = do_observed_at oc\<rparr>)
           else L)
      | _ \<Rightarrow> L)"
| "life_step cv av cfg L (Op_clear_expired t) =
     (\<lambda>i. case L i of Live d \<Rightarrow> if pd_expires_at d < t then Unknown else Live d | x \<Rightarrow> x)"
| "life_step cv av cfg L (Op_clear_completed t) =
     (\<lambda>i. case L i of Done c \<Rightarrow> if cd_observed_at c < t then Unknown else Done c | x \<Rightarrow> x)"

lemma apartD:
  assumes "ledger_wf cv av l"
  shows "bt_get (dl_pending l) i = None \<or> bt_get (dl_completed l) i = None"
  using assms unfolding ledger_wf_iff by (elim conjE) (erule spec)

lemma life_of_iff:
  assumes "ledger_wf cv av l"
  shows "life_of l i = Live d \<longleftrightarrow> bt_get (dl_pending l) i = Some d"
    and "life_of l i = Done c \<longleftrightarrow> bt_get (dl_completed l) i = Some c"
    and "life_of l i = Unknown \<longleftrightarrow> bt_get (dl_pending l) i = None \<and> bt_get (dl_completed l) i = None"
  using apartD [OF assms, of i] by (auto simp: life_of_def split: option.splits)

lemma card_life:
  assumes "ledger_wf cv av l"
  shows "card (live_ids (life_of l)) = bt_len (dl_pending l)"
    and "card (done_ids (life_of l)) = bt_len (dl_completed l)"
  by (simp_all add: live_ids_def done_ids_def life_of_iff [OF assms] bt_len_card dom_def)

lemma life_step_refines:
  assumes wf: "ledger_wf cv av l"
  shows "life_of (ledger_apply cv av l x) = life_step cv av (dl_config l) (life_of l) x"
proof (cases x)
  case (Op_register d)
  show ?thesis
  proof (cases "fst (register cv av d l) = Inr \<lparr>rc_id = pd_id d, rc_status = Registered\<rparr>")
    case True
    then show ?thesis
      using register_new_state [OF True] Op_register unfolding register_new
      by (simp add: life_of_iff [OF wf] card_life [OF wf])
        (simp add: life_of_def fun_eq_iff split: option.split)
  next
    case False
    then show ?thesis
      using register_not_new [OF False] Op_register unfolding register_new
      by (auto simp: life_of_iff [OF wf] card_life [OF wf])
  qed
next
  case (Op_feedback oc)
  show ?thesis
  proof (cases "fst (apply_feedback av oc l) = Inr Applied")
    case True
    then obtain d where d: "bt_get (dl_pending l) (do_decision_id oc) = Some d"
        "feedback_accepted av (dl_config l) oc d" "bt_len (dl_completed l) < max_completed (dl_config l)"
      unfolding feedback_applied by blast
    then have "life_of l (do_decision_id oc) = Live d" by (simp add: life_of_iff [OF wf])
    then show ?thesis
      using feedback_applied_state [OF True d(1)] Op_feedback d
      by (simp add: card_life [OF wf]) (simp add: life_of_def fun_eq_iff split: option.split)
  next
    case False
    then show ?thesis
      using feedback_error [OF False] Op_feedback apartD [OF wf, of "do_decision_id oc"]
      unfolding feedback_applied
      by (auto simp: life_of_iff [OF wf] card_life [OF wf] split: life.split)
  qed
next
  case (Op_clear_expired t)
  then show ?thesis
    by (auto simp: life_of_def clear_frame clear_expired_get split: option.split)
next
  case (Op_clear_completed t)
  show ?thesis
  proof
    fix i
    show "life_of (ledger_apply cv av l x) i = life_step cv av (dl_config l) (life_of l) x i"
      using apartD [OF wf, of i] Op_clear_completed
      by (auto simp: life_of_def clear_frame clear_completed_get split: option.split)
  qed
qed

section \<open>Properties\<close>

lemma pending_kept:
  assumes "bt_get (dl_pending l) i = Some d" "\<not> (\<exists>t. x = Op_clear_expired t \<and> pd_expires_at d < t)"
    and "\<not> (\<exists>oc. x = Op_feedback oc \<and> do_decision_id oc = i \<and> fst (apply_feedback av oc l) = Inr Applied)"
  shows "bt_get (dl_pending (ledger_apply cv av l x)) i = Some d"
proof (cases x)
  case (Op_register e)
  then show ?thesis
    using assms(1) register_not_new [of cv av e l] register_new_state [of cv av e l]
      register_new [of cv av e l]
    by (cases "fst (register cv av e l) = Inr \<lparr>rc_id = pd_id e, rc_status = Registered\<rparr>") auto
next
  case (Op_feedback oc)
  show ?thesis
  proof (cases "fst (apply_feedback av oc l) = Inr Applied")
    case True
    then obtain e where "bt_get (dl_pending l) (do_decision_id oc) = Some e"
      unfolding feedback_applied by blast
    then show ?thesis
      using assms Op_feedback True feedback_applied_state [OF True] by auto
  next
    case False
    then show ?thesis using assms(1) Op_feedback by (simp add: feedback_error)
  qed
qed (use assms(1,2) in \<open>simp_all add: clear_frame clear_expired_get\<close>)

lemma tombstone_kept:
  assumes "bt_get (dl_completed l) i = Some c" "\<not> (\<exists>t. x = Op_clear_completed t \<and> cd_observed_at c < t)"
  shows "bt_get (dl_completed (ledger_apply cv av l x)) i = Some c"
proof (cases x)
  case (Op_register e)
  then show ?thesis
    using assms(1) register_not_new [of cv av e l] register_new_state [of cv av e l]
    by (cases "fst (register cv av e l) = Inr \<lparr>rc_id = pd_id e, rc_status = Registered\<rparr>") auto
next
  case (Op_feedback oc)
  show ?thesis
  proof (cases "fst (apply_feedback av oc l) = Inr Applied")
    case True
    then obtain e where e: "bt_get (dl_pending l) (do_decision_id oc) = Some e"
        "bt_get (dl_completed l) (do_decision_id oc) = None"
      unfolding feedback_applied by blast
    then show ?thesis
      using assms(1) Op_feedback feedback_applied_state [OF True e(1)] by auto
  next
    case False
    then show ?thesis using assms(1) Op_feedback by (simp add: feedback_error)
  qed
qed (use assms in \<open>simp_all add: clear_frame clear_completed_get\<close>)

lemma tombstone_kept_run:
  assumes "bt_get (dl_completed l) i = Some c" "\<forall>t. Op_clear_completed t \<in> set xs \<longrightarrow> t \<le> cd_observed_at c"
  shows "bt_get (dl_completed (ledger_run cv av l xs)) i = Some c"
  using assms
proof (induction xs arbitrary: l)
  case (Cons x xs)
  have "bt_get (dl_completed (ledger_apply cv av l x)) i = Some c"
    using Cons.prems by (intro tombstone_kept) (auto simp: not_less)
  then show ?case using Cons by simp
qed simp

text \<open>
  C1: every ledger reachable from a new one by registrations, feedback and cleanups, in any order
  and with any arguments, passes the structural validation that a restored ledger must pass:
  capacities hold, no identifier is pending and completed, stored facts are consistent and bounded.
\<close>

theorem ledger_reachable_valid:
  assumes "ledger_new cfg = Inr l"
  shows "validate_structure cv av (ledger_run cv av l xs) = Inr ()"
  using ledger_run_wf [OF ledger_new_wf [OF assms]] by (simp add: ledger_wf_def)

definition demo_config :: ledger_config where
  "demo_config = \<lparr>max_pending = 2, max_completed = 2, max_context_bytes = 64, max_action_bytes = 64\<rparr>"

definition demo_decision :: "(f64 list, usize) pending_decision" where
  "demo_decision = \<lparr>pd_id = 1, pd_context = [1, 0], pd_action = 1, pd_created_at = 10,
     pd_expires_at = 20, pd_model_generation = 7\<rparr>"

definition demo_outcome :: "usize decision_outcome" where
  "demo_outcome = \<lparr>do_decision_id = 1, do_action = 1, do_reward = 1, do_observed_at = 15,
     do_model_generation = 7\<rparr>"

definition demo_empty :: "(f64 list, usize) decision_ledger" where
  "demo_empty = \<lparr>dl_state_version = 1, dl_config = demo_config, dl_pending = bt_empty, dl_completed = bt_empty\<rparr>"

definition demo_pending :: "(f64 list, usize) decision_ledger" where
  "demo_pending = demo_empty\<lparr>dl_pending := bt_insert 1 demo_decision bt_empty\<rparr>"

lemmas demo_defs = demo_config_def demo_decision_def demo_outcome_def demo_empty_def demo_pending_def
  vec_f64_ops_def usize_ops_def fixed_ops_def

lemma demo_new: "ledger_new demo_config = Inr demo_empty"
  by (simp add: ledger_new_def demo_defs decision_ledger_state_version_def)

lemma demo_valid: "ledger_wf vec_f64_ops usize_ops demo_pending"
  unfolding ledger_wf_def by code_simp

lemma demo_feedback: "fst (apply_feedback usize_ops demo_outcome demo_pending) = Inr Applied"
  by code_simp

lemma demo_register:
  "fst (register vec_f64_ops usize_ops demo_decision demo_empty) =
     Inr \<lparr>rc_id = pd_id demo_decision, rc_status = Registered\<rparr>"
  by code_simp

theorem ledger_reachable_valid_witness:
  "validate_structure vec_f64_ops usize_ops
     (ledger_run vec_f64_ops usize_ops demo_empty
        [Op_register demo_decision, Op_feedback demo_outcome, Op_clear_completed 16]) = Inr ()"
  by (rule ledger_reachable_valid [OF demo_new])

text \<open>
  C5: a rejected registration or feedback leaves the ledger as it was, whatever the reason of the
  rejection.
\<close>

theorem ledger_failure_atomic:
  "(is_err (fst (register cv av d l)) \<longrightarrow> snd (register cv av d l) = l) \<and>
   (is_err (fst (apply_feedback av oc l)) \<longrightarrow> snd (apply_feedback av oc l) = l)"
  using register_not_new [of cv av d l] feedback_error [of av oc l]
  by (auto simp: is_err_iff)

theorem ledger_failure_atomic_witness:
  "snd (apply_feedback usize_ops demo_outcome demo_empty) = demo_empty"
proof -
  have "is_err (fst (apply_feedback usize_ops demo_outcome demo_empty))" by code_simp
  then show ?thesis
    using ledger_failure_atomic [of vec_f64_ops usize_ops demo_decision demo_empty demo_outcome] by blast
qed

text \<open>
  C2: the ledger implements the life cycle of decisions. Read as a map from identifiers to lives,
  every operation on a valid ledger does exactly what the abstract operation does: a registration
  makes an unknown identifier live, accepted feedback makes a live one done, a cleanup forgets the
  expired or old ones, and nothing else changes.
\<close>

theorem ledger_refines_life_cycle:
  assumes "validate_structure cv av l = Inr ()"
  shows "life_of (ledger_apply cv av l x) = life_step cv av (dl_config l) (life_of l) x"
  using assms by (intro life_step_refines) (simp add: ledger_wf_def)

theorem ledger_refines_life_cycle_witness:
  "life_of (ledger_apply vec_f64_ops usize_ops demo_pending (Op_feedback demo_outcome)) =
     life_step vec_f64_ops usize_ops demo_config (life_of demo_pending) (Op_feedback demo_outcome)"
proof -
  have "dl_config demo_pending = demo_config" by (simp add: demo_pending_def demo_empty_def)
  then show ?thesis
    using ledger_refines_life_cycle [OF demo_valid [unfolded ledger_wf_def], of "Op_feedback demo_outcome"]
    by simp
qed

text \<open>
  C3: feedback is applied at most once. After accepted feedback, and as long as no cleanup removes
  the tombstone, every further outcome for the same decision is refused and changes nothing, and
  the tombstone keeps the reward that was accepted.
\<close>

theorem feedback_applied_once:
  assumes "fst (apply_feedback av oc l) = Inr Applied"
    and "\<forall>t. Op_clear_completed t \<in> set xs \<longrightarrow> t \<le> do_observed_at oc"
    and "do_decision_id oc' = do_decision_id oc"
  shows "let l' = ledger_run cv av (snd (apply_feedback av oc l)) xs in
     is_err (fst (apply_feedback av oc' l')) \<and> snd (apply_feedback av oc' l') = l' \<and>
     map_option cd_reward (ledger_completed l' (do_decision_id oc)) = Some (do_reward oc)"
proof -
  obtain d where d: "bt_get (dl_pending l) (do_decision_id oc) = Some d"
    using assms(1) unfolding feedback_applied by blast
  define c where "c = \<lparr>cd_decision = d, cd_reward = do_reward oc, cd_observed_at = do_observed_at oc\<rparr>"
  define l' where "l' = ledger_run cv av (snd (apply_feedback av oc l)) xs"
  have "bt_get (dl_completed (snd (apply_feedback av oc l))) (do_decision_id oc) = Some c"
    by (simp add: feedback_applied_state [OF assms(1) d] c_def)
  then have k: "bt_get (dl_completed l') (do_decision_id oc) = Some c"
    unfolding l'_def using assms(2) by (intro tombstone_kept_run) (simp_all add: c_def)
  then have "fst (apply_feedback av oc' l') \<noteq> Inr Applied"
    by (simp add: feedback_applied assms(3))
  then show ?thesis
    using k feedback_error [of av oc' l']
    by (simp add: l'_def [symmetric] ledger_completed_def c_def)
      (metis feedback_status.exhaust not_is_err_iff)
qed

theorem feedback_applied_once_witness:
  "is_err (fst (apply_feedback usize_ops demo_outcome
     (ledger_run vec_f64_ops usize_ops (snd (apply_feedback usize_ops demo_outcome demo_pending))
        [Op_register demo_decision, Op_clear_completed 15])))"
  using feedback_applied_once [OF demo_feedback, of "[Op_register demo_decision, Op_clear_completed 15]"
      demo_outcome vec_f64_ops]
  by (simp add: Let_def demo_outcome_def)

text \<open>
  C4: a pending decision is never evicted implicitly. If it is no longer pending after some
  operations, then one of them was its accepted feedback or a cleanup at a time after its expiry.
\<close>

theorem pending_never_evicted:
  assumes "ledger_pending l i = Some d"
    and "ledger_pending (ledger_run cv av l xs) i \<noteq> Some d"
  shows "\<exists>ys x zs. xs = ys @ x # zs \<and> ledger_pending (ledger_run cv av l ys) i = Some d \<and>
     ((\<exists>oc. x = Op_feedback oc \<and> do_decision_id oc = i \<and>
            fst (apply_feedback av oc (ledger_run cv av l ys)) = Inr Applied) \<or>
      (\<exists>t. x = Op_clear_expired t \<and> pd_expires_at d < t))"
  using assms
proof (induction xs arbitrary: l)
  case (Cons x xs)
  show ?case
  proof (cases "ledger_pending (ledger_apply cv av l x) i = Some d")
    case True
    then obtain ys y zs where "xs = ys @ y # zs"
      and "ledger_pending (ledger_run cv av l (x # ys)) i = Some d"
      and "(\<exists>oc. y = Op_feedback oc \<and> do_decision_id oc = i \<and>
            fst (apply_feedback av oc (ledger_run cv av l (x # ys))) = Inr Applied) \<or>
        (\<exists>t. y = Op_clear_expired t \<and> pd_expires_at d < t)"
      using Cons.IH [of "ledger_apply cv av l x"] Cons.prems(2) by auto
    then show ?thesis by (intro exI [of _ "x # ys"] exI [of _ y] exI [of _ zs]) simp
  next
    case False
    then show ?thesis
      using Cons.prems(1) pending_kept [of l i d x av cv]
      by (intro exI [of _ "[]"] exI [of _ x] exI [of _ xs]) (auto simp: ledger_pending_def)
  qed
qed simp

theorem pending_never_evicted_witness:
  "\<exists>ys x zs. [Op_clear_expired 20, Op_feedback demo_outcome] = ys @ x # zs \<and>
     ledger_pending (ledger_run vec_f64_ops usize_ops demo_pending ys) 1 = Some demo_decision \<and>
     ((\<exists>oc. x = Op_feedback oc \<and> do_decision_id oc = 1 \<and>
            fst (apply_feedback usize_ops oc (ledger_run vec_f64_ops usize_ops demo_pending ys)) = Inr Applied) \<or>
      (\<exists>t. x = Op_clear_expired t \<and> pd_expires_at demo_decision < t))"
proof (rule pending_never_evicted)
  show "ledger_pending demo_pending 1 = Some demo_decision"
    by (simp add: ledger_pending_def demo_defs)
  show "ledger_pending (ledger_run vec_f64_ops usize_ops demo_pending
      [Op_clear_expired 20, Op_feedback demo_outcome]) 1 \<noteq> Some demo_decision"
    by code_simp
qed

text \<open>
  Registering the same facts twice is an idempotent replay, also for contexts of doubles,
  whose equality is not reflexive: validation keeps NaN out of the ledger.
\<close>

theorem register_idempotent:
  assumes "fst (register vec_f64_ops usize_ops d l) = Inr \<lparr>rc_id = pd_id d, rc_status = Registered\<rparr>"
  shows "register vec_f64_ops usize_ops d (snd (register vec_f64_ops usize_ops d l)) =
     (Inr \<lparr>rc_id = pd_id d, rc_status = PendingReplay\<rparr>, snd (register vec_f64_ops usize_ops d l))"
  using assms by (rule contextual.register_again)

theorem register_idempotent_witness:
  "fst (register vec_f64_ops usize_ops demo_decision
     (snd (register vec_f64_ops usize_ops demo_decision demo_empty))) =
     Inr \<lparr>rc_id = 1, rc_status = PendingReplay\<rparr>"
  using register_idempotent [OF demo_register] by (simp add: demo_decision_def)

end
