(* ===== verification/F64_Text.thy ===== *)
theory F64_Text imports F64 begin

text \<open>
  Rust's \<open>Display\<close> of integers and of \<open>f64\<close>: the shortest decimal that reads back as the same double,
  written without an exponent.
\<close>

section \<open>Decimal text\<close>

fun digit :: "nat \<Rightarrow> char" where
  "digit d = char_of (48 + d)"

fun decimal :: "nat \<Rightarrow> string" where
  "decimal n = (if n < 10 then [digit n] else decimal (n div 10) @ [digit (n mod 10)])"

declare decimal.simps [simp del]

text \<open>The decimal exponent: the least \<open>k\<close> with \<open>q < 10 ^ k\<close>, within the range of doubles.\<close>

definition dec_exp :: "rat \<Rightarrow> int" where
  "dec_exp q = (let e = (ilog2 q * 30103) div 100000 in
     if q < 10 powi e then e else if q < 10 powi (e + 1) then e + 1 else e + 2)"

text \<open>
  The closest \<open>n\<close>-digit decimal that reads back as \<open>q\<close>, as its digits and the power of ten of the
  last one; \<open>None\<close> when neither neighbour does.
\<close>

definition dec_candidate :: "rat \<Rightarrow> nat \<Rightarrow> (int \<times> int) option" where
  "dec_candidate q n =
     (let p = dec_exp q - int n; s = 10 powi p; lo = \<lfloor>q / s\<rfloor>; hi = lo + 1;
          lo_ok = (rnd (of_int lo * s) = q); hi_ok = (rnd (of_int hi * s) = q)
      in if lo_ok \<and> (\<not> hi_ok \<or> q - of_int lo * s < of_int hi * s - q) then Some (lo, p)
         else if hi_ok then Some (hi, p) else None)"

definition shortest_decimal :: "rat \<Rightarrow> int \<times> int" where
  "shortest_decimal q =
     (case List.find (\<lambda>n. dec_candidate q n \<noteq> None) [1..<18] of
        Some n \<Rightarrow> the (dec_candidate q n)
      | None \<Rightarrow> (0, 0))"

definition show_decimal :: "int \<times> int \<Rightarrow> string" where
  "show_decimal dp = (let (d, p) = dp; ds = decimal (nat d) in
     if 0 \<le> p then ds @ replicate (nat p) (CHR ''0'')
     else let k = int (length ds) + p in
       if 0 < k then take (nat k) ds @ ''.'' @ drop (nat k) ds
       else ''0.'' @ replicate (nat (- k)) (CHR ''0'') @ ds)"

fun strip_zeros :: "int \<times> int \<Rightarrow> nat \<Rightarrow> int \<times> int" where
  "strip_zeros dp 0 = dp"
| "strip_zeros dp (Suc n) =
     (if fst dp \<noteq> 0 \<and> fst dp mod 10 = 0 then strip_zeros (fst dp div 10, snd dp + 1) n else dp)"

fun fp_to_string :: "fp \<Rightarrow> string" where
  "fp_to_string FNaN = ''NaN''"
| "fp_to_string (FInf s) = (if s then ''-inf'' else ''inf'')"
| "fp_to_string FNegZero = ''-0''"
| "fp_to_string (FFin q) =
     (if q = 0 then ''0''
      else (if q < 0 then ''-'' else '''') @ show_decimal (strip_zeros (shortest_decimal \<bar>q\<bar>) 18))"

definition f64_to_string :: "f64 \<Rightarrow> string" where
  "f64_to_string x = fp_to_string (fp_of x)"

end
