(* ===== verification/Json.thy ===== *)
theory Json imports F64_Text BTree_Map begin

text \<open>
  The document type \<open>serde_json::Value\<close> with its documented accessors. An object is the list of its
  entries in ascending key order, as \<open>serde_json::Map\<close> is a \<open>BTreeMap\<close> in this build. Encoding to and
  parsing from bytes are parameters of the components that call them.
\<close>

section \<open>Documents\<close>

datatype json_number = PosInt u64 | NegInt u64 | Float f64

datatype json =
    JNull | JBool bool | JNumber json_number | JString string | JArray "json list"
  | JObject "(string \<times> json) list"

text \<open>\<open>json!\<close> with an object literal: the entries are inserted one after the other.\<close>

definition json_object :: "(string \<times> json) list \<Rightarrow> json" where
  "json_object entries = JObject (fold (\<lambda>e. put_entry (fst e) (snd e)) entries [])"

fun json_get :: "json \<Rightarrow> string \<Rightarrow> json option" where
  "json_get (JObject es) k = map_of es k"
| "json_get _ k = None"

fun json_as_str :: "json \<Rightarrow> string option" where
  "json_as_str (JString s) = Some s"
| "json_as_str _ = None"

fun json_as_array :: "json \<Rightarrow> json list option" where
  "json_as_array (JArray xs) = Some xs"
| "json_as_array _ = None"

text \<open>A negative integer is held as the bits of the \<open>i64\<close>.\<close>

fun json_as_f64 :: "json \<Rightarrow> f64 option" where
  "json_as_f64 (JNumber (PosInt n)) = Some (f_of_u64 n)"
| "json_as_f64 (JNumber (NegInt n)) = Some (f_of_rat (of_int (sint n)))"
| "json_as_f64 (JNumber (Float x)) = Some x"
| "json_as_f64 _ = None"

text \<open>\<open>Value::from\<close>: a finite double is a number, any other is null.\<close>

definition json_of_f64 :: "f64 \<Rightarrow> json" where
  "json_of_f64 x = (if is_finite x then JNumber (Float x) else JNull)"

definition json_of_u64 :: "u64 \<Rightarrow> json" where
  "json_of_u64 n = JNumber (PosInt n)"

definition json_of_u32 :: "u32 \<Rightarrow> json" where
  "json_of_u32 n = JNumber (PosInt (ucast n))"

definition json_of_usize :: "usize \<Rightarrow> json" where
  "json_of_usize n = JNumber (PosInt (of_nat n))"

fun json_of_option :: "('a \<Rightarrow> json) \<Rightarrow> 'a option \<Rightarrow> json" where
  "json_of_option f None = JNull"
| "json_of_option f (Some x) = f x"

lemma json_get_object:
  "json_get (json_object es) k = map_of (rev es) k"
proof -
  have "sorted_wrt (<) (map fst acc) \<Longrightarrow>
      map_of (fold (\<lambda>e. put_entry (fst e) (snd e)) es acc) k = (map_of acc ++ map_of (rev es)) k" for acc
  proof (induction es arbitrary: acc)
    case (Cons e es)
    then show ?case
      using strict_put_entry [OF Cons.prems, of "fst e" "snd e"]
      by (cases e) (simp add: map_of_put_entry map_add_def split: option.splits)
  qed simp
  from this [of "[]"] show ?thesis by (simp add: json_object_def)
qed

end
