(* ===== verification/Protocol_V3.thy ===== *)
theory Protocol_V3 imports Json Rill_Error begin

text \<open>
  The IPC v3 wire contract, \<open>crates/rill-runtime-protocol/src/v3.rs\<close>, and the limits of the handler
  ABI, \<open>crates/rill-handler-api/src/lib.rs\<close>: request and response envelopes with their shape
  validation, the resource profile, error codes and their retryability. Constructors carry a
  prefix where several enums share a variant name: \<open>R\<close> for response bodies, \<open>P\<close> for preview bodies,
  \<open>C\<close> for runtime error codes, \<open>Pv\<close> for preview codes, \<open>E\<close> for shape errors. The JSON encoder is a
  parameter of the size checks; a message it cannot encode is \<open>None\<close>.
\<close>

section \<open>Limits\<close>

definition max_message_bytes :: usize where "max_message_bytes = 1024 * 1024"
definition runtime_api_version_v3 :: u32 where "runtime_api_version_v3 = 3"
definition max_request_id_len_v3 :: usize where "max_request_id_len_v3 = 128"
definition max_identity_name_len_v3 :: usize where "max_identity_name_len_v3 = 96"
definition max_identity_version_len_v3 :: usize where "max_identity_version_len_v3 = 48"
definition max_partition_key_len_v3 :: usize where "max_partition_key_len_v3 = 96"
definition max_capability_len_v3 :: usize where "max_capability_len_v3 = 96"
definition max_decision_id_len_v3 :: usize where "max_decision_id_len_v3 = 128"
definition feature_schema_hash_len_v3 :: usize where "feature_schema_hash_len_v3 = 64"
definition max_capabilities_v3 :: usize where "max_capabilities_v3 = 32"
definition max_error_message_len_v3 :: usize where "max_error_message_len_v3 = 512"
definition preview_channel_v3 :: string where "preview_channel_v3 = ''preview''"

definition handler_max_capabilities :: usize where "handler_max_capabilities = 32"
definition handler_max_capability_len :: usize where "handler_max_capability_len = 96"
definition handler_max_id_len :: usize where "handler_max_id_len = 96"
definition handler_max_version_len :: usize where "handler_max_version_len = 48"
definition handler_api_version_v2 :: u32 where "handler_api_version_v2 = 2"
definition max_event_bytes :: usize where "max_event_bytes = 1024 * 1024"
definition max_output_bytes :: usize where "max_output_bytes = 1024 * 1024"
definition max_state_bytes :: usize where "max_state_bytes = 256 * 1024"

lemmas limit_defs = max_message_bytes_def runtime_api_version_v3_def max_request_id_len_v3_def
  max_identity_name_len_v3_def max_identity_version_len_v3_def max_partition_key_len_v3_def
  max_capability_len_v3_def max_decision_id_len_v3_def feature_schema_hash_len_v3_def
  max_capabilities_v3_def max_error_message_len_v3_def

section \<open>Resource profile\<close>

record resource_profile =
  max_partitions :: u32
  max_total_state_bytes :: u32
  max_ipc_frame_bytes :: u32
  max_model_state_bytes :: u32
  max_snapshot_bytes :: u32
  max_handler_package_bytes :: u32
  max_model_pack_bytes :: u32
  max_features :: u32
  max_pending_decisions :: u32
  max_completed_decisions :: u32
  max_diagnostic_records :: u32
  request_deadline_ms :: u64
  shutdown_deadline_ms :: u64
  snapshot_deadline_ms :: u64
  restart_backoff_ms :: u64

definition resource_profile_default :: resource_profile where
  "resource_profile_default = \<lparr>max_partitions = 64, max_total_state_bytes = 8 * 1024 * 1024,
     max_ipc_frame_bytes = of_nat max_message_bytes, max_model_state_bytes = 256 * 1024,
     max_snapshot_bytes = 512 * 1024, max_handler_package_bytes = 4 * 1024 * 1024,
     max_model_pack_bytes = 128 * 1024 * 1024, max_features = 100000,
     max_pending_decisions = 1024, max_completed_decisions = 4096, max_diagnostic_records = 256,
     request_deadline_ms = 5000, shutdown_deadline_ms = 2000, snapshot_deadline_ms = 2000,
     restart_backoff_ms = 100\<rparr>"

definition resource_profile_validate :: "resource_profile \<Rightarrow> string + unit" where
  "resource_profile_validate p =
     (if max_partitions p = 0 \<or> max_total_state_bytes p = 0 \<or> max_ipc_frame_bytes p = 0
         \<or> unat (max_ipc_frame_bytes p) > max_message_bytes \<or> max_model_state_bytes p = 0
         \<or> max_snapshot_bytes p = 0 \<or> max_handler_package_bytes p = 0 \<or> max_model_pack_bytes p = 0
         \<or> max_features p = 0 \<or> max_pending_decisions p = 0 \<or> max_completed_decisions p = 0
         \<or> max_diagnostic_records p = 0 \<or> request_deadline_ms p = 0 \<or> shutdown_deadline_ms p = 0
         \<or> snapshot_deadline_ms p = 0
      then Inl ''resource profile contains a zero limit''
      else if max_completed_decisions p < max_pending_decisions p
      then Inl ''completed decision history must hold pending capacity''
      else Inr ())"

section \<open>Shape errors\<close>

datatype protocol_v3_error =
    EInvalidJson | EInvalidRequestId | EInvalidClientIdentity | EIncompatibleApiVersion
  | EInvalidPayloadLimit | EPayloadTooLarge | EMissingCapability | EUnexpectedCapability
  | EInvalidCapability | EMissingFeatureSchemaHash | EInvalidFeatureSchemaHash | EInvalidDecisionId
  | ENonFiniteReward | EInvalidCapabilities | EInvalidErrorMessage | EInvalidRetryability
  | EInvalidPartitionKey

fun protocol_v3_error_msg :: "protocol_v3_error \<Rightarrow> string" where
  "protocol_v3_error_msg EInvalidJson = ''invalid JSON''"
| "protocol_v3_error_msg EInvalidRequestId = ''invalid request id''"
| "protocol_v3_error_msg EInvalidClientIdentity = ''invalid client identity''"
| "protocol_v3_error_msg EInvalidPartitionKey = ''invalid partition key''"
| "protocol_v3_error_msg EIncompatibleApiVersion = ''incompatible API version''"
| "protocol_v3_error_msg EInvalidPayloadLimit = ''invalid payload limit''"
| "protocol_v3_error_msg EPayloadTooLarge = ''payload too large''"
| "protocol_v3_error_msg EMissingCapability = ''missing capability''"
| "protocol_v3_error_msg EUnexpectedCapability = ''unexpected capability''"
| "protocol_v3_error_msg EInvalidCapability = ''invalid capability''"
| "protocol_v3_error_msg EMissingFeatureSchemaHash = ''missing feature schema hash''"
| "protocol_v3_error_msg EInvalidFeatureSchemaHash = ''invalid feature schema hash''"
| "protocol_v3_error_msg EInvalidDecisionId = ''invalid decision id''"
| "protocol_v3_error_msg ENonFiniteReward = ''reward must be finite''"
| "protocol_v3_error_msg EInvalidCapabilities = ''invalid capabilities''"
| "protocol_v3_error_msg EInvalidErrorMessage = ''invalid error message''"
| "protocol_v3_error_msg EInvalidRetryability = ''retryable flag does not match error code''"

section \<open>Identities, requests and the request envelope\<close>

record identity_v3 =
  id_name :: string
  id_version :: string

definition identity_validate :: "identity_v3 \<Rightarrow> protocol_v3_error + unit" where
  "identity_validate i =
     (if id_name i = [] \<or> length (id_name i) > max_identity_name_len_v3 then Inl EInvalidClientIdentity
      else if id_version i = [] \<or> length (id_version i) > max_identity_version_len_v3
      then Inl EInvalidClientIdentity
      else Inr ())"

datatype runtime_request =
    Handshake
  | Health
  | Observe json
  | Decide json "u64 option"
  | Feedback (fb_decision_id: string) (fb_selected_action_id: string) (fb_reward: f64)
      (fb_outcome_time_ms: u64) (fb_generation: u64)
  | Inspect
  | Snapshot
  | Reset (rs_expected_state_generation: u64)

record envelope_v3 =
  env_request_id :: string
  env_api_version :: u32
  env_client_identity :: identity_v3
  env_partition_key :: string
  env_capability :: "string option"
  env_deadline_unix_ms :: "u64 option"
  env_feature_schema_hash :: "string option"
  env_model_generation :: u64
  env_state_generation :: u64
  env_payload_limit :: u32
  env_request :: runtime_request

fun is_ascii_digit :: "char \<Rightarrow> bool" where
  "is_ascii_digit c = (CHR ''0'' \<le> c \<and> c \<le> CHR ''9'')"

fun is_lower_hex :: "char \<Rightarrow> bool" where
  "is_lower_hex c = (is_ascii_digit c \<or> CHR ''a'' \<le> c \<and> c \<le> CHR ''f'')"

definition validate_schema_hash :: "string \<Rightarrow> protocol_v3_error + unit" where
  "validate_schema_hash h =
     ensure (length h = feature_schema_hash_len_v3 \<and> (\<forall>b \<in> set h. is_lower_hex b))
       EInvalidFeatureSchemaHash"

definition validate_capabilities_v3 :: "string list \<Rightarrow> protocol_v3_error + unit" where
  "validate_capabilities_v3 cs =
     (if cs = [] \<or> length cs > max_capabilities_v3 then Inl EInvalidCapabilities
      else if (\<exists>c \<in> set cs. c = [] \<or> length c > max_capability_len_v3) \<or> \<not> all_fresh [] cs
      then Inl EInvalidCapabilities
      else Inr ())"

fun is_control :: "runtime_request \<Rightarrow> bool" where
  "is_control Handshake = True"
| "is_control Health = True"
| "is_control _ = False"

definition validate_capability_field :: "envelope_v3 \<Rightarrow> protocol_v3_error + unit" where
  "validate_capability_field e =
     (if is_control (env_request e) then ensure (env_capability e = None) EUnexpectedCapability
      else and_then (ok_or (env_capability e) EMissingCapability) (\<lambda>c.
        if c = [] \<or> length c > max_capability_len_v3 then Inl EInvalidCapability
        else and_then (ok_or (env_feature_schema_hash e) EMissingFeatureSchemaHash)
          validate_schema_hash))"

fun validate_feedback_fields :: "runtime_request \<Rightarrow> protocol_v3_error + unit" where
  "validate_feedback_fields (Feedback d a r t g) =
     (if d = [] \<or> length d > max_decision_id_len_v3 then Inl EInvalidDecisionId
      else if \<not> is_finite r then Inl ENonFiniteReward else Inr ())"
| "validate_feedback_fields _ = Inr ()"

definition envelope_validate ::
    "(envelope_v3 \<Rightarrow> string option) \<Rightarrow> envelope_v3 \<Rightarrow> protocol_v3_error + unit" where
  "envelope_validate encode e =
     (if env_request_id e = [] \<or> length (env_request_id e) > max_request_id_len_v3
      then Inl EInvalidRequestId
      else if env_api_version e \<noteq> runtime_api_version_v3 then Inl EIncompatibleApiVersion
      else and_then (identity_validate (env_client_identity e)) (\<lambda>_.
        if env_partition_key e = [] \<or> length (env_partition_key e) > max_partition_key_len_v3
        then Inl EInvalidPartitionKey
        else if env_payload_limit e = 0 \<or> unat (env_payload_limit e) > max_message_bytes
        then Inl EInvalidPayloadLimit
        else and_then (validate_capability_field e) (\<lambda>_.
          and_then (validate_feedback_fields (env_request e)) (\<lambda>_.
            and_then (ok_or (encode e) EInvalidJson) (\<lambda>bytes.
              if length bytes > max_message_bytes \<or> length bytes > unat (env_payload_limit e)
              then Inl EPayloadTooLarge else Inr ())))))"

definition is_expired_at :: "envelope_v3 \<Rightarrow> u64 \<Rightarrow> bool" where
  "is_expired_at e now = (case env_deadline_unix_ms e of None \<Rightarrow> False | Some d \<Rightarrow> now > d)"

text \<open>The entries of the objects serde derives: requests are tagged by \<open>method\<close>, names are in camel case.\<close>

fun request_entries :: "runtime_request \<Rightarrow> (string \<times> json) list" where
  "request_entries Handshake = [(''method'', JString ''handshake'')]"
| "request_entries Health = [(''method'', JString ''health'')]"
| "request_entries (Observe ev) = [(''method'', JString ''observe''), (''event'', ev)]"
| "request_entries (Decide ctx seed) =
     [(''method'', JString ''decide''), (''context'', ctx)]
      @ (case seed of None \<Rightarrow> [] | Some s \<Rightarrow> [(''deterministicSeed'', json_of_u64 s)])"
| "request_entries (Feedback d a r t g) =
     [(''method'', JString ''feedback''), (''decisionId'', JString d),
      (''selectedActionId'', JString a), (''reward'', json_of_f64 r),
      (''outcomeTimeMs'', json_of_u64 t), (''generation'', json_of_u64 g)]"
| "request_entries Inspect = [(''method'', JString ''inspect'')]"
| "request_entries Snapshot = [(''method'', JString ''snapshot'')]"
| "request_entries (Reset g) =
     [(''method'', JString ''reset''), (''expectedStateGeneration'', json_of_u64 g)]"

definition profile_to_json :: "resource_profile \<Rightarrow> json" where
  "profile_to_json p = json_object
     [(''maxPartitions'', json_of_u32 (max_partitions p)),
      (''maxTotalStateBytes'', json_of_u32 (max_total_state_bytes p)),
      (''maxIpcFrameBytes'', json_of_u32 (max_ipc_frame_bytes p)),
      (''maxModelStateBytes'', json_of_u32 (max_model_state_bytes p)),
      (''maxSnapshotBytes'', json_of_u32 (max_snapshot_bytes p)),
      (''maxHandlerPackageBytes'', json_of_u32 (max_handler_package_bytes p)),
      (''maxModelPackBytes'', json_of_u32 (max_model_pack_bytes p)),
      (''maxFeatures'', json_of_u32 (max_features p)),
      (''maxPendingDecisions'', json_of_u32 (max_pending_decisions p)),
      (''maxCompletedDecisions'', json_of_u32 (max_completed_decisions p)),
      (''maxDiagnosticRecords'', json_of_u32 (max_diagnostic_records p)),
      (''requestDeadlineMs'', json_of_u64 (request_deadline_ms p)),
      (''shutdownDeadlineMs'', json_of_u64 (shutdown_deadline_ms p)),
      (''snapshotDeadlineMs'', json_of_u64 (snapshot_deadline_ms p)),
      (''restartBackoffMs'', json_of_u64 (restart_backoff_ms p))]"

section \<open>Errors and responses\<close>

datatype error_code_v3 =
    CInvalidJson | CInvalidRequestId | CInvalidClientIdentity | CIncompatibleApiVersion
  | CInvalidEnvelope | CPayloadTooLarge | CUnsupportedCapability | CStateMismatch | CExpiredRequest
  | CIncompatibleGeneration | CDuplicateFeedback | CHandlerTimeout | CHandlerTrap
  | CHandlerOutputTooLarge | CHandlerInvalidOutput | CInvalidState | CInternal

definition code_is_retryable :: "error_code_v3 \<Rightarrow> bool" where
  "code_is_retryable c \<longleftrightarrow> c \<in> {CStateMismatch, CHandlerTimeout, CInternal}"

record error_v3 =
  err_code :: error_code_v3
  err_message :: string
  err_retryable :: bool

definition error_v3_new :: "error_code_v3 \<Rightarrow> string \<Rightarrow> error_v3" where
  "error_v3_new code message =
     \<lparr>err_code = code, err_message = message, err_retryable = code_is_retryable code\<rparr>"

definition error_v3_validate :: "error_v3 \<Rightarrow> protocol_v3_error + unit" where
  "error_v3_validate e =
     (if err_message e = [] \<or> length (err_message e) > max_error_message_len_v3
      then Inl EInvalidErrorMessage
      else if err_retryable e \<noteq> code_is_retryable (err_code e) then Inl EInvalidRetryability
      else Inr ())"

datatype response_body_v3 =
    RHandshake (rh_capabilities: "string list") (rh_feature_schema_hash: string)
      (rh_handler_api_version: u32)
  | RHealth (rh_healthy: bool)
  | RResult (rr_output: json)
  | RInspection (ri_summary: json)
  | RSnapshot (rsn_schema_version: u32) (rsn_checksum: string) (rsn_state: string)
  | RReset (rrs_reset: bool)
  | RError (re_error: error_v3)

record response_v3 =
  rsp_request_id :: string
  rsp_api_version :: u32
  rsp_runtime_identity :: identity_v3
  rsp_model_generation :: u64
  rsp_state_generation :: u64
  rsp_response :: response_body_v3

fun response_body_validate :: "response_body_v3 \<Rightarrow> protocol_v3_error + unit" where
  "response_body_validate (RHandshake cs h v) = validate_capabilities_v3 cs"
| "response_body_validate (RError e) = error_v3_validate e"
| "response_body_validate _ = Inr ()"

definition response_validate ::
    "(response_v3 \<Rightarrow> string option) \<Rightarrow> response_v3 \<Rightarrow> protocol_v3_error + unit" where
  "response_validate encode r =
     (if rsp_request_id r = [] \<or> length (rsp_request_id r) > max_request_id_len_v3
      then Inl EInvalidRequestId
      else if rsp_api_version r \<noteq> runtime_api_version_v3 then Inl EIncompatibleApiVersion
      else and_then (identity_validate (rsp_runtime_identity r)) (\<lambda>_.
        and_then (response_body_validate (rsp_response r)) (\<lambda>_.
          and_then (ok_or (encode r) EInvalidJson) (\<lambda>bytes.
            if length bytes > max_message_bytes then Inl EPayloadTooLarge else Inr ()))))"

section \<open>The preview surface\<close>

datatype preview_error_code_v3 =
    PvInvalidJson | PvInvalidEnvelope | PvPayloadTooLarge | PvUnsupportedCapability
  | PvStateMismatch | PvExpiredRequest | PvIncompatibleGeneration | PvDuplicateDecision
  | PvDuplicateFeedback | PvUnknownDecision | PvStaleFeedback | PvCapacityExceeded
  | PvHandlerTimeout | PvHandlerTrap | PvHandlerOutputTooLarge | PvHandlerInvalidOutput
  | PvInvalidState | PvInternal

definition preview_is_retryable :: "preview_error_code_v3 \<Rightarrow> bool" where
  "preview_is_retryable c \<longleftrightarrow>
     c \<in> {PvStateMismatch, PvExpiredRequest, PvHandlerTimeout, PvCapacityExceeded, PvInternal}"

record preview_error_v3 =
  perr_code :: preview_error_code_v3
  perr_message :: string
  perr_retryable :: bool

datatype preview_body_v3 =
    PHandshake "string list" string u32 string
  | PHealth bool string "string list"
  | PResult json "string option" "u64 option"
  | PInspection json
  | PSnapshot u32 string string
  | PReset bool
  | PError preview_error_v3

record preview_response_v3 =
  prv_request_id :: string
  prv_api_version :: u32
  prv_runtime_identity :: identity_v3
  prv_model_generation :: u64
  prv_state_generation :: u64
  prv_response :: preview_body_v3

section \<open>Facts\<close>

lemma identity_validate_Inr [result_simps]:
  "identity_validate i = Inr u \<longleftrightarrow> id_name i \<noteq> [] \<and> length (id_name i) \<le> max_identity_name_len_v3
     \<and> id_version i \<noteq> [] \<and> length (id_version i) \<le> max_identity_version_len_v3"
  by (auto simp: identity_validate_def)

lemma validate_capabilities_v3_Inr [result_simps]:
  "validate_capabilities_v3 cs = Inr u \<longleftrightarrow> cs \<noteq> [] \<and> length cs \<le> max_capabilities_v3
     \<and> (\<forall>c \<in> set cs. c \<noteq> [] \<and> length c \<le> max_capability_len_v3) \<and> distinct cs"
  by (auto simp: validate_capabilities_v3_def all_fresh_iff dest: leD leI)

lemma error_v3_new_validate:
  "error_v3_validate (error_v3_new c m) = Inr () \<longleftrightarrow> m \<noteq> [] \<and> length m \<le> max_error_message_len_v3"
  by (auto simp: error_v3_validate_def error_v3_new_def)

lemma profile_valid:
  "resource_profile_validate p = Inr u \<Longrightarrow> 0 < unat (max_partitions p) \<and> 0 < unat (max_pending_decisions p)
     \<and> 0 < unat (max_completed_decisions p) \<and> unat (max_pending_decisions p) \<le> unat (max_completed_decisions p)"
  by (auto simp: resource_profile_validate_def word_le_nat_alt not_less unat_gt_0 split: if_splits)

end
