(* ===== verification/Runtime_State.thy ===== *)
theory Runtime_State imports Protocol_V3 begin

text \<open>
  The data of the stateful runtime, \<open>crates/rill-runtime/src/stateful.rs\<close>: handler metadata and
  errors, state snapshots with their checksum, decision entries, partitions keyed by scope, the
  runtime snapshot, the engine, and the resource checks that gate every commit. What the source
  calls outside the repository (\<open>serde_json\<close>, \<open>sha2\<close>, \<open>hex\<close>) and the sandboxed handler are the
  fields of the record \<open>runtime_env\<close>; every function that uses them takes it as its first
  argument. An encoder gives \<open>None\<close> where \<open>serde_json\<close> returns an error.
\<close>

section \<open>Handler errors and metadata\<close>

datatype handler_error_kind =
    KInvalidModel | KInvalidEvent | KInvalidState | KIncompatibleVersion | KDuplicateFeedback
  | KTimeout | KTrap | KOutputTooLarge | KInvalidOutput | KMetadataMismatch | KInternal

record handler_error =
  he_kind :: handler_error_kind
  he_detail :: "string option"

definition handler_error_new :: "handler_error_kind \<Rightarrow> handler_error" where
  "handler_error_new k = \<lparr>he_kind = k, he_detail = None\<rparr>"

definition max_handler_detail_bytes_v2 :: usize where
  "max_handler_detail_bytes_v2 = 4 * 1024"

text \<open>\<open>str::is_char_boundary\<close>: the index is an end of the text or starts a UTF-8 sequence.\<close>

definition is_char_boundary :: "string \<Rightarrow> usize \<Rightarrow> bool" where
  "is_char_boundary s i \<longleftrightarrow> i = 0 \<or> i = length s
     \<or> i < length s \<and> \<not> (128 \<le> (of_char (s ! i) :: nat) \<and> (of_char (s ! i) :: nat) < 192)"

fun boundary_below :: "string \<Rightarrow> usize \<Rightarrow> usize" where
  "boundary_below s 0 = 0"
| "boundary_below s (Suc i) = (if is_char_boundary s (Suc i) then Suc i else boundary_below s i)"

lemma boundary_below_facts:
  "boundary_below s n \<le> n" "n \<le> length s \<Longrightarrow> is_char_boundary s (boundary_below s n)"
  by (induction n) (auto simp: is_char_boundary_def)

lemma boundary_below_max: "i \<le> n \<Longrightarrow> is_char_boundary s i \<Longrightarrow> i \<le> boundary_below s n"
  by (induction n) (auto simp: le_Suc_eq)

definition with_detail :: "handler_error_kind \<Rightarrow> string \<Rightarrow> handler_error" where
  "with_detail k detail = \<lparr>he_kind = k, he_detail = Some
     (if length detail > max_handler_detail_bytes_v2
      then take (boundary_below detail max_handler_detail_bytes_v2) detail else detail)\<rparr>"

record handler_metadata =
  hm_id :: string
  hm_version :: string
  hm_api_version :: u32
  hm_capabilities :: "string list"
  hm_state_schema_version :: u32

definition metadata_validate :: "handler_metadata \<Rightarrow> handler_error + unit" where
  "metadata_validate m =
     (if hm_id m = [] \<or> length (hm_id m) > handler_max_id_len
      then Inl (handler_error_new KMetadataMismatch)
      else if hm_version m = [] \<or> length (hm_version m) > handler_max_version_len
        \<or> hm_api_version m \<noteq> handler_api_version_v2 \<or> hm_state_schema_version m = 0
      then Inl (handler_error_new KMetadataMismatch)
      else if hm_capabilities m = [] \<or> length (hm_capabilities m) > handler_max_capabilities
      then Inl (handler_error_new KMetadataMismatch)
      else if (\<exists>c \<in> set (hm_capabilities m). c = [] \<or> length c > handler_max_capability_len)
        \<or> \<not> all_fresh [] (hm_capabilities m)
      then Inl (handler_error_new KMetadataMismatch)
      else Inr ())"

record handler_result =
  hr_output :: json
  hr_next_state :: string

section \<open>Snapshots, decisions and partitions\<close>

record state_snapshot =
  ss_schema_version :: u32
  ss_generation :: u64
  ss_state :: string
  ss_checksum :: string

record decision_entry =
  de_decision_id :: string
  de_model_generation :: u64
  de_state_generation :: u64
  de_created_at :: u64
  de_action_id :: "string option"
  de_action_features :: "f64 list option"
  de_reward :: "string option"
  de_outcome_time :: "u64 option"

datatype health_status = Healthy | ResourcePressure | FailedClosed

fun health_to_string :: "health_status \<Rightarrow> string" where
  "health_to_string Healthy = ''healthy''"
| "health_to_string ResourcePressure = ''resource_pressure''"
| "health_to_string FailedClosed = ''failed_closed''"

record resource_usage =
  ru_state_bytes :: usize
  ru_snapshot_bytes :: usize
  ru_pending_decisions :: usize
  ru_completed_decisions :: usize

record runtime_diagnostics =
  rd_runtime_version :: string
  rd_protocol_version :: u32
  rd_channel :: string
  rd_model_generation :: u64
  rd_state_generation :: u64
  rd_state_schema_version :: u32
  rd_observed_at :: u64
  rd_health :: health_status
  rd_reason_codes :: "string list"
  rd_resource_usage :: resource_usage
  rd_rollback_available :: bool
  rd_candidate_available :: bool
  rd_restart_count :: u64
  rd_last_error :: "string option"

text \<open>A scope is ordered by the identity name and then by the partition key, as derived.\<close>

datatype partition_scope = Scope (scope_name: string) (scope_key: string)

instantiation partition_scope :: linorder begin

definition less_eq_partition_scope :: "partition_scope \<Rightarrow> partition_scope \<Rightarrow> bool" where
  "a \<le> b \<longleftrightarrow> scope_name a < scope_name b
     \<or> scope_name a = scope_name b \<and> scope_key a \<le> scope_key b"

definition less_partition_scope :: "partition_scope \<Rightarrow> partition_scope \<Rightarrow> bool" where
  "a < b \<longleftrightarrow> scope_name a < scope_name b
     \<or> scope_name a = scope_name b \<and> scope_key a < scope_key b"

instance
  by standard (auto simp: less_eq_partition_scope_def less_partition_scope_def
      intro: partition_scope.expand)

end

definition scope_validate :: "partition_scope \<Rightarrow> handler_error + unit" where
  "scope_validate s =
     ensure (scope_name s \<noteq> [] \<and> length (scope_name s) \<le> max_identity_name_len_v3
         \<and> scope_key s \<noteq> [] \<and> length (scope_key s) \<le> max_partition_key_len_v3)
       (handler_error_new KInvalidState)"

type_synonym decisions = "(string, decision_entry) btree"

record partition_state =
  ps_snapshot :: state_snapshot
  ps_previous_good :: "state_snapshot option"
  ps_candidate :: "state_snapshot option"
  ps_pending :: decisions
  ps_completed :: decisions

record partition_snapshot =
  pn_client_identity_name :: string
  pn_partition_key :: string
  pn_handler_snapshot :: state_snapshot
  pn_previous_good :: "state_snapshot option"
  pn_candidate :: "state_snapshot option"
  pn_pending :: decisions
  pn_completed :: decisions

record runtime_snapshot =
  rs_format_version :: u32
  rs_partitions :: "partition_snapshot list"
  rs_checksum :: string

type_synonym partitions = "(partition_scope, partition_state) btree"

section \<open>The code outside the repository\<close>

record runtime_env =
  re_sha256 :: "string \<Rightarrow> string"
  re_hex :: "string \<Rightarrow> string"
  re_is_json :: "string \<Rightarrow> bool"
  re_encode_json :: "json \<Rightarrow> string option"
  re_encode_envelope :: "envelope_v3 \<Rightarrow> string option"
  re_decode_envelope :: "string \<Rightarrow> envelope_v3 option"
  re_encode_snapshot :: "runtime_snapshot \<Rightarrow> string option"
  re_checksum_input :: "u32 \<Rightarrow> partition_snapshot list \<Rightarrow> string"
  re_handler :: "string \<Rightarrow> string \<Rightarrow> u64 option \<Rightarrow> handler_error + handler_result"

definition state_checksum :: "runtime_env \<Rightarrow> string \<Rightarrow> string" where
  "state_checksum env state = re_hex env (re_sha256 env state)"

definition validate_state_bytes :: "runtime_env \<Rightarrow> string \<Rightarrow> u32 \<Rightarrow> u32 \<Rightarrow> handler_error + unit" where
  "validate_state_bytes env state actual expected =
     (if actual = 0 \<or> actual \<noteq> expected then Inl (handler_error_new KIncompatibleVersion)
      else if length state > max_state_bytes \<or> \<not> re_is_json env state
      then Inl (handler_error_new KInvalidState)
      else Inr ())"

definition state_snapshot_new :: "runtime_env \<Rightarrow> u32 \<Rightarrow> u64 \<Rightarrow> string \<Rightarrow> state_snapshot" where
  "state_snapshot_new env schema generation state =
     \<lparr>ss_schema_version = schema, ss_generation = generation, ss_state = state,
      ss_checksum = state_checksum env state\<rparr>"

definition state_snapshot_validate :: "runtime_env \<Rightarrow> state_snapshot \<Rightarrow> u32 \<Rightarrow> handler_error + unit" where
  "state_snapshot_validate env s expected =
     and_then (validate_state_bytes env (ss_state s) (ss_schema_version s) expected) (\<lambda>_.
       ensure (ss_checksum s = state_checksum env (ss_state s)) (handler_error_new KInvalidState))"

section \<open>The runtime snapshot\<close>

definition runtime_snapshot_format_version :: u32 where
  "runtime_snapshot_format_version = 1"

definition partition_sort_key :: "partition_snapshot \<Rightarrow> partition_scope" where
  "partition_sort_key p = Scope (pn_client_identity_name p) (pn_partition_key p)"

definition runtime_snapshot_new :: "runtime_env \<Rightarrow> partition_snapshot list \<Rightarrow> runtime_snapshot" where
  "runtime_snapshot_new env ps = (let sorted_ps = sort_key partition_sort_key ps in
     \<lparr>rs_format_version = runtime_snapshot_format_version, rs_partitions = sorted_ps,
      rs_checksum = state_checksum env (re_checksum_input env runtime_snapshot_format_version sorted_ps)\<rparr>)"

definition validate_entry_key :: "string \<times> decision_entry \<Rightarrow> handler_error + unit" where
  "validate_entry_key e =
     ensure (fst e = de_decision_id (snd e) \<and> de_decision_id (snd e) \<noteq> []) (handler_error_new KInvalidState)"

fun validate_optional_snapshot ::
    "runtime_env \<Rightarrow> u32 \<Rightarrow> state_snapshot option \<Rightarrow> handler_error + unit" where
  "validate_optional_snapshot env v None = Inr ()"
| "validate_optional_snapshot env v (Some s) = state_snapshot_validate env s v"

definition validate_partition_snapshot ::
    "runtime_env \<Rightarrow> u32 \<Rightarrow> partition_snapshot \<Rightarrow> handler_error + unit" where
  "validate_partition_snapshot env v p =
     and_then (state_snapshot_validate env (pn_handler_snapshot p) v) (\<lambda>_.
     and_then (validate_optional_snapshot env v (pn_previous_good p)) (\<lambda>_.
     and_then (validate_optional_snapshot env v (pn_candidate p)) (\<lambda>_.
       try_for_each validate_entry_key (bt_entries (pn_pending p) @ bt_entries (pn_completed p)))))"

fun validate_partitions_from ::
    "runtime_env \<Rightarrow> u32 \<Rightarrow> partition_scope list \<Rightarrow> partition_snapshot list \<Rightarrow> handler_error + unit" where
  "validate_partitions_from env v seen [] = Inr ()"
| "validate_partitions_from env v seen (p # ps) =
     (let scope = partition_sort_key p in
      and_then (scope_validate scope) (\<lambda>_.
        if scope \<in> set seen then Inl (handler_error_new KInvalidState)
        else and_then (validate_partition_snapshot env v p) (\<lambda>_.
          validate_partitions_from env v (scope # seen) ps)))"

definition runtime_snapshot_validate :: "runtime_env \<Rightarrow> runtime_snapshot \<Rightarrow> u32 \<Rightarrow> handler_error + unit" where
  "runtime_snapshot_validate env s v =
     (if rs_format_version s \<noteq> runtime_snapshot_format_version
      then Inl (handler_error_new KIncompatibleVersion)
      else if rs_partitions s = []
        \<or> rs_checksum s \<noteq> state_checksum env (re_checksum_input env (rs_format_version s) (rs_partitions s))
      then Inl (handler_error_new KInvalidState)
      else validate_partitions_from env v [] (rs_partitions s))"

section \<open>Configuration and engine\<close>

record runtime_config =
  rc_runtime_identity :: identity_v3
  rc_model_generation :: u64
  rc_initial_state_generation :: u64
  rc_feature_schema_hash :: string
  rc_capabilities :: "string list"
  rc_initial_state :: string
  rc_resource_profile :: resource_profile

definition runtime_config_new ::
    "identity_v3 \<Rightarrow> u64 \<Rightarrow> string \<Rightarrow> string list \<Rightarrow> string \<Rightarrow> runtime_config" where
  "runtime_config_new ident model_generation schema_hash capabilities initial_state =
     \<lparr>rc_runtime_identity = ident, rc_model_generation = model_generation,
      rc_initial_state_generation = 0, rc_feature_schema_hash = schema_hash,
      rc_capabilities = capabilities, rc_initial_state = initial_state,
      rc_resource_profile = resource_profile_default\<rparr>"

definition with_resource_profile :: "runtime_config \<Rightarrow> resource_profile \<Rightarrow> runtime_config" where
  "with_resource_profile c p = c\<lparr>rc_resource_profile := p\<rparr>"

record runtime_state =
  st_partitions :: partitions
  st_restart_count :: u64
  st_last_error :: "string option"

text \<open>
  The engine holds its state behind a mutex. \<open>en_poisoned\<close> says that a thread panicked while it
  held the lock: from then on every \<open>lock()\<close> fails. The handler is the field \<open>re_handler\<close>.
\<close>

record engine =
  en_config :: runtime_config
  en_metadata :: handler_metadata
  en_state :: runtime_state
  en_poisoned :: bool

definition en_profile :: "engine \<Rightarrow> resource_profile" where
  "en_profile en = rc_resource_profile (en_config en)"

definition validate_feature_schema_hash :: "string \<Rightarrow> handler_error + unit" where
  "validate_feature_schema_hash h =
     ensure (length h = 64 \<and> (\<forall>b \<in> set h. is_lower_hex b)) (handler_error_new KInvalidModel)"

definition validate_capabilities :: "string list \<Rightarrow> handler_error + unit" where
  "validate_capabilities cs =
     (if cs = [] \<or> length cs > handler_max_capabilities then Inl (handler_error_new KInvalidModel)
      else if (\<exists>c \<in> set cs. c = [] \<or> length c > handler_max_capability_len) \<or> \<not> all_fresh [] cs
      then Inl (handler_error_new KInvalidModel)
      else Inr ())"

definition engine_new :: "runtime_env \<Rightarrow> runtime_config \<Rightarrow> handler_metadata \<Rightarrow> handler_error + engine" where
  "engine_new env c m =
     and_then (metadata_validate m) (\<lambda>_.
     and_then (map_err (\<lambda>e. with_detail KInvalidModel (protocol_v3_error_msg e))
         (identity_validate (rc_runtime_identity c))) (\<lambda>_.
     and_then (validate_feature_schema_hash (rc_feature_schema_hash c)) (\<lambda>_.
     and_then (validate_capabilities (rc_capabilities c)) (\<lambda>_.
     and_then (map_err (with_detail KInvalidModel)
         (resource_profile_validate (rc_resource_profile c))) (\<lambda>_.
       if rc_capabilities c \<noteq> hm_capabilities m then Inl (handler_error_new KMetadataMismatch)
       else and_then (validate_state_bytes env (rc_initial_state c) (hm_state_schema_version m)
           (hm_state_schema_version m)) (\<lambda>_.
         if length (rc_initial_state c) > unat (max_model_state_bytes (rc_resource_profile c))
         then Inl (handler_error_new KInvalidState)
         else if length (rc_initial_state c) > unat (max_total_state_bytes (rc_resource_profile c))
         then Inl (handler_error_new KInvalidState)
         else Inr \<lparr>en_config = c, en_metadata = m,
           en_state = \<lparr>st_partitions = bt_empty, st_restart_count = 0, st_last_error = None\<rparr>,
           en_poisoned = False\<rparr>))))))"

definition initial_partition :: "runtime_env \<Rightarrow> engine \<Rightarrow> partition_state" where
  "initial_partition env en =
     \<lparr>ps_snapshot = state_snapshot_new env (hm_state_schema_version (en_metadata en))
        (rc_initial_state_generation (en_config en)) (rc_initial_state (en_config en)),
      ps_previous_good = None, ps_candidate = None, ps_pending = bt_empty, ps_completed = bt_empty\<rparr>"

section \<open>Resource checks\<close>

definition partition_to_snapshot :: "partition_scope \<Rightarrow> partition_state \<Rightarrow> partition_snapshot" where
  "partition_to_snapshot scope p =
     \<lparr>pn_client_identity_name = scope_name scope, pn_partition_key = scope_key scope,
      pn_handler_snapshot = ps_snapshot p, pn_previous_good = ps_previous_good p,
      pn_candidate = ps_candidate p, pn_pending = ps_pending p, pn_completed = ps_completed p\<rparr>"

definition snapshot_for_partitions :: "runtime_env \<Rightarrow> partitions \<Rightarrow> runtime_snapshot" where
  "snapshot_for_partitions env ps =
     runtime_snapshot_new env (map (\<lambda>(scope, p). partition_to_snapshot scope p) (bt_entries ps))"

fun optional_bytes :: "state_snapshot option \<Rightarrow> nat" where
  "optional_bytes None = 0"
| "optional_bytes (Some s) = length (ss_state s)"

fun optional_exceeds :: "state_snapshot option \<Rightarrow> nat \<Rightarrow> bool" where
  "optional_exceeds None limit = False"
| "optional_exceeds (Some s) limit = (length (ss_state s) > limit)"

definition validate_partition_resources :: "resource_profile \<Rightarrow> partition_snapshot \<Rightarrow> handler_error + unit" where
  "validate_partition_resources prof p = (let limit = unat (max_model_state_bytes prof) in
     if length (ss_state (pn_handler_snapshot p)) > limit
        \<or> optional_exceeds (pn_previous_good p) limit \<or> optional_exceeds (pn_candidate p) limit
        \<or> bt_len (pn_pending p) > unat (max_pending_decisions prof)
        \<or> bt_len (pn_completed p) > unat (max_completed_decisions prof)
     then Inl (handler_error_new KInvalidState) else Inr ())"

definition partition_bytes :: "partition_snapshot \<Rightarrow> nat" where
  "partition_bytes p = length (ss_state (pn_handler_snapshot p))
     + optional_bytes (pn_previous_good p) + optional_bytes (pn_candidate p)"

definition validate_runtime_snapshot_size ::
    "runtime_env \<Rightarrow> resource_profile \<Rightarrow> runtime_snapshot \<Rightarrow> handler_error + unit" where
  "validate_runtime_snapshot_size env prof s =
     (if length (rs_partitions s) > unat (max_partitions prof) then Inl (handler_error_new KInvalidState)
      else if sum_list (map partition_bytes (rs_partitions s)) > unat (max_total_state_bytes prof)
      then Inl (with_detail KInvalidState ''total partition state exceeds resource limit'')
      else and_then (try_for_each (validate_partition_resources prof) (rs_partitions s)) (\<lambda>_.
        and_then (ok_or (re_encode_snapshot env s) (handler_error_new KInternal)) (\<lambda>bytes.
          if length bytes > unat (max_snapshot_bytes prof)
          then Inl (with_detail KInvalidState ''snapshot exceeds resource limit'')
          else Inr ())))"

definition validate_partition_map :: "runtime_env \<Rightarrow> resource_profile \<Rightarrow> partitions \<Rightarrow> handler_error + unit" where
  "validate_partition_map env prof ps =
     validate_runtime_snapshot_size env prof (snapshot_for_partitions env ps)"

end
