(* ===== verification/Runtime_Lifecycle.thy ===== *)
theory Runtime_Lifecycle imports Runtime_State begin

text \<open>
  The lifecycle operations of the engine in \<open>crates/rill-runtime/src/stateful.rs\<close>: restoring and
  taking snapshots, staging, promoting and rolling back candidates, migration, the aliases of the
  unscoped API, health and diagnostics. Each operation works on a copy of the partition map and
  commits it after the resource checks; the model computes the new runtime state in the result
  type and \<open>commit\<close> stores it, so that an error leaves the engine as it was.
\<close>

definition lock_state :: "engine \<Rightarrow> handler_error + runtime_state" where
  "lock_state en = (if en_poisoned en then Inl (handler_error_new KInternal) else Inr (en_state en))"

definition commit :: "engine \<Rightarrow> handler_error + ('a \<times> runtime_state) \<Rightarrow> (handler_error + 'a) \<times> engine" where
  "commit en r = (case r of Inl e \<Rightarrow> (Inl e, en) | Inr (x, st) \<Rightarrow> (Inr x, en\<lparr>en_state := st\<rparr>))"

definition schema_version :: "engine \<Rightarrow> u32" where
  "schema_version en = hm_state_schema_version (en_metadata en)"

definition entry_or_initial :: "runtime_env \<Rightarrow> engine \<Rightarrow> partitions \<Rightarrow> partition_scope \<Rightarrow> partition_state" where
  "entry_or_initial env en ps scope =
     (case bt_get ps scope of Some p \<Rightarrow> p | None \<Rightarrow> initial_partition env en)"

definition has_room :: "engine \<Rightarrow> partitions \<Rightarrow> partition_scope \<Rightarrow> bool" where
  "has_room en ps scope \<longleftrightarrow> bt_contains ps scope \<or> bt_len ps < unat (max_partitions (en_profile en))"

text \<open>The checks a snapshot passes before the state is locked.\<close>

definition check_incoming :: "runtime_env \<Rightarrow> engine \<Rightarrow> partition_scope \<Rightarrow> state_snapshot \<Rightarrow> handler_error + unit" where
  "check_incoming env en scope snap =
     and_then (scope_validate scope) (\<lambda>_.
     and_then (state_snapshot_validate env snap (schema_version en)) (\<lambda>_.
       ensure (length (ss_state snap) \<le> unat (max_model_state_bytes (en_profile en)))
         (handler_error_new KInvalidState)))"

text \<open>Validating a changed map and installing it.\<close>

definition install :: "runtime_env \<Rightarrow> engine \<Rightarrow> runtime_state \<Rightarrow> partitions \<Rightarrow> handler_error + runtime_state" where
  "install env en st ps =
     and_then (validate_partition_map env (en_profile en) ps) (\<lambda>_. Inr (st\<lparr>st_partitions := ps\<rparr>))"

definition restore_partition_snapshot ::
    "runtime_env \<Rightarrow> engine \<Rightarrow> partition_scope \<Rightarrow> state_snapshot \<Rightarrow> (handler_error + unit) \<times> engine" where
  "restore_partition_snapshot env en scope snap = commit en
     (and_then (check_incoming env en scope snap) (\<lambda>_.
      and_then (lock_state en) (\<lambda>st.
      and_then (ensure (has_room en (st_partitions st) scope) (handler_error_new KInvalidState)) (\<lambda>_.
        let p = entry_or_initial env en (st_partitions st) scope;
            p' = p\<lparr>ps_previous_good := Some (ps_snapshot p), ps_snapshot := snap\<rparr>
        in and_then (install env en st (bt_insert scope p' (st_partitions st))) (\<lambda>st'.
          Inr ((), st'\<lparr>st_restart_count := saturating_add_u64 (st_restart_count st') 1\<rparr>))))))"

definition snapshot_for_scope :: "runtime_env \<Rightarrow> engine \<Rightarrow> partition_scope \<Rightarrow> handler_error + state_snapshot" where
  "snapshot_for_scope env en scope =
     and_then (lock_state en) (\<lambda>st. Inr (ps_snapshot (entry_or_initial env en (st_partitions st) scope)))"

definition snapshot_runtime :: "runtime_env \<Rightarrow> engine \<Rightarrow> handler_error + runtime_snapshot" where
  "snapshot_runtime env en =
     and_then (lock_state en) (\<lambda>st.
       let s = snapshot_for_partitions env (st_partitions st) in
       and_then (validate_runtime_snapshot_size env (en_profile en) s) (\<lambda>_. Inr s))"

definition restored_partition :: "partition_snapshot \<Rightarrow> partition_state" where
  "restored_partition p = \<lparr>ps_snapshot = pn_handler_snapshot p, ps_previous_good = pn_previous_good p,
     ps_candidate = pn_candidate p, ps_pending = pn_pending p, ps_completed = pn_completed p\<rparr>"

definition restore_step ::
    "resource_profile \<Rightarrow> partitions \<Rightarrow> partition_snapshot \<Rightarrow> handler_error + partitions" where
  "restore_step prof restored p = and_then (validate_partition_resources prof p) (\<lambda>_.
     Inr (bt_insert (partition_sort_key p) (restored_partition p) restored))"

definition restore_runtime ::
    "runtime_env \<Rightarrow> engine \<Rightarrow> runtime_snapshot \<Rightarrow> (handler_error + unit) \<times> engine" where
  "restore_runtime env en s = commit en
     (and_then (runtime_snapshot_validate env s (schema_version en)) (\<lambda>_.
      and_then (validate_runtime_snapshot_size env (en_profile en) s) (\<lambda>_.
      and_then (try_fold (restore_step (en_profile en)) bt_empty (rs_partitions s)) (\<lambda>restored.
      and_then (lock_state en) (\<lambda>st.
        Inr ((), st\<lparr>st_partitions := restored,
          st_restart_count := saturating_add_u64 (st_restart_count st) 1\<rparr>))))))"

definition stage_candidate_for_scope ::
    "runtime_env \<Rightarrow> engine \<Rightarrow> partition_scope \<Rightarrow> state_snapshot \<Rightarrow> (handler_error + unit) \<times> engine" where
  "stage_candidate_for_scope env en scope snap = commit en
     (and_then (check_incoming env en scope snap) (\<lambda>_.
      and_then (lock_state en) (\<lambda>st.
      and_then (ensure (has_room en (st_partitions st) scope) (handler_error_new KInvalidState)) (\<lambda>_.
        let p' = (entry_or_initial env en (st_partitions st) scope)\<lparr>ps_candidate := Some snap\<rparr>
        in and_then (install env en st (bt_insert scope p' (st_partitions st))) (\<lambda>st'.
          Inr ((), st'))))))"

definition promote_candidate_for_scope ::
    "runtime_env \<Rightarrow> engine \<Rightarrow> partition_scope \<Rightarrow> (handler_error + u64) \<times> engine" where
  "promote_candidate_for_scope env en scope = commit en
     (and_then (scope_validate scope) (\<lambda>_.
      and_then (lock_state en) (\<lambda>st.
      and_then (ok_or (bt_get (st_partitions st) scope) (handler_error_new KInvalidState)) (\<lambda>p.
      and_then (ok_or (ps_candidate p) (handler_error_new KInvalidState)) (\<lambda>candidate.
        let p' = p\<lparr>ps_candidate := None, ps_previous_good := Some (ps_snapshot p),
                   ps_snapshot := candidate, ps_pending := bt_empty, ps_completed := bt_empty\<rparr>
        in and_then (install env en st (bt_insert scope p' (st_partitions st))) (\<lambda>st'.
          Inr (ss_generation candidate, st')))))))"

definition rollback_previous_good_for_scope ::
    "runtime_env \<Rightarrow> engine \<Rightarrow> partition_scope \<Rightarrow> (handler_error + u64) \<times> engine" where
  "rollback_previous_good_for_scope env en scope = commit en
     (and_then (scope_validate scope) (\<lambda>_.
      and_then (lock_state en) (\<lambda>st.
      and_then (ok_or (bt_get (st_partitions st) scope) (handler_error_new KInvalidState)) (\<lambda>p.
      and_then (ok_or (ps_previous_good p) (handler_error_new KInvalidState)) (\<lambda>previous.
        let p' = p\<lparr>ps_snapshot := previous, ps_previous_good := Some (ps_snapshot p),
                   ps_candidate := None, ps_pending := bt_empty, ps_completed := bt_empty\<rparr>
        in and_then (install env en st (bt_insert scope p' (st_partitions st))) (\<lambda>st'.
          Inr (ss_generation previous, st')))))))"

type_synonym migrator = "u32 \<Rightarrow> string \<Rightarrow> handler_error + (u32 \<times> string)"

definition restore_snapshot_with_migration_for_scope ::
    "runtime_env \<Rightarrow> engine \<Rightarrow> partition_scope \<Rightarrow> state_snapshot \<Rightarrow> migrator
     \<Rightarrow> (handler_error + unit) \<times> engine" where
  "restore_snapshot_with_migration_for_scope env en scope snap migrate =
     (if ss_schema_version snap = schema_version en then restore_partition_snapshot env en scope snap
      else case migrate (ss_schema_version snap) (ss_state snap) of
        Inl e \<Rightarrow> (Inl e, en)
      | Inr (v, state) \<Rightarrow>
          if v \<noteq> schema_version en then (Inl (handler_error_new KIncompatibleVersion), en)
          else restore_partition_snapshot env en scope
                 (state_snapshot_new env v (ss_generation snap) state))"

section \<open>The unscoped API\<close>

definition legacy_scope :: partition_scope where
  "legacy_scope = Scope ''legacy-compatibility'' ''default''"

definition restore_snapshot where
  "restore_snapshot env en snap = restore_partition_snapshot env en legacy_scope snap"

definition current_snapshot where
  "current_snapshot env en = snapshot_for_scope env en legacy_scope"

definition runtime_snapshot_alias where
  "runtime_snapshot_alias env en = snapshot_runtime env en"

definition restore_runtime_snapshot where
  "restore_runtime_snapshot env en s = restore_runtime env en s"

definition stage_candidate where
  "stage_candidate env en snap = stage_candidate_for_scope env en legacy_scope snap"

definition promote_candidate where
  "promote_candidate env en = promote_candidate_for_scope env en legacy_scope"

definition rollback_previous_good where
  "rollback_previous_good env en = rollback_previous_good_for_scope env en legacy_scope"

definition restore_snapshot_with_migration where
  "restore_snapshot_with_migration env en snap migrate =
     restore_snapshot_with_migration_for_scope env en legacy_scope snap migrate"

section \<open>Health and diagnostics\<close>

definition is_healthy :: "engine \<Rightarrow> bool" where
  "is_healthy en \<longleftrightarrow> \<not> en_poisoned en \<and> st_last_error (en_state en) = None"

definition health_reason_codes :: "engine \<Rightarrow> string list option" where
  "health_reason_codes en =
     (if en_poisoned en then None
      else map_option (\<lambda>e. [e]) (st_last_error (en_state en)))"

definition first_generation :: "u64 \<Rightarrow> partitions \<Rightarrow> u64" where
  "first_generation d0 ps =
     (case bt_values ps of [] \<Rightarrow> d0 | p # _ \<Rightarrow> ss_generation (ps_snapshot p))"

definition current_generation :: "engine \<Rightarrow> u64" where
  "current_generation en =
     (if en_poisoned en then 0 else first_generation 0 (st_partitions (en_state en)))"

definition under_pressure :: "resource_profile \<Rightarrow> partition_state \<Rightarrow> bool" where
  "under_pressure prof p \<longleftrightarrow>
     length (ss_state (ps_snapshot p)) * 10 \<ge> unat (max_model_state_bytes prof) * 9
     \<or> bt_len (ps_pending p) * 10 \<ge> unat (max_pending_decisions prof) * 9
     \<or> bt_len (ps_completed p) * 10 \<ge> unat (max_completed_decisions prof) * 9"

definition health_status_for_state :: "engine \<Rightarrow> runtime_state \<Rightarrow> health_status" where
  "health_status_for_state en st =
     (if st_last_error st \<noteq> None then FailedClosed
      else if \<exists>p \<in> set (bt_values (st_partitions st)). under_pressure (en_profile en) p
      then ResourcePressure else Healthy)"

definition diagnostics_at :: "runtime_env \<Rightarrow> engine \<Rightarrow> u64 \<Rightarrow> handler_error + runtime_diagnostics" where
  "diagnostics_at env en now =
     and_then (lock_state en) (\<lambda>st.
       let ps = bt_values (st_partitions st) in
       and_then (ok_or (re_encode_snapshot env (snapshot_for_partitions env (st_partitions st)))
           (handler_error_new KInternal)) (\<lambda>bytes.
         Inr \<lparr>rd_runtime_version = id_version (rc_runtime_identity (en_config en)),
           rd_protocol_version = runtime_api_version_v3, rd_channel = preview_channel_v3,
           rd_model_generation = rc_model_generation (en_config en),
           rd_state_generation =
             first_generation (rc_initial_state_generation (en_config en)) (st_partitions st),
           rd_state_schema_version = schema_version en, rd_observed_at = now,
           rd_health = health_status_for_state en st,
           rd_reason_codes = (case st_last_error st of None \<Rightarrow> [] | Some e \<Rightarrow> [e]),
           rd_resource_usage =
             \<lparr>ru_state_bytes = sum_list (map (\<lambda>p. length (ss_state (ps_snapshot p))) ps),
              ru_snapshot_bytes = length bytes,
              ru_pending_decisions = sum_list (map (\<lambda>p. bt_len (ps_pending p)) ps),
              ru_completed_decisions = sum_list (map (\<lambda>p. bt_len (ps_completed p)) ps)\<rparr>,
           rd_rollback_available = (\<exists>p \<in> set ps. ps_previous_good p \<noteq> None),
           rd_candidate_available = (\<exists>p \<in> set ps. ps_candidate p \<noteq> None),
           rd_restart_count = st_restart_count st, rd_last_error = st_last_error st\<rparr>))"

end
