(* ===== verification/Runtime_Requests.thy ===== *)
theory Runtime_Requests imports Runtime_Lifecycle begin

text \<open>
  Request handling of the engine in \<open>crates/rill-runtime/src/stateful.rs\<close>: \<open>handle_at\<close> and its JSON
  and preview forms, and \<open>handle_stateful\<close> in the stages of the source: the checks before the lock,
  opening the partition, the checks on the partition, the snapshot and reset requests, and the
  handler call with the checks on its result. A stage that returns early gives the error code and
  message; the caller adds the generation the source reports at that point. When a partition was
  created for the request, every early return of the handler stage removes it again.
\<close>

section \<open>Responses\<close>

definition respond :: "engine \<Rightarrow> string \<Rightarrow> u64 \<Rightarrow> response_body_v3 \<Rightarrow> response_v3" where
  "respond en request_id state_generation body =
     \<lparr>rsp_request_id = request_id, rsp_api_version = runtime_api_version_v3,
      rsp_runtime_identity = rc_runtime_identity (en_config en),
      rsp_model_generation = rc_model_generation (en_config en),
      rsp_state_generation = state_generation, rsp_response = body\<rparr>"

definition error_response :: "engine \<Rightarrow> string \<Rightarrow> error_code_v3 \<times> string \<Rightarrow> u64 \<Rightarrow> response_v3" where
  "error_response en request_id cm state_generation =
     respond en (if request_id = [] then ''invalid-request'' else request_id) state_generation
       (RError (error_v3_new (fst cm) (snd cm)))"

fun map_handler_error :: "handler_error_kind \<Rightarrow> error_code_v3 \<times> string" where
  "map_handler_error KInvalidEvent = (CInvalidEnvelope, ''handler rejected the event'')"
| "map_handler_error KInvalidState = (CInvalidState, ''handler rejected the current state'')"
| "map_handler_error KIncompatibleVersion = (CInvalidState, ''handler rejected the current state'')"
| "map_handler_error KDuplicateFeedback = (CDuplicateFeedback, ''feedback was already applied'')"
| "map_handler_error KTimeout = (CHandlerTimeout, ''handler exceeded the wall-clock deadline'')"
| "map_handler_error KTrap = (CHandlerTrap, ''handler trapped'')"
| "map_handler_error KOutputTooLarge = (CHandlerOutputTooLarge, ''handler output exceeded the size limit'')"
| "map_handler_error KInvalidOutput = (CHandlerInvalidOutput, ''handler output was not valid JSON'')"
| "map_handler_error _ = (CInternal, ''internal runtime error'')"

section \<open>Features of the selected action\<close>

fun collect_options :: "'a option list \<Rightarrow> 'a list option" where
  "collect_options [] = Some []"
| "collect_options (x # xs) = Option.bind x (\<lambda>y. map_option ((#) y) (collect_options xs))"

fun selected_action_features :: "runtime_request \<Rightarrow> string \<Rightarrow> f64 list option" where
  "selected_action_features (Decide context seed) action_id =
     Option.bind (Option.bind (case json_get context ''actions'' of Some v \<Rightarrow> Some v
         | None \<Rightarrow> json_get context ''arms'') json_as_array) (\<lambda>actions.
     Option.bind (List.find (\<lambda>action. Option.bind (json_get action ''id'') json_as_str = Some action_id)
         actions) (\<lambda>action.
     Option.bind (Option.bind (json_get action ''features'') json_as_array) (\<lambda>features.
       if features = [] \<or> length features > 32 then None
       else Option.bind (collect_options (map json_as_f64 features)) (\<lambda>values.
         if \<forall>v \<in> set values. is_finite v then Some values else None))))"
| "selected_action_features _ action_id = None"

definition selected_action_id :: "json \<Rightarrow> string option" where
  "selected_action_id output =
     (case Option.bind (json_get output ''selectedActionId'') json_as_str of
        Some v \<Rightarrow> if v \<noteq> [] \<and> length v \<le> 96 then Some v else None
      | None \<Rightarrow> None)"

section \<open>Stages of a stateful request\<close>

definition check_call :: "engine \<Rightarrow> envelope_v3 \<Rightarrow> (error_code_v3 \<times> string) + unit" where
  "check_call en e =
     (let capability = (case env_capability e of Some c \<Rightarrow> c | None \<Rightarrow> []) in
      if capability \<notin> set (rc_capabilities (en_config en))
      then Inl (CUnsupportedCapability, ''capability is not in the effective set'')
      else if env_feature_schema_hash e \<noteq> Some (rc_feature_schema_hash (en_config en))
      then Inl (CStateMismatch, ''feature schema hash does not match'')
      else if env_model_generation e \<noteq> rc_model_generation (en_config en)
      then Inl (CIncompatibleGeneration, ''model generation does not match'')
      else case env_request e of
        Feedback d a r t g \<Rightarrow>
          ensure (g = rc_model_generation (en_config en))
            (CIncompatibleGeneration, ''feedback generation does not match'')
      | _ \<Rightarrow> Inr ())"

fun creates_partition :: "runtime_request \<Rightarrow> bool" where
  "creates_partition (Decide _ _) = True"
| "creates_partition (Observe _) = True"
| "creates_partition _ = False"

definition open_partition ::
    "runtime_env \<Rightarrow> engine \<Rightarrow> runtime_state \<Rightarrow> envelope_v3 \<Rightarrow> partition_scope
     \<Rightarrow> (error_code_v3 \<times> string) + (partition_state \<times> runtime_state)" where
  "open_partition env en st e scope =
     (case bt_get (st_partitions st) scope of
        Some p \<Rightarrow> Inr (p, st)
      | None \<Rightarrow>
          if bt_len (st_partitions st) \<ge> unat (max_partitions (en_profile en))
          then Inl (CInternal, ''partition capacity is exhausted'')
          else if \<not> creates_partition (env_request e)
            \<or> env_state_generation e \<noteq> rc_initial_state_generation (en_config en)
          then Inl (CStateMismatch, ''namespace does not exist'')
          else Inr (initial_partition env en,
            st\<lparr>st_partitions := bt_insert scope (initial_partition env en) (st_partitions st)\<rparr>))"

definition check_decide :: "engine \<Rightarrow> string \<Rightarrow> partition_state \<Rightarrow> (error_code_v3 \<times> string) + unit" where
  "check_decide en request_id p =
     (if bt_contains (ps_pending p) request_id \<or> bt_contains (ps_completed p) request_id
      then Inl (CInternal, ''decision id was already used'')
      else if bt_len (ps_pending p) \<ge> unat (max_pending_decisions (en_profile en))
        \<or> bt_len (ps_completed p) \<ge> unat (max_completed_decisions (en_profile en))
      then Inl (CInternal, ''pending decision capacity is exhausted'')
      else Inr ())"

definition check_feedback ::
    "engine \<Rightarrow> string \<Rightarrow> string \<Rightarrow> u64 \<Rightarrow> partition_state \<Rightarrow> (error_code_v3 \<times> string) + unit" where
  "check_feedback en decision_id action_id generation p =
     (if bt_contains (ps_completed p) decision_id
      then Inl (CDuplicateFeedback, ''feedback was already applied'')
      else case bt_get (ps_pending p) decision_id of
        None \<Rightarrow> Inl (CInternal, ''decision id is not pending'')
      | Some entry \<Rightarrow>
          if de_model_generation entry \<noteq> generation
          then Inl (CIncompatibleGeneration, ''feedback generation is stale'')
          else if de_action_id entry \<noteq> Some action_id
          then Inl (CStateMismatch, ''feedback action does not match the recorded decision'')
          else if bt_len (ps_completed p) \<ge> unat (max_completed_decisions (en_profile en))
          then Inl (CInternal, ''completed decision capacity is exhausted'')
          else Inr ())"

definition check_partition :: "engine \<Rightarrow> envelope_v3 \<Rightarrow> partition_state \<Rightarrow> (error_code_v3 \<times> string) + unit" where
  "check_partition en e p =
     (if env_state_generation e \<noteq> ss_generation (ps_snapshot p)
      then Inl (CStateMismatch, ''state generation does not match'')
      else case env_request e of
        Decide ctx seed \<Rightarrow> check_decide en (env_request_id e) p
      | Feedback d a r t g \<Rightarrow> check_feedback en d a g p
      | _ \<Rightarrow> Inr ())"

definition reset_partition ::
    "runtime_env \<Rightarrow> engine \<Rightarrow> partition_scope \<Rightarrow> partition_state \<Rightarrow> u64 \<Rightarrow> runtime_state
     \<Rightarrow> (error_code_v3 \<times> string) + (u64 \<times> runtime_state)" where
  "reset_partition env en scope p expected st =
     (if expected \<noteq> ss_generation (ps_snapshot p)
      then Inl (CStateMismatch, ''reset generation does not match'')
      else case checked_add_u64 (ss_generation (ps_snapshot p)) 1 of
        None \<Rightarrow> Inl (CInvalidState, ''state generation overflow'')
      | Some next_generation \<Rightarrow>
          let p' = p\<lparr>ps_snapshot := state_snapshot_new env (schema_version en) next_generation
                       (rc_initial_state (en_config en)),
                     ps_pending := bt_empty, ps_completed := bt_empty\<rparr>;
              prospective = bt_insert scope p' (st_partitions st)
          in if is_err (validate_partition_map env (en_profile en) prospective)
             then Inl (CInternal, ''reset would exceed snapshot resource limits'')
             else Inr (next_generation, st\<lparr>st_partitions := prospective\<rparr>))"

section \<open>The handler stage\<close>

fun deterministic_seed_of :: "runtime_request \<Rightarrow> u64 option" where
  "deterministic_seed_of (Decide ctx seed) = seed"
| "deterministic_seed_of _ = None"

fun delayed_features :: "partition_state \<Rightarrow> runtime_request \<Rightarrow> f64 list option" where
  "delayed_features p (Feedback d a r t g) = Option.bind (bt_get (ps_pending p) d) de_action_features"
| "delayed_features p _ = None"

definition event_document :: "runtime_request \<Rightarrow> f64 list option \<Rightarrow> json" where
  "event_document req features = json_object (request_entries req
     @ (case features of None \<Rightarrow> []
        | Some fs \<Rightarrow> [(''decisionContext'',
            json_object [(''selectedActionFeatures'', JArray (map json_of_f64 fs))])]))"

text \<open>
  The decision maps after a successful call. The source unwraps the removed entry of a feedback;
  \<open>check_feedback\<close> has established that it is present.
\<close>

fun next_decisions ::
    "engine \<Rightarrow> string \<Rightarrow> u64 \<Rightarrow> json \<Rightarrow> u64 \<Rightarrow> partition_state \<Rightarrow> runtime_request \<Rightarrow> decisions \<times> decisions" where
  "next_decisions en request_id now output next_generation p (Decide ctx seed) =
     (let action = selected_action_id output in
      (bt_insert request_id
         \<lparr>de_decision_id = request_id, de_model_generation = rc_model_generation (en_config en),
          de_state_generation = next_generation, de_created_at = now, de_action_id = action,
          de_action_features = Option.bind action (selected_action_features (Decide ctx seed)),
          de_reward = None, de_outcome_time = None\<rparr> (ps_pending p),
       ps_completed p))"
| "next_decisions en request_id now output next_generation p (Feedback d a r t g) =
     (case bt_get (ps_pending p) d of
        None \<Rightarrow> (ps_pending p, ps_completed p)
      | Some entry \<Rightarrow>
          (bt_remove d (ps_pending p),
           bt_insert (de_decision_id entry)
             (entry\<lparr>de_action_id := Some a, de_reward := Some (f64_to_string r),
                    de_outcome_time := Some t\<rparr>) (ps_completed p)))"
| "next_decisions en request_id now output next_generation p req = (ps_pending p, ps_completed p)"

definition next_partition ::
    "runtime_env \<Rightarrow> engine \<Rightarrow> envelope_v3 \<Rightarrow> u64 \<Rightarrow> partition_scope \<Rightarrow> partition_state \<Rightarrow> runtime_state
     \<Rightarrow> handler_result \<Rightarrow> (error_code_v3 \<times> string) + partition_state" where
  "next_partition env en e now scope p st result =
     (case re_encode_json env (hr_output result) of
        None \<Rightarrow> Inl (CHandlerInvalidOutput, ''handler output was not valid JSON'')
      | Some output_bytes \<Rightarrow>
        if length output_bytes > max_output_bytes
        then Inl (CHandlerOutputTooLarge, ''handler output exceeded the size limit'')
        else if is_err (validate_state_bytes env (hr_next_state result) (schema_version en) (schema_version en))
        then Inl (CInvalidState, ''handler returned invalid next state'')
        else if length (hr_next_state result) > unat (max_model_state_bytes (en_profile en))
        then Inl (CInternal, ''model state resource limit exceeded'')
        else case checked_add_u64 (ss_generation (ps_snapshot p)) 1 of
          None \<Rightarrow> Inl (CInvalidState, ''state generation overflow'')
        | Some next_generation \<Rightarrow>
          let (pending, completed) =
                next_decisions en (env_request_id e) now (hr_output result) next_generation p (env_request e);
              p' = p\<lparr>ps_snapshot := state_snapshot_new env (schema_version en) next_generation
                       (hr_next_state result),
                     ps_previous_good := Some (ps_snapshot p),
                     ps_pending := pending, ps_completed := completed\<rparr>;
              others = filter (\<lambda>x. fst x \<noteq> scope) (bt_entries (st_partitions st));
              prospective = runtime_snapshot_new env
                (partition_to_snapshot scope p' # map (\<lambda>(s, q). partition_to_snapshot s q) others)
          in if is_err (validate_runtime_snapshot_size env (en_profile en) prospective)
             then Inl (CInternal, ''snapshot resource limit exceeded'')
             else Inr p')"

text \<open>The call: an error with the recorded failure message, or the output and the next partition.\<close>

definition call_handler ::
    "runtime_env \<Rightarrow> engine \<Rightarrow> envelope_v3 \<Rightarrow> u64 \<Rightarrow> partition_scope \<Rightarrow> partition_state \<Rightarrow> runtime_state
     \<Rightarrow> ((error_code_v3 \<times> string) \<times> string option) + (json \<times> partition_state)" where
  "call_handler env en e now scope p st =
     (case re_encode_json env (event_document (env_request e) (delayed_features p (env_request e))) of
        None \<Rightarrow> Inl ((CInvalidJson, ''event could not be encoded''), None)
      | Some event_json \<Rightarrow>
          if length event_json > max_event_bytes
          then Inl ((CPayloadTooLarge, ''event exceeds handler limit''), None)
          else case re_handler env event_json (ss_state (ps_snapshot p))
                 (deterministic_seed_of (env_request e)) of
            Inl err \<Rightarrow> Inl (map_handler_error (he_kind err), Some (snd (map_handler_error (he_kind err))))
          | Inr result \<Rightarrow> map_err (\<lambda>cm. (cm, None))
              (and_then (next_partition env en e now scope p st result) (\<lambda>p'. Inr (hr_output result, p'))))"

definition inspection_summary ::
    "engine \<Rightarrow> string \<Rightarrow> partition_state \<Rightarrow> u64 \<Rightarrow> string option \<Rightarrow> json \<Rightarrow> json" where
  "inspection_summary en partition_key p restart_count last_error handler_summary = json_object
     [(''runtimeVersion'', JString (id_version (rc_runtime_identity (en_config en)))),
      (''protocolVersion'', json_of_u32 runtime_api_version_v3),
      (''channel'', JString preview_channel_v3),
      (''partitionKey'', JString partition_key),
      (''modelGeneration'', json_of_u64 (rc_model_generation (en_config en))),
      (''stateGeneration'', json_of_u64 (ss_generation (ps_snapshot p))),
      (''stateSchemaVersion'', json_of_u32 (ss_schema_version (ps_snapshot p))),
      (''stateChecksum'', JString (ss_checksum (ps_snapshot p))),
      (''pendingDecisions'', json_of_usize (bt_len (ps_pending p))),
      (''completedDecisions'', json_of_usize (bt_len (ps_completed p))),
      (''resourceProfile'', profile_to_json (en_profile en)),
      (''resourceUtilization'', json_object
         [(''stateBytes'', json_of_usize (length (ss_state (ps_snapshot p)))),
          (''pendingDecisions'', json_of_usize (bt_len (ps_pending p))),
          (''completedDecisions'', json_of_usize (bt_len (ps_completed p)))]),
      (''rollbackAvailable'', JBool (ps_previous_good p \<noteq> None)),
      (''candidateAvailable'', JBool (ps_candidate p \<noteq> None)),
      (''restartCount'', json_of_u64 restart_count),
      (''health'', JString (health_to_string Healthy)),
      (''lastError'', json_of_option JString last_error),
      (''handler'', handler_summary)]"

definition undo_created :: "bool \<Rightarrow> partition_scope \<Rightarrow> runtime_state \<Rightarrow> runtime_state" where
  "undo_created created scope st =
     (if created then st\<lparr>st_partitions := bt_remove scope (st_partitions st)\<rparr> else st)"

definition run_handler ::
    "runtime_env \<Rightarrow> engine \<Rightarrow> envelope_v3 \<Rightarrow> u64 \<Rightarrow> partition_scope \<Rightarrow> bool \<Rightarrow> partition_state \<Rightarrow> runtime_state
     \<Rightarrow> response_v3 \<times> engine" where
  "run_handler env en e now scope created p st =
     (case call_handler env en e now scope p st of
        Inl (cm, failure) \<Rightarrow>
          (let st1 = undo_created created scope st;
               st2 = (case failure of None \<Rightarrow> st1 | Some m \<Rightarrow> st1\<lparr>st_last_error := Some m\<rparr>)
           in (error_response en (env_request_id e) cm (ss_generation (ps_snapshot p)), en\<lparr>en_state := st2\<rparr>))
      | Inr (output, p') \<Rightarrow>
          (respond en (env_request_id e) (ss_generation (ps_snapshot p'))
             (case env_request e of
                Inspect \<Rightarrow> RInspection (inspection_summary en (scope_key scope) p'
                  (st_restart_count st) (st_last_error st) output)
              | _ \<Rightarrow> RResult output),
           en\<lparr>en_state := st\<lparr>st_partitions := bt_insert scope p' (st_partitions st)\<rparr>\<rparr>))"

definition envelope_scope :: "envelope_v3 \<Rightarrow> partition_scope" where
  "envelope_scope e = Scope (id_name (env_client_identity e)) (env_partition_key e)"

definition handle_opened ::
    "runtime_env \<Rightarrow> engine \<Rightarrow> envelope_v3 \<Rightarrow> u64 \<Rightarrow> bool \<Rightarrow> partition_state \<Rightarrow> runtime_state
     \<Rightarrow> response_v3 \<times> engine" where
  "handle_opened env en e now created p st =
     (let scope = envelope_scope e; rid = env_request_id e; gen = ss_generation (ps_snapshot p) in
      case check_partition en e p of
        Inl cm \<Rightarrow> (error_response en rid cm gen, en\<lparr>en_state := st\<rparr>)
      | Inr _ \<Rightarrow> (case env_request e of
          Snapshot \<Rightarrow>
            (respond en rid gen (RSnapshot (ss_schema_version (ps_snapshot p)) (ss_checksum (ps_snapshot p))
               (re_hex env (ss_state (ps_snapshot p)))), en\<lparr>en_state := st\<rparr>)
        | Reset expected \<Rightarrow> (case reset_partition env en scope p expected st of
            Inl cm \<Rightarrow> (error_response en rid cm gen, en\<lparr>en_state := st\<rparr>)
          | Inr (next_generation, st') \<Rightarrow>
              (respond en rid next_generation (RReset True), en\<lparr>en_state := st'\<rparr>))
        | _ \<Rightarrow> run_handler env en e now scope created p st))"

definition handle_stateful :: "runtime_env \<Rightarrow> engine \<Rightarrow> envelope_v3 \<Rightarrow> u64 \<Rightarrow> response_v3 \<times> engine" where
  "handle_stateful env en e now =
     (let rid = env_request_id e; scope = envelope_scope e in
      case check_call en e of
        Inl cm \<Rightarrow> (error_response en rid cm (current_generation en), en)
      | Inr _ \<Rightarrow> (case lock_state en of
          Inl _ \<Rightarrow> (error_response en rid (CInternal, ''runtime state lock is poisoned'') 0, en)
        | Inr st \<Rightarrow> (case open_partition env en st e scope of
            Inl cm \<Rightarrow> (error_response en rid cm (first_generation 0 (st_partitions st)), en)
          | Inr (p, st1) \<Rightarrow>
              handle_opened env en e now (\<not> bt_contains (st_partitions st) scope) p st1)))"

section \<open>Entry points\<close>

definition handle_at :: "runtime_env \<Rightarrow> engine \<Rightarrow> envelope_v3 \<Rightarrow> u64 \<Rightarrow> response_v3 \<times> engine" where
  "handle_at env en e now =
     (case envelope_validate (re_encode_envelope env) e of
        Inl err \<Rightarrow> (error_response en (env_request_id e)
            (CInvalidEnvelope, protocol_v3_error_msg err) (current_generation en), en)
      | Inr _ \<Rightarrow>
          if is_expired_at e now
          then (error_response en (env_request_id e)
                  (CExpiredRequest, ''request deadline has expired'') (current_generation en), en)
          else (case env_request e of
            Handshake \<Rightarrow> (respond en (env_request_id e) (current_generation en)
              (RHandshake (rc_capabilities (en_config en)) (rc_feature_schema_hash (en_config en))
                 handler_api_version_v2), en)
          | Health \<Rightarrow> (respond en (env_request_id e) (current_generation en) (RHealth (is_healthy en)), en)
          | _ \<Rightarrow> handle_stateful env en e now))"

definition exceeds_frame :: "engine \<Rightarrow> string \<Rightarrow> bool" where
  "exceeds_frame en message \<longleftrightarrow> length message > unat (max_ipc_frame_bytes (en_profile en))"

definition handle_json_at :: "runtime_env \<Rightarrow> engine \<Rightarrow> string \<Rightarrow> u64 \<Rightarrow> response_v3 \<times> engine" where
  "handle_json_at env en message now =
     (if exceeds_frame en message
      then (error_response en ''invalid-request''
              (CPayloadTooLarge, ''request exceeds the IPC message limit'') (current_generation en), en)
      else case re_decode_envelope env message of
        None \<Rightarrow> (error_response en ''invalid-request''
              (CInvalidJson, ''request is not valid IPC V3 JSON'') (current_generation en), en)
      | Some e \<Rightarrow> handle_at env en e now)"

fun code_to_preview :: "error_code_v3 \<Rightarrow> preview_error_code_v3" where
  "code_to_preview CInvalidJson = PvInvalidJson"
| "code_to_preview CInvalidRequestId = PvInvalidEnvelope"
| "code_to_preview CInvalidClientIdentity = PvInvalidEnvelope"
| "code_to_preview CIncompatibleApiVersion = PvInvalidEnvelope"
| "code_to_preview CInvalidEnvelope = PvInvalidEnvelope"
| "code_to_preview CPayloadTooLarge = PvPayloadTooLarge"
| "code_to_preview CUnsupportedCapability = PvUnsupportedCapability"
| "code_to_preview CStateMismatch = PvStateMismatch"
| "code_to_preview CExpiredRequest = PvExpiredRequest"
| "code_to_preview CIncompatibleGeneration = PvIncompatibleGeneration"
| "code_to_preview CDuplicateFeedback = PvDuplicateFeedback"
| "code_to_preview CHandlerTimeout = PvHandlerTimeout"
| "code_to_preview CHandlerTrap = PvHandlerTrap"
| "code_to_preview CHandlerOutputTooLarge = PvHandlerOutputTooLarge"
| "code_to_preview CHandlerInvalidOutput = PvHandlerInvalidOutput"
| "code_to_preview CInvalidState = PvInvalidState"
| "code_to_preview CInternal = PvInternal"

definition preview_error_code :: "error_code_v3 \<Rightarrow> string \<Rightarrow> preview_error_code_v3" where
  "preview_error_code code message =
     (if message = ''decision id was already used'' then PvDuplicateDecision
      else if message = ''decision id is not pending'' then PvUnknownDecision
      else if message = ''feedback generation is stale'' then PvStaleFeedback
      else if message \<in> {''pending decision capacity is exhausted'',
        ''completed decision capacity is exhausted'', ''model state resource limit exceeded'',
        ''snapshot resource limit exceeded''} then PvCapacityExceeded
      else code_to_preview code)"

definition preview_error :: "preview_error_code_v3 \<Rightarrow> string \<Rightarrow> preview_body_v3" where
  "preview_error code message =
     PError \<lparr>perr_code = code, perr_message = message, perr_retryable = preview_is_retryable code\<rparr>"

fun is_decide :: "runtime_request \<Rightarrow> bool" where
  "is_decide (Decide _ _) = True"
| "is_decide _ = False"

fun preview_body :: "engine \<Rightarrow> bool \<Rightarrow> response_v3 \<Rightarrow> response_body_v3 \<Rightarrow> preview_body_v3" where
  "preview_body en decide r (RHandshake cs h v) = PHandshake cs h v preview_channel_v3"
| "preview_body en decide r (RHealth healthy) =
     PHealth healthy (if healthy then ''healthy'' else ''failed_closed'')
       (case health_reason_codes en of Some codes \<Rightarrow> codes | None \<Rightarrow> [])"
| "preview_body en decide r (RResult output) =
     PResult output (if decide then Some (rsp_request_id r) else None)
       (if decide then Some (rsp_state_generation r) else None)"
| "preview_body en decide r (RInspection summary) = PInspection summary"
| "preview_body en decide r (RSnapshot v c s) = PSnapshot v c s"
| "preview_body en decide r (RReset b) = PReset b"
| "preview_body en decide r (RError err) =
     preview_error (preview_error_code (err_code err) (err_message err)) (err_message err)"

definition handle_preview_at :: "runtime_env \<Rightarrow> engine \<Rightarrow> envelope_v3 \<Rightarrow> u64 \<Rightarrow> preview_response_v3 \<times> engine" where
  "handle_preview_at env en e now =
     (let (r, en') = handle_at env en e now in
      (\<lparr>prv_request_id = rsp_request_id r, prv_api_version = rsp_api_version r,
        prv_runtime_identity = rsp_runtime_identity r, prv_model_generation = rsp_model_generation r,
        prv_state_generation = rsp_state_generation r,
        prv_response = preview_body en' (is_decide (env_request e)) r (rsp_response r)\<rparr>, en'))"

definition preview_error_response ::
    "engine \<Rightarrow> string \<Rightarrow> preview_error_code_v3 \<Rightarrow> string \<Rightarrow> preview_response_v3" where
  "preview_error_response en request_id code message =
     \<lparr>prv_request_id = request_id, prv_api_version = runtime_api_version_v3,
      prv_runtime_identity = rc_runtime_identity (en_config en),
      prv_model_generation = rc_model_generation (en_config en),
      prv_state_generation = current_generation en, prv_response = preview_error code message\<rparr>"

definition handle_preview_json_at :: "runtime_env \<Rightarrow> engine \<Rightarrow> string \<Rightarrow> u64 \<Rightarrow> preview_response_v3 \<times> engine" where
  "handle_preview_json_at env en message now =
     (if exceeds_frame en message
      then (preview_error_response en ''invalid-request'' PvPayloadTooLarge
              ''request exceeds the IPC message limit'', en)
      else case re_decode_envelope env message of
        Some e \<Rightarrow> handle_preview_at env en e now
      | None \<Rightarrow> (preview_error_response en ''invalid-request'' PvInvalidJson
              ''request is not valid IPC V3 JSON'', en))"

end
