(* ===== verification/Machine.thy ===== *)
theory Machine imports Rill_Prelude begin

text \<open>
  A component whose operations are failure atomic: an operation that returns an error changes
  nothing, and every operation keeps the component's invariant. What follows for sequences of
  operations is proved here once; the components interpret the locale on their own operations.
\<close>

text \<open>Storing the new state of a fallible update only when it succeeds.\<close>

fun transact :: "'s \<Rightarrow> 'e + 's \<Rightarrow> ('e + unit) \<times> 's" where
  "transact s (Inl e) = (Inl e, s)"
| "transact s (Inr s') = (Inr (), s')"

lemma transact_Inl [result_simps]: "transact s r = (Inl e, s') \<longleftrightarrow> s' = s \<and> r = Inl e"
  by (cases r) auto

lemma transact_Inr [result_simps]: "transact s r = (Inr u, s') \<longleftrightarrow> r = Inr s'"
  by (cases r) auto

text \<open>
  A loop that updates in place and stops at the first error keeps what the earlier iterations did;
  \<open>then_mut\<close> is the sequencing of two such steps.
\<close>

fun then_mut :: "('e + 'a) \<times> 's \<Rightarrow> ('a \<Rightarrow> 's \<Rightarrow> ('e + 'b) \<times> 's) \<Rightarrow> ('e + 'b) \<times> 's" where
  "then_mut (Inl e, s) k = (Inl e, s)"
| "then_mut (Inr x, s) k = k x s"

fun for_each_mut :: "('a \<Rightarrow> 's \<Rightarrow> ('e + unit) \<times> 's) \<Rightarrow> 'a list \<Rightarrow> 's \<Rightarrow> ('e + unit) \<times> 's" where
  "for_each_mut f [] s = (Inr (), s)"
| "for_each_mut f (x # xs) s = then_mut (f x s) (\<lambda>_. for_each_mut f xs)"

lemma then_mut_Inr [result_simps]:
  "then_mut r k = (Inr y, s') \<longleftrightarrow> (\<exists>x s. r = (Inr x, s) \<and> k x s = (Inr y, s'))"
  by (cases "(r, k)" rule: then_mut.cases) auto

lemma for_each_mut_invariant:
  assumes "I s" and "\<And>x s r s'. I s \<Longrightarrow> x \<in> set xs \<Longrightarrow> f x s = (r, s') \<Longrightarrow> I s'"
  shows "I (snd (for_each_mut f xs s))"
  using assms
proof (induction xs arbitrary: s)
  case (Cons x xs)
  obtain r s' where e: "f x s = (r, s')" by fastforce
  have "I s'" using Cons.prems(2) [OF Cons.prems(1) _ e] by simp
  moreover have "\<And>y s r s'. I s \<Longrightarrow> y \<in> set xs \<Longrightarrow> f y s = (r, s') \<Longrightarrow> I s'"
    using Cons.prems(2) by (meson list.set_intros(2))
  ultimately show ?case using Cons.IH [of s'] e by (cases r) simp_all
qed simp

fun run_ops :: "('op \<Rightarrow> 's \<Rightarrow> ('e + 'r) \<times> 's) \<Rightarrow> 'op list \<Rightarrow> 's \<Rightarrow> 's" where
  "run_ops exec [] s = s"
| "run_ops exec (x # xs) s = run_ops exec xs (snd (exec x s))"

text \<open>The operations of a sequence that succeed, in order.\<close>

fun accepted_ops :: "('op \<Rightarrow> 's \<Rightarrow> ('e + 'r) \<times> 's) \<Rightarrow> 'op list \<Rightarrow> 's \<Rightarrow> 'op list" where
  "accepted_ops exec [] s = []"
| "accepted_ops exec (x # xs) s =
     (let (r, s') = exec x s in (if is_err r then [] else [x]) @ accepted_ops exec xs s')"

lemma run_ops_append: "run_ops exec (xs @ ys) s = run_ops exec ys (run_ops exec xs s)"
  by (induction xs arbitrary: s) auto

locale atomic_machine =
  fixes exec :: "'op \<Rightarrow> 's \<Rightarrow> ('e + 'r) \<times> 's"
    and inv :: "'s \<Rightarrow> bool"
  assumes error_unchanged: "exec x s = (Inl e, s') \<Longrightarrow> s' = s"
    and step_inv: "inv s \<Longrightarrow> exec x s = (Inr r, s') \<Longrightarrow> inv s'"
begin

lemma exec_inv: "inv s \<Longrightarrow> inv (snd (exec x s))"
proof -
  assume s: "inv s"
  obtain r s' where e: "exec x s = (r, s')" by fastforce
  show "inv (snd (exec x s))"
    using s e error_unchanged step_inv by (cases r) auto
qed

lemma run_inv: "inv s \<Longrightarrow> inv (run_ops exec xs s)"
  by (induction xs arbitrary: s) (simp_all add: exec_inv)

text \<open>Rejected operations can be dropped from a sequence, and what is left is accepted throughout.\<close>

lemma run_accepted: "run_ops exec (accepted_ops exec xs s) s = run_ops exec xs s"
proof (induction xs arbitrary: s)
  case (Cons x xs)
  obtain r s' where e: "exec x s = (r, s')" by fastforce
  show ?case
    using Cons.IH [of s'] e error_unchanged by (cases r) auto
qed simp

lemma accepted_idem: "accepted_ops exec (accepted_ops exec xs s) s = accepted_ops exec xs s"
proof (induction xs arbitrary: s)
  case (Cons x xs)
  obtain r s' where e: "exec x s = (r, s')" by fastforce
  show ?case
    using Cons.IH [of s'] e error_unchanged by (cases r) auto
qed simp

end

text \<open>
  Machines that count: an accepted operation adds one to the sample count, a reset forgets the samples.
  This is what users of the traits \<open>OnlineStatistic\<close>, \<open>OnlineRegressor\<close>, \<open>OnlineBinaryClassifier\<close>
  and \<open>Metric\<close> rely on.
\<close>

locale counted_machine = atomic_machine exec inv
  for exec :: "'op \<Rightarrow> 's \<Rightarrow> ('e + 'r) \<times> 's" and inv :: "'s \<Rightarrow> bool" +
  fixes seen :: "'s \<Rightarrow> u64" and reset :: "'s \<Rightarrow> 's"
  assumes update_seen: "exec x s = (Inr u, s') \<Longrightarrow> unat (seen s') = unat (seen s) + 1"
    and reset_seen: "seen (reset s) = 0"
    and reset_inv: "inv s \<Longrightarrow> inv (reset s)"
begin

lemma run_seen: "unat (seen (run_ops exec xs s)) = unat (seen s) + length (accepted_ops exec xs s)"
proof (induction xs arbitrary: s)
  case (Cons x xs)
  obtain r s' where e: "exec x s = (r, s')" by fastforce
  show ?case
  proof (cases r)
    case (Inl err)
    then have "s' = s" using e error_unchanged by blast
    then show ?thesis using Cons.IH [of s] e Inl by simp
  next
    case (Inr u)
    then show ?thesis using Cons.IH [of s'] e update_seen by simp
  qed
qed simp

lemma run_from_reset:
  "unat (seen (run_ops exec xs (reset s))) = length (accepted_ops exec xs (reset s))"
  using run_seen [of xs "reset s"] by (simp add: reset_seen)

end

end
