(* ===== verification/Runtime_Invariant.thy ===== *)
theory Runtime_Invariant imports Runtime_Requests Machine "HOL-Library.Multiset" begin

text \<open>
  The invariant of the stateful runtime and the effect of every operation on it. The limits every
  commit checks and the validity of every partition make up \<open>engine_ok\<close>; each lifecycle operation has
  a lemma that says which partition it installs, and \<open>request_effect\<close> is the case distinction all
  properties of requests start from: a request is rejected, fails in the handler, is answered, or
  commits one step of one partition.
\<close>

section \<open>Snapshots of a partition map\<close>

lemma sort_key_to_snapshot [simp]: "partition_sort_key (partition_to_snapshot s p) = s"
  by (cases s) (simp add: partition_sort_key_def partition_to_snapshot_def)

definition entry_snapshot :: "partition_scope \<times> partition_state \<Rightarrow> partition_snapshot" where
  "entry_snapshot = (\<lambda>(s, p). partition_to_snapshot s p)"

lemma entry_snapshot_simps [simp]: "entry_snapshot (s, p) = partition_to_snapshot s p"
  "partition_sort_key (entry_snapshot x) = fst x"
  by (cases x; simp add: entry_snapshot_def)+

lemma sort_entries:
  assumes "mset xs = mset (bt_entries ps)"
  shows "sort_key partition_sort_key (map entry_snapshot xs) = map entry_snapshot (bt_entries ps)"
proof (rule sort_key_inj_key_eq)
  show "mset (map entry_snapshot xs) = mset (map entry_snapshot (bt_entries ps))"
    using assms by simp
  have "set xs = set (bt_entries ps)" using assms by (rule mset_eq_setD)
  then have "inj_on fst (set xs)" using bt_distinct [of ps] by (simp add: distinct_map)
  then show "inj_on partition_sort_key (set (map entry_snapshot xs))"
    by (auto simp: inj_on_def)
  show "sorted (map partition_sort_key (map entry_snapshot (bt_entries ps)))"
    using bt_strict [of ps] by (simp add: comp_def strict_sorted_iff)
qed

lemma snapshot_for_partitions_eq:
  "rs_partitions (snapshot_for_partitions env ps) = map entry_snapshot (bt_entries ps)"
  using sort_entries [OF refl, of ps]
  by (simp add: snapshot_for_partitions_def runtime_snapshot_new_def Let_def entry_snapshot_def)

lemma mset_bt_insert:
  "mset (bt_entries (bt_insert k v m)) = mset ((k, v) # filter (\<lambda>x. fst x \<noteq> k) (bt_entries m))"
proof -
  have d: "distinct (bt_entries (bt_insert k v m))" "distinct (bt_entries m)"
    using bt_distinct [of "bt_insert k v m"] bt_distinct [of m] by (simp_all add: distinct_map)
  have "set (bt_entries (bt_insert k v m)) = set ((k, v) # filter (\<lambda>x. fst x \<noteq> k) (bt_entries m))"
    by (auto simp flip: bt_get_iff split: if_splits)
  moreover have "distinct ((k, v) # filter (\<lambda>x. fst x \<noteq> k) (bt_entries m))"
    using d(2) by simp
  ultimately show ?thesis
    using d(1) set_eq_iff_mset_eq_distinct by blast
qed

text \<open>The prospective snapshot of the handler stage is the snapshot of the map it commits.\<close>

lemma prospective_snapshot:
  "runtime_snapshot_new env (partition_to_snapshot scope p
      # map (\<lambda>(s, q). partition_to_snapshot s q) (filter (\<lambda>x. fst x \<noteq> scope) (bt_entries ps)))
   = snapshot_for_partitions env (bt_insert scope p ps)"
proof -
  let ?xs = "(scope, p) # filter (\<lambda>x. fst x \<noteq> scope) (bt_entries ps)"
  have "sort_key partition_sort_key (map entry_snapshot ?xs)
      = map entry_snapshot (bt_entries (bt_insert scope p ps))"
    by (rule sort_entries) (simp add: mset_bt_insert)
  moreover have "sort_key partition_sort_key (map entry_snapshot (bt_entries (bt_insert scope p ps)))
      = map entry_snapshot (bt_entries (bt_insert scope p ps))"
    by (rule sort_entries) simp
  ultimately show ?thesis
    by (simp add: snapshot_for_partitions_def runtime_snapshot_new_def Let_def entry_snapshot_def)
qed

section \<open>Inversion of the checks\<close>

lemma scope_validate_Inr [result_simps]:
  "scope_validate s = Inr u \<longleftrightarrow> scope_name s \<noteq> [] \<and> length (scope_name s) \<le> max_identity_name_len_v3
     \<and> scope_key s \<noteq> [] \<and> length (scope_key s) \<le> max_partition_key_len_v3"
  by (auto simp: scope_validate_def ensure_Inr)

lemma validate_state_bytes_Inr [result_simps]:
  "validate_state_bytes env s a v = Inr u \<longleftrightarrow> a \<noteq> 0 \<and> a = v \<and> length s \<le> max_state_bytes \<and> re_is_json env s"
  by (auto simp: validate_state_bytes_def)

lemma state_snapshot_new_validate [result_simps]:
  "state_snapshot_validate env (state_snapshot_new env a g s) v = Inr u \<longleftrightarrow>
     a \<noteq> 0 \<and> a = v \<and> length s \<le> max_state_bytes \<and> re_is_json env s"
  by (auto simp: state_snapshot_validate_def state_snapshot_new_def and_then_Inr ensure_Inr
      validate_state_bytes_Inr)

lemma validate_entry_key_Inr [result_simps]:
  "validate_entry_key e = Inr u \<longleftrightarrow> fst e = de_decision_id (snd e) \<and> fst e \<noteq> []"
  by (auto simp: validate_entry_key_def ensure_Inr)

definition keys_ok :: "decisions \<Rightarrow> bool" where
  "keys_ok ds \<longleftrightarrow> (\<forall>k. pred_option (\<lambda>e. de_decision_id e = k \<and> k \<noteq> []) (bt_get ds k))"

lemma keys_ok_entries: "keys_ok ds \<longleftrightarrow> (\<forall>e \<in> set (bt_entries ds). validate_entry_key e = Inr ())"
proof -
  have "keys_ok ds \<longleftrightarrow> (\<forall>k e. bt_get ds k = Some e \<longrightarrow> de_decision_id e = k \<and> k \<noteq> [])"
    by (simp add: keys_ok_def option.pred_set Ball_def)
  also have "\<dots> \<longleftrightarrow> (\<forall>x \<in> set (bt_entries ds). validate_entry_key x = Inr ())"
    by (auto simp: bt_get_iff validate_entry_key_Inr)
  finally show ?thesis .
qed

lemma keys_ok_empty [simp]: "keys_ok bt_empty"
  by (simp add: keys_ok_def)

lemma keys_ok_insert: "keys_ok ds \<Longrightarrow> de_decision_id e = k \<Longrightarrow> k \<noteq> [] \<Longrightarrow> keys_ok (bt_insert k e ds)"
  by (simp add: keys_ok_def)

lemma keys_ok_remove: "keys_ok ds \<Longrightarrow> keys_ok (bt_remove k ds)"
  by (simp add: keys_ok_def)

lemma keys_ok_get: "keys_ok ds \<Longrightarrow> bt_get ds k = Some e \<Longrightarrow> de_decision_id e = k \<and> k \<noteq> []"
  unfolding keys_ok_def by (drule spec [of _ k]) simp

definition optional_ok :: "runtime_env \<Rightarrow> u32 \<Rightarrow> state_snapshot option \<Rightarrow> bool" where
  "optional_ok env v = pred_option (\<lambda>s. state_snapshot_validate env s v = Inr ())"

lemma validate_optional_Inr [result_simps]: "validate_optional_snapshot env v x = Inr u \<longleftrightarrow> optional_ok env v x"
  by (cases x) (simp_all add: optional_ok_def)

text \<open>A partition that passes the validation of restored snapshots.\<close>

definition partition_ok :: "runtime_env \<Rightarrow> u32 \<Rightarrow> partition_state \<Rightarrow> bool" where
  "partition_ok env v p \<longleftrightarrow> state_snapshot_validate env (ps_snapshot p) v = Inr ()
     \<and> optional_ok env v (ps_previous_good p) \<and> optional_ok env v (ps_candidate p)
     \<and> keys_ok (ps_pending p) \<and> keys_ok (ps_completed p)"

lemma validate_partition_snapshot_Inr [result_simps]:
  "validate_partition_snapshot env v (partition_to_snapshot s p) = Inr u \<longleftrightarrow> partition_ok env v p"
  by (auto simp: validate_partition_snapshot_def partition_ok_def partition_to_snapshot_def
      and_then_Inr validate_optional_Inr try_for_each_Inr keys_ok_entries)

lemma validate_partitions_from_Inr:
  "validate_partitions_from env v seen ps = Inr u \<longleftrightarrow>
     (\<forall>p \<in> set ps. scope_validate (partition_sort_key p) = Inr () \<and> validate_partition_snapshot env v p = Inr ())
     \<and> distinct (map partition_sort_key ps) \<and> set (map partition_sort_key ps) \<inter> set seen = {}"
  by (induction ps arbitrary: seen) (auto simp: Let_def and_then_Inr)

definition map_ok :: "runtime_env \<Rightarrow> u32 \<Rightarrow> partitions \<Rightarrow> bool" where
  "map_ok env v ps \<longleftrightarrow>
     (\<forall>s. pred_option (\<lambda>p. scope_validate s = Inr () \<and> partition_ok env v p) (bt_get ps s))"

lemma map_ok_entries:
  "map_ok env v ps \<longleftrightarrow> (\<forall>(s, p) \<in> set (bt_entries ps). scope_validate s = Inr () \<and> partition_ok env v p)"
  by (auto simp: map_ok_def option.pred_set Ball_def simp flip: bt_get_iff)

lemma snapshot_valid_iff:
  "runtime_snapshot_validate env (snapshot_for_partitions env ps) v = Inr u \<longleftrightarrow>
     bt_entries ps \<noteq> [] \<and> map_ok env v ps"
proof -
  have parts: "rs_partitions (snapshot_for_partitions env ps) = map entry_snapshot (bt_entries ps)"
    by (rule snapshot_for_partitions_eq)
  have "distinct (map partition_sort_key (map entry_snapshot (bt_entries ps)))"
    using bt_distinct [of ps] by (simp add: comp_def)
  then have v: "validate_partitions_from env v [] (map entry_snapshot (bt_entries ps)) = Inr u \<longleftrightarrow> map_ok env v ps"
    unfolding validate_partitions_from_Inr map_ok_entries
    by (auto simp: validate_partition_snapshot_Inr entry_snapshot_def)
  have "rs_format_version (snapshot_for_partitions env ps) = runtime_snapshot_format_version"
    "rs_checksum (snapshot_for_partitions env ps) = state_checksum env (re_checksum_input env
       (rs_format_version (snapshot_for_partitions env ps)) (rs_partitions (snapshot_for_partitions env ps)))"
    by (simp_all add: snapshot_for_partitions_def runtime_snapshot_new_def Let_def)
  then show ?thesis
    unfolding runtime_snapshot_validate_def using v parts by simp
qed

lemma map_ok_empty [simp]: "map_ok env v bt_empty"
  by (simp add: map_ok_def)

lemma map_ok_insert:
  "map_ok env v ps \<Longrightarrow> scope_validate s = Inr () \<Longrightarrow> partition_ok env v p \<Longrightarrow> map_ok env v (bt_insert s p ps)"
  by (simp add: map_ok_def)

lemma map_ok_get: "map_ok env v ps \<Longrightarrow> bt_get ps s = Some p \<Longrightarrow> scope_validate s = Inr () \<and> partition_ok env v p"
  unfolding map_ok_def by (drule spec [of _ s]) simp

section \<open>The engine invariant\<close>

definition within_limits :: "runtime_env \<Rightarrow> resource_profile \<Rightarrow> partitions \<Rightarrow> bool" where
  "within_limits env prof ps \<longleftrightarrow> ps = bt_empty \<or> validate_partition_map env prof ps = Inr ()"

definition parts_ok :: "runtime_env \<Rightarrow> engine \<Rightarrow> partitions \<Rightarrow> bool" where
  "parts_ok env en ps \<longleftrightarrow> within_limits env (en_profile en) ps \<and> map_ok env (schema_version en) ps"

definition config_ok :: "runtime_env \<Rightarrow> engine \<Rightarrow> bool" where
  "config_ok env en \<longleftrightarrow> resource_profile_validate (en_profile en) = Inr ()
     \<and> validate_state_bytes env (rc_initial_state (en_config en)) (schema_version en) (schema_version en) = Inr ()"

text \<open>The limits that do not depend on the encoder, over the partition snapshots of a map.\<close>

definition limits_ok :: "resource_profile \<Rightarrow> partition_snapshot list \<Rightarrow> bool" where
  "limits_ok prof ps \<longleftrightarrow> length ps \<le> unat (max_partitions prof)
     \<and> sum_list (map partition_bytes ps) \<le> unat (max_total_state_bytes prof)
     \<and> (\<forall>p \<in> set ps. validate_partition_resources prof p = Inr ())"

definition engine_ok :: "runtime_env \<Rightarrow> engine \<Rightarrow> bool" where
  "engine_ok env en \<longleftrightarrow> config_ok env en \<and> map_ok env (schema_version en) (st_partitions (en_state en))
     \<and> limits_ok (en_profile en) (map entry_snapshot (bt_entries (st_partitions (en_state en))))"

lemma size_Inr:
  "validate_runtime_snapshot_size env prof s = Inr u \<longleftrightarrow> limits_ok prof (rs_partitions s)
     \<and> (\<exists>bytes. re_encode_snapshot env s = Some bytes \<and> length bytes \<le> unat (max_snapshot_bytes prof))"
  by (cases "re_encode_snapshot env s")
    (auto simp: validate_runtime_snapshot_size_def limits_ok_def and_then_Inr ok_or_def try_for_each_Inr not_less)

lemma limits_ok_mset: "mset xs = mset ys \<Longrightarrow> limits_ok prof xs = limits_ok prof ys"
proof -
  assume m: "mset xs = mset ys"
  then have "length xs = length ys" "set xs = set ys"
    by (metis size_mset, metis set_mset_mset)
  moreover have "sum_list (map partition_bytes xs) = sum_list (map partition_bytes ys)"
    using m by (metis mset_map sum_mset_sum_list)
  ultimately show ?thesis by (simp add: limits_ok_def)
qed

lemma parts_ok_limits: "parts_ok env en ps \<Longrightarrow> limits_ok (en_profile en) (map entry_snapshot (bt_entries ps))"
  by (auto simp: parts_ok_def within_limits_def validate_partition_map_def size_Inr
      snapshot_for_partitions_eq) (simp add: limits_ok_def)

lemma engine_new_ok:
  assumes "engine_new env c m = Inr en"
  shows "engine_ok env en \<and> en_config en = c \<and> en_metadata en = m \<and> st_partitions (en_state en) = bt_empty
    \<and> \<not> en_poisoned en"
  using assms
  by (auto simp: engine_new_def and_then_Inr map_err_Inr engine_ok_def config_ok_def limits_ok_def
      en_profile_def schema_version_def split: if_splits)

lemma en_frame [simp]:
  "en_profile (en\<lparr>en_state := st\<rparr>) = en_profile en" "schema_version (en\<lparr>en_state := st\<rparr>) = schema_version en"
  "config_ok env (en\<lparr>en_state := st\<rparr>) = config_ok env en"
  "parts_ok env (en\<lparr>en_state := st\<rparr>) = parts_ok env en"
  by (simp_all add: en_profile_def schema_version_def config_ok_def parts_ok_def fun_eq_iff)

lemma engine_ok_commit:
  "engine_ok env en \<Longrightarrow> parts_ok env en (st_partitions st) \<Longrightarrow> engine_ok env (en\<lparr>en_state := st\<rparr>)"
  using parts_ok_limits [of env en "st_partitions st"] by (simp add: engine_ok_def) (simp add: parts_ok_def)

lemma initial_partition_ok: "config_ok env en \<Longrightarrow> partition_ok env (schema_version en) (initial_partition env en)"
  by (simp add: config_ok_def partition_ok_def initial_partition_def optional_ok_def
      state_snapshot_new_validate validate_state_bytes_Inr schema_version_def)

lemma entry_or_initial_ok:
  "config_ok env en \<Longrightarrow> map_ok env (schema_version en) ps
     \<Longrightarrow> partition_ok env (schema_version en) (entry_or_initial env en ps s)"
  by (auto simp: entry_or_initial_def initial_partition_ok dest: map_ok_get split: option.splits)

lemma install_ok:
  assumes "install env en st ps = Inr st'" "map_ok env (schema_version en) ps"
  shows "st' = st\<lparr>st_partitions := ps\<rparr> \<and> parts_ok env en ps"
  using assms by (auto simp: install_def and_then_Inr parts_ok_def within_limits_def)

text \<open>An operation that commits: an error changes nothing, and a success that commits a good map is good.\<close>

lemma commit_Inl: "commit en r = (Inl e, en') \<Longrightarrow> en' = en"
  by (auto simp: commit_def split: sum.splits)

lemma commit_Inr: "commit en r = (Inr x, en') \<longleftrightarrow> (\<exists>st. r = Inr (x, st) \<and> en' = en\<lparr>en_state := st\<rparr>)"
  by (auto simp: commit_def split: sum.splits)

lemma lock_Inr: "lock_state en = Inr st \<longleftrightarrow> \<not> en_poisoned en \<and> st = en_state en"
  by (auto simp: lock_state_def)

lemma restore_partition_ok:
  assumes ok: "engine_ok env en" and r: "restore_partition_snapshot env en scope snap = (Inr u, en')"
  shows "\<exists>p. en' = en\<lparr>en_state := (en_state en)\<lparr>
      st_partitions := bt_insert scope p (st_partitions (en_state en)),
      st_restart_count := saturating_add_u64 (st_restart_count (en_state en)) 1\<rparr>\<rparr>
    \<and> p = (entry_or_initial env en (st_partitions (en_state en)) scope)\<lparr>
        ps_previous_good := Some (ps_snapshot (entry_or_initial env en (st_partitions (en_state en)) scope)),
        ps_snapshot := snap\<rparr>
    \<and> parts_ok env en (bt_insert scope p (st_partitions (en_state en)))"
proof -
  let ?ps = "st_partitions (en_state en)" and ?p = "entry_or_initial env en (st_partitions (en_state en)) scope"
  let ?p' = "?p\<lparr>ps_previous_good := Some (ps_snapshot ?p), ps_snapshot := snap\<rparr>"
  have c: "check_incoming env en scope snap = Inr ()"
    and st: "\<exists>st'. install env en (en_state en) (bt_insert scope ?p' ?ps) = Inr st'
      \<and> en' = en\<lparr>en_state := st'\<lparr>st_restart_count := saturating_add_u64 (st_restart_count st') 1\<rparr>\<rparr>"
    using r by (auto simp: restore_partition_snapshot_def commit_Inr and_then_Inr lock_Inr Let_def)
  have "partition_ok env (schema_version en) ?p"
    using ok entry_or_initial_ok by (simp add: engine_ok_def)
  then have "partition_ok env (schema_version en) ?p'" "scope_validate scope = Inr ()"
    using c by (auto simp: partition_ok_def optional_ok_def check_incoming_def and_then_Inr)
  then have "map_ok env (schema_version en) (bt_insert scope ?p' ?ps)"
    using ok by (auto simp: engine_ok_def intro: map_ok_insert)
  then show ?thesis using st install_ok by fastforce
qed

lemma stage_candidate_ok:
  assumes ok: "engine_ok env en" and r: "stage_candidate_for_scope env en scope snap = (Inr u, en')"
  shows "\<exists>p. en' = en\<lparr>en_state := (en_state en)\<lparr>
      st_partitions := bt_insert scope p (st_partitions (en_state en))\<rparr>\<rparr>
    \<and> p = (entry_or_initial env en (st_partitions (en_state en)) scope)\<lparr>ps_candidate := Some snap\<rparr>
    \<and> parts_ok env en (bt_insert scope p (st_partitions (en_state en)))"
proof -
  let ?ps = "st_partitions (en_state en)" and ?p = "entry_or_initial env en (st_partitions (en_state en)) scope"
  let ?p' = "?p\<lparr>ps_candidate := Some snap\<rparr>"
  have c: "check_incoming env en scope snap = Inr ()"
    and st: "\<exists>st'. install env en (en_state en) (bt_insert scope ?p' ?ps) = Inr st'
      \<and> en' = en\<lparr>en_state := st'\<rparr>"
    using r by (auto simp: stage_candidate_for_scope_def commit_Inr and_then_Inr lock_Inr Let_def)
  have "partition_ok env (schema_version en) ?p"
    using ok entry_or_initial_ok by (simp add: engine_ok_def)
  then have "partition_ok env (schema_version en) ?p'" "scope_validate scope = Inr ()"
    using c by (auto simp: partition_ok_def optional_ok_def check_incoming_def and_then_Inr)
  then have "map_ok env (schema_version en) (bt_insert scope ?p' ?ps)"
    using ok by (auto simp: engine_ok_def intro: map_ok_insert)
  then show ?thesis using st install_ok by fastforce
qed

definition promoted :: "partition_state \<Rightarrow> state_snapshot \<Rightarrow> partition_state" where
  "promoted p candidate = p\<lparr>ps_candidate := None, ps_previous_good := Some (ps_snapshot p),
     ps_snapshot := candidate, ps_pending := bt_empty, ps_completed := bt_empty\<rparr>"

definition rolled_back :: "partition_state \<Rightarrow> state_snapshot \<Rightarrow> partition_state" where
  "rolled_back p previous = p\<lparr>ps_snapshot := previous, ps_previous_good := Some (ps_snapshot p),
     ps_candidate := None, ps_pending := bt_empty, ps_completed := bt_empty\<rparr>"

lemma promote_ok:
  assumes ok: "engine_ok env en" and r: "promote_candidate_for_scope env en scope = (Inr g, en')"
  shows "\<exists>p c. bt_get (st_partitions (en_state en)) scope = Some p \<and> ps_candidate p = Some c
    \<and> g = ss_generation c
    \<and> en' = en\<lparr>en_state := (en_state en)\<lparr>
        st_partitions := bt_insert scope (promoted p c) (st_partitions (en_state en))\<rparr>\<rparr>
    \<and> parts_ok env en (bt_insert scope (promoted p c) (st_partitions (en_state en)))"
proof -
  let ?ps = "st_partitions (en_state en)"
  obtain p c st' where p: "bt_get ?ps scope = Some p" "ps_candidate p = Some c"
    and g: "g = ss_generation c" and i: "install env en (en_state en) (bt_insert scope (promoted p c) ?ps) = Inr st'"
    and en': "en' = en\<lparr>en_state := st'\<rparr>"
    using r by (auto simp: promote_candidate_for_scope_def commit_Inr and_then_Inr lock_Inr Let_def
        ok_or_Inr promoted_def)
  have "scope_validate scope = Inr ()" "partition_ok env (schema_version en) p"
    using ok p(1) by (auto simp: engine_ok_def dest: map_ok_get)
  then have "map_ok env (schema_version en) (bt_insert scope (promoted p c) ?ps)"
    using ok p(2)
    by (intro map_ok_insert) (auto simp: engine_ok_def partition_ok_def promoted_def optional_ok_def)
  then show ?thesis using p g en' install_ok [OF i] by fastforce
qed

lemma rollback_ok:
  assumes ok: "engine_ok env en" and r: "rollback_previous_good_for_scope env en scope = (Inr g, en')"
  shows "\<exists>p c. bt_get (st_partitions (en_state en)) scope = Some p \<and> ps_previous_good p = Some c
    \<and> g = ss_generation c
    \<and> en' = en\<lparr>en_state := (en_state en)\<lparr>
        st_partitions := bt_insert scope (rolled_back p c) (st_partitions (en_state en))\<rparr>\<rparr>
    \<and> parts_ok env en (bt_insert scope (rolled_back p c) (st_partitions (en_state en)))"
proof -
  let ?ps = "st_partitions (en_state en)"
  obtain p c st' where p: "bt_get ?ps scope = Some p" "ps_previous_good p = Some c"
    and g: "g = ss_generation c" and i: "install env en (en_state en) (bt_insert scope (rolled_back p c) ?ps) = Inr st'"
    and en': "en' = en\<lparr>en_state := st'\<rparr>"
    using r by (auto simp: rollback_previous_good_for_scope_def commit_Inr and_then_Inr lock_Inr Let_def
        ok_or_Inr rolled_back_def)
  have "scope_validate scope = Inr ()" "partition_ok env (schema_version en) p"
    using ok p(1) by (auto simp: engine_ok_def dest: map_ok_get)
  then have "map_ok env (schema_version en) (bt_insert scope (rolled_back p c) ?ps)"
    using ok p(2)
    by (intro map_ok_insert) (auto simp: engine_ok_def partition_ok_def rolled_back_def optional_ok_def)
  then show ?thesis using p g en' install_ok [OF i] by fastforce
qed

section \<open>Restoring a whole runtime\<close>

lemma entry_snapshot_restored [simp]: "partition_to_snapshot (partition_sort_key p) (restored_partition p) = p"
  by (simp add: partition_to_snapshot_def restored_partition_def partition_sort_key_def)

lemma restore_step_Inr:
  "restore_step prof m p = Inr m' \<longleftrightarrow> validate_partition_resources prof p = Inr ()
     \<and> m' = bt_insert (partition_sort_key p) (restored_partition p) m"
  by (auto simp: restore_step_def and_then_Inr)

lemma restore_fold:
  assumes "try_fold (restore_step prof) m ps = Inr m'"
    and "distinct (map partition_sort_key ps)" "\<forall>p \<in> set ps. \<not> bt_contains m (partition_sort_key p)"
  shows "mset (map entry_snapshot (bt_entries m')) = mset (map entry_snapshot (bt_entries m)) + mset ps"
  using assms
proof (induction ps arbitrary: m)
  case (Cons p ps)
  let ?k = "partition_sort_key p"
  have k: "filter (\<lambda>x. fst x \<noteq> ?k) (bt_entries m) = bt_entries m"
  proof (rule filter_True, rule ballI)
    fix x assume x: "x \<in> set (bt_entries m)"
    then have "bt_contains m (fst x)"
      by (auto simp: bt_contains_iff bt_get_iff intro: exI [of _ "snd x"])
    moreover have "\<not> bt_contains m ?k"
      using Cons.prems(3) by simp
    ultimately show "fst x \<noteq> ?k" by metis
  qed
  have "try_fold (restore_step prof) (bt_insert ?k (restored_partition p) m) ps = Inr m'"
    using Cons.prems(1) by (auto simp: and_then_Inr restore_step_Inr)
  moreover have "\<forall>q \<in> set ps. \<not> bt_contains (bt_insert ?k (restored_partition p) m) (partition_sort_key q)"
    using Cons.prems(2,3) by (auto simp: image_iff)
  ultimately have "mset (map entry_snapshot (bt_entries m'))
      = mset (map entry_snapshot (bt_entries (bt_insert ?k (restored_partition p) m))) + mset ps"
    using Cons.prems(2) by (intro Cons.IH) simp_all
  also have "\<dots> = mset (map entry_snapshot (bt_entries m)) + mset (p # ps)"
    unfolding mset_map mset_bt_insert by (simp add: k)
  finally show ?case .
qed simp

lemma restore_runtime_ok:
  assumes r: "restore_runtime env en s = (Inr u, en')"
  shows "\<exists>m. en' = en\<lparr>en_state := (en_state en)\<lparr>st_partitions := m,
      st_restart_count := saturating_add_u64 (st_restart_count (en_state en)) 1\<rparr>\<rparr>
    \<and> mset (map entry_snapshot (bt_entries m)) = mset (rs_partitions s)
    \<and> map_ok env (schema_version en) m \<and> limits_ok (en_profile en) (map entry_snapshot (bt_entries m))"
proof -
  obtain m where v: "runtime_snapshot_validate env s (schema_version en) = Inr ()"
    and z: "validate_runtime_snapshot_size env (en_profile en) s = Inr ()"
    and f: "try_fold (restore_step (en_profile en)) bt_empty (rs_partitions s) = Inr m"
    and en': "en' = en\<lparr>en_state := (en_state en)\<lparr>st_partitions := m,
      st_restart_count := saturating_add_u64 (st_restart_count (en_state en)) 1\<rparr>\<rparr>"
    using r by (auto simp: restore_runtime_def commit_Inr and_then_Inr lock_Inr)
  have p: "\<forall>p \<in> set (rs_partitions s). scope_validate (partition_sort_key p) = Inr ()
      \<and> validate_partition_snapshot env (schema_version en) p = Inr ()"
    and d: "distinct (map partition_sort_key (rs_partitions s))"
    using v by (auto simp: runtime_snapshot_validate_def validate_partitions_from_Inr split: if_splits)
  have e: "mset (map entry_snapshot (bt_entries m)) = mset (rs_partitions s)"
    using restore_fold [OF f d] by simp
  then have set_eq: "entry_snapshot ` set (bt_entries m) = set (rs_partitions s)"
    by (metis set_map set_mset_mset)
  have "map_ok env (schema_version en) m"
    unfolding map_ok_entries
  proof (intro ballI, clarify)
    fix sc q assume "(sc, q) \<in> set (bt_entries m)"
    then have "entry_snapshot (sc, q) \<in> set (rs_partitions s)"
      using set_eq by blast
    then show "scope_validate sc = Inr () \<and> partition_ok env (schema_version en) q"
      using p by (auto simp: validate_partition_snapshot_Inr dest!: bspec)
  qed
  moreover have "limits_ok (en_profile en) (map entry_snapshot (bt_entries m))"
    using z limits_ok_mset [OF e] by (simp add: size_Inr)
  ultimately show ?thesis using en' e by blast
qed

text \<open>A snapshot in scope order is restored within the limit on encoded bytes as well.\<close>

lemma restore_runtime_sorted:
  assumes r: "restore_runtime env en s = (Inr u, en')" and o: "sorted (map partition_sort_key (rs_partitions s))"
  shows "snapshot_for_partitions env (st_partitions (en_state en')) = s
    \<and> within_limits env (en_profile en) (st_partitions (en_state en'))"
proof -
  obtain m where en': "st_partitions (en_state en') = m"
    and e: "mset (map entry_snapshot (bt_entries m)) = mset (rs_partitions s)"
    using restore_runtime_ok [OF r] by auto
  have v: "runtime_snapshot_validate env s (schema_version en) = Inr ()"
    and z: "validate_runtime_snapshot_size env (en_profile en) s = Inr ()"
    using r by (auto simp: restore_runtime_def commit_Inr and_then_Inr)
  have d: "distinct (map partition_sort_key (rs_partitions s))"
    using v by (auto simp: runtime_snapshot_validate_def validate_partitions_from_Inr split: if_splits)
  have "set (map entry_snapshot (bt_entries m)) = set (rs_partitions s)"
    using e by (rule mset_eq_setD)
  then have "inj_on partition_sort_key (set (map entry_snapshot (bt_entries m)))"
    using d by (simp only: distinct_map)
  then have "sort_key partition_sort_key (map entry_snapshot (bt_entries m)) = rs_partitions s"
    using e o by (intro sort_key_inj_key_eq)
  then have "snapshot_for_partitions env m = s"
    using v by (auto simp: snapshot_for_partitions_def runtime_snapshot_new_def Let_def
        entry_snapshot_def [symmetric] runtime_snapshot_validate_def split: if_splits)
  then show ?thesis
    using z en' by (simp add: within_limits_def validate_partition_map_def)
qed

section \<open>Handling a request\<close>

lemma resource_limits:
  assumes "validate_partition_resources prof (partition_to_snapshot s p) = Inr u"
  shows "bt_len (ps_pending p) \<le> unat (max_pending_decisions prof)"
    "bt_len (ps_completed p) \<le> unat (max_completed_decisions prof)"
    "length (ss_state (ps_snapshot p)) \<le> unat (max_model_state_bytes prof)"
  using assms
  by (auto simp: validate_partition_resources_def partition_to_snapshot_def Let_def not_less split: if_splits)

lemma next_decisions_keys:
  assumes k: "keys_ok (ps_pending p)" "keys_ok (ps_completed p)" and rid: "rid \<noteq> []"
    and n: "next_decisions en rid now out g p req = (pend, compl)"
  shows "keys_ok pend \<and> keys_ok compl"
proof (cases req)
  case (Decide ctx seed)
  then show ?thesis using n k rid by (auto simp: Let_def intro!: keys_ok_insert)
next
  case (Feedback d a r t gen)
  show ?thesis
  proof (cases "bt_get (ps_pending p) d")
    case None
    then show ?thesis using n k Feedback by simp
  next
    case (Some entry)
    then have "de_decision_id entry = d \<and> d \<noteq> []" using keys_ok_get [OF k(1)] by blast
    then show ?thesis using n k Feedback Some by (auto intro!: keys_ok_insert keys_ok_remove)
  qed
qed (use n k in auto)

lemma next_partition_ok:
  assumes ok: "partition_ok env (schema_version en) p" and n: "next_partition env en e now scope p st res = Inr p'"
    and m: "map_ok env (schema_version en) (st_partitions st)" and s: "scope_validate scope = Inr ()"
    and rid: "env_request_id e \<noteq> []"
  shows "parts_ok env en (bt_insert scope p' (st_partitions st))"
    and "\<exists>pend compl. next_decisions en (env_request_id e) now (hr_output res) (ss_generation (ps_snapshot p) + 1) p
        (env_request e) = (pend, compl)
      \<and> unat (ss_generation (ps_snapshot p)) + 1 < 2 ^ 64
      \<and> p' = p\<lparr>ps_snapshot := state_snapshot_new env (schema_version en) (ss_generation (ps_snapshot p) + 1)
             (hr_next_state res),
           ps_previous_good := Some (ps_snapshot p), ps_pending := pend, ps_completed := compl\<rparr>"
proof -
  let ?g = "ss_generation (ps_snapshot p) + 1"
  obtain bytes where b: "re_encode_json env (hr_output res) = Some bytes" "length bytes \<le> max_output_bytes"
    and v: "\<not> is_err (validate_state_bytes env (hr_next_state res) (schema_version en) (schema_version en))"
    and l: "length (hr_next_state res) \<le> unat (max_model_state_bytes (en_profile en))"
    and g: "checked_add_u64 (ss_generation (ps_snapshot p)) 1 = Some ?g" "unat (ss_generation (ps_snapshot p)) + 1 < 2 ^ 64"
    using n by (auto simp: next_partition_def checked_add_u64_Some not_less split: option.splits if_splits)
  obtain pend compl where d: "next_decisions en (env_request_id e) now (hr_output res) ?g p (env_request e) = (pend, compl)"
    by fastforce
  let ?p' = "p\<lparr>ps_snapshot := state_snapshot_new env (schema_version en) ?g (hr_next_state res),
      ps_previous_good := Some (ps_snapshot p), ps_pending := pend, ps_completed := compl\<rparr>"
  have z: "p' = ?p'" "\<not> is_err (validate_runtime_snapshot_size env (en_profile en)
      (snapshot_for_partitions env (bt_insert scope ?p' (st_partitions st))))"
    using n b v l g d by (auto simp: next_partition_def Let_def prospective_snapshot split: if_splits)
  have "keys_ok pend \<and> keys_ok compl"
    using ok rid d by (intro next_decisions_keys) (auto simp: partition_ok_def)
  then have "partition_ok env (schema_version en) ?p'"
    using ok v by (auto simp: partition_ok_def optional_ok_def not_is_err_iff state_snapshot_new_validate
        validate_state_bytes_Inr)
  then show "parts_ok env en (bt_insert scope p' (st_partitions st))"
    using m s z by (auto simp: parts_ok_def within_limits_def validate_partition_map_def not_is_err_iff
        intro: map_ok_insert)
  show "\<exists>pend compl. next_decisions en (env_request_id e) now (hr_output res) ?g p (env_request e) = (pend, compl)
      \<and> unat (ss_generation (ps_snapshot p)) + 1 < 2 ^ 64
      \<and> p' = p\<lparr>ps_snapshot := state_snapshot_new env (schema_version en) ?g (hr_next_state res),
           ps_previous_good := Some (ps_snapshot p), ps_pending := pend, ps_completed := compl\<rparr>"
    using d g z by blast
qed

lemma envelope_facts:
  assumes "envelope_validate enc e = Inr u"
  shows "env_request_id e \<noteq> []" "scope_validate (envelope_scope e) = Inr ()"
  using assms
  by (auto simp: envelope_validate_def and_then_Inr identity_validate_Inr scope_validate_Inr envelope_scope_def
      not_less split: if_splits)

definition state_opened :: "runtime_env \<Rightarrow> engine \<Rightarrow> envelope_v3 \<Rightarrow> runtime_state \<Rightarrow> runtime_state" where
  "state_opened env en e st = (if bt_contains (st_partitions st) (envelope_scope e) then st
     else st\<lparr>st_partitions := bt_insert (envelope_scope e) (initial_partition env en) (st_partitions st)\<rparr>)"

lemma open_partition_Inr:
  assumes "open_partition env en st e (envelope_scope e) = Inr (p, st1)"
  shows "p = entry_or_initial env en (st_partitions st) (envelope_scope e)" "st1 = state_opened env en e st"
    "\<not> bt_contains (st_partitions st) (envelope_scope e) \<Longrightarrow> creates_partition (env_request e)
       \<and> env_state_generation e = ss_generation (ps_snapshot p)"
  using assms
  by (auto simp: open_partition_def entry_or_initial_def state_opened_def bt_contains_def initial_partition_def
      state_snapshot_new_def split: option.splits if_splits)

lemma state_opened_insert [simp]:
  "bt_insert (envelope_scope e) p (st_partitions (state_opened env en e st)) = bt_insert (envelope_scope e) p (st_partitions st)"
  by (rule bt_ext) (simp add: state_opened_def)

lemma state_opened_frame [simp]:
  "st_restart_count (state_opened env en e st) = st_restart_count st"
  "st_last_error (state_opened env en e st) = st_last_error st"
  by (simp_all add: state_opened_def)

lemma undo_state_opened [simp]:
  "undo_created (\<not> bt_contains (st_partitions st) (envelope_scope e)) (envelope_scope e) (state_opened env en e st) = st"
proof (cases "bt_contains (st_partitions st) (envelope_scope e)")
  case False
  then have "bt_remove (envelope_scope e) (bt_insert (envelope_scope e) q (st_partitions st)) = st_partitions st" for q
    by (intro bt_ext) (auto simp: bt_contains_def)
  then show ?thesis using False by (simp add: undo_created_def state_opened_def)
qed (simp add: undo_created_def state_opened_def)

lemma created_passes_checks:
  assumes "config_ok env en" "creates_partition (env_request e)"
    "env_state_generation e = ss_generation (ps_snapshot (initial_partition env en))"
  shows "check_partition en e (initial_partition env en) = Inr ()"
proof (cases "env_request e")
  case (Decide ctx seed)
  have "0 < unat (max_pending_decisions (en_profile en)) \<and> 0 < unat (max_completed_decisions (en_profile en))"
    using assms(1) profile_valid by (auto simp: config_ok_def)
  then show ?thesis
    using assms Decide by (simp add: check_partition_def check_decide_def initial_partition_def)
qed (use assms in \<open>simp_all add: check_partition_def\<close>)

text \<open>
  What a request that changes a partition does to it: the generation moves up by one; a reset keeps
  the previous-good copy and forgets the decisions, any other request keeps the replaced snapshot
  as previous-good and moves the decisions as \<open>next_decisions\<close> says.
\<close>

definition partition_step ::
    "runtime_env \<Rightarrow> engine \<Rightarrow> envelope_v3 \<Rightarrow> u64 \<Rightarrow> partition_state \<Rightarrow> response_body_v3 \<Rightarrow> partition_state \<Rightarrow> bool" where
  "partition_step env en e now p body p' \<longleftrightarrow>
     env_state_generation e = ss_generation (ps_snapshot p)
     \<and> check_partition en e p = Inr ()
     \<and> unat (ss_generation (ps_snapshot p)) + 1 < 2 ^ 64
     \<and> ss_generation (ps_snapshot p') = ss_generation (ps_snapshot p) + 1
     \<and> ps_candidate p' = ps_candidate p
     \<and> (if \<exists>g. env_request e = Reset g
        then body = RReset True \<and> ps_previous_good p' = ps_previous_good p
          \<and> ss_state (ps_snapshot p') = rc_initial_state (en_config en)
          \<and> ps_pending p' = bt_empty \<and> ps_completed p' = bt_empty
        else ps_previous_good p' = Some (ps_snapshot p)
          \<and> (\<exists>out. (body = RResult out \<or> env_request e = Inspect \<and> (\<exists>j. body = RInspection j))
               \<and> next_decisions en (env_request_id e) now out (ss_generation (ps_snapshot p) + 1) p
                   (env_request e) = (ps_pending p', ps_completed p')))"

text \<open>The effect of one request, answered by \<open>r\<close>, on the engine.\<close>

inductive request_effect :: "runtime_env \<Rightarrow> engine \<Rightarrow> envelope_v3 \<Rightarrow> u64 \<Rightarrow> response_v3 \<Rightarrow> engine \<Rightarrow> bool"
  for env en e now r where
  rejected: "rsp_response r = RError err \<Longrightarrow> request_effect env en e now r en"
| handler_failed: "rsp_response r = RError err
    \<Longrightarrow> request_effect env en e now r (en\<lparr>en_state := (en_state en)\<lparr>st_last_error := Some m\<rparr>\<rparr>)"
| answered: "(\<forall>err. rsp_response r \<noteq> RError err) \<Longrightarrow> env_request e \<in> {Handshake, Health, Snapshot}
    \<Longrightarrow> request_effect env en e now r en"
| committed: "partition_step env en e now
      (entry_or_initial env en (st_partitions (en_state en)) (envelope_scope e)) (rsp_response r) p'
    \<Longrightarrow> rsp_state_generation r = ss_generation (ps_snapshot p')
    \<Longrightarrow> check_call en e = Inr () \<Longrightarrow> \<not> en_poisoned en
    \<Longrightarrow> parts_ok env en (bt_insert (envelope_scope e) p' (st_partitions (en_state en)))
    \<Longrightarrow> request_effect env en e now r (en\<lparr>en_state := (en_state en)\<lparr>
          st_partitions := bt_insert (envelope_scope e) p' (st_partitions (en_state en))\<rparr>\<rparr>)"

lemma respond_simps [simp]:
  "rsp_response (respond en rid g body) = body" "rsp_state_generation (respond en rid g body) = g"
  "rsp_request_id (respond en rid g body) = rid"
  "rsp_response (error_response en rid cm g) = RError (error_v3_new (fst cm) (snd cm))"
  by (simp_all add: respond_def error_response_def)

lemma en_state_same [simp]: "en\<lparr>en_state := en_state en\<rparr> = en"
  by simp

lemma call_handler_Inr:
  assumes "call_handler env en e now scope p st = Inr (out, p')"
  shows "\<exists>res. next_partition env en e now scope p st res = Inr p' \<and> out = hr_output res"
  using assms
  by (auto simp: call_handler_def map_err_Inr and_then_Inr split: option.splits if_splits sum.splits)

lemma run_handler_effect:
  assumes ok: "engine_ok env en" and env: "envelope_validate enc e = Inr ()" and pois: "\<not> en_poisoned en"
    and call: "check_call en e = Inr ()"
    and p: "p = entry_or_initial env en (st_partitions (en_state en)) (envelope_scope e)"
    and chk: "check_partition en e p = Inr ()" and req: "\<forall>g. env_request e \<noteq> Reset g"
    and run: "run_handler env en e now (envelope_scope e)
      (\<not> bt_contains (st_partitions (en_state en)) (envelope_scope e)) p (state_opened env en e (en_state en)) = (r, en')"
  shows "request_effect env en e now r en'"
proof (cases "call_handler env en e now (envelope_scope e) p (state_opened env en e (en_state en))")
  case (Inl x)
  obtain cm failure where x: "x = (cm, failure)" by fastforce
  have r: "rsp_response r = RError (error_v3_new (fst cm) (snd cm))"
    and en': "en' = en\<lparr>en_state := (case failure of None \<Rightarrow> en_state en
      | Some m \<Rightarrow> (en_state en)\<lparr>st_last_error := Some m\<rparr>)\<rparr>"
    using run Inl x by (auto simp: run_handler_def Let_def)
  show ?thesis
    using r rejected [OF r] handler_failed [OF r] en' by (cases failure) simp_all
next
  case (Inr x)
  obtain out p' where x: "x = (out, p')" by fastforce
  let ?st = "state_opened env en e (en_state en)"
  obtain res where n: "next_partition env en e now (envelope_scope e) p ?st res = Inr p'" and o: "out = hr_output res"
    using call_handler_Inr Inr x by blast
  have pok: "partition_ok env (schema_version en) p" and m: "map_ok env (schema_version en) (st_partitions ?st)"
    using ok envelope_facts(2) [OF env] entry_or_initial_ok initial_partition_ok
    by (auto simp: p engine_ok_def state_opened_def intro: map_ok_insert)
  note facts = next_partition_ok [OF pok n m envelope_facts(2) [OF env] envelope_facts(1) [OF env]]
  obtain pend compl where d: "next_decisions en (env_request_id e) now out (ss_generation (ps_snapshot p) + 1) p
      (env_request e) = (pend, compl)"
    and g: "unat (ss_generation (ps_snapshot p)) + 1 < 2 ^ 64"
    and p': "p' = p\<lparr>ps_snapshot := state_snapshot_new env (schema_version en) (ss_generation (ps_snapshot p) + 1)
             (hr_next_state res), ps_previous_good := Some (ps_snapshot p), ps_pending := pend, ps_completed := compl\<rparr>"
    using facts(2) o by blast
  have body: "rsp_response r = RResult out \<or> env_request e = Inspect \<and> (\<exists>j. rsp_response r = RInspection j)"
    and gen: "rsp_state_generation r = ss_generation (ps_snapshot p')"
    and en': "en' = en\<lparr>en_state := (en_state en)\<lparr>
        st_partitions := bt_insert (envelope_scope e) p' (st_partitions (en_state en))\<rparr>\<rparr>"
    using run Inr x by (auto simp: run_handler_def state_opened_def bt_ext split: runtime_request.splits)
  have "env_state_generation e = ss_generation (ps_snapshot p)"
    using chk by (simp add: check_partition_def split: if_splits)
  moreover have "\<exists>out. (rsp_response r = RResult out \<or> env_request e = Inspect \<and> (\<exists>j. rsp_response r = RInspection j))
      \<and> next_decisions en (env_request_id e) now out (ss_generation (ps_snapshot p) + 1) p (env_request e)
        = (ps_pending p', ps_completed p')"
    using body d p' by (intro exI [of _ out]) simp
  ultimately have "partition_step env en e now p (rsp_response r) p'"
    using chk g p' req by (simp add: partition_step_def state_snapshot_new_def)
  then show ?thesis
    using committed [of env en e now r p', OF _ gen call pois] facts(1) en' p by simp
qed

lemma reset_effect:
  assumes ok: "engine_ok env en" and env: "envelope_validate enc e = Inr ()" and pois: "\<not> en_poisoned en"
    and call: "check_call en e = Inr ()" and st: "bt_contains (st_partitions (en_state en)) (envelope_scope e)"
    and p: "p = entry_or_initial env en (st_partitions (en_state en)) (envelope_scope e)"
    and chk: "check_partition en e p = Inr ()" and req: "env_request e = Reset g"
    and reset: "reset_partition env en (envelope_scope e) p g (en_state en) = Inr (n, st')"
    and r: "rsp_response r = RReset True" "rsp_state_generation r = n"
  shows "request_effect env en e now r (en\<lparr>en_state := st'\<rparr>)"
proof -
  let ?g = "ss_generation (ps_snapshot p) + 1" and ?ps = "st_partitions (en_state en)"
  let ?p' = "p\<lparr>ps_snapshot := state_snapshot_new env (schema_version en) ?g (rc_initial_state (en_config en)),
      ps_pending := bt_empty, ps_completed := bt_empty\<rparr>"
  have g: "unat (ss_generation (ps_snapshot p)) + 1 < 2 ^ 64" "n = ?g"
    and v: "validate_partition_map env (en_profile en) (bt_insert (envelope_scope e) ?p' ?ps) = Inr ()"
    and st': "st' = (en_state en)\<lparr>st_partitions := bt_insert (envelope_scope e) ?p' ?ps\<rparr>"
    using reset by (auto simp: reset_partition_def Let_def checked_add_u64_Some not_is_err_iff
        split: if_splits option.splits)
  have "partition_ok env (schema_version en) p"
    using ok entry_or_initial_ok by (auto simp: p engine_ok_def)
  then have "partition_ok env (schema_version en) ?p'"
    using ok by (auto simp: partition_ok_def engine_ok_def config_ok_def state_snapshot_new_validate
        validate_state_bytes_Inr)
  then have "parts_ok env en (bt_insert (envelope_scope e) ?p' ?ps)"
    using ok v envelope_facts(2) [OF env]
    by (auto simp: parts_ok_def within_limits_def engine_ok_def intro: map_ok_insert)
  moreover have "partition_step env en e now p (RReset True) ?p'"
    using chk g req by (simp add: partition_step_def state_snapshot_new_def check_partition_def split: if_splits)
  ultimately show ?thesis
    using committed [of env en e now r ?p', OF _ _ call pois] r g p st' by (simp add: state_snapshot_new_def)
qed

lemma handle_opened_effect:
  assumes ok: "engine_ok env en" and env: "envelope_validate enc e = Inr ()" and pois: "\<not> en_poisoned en"
    and call: "check_call en e = Inr ()"
    and op: "open_partition env en (en_state en) e (envelope_scope e) = Inr (p, st1)"
    and h: "handle_opened env en e now (\<not> bt_contains (st_partitions (en_state en)) (envelope_scope e)) p st1 = (r, en')"
  shows "request_effect env en e now r en'"
proof -
  note p = open_partition_Inr(1) [OF op] and st1 = open_partition_Inr(2) [OF op]
  have old: "check_partition en e p \<noteq> Inr () \<or> \<not> creates_partition (env_request e)
      \<Longrightarrow> bt_contains (st_partitions (en_state en)) (envelope_scope e) \<and> st1 = en_state en"
    using open_partition_Inr(3) [OF op] created_passes_checks [of env en e] ok p st1
    by (auto simp: engine_ok_def entry_or_initial_def state_opened_def bt_contains_def split: option.splits)
  show ?thesis
  proof (cases "check_partition en e p")
    case (Inl cm)
    then show ?thesis using h old by (auto simp: handle_opened_def Let_def intro: rejected)
  next
    case (Inr u)
    then have chk: "check_partition en e p = Inr ()" by simp
    note run = run_handler_effect [OF ok env pois call p chk]
    show ?thesis
    proof (cases "env_request e")
      case (Reset g)
      then have st: "bt_contains (st_partitions (en_state en)) (envelope_scope e)" "st1 = en_state en"
        using old by auto
      show ?thesis
      proof (cases "reset_partition env en (envelope_scope e) p g (en_state en)")
        case (Inl cm)
        then show ?thesis using h chk Reset st by (auto simp: handle_opened_def Let_def intro: rejected)
      next
        case (Inr x)
        obtain n st' where x: "x = (n, st')" by fastforce
        have "r = respond en (env_request_id e) n (RReset True)" "en' = en\<lparr>en_state := st'\<rparr>"
          using h chk Reset st Inr x by (auto simp: handle_opened_def Let_def)
        then show ?thesis
          using reset_effect [OF ok env pois call st(1) p chk Reset Inr [unfolded x]] by simp
      qed
    next
      case Snapshot
      then show ?thesis
        using h chk old by (auto simp: handle_opened_def Let_def intro: answered)
    qed (use h chk run st1 in \<open>simp_all add: handle_opened_def Let_def\<close>)
  qed
qed

lemma handle_at_effect:
  assumes ok: "engine_ok env en" and h: "handle_at env en e now = (r, en')"
  shows "request_effect env en e now r en'"
proof (cases "envelope_validate (re_encode_envelope env) e")
  case (Inl err)
  then show ?thesis using h by (auto simp: handle_at_def intro: rejected)
next
  case (Inr u)
  then have env: "envelope_validate (re_encode_envelope env) e = Inr ()" by simp
  show ?thesis
  proof (cases "is_expired_at e now"; cases "env_request e \<in> {Handshake, Health}")
    assume "\<not> is_expired_at e now" "env_request e \<in> {Handshake, Health}"
    then show ?thesis
      using h env by (auto simp: handle_at_def intro!: answered)
  next
    assume "\<not> is_expired_at e now" and False: "env_request e \<notin> {Handshake, Health}"
    then have s: "handle_stateful env en e now = (r, en')"
      using h env by (auto simp: handle_at_def split: runtime_request.splits)
    show ?thesis
    proof (cases "check_call en e = Inr () \<and> \<not> en_poisoned en")
      case True
      then show ?thesis
        using s handle_opened_effect [OF ok env]
        by (cases "open_partition env en (en_state en) e (envelope_scope e)")
          (auto simp: handle_stateful_def Let_def lock_state_def intro: rejected)
    next
      case False
      then show ?thesis
        using s by (cases "check_call en e") (auto simp: handle_stateful_def Let_def lock_state_def intro: rejected)
    qed
  qed (use h env in \<open>auto simp: handle_at_def intro: rejected\<close>)
qed

end
