(* ===== verification/Stateful_Runtime.thy ===== *)
theory Stateful_Runtime imports Runtime_Invariant begin

text \<open>
  The properties of the stateful runtime engine, over \<open>runtime_reach\<close>: every engine a host can bring
  about with lifecycle operations, requests and panics. The lifecycle operations are an
  \<open>atomic_machine\<close>; sequences of requests keep what is \<open>settled\<close>. The witnesses run a concrete host,
  \<open>demo_env\<close>.
\<close>

section \<open>Lifecycle operations\<close>

datatype lifecycle_op =
    OpRestorePartition partition_scope state_snapshot
  | OpRestoreRuntime runtime_snapshot
  | OpStage partition_scope state_snapshot
  | OpPromote partition_scope
  | OpRollback partition_scope
  | OpMigrate partition_scope state_snapshot migrator

fun no_value :: "(handler_error + unit) \<times> engine \<Rightarrow> (handler_error + u64 option) \<times> engine" where
  "no_value (Inl e, en) = (Inl e, en)"
| "no_value (Inr _, en) = (Inr None, en)"

fun some_value :: "(handler_error + u64) \<times> engine \<Rightarrow> (handler_error + u64 option) \<times> engine" where
  "some_value (Inl e, en) = (Inl e, en)"
| "some_value (Inr n, en) = (Inr (Some n), en)"

fun lifecycle_exec :: "runtime_env \<Rightarrow> lifecycle_op \<Rightarrow> engine \<Rightarrow> (handler_error + u64 option) \<times> engine" where
  "lifecycle_exec env (OpRestorePartition scope snap) en = no_value (restore_partition_snapshot env en scope snap)"
| "lifecycle_exec env (OpRestoreRuntime s) en = no_value (restore_runtime env en s)"
| "lifecycle_exec env (OpStage scope snap) en = no_value (stage_candidate_for_scope env en scope snap)"
| "lifecycle_exec env (OpPromote scope) en = some_value (promote_candidate_for_scope env en scope)"
| "lifecycle_exec env (OpRollback scope) en = some_value (rollback_previous_good_for_scope env en scope)"
| "lifecycle_exec env (OpMigrate scope snap mig) en =
     no_value (restore_snapshot_with_migration_for_scope env en scope snap mig)"

lemma no_value_cases: "no_value x = (Inl e, en) \<longleftrightarrow> x = (Inl e, en)"
  "no_value x = (Inr v, en) \<longleftrightarrow> v = None \<and> x = (Inr (), en)"
  by (cases x rule: no_value.cases; auto)+

lemma some_value_cases: "some_value x = (Inl e, en) \<longleftrightarrow> x = (Inl e, en)"
  "some_value x = (Inr v, en) \<longleftrightarrow> (\<exists>n. v = Some n \<and> x = (Inr n, en))"
  by (cases x rule: some_value.cases; auto)+

lemma lifecycle_atomic: "lifecycle_exec env op en = (Inl e, en') \<Longrightarrow> en' = en"
  by (cases op)
    (auto simp: no_value_cases some_value_cases restore_partition_snapshot_def restore_runtime_def
      stage_candidate_for_scope_def promote_candidate_for_scope_def rollback_previous_good_for_scope_def
      restore_snapshot_with_migration_for_scope_def dest: commit_Inl split: if_splits sum.splits)

text \<open>A migrated restore that succeeds is a restore of the given or of the migrated snapshot.\<close>

lemma migrate_Inr:
  assumes "restore_snapshot_with_migration_for_scope env en scope snap mig = (Inr u, en')"
  shows "\<exists>snap'. restore_partition_snapshot env en scope snap' = (Inr u, en')
    \<and> ss_generation snap' = ss_generation snap"
  using assms
  by (auto simp: restore_snapshot_with_migration_for_scope_def state_snapshot_new_def
      split: if_splits sum.splits)

text \<open>Every lifecycle success but a whole restore installs one partition.\<close>

fun op_scope :: "lifecycle_op \<Rightarrow> partition_scope option" where
  "op_scope (OpRestoreRuntime s) = None"
| "op_scope (OpRestorePartition scope snap) = Some scope"
| "op_scope (OpStage scope snap) = Some scope"
| "op_scope (OpPromote scope) = Some scope"
| "op_scope (OpRollback scope) = Some scope"
| "op_scope (OpMigrate scope snap mig) = Some scope"

lemma lifecycle_installs:
  assumes ok: "engine_ok env en" and x: "lifecycle_exec env op en = (Inr v, en')" and s: "op_scope op = Some scope"
  shows "\<exists>p n. en' = en\<lparr>en_state := (en_state en)\<lparr>
      st_partitions := bt_insert scope p (st_partitions (en_state en)), st_restart_count := n\<rparr>\<rparr>
    \<and> parts_ok env en (bt_insert scope p (st_partitions (en_state en)))
    \<and> (ps_pending p = bt_empty \<and> ps_completed p = bt_empty
       \<or> ps_pending p = ps_pending (entry_or_initial env en (st_partitions (en_state en)) scope)
         \<and> ps_completed p = ps_completed (entry_or_initial env en (st_partitions (en_state en)) scope))"
proof (cases op)
  case (OpRestorePartition sc snap)
  then have "restore_partition_snapshot env en scope snap = (Inr (), en')"
    using x s by (simp add: no_value_cases)
  from restore_partition_ok [OF ok this] show ?thesis by fastforce
next
  case (OpStage sc snap)
  then have "stage_candidate_for_scope env en scope snap = (Inr (), en')"
    using x s by (simp add: no_value_cases)
  from stage_candidate_ok [OF ok this] obtain p
    where "en' = en\<lparr>en_state := (en_state en)\<lparr>
        st_partitions := bt_insert scope p (st_partitions (en_state en))\<rparr>\<rparr>"
      "p = (entry_or_initial env en (st_partitions (en_state en)) scope)\<lparr>ps_candidate := Some snap\<rparr>"
      "parts_ok env en (bt_insert scope p (st_partitions (en_state en)))" by blast
  then show ?thesis
    by (intro exI [of _ p] exI [of _ "st_restart_count (en_state en)"]) simp
next
  case (OpPromote sc)
  then obtain g where "promote_candidate_for_scope env en scope = (Inr g, en')"
    using x s by (auto simp: some_value_cases)
  from promote_ok [OF ok this] obtain p c
    where "en' = en\<lparr>en_state := (en_state en)\<lparr>
        st_partitions := bt_insert scope (promoted p c) (st_partitions (en_state en))\<rparr>\<rparr>"
      "parts_ok env en (bt_insert scope (promoted p c) (st_partitions (en_state en)))" by blast
  then show ?thesis
    by (intro exI [of _ "promoted p c"] exI [of _ "st_restart_count (en_state en)"]) (simp add: promoted_def)
next
  case (OpRollback sc)
  then obtain g where "rollback_previous_good_for_scope env en scope = (Inr g, en')"
    using x s by (auto simp: some_value_cases)
  from rollback_ok [OF ok this] obtain p c
    where "en' = en\<lparr>en_state := (en_state en)\<lparr>
        st_partitions := bt_insert scope (rolled_back p c) (st_partitions (en_state en))\<rparr>\<rparr>"
      "parts_ok env en (bt_insert scope (rolled_back p c) (st_partitions (en_state en)))" by blast
  then show ?thesis
    by (intro exI [of _ "rolled_back p c"] exI [of _ "st_restart_count (en_state en)"]) (simp add: rolled_back_def)
next
  case (OpMigrate sc snap mig)
  then obtain snap' where "restore_partition_snapshot env en scope snap' = (Inr (), en')"
    using migrate_Inr [of env en scope snap mig "()" en'] x s by (auto simp: no_value_cases)
  from restore_partition_ok [OF ok this] show ?thesis by fastforce
qed (use s in simp)

lemma config_kept:
  "lifecycle_exec env op en = (x, en') \<Longrightarrow> en_config en' = en_config en \<and> en_metadata en' = en_metadata en"
  by (cases op; cases x)
    (auto simp: no_value_cases some_value_cases restore_partition_snapshot_def restore_runtime_def
      stage_candidate_for_scope_def promote_candidate_for_scope_def rollback_previous_good_for_scope_def
      restore_snapshot_with_migration_for_scope_def commit_def split: if_splits sum.splits)

lemma lifecycle_step_ok:
  assumes ok: "engine_ok env en" and x: "lifecycle_exec env op en = (Inr v, en')"
  shows "engine_ok env en'"
proof (cases "op_scope op")
  case None
  then obtain s where "restore_runtime env en s = (Inr (), en')"
    using x by (cases op) (auto simp: no_value_cases)
  from restore_runtime_ok [OF this] ok show ?thesis
    by (auto simp: engine_ok_def config_ok_def en_profile_def schema_version_def)
next
  case (Some scope)
  from lifecycle_installs [OF ok x Some] ok show ?thesis
    by (auto intro!: engine_ok_commit)
qed

interpretation lifecycle: atomic_machine "lifecycle_exec env" "engine_ok env" for env
  by unfold_locales (blast intro: lifecycle_atomic, blast intro: lifecycle_step_ok)

section \<open>Reachable engines\<close>

text \<open>
  The engines a host can bring about from \<open>new\<close>: lifecycle operations, requests, and the panic of
  a thread that holds the lock. \<open>allowed\<close> says which runtime snapshots the host restores.
\<close>

inductive runtime_reach ::
    "runtime_env \<Rightarrow> runtime_config \<Rightarrow> handler_metadata \<Rightarrow> (runtime_snapshot \<Rightarrow> bool) \<Rightarrow> engine \<Rightarrow> bool"
  for env c m allowed where
  reach_new: "engine_new env c m = Inr en \<Longrightarrow> runtime_reach env c m allowed en"
| reach_lifecycle: "runtime_reach env c m allowed en \<Longrightarrow> lifecycle_exec env op en = (x, en')
    \<Longrightarrow> (\<forall>s. op = OpRestoreRuntime s \<longrightarrow> allowed s) \<Longrightarrow> runtime_reach env c m allowed en'"
| reach_request: "runtime_reach env c m allowed en \<Longrightarrow> handle_at env en e now = (r, en')
    \<Longrightarrow> runtime_reach env c m allowed en'"
| reach_panic: "runtime_reach env c m allowed en \<Longrightarrow> runtime_reach env c m allowed (en\<lparr>en_poisoned := True\<rparr>)"

lemma poisoned_frame [simp]: "engine_ok env (en\<lparr>en_poisoned := True\<rparr>) = engine_ok env en"
  by (simp add: engine_ok_def config_ok_def en_profile_def schema_version_def)

lemma last_error_frame [simp]:
  "engine_ok env (en\<lparr>en_state := (en_state en)\<lparr>st_last_error := x\<rparr>\<rparr>) = engine_ok env en"
  by (simp add: engine_ok_def)

lemma effect_ok: "request_effect env en e now r en' \<Longrightarrow> engine_ok env en
    \<Longrightarrow> engine_ok env en' \<and> en_config en' = en_config en \<and> en_metadata en' = en_metadata en"
  by (induction rule: request_effect.induct) (auto intro!: engine_ok_commit)

lemma reach_ok:
  assumes "runtime_reach env c m allowed en"
  shows "engine_ok env en \<and> en_config en = c \<and> en_metadata en = m"
  using assms
proof (induction rule: runtime_reach.induct)
  case (reach_new en)
  then show ?case using engine_new_ok by blast
next
  case (reach_lifecycle en op x en')
  then have "en_config en' = c \<and> en_metadata en' = m" using config_kept by metis
  moreover have "engine_ok env en'"
    using reach_lifecycle lifecycle.exec_inv [of env en op] by simp
  ultimately show ?case by simp
next
  case (reach_request en e now r en')
  then show ?case using effect_ok [OF handle_at_effect] by metis
qed simp

text \<open>Under snapshots in scope order the encoded snapshot stays within its limit too.\<close>

definition in_scope_order :: "runtime_snapshot \<Rightarrow> bool" where
  "in_scope_order s \<longleftrightarrow> sorted (map partition_sort_key (rs_partitions s))"

lemma parts_ok_within: "parts_ok env en ps \<Longrightarrow> within_limits env (en_profile en) ps"
  by (simp add: parts_ok_def)

lemma reach_within:
  assumes "runtime_reach env c m in_scope_order en"
  shows "within_limits env (rc_resource_profile c) (st_partitions (en_state en))"
  using assms
proof (induction rule: runtime_reach.induct)
  case (reach_new en)
  then show ?case using engine_new_ok [OF reach_new] by (simp add: within_limits_def)
next
  case (reach_lifecycle en op x en')
  note ok = reach_ok [OF reach_lifecycle.hyps(1)]
  show ?case
  proof (cases x)
    case (Inl err)
    then show ?thesis using reach_lifecycle lifecycle_atomic by metis
  next
    case (Inr v)
    note x = reach_lifecycle.hyps(2) [unfolded Inr]
    show ?thesis
    proof (cases "op_scope op")
      case None
      then obtain s where s: "op = OpRestoreRuntime s" by (cases op) auto
      then have "restore_runtime env en s = (Inr (), en')" using x by (simp add: no_value_cases)
      from restore_runtime_sorted [OF this] s reach_lifecycle.hyps(3) ok show ?thesis
        by (auto simp: in_scope_order_def en_profile_def)
    next
      case (Some scope)
      from lifecycle_installs [OF _ x Some] ok show ?thesis
        by (auto dest!: parts_ok_within simp: en_profile_def)
    qed
  qed
next
  case (reach_request en e now r en')
  note ok = reach_ok [OF reach_request.hyps(1)]
  have "request_effect env en e now r en'" using handle_at_effect ok reach_request.hyps(2) by blast
  then show ?case
    using reach_request.IH ok
    by cases (auto dest!: parts_ok_within simp: en_profile_def)
qed simp

text \<open>Equal snapshots come from equal maps.\<close>

lemma entry_snapshot_inject: "entry_snapshot x = entry_snapshot y \<Longrightarrow> x = y"
  by (cases x, cases y)
    (auto simp: entry_snapshot_def partition_to_snapshot_def intro: partition_scope.expand partition_state.equality)

lemma entries_inject: "mset (map entry_snapshot (bt_entries m)) = mset (map entry_snapshot (bt_entries n)) \<Longrightarrow> m = n"
proof (rule bt_ext)
  fix k assume "mset (map entry_snapshot (bt_entries m)) = mset (map entry_snapshot (bt_entries n))"
  then have "entry_snapshot ` set (bt_entries m) = entry_snapshot ` set (bt_entries n)"
    by (metis mset_eq_setD set_map)
  moreover have "inj entry_snapshot" by (rule injI) (rule entry_snapshot_inject)
  ultimately have "set (bt_entries m) = set (bt_entries n)" by (simp add: inj_image_eq_iff)
  then have "bt_get m k = Some v \<longleftrightarrow> bt_get n k = Some v" for v
    by (simp add: bt_get_iff)
  then show "bt_get m k = bt_get n k" by (metis option.exhaust)
qed

lemma restore_fold_total:
  "\<forall>p \<in> set ps. validate_partition_resources prof p = Inr () \<Longrightarrow> \<exists>m'. try_fold (restore_step prof) m ps = Inr m'"
  by (induction ps arbitrary: m) (simp_all add: restore_step_def)


section \<open>What a host does to an engine\<close>

text \<open>A host sends requests, calls lifecycle operations, and may lose a thread that holds the lock.\<close>

datatype host_step = HostRequest envelope_v3 u64 | HostOp lifecycle_op | HostPanic

fun host_exec :: "runtime_env \<Rightarrow> host_step \<Rightarrow> engine \<Rightarrow> engine" where
  "host_exec env (HostRequest e now) en = snd (handle_at env en e now)"
| "host_exec env (HostOp op) en = snd (lifecycle_exec env op en)"
| "host_exec env HostPanic en = en\<lparr>en_poisoned := True\<rparr>"

definition run_host :: "runtime_env \<Rightarrow> host_step list \<Rightarrow> engine \<Rightarrow> engine" where
  "run_host env steps en = fold (host_exec env) steps en"

text \<open>
  What a step cannot take from a partition: its generation, unless a lifecycle operation replaces the active state,
  and the settled decisions, unless they are forgotten with it.
\<close>

definition settled :: "engine \<Rightarrow> partition_scope \<Rightarrow> nat \<Rightarrow> string set \<Rightarrow> bool" where
  "settled en scope n ds \<longleftrightarrow> (\<exists>p. bt_get (st_partitions (en_state en)) scope = Some p
     \<and> n \<le> unat (ss_generation (ps_snapshot p)) \<and> (\<forall>d \<in> ds. bt_contains (ps_completed p) d))"

definition resets :: "envelope_v3 \<Rightarrow> partition_scope \<Rightarrow> bool" where
  "resets e scope \<longleftrightarrow> envelope_scope e = scope \<and> (\<exists>g. env_request e = Reset g)"

fun forgets_decisions :: "partition_scope \<Rightarrow> host_step \<Rightarrow> bool" where
  "forgets_decisions scope (HostRequest e now) = resets e scope"
| "forgets_decisions scope (HostOp (OpRestoreRuntime s)) = True"
| "forgets_decisions scope (HostOp (OpPromote sc)) = (sc = scope)"
| "forgets_decisions scope (HostOp (OpRollback sc)) = (sc = scope)"
| "forgets_decisions scope _ = False"

fun replaces_state :: "partition_scope \<Rightarrow> host_step \<Rightarrow> bool" where
  "replaces_state scope (HostOp (OpRestoreRuntime s)) = True"
| "replaces_state scope (HostOp (OpRestorePartition sc snap)) = (sc = scope)"
| "replaces_state scope (HostOp (OpMigrate sc snap mig)) = (sc = scope)"
| "replaces_state scope (HostOp (OpPromote sc)) = (sc = scope)"
| "replaces_state scope (HostOp (OpRollback sc)) = (sc = scope)"
| "replaces_state scope _ = False"

lemma next_decisions_completed:
  "next_decisions en rid now out g p req = (pend, compl) \<Longrightarrow> bt_contains (ps_completed p) d \<Longrightarrow> bt_contains compl d"
  by (cases req) (auto simp: Let_def split: option.splits)

lemma partition_step_settled:
  assumes "partition_step env en e now p body p'"
  shows "unat (ss_generation (ps_snapshot p')) = unat (ss_generation (ps_snapshot p)) + 1"
    and "\<forall>g. env_request e \<noteq> Reset g \<Longrightarrow> bt_contains (ps_completed p) d \<Longrightarrow> bt_contains (ps_completed p') d"
  using assms
  by (auto simp: partition_step_def unat_add_u64 intro: next_decisions_completed split: if_splits)

lemma effect_settled:
  assumes "request_effect env en e now r en'" "settled en scope n ds" "resets e scope \<longrightarrow> ds = {}"
  shows "settled en' scope n ds"
  using assms(1)
proof cases
  case (committed p')
  show ?thesis
  proof (cases "envelope_scope e = scope")
    case True
    let ?p = "entry_or_initial env en (st_partitions (en_state en)) (envelope_scope e)"
    have p: "n \<le> unat (ss_generation (ps_snapshot ?p))" "\<forall>d \<in> ds. bt_contains (ps_completed ?p) d"
      using assms(2) True by (auto simp: settled_def entry_or_initial_def)
    note step = partition_step_settled [OF committed(2)]
    have "\<forall>d \<in> ds. bt_contains (ps_completed p') d"
      using p(2) step(2) assms(3) True by (auto simp: resets_def)
    then show ?thesis using committed(1) p(1) step(1) True by (simp add: settled_def)
  next
    case False
    then show ?thesis using assms(2) committed(1) by (simp add: settled_def)
  qed
qed (use assms(2) in \<open>simp_all add: settled_def\<close>)

lemma request_reach_ok:
  "engine_ok env en \<Longrightarrow> engine_ok env (snd (handle_at env en e now))"
  using effect_ok [OF handle_at_effect] by (metis surjective_pairing)

lemma settled_insert:
  "settled (en\<lparr>en_state := (en_state en)\<lparr>st_partitions := bt_insert scope p (st_partitions (en_state en)), st_restart_count := n\<rparr>\<rparr>)
     scope k ds \<longleftrightarrow> k \<le> unat (ss_generation (ps_snapshot p)) \<and> (\<forall>d \<in> ds. bt_contains (ps_completed p) d)"
  "settled (en\<lparr>en_state := (en_state en)\<lparr>st_partitions := bt_insert scope p (st_partitions (en_state en))\<rparr>\<rparr>)
     scope k ds \<longleftrightarrow> k \<le> unat (ss_generation (ps_snapshot p)) \<and> (\<forall>d \<in> ds. bt_contains (ps_completed p) d)"
  by (simp_all add: settled_def)

lemma settled_entry:
  "settled en scope n ds \<Longrightarrow> n \<le> unat (ss_generation (ps_snapshot (entry_or_initial env en (st_partitions (en_state en)) scope)))
     \<and> (\<forall>d \<in> ds. bt_contains (ps_completed (entry_or_initial env en (st_partitions (en_state en)) scope)) d)"
  by (auto simp: settled_def entry_or_initial_def)

text \<open>A lifecycle operation on the partition itself.\<close>

lemma own_lifecycle_settled:
  assumes ok: "engine_ok env en" and x: "lifecycle_exec env op en = (Inr v, en')" and s: "op_scope op = Some scope"
    and old: "settled en scope n ds" and ds: "forgets_decisions scope (HostOp op) \<longrightarrow> ds = {}"
    and n: "replaces_state scope (HostOp op) \<longrightarrow> n = 0"
  shows "settled en' scope n ds"
proof -
  note e = settled_entry [OF old, of env]
  have restored: "settled en' scope n ds" if "restore_partition_snapshot env en scope snap = (Inr (), en')" "n = 0" for snap
    using restore_partition_ok [OF ok that(1)] e that(2) by (auto simp: settled_insert)
  show ?thesis
  proof (cases op)
    case (OpRestorePartition sc snap)
    then show ?thesis using x s n by (intro restored [of snap]) (auto simp: no_value_cases)
  next
    case (OpStage sc snap)
    then have "stage_candidate_for_scope env en scope snap = (Inr (), en')" using x s by (simp add: no_value_cases)
    from stage_candidate_ok [OF ok this] e show ?thesis by (auto simp: settled_insert)
  next
    case (OpPromote sc)
    then obtain g where "promote_candidate_for_scope env en scope = (Inr g, en')" using x s by (auto simp: some_value_cases)
    from promote_ok [OF ok this] OpPromote s ds n show ?thesis by (auto simp: settled_insert)
  next
    case (OpRollback sc)
    then obtain g where "rollback_previous_good_for_scope env en scope = (Inr g, en')"
      using x s by (auto simp: some_value_cases)
    from rollback_ok [OF ok this] OpRollback s ds n show ?thesis by (auto simp: settled_insert)
  next
    case (OpMigrate sc snap mig)
    then obtain snap' where "restore_partition_snapshot env en scope snap' = (Inr (), en')"
      using migrate_Inr [of env en scope snap mig "()" en'] x s by (auto simp: no_value_cases)
    then show ?thesis using OpMigrate s n by (intro restored [of snap']) auto
  qed (use s in simp)
qed

lemma lifecycle_settled:
  assumes ok: "engine_ok env en" and old: "settled en scope n ds"
    and ds: "forgets_decisions scope (HostOp op) \<longrightarrow> ds = {}" and n: "replaces_state scope (HostOp op) \<longrightarrow> n = 0"
    and keeps: "\<forall>s. op \<noteq> OpRestoreRuntime s"
  shows "settled (snd (lifecycle_exec env op en)) scope n ds"
proof -
  obtain x en' where x: "lifecycle_exec env op en = (x, en')" by fastforce
  show ?thesis
  proof (cases x)
    case (Inl err)
    then show ?thesis using x lifecycle_atomic [of env op en err en'] old by simp
  next
    case (Inr v)
    obtain sc where sc: "op_scope op = Some sc" using keeps by (cases op) auto
    show ?thesis
    proof (cases "sc = scope")
      case True
      then show ?thesis using own_lifecycle_settled [OF ok x [unfolded Inr] _ old ds n] sc x by simp
    next
      case False
      then show ?thesis using lifecycle_installs [OF ok x [unfolded Inr] sc] old x by (auto simp: settled_def)
    qed
  qed
qed

definition spared :: "partition_scope \<Rightarrow> nat \<Rightarrow> string set \<Rightarrow> host_step \<Rightarrow> bool" where
  "spared scope n ds x \<longleftrightarrow> (\<forall>s. x \<noteq> HostOp (OpRestoreRuntime s)) \<and> (forgets_decisions scope x \<longrightarrow> ds = {})
     \<and> (replaces_state scope x \<longrightarrow> n = 0)"

lemma spared_decisions: "\<not> forgets_decisions scope x \<Longrightarrow> spared scope 0 ds x"
  by (auto simp: spared_def)

lemma spared_state: "\<not> replaces_state scope x \<Longrightarrow> spared scope n {} x"
  by (auto simp: spared_def)

lemma host_ok: "engine_ok env en \<Longrightarrow> engine_ok env (host_exec env x en)"
  by (cases x) (simp_all add: request_reach_ok lifecycle.exec_inv)

lemma host_settled:
  assumes "engine_ok env en" "settled en scope n ds" "\<forall>x \<in> set steps. spared scope n ds x"
  shows "engine_ok env (run_host env steps en) \<and> settled (run_host env steps en) scope n ds"
  using assms
proof (induction steps arbitrary: en)
  case (Cons x steps)
  have x: "spared scope n ds x" using Cons.prems(3) by simp
  have "settled (host_exec env x en) scope n ds"
  proof (cases x)
    case (HostRequest e now)
    obtain r en' where h: "handle_at env en e now = (r, en')" by fastforce
    then show ?thesis
      using effect_settled [OF handle_at_effect [OF Cons.prems(1) h] Cons.prems(2)] x HostRequest by (simp add: spared_def)
  next
    case (HostOp op)
    then show ?thesis using lifecycle_settled [OF Cons.prems(1,2)] x by (simp add: spared_def)
  next
    case HostPanic
    then show ?thesis using Cons.prems(2) by (simp add: settled_def)
  qed
  then show ?case using Cons.IH [of "host_exec env x en"] Cons.prems host_ok by (simp add: run_host_def)
qed (simp add: run_host_def)

definition is_error :: "response_v3 \<Rightarrow> bool" where
  "is_error r = (case rsp_response r of RError _ \<Rightarrow> True | _ \<Rightarrow> False)"

lemma is_error_iff: "is_error r \<longleftrightarrow> (\<exists>err. rsp_response r = RError err)"
  by (auto simp: is_error_def split: response_body_v3.splits)

definition stateful_request :: "runtime_request \<Rightarrow> bool" where
  "stateful_request req \<longleftrightarrow> req \<notin> {Handshake, Health, Snapshot}"

lemma accepted_step:
  assumes ok: "engine_ok env en" and h: "handle_at env en e now = (r, en')"
    and acc: "\<not> is_error r" and req: "stateful_request (env_request e)"
  obtains p' where "partition_step env en e now
      (entry_or_initial env en (st_partitions (en_state en)) (envelope_scope e)) (rsp_response r) p'"
    "rsp_state_generation r = ss_generation (ps_snapshot p')"
    "en' = en\<lparr>en_state := (en_state en)\<lparr>
       st_partitions := bt_insert (envelope_scope e) p' (st_partitions (en_state en))\<rparr>\<rparr>"
  using handle_at_effect [OF ok h] acc req that
  by cases (auto simp: is_error_iff stateful_request_def)

section \<open>A concrete host\<close>

text \<open>
  An instance of the parameters, for evaluation: every text counts as JSON, a document is encoded as
  its method name, and the handler traps on observations and otherwise extends its state and
  selects the action \<open>a1\<close>.
\<close>

definition demo_env :: runtime_env where
  "demo_env = \<lparr>re_sha256 = (\<lambda>s. s), re_hex = (\<lambda>s. s), re_is_json = (\<lambda>s. s \<noteq> []),
     re_encode_json = (\<lambda>j. case json_get j ''method'' of Some (JString m) \<Rightarrow> Some m | _ \<Rightarrow> Some ''{}''),
     re_encode_envelope = (\<lambda>e. Some ''{}''), re_decode_envelope = (\<lambda>s. None),
     re_encode_snapshot = (\<lambda>s. Some ''{}''), re_checksum_input = (\<lambda>v ps. ''partitions''),
     re_handler = (\<lambda>event state seed. if event = ''observe'' then Inl (handler_error_new KTrap)
       else Inr \<lparr>hr_output = json_object [(''selectedActionId'', JString ''a1'')], hr_next_state = state @ ''+''\<rparr>)\<rparr>"

definition demo_metadata :: handler_metadata where
  "demo_metadata = \<lparr>hm_id = ''demo'', hm_version = ''1'', hm_api_version = 2,
     hm_capabilities = [''choose''], hm_state_schema_version = 1\<rparr>"

definition demo_config :: runtime_config where
  "demo_config = runtime_config_new \<lparr>id_name = ''rill'', id_version = ''2''\<rparr> 5
     (replicate 64 (CHR ''0'')) [''choose''] ''s0''"

definition demo_envelope :: "string \<Rightarrow> u64 \<Rightarrow> runtime_request \<Rightarrow> envelope_v3" where
  "demo_envelope rid gen req = \<lparr>env_request_id = rid, env_api_version = 3,
     env_client_identity = \<lparr>id_name = ''client'', id_version = ''1''\<rparr>, env_partition_key = ''p'',
     env_capability = Some ''choose'', env_deadline_unix_ms = None,
     env_feature_schema_hash = Some (replicate 64 (CHR ''0'')), env_model_generation = 5,
     env_state_generation = gen, env_payload_limit = 100, env_request = req\<rparr>"

definition demo_decide :: envelope_v3 where
  "demo_decide = demo_envelope ''d1'' 0 (Decide JNull None)"

definition demo_feedback :: envelope_v3 where
  "demo_feedback = demo_envelope ''f1'' 1 (Feedback ''d1'' ''a1'' 1 20 5)"

definition demo_scope :: partition_scope where
  "demo_scope = Scope ''client'' ''p''"

definition demo_engine :: engine where
  "demo_engine = projr (engine_new demo_env demo_config demo_metadata)"

definition after :: "engine \<Rightarrow> envelope_v3 \<Rightarrow> engine" where
  "after en e = snd (handle_at demo_env en e 10)"

definition demo_decided :: engine where "demo_decided = after demo_engine demo_decide"
definition demo_settled :: engine where "demo_settled = after demo_decided demo_feedback"

lemma demo_accepts:
  "\<not> is_err (engine_new demo_env demo_config demo_metadata)"
  "\<not> is_error (fst (handle_at demo_env demo_engine demo_decide 10))"
  "\<not> is_error (fst (handle_at demo_env demo_decided demo_feedback 10))"
  by code_simp+

lemma demo_engine_new: "engine_new demo_env demo_config demo_metadata = Inr demo_engine"
  using demo_accepts(1) by (auto simp: demo_engine_def not_is_err_iff)

lemma after_eq: "handle_at demo_env en e 10 = (fst (handle_at demo_env en e 10), after en e)"
  by (simp add: after_def)

lemma demo_reach:
  "runtime_reach demo_env demo_config demo_metadata allowed demo_engine"
  "runtime_reach demo_env demo_config demo_metadata allowed demo_decided"
  "runtime_reach demo_env demo_config demo_metadata allowed demo_settled"
proof -
  show 0: "runtime_reach demo_env demo_config demo_metadata allowed demo_engine"
    by (rule reach_new [OF demo_engine_new])
  show 1: "runtime_reach demo_env demo_config demo_metadata allowed demo_decided"
    unfolding demo_decided_def by (rule reach_request [OF 0 after_eq])
  show "runtime_reach demo_env demo_config demo_metadata allowed demo_settled"
    unfolding demo_settled_def by (rule reach_request [OF 1 after_eq])
qed

section \<open>Properties\<close>






text \<open>
  C12: a runtime that was never given a snapshot out of scope order can always be saved and
  restored: \<open>snapshot_runtime\<close> succeeds once a partition exists, the result passes validation, and
  \<open>restore_runtime\<close> into a new engine of the same configuration brings back every partition with its
  state, previous-good copy, candidate and decisions.
\<close>

theorem snapshot_restores_runtime:
  assumes reach: "runtime_reach env c m in_scope_order en" and lock: "\<not> en_poisoned en"
    and some: "st_partitions (en_state en) \<noteq> bt_empty" and fresh: "engine_new env c m = Inr fresh"
  shows "\<exists>s en'. snapshot_runtime env en = Inr s \<and> restore_runtime env fresh s = (Inr (), en')
    \<and> st_partitions (en_state en') = st_partitions (en_state en)"
proof -
  let ?ps = "st_partitions (en_state en)" and ?s = "snapshot_for_partitions env (st_partitions (en_state en))"
  have ok: "engine_ok env en" "en_config en = c" "en_metadata en = m" using reach_ok [OF reach] by auto
  have fr: "en_config fresh = c" "en_metadata fresh = m" "\<not> en_poisoned fresh"
    using engine_new_ok [OF fresh] by auto
  have z: "validate_runtime_snapshot_size env (rc_resource_profile c) ?s = Inr ()"
    using reach_within [OF reach] some by (simp add: within_limits_def validate_partition_map_def)
  have "bt_entries ?ps \<noteq> []" using some by (metis bt_entries_empty bt_entries_inject)
  then have v: "runtime_snapshot_validate env ?s (hm_state_schema_version m) = Inr ()"
    using ok by (simp add: snapshot_valid_iff engine_ok_def schema_version_def)
  have "\<forall>p \<in> set (rs_partitions ?s). validate_partition_resources (rc_resource_profile c) p = Inr ()"
    using z by (simp add: size_Inr limits_ok_def)
  then obtain ps' where f: "try_fold (restore_step (rc_resource_profile c)) bt_empty (rs_partitions ?s) = Inr ps'"
    using restore_fold_total by blast
  then have "\<exists>en'. restore_runtime env fresh ?s = (Inr (), en')"
    using v z fr by (simp add: restore_runtime_def commit_def lock_state_def en_profile_def schema_version_def)
  then obtain en' where r: "restore_runtime env fresh ?s = (Inr (), en')" by blast
  then have "mset (map entry_snapshot (bt_entries (st_partitions (en_state en')))) = mset (rs_partitions ?s)"
    using restore_runtime_ok [OF r] by auto
  then have "st_partitions (en_state en') = ?ps"
    unfolding snapshot_for_partitions_eq by (rule entries_inject)
  moreover have "snapshot_runtime env en = Inr ?s"
    using lock z ok by (simp add: snapshot_runtime_def lock_state_def en_profile_def Let_def)
  ultimately show ?thesis using r by blast
qed

theorem snapshot_restores_runtime_witness:
  "\<exists>s en'. snapshot_runtime demo_env demo_settled = Inr s \<and> restore_runtime demo_env demo_engine s = (Inr (), en')
    \<and> st_partitions (en_state en') = st_partitions (en_state demo_settled)"
  by (rule snapshot_restores_runtime [OF demo_reach(3) _ _ demo_engine_new]) code_simp+

text \<open>
  C10: fail closed. A request that is answered with an error leaves every partition, the restart
  count and the lock as they were, the partition it would have created included; it can only
  record its message as the last error.
\<close>

theorem failed_request_keeps_state:
  assumes "runtime_reach env c m allowed en" and "handle_at env en e now = (r, en')" and "is_error r"
  shows "en' = en \<or> (\<exists>msg. en' = en\<lparr>en_state := (en_state en)\<lparr>st_last_error := Some msg\<rparr>\<rparr>)"
proof -
  have "engine_ok env en" using reach_ok [OF assms(1)] by simp
  from handle_at_effect [OF this assms(2)] show ?thesis
  proof cases
    case (committed p')
    then show ?thesis
      using assms(3) by (auto simp: is_error_iff partition_step_def split: if_splits)
  qed blast+
qed

theorem failed_request_keeps_state_witness:
  "after demo_decided demo_decide = demo_decided
    \<or> (\<exists>msg. after demo_decided demo_decide
        = demo_decided\<lparr>en_state := (en_state demo_decided)\<lparr>st_last_error := Some msg\<rparr>\<rparr>)"
  by (rule failed_request_keeps_state [OF demo_reach(2) after_eq]) code_simp

text \<open>
  An accepted observation, decision, feedback, inspection or reset was sent for the current
  state generation of its partition, moves that generation up by exactly one without wrapping,
  reports the new one, keeps the replaced state as the previous-good copy (a reset keeps the
  copy it had) and leaves every other partition, the restart count and the last error alone.
\<close>

theorem accepted_request_advances:
  assumes "runtime_reach env c m allowed en" and "handle_at env en e now = (r, en')"
    and "\<not> is_error r" and "stateful_request (env_request e)"
  shows "\<exists>p'. let p = entry_or_initial env en (st_partitions (en_state en)) (envelope_scope e) in
      env_state_generation e = ss_generation (ps_snapshot p)
    \<and> en' = en\<lparr>en_state := (en_state en)\<lparr>
        st_partitions := bt_insert (envelope_scope e) p' (st_partitions (en_state en))\<rparr>\<rparr>
    \<and> rsp_state_generation r = ss_generation (ps_snapshot p')
    \<and> unat (ss_generation (ps_snapshot p')) = unat (ss_generation (ps_snapshot p)) + 1
    \<and> ps_previous_good p' = (if resets e (envelope_scope e) then ps_previous_good p else Some (ps_snapshot p))
    \<and> ps_candidate p' = ps_candidate p"
proof -
  have "engine_ok env en" using reach_ok [OF assms(1)] by simp
  from accepted_step [OF this assms(2-4)] obtain p' where p': "partition_step env en e now
      (entry_or_initial env en (st_partitions (en_state en)) (envelope_scope e)) (rsp_response r) p'"
    and rest: "rsp_state_generation r = ss_generation (ps_snapshot p')"
      "en' = en\<lparr>en_state := (en_state en)\<lparr>
        st_partitions := bt_insert (envelope_scope e) p' (st_partitions (en_state en))\<rparr>\<rparr>"
    by blast
  show ?thesis
    unfolding Let_def
    by (intro exI [of _ p'] conjI rest partition_step_settled(1) [OF p'])
      (use p' in \<open>auto simp: partition_step_def resets_def split: if_splits\<close>)
qed

theorem accepted_request_advances_witness:
  "\<exists>p'. let p = entry_or_initial demo_env demo_decided (st_partitions (en_state demo_decided)) (envelope_scope demo_feedback) in
      env_state_generation demo_feedback = ss_generation (ps_snapshot p)
    \<and> after demo_decided demo_feedback = demo_decided\<lparr>en_state := (en_state demo_decided)\<lparr>
        st_partitions := bt_insert (envelope_scope demo_feedback) p' (st_partitions (en_state demo_decided))\<rparr>\<rparr>
    \<and> rsp_state_generation (fst (handle_at demo_env demo_decided demo_feedback 10)) = ss_generation (ps_snapshot p')
    \<and> unat (ss_generation (ps_snapshot p')) = unat (ss_generation (ps_snapshot p)) + 1
    \<and> ps_previous_good p' = (if resets demo_feedback (envelope_scope demo_feedback)
        then ps_previous_good p else Some (ps_snapshot p))
    \<and> ps_candidate p' = ps_candidate p"
  by (rule accepted_request_advances [OF demo_reach(2) after_eq demo_accepts(3)])
    (simp add: demo_feedback_def demo_envelope_def stateful_request_def)

text \<open>
  C9: optimistic concurrency. Once a request for a state generation is accepted, no later stateful
  request to the same partition that carries the same generation is accepted, whatever requests, lifecycle
  operations and panics come in between, as long as none of them replaces the active state of that partition
  by an older one (a restore, migration, promotion or rollback of it, or a restore of the whole runtime): of two
  callers that act on the same state, one is rejected.
\<close>

theorem stale_generation_rejected:
  assumes "runtime_reach env c m allowed en" and "handle_at env en e now = (r, en')"
    and "\<not> is_error r" and "stateful_request (env_request e)"
    and "envelope_scope e2 = envelope_scope e" and "env_state_generation e2 = env_state_generation e"
    and "stateful_request (env_request e2)"
    and "\<forall>x \<in> set steps. \<not> replaces_state (envelope_scope e) x"
  shows "is_error (fst (handle_at env (run_host env steps en') e2 now2))"
proof (rule ccontr)
  have ok: "engine_ok env en" using reach_ok [OF assms(1)] by simp
  from accepted_step [OF ok assms(2-4)] obtain p' where p': "partition_step env en e now
      (entry_or_initial env en (st_partitions (en_state en)) (envelope_scope e)) (rsp_response r) p'"
    and en': "en' = en\<lparr>en_state := (en_state en)\<lparr>
        st_partitions := bt_insert (envelope_scope e) p' (st_partitions (en_state en))\<rparr>\<rparr>"
    by blast
  let ?n = "unat (env_state_generation e) + 1"
  have "unat (ss_generation (ps_snapshot p')) = ?n"
    using partition_step_settled(1) [OF p'] p' by (simp add: partition_step_def)
  then have "settled en' (envelope_scope e) ?n {}" by (simp add: settled_def en')
  moreover have "engine_ok env en'" using request_reach_ok [OF ok, of e now] assms(2) by simp
  ultimately have s: "engine_ok env (run_host env steps en')" "settled (run_host env steps en') (envelope_scope e) ?n {}"
    using host_settled [of env en' "envelope_scope e" ?n "{}" steps] assms(8) spared_state by blast+
  assume "\<not> is_error (fst (handle_at env (run_host env steps en') e2 now2))"
  moreover obtain r2 en2 where h: "handle_at env (run_host env steps en') e2 now2 = (r2, en2)" by fastforce
  ultimately have "\<not> is_error r2" by simp
  from accepted_step [OF s(1) h this assms(7)] obtain p2 where "partition_step env (run_host env steps en') e2 now2
      (entry_or_initial env (run_host env steps en') (st_partitions (en_state (run_host env steps en')))
        (envelope_scope e2)) (rsp_response r2) p2"
    by blast
  then show False
    using s(2) assms(5,6) by (auto simp: partition_step_def settled_def entry_or_initial_def)
qed

theorem stale_generation_rejected_witness:
  "is_error (fst (handle_at demo_env (run_host demo_env
     [HostRequest demo_feedback 11, HostOp (OpStage demo_scope (state_snapshot_new demo_env 1 9 ''s9''))]
     (after demo_engine demo_decide))
     (demo_envelope ''d2'' 0 (Decide JNull None)) 12))"
  by (rule stale_generation_rejected [OF demo_reach(1) after_eq demo_accepts(2)])
    (simp_all add: demo_decide_def demo_envelope_def stateful_request_def envelope_scope_def)

text \<open>
  C8: feedback is applied once. After an accepted feedback for a decision, every later feedback for
  it in that partition is answered with an error, and every decision request that would reuse its
  id as well, whatever requests, lifecycle operations and panics come in between, as long as none of them
  forgets the decisions of the partition: a reset, promotion or rollback of it, or a restore of the whole
  runtime. Staging, restoring or migrating the partition does not re-open its decisions.
\<close>

theorem runtime_feedback_once:
  assumes "runtime_reach env c m allowed en" and "handle_at env en e now = (r, en')"
    and "\<not> is_error r" and "env_request e = Feedback d a rew t g"
    and "\<forall>x \<in> set steps. \<not> forgets_decisions (envelope_scope e) x"
    and "envelope_scope e2 = envelope_scope e"
    and "(\<exists>a2 rew2 t2 g2. env_request e2 = Feedback d a2 rew2 t2 g2)
      \<or> (\<exists>ctx seed. env_request e2 = Decide ctx seed) \<and> env_request_id e2 = d"
  shows "is_error (fst (handle_at env (run_host env steps en') e2 now2))"
proof (rule ccontr)
  have ok: "engine_ok env en" using reach_ok [OF assms(1)] by simp
  have st: "stateful_request (env_request e)" "stateful_request (env_request e2)"
    using assms(4,7) by (auto simp: stateful_request_def)
  let ?p = "entry_or_initial env en (st_partitions (en_state en)) (envelope_scope e)"
  from accepted_step [OF ok assms(2,3) st(1)] obtain p' where p': "partition_step env en e now ?p (rsp_response r) p'"
    and en': "en' = en\<lparr>en_state := (en_state en)\<lparr>
        st_partitions := bt_insert (envelope_scope e) p' (st_partitions (en_state en))\<rparr>\<rparr>"
    by blast
  have "partition_ok env (schema_version en) ?p"
    using ok entry_or_initial_ok by (simp add: engine_ok_def)
  then have keys: "keys_ok (ps_pending ?p)" by (simp add: partition_ok_def)
  have "\<exists>entry. bt_get (ps_pending ?p) d = Some entry"
    using p' assms(4) by (auto simp: partition_step_def check_partition_def check_feedback_def
        split: option.splits if_splits)
  then have "bt_contains (ps_completed p') d"
    using p' assms(4) keys_ok_get [OF keys] by (auto simp: partition_step_def) (metis bt_contains_simps(2))
  then have "settled en' (envelope_scope e) 0 {d}" by (simp add: settled_def en')
  moreover have "engine_ok env en'" using request_reach_ok [OF ok, of e now] assms(2) by simp
  ultimately have s: "engine_ok env (run_host env steps en')" "settled (run_host env steps en') (envelope_scope e) 0 {d}"
    using host_settled [of env en' "envelope_scope e" 0 "{d}" steps] assms(5) spared_decisions by blast+
  assume "\<not> is_error (fst (handle_at env (run_host env steps en') e2 now2))"
  moreover obtain r2 en2 where h: "handle_at env (run_host env steps en') e2 now2 = (r2, en2)" by fastforce
  ultimately have "\<not> is_error r2" by simp
  from accepted_step [OF s(1) h this st(2)] obtain p2 where "partition_step env (run_host env steps en') e2 now2
      (entry_or_initial env (run_host env steps en') (st_partitions (en_state (run_host env steps en')))
        (envelope_scope e2)) (rsp_response r2) p2"
    by blast
  then show False
    using s(2) assms(6,7)
    by (auto simp: partition_step_def settled_def entry_or_initial_def check_partition_def check_decide_def
        check_feedback_def split: if_splits)
qed

theorem runtime_feedback_once_witness:
  "is_error (fst (handle_at demo_env (run_host demo_env [HostRequest (demo_envelope ''d2'' 2 (Decide JNull None)) 11,
       HostOp (OpRestorePartition demo_scope (state_snapshot_new demo_env 1 3 ''s3''))]
     (after demo_decided demo_feedback)) (demo_envelope ''f2'' 3 (Feedback ''d1'' ''a1'' 1 30 5)) 12))"
  by (rule runtime_feedback_once [OF demo_reach(2) after_eq demo_accepts(3)])
    (simp_all add: demo_feedback_def demo_envelope_def resets_def envelope_scope_def)

lemma health_answer:
  assumes ok: "engine_ok env en" and h: "\<not> is_healthy en"
  shows "rsp_response (fst (handle_at env en e now)) \<noteq> RHealth True"
proof
  assume r: "rsp_response (fst (handle_at env en e now)) = RHealth True"
  obtain rs en' where x: "handle_at env en e now = (rs, en')" by fastforce
  from handle_at_effect [OF ok x] show False
  proof cases
    case answered
    then have "env_request e \<in> {Handshake, Health, Snapshot}" by simp
    then show False using r h
      by (auto simp: handle_at_def handle_stateful_def handle_opened_def Let_def split: sum.splits if_splits)
  next
    case (committed p')
    then show False using r x by (auto simp: partition_step_def split: if_splits)
  qed (use r x in simp_all)
qed

inductive host_steps :: "runtime_env \<Rightarrow> engine \<Rightarrow> engine \<Rightarrow> bool" for env where
  steps_refl: "host_steps env en en"
| steps_lifecycle: "host_steps env en en1 \<Longrightarrow> lifecycle_exec env op en1 = (x, en2) \<Longrightarrow> host_steps env en en2"
| steps_request: "host_steps env en en1 \<Longrightarrow> handle_at env en1 e now = (r, en2) \<Longrightarrow> host_steps env en en2"

lemma effect_keeps_error:
  "request_effect env en e now r en' \<Longrightarrow> st_last_error (en_state en) \<noteq> None \<Longrightarrow> st_last_error (en_state en') \<noteq> None"
  by (induction rule: request_effect.induct) simp_all

lemma lifecycle_keeps_error:
  assumes "engine_ok env en" "lifecycle_exec env op en = (x, en')"
  shows "st_last_error (en_state en') = st_last_error (en_state en)"
proof (cases x)
  case (Inl e)
  then show ?thesis using assms lifecycle_atomic by metis
next
  case (Inr v)
  note x = assms(2) [unfolded Inr]
  show ?thesis
  proof (cases "op_scope op")
    case None
    then obtain s where "restore_runtime env en s = (Inr (), en')"
      using x by (cases op) (auto simp: no_value_cases)
    from restore_runtime_ok [OF this] show ?thesis by auto
  next
    case (Some scope)
    from lifecycle_installs [OF assms(1) x Some] show ?thesis by auto
  qed
qed

lemma steps_keep_error:
  assumes "host_steps env en en'" "engine_ok env en" "st_last_error (en_state en) \<noteq> None"
  shows "engine_ok env en' \<and> st_last_error (en_state en') \<noteq> None"
  using assms
proof (induction rule: host_steps.induct)
  case (steps_lifecycle en en1 op x en2)
  then show ?case using lifecycle.exec_inv [of env en1 op] lifecycle_keeps_error by fastforce
next
  case (steps_request en en1 e now r en2)
  then have ok: "engine_ok env en1" "st_last_error (en_state en1) \<noteq> None" by auto
  show ?case
    using effect_keeps_error [OF handle_at_effect [OF ok(1) steps_request.hyps(2)] ok(2)]
      request_reach_ok [OF ok(1), of e now] steps_request.hyps(2) by simp
qed simp

text \<open>
  Once a handler failure is recorded the runtime stays failed closed: after any further requests
  and lifecycle operations \<open>is_healthy\<close> is false, a health request is never answered with healthy, and
  \<open>diagnostics_at\<close> never reports anything but \<open>FailedClosed\<close>.
\<close>

theorem failed_closed_is_sticky:
  assumes "runtime_reach env c m allowed en" and "st_last_error (en_state en) \<noteq> None"
    and "host_steps env en en'"
  shows "\<not> is_healthy en' \<and> rsp_response (fst (handle_at env en' e now)) \<noteq> RHealth True
    \<and> (\<forall>d. diagnostics_at env en' now = Inr d \<longrightarrow> rd_health d = FailedClosed)"
proof -
  have s: "engine_ok env en'" "st_last_error (en_state en') \<noteq> None"
    using steps_keep_error [OF assms(3)] reach_ok [OF assms(1)] assms(2) by auto
  then have "\<not> is_healthy en'" by (simp add: is_healthy_def)
  moreover have "rsp_response (fst (handle_at env en' e now)) \<noteq> RHealth True"
    by (rule health_answer [OF s(1)]) fact
  moreover have "\<forall>d. diagnostics_at env en' now = Inr d \<longrightarrow> rd_health d = FailedClosed"
    using s(2) by (auto simp: diagnostics_at_def Let_def and_then_Inr lock_Inr health_status_for_state_def)
  ultimately show ?thesis by blast
qed

definition demo_failed :: engine where
  "demo_failed = after demo_engine (demo_envelope ''o1'' 0 (Observe JNull))"

theorem failed_closed_is_sticky_witness:
  "\<not> is_healthy (after demo_failed demo_decide)
    \<and> rsp_response (fst (handle_at demo_env (after demo_failed demo_decide)
          ((demo_envelope ''h1'' 0 Health)\<lparr>env_capability := None\<rparr>) 11)) \<noteq> RHealth True
    \<and> map_option rd_health (case diagnostics_at demo_env (after demo_failed demo_decide) 11 of
          Inr d \<Rightarrow> Some d | Inl _ \<Rightarrow> None) = Some FailedClosed"
proof -
  have d: "\<not> is_err (diagnostics_at demo_env (after demo_failed demo_decide) 11)" by code_simp
  have 1: "runtime_reach demo_env demo_config demo_metadata (\<lambda>_. True) demo_failed"
    unfolding demo_failed_def by (rule reach_request [OF demo_reach(1) after_eq])
  have 2: "st_last_error (en_state demo_failed) \<noteq> None" by code_simp
  have 3: "host_steps demo_env demo_failed (after demo_failed demo_decide)"
    by (rule steps_request [OF steps_refl after_eq])
  show ?thesis
    using failed_closed_is_sticky [OF 1 2 3, where now = 11] d by (auto simp: not_is_err_iff)
qed

text \<open>
  A promotion can be undone, and so can the rollback: when the rollback after a successful
  promotion succeeds, the partition is back at the state it had before the promotion, with the
  promoted candidate as its previous-good copy; when a second rollback succeeds, the promoted
  candidate is active again. Each of them reports the generation of the state it activates.
\<close>

theorem rollback_undoes_promotion:
  assumes "runtime_reach env c m allowed en"
    and "promote_candidate_for_scope env en scope = (Inr g1, en1)"
    and "rollback_previous_good_for_scope env en1 scope = (Inr g2, en2)"
    and "rollback_previous_good_for_scope env en2 scope = (Inr g3, en3)"
  shows "snapshot_for_scope env en2 scope = snapshot_for_scope env en scope
    \<and> snapshot_for_scope env en3 scope = snapshot_for_scope env en1 scope
    \<and> (\<exists>p cand. bt_get (st_partitions (en_state en)) scope = Some p \<and> ps_candidate p = Some cand
        \<and> snapshot_for_scope env en1 scope = Inr cand
        \<and> g1 = ss_generation cand \<and> g2 = ss_generation (ps_snapshot p) \<and> g3 = g1)"
proof -
  have ok: "engine_ok env en" using reach_ok [OF assms(1)] by simp
  obtain p cand where p: "bt_get (st_partitions (en_state en)) scope = Some p" "ps_candidate p = Some cand"
    and 1: "g1 = ss_generation cand" "en1 = en\<lparr>en_state := (en_state en)\<lparr>
        st_partitions := bt_insert scope (promoted p cand) (st_partitions (en_state en))\<rparr>\<rparr>"
    using promote_ok [OF ok assms(2)] by blast
  have lock: "\<not> en_poisoned en"
    using assms(2) by (auto simp: promote_candidate_for_scope_def commit_Inr and_then_Inr lock_Inr)
  have "engine_ok env en1"
    using lifecycle.exec_inv [OF ok, of "OpPromote scope"] assms(2) by simp
  then obtain en2': "en2 = en1\<lparr>en_state := (en_state en1)\<lparr>
        st_partitions := bt_insert scope (rolled_back (promoted p cand) (ps_snapshot p)) (st_partitions (en_state en1))\<rparr>\<rparr>"
    and 2: "g2 = ss_generation (ps_snapshot p)"
    using rollback_ok [of env en1 scope, OF _ assms(3)] 1 by (auto simp: promoted_def)
  have "engine_ok env en2"
    using lifecycle.exec_inv [OF \<open>engine_ok env en1\<close>, of "OpRollback scope"] assms(3) by simp
  from rollback_ok [OF this assms(4)] obtain q prev where q: "bt_get (st_partitions (en_state en2)) scope = Some q"
      "ps_previous_good q = Some prev" "g3 = ss_generation prev"
    and en3: "en3 = en2\<lparr>en_state := (en_state en2)\<lparr>
        st_partitions := bt_insert scope (rolled_back q prev) (st_partitions (en_state en2))\<rparr>\<rparr>" by blast
  have qe: "q = rolled_back (promoted p cand) (ps_snapshot p)" using q(1) en2' by simp
  then have "prev = cand" using q(2) by (simp add: rolled_back_def promoted_def)
  then show ?thesis
    using p 1 2 q(3) en2' en3 lock unfolding qe
    by (simp add: snapshot_for_scope_def lock_state_def entry_or_initial_def promoted_def rolled_back_def)
qed

definition demo_staged :: engine where
  "demo_staged = snd (stage_candidate_for_scope demo_env demo_settled demo_scope (state_snapshot_new demo_env 1 9 ''s9''))"

definition demo_promoted :: engine where
  "demo_promoted = snd (promote_candidate_for_scope demo_env demo_staged demo_scope)"

definition demo_rolled_back :: engine where
  "demo_rolled_back = snd (rollback_previous_good_for_scope demo_env demo_promoted demo_scope)"

theorem rollback_undoes_promotion_witness:
  "snapshot_for_scope demo_env demo_rolled_back demo_scope = snapshot_for_scope demo_env demo_staged demo_scope"
proof -
  have "fst (promote_candidate_for_scope demo_env demo_staged demo_scope) = Inr 9"
    "fst (rollback_previous_good_for_scope demo_env demo_promoted demo_scope) = Inr 2"
    "fst (rollback_previous_good_for_scope demo_env demo_rolled_back demo_scope) = Inr 9"
    by code_simp+
  then have "promote_candidate_for_scope demo_env demo_staged demo_scope = (Inr 9, demo_promoted)"
    "rollback_previous_good_for_scope demo_env demo_promoted demo_scope = (Inr 2, demo_rolled_back)"
    "rollback_previous_good_for_scope demo_env demo_rolled_back demo_scope
       = (Inr 9, snd (rollback_previous_good_for_scope demo_env demo_rolled_back demo_scope))"
    by (simp_all add: prod_eq_iff demo_promoted_def demo_rolled_back_def)
  moreover have "lifecycle_exec demo_env (OpStage demo_scope (state_snapshot_new demo_env 1 9 ''s9'')) demo_settled
      = (fst (lifecycle_exec demo_env (OpStage demo_scope (state_snapshot_new demo_env 1 9 ''s9'')) demo_settled), demo_staged)"
    by (cases "stage_candidate_for_scope demo_env demo_settled demo_scope (state_snapshot_new demo_env 1 9 ''s9'')" rule: no_value.cases)
      (simp_all add: demo_staged_def)
  from reach_lifecycle [OF demo_reach(3) this, of "\<lambda>_. True"]
  have "runtime_reach demo_env demo_config demo_metadata (\<lambda>_. True) demo_staged" by simp
  ultimately show ?thesis using rollback_undoes_promotion by blast
qed

text \<open>
  The detail of a handler error is the longest prefix of the given text of at most 4096 bytes
  that ends on a character boundary, the text itself when it fits.
\<close>

theorem detail_truncated:
  "\<exists>d. he_detail (with_detail k s) = Some d \<and> he_kind (with_detail k s) = k
    \<and> length d \<le> max_handler_detail_bytes_v2 \<and> d = take (length d) s \<and> is_char_boundary s (length d)
    \<and> (\<forall>i \<le> length s. i \<le> max_handler_detail_bytes_v2 \<and> is_char_boundary s i \<longrightarrow> i \<le> length d)"
proof (cases "length s > max_handler_detail_bytes_v2")
  case True
  let ?n = "boundary_below s max_handler_detail_bytes_v2"
  have n: "?n \<le> max_handler_detail_bytes_v2" "?n \<le> length s"
    using boundary_below_facts(1) [of s max_handler_detail_bytes_v2] True by simp_all
  moreover have "is_char_boundary s ?n" using True by (intro boundary_below_facts(2)) simp
  ultimately show ?thesis
    using True boundary_below_max [of _ max_handler_detail_bytes_v2 s] by (auto simp: with_detail_def min_def)
next
  case False
  then show ?thesis by (simp add: with_detail_def is_char_boundary_def)
qed

theorem detail_truncated_witness:
  "the (he_detail (with_detail KTrap (replicate 4097 (CHR ''a'')))) = replicate 4096 (CHR ''a'')"
proof -
  have b: "is_char_boundary (replicate 4097 (CHR ''a'')) 4096"
    by (simp add: is_char_boundary_def)
  from detail_truncated [of KTrap "replicate 4097 (CHR ''a'')"] obtain d where
    d: "he_detail (with_detail KTrap (replicate 4097 (CHR ''a''))) = Some d"
      "length d \<le> max_handler_detail_bytes_v2" "d = take (length d) (replicate 4097 (CHR ''a''))"
    and m: "\<forall>i \<le> length (replicate 4097 (CHR ''a'')). i \<le> max_handler_detail_bytes_v2
      \<and> is_char_boundary (replicate 4097 (CHR ''a'')) i \<longrightarrow> i \<le> length d"
    by blast
  have "4096 \<le> length d" using m b by (simp add: max_handler_detail_bytes_v2_def)
  then have "length d = 4096" using d(2) by (simp add: max_handler_detail_bytes_v2_def)
  then show ?thesis using d(1,3) by (simp add: take_replicate)
qed

text \<open>
  The preview surface agrees with the frozen one: same request id, generations and engine; a
  result carries the decision id and generation exactly when the request was a decision; an error
  keeps its message and carries the canonical retryability of its preview code; an internal error
  of an exhausted limit is reported as \<open>CapacityExceeded\<close>.
\<close>

theorem preview_agrees:
  assumes "handle_at env en e now = (r, en')" and "handle_preview_at env en e now = (v, en2)"
  shows "en2 = en' \<and> prv_request_id v = rsp_request_id r
    \<and> prv_state_generation v = rsp_state_generation r \<and> prv_model_generation v = rsp_model_generation r
    \<and> (\<forall>out. rsp_response r = RResult out \<longrightarrow> prv_response v = PResult out
          (if is_decide (env_request e) then Some (rsp_request_id r) else None)
          (if is_decide (env_request e) then Some (rsp_state_generation r) else None))
    \<and> (is_error r \<longleftrightarrow> (\<exists>p. prv_response v = PError p))
    \<and> (\<forall>err p. rsp_response r = RError err \<and> prv_response v = PError p \<longrightarrow>
          perr_message p = err_message err \<and> perr_retryable p = preview_is_retryable (perr_code p)
          \<and> (err_message err = ''pending decision capacity is exhausted'' \<longrightarrow> perr_code p = PvCapacityExceeded))"
proof -
  have v: "v = \<lparr>prv_request_id = rsp_request_id r, prv_api_version = rsp_api_version r,
        prv_runtime_identity = rsp_runtime_identity r, prv_model_generation = rsp_model_generation r,
        prv_state_generation = rsp_state_generation r,
        prv_response = preview_body en' (is_decide (env_request e)) r (rsp_response r)\<rparr>" "en2 = en'"
    using assms by (auto simp: handle_preview_at_def)
  show ?thesis
    unfolding v by (cases "rsp_response r") (auto simp: preview_error_def preview_error_code_def is_error_def)
qed

theorem preview_agrees_witness:
  "snd (handle_preview_at demo_env demo_decided demo_feedback 10) = after demo_decided demo_feedback"
  using preview_agrees [OF after_eq surjective_pairing, of demo_decided demo_feedback] by simp

end
