(* ===== verification/F64_Step.thy ===== *)
theory F64_Step imports F64 begin

text \<open>
  What rounding cannot break: a step from one double towards another by at most half of their
  rounded difference stays between the two. The running mean, the variance and the markers of the
  quantile estimator rest on it.
\<close>

section \<open>Differences of doubles\<close>

lemma rnd_on_grid: "\<exists>k. rnd x = of_int k * 2 powi (- 1074)"
proof -
  obtain m e where me: "- 1074 \<le> e" "rnd x = of_int m * 2 powi e" using rnd_eq_0_or_grid by blast
  then have "rnd x = of_int (m * 2 ^ nat (e + 1074)) * 2 powi (- 1074)"
    using powi_on_grid [of "- 1074" e] by (simp add: mult.assoc)
  then show ?thesis by blast
qed

text \<open>The difference of two doubles is zero or at least the least positive double.\<close>

lemma rep_diff_ge:
  assumes "rnd a = a" "rnd b = b" "a < b"
  shows "2 powi (- 1074) \<le> b - a"
proof -
  obtain i j where i: "a = of_int i * 2 powi (- 1074)" and j: "b = of_int j * 2 powi (- 1074)"
    using rnd_on_grid [of a] rnd_on_grid [of b] assms(1,2) by auto
  have d: "b - a = of_int (j - i) * 2 powi (- 1074)" by (simp add: i j left_diff_distrib)
  then have "0 < (of_int (j - i) :: rat)" using assms(3) by (simp add: zero_less_mult_iff)
  then have "1 \<le> (of_int (j - i) :: rat)" by (simp only: of_int_0_less_iff of_int_1_le_iff)
  then show ?thesis unfolding d by (simp add: mult_le_cancel_right1)
qed

text \<open>
  A rounded difference divided by at least two does not exceed the exact difference: between the
  two lies a power of two, which is a double.
\<close>

lemma rnd_half_step:
  assumes "2 powi (- 1074) \<le> x" "2 \<le> n"
  shows "0 \<le> rnd (rnd x / n) \<and> rnd (rnd x / n) \<le> x"
proof -
  have x: "0 < x" using assms(1) powi_pos less_le_trans by blast
  let ?y = "2 powi (ilog2 x) :: rat"
  have e: "- 1074 \<le> ilog2 x" using ilog2_ge assms(1) .
  have y: "?y \<le> x" "x \<le> 2 * ?y"
    using ilog2_bounds [OF x] by (simp_all add: powi_split)
  have r: "rnd ?y = ?y" "rnd (2 * ?y) = 2 * ?y"
    using rnd_representable [of 1 "ilog2 x"] rnd_representable [of 2 "ilog2 x"] e by simp_all
  have rx: "0 \<le> rnd x" "rnd x \<le> 2 * ?y" using rnd_pos x rnd_upper [OF r(2) y(2)] by simp_all
  then have "rnd x / n \<le> 2 * ?y / 2" using assms(2) by (intro frac_le) simp_all
  then have "rnd (rnd x / n) \<le> ?y" using rnd_upper [OF r(1)] by simp
  moreover have "0 \<le> rnd (rnd x / n)" using rx assms(2) by (intro rnd_pos) simp
  ultimately show ?thesis using y(1) by simp
qed

text \<open>A rounded step of at most half the way from \<open>a\<close> to \<open>b\<close> stays between them.\<close>

lemma rnd_step_up:
  assumes "rnd a = a" "rnd b = b" "a \<le> b" "2 \<le> n"
  shows "a \<le> rnd (a + rnd (rnd (b - a) / n)) \<and> rnd (a + rnd (rnd (b - a) / n)) \<le> b"
proof (cases "a = b")
  case False
  then have "2 powi (- 1074) \<le> b - a" using assms by (intro rep_diff_ge) simp_all
  from rnd_half_step [OF this assms(4)] show ?thesis
    using rnd_lower [OF assms(1)] rnd_upper [OF assms(2)] by simp
qed (use assms in simp)

lemma rnd_step_between:
  assumes "rnd a = a" "rnd b = b" "2 \<le> n"
  shows "min a b \<le> rnd (a + rnd (rnd (b - a) / n)) \<and> rnd (a + rnd (rnd (b - a) / n)) \<le> max a b"
proof (cases "a \<le> b")
  case True
  then show ?thesis using rnd_step_up [OF assms(1,2) True assms(3)] by simp
next
  case False
  have "rnd (- a) = - a" "rnd (- b) = - b" using assms by simp_all
  from rnd_step_up [OF this _ assms(3)] False
  have "- a \<le> rnd (- a + rnd (rnd (- b - - a) / n)) \<and> rnd (- a + rnd (rnd (- b - - a) / n)) \<le> - b" by simp
  moreover have "rnd (- a + rnd (rnd (- b - - a) / n)) = - rnd (a + rnd (rnd (b - a) / n))"
  proof -
    have "rnd (- b - - a) = - rnd (b - a)" by (metis minus_diff_eq rnd_uminus minus_diff_minus)
    then have "rnd (rnd (- b - - a) / n) = - rnd (rnd (b - a) / n)" by (metis minus_divide_left rnd_uminus)
    then show ?thesis by (metis minus_add_distrib rnd_uminus)
  qed
  ultimately show ?thesis using False by simp
qed

text \<open>The same on doubles: the incremental update of a mean.\<close>

lemma f_step_between:
  assumes fin: "is_finite (m + (v - m) / n)" and n: "is_finite n" "2 \<le> f_val n"
  shows "min (f_val m) (f_val v) \<le> f_val (m + (v - m) / n) \<and> f_val (m + (v - m) / n) \<le> max (f_val m) (f_val v)"
proof -
  have d: "is_finite ((v - m) / n)" using finite_plusD [OF fin] by simp
  then have "is_finite (v - m)" using finite_divideD n(1) by blast
  then have "f_val (m + (v - m) / n) = rnd (f_val m + rnd (rnd (f_val v - f_val m) / f_val n))"
    by (simp add: f_val_plus [OF fin] f_val_divide [OF d n(1)] f_val_minus)
  then show ?thesis using rnd_step_between [of "f_val m" "f_val v" "f_val n"] n(2) by simp
qed

lemma divide_one: "is_finite x \<Longrightarrow> is_finite (x / 1) \<and> f_val (x / 1) = f_val x"
  using finite_divide [of x 1] f_val_divide [of x 1] by simp

lemma f_of_u64_one [simp]: "f_of_u64 1 = 1"
  by code_simp

end
