(* ===== verification/Stats.thy ===== *)
theory Stats imports Rill_Error F64_Step F64_Text Machine begin

text \<open>
  The online statistics of \<open>src/stats\<close>: counter, sum, extrema, mean, Welford variance, exponentially
  weighted mean and the rolling windows. An \<open>update\<close> returns its result with the new state; every
  one of them computes the next fields first and stores them only when all checks passed. The trait
  \<open>OnlineStatistic\<close> is the locale \<open>online_statistic\<close>, interpreted on each of them.
\<close>

section \<open>Counter and sum\<close>

record count_stat =
  cs_count :: u64

definition count_new :: count_stat where "count_new = \<lparr>cs_count = 0\<rparr>"

definition count_update :: "f64 \<Rightarrow> count_stat \<Rightarrow> (rill_error + unit) \<times> count_stat" where
  "count_update v s = transact s
     (and_then (checked_increment (cs_count s) ''count sample'') (\<lambda>n. Inr (s\<lparr>cs_count := n\<rparr>)))"

definition count_reset :: "count_stat \<Rightarrow> count_stat" where
  "count_reset s = s\<lparr>cs_count := 0\<rparr>"

record sum_stat =
  su_sum :: f64
  su_count :: u64

definition sum_new :: sum_stat where "sum_new = \<lparr>su_sum = 0, su_count = 0\<rparr>"

definition sum_update :: "f64 \<Rightarrow> sum_stat \<Rightarrow> (rill_error + unit) \<times> sum_stat" where
  "sum_update v s = transact s
     (and_then (ensure_finite ''value'' v) (\<lambda>_.
      and_then (checked_finite_add (su_sum s) v ''sum'') (\<lambda>next_sum.
      and_then (checked_increment (su_count s) ''sum sample'') (\<lambda>n.
        Inr (s\<lparr>su_sum := next_sum, su_count := n\<rparr>)))))"

definition sum_reset :: "sum_stat \<Rightarrow> sum_stat" where
  "sum_reset s = s\<lparr>su_sum := 0, su_count := 0\<rparr>"

section \<open>Extrema\<close>

record extremum =
  ex_current :: "f64 option"
  ex_count :: u64

definition extremum_new :: extremum where "extremum_new = \<lparr>ex_current = None, ex_count = 0\<rparr>"

definition min_update :: "f64 \<Rightarrow> extremum \<Rightarrow> (rill_error + unit) \<times> extremum" where
  "min_update v s = transact s
     (and_then (ensure_finite ''value'' v) (\<lambda>_.
      and_then (checked_increment (ex_count s) ''minimum sample'') (\<lambda>n.
        Inr (s\<lparr>ex_current := Some (case ex_current s of None \<Rightarrow> v | Some c \<Rightarrow> f_min c v),
               ex_count := n\<rparr>))))"

definition max_update :: "f64 \<Rightarrow> extremum \<Rightarrow> (rill_error + unit) \<times> extremum" where
  "max_update v s = transact s
     (and_then (ensure_finite ''value'' v) (\<lambda>_.
      and_then (checked_increment (ex_count s) ''maximum sample'') (\<lambda>n.
        Inr (s\<lparr>ex_current := Some (case ex_current s of None \<Rightarrow> v | Some c \<Rightarrow> f_max c v),
               ex_count := n\<rparr>))))"

definition extremum_reset :: "extremum \<Rightarrow> extremum" where
  "extremum_reset s = s\<lparr>ex_current := None, ex_count := 0\<rparr>"

section \<open>Mean\<close>

record mean_stat =
  me_count :: u64
  me_mean :: f64

definition mean_new :: mean_stat where "mean_new = \<lparr>me_count = 0, me_mean = 0\<rparr>"

definition mean_validate_state :: "mean_stat \<Rightarrow> rill_error + unit" where
  "mean_validate_state s = ensure_finite ''mean'' (me_mean s)"

definition mean_update :: "f64 \<Rightarrow> mean_stat \<Rightarrow> (rill_error + unit) \<times> mean_stat" where
  "mean_update v s = transact s
     (and_then (ensure_finite ''value'' v) (\<lambda>_.
      and_then (checked_increment (me_count s) ''mean sample'') (\<lambda>n.
        let delta = v - me_mean s in
        and_then (ensure_finite ''mean delta'' delta) (\<lambda>_.
          let next_mean = me_mean s + delta / f_of_u64 n in
          and_then (ensure_finite ''mean'' next_mean) (\<lambda>_.
            Inr (s\<lparr>me_count := n, me_mean := next_mean\<rparr>))))))"

definition mean_reset :: "mean_stat \<Rightarrow> mean_stat" where
  "mean_reset s = s\<lparr>me_count := 0, me_mean := 0\<rparr>"

section \<open>Variance\<close>

datatype variance_kind = Population | Sample

fun denominator :: "variance_kind \<Rightarrow> u64 \<Rightarrow> u64 option" where
  "denominator Population n = (if n = 0 then None else Some n)"
| "denominator Sample n = (if n < 2 then None else Some (n - 1))"

record variance_stat =
  va_count :: u64
  va_mean :: f64
  va_m2 :: f64
  va_kind :: variance_kind

definition variance_new :: "variance_kind \<Rightarrow> variance_stat" where
  "variance_new k = \<lparr>va_count = 0, va_mean = 0, va_m2 = 0, va_kind = k\<rparr>"

definition variance_default :: variance_stat where
  "variance_default = variance_new Sample"

definition variance_value :: "variance_stat \<Rightarrow> f64 option" where
  "variance_value s = map_option (\<lambda>d. va_m2 s / f_of_u64 d) (denominator (va_kind s) (va_count s))"

definition variance_std_dev :: "variance_stat \<Rightarrow> f64 option" where
  "variance_std_dev s = map_option f_sqrt (variance_value s)"

definition variance_validate_state :: "variance_stat \<Rightarrow> rill_error + unit" where
  "variance_validate_state s =
     and_then (ensure_finite ''variance mean'' (va_mean s)) (\<lambda>_.
     and_then (ensure_finite ''variance m2'' (va_m2 s)) (\<lambda>_.
       if va_m2 s < 0
       then Inl (InvalidState (''variance m2 must be non-negative, got '' @ f64_to_string (va_m2 s)))
       else Inr ()))"

definition variance_update :: "f64 \<Rightarrow> variance_stat \<Rightarrow> (rill_error + unit) \<times> variance_stat" where
  "variance_update v s = transact s
     (and_then (ensure_finite ''value'' v) (\<lambda>_.
      and_then (checked_increment (va_count s) ''variance sample'') (\<lambda>next_count.
        let n = f_of_u64 next_count; delta = v - va_mean s in
        and_then (ensure_finite ''variance delta'' delta) (\<lambda>_.
          let next_mean = va_mean s + delta / n in
          and_then (ensure_finite ''variance mean'' next_mean) (\<lambda>_.
            let delta2 = v - next_mean in
            and_then (ensure_finite ''variance delta'' delta2) (\<lambda>_.
              let next_m2 = va_m2 s + delta * delta2 in
              and_then (ensure_finite ''variance M2'' next_m2) (\<lambda>_.
                Inr (s\<lparr>va_count := next_count, va_mean := next_mean, va_m2 := next_m2\<rparr>))))))))"

definition variance_reset :: "variance_stat \<Rightarrow> variance_stat" where
  "variance_reset s = s\<lparr>va_count := 0, va_mean := 0, va_m2 := 0\<rparr>"

section \<open>Exponentially weighted mean\<close>

record ew_mean_stat =
  ew_alpha :: f64
  ew_value :: f64
  ew_count :: u64

definition check_alpha :: "f64 \<Rightarrow> rill_error + unit" where
  "check_alpha a = ensure (\<not> (a \<le> 0 \<or> 1 < a)) (InvalidParameter ''alpha'' a)"

definition ew_mean_new :: "f64 \<Rightarrow> rill_error + ew_mean_stat" where
  "ew_mean_new alpha =
     and_then (ensure_finite ''alpha'' alpha) (\<lambda>_.
     and_then (check_alpha alpha) (\<lambda>_. Inr \<lparr>ew_alpha = alpha, ew_value = 0, ew_count = 0\<rparr>))"

definition ew_mean_validate_state :: "ew_mean_stat \<Rightarrow> rill_error + unit" where
  "ew_mean_validate_state s =
     and_then (ensure_finite ''alpha'' (ew_alpha s)) (\<lambda>_.
     and_then (ensure_finite ''ew mean'' (ew_value s)) (\<lambda>_. check_alpha (ew_alpha s)))"

definition ew_mean_update :: "f64 \<Rightarrow> ew_mean_stat \<Rightarrow> (rill_error + unit) \<times> ew_mean_stat" where
  "ew_mean_update v s = transact s
     (and_then (ensure_finite ''value'' v) (\<lambda>_.
      and_then (checked_increment (ew_count s) ''EW mean sample'') (\<lambda>n.
        let next_mean = (if ew_count s = 0 then v
                         else ew_alpha s * v + (1 - ew_alpha s) * ew_value s) in
        and_then (ensure_finite ''EW mean'' next_mean) (\<lambda>_.
          Inr (s\<lparr>ew_value := next_mean, ew_count := n\<rparr>)))))"

definition ew_mean_reset :: "ew_mean_stat \<Rightarrow> ew_mean_stat" where
  "ew_mean_reset s = s\<lparr>ew_value := 0, ew_count := 0\<rparr>"

section \<open>Rolling windows\<close>

text \<open>\<open>Iterator::sum\<close> over \<open>f64\<close>, which starts from negative zero; \<open>VecDeque\<close> as a list.\<close>

definition f_sum :: "f64 list \<Rightarrow> f64" where
  "f_sum xs = foldl (+) (- 0) xs"

definition window_push :: "usize \<Rightarrow> 'a \<Rightarrow> 'a list \<Rightarrow> 'a list" where
  "window_push capacity v w = (if length w = capacity then tl w else w) @ [v]"

record rolling_mean =
  rm_window :: "f64 list"
  rm_capacity :: usize

definition rolling_mean_new :: "usize \<Rightarrow> rill_error + rolling_mean" where
  "rolling_mean_new capacity =
     (if capacity = 0 then Inl InvalidWindowSize else Inr \<lparr>rm_window = [], rm_capacity = capacity\<rparr>)"

definition window_mean :: "f64 list \<Rightarrow> f64 option" where
  "window_mean w =
     (if w = [] then None
      else let s = f_sum w in if \<not> is_finite s then None else Some (s / f_of_nat (length w)))"

definition rolling_mean_value :: "rolling_mean \<Rightarrow> f64 option" where
  "rolling_mean_value s = window_mean (rm_window s)"

definition rolling_mean_update :: "f64 \<Rightarrow> rolling_mean \<Rightarrow> (rill_error + unit) \<times> rolling_mean" where
  "rolling_mean_update v s = transact s
     (and_then (ensure_finite ''value'' v) (\<lambda>_.
        Inr (s\<lparr>rm_window := window_push (rm_capacity s) v (rm_window s)\<rparr>)))"

definition rolling_mean_reset :: "rolling_mean \<Rightarrow> rolling_mean" where
  "rolling_mean_reset s = s\<lparr>rm_window := []\<rparr>"

record rolling_variance =
  rv_window :: "f64 list"
  rv_capacity :: usize
  rv_kind :: variance_kind

definition rolling_variance_new :: "usize \<Rightarrow> variance_kind \<Rightarrow> rill_error + rolling_variance" where
  "rolling_variance_new capacity k =
     (if capacity = 0 then Inl InvalidWindowSize
      else Inr \<lparr>rv_window = [], rv_capacity = capacity, rv_kind = k\<rparr>)"

definition rolling_variance_mean :: "rolling_variance \<Rightarrow> f64 option" where
  "rolling_variance_mean s = window_mean (rv_window s)"

fun window_denominator :: "variance_kind \<Rightarrow> usize \<Rightarrow> usize option" where
  "window_denominator Population n = Some n"
| "window_denominator Sample n = (if n < 2 then None else Some (n - 1))"

definition rolling_variance_value :: "rolling_variance \<Rightarrow> f64 option" where
  "rolling_variance_value s =
     (let n = length (rv_window s) in
      if n = 0 then None
      else Option.bind (window_denominator (rv_kind s) n) (\<lambda>denom.
           Option.bind (rolling_variance_mean s) (\<lambda>mean.
             let ss = f_sum (map (\<lambda>x. (x - mean) * (x - mean)) (rv_window s)) in
             if \<not> is_finite ss then None else Some (ss / f_of_nat denom))))"

definition rolling_variance_std_dev :: "rolling_variance \<Rightarrow> f64 option" where
  "rolling_variance_std_dev s = map_option f_sqrt (rolling_variance_value s)"

definition rolling_variance_update :: "f64 \<Rightarrow> rolling_variance \<Rightarrow> (rill_error + unit) \<times> rolling_variance" where
  "rolling_variance_update v s = transact s
     (and_then (ensure_finite ''value'' v) (\<lambda>_.
        Inr (s\<lparr>rv_window := window_push (rv_capacity s) v (rv_window s)\<rparr>)))"

definition rolling_variance_reset :: "rolling_variance \<Rightarrow> rolling_variance" where
  "rolling_variance_reset s = s\<lparr>rv_window := []\<rparr>"

section \<open>The interface of a statistic\<close>

text \<open>
  What users of \<open>OnlineStatistic\<close> rely on: an update is failure atomic, counts one sample when it
  succeeds, and keeps the state valid; a reset forgets the samples.
\<close>

locale online_statistic = counted_machine update inv seen reset
  for update :: "f64 \<Rightarrow> 's \<Rightarrow> (rill_error + unit) \<times> 's" and inv :: "'s \<Rightarrow> bool"
    and seen :: "'s \<Rightarrow> u64" and reset :: "'s \<Rightarrow> 's"

subsection \<open>Inversion of the updates\<close>

lemma count_update_Inr [result_simps]:
  "count_update v s = (Inr u, s') \<longleftrightarrow> unat (cs_count s) + 1 < 2 ^ 64 \<and> s' = s\<lparr>cs_count := cs_count s + 1\<rparr>"
  by (auto simp: count_update_def transact_Inr and_then_Inr checked_increment_Inr)

lemma sum_update_Inr [result_simps]:
  "sum_update v s = (Inr u, s') \<longleftrightarrow> is_finite v \<and> is_finite (su_sum s + v) \<and> unat (su_count s) + 1 < 2 ^ 64
     \<and> s' = s\<lparr>su_sum := su_sum s + v, su_count := su_count s + 1\<rparr>"
  by (auto simp: sum_update_def transact_Inr and_then_Inr checked_increment_Inr checked_finite_add_Inr
      ensure_finite_Inr)

lemma min_update_Inr [result_simps]:
  "min_update v s = (Inr u, s') \<longleftrightarrow> is_finite v \<and> unat (ex_count s) + 1 < 2 ^ 64
     \<and> s' = s\<lparr>ex_current := Some (case ex_current s of None \<Rightarrow> v | Some c \<Rightarrow> f_min c v), ex_count := ex_count s + 1\<rparr>"
  by (auto simp: min_update_def transact_Inr and_then_Inr checked_increment_Inr ensure_finite_Inr)

lemma max_update_Inr [result_simps]:
  "max_update v s = (Inr u, s') \<longleftrightarrow> is_finite v \<and> unat (ex_count s) + 1 < 2 ^ 64
     \<and> s' = s\<lparr>ex_current := Some (case ex_current s of None \<Rightarrow> v | Some c \<Rightarrow> f_max c v), ex_count := ex_count s + 1\<rparr>"
  by (auto simp: max_update_def transact_Inr and_then_Inr checked_increment_Inr ensure_finite_Inr)

lemma mean_update_Inr [result_simps]:
  "mean_update v s = (Inr u, s') \<longleftrightarrow> is_finite v \<and> unat (me_count s) + 1 < 2 ^ 64
     \<and> is_finite (v - me_mean s) \<and> is_finite (me_mean s + (v - me_mean s) / f_of_u64 (me_count s + 1))
     \<and> s' = s\<lparr>me_count := me_count s + 1, me_mean := me_mean s + (v - me_mean s) / f_of_u64 (me_count s + 1)\<rparr>"
  by (auto simp: mean_update_def Let_def transact_Inr and_then_Inr checked_increment_Inr ensure_finite_Inr)

lemma variance_update_Inr [result_simps]:
  "variance_update v s = (Inr u, s') \<longleftrightarrow>
     (let n = va_count s + 1; delta = v - va_mean s; m = va_mean s + delta / f_of_u64 n;
          m2 = va_m2 s + delta * (v - m)
      in is_finite v \<and> unat (va_count s) + 1 < 2 ^ 64 \<and> is_finite delta \<and> is_finite m \<and> is_finite (v - m)
         \<and> is_finite m2 \<and> s' = s\<lparr>va_count := n, va_mean := m, va_m2 := m2\<rparr>)"
  by (auto simp: variance_update_def Let_def transact_Inr and_then_Inr checked_increment_Inr ensure_finite_Inr)

lemma ew_mean_update_Inr [result_simps]:
  "ew_mean_update v s = (Inr u, s') \<longleftrightarrow>
     (let m = (if ew_count s = 0 then v else ew_alpha s * v + (1 - ew_alpha s) * ew_value s)
      in is_finite v \<and> unat (ew_count s) + 1 < 2 ^ 64 \<and> is_finite m
         \<and> s' = s\<lparr>ew_value := m, ew_count := ew_count s + 1\<rparr>)"
  by (auto simp: ew_mean_update_def Let_def transact_Inr and_then_Inr checked_increment_Inr ensure_finite_Inr)

lemma f_of_u64_ge2: "0 < unat n \<Longrightarrow> unat n + 1 < 2 ^ 64 \<Longrightarrow> 2 \<le> f_val (f_of_u64 (n + 1))"
  using f_val_of_u64_ge [of 2 "n + 1"] by (simp add: unat_inc)

text \<open>The mean after one update: the value itself for the first sample, else between mean and value.\<close>

lemma mean_step:
  assumes fin: "is_finite m" "is_finite v" "is_finite (m + (v - m) / f_of_u64 (n + 1))"
    and n: "unat (n :: u64) + 1 < 2 ^ 64" "unat n = 0 \<longrightarrow> f_val m = 0"
  shows "if unat n = 0 then f_val (m + (v - m) / f_of_u64 (n + 1)) = f_val v
    else min (f_val m) (f_val v) \<le> f_val (m + (v - m) / f_of_u64 (n + 1))
      \<and> f_val (m + (v - m) / f_of_u64 (n + 1)) \<le> max (f_val m) (f_val v)"
proof (cases "unat n = 0")
  case True
  then have n0: "n = 0" by (simp add: unat_eq_0)
  have d: "is_finite ((v - m) / 1)" using finite_plusD [OF fin(3)] n0 by simp
  then have vm: "is_finite (v - m)" using finite_divideD [of "v - m" 1] by simp
  have "f_val (v - m) = f_val v" using f_val_minus [OF vm] n(2) True by simp
  then show ?thesis
    using f_val_plus [OF fin(3)] divide_one [OF vm] n(2) True n0 by simp
next
  case False
  then show ?thesis
    using f_step_between [OF fin(3)] f_of_u64_ge2 [of n] n(1) by simp
qed

text \<open>Hence the remaining difference points the same way as the first one.\<close>

lemma welford_term:
  assumes fin: "is_finite m" "is_finite v" "is_finite (m + (v - m) / f_of_u64 (n + 1))"
    "is_finite (v - m)" "is_finite (v - (m + (v - m) / f_of_u64 (n + 1)))"
    "is_finite ((v - m) * (v - (m + (v - m) / f_of_u64 (n + 1))))"
    and n: "unat (n :: u64) + 1 < 2 ^ 64" "unat n = 0 \<longrightarrow> f_val m = 0"
  shows "0 \<le> f_val ((v - m) * (v - (m + (v - m) / f_of_u64 (n + 1))))"
proof -
  let ?m' = "m + (v - m) / f_of_u64 (n + 1)"
  have d: "f_val (v - m) = rnd (f_val v - f_val m)" "f_val (v - ?m') = rnd (f_val v - f_val ?m')"
    using fin by (simp_all add: f_val_minus)
  have "0 \<le> rnd (f_val v - f_val m) * rnd (f_val v - f_val ?m')"
  proof (cases "f_val m \<le> f_val v")
    case True
    then have "f_val ?m' \<le> f_val v" using mean_step [OF fin(1-3) n] by (auto split: if_splits)
    then show ?thesis using True rnd_pos by (simp add: mult_nonneg_nonneg)
  next
    case False
    then have "f_val v \<le> f_val ?m'" using mean_step [OF fin(1-3) n] by (auto split: if_splits)
    then have "rnd (f_val v - f_val ?m') \<le> 0" "rnd (f_val v - f_val m) \<le> 0"
      using False rnd_upper [of 0] by simp_all
    then show ?thesis by (rule mult_nonpos_nonpos [rotated])
  qed
  then show ?thesis using f_val_times [OF fin(6)] rnd_pos d by simp
qed

section \<open>Invariants and interpretations\<close>

definition sum_ok :: "sum_stat \<Rightarrow> bool" where
  "sum_ok s \<longleftrightarrow> is_finite (su_sum s)"

definition extremum_ok :: "extremum \<Rightarrow> bool" where
  "extremum_ok s \<longleftrightarrow> pred_option is_finite (ex_current s) \<and> (ex_current s = None \<longleftrightarrow> ex_count s = 0)"

definition mean_ok :: "mean_stat \<Rightarrow> bool" where
  "mean_ok s \<longleftrightarrow> is_finite (me_mean s) \<and> (me_count s = 0 \<longrightarrow> me_mean s = 0)"

definition variance_ok :: "variance_stat \<Rightarrow> bool" where
  "variance_ok s \<longleftrightarrow> is_finite (va_mean s) \<and> is_finite (va_m2 s) \<and> 0 \<le> f_val (va_m2 s)
     \<and> (va_count s = 0 \<longrightarrow> va_mean s = 0)"

definition ew_mean_ok :: "ew_mean_stat \<Rightarrow> bool" where
  "ew_mean_ok s \<longleftrightarrow> ew_mean_validate_state s = Inr ()"

lemma stat_atomic:
  "count_update v cs = (Inl e, cs') \<Longrightarrow> cs' = cs"
  "sum_update v su = (Inl e, su') \<Longrightarrow> su' = su"
  "min_update v ex = (Inl e, ex') \<Longrightarrow> ex' = ex"
  "max_update v ex = (Inl e, ex') \<Longrightarrow> ex' = ex"
  "mean_update v me = (Inl e, me') \<Longrightarrow> me' = me"
  "variance_update v va = (Inl e, va') \<Longrightarrow> va' = va"
  "ew_mean_update v ew = (Inl e, ew') \<Longrightarrow> ew' = ew"
  by (simp_all add: count_update_def sum_update_def min_update_def max_update_def mean_update_def
      variance_update_def ew_mean_update_def transact_Inl)

interpretation count: online_statistic count_update "\<lambda>_. True" cs_count count_reset
  by unfold_locales (auto dest: stat_atomic simp: count_update_Inr unat_inc count_reset_def)

interpretation sum: online_statistic sum_update sum_ok su_count sum_reset
  by unfold_locales
    (auto dest: stat_atomic simp: sum_update_Inr unat_inc sum_reset_def sum_ok_def)

interpretation minimum: online_statistic min_update extremum_ok ex_count extremum_reset
  by unfold_locales
    (auto dest: stat_atomic simp: min_update_Inr unat_inc inc_nz extremum_reset_def extremum_ok_def
      f_min_finite split: option.splits)

interpretation maximum: online_statistic max_update extremum_ok ex_count extremum_reset
  by unfold_locales
    (auto dest: stat_atomic simp: max_update_Inr unat_inc inc_nz extremum_reset_def extremum_ok_def
      f_max_finite split: option.splits)

interpretation mean: online_statistic mean_update mean_ok me_count mean_reset
  by unfold_locales
    (auto dest: stat_atomic simp: mean_update_Inr unat_inc inc_nz mean_reset_def mean_ok_def)

lemma variance_step_ok: "variance_ok s \<Longrightarrow> variance_update v s = (Inr u, s') \<Longrightarrow> variance_ok s'"
proof -
  assume ok: "variance_ok s" and up: "variance_update v s = (Inr u, s')"
  let ?m = "va_mean s + (v - va_mean s) / f_of_u64 (va_count s + 1)"
  let ?m2 = "va_m2 s + (v - va_mean s) * (v - ?m)"
  have f: "is_finite v" "unat (va_count s) + 1 < 2 ^ 64" "is_finite (v - va_mean s)" "is_finite ?m"
    "is_finite (v - ?m)" "is_finite ?m2"
    and s': "s' = s\<lparr>va_count := va_count s + 1, va_mean := ?m, va_m2 := ?m2\<rparr>"
    using up by (auto simp: variance_update_Inr Let_def)
  have z: "unat (va_count s) = 0 \<longrightarrow> f_val (va_mean s) = 0"
    using ok by (auto simp: variance_ok_def unat_eq_0)
  have t: "is_finite ((v - va_mean s) * (v - ?m))" using finite_plusD [OF f(6)] by simp
  have "0 \<le> f_val ((v - va_mean s) * (v - ?m))"
    using ok by (intro welford_term f t z) (simp add: variance_ok_def)
  then have "0 \<le> f_val ?m2" using ok rnd_pos by (simp add: f_val_plus [OF f(6)] variance_ok_def)
  then show ?thesis using f inc_nz [OF f(2)] by (simp add: s' variance_ok_def)
qed

interpretation variance: online_statistic variance_update variance_ok va_count variance_reset
proof unfold_locales
  show "variance_ok s \<Longrightarrow> variance_update x s = (Inr r, s') \<Longrightarrow> variance_ok s'" for s x r s'
    by (rule variance_step_ok)
qed (auto dest: stat_atomic simp: variance_update_Inr unat_inc variance_reset_def variance_ok_def Let_def)

lemma check_alpha_Inr [result_simps]: "check_alpha a = Inr u \<longleftrightarrow> \<not> (a \<le> 0 \<or> 1 < a)"
  by (auto simp: check_alpha_def ensure_Inr)

interpretation ew: online_statistic ew_mean_update ew_mean_ok ew_count ew_mean_reset
  by unfold_locales
    (auto dest: stat_atomic simp: ew_mean_update_Inr unat_inc ew_mean_reset_def ew_mean_ok_def
      ew_mean_validate_state_def and_then_Inr ensure_finite_Inr Let_def)

section \<open>The mean stays within the observations\<close>

definition mean_in :: "rat \<Rightarrow> rat \<Rightarrow> mean_stat \<Rightarrow> bool" where
  "mean_in lo hi s \<longleftrightarrow> mean_ok s \<and> (me_count s = 0 \<or> lo \<le> f_val (me_mean s) \<and> f_val (me_mean s) \<le> hi)"

lemma mean_in_step:
  assumes "mean_in lo hi s" "mean_update v s = (Inr u, s')" "lo \<le> f_val v" "f_val v \<le> hi"
  shows "mean_in lo hi s' \<and> me_count s' \<noteq> 0"
proof -
  let ?m = "me_mean s + (v - me_mean s) / f_of_u64 (me_count s + 1)"
  have f: "is_finite v" "unat (me_count s) + 1 < 2 ^ 64" "is_finite ?m"
    and s': "s' = s\<lparr>me_count := me_count s + 1, me_mean := ?m\<rparr>"
    using assms(2) by (auto simp: mean_update_Inr)
  have ok: "is_finite (me_mean s)" "unat (me_count s) = 0 \<longrightarrow> f_val (me_mean s) = 0"
    using assms(1) by (auto simp: mean_in_def mean_ok_def unat_eq_0)
  have "lo \<le> f_val ?m \<and> f_val ?m \<le> hi"
    using mean_step [OF ok(1) f(1) f(3) f(2) ok(2)] assms(1,3,4)
    by (cases "unat (me_count s) = 0") (auto simp: mean_in_def unat_eq_0 min_def max_def split: if_splits)
  then show ?thesis using f inc_nz [OF f(2)] by (simp add: s' mean_in_def mean_ok_def)
qed

lemma mean_in_run:
  assumes "mean_in lo hi s" "list_all (\<lambda>v. lo \<le> f_val v \<and> f_val v \<le> hi) (accepted_ops mean_update xs s)"
  shows "mean_in lo hi (run_ops mean_update xs s)
    \<and> (me_count s \<noteq> 0 \<or> accepted_ops mean_update xs s \<noteq> [] \<longrightarrow> me_count (run_ops mean_update xs s) \<noteq> 0)"
  using assms
proof (induction xs arbitrary: s)
  case (Cons x xs)
  obtain r s' where e: "mean_update x s = (r, s')" by fastforce
  show ?case
  proof (cases r)
    case (Inl err)
    then have "s' = s" using e stat_atomic(5) by blast
    then show ?thesis using Cons e Inl by simp
  next
    case (Inr u)
    then have "lo \<le> f_val x" "f_val x \<le> hi" using Cons.prems(2) e by simp_all
    from mean_in_step [OF Cons.prems(1) e [unfolded Inr] this] show ?thesis
      using Cons.IH [of s'] Cons.prems(2) e Inr by simp
  qed
qed simp

section \<open>Windows\<close>

definition last_n :: "nat \<Rightarrow> 'a list \<Rightarrow> 'a list" where
  "last_n n xs = drop (length xs - n) xs"

lemma window_push_last_n: "0 < n \<Longrightarrow> window_push n v (last_n n xs) = last_n n (xs @ [v])"
  by (cases "length xs < n")
    (auto simp: window_push_def last_n_def drop_Suc tl_drop Suc_diff_le not_less)

lemma window_push_length: "0 < c \<Longrightarrow> length w = min n c \<Longrightarrow> length (window_push c v w) = min (n + 1) c"
  by (auto simp: window_push_def)

lemma window_push_all: "list_all p w \<Longrightarrow> p v \<Longrightarrow> list_all p (window_push c v w)"
  by (cases w) (auto simp: window_push_def)

lemma window_push_length_le:
  "0 < c \<Longrightarrow> length w \<le> c \<Longrightarrow> length (window_push c v w) \<le> c \<and> length (window_push c v w) \<le> length w + 1
    \<and> 0 < length (window_push c v w)"
  by (auto simp: window_push_def)

lemma rolling_mean_run:
  assumes "0 < rm_capacity s" "rm_window s = last_n (rm_capacity s) ys"
  shows "rm_window (run_ops rolling_mean_update xs s) = last_n (rm_capacity s) (ys @ filter is_finite xs)"
  using assms
proof (induction xs arbitrary: s ys)
  case (Cons x xs)
  show ?case
  proof (cases "is_finite x")
    case True
    then have "snd (rolling_mean_update x s) = s\<lparr>rm_window := last_n (rm_capacity s) (ys @ [x])\<rparr>"
      using Cons.prems by (simp add: rolling_mean_update_def ensure_finite_def window_push_last_n)
    then show ?thesis using Cons.IH [of "s\<lparr>rm_window := last_n (rm_capacity s) (ys @ [x])\<rparr>" "ys @ [x]"] Cons.prems(1) True
      by simp
  next
    case False
    then show ?thesis using Cons by (simp add: rolling_mean_update_def ensure_finite_def)
  qed
qed simp

lemma rolling_variance_run:
  assumes "0 < rv_capacity s" "rv_window s = last_n (rv_capacity s) ys"
  shows "rv_window (run_ops rolling_variance_update xs s) = last_n (rv_capacity s) (ys @ filter is_finite xs)
    \<and> rv_kind (run_ops rolling_variance_update xs s) = rv_kind s"
  using assms
proof (induction xs arbitrary: s ys)
  case (Cons x xs)
  show ?case
  proof (cases "is_finite x")
    case True
    then have "snd (rolling_variance_update x s) = s\<lparr>rv_window := last_n (rv_capacity s) (ys @ [x])\<rparr>"
      using Cons.prems by (simp add: rolling_variance_update_def ensure_finite_def window_push_last_n)
    then show ?thesis using Cons.IH [of "s\<lparr>rv_window := last_n (rv_capacity s) (ys @ [x])\<rparr>" "ys @ [x]"] Cons.prems(1) True
      by simp
  next
    case False
    then show ?thesis using Cons by (simp add: rolling_variance_update_def ensure_finite_def)
  qed
qed simp

section \<open>Properties\<close>

definition demo_values :: "f64 list" where
  "demo_values = [1, f_inf, 1 + 1]"

text \<open>
  C13: the running mean lies within the range of the accepted observations, in IEEE arithmetic with
  its rounding at every step: no accumulation error takes it outside, whatever the values.
\<close>

theorem mean_within_observations:
  assumes "accepted_ops mean_update xs mean_new \<noteq> []"
    and "list_all (\<lambda>v. lo \<le> f_val v \<and> f_val v \<le> hi) (accepted_ops mean_update xs mean_new)"
  shows "is_finite (me_mean (run_ops mean_update xs mean_new))
    \<and> lo \<le> f_val (me_mean (run_ops mean_update xs mean_new))
    \<and> f_val (me_mean (run_ops mean_update xs mean_new)) \<le> hi"
proof -
  have "mean_in lo hi mean_new" by (simp add: mean_in_def mean_ok_def mean_new_def)
  from mean_in_run [OF this assms(2)] show ?thesis using assms(1) by (auto simp: mean_in_def mean_ok_def)
qed

lemma demo_mean:
  "mean_update 1 mean_new = (Inr (), \<lparr>me_count = 1, me_mean = 1\<rparr>)"
  "mean_update f_inf \<lparr>me_count = 1, me_mean = 1\<rparr> = (Inl (NonFiniteValue ''value'' f_inf), \<lparr>me_count = 1, me_mean = 1\<rparr>)"
  "mean_update (1 + 1) \<lparr>me_count = 1, me_mean = 1\<rparr> = (Inr (), \<lparr>me_count = 2, me_mean = 1 + (1 + 1 - 1) / f_of_u64 2\<rparr>)"
proof -
  have "is_finite (1 - 0)" "is_finite (0 + (1 - 0) / f_of_u64 1)" "1 = 0 + (1 - 0) / f_of_u64 1"
    "is_finite (1 + 1 :: f64)" "is_finite (1 + 1 - 1 :: f64)" "is_finite (1 + (1 + 1 - 1) / f_of_u64 2)"
    by code_simp+
  then show "mean_update 1 mean_new = (Inr (), \<lparr>me_count = 1, me_mean = 1\<rparr>)"
    "mean_update (1 + 1) \<lparr>me_count = 1, me_mean = 1\<rparr> = (Inr (), \<lparr>me_count = 2, me_mean = 1 + (1 + 1 - 1) / f_of_u64 2\<rparr>)"
    by (simp_all add: mean_update_Inr mean_new_def del: f_of_u64_one)
qed (simp add: mean_update_def ensure_finite_def)

theorem mean_within_observations_witness:
  "1 \<le> f_val (me_mean (run_ops mean_update demo_values mean_new))
    \<and> f_val (me_mean (run_ops mean_update demo_values mean_new)) \<le> 2"
proof -
  have v: "f_val (1 + 1) = 2" by code_simp
  have "accepted_ops mean_update demo_values mean_new = [1, 1 + 1]"
    by (simp add: demo_values_def demo_mean)
  then show ?thesis using mean_within_observations [of demo_values 1 2] v by simp
qed

text \<open>
  Welford's accumulator never goes negative: whatever values are offered to a new variance
  statistic, its state passes \<open>validate_state\<close>, the sum of squares is not negative, and so is every
  variance it reports; the sample count is the number of accepted values.
\<close>

theorem variance_reachable_valid:
  "variance_validate_state (run_ops variance_update xs (variance_new k)) = Inr ()
    \<and> \<not> va_m2 (run_ops variance_update xs (variance_new k)) < 0
    \<and> unat (va_count (run_ops variance_update xs (variance_new k)))
        = length (accepted_ops variance_update xs (variance_new k))"
proof -
  have new: "variance_ok (variance_new k)" by (simp add: variance_ok_def variance_new_def)
  have ok: "variance_ok (run_ops variance_update xs (variance_new k))"
    by (rule variance.run_inv [OF new])
  have "unat (va_count (run_ops variance_update xs (variance_new k)))
      = length (accepted_ops variance_update xs (variance_new k))"
    using variance.run_seen [of xs "variance_new k"] by (simp add: variance_new_def)
  then show ?thesis
    using ok by (auto simp: variance_validate_state_def variance_ok_def ensure_finite_def less_finite)
qed

text \<open>
  The rolling mean is the mean of the last \<open>capacity\<close> accepted values: after any sequence of
  offered values the retained window is exactly that suffix, and the reported value is the one
  computed from it; values that are not finite leave no trace.
\<close>

theorem rolling_mean_is_suffix_mean:
  assumes "rolling_mean_new n = Inr s"
  shows "rolling_mean_value (run_ops rolling_mean_update xs s) = window_mean (last_n n (filter is_finite xs))
    \<and> length (rm_window (run_ops rolling_mean_update xs s)) = min n (length (filter is_finite xs))"
proof -
  have s: "s = \<lparr>rm_window = [], rm_capacity = n\<rparr>" "0 < n"
    using assms by (auto simp: rolling_mean_new_def split: if_splits)
  have "rm_window s = last_n (rm_capacity s) []" by (simp add: s last_n_def)
  from rolling_mean_run [OF _ this] show ?thesis
    using s by (simp add: rolling_mean_value_def) (simp add: last_n_def min_def)
qed

theorem rolling_mean_is_suffix_mean_witness:
  "rolling_mean_value (run_ops rolling_mean_update demo_values \<lparr>rm_window = [], rm_capacity = 2\<rparr>)
     = window_mean (last_n 2 (filter is_finite demo_values))"
  using rolling_mean_is_suffix_mean [of 2] by (simp add: rolling_mean_new_def)

end
