(* ===== verification/F64_Order.thy ===== *)
theory F64_Order imports F64_Step begin

text \<open>
  The total order of \<open>f64::total_cmp\<close> with the sorting by it, and the conversions of a double to an
  integer. \<open>total_cmp\<close> orders by sign first, so negative zero comes before zero; the one NaN of the
  model is a positive one and comes last.
\<close>

definition total_key :: "f64 \<Rightarrow> int \<times> rat \<times> bool" where
  "total_key x = (if is_nan x then 2 else if is_finite x then 0 else if is_sign_negative x then - 1 else 1,
                  f_val x, \<not> is_sign_negative x)"

definition total_le :: "f64 \<Rightarrow> f64 \<Rightarrow> bool" where
  "total_le x y \<longleftrightarrow> (case (total_key x, total_key y) of ((r, v, p), (r', v', p')) \<Rightarrow>
     r < r' \<or> r = r' \<and> (v < v' \<or> v = v' \<and> (p \<longrightarrow> p')))"

text \<open>\<open>sort_by(f64::total_cmp)\<close>, a stable sort.\<close>

fun insert_f64 :: "f64 \<Rightarrow> f64 list \<Rightarrow> f64 list" where
  "insert_f64 x [] = [x]"
| "insert_f64 x (y # ys) = (if total_le x y then x # y # ys else y # insert_f64 x ys)"

fun sort_f64 :: "f64 list \<Rightarrow> f64 list" where
  "sort_f64 [] = []"
| "sort_f64 (x # xs) = insert_f64 x (sort_f64 xs)"

text \<open>\<open>floor\<close> and \<open>ceil\<close>, and the saturating conversion \<open>as usize\<close>.\<close>

definition f_floor :: "f64 \<Rightarrow> f64" where
  "f_floor x = (if \<not> is_finite x \<or> f_val x = of_int \<lfloor>f_val x\<rfloor> then x else f_of_rat (of_int \<lfloor>f_val x\<rfloor>))"

definition f_ceil :: "f64 \<Rightarrow> f64" where
  "f_ceil x = - f_floor (- x)"

definition f_to_usize :: "f64 \<Rightarrow> usize" where
  "f_to_usize x = (if is_nan x then 0 else if is_finite x then min usize_max (nat \<lfloor>f_val x\<rfloor>)
                   else if x < 0 then 0 else usize_max)"

subsection \<open>Facts\<close>

lemma set_sort_f64 [simp]: "set (sort_f64 xs) = set xs"
proof -
  have "set (insert_f64 x ys) = insert x (set ys)" for x ys
    by (induction ys) auto
  then show ?thesis by (induction xs) auto
qed

lemma length_sort_f64 [simp]: "length (sort_f64 xs) = length xs"
proof -
  have "length (insert_f64 x ys) = Suc (length ys)" for x ys
    by (induction ys) auto
  then show ?thesis by (induction xs) auto
qed

lemma sort_f64_Nil [simp]: "sort_f64 xs = [] \<longleftrightarrow> xs = []"
  using length_sort_f64 [of xs] by (metis length_0_conv)

lemma total_le_finite: "is_finite x \<Longrightarrow> is_finite y \<Longrightarrow> total_le x y \<Longrightarrow> f_val x \<le> f_val y"
  by (auto simp: total_le_def total_key_def)

lemma not_total_le_finite: "is_finite x \<Longrightarrow> is_finite y \<Longrightarrow> \<not> total_le x y \<Longrightarrow> f_val y \<le> f_val x"
  by (auto simp: total_le_def total_key_def)

lemma sorted_sort_f64: "list_all is_finite xs \<Longrightarrow> sorted (map f_val (sort_f64 xs))"
proof (induction xs)
  case (Cons x xs)
  have "sorted (map f_val ys) \<Longrightarrow> list_all is_finite ys \<Longrightarrow> sorted (map f_val (insert_f64 x ys))" for ys
  proof (induction ys)
    case (Cons y ys)
    have x: "is_finite x" using \<open>list_all is_finite (x # xs)\<close> by simp
    have s: "set (insert_f64 x ys) = insert x (set ys)" by (induction ys) auto
    show ?case
      using Cons x s total_le_finite [of x y] not_total_le_finite [of x y] by fastforce
  qed simp
  moreover have "list_all is_finite (sort_f64 xs)" using Cons.prems by (simp add: list_all_iff)
  ultimately show ?case using Cons by simp
qed simp

end
