(* ===== verification/Quantile.thy ===== *)
theory Quantile imports Stats F64_Order begin

text \<open>
  The \<open>P\<^sup>2\<close> quantile estimator of \<open>src/stats/quantile.rs\<close>: five markers per quantile, whose
  integer positions and heights are adjusted after each observation. An update works on a clone,
  as in the source, and replaces the state only when it succeeds.
\<close>

definition marker_count :: nat where "marker_count = 5"

definition max_tracked_quantiles :: usize where "max_tracked_quantiles = 64"

record p2_quantile =
  p2_quantile :: f64
  p2_samples_seen :: u64
  p2_initial :: "f64 list"
  p2_heights :: "f64 list"
  p2_positions :: "u64 list"
  p2_desired :: "f64 list"

definition p2_new :: "f64 \<Rightarrow> rill_error + p2_quantile" where
  "p2_new q =
     and_then (ensure_finite ''quantile'' q) (\<lambda>_.
       if q \<le> 0 \<or> 1 \<le> q then Inl (InvalidParameter ''quantile'' q)
       else Inr \<lparr>p2_quantile = q, p2_samples_seen = 0, p2_initial = [],
                  p2_heights = replicate marker_count 0, p2_positions = replicate marker_count 0,
                  p2_desired = replicate marker_count 0\<rparr>)"

definition exact_linear_quantile :: "f64 list \<Rightarrow> f64 \<Rightarrow> f64" where
  "exact_linear_quantile xs q =
     (let position = f_of_nat (length xs - 1) * q;
          lower = f_to_usize (f_floor position); upper = f_to_usize (f_ceil position)
      in if lower = upper then xs ! lower
         else let weight = position - f_of_nat lower in
           xs ! lower + weight * (xs ! upper - xs ! lower))"

definition p2_value :: "p2_quantile \<Rightarrow> f64 option" where
  "p2_value s =
     (if p2_samples_seen s = 0 then None
      else if unat (p2_samples_seen s) < marker_count
      then Some (exact_linear_quantile (sort_f64 (p2_initial s)) (p2_quantile s))
      else Some (p2_heights s ! 2))"

definition p2_reset :: "p2_quantile \<Rightarrow> p2_quantile" where
  "p2_reset s = s\<lparr>p2_samples_seen := 0, p2_initial := [], p2_heights := replicate marker_count 0,
                  p2_positions := replicate marker_count 0, p2_desired := replicate marker_count 0\<rparr>"

definition desired_increments :: "p2_quantile \<Rightarrow> f64 list" where
  "desired_increments s =
     [0, p2_quantile s / f_of_nat 2, p2_quantile s, (1 + p2_quantile s) / f_of_nat 2, 1]"

definition initial_desired :: "f64 \<Rightarrow> f64 list" where
  "initial_desired q =
     [1, 1 + f_of_nat 2 * q, 1 + f_of_nat 4 * q, f_of_nat 3 + f_of_nat 2 * q, f_of_nat 5]"

text \<open>The first five values: the fifth one initialises the markers.\<close>

definition p2_bootstrap :: "f64 \<Rightarrow> u64 \<Rightarrow> p2_quantile \<Rightarrow> p2_quantile" where
  "p2_bootstrap v n s =
     (let s1 = s\<lparr>p2_initial := p2_initial s @ [v], p2_samples_seen := n\<rparr> in
      if unat n = marker_count
      then s1\<lparr>p2_initial := sort_f64 (p2_initial s1), p2_heights := sort_f64 (p2_initial s1),
              p2_positions := [1, 2, 3, 4, 5], p2_desired := initial_desired (p2_quantile s)\<rparr>
      else s1)"

text \<open>The cell of a value, with the outer markers moved to a new extreme value.\<close>

definition find_cell :: "f64 \<Rightarrow> f64 list \<Rightarrow> nat \<times> f64 list" where
  "find_cell v h =
     (if v < h ! 0 then (0, h[0 := v])
      else if v < h ! 1 then (0, h)
      else if v < h ! 2 then (1, h)
      else if v < h ! 3 then (2, h)
      else if v \<le> h ! 4 then (3, h)
      else (3, h[4 := v]))"

definition bump_positions :: "nat \<Rightarrow> u64 list \<Rightarrow> rill_error + u64 list" where
  "bump_positions cell ps =
     and_then (try_map (\<lambda>p. ok_or (checked_add_u64 p 1) (InvalidState ''P2 marker position overflow''))
                 (drop (cell + 1) ps))
       (\<lambda>qs. Inr (take (cell + 1) ps @ qs))"

definition advance_desired :: "f64 list \<Rightarrow> f64 list \<Rightarrow> rill_error + f64 list" where
  "advance_desired ds incs =
     try_map (\<lambda>(d, i). and_then (ensure_finite ''P2 desired marker position'' (d + i)) (\<lambda>_. Inr (d + i)))
       (zip ds incs)"

definition f_of_direction :: "int \<Rightarrow> f64" where
  "f_of_direction d = (if d < 0 then - f_of_nat (nat (- d)) else f_of_nat (nat d))"

definition parabolic_candidate :: "p2_quantile \<Rightarrow> nat \<Rightarrow> int \<Rightarrow> rill_error + f64" where
  "parabolic_candidate s i direction =
     (let n_prev = f_of_u64 (p2_positions s ! (i - 1)); n = f_of_u64 (p2_positions s ! i);
          n_next = f_of_u64 (p2_positions s ! (i + 1));
          q_prev = p2_heights s ! (i - 1); q = p2_heights s ! i; q_next = p2_heights s ! (i + 1);
          d = f_of_direction direction;
          left = (n - n_prev + d) * (q_next - q) / (n_next - n);
          right = (n_next - n - d) * (q - q_prev) / (n - n_prev);
          candidate = q + d * (left + right) / (n_next - n_prev)
      in and_then (ensure_finite ''P2 parabolic marker'' candidate) (\<lambda>_. Inr candidate))"

definition linear_candidate :: "p2_quantile \<Rightarrow> nat \<Rightarrow> int \<Rightarrow> rill_error + f64" where
  "linear_candidate s i direction =
     (let adjacent = (if direction > 0 then i + 1 else i - 1);
          numerator = p2_heights s ! adjacent - p2_heights s ! i;
          denominator = f_of_u64 (p2_positions s ! adjacent) - f_of_u64 (p2_positions s ! i);
          candidate = p2_heights s ! i + f_of_direction direction * numerator / denominator
      in and_then (ensure_finite ''P2 linear marker'' candidate) (\<lambda>_. Inr candidate))"

text \<open>The candidate height of a marker that moves, and one iteration of the adjustment loop.\<close>

definition next_height :: "p2_quantile \<Rightarrow> nat \<Rightarrow> int \<Rightarrow> rill_error + f64" where
  "next_height s i direction =
     and_then (parabolic_candidate s i direction) (\<lambda>c.
       if p2_heights s ! (i - 1) < c \<and> c < p2_heights s ! (i + 1) then Inr c
       else linear_candidate s i direction)"

definition can_move_up :: "p2_quantile \<Rightarrow> nat \<Rightarrow> f64 \<Rightarrow> bool" where
  "can_move_up s i difference \<longleftrightarrow> 1 \<le> difference \<and> p2_positions s ! (i + 1) - p2_positions s ! i > 1"

definition can_move_down :: "p2_quantile \<Rightarrow> nat \<Rightarrow> f64 \<Rightarrow> bool" where
  "can_move_down s i difference \<longleftrightarrow> difference \<le> - 1 \<and> p2_positions s ! i - p2_positions s ! (i - 1) > 1"

definition adjust_marker :: "p2_quantile \<Rightarrow> nat \<Rightarrow> rill_error + p2_quantile" where
  "adjust_marker s i =
     (let difference = p2_desired s ! i - f_of_u64 (p2_positions s ! i) in
      if \<not> can_move_up s i difference \<and> \<not> can_move_down s i difference then Inr s
      else let direction = (if 0 < difference then 1 else - 1) in
        and_then (next_height s i direction) (\<lambda>h.
        and_then (ensure_finite ''P2 marker height'' h) (\<lambda>_.
          Inr (s\<lparr>p2_heights := (p2_heights s)[i := h],
                 p2_positions := (p2_positions s)[i := (if 0 < direction
                    then p2_positions s ! i + 1 else p2_positions s ! i - 1)]\<rparr>))))"

definition p2_update_inner :: "f64 \<Rightarrow> p2_quantile \<Rightarrow> rill_error + p2_quantile" where
  "p2_update_inner v s =
     and_then (ensure_finite ''value'' v) (\<lambda>_.
     and_then (checked_increment (p2_samples_seen s) ''P2 samples_seen'') (\<lambda>n.
       if unat (p2_samples_seen s) < marker_count then Inr (p2_bootstrap v n s)
       else let (cell, h) = find_cell v (p2_heights s) in
         and_then (bump_positions cell (p2_positions s)) (\<lambda>ps.
         and_then (advance_desired (p2_desired s) (desired_increments s)) (\<lambda>ds.
         and_then (try_fold adjust_marker (s\<lparr>p2_heights := h, p2_positions := ps, p2_desired := ds\<rparr>)
                     [1..<marker_count - 1]) (\<lambda>s'.
           Inr (s'\<lparr>p2_samples_seen := n\<rparr>))))))"

definition p2_update :: "f64 \<Rightarrow> p2_quantile \<Rightarrow> (rill_error + unit) \<times> p2_quantile" where
  "p2_update v s = transact s (p2_update_inner v s)"

section \<open>Validation of a restored state\<close>

fun pairs_ok :: "('a \<Rightarrow> 'a \<Rightarrow> bool) \<Rightarrow> 'a list \<Rightarrow> bool" where
  "pairs_ok bad (x # y # xs) = (\<not> bad x y \<and> pairs_ok bad (y # xs))"
| "pairs_ok bad _ = True"

definition desired_matches_count :: "p2_quantile \<Rightarrow> bool" where
  "desired_matches_count s =
     (let observations = f_of_u64 (p2_samples_seen s - of_nat marker_count) in
      list_all (\<lambda>(actual, initial, increment).
          let expected = initial + observations * increment in
          \<bar>actual - expected\<bar> \<le> f_of_rat (1 / 10 ^ 10) * f_max \<bar>expected\<bar> 1)
        (zip (p2_desired s) (zip (initial_desired (p2_quantile s)) (desired_increments s))))"

definition p2_validate_bootstrap :: "p2_quantile \<Rightarrow> rill_error + unit" where
  "p2_validate_bootstrap s =
     (if length (p2_initial s) \<noteq> unat (p2_samples_seen s)
      then Inl (InvalidState ''P2 bootstrap length does not match samples_seen'')
      else and_then (try_for_each (ensure_finite ''P2 bootstrap value'') (p2_initial s)) (\<lambda>_.
        if \<not> list_all2 feq (p2_heights s) (replicate marker_count 0)
           \<or> p2_positions s \<noteq> replicate marker_count 0
           \<or> \<not> list_all2 feq (p2_desired s) (replicate marker_count 0)
        then Inl (InvalidState ''P2 bootstrap state contains initialized markers'')
        else Inr ()))"

definition p2_validate_state :: "p2_quantile \<Rightarrow> rill_error + unit" where
  "p2_validate_state s =
     and_then (p2_new (p2_quantile s)) (\<lambda>_.
       if unat (p2_samples_seen s) < marker_count then p2_validate_bootstrap s
       else if length (p2_initial s) \<noteq> marker_count
       then Inl (InvalidState ''P2 initialized state must retain exactly five bootstrap values'')
       else and_then (try_for_each (ensure_finite ''P2 retained value'') (p2_initial s @ p2_heights s)) (\<lambda>_.
            and_then (try_for_each (ensure_finite ''P2 desired position'') (p2_desired s)) (\<lambda>_.
              if \<not> pairs_ok (\<lambda>a b. b < a) (p2_initial s)
                 \<or> p2_positions s ! 0 \<noteq> 1
                 \<or> p2_positions s ! 4 \<noteq> p2_samples_seen s
                 \<or> \<not> pairs_ok (\<lambda>a b. b \<le> a) (p2_positions s)
                 \<or> list_ex (\<lambda>p. p > p2_samples_seen s) (p2_positions s)
                 \<or> \<not> pairs_ok (\<lambda>a b. b < a) (p2_heights s)
                 \<or> \<not> pairs_ok (\<lambda>a b. b < a) (p2_desired s)
                 \<or> \<not> desired_matches_count s
              then Inl (InvalidState ''P2 marker ordering or boundary positions are inconsistent'')
              else Inr ())))"

section \<open>Several quantiles\<close>

text \<open>A list of estimators; each update is applied to all of them or to none.\<close>

type_synonym p2_quantiles = "p2_quantile list"

definition contains_f64 :: "f64 list \<Rightarrow> f64 \<Rightarrow> bool" where
  "contains_f64 xs x = list_ex (feq x) xs"

fun p2s_build :: "f64 list \<Rightarrow> f64 list \<Rightarrow> rill_error + p2_quantiles" where
  "p2s_build seen [] = Inr []"
| "p2s_build seen (q # qs) =
     (if contains_f64 seen q then Inl (InvalidState ''P2Quantiles requires distinct quantiles'')
      else and_then (p2_new q) (\<lambda>e. and_then (p2s_build (seen @ [q]) qs) (\<lambda>es. Inr (e # es))))"

definition p2s_new :: "f64 list \<Rightarrow> rill_error + p2_quantiles" where
  "p2s_new qs =
     (if qs = [] \<or> length qs > max_tracked_quantiles then Inl (InvalidCapacity (length qs))
      else p2s_build [] qs)"

definition p2s_update :: "f64 \<Rightarrow> p2_quantiles \<Rightarrow> (rill_error + unit) \<times> p2_quantiles" where
  "p2s_update v es = transact es (try_map (p2_update_inner v) es)"

definition p2s_values :: "p2_quantiles \<Rightarrow> (f64 \<times> f64 option) list" where
  "p2s_values es = map (\<lambda>e. (p2_quantile e, p2_value e)) es"

definition p2s_samples_seen :: "p2_quantiles \<Rightarrow> u64" where
  "p2s_samples_seen es = p2_samples_seen (es ! 0)"

definition p2s_reset :: "p2_quantiles \<Rightarrow> p2_quantiles" where
  "p2s_reset es = map p2_reset es"

fun p2s_validate_each :: "u64 \<Rightarrow> f64 list \<Rightarrow> p2_quantiles \<Rightarrow> rill_error + unit" where
  "p2s_validate_each samples seen [] = Inr ()"
| "p2s_validate_each samples seen (e # es) =
     and_then (p2_validate_state e) (\<lambda>_.
       if p2_samples_seen e \<noteq> samples \<or> list_ex (\<lambda>q. feq q (p2_quantile e)) seen
       then Inl (InvalidState ''P2Quantiles estimators are inconsistent'')
       else p2s_validate_each samples (seen @ [p2_quantile e]) es)"

definition p2s_validate_state :: "p2_quantiles \<Rightarrow> rill_error + unit" where
  "p2s_validate_state es =
     (if es = [] \<or> length es > max_tracked_quantiles
      then Inl (InvalidState ''P2Quantiles estimator count is out of bounds'')
      else p2s_validate_each (p2s_samples_seen es) [] es)"

section \<open>Chains\<close>

text \<open>Neighbours of a list are related; a value between its neighbours can be stored.\<close>

definition chain :: "('a \<Rightarrow> 'a \<Rightarrow> bool) \<Rightarrow> 'a list \<Rightarrow> bool" where
  "chain r xs \<longleftrightarrow> (\<forall>i. Suc i < length xs \<longrightarrow> r (xs ! i) (xs ! Suc i))"

lemma chain_nth: "chain r xs \<Longrightarrow> Suc i < length xs \<Longrightarrow> r (xs ! i) (xs ! Suc i)"
  by (simp add: chain_def)

lemma chain_update:
  assumes "chain r xs" "0 < i \<Longrightarrow> r (xs ! (i - 1)) x" "Suc i < length xs \<Longrightarrow> r x (xs ! Suc i)"
  shows "chain r (xs[i := x])"
  unfolding chain_def
proof (intro allI impI)
  fix j assume j: "Suc j < length (xs[i := x])"
  show "r (xs[i := x] ! j) (xs[i := x] ! Suc j)"
    using assms j chain_nth [OF assms(1), of j] by (cases "j = i"; cases "Suc j = i") auto
qed

lemma chain_trans:
  assumes "chain r xs" "\<And>x. r x x" "\<And>x y z. r x y \<Longrightarrow> r y z \<Longrightarrow> r x z"
  shows "i \<le> j \<Longrightarrow> j < length xs \<Longrightarrow> r (xs ! i) (xs ! j)"
proof (induction j)
  case (Suc j)
  have s: "r (xs ! j) (xs ! Suc j)" using chain_nth [OF assms(1), of j] Suc.prems by simp
  show ?case
  proof (cases "i = Suc j")
    case False
    then have "r (xs ! i) (xs ! j)" using Suc by simp
    then show ?thesis using assms(3) s by blast
  qed (simp add: assms(2))
qed (simp add: assms(2))

abbreviation heights_chain :: "f64 list \<Rightarrow> bool" where
  "heights_chain \<equiv> chain (\<lambda>a b. f_val a \<le> f_val b)"

lemma heights_chain_le: "heights_chain h \<Longrightarrow> i \<le> j \<Longrightarrow> j < length h \<Longrightarrow> f_val (h ! i) \<le> f_val (h ! j)"
  by (rule chain_trans [where r = "\<lambda>a b. f_val a \<le> f_val b"]) auto

section \<open>Marker positions\<close>

definition positions_ok :: "u64 \<Rightarrow> u64 list \<Rightarrow> bool" where
  "positions_ok n ps \<longleftrightarrow> length ps = 5 \<and> ps ! 0 = 1 \<and> ps ! 4 = n \<and> chain (<) ps"

lemma bump_positions_Inr:
  assumes "bump_positions cell ps = Inr qs" "cell + 1 \<le> length ps"
  shows "length qs = length ps"
    and "i < length ps \<Longrightarrow> qs ! i = (if i \<le> cell then ps ! i else ps ! i + 1)"
    and "i < length ps \<Longrightarrow> cell < i \<Longrightarrow> unat (ps ! i) + 1 < 2 ^ 64"
proof -
  obtain rs where rs: "list_all2 (\<lambda>p q. unat p + 1 < 2 ^ 64 \<and> q = p + 1) (drop (cell + 1) ps) rs"
    "qs = take (cell + 1) ps @ rs"
    using assms(1) by (auto simp: bump_positions_def result_simps checked_simps)
  have l: "length rs = length ps - (cell + 1)" using list_all2_lengthD [OF rs(1)] by simp
  show "length qs = length ps" using l rs(2) assms(2) by simp
  { fix i assume i: "i < length ps" "cell < i"
    then have "i - (cell + 1) < length (drop (cell + 1) ps)" by simp
    from list_all2_nthD [OF rs(1) this] have "unat (ps ! i) + 1 < 2 ^ 64 \<and> rs ! (i - (cell + 1)) = ps ! i + 1"
      using i by (simp add: nth_drop)
  } note r = this
  show "i < length ps \<Longrightarrow> cell < i \<Longrightarrow> unat (ps ! i) + 1 < 2 ^ 64" using r by blast
  show "i < length ps \<Longrightarrow> qs ! i = (if i \<le> cell then ps ! i else ps ! i + 1)"
    using r rs(2) by (auto simp: nth_append not_le)
qed

lemma bump_positions_ok:
  assumes "bump_positions cell ps = Inr qs" "positions_ok n ps" "cell < 4"
  shows "positions_ok (n + 1) qs"
proof -
  have l: "length ps = 5" and c: "cell + 1 \<le> length ps" using assms by (auto simp: positions_ok_def)
  note b = bump_positions_Inr [OF assms(1) c]
  have "chain (<) qs"
    unfolding chain_def
  proof (intro allI impI)
    fix i assume "Suc i < length qs"
    then have i: "Suc i < length ps" using b(1) by simp
    have lt: "ps ! i < ps ! Suc i" using assms(2) chain_nth [of "(<)" ps i] i by (simp add: positions_ok_def)
    show "qs ! i < qs ! Suc i"
      using lt i b(2) [of i] b(2) [of "Suc i"] b(3) [of i] b(3) [of "Suc i"]
      by (cases "i \<le> cell"; cases "Suc i \<le> cell") (auto simp: word_less_nat_alt unat_add_u64)
  qed
  then show ?thesis using assms b(1) b(2) [of 0] b(2) [of 4] l by (simp add: positions_ok_def)
qed

lemma adjust_marker_cases:
  assumes "adjust_marker s i = Inr s'"
  shows "s' = s \<or> (\<exists>h d. next_height s i d = Inr h \<and> is_finite h \<and>
     (d = 1 \<and> p2_positions s ! (i + 1) - p2_positions s ! i > 1
        \<and> s' = s\<lparr>p2_heights := (p2_heights s)[i := h], p2_positions := (p2_positions s)[i := p2_positions s ! i + 1]\<rparr>
      \<or> d = - 1 \<and> p2_positions s ! i - p2_positions s ! (i - 1) > 1
        \<and> s' = s\<lparr>p2_heights := (p2_heights s)[i := h], p2_positions := (p2_positions s)[i := p2_positions s ! i - 1]\<rparr>))"
proof -
  let ?d = "p2_desired s ! i - f_of_u64 (p2_positions s ! i)"
  have one: "(1 :: f64) \<le> x \<Longrightarrow> 0 < x" for x
    by (rule f_less_le_trans [of _ 1]) (simp_all add: less_finite)
  have neg: "x \<le> (- 1 :: f64) \<Longrightarrow> \<not> 0 < x" for x
  proof
    assume "x \<le> - 1" "0 < x"
    then have "(0 :: f64) < - 1" by (rule f_less_le_trans [rotated])
    then show False by (simp add: less_finite)
  qed
  show ?thesis
    using assms one [of ?d] neg [of ?d]
    by (auto simp: adjust_marker_def Let_def can_move_up_def can_move_down_def result_simps split: if_splits)
qed

lemma adjust_marker_positions:
  assumes "adjust_marker s i = Inr s'" "positions_ok n (p2_positions s)" "0 < i" "i < 4"
  shows "positions_ok n (p2_positions s')"
proof -
  let ?p = "p2_positions s"
  have l: "length ?p = 5" and c: "chain (<) ?p" using assms(2) by (simp_all add: positions_ok_def)
  have prev: "?p ! (i - 1) < ?p ! i" using chain_nth [OF c, of "i - 1"] assms(3,4) l by simp
  have nxt: "?p ! i < ?p ! Suc i" using chain_nth [OF c, of i] assms(4) l by simp
  have up: "chain (<) (?p[i := ?p ! i + 1])" if "?p ! (i + 1) - ?p ! i > 1"
  proof (rule chain_update [OF c])
    have "unat (?p ! i) + 1 < unat (?p ! (i + 1))"
      using that nxt by (simp add: word_less_nat_alt unat_minus_u64 order_less_imp_le)
    moreover have "unat (?p ! (i + 1)) < 2 ^ 64" by (rule unat_u64_less)
    ultimately have "unat (?p ! i + 1) = unat (?p ! i) + 1" by (subst unat_add_u64) auto
    then show "?p ! (i - 1) < ?p ! i + 1" "?p ! i + 1 < ?p ! Suc i"
      using prev \<open>unat (?p ! i) + 1 < unat (?p ! (i + 1))\<close> by (simp_all add: word_less_nat_alt)
  qed
  have down: "chain (<) (?p[i := ?p ! i - 1])" if "?p ! i - ?p ! (i - 1) > 1"
  proof (rule chain_update [OF c])
    have a: "unat (?p ! (i - 1)) + 1 < unat (?p ! i)"
      using that prev by (simp add: word_less_nat_alt unat_minus_u64 order_less_imp_le)
    then have "unat (?p ! i - 1) = unat (?p ! i) - 1"
      by (subst unat_minus_u64) (auto simp: word_le_nat_alt)
    then show "?p ! (i - 1) < ?p ! i - 1" "?p ! i - 1 < ?p ! Suc i"
      using nxt a by (simp_all add: word_less_nat_alt)
  qed
  show ?thesis
    using adjust_marker_cases [OF assms(1)] assms(2-4) l up down by (auto simp: positions_ok_def)
qed

section \<open>Marker heights\<close>

lemma f_of_direction_simps [simp]: "f_of_direction 1 = 1" "f_of_direction (- 1) = - 1"
  by code_simp+

text \<open>Positions up to \<open>2 ^ 53\<close> convert exactly, so their distance is at least two where a marker moves.\<close>

lemma position_distance:
  assumes "unat a + 1 < unat b" "unat b \<le> 2 ^ 53"
  shows "is_finite (f_of_u64 b - f_of_u64 a)" "2 \<le> f_val (f_of_u64 b - f_of_u64 a)"
    "is_finite (f_of_u64 a - f_of_u64 b)" "f_val (f_of_u64 a - f_of_u64 b) \<le> - 2"
proof -
  have v: "f_val (f_of_u64 b) = of_nat (unat b)" "f_val (f_of_u64 a) = of_nat (unat a)"
    using assms by (simp_all add: f_of_u64_def f_val_of_nat_exact)
  let ?d = "of_nat (unat b) - of_nat (unat a) :: rat"
  have d: "?d = of_int (int (unat b) - int (unat a))" by simp
  have "int (unat b) \<le> int (2 ^ 53)" "int (unat a) \<le> int (unat b)"
    using assms by (simp_all only: of_nat_le_iff)
  then have a: "\<bar>int (unat b) - int (unat a)\<bar> \<le> int (2 ^ 53)" by linarith
  have r: "rnd ?d = ?d" unfolding d using a by (intro rnd_of_int) (simp only: of_nat_power of_nat_numeral)
  from a have "of_int \<bar>int (unat b) - int (unat a)\<bar> \<le> (of_int (int (2 ^ 53)) :: rat)" by (simp only: of_int_le_iff)
  then have o: "\<not> overflows ?d" by (intro overflows_small [of _ 53]) simp_all
  have n: "of_nat (unat a) - of_nat (unat b) = - ?d" by simp
  show f1: "is_finite (f_of_u64 b - f_of_u64 a)" using r o by (simp add: finite_minus v)
  show f2: "is_finite (f_of_u64 a - f_of_u64 b)" using r o by (simp only: finite_minus f_of_u64_finite v n rnd_uminus overflows_simps not_False_eq_True)
  have "of_nat (unat a + 2) \<le> (of_nat (unat b) :: rat)" using assms(1) by (simp only: of_nat_le_iff)
  then have "2 \<le> ?d" by simp
  then show "2 \<le> f_val (f_of_u64 b - f_of_u64 a)" "f_val (f_of_u64 a - f_of_u64 b) \<le> - 2"
    using r n by (simp_all only: f_val_minus [OF f1] f_val_minus [OF f2] v rnd_uminus)
qed

lemma linear_step:
  assumes fin: "is_finite (m + d * (v - m) / n)" "is_finite n"
    and d: "d = 1 \<and> 2 \<le> f_val n \<or> d = - 1 \<and> f_val n \<le> - 2"
  shows "min (f_val m) (f_val v) \<le> f_val (m + d * (v - m) / n) \<and> f_val (m + d * (v - m) / n) \<le> max (f_val m) (f_val v)"
proof -
  have q: "is_finite (d * (v - m) / n)" using finite_plusD [OF fin(1)] by simp
  then have p: "is_finite (d * (v - m))" using finite_divideD fin(2) by blast
  then have "is_finite (v - m)" using finite_timesD by blast
  then have e: "f_val (m + d * (v - m) / n) = rnd (f_val m + rnd (rnd (f_val d * rnd (f_val v - f_val m)) / f_val n))"
    by (simp add: f_val_plus [OF fin(1)] f_val_divide [OF q fin(2)] f_val_times [OF p] f_val_minus)
  have "rnd (f_val d * rnd (f_val v - f_val m)) / f_val n = rnd (f_val v - f_val m) / \<bar>f_val n\<bar>"
    using d by auto
  then show ?thesis
    using e d rnd_step_between [of "f_val m" "f_val v" "\<bar>f_val n\<bar>"] by auto
qed

definition heights_ok :: "rat \<Rightarrow> rat \<Rightarrow> f64 list \<Rightarrow> bool" where
  "heights_ok lo hi h \<longleftrightarrow> length h = 5 \<and> list_all is_finite h \<and> heights_chain h
     \<and> lo \<le> f_val (h ! 0) \<and> f_val (h ! 4) \<le> hi"

lemma next_height_between:
  assumes nh: "next_height s i d = Inr x" and h: "heights_ok lo hi (p2_heights s)" and i: "0 < i" "i < 4"
    and p: "positions_ok n (p2_positions s)" "unat n \<le> 2 ^ 53"
    and d: "d = 1 \<and> p2_positions s ! (i + 1) - p2_positions s ! i > 1
      \<or> d = - 1 \<and> p2_positions s ! i - p2_positions s ! (i - 1) > 1"
    and x: "is_finite x"
  shows "f_val (p2_heights s ! (i - 1)) \<le> f_val x \<and> f_val x \<le> f_val (p2_heights s ! (i + 1))"
proof -
  let ?h = "p2_heights s" let ?p = "p2_positions s"
  have hc: "heights_chain ?h" and hl: "length ?h = 5" using h by (simp_all add: heights_ok_def)
  have fin: "is_finite (?h ! (i - 1))" "is_finite (?h ! (i + 1))"
    using h i by (auto simp: heights_ok_def list_all_length)
  have up: "f_val (?h ! i) \<le> f_val (?h ! (i + 1))" "f_val (?h ! (i - 1)) \<le> f_val (?h ! i)"
    using heights_chain_le [OF hc] hl i by simp_all
  have pc: "chain (<) ?p" "length ?p = 5" "?p ! 4 = n" using p by (simp_all add: positions_ok_def)
  have prev: "?p ! (i - 1) < ?p ! i" using chain_nth [OF pc(1), of "i - 1"] i pc by simp
  have nxt: "?p ! i < ?p ! (i + 1)" using chain_nth [OF pc(1), of i] i pc by simp
  have le: "unat (?p ! j) \<le> 2 ^ 53" if "j < 5" for j
  proof -
    have "chain (\<le>) ?p" using pc(1) by (simp add: chain_def order_less_imp_le)
    then have "?p ! j \<le> ?p ! 4" by (rule chain_trans) (use that pc(2) in auto)
    then show ?thesis using p(2) pc(3) by (simp add: word_le_nat_alt)
  qed
  from nh consider (par) "?h ! (i - 1) < x" "x < ?h ! (i + 1)" | (lin) "linear_candidate s i d = Inr x"
    by (auto simp: next_height_def result_simps split: if_splits)
  then show ?thesis
  proof cases
    case par
    then show ?thesis using fin x by (simp add: less_finite)
  next
    case lin
    show ?thesis
    proof (cases "d = 1")
      case True
      have g: "unat (?p ! i) + 1 < unat (?p ! (i + 1))"
        using d True nxt by (simp add: word_less_nat_alt unat_minus_u64 order_less_imp_le)
      have "x = ?h ! i + 1 * (?h ! (i + 1) - ?h ! i) / (f_of_u64 (?p ! (i + 1)) - f_of_u64 (?p ! i))"
        using lin True by (simp add: linear_candidate_def Let_def result_simps)
      then show ?thesis
        using linear_step [of "?h ! i" 1 "?h ! (i + 1)"] x position_distance [OF g le] i up by fastforce
    next
      case False
      then have dd: "d = - 1" using d by blast
      have g: "unat (?p ! (i - 1)) + 1 < unat (?p ! i)"
        using d dd prev by (simp add: word_less_nat_alt unat_minus_u64 order_less_imp_le)
      have "x = ?h ! i + - 1 * (?h ! (i - 1) - ?h ! i) / (f_of_u64 (?p ! (i - 1)) - f_of_u64 (?p ! i))"
        using lin dd by (simp add: linear_candidate_def Let_def result_simps)
      then show ?thesis
        using linear_step [of "?h ! i" "- 1" "?h ! (i - 1)"] x position_distance [OF g le] i up by fastforce
    qed
  qed
qed

lemma heights_ok_update:
  assumes "heights_ok lo hi h" "is_finite x" "0 < i" "i < 4" "f_val (h ! (i - 1)) \<le> f_val x" "f_val x \<le> f_val (h ! (i + 1))"
  shows "heights_ok lo hi (h[i := x])"
  using assms chain_update [of "\<lambda>a b. f_val a \<le> f_val b" h i x]
  by (auto simp: heights_ok_def list_all_iff dest: set_update_subset_insert [THEN subsetD])

lemma adjust_marker_heights:
  assumes "adjust_marker s i = Inr s'" "heights_ok lo hi (p2_heights s)" "positions_ok n (p2_positions s)"
    "unat n \<le> 2 ^ 53" "0 < i" "i < 4"
  shows "heights_ok lo hi (p2_heights s')"
  using adjust_marker_cases [OF assms(1)]
proof (elim disjE exE conjE)
  fix h d assume n: "next_height s i d = Inr h" "is_finite h" and d: "d = 1" "p2_positions s ! (i + 1) - p2_positions s ! i > 1"
    and s': "s' = s\<lparr>p2_heights := (p2_heights s)[i := h], p2_positions := (p2_positions s)[i := p2_positions s ! i + 1]\<rparr>"
  show ?thesis
    using heights_ok_update [OF assms(2) n(2) assms(5,6)] next_height_between [OF n(1) assms(2,5,6,3,4) _ n(2)] d s'
    by simp
next
  fix h d assume n: "next_height s i d = Inr h" "is_finite h" and d: "d = - 1" "p2_positions s ! i - p2_positions s ! (i - 1) > 1"
    and s': "s' = s\<lparr>p2_heights := (p2_heights s)[i := h], p2_positions := (p2_positions s)[i := p2_positions s ! i - 1]\<rparr>"
  show ?thesis
    using heights_ok_update [OF assms(2) n(2) assms(5,6)] next_height_between [OF n(1) assms(2,5,6,3,4) _ n(2)] d s'
    by simp
qed (use assms in simp)

lemma find_cell_ok:
  assumes "find_cell v h = (cell, h')" "heights_ok lo hi h" "is_finite v" "lo \<le> f_val v" "f_val v \<le> hi"
  shows "cell < 4" "heights_ok lo hi h'"
proof -
  show "cell < 4" using assms(1) by (auto simp: find_cell_def split: if_splits)
  have fin: "is_finite (h ! 0)" "is_finite (h ! 1)" "is_finite (h ! 4)" "is_finite (h ! 3)" and l: "length h = 5"
    using assms(2) by (auto simp: heights_ok_def list_all_length)
  have c: "heights_chain h" using assms(2) by (simp add: heights_ok_def)
  have a: "heights_ok lo hi (h[0 := v])" if "v < h ! 0"
    using that assms(2-5) fin l heights_chain_le [OF c, of 0 1]
      chain_update [OF c, of 0 v]
    by (auto simp: heights_ok_def list_all_iff less_finite dest: set_update_subset_insert [THEN subsetD])
  have b: "heights_ok lo hi (h[4 := v])" if "\<not> v \<le> h ! 4"
    using that assms(2-5) fin l heights_chain_le [OF c, of 3 4]
      chain_update [OF c, of 4 v]
    by (auto simp: heights_ok_def list_all_iff less_eq_finite dest: set_update_subset_insert [THEN subsetD])
  show "heights_ok lo hi h'"
    using assms(1,2) a b by (auto simp: find_cell_def split: if_splits)
qed

section \<open>Updates\<close>

definition p2_ok :: "p2_quantile \<Rightarrow> bool" where
  "p2_ok s \<longleftrightarrow> (if unat (p2_samples_seen s) < 5 then length (p2_initial s) = unat (p2_samples_seen s)
                else positions_ok (p2_samples_seen s) (p2_positions s))"

definition p2_within :: "rat \<Rightarrow> rat \<Rightarrow> p2_quantile \<Rightarrow> bool" where
  "p2_within lo hi s \<longleftrightarrow> (if unat (p2_samples_seen s) < 5
     then list_all (\<lambda>v. is_finite v \<and> lo \<le> f_val v \<and> f_val v \<le> hi) (p2_initial s)
     else heights_ok lo hi (p2_heights s))"

lemma adjust_markers_positions:
  assumes "try_fold adjust_marker s [1..<marker_count - 1] = Inr s'" "positions_ok n (p2_positions s)"
  shows "positions_ok n (p2_positions s')"
  by (rule try_fold_invariant [OF assms(1), where I = "\<lambda>s. positions_ok n (p2_positions s)"])
    (use assms(2) adjust_marker_positions in \<open>auto simp: marker_count_def\<close>)

lemma adjust_markers_heights:
  assumes "try_fold adjust_marker s [1..<marker_count - 1] = Inr s'" "positions_ok n (p2_positions s)"
    "heights_ok lo hi (p2_heights s)" "unat n \<le> 2 ^ 53"
  shows "heights_ok lo hi (p2_heights s')"
proof -
  have "positions_ok n (p2_positions s') \<and> heights_ok lo hi (p2_heights s')"
    by (rule try_fold_invariant [OF assms(1), where I = "\<lambda>s. positions_ok n (p2_positions s) \<and> heights_ok lo hi (p2_heights s)"])
      (use assms(2-4) adjust_marker_positions adjust_marker_heights in \<open>auto simp: marker_count_def\<close>)
  then show ?thesis by simp
qed

lemma p2_update_inner_cases:
  assumes "p2_update_inner v s = Inr s'"
  obtains (boot) "is_finite v" "unat (p2_samples_seen s) + 1 < 2 ^ 64" "unat (p2_samples_seen s) < 5"
      "s' = p2_bootstrap v (p2_samples_seen s + 1) s"
  | (full) cell h ps ds t where "is_finite v" "unat (p2_samples_seen s) + 1 < 2 ^ 64" "5 \<le> unat (p2_samples_seen s)"
      "find_cell v (p2_heights s) = (cell, h)" "bump_positions cell (p2_positions s) = Inr ps"
      "try_fold adjust_marker (s\<lparr>p2_heights := h, p2_positions := ps, p2_desired := ds\<rparr>) [1..<marker_count - 1] = Inr t"
      "s' = t\<lparr>p2_samples_seen := p2_samples_seen s + 1\<rparr>"
  using assms
  by (auto simp: p2_update_inner_def result_simps marker_count_def split: if_splits prod.splits)

lemma p2_update_Inr: "p2_update v s = (Inr u, s') \<longleftrightarrow> p2_update_inner v s = Inr s'"
  by (simp add: p2_update_def transact_Inr)

lemma p2_bootstrap_seen: "p2_samples_seen (p2_bootstrap v n s) = n"
  by (simp add: p2_bootstrap_def Let_def)

lemma positions_initial: "unat n = 5 \<Longrightarrow> positions_ok n [1, 2, 3, 4, 5]"
proof -
  assume "unat n = 5"
  then have "n = 5" using word_unat_eq_iff [of n 5] by simp
  then show ?thesis by (auto simp: positions_ok_def chain_def less_Suc_eq)
qed

lemma p2_update_ok:
  assumes "p2_ok s" "p2_update_inner v s = Inr s'"
  shows "p2_ok s'" "unat (p2_samples_seen s') = unat (p2_samples_seen s) + 1"
proof -
  from assms(2) have "p2_ok s' \<and> unat (p2_samples_seen s') = unat (p2_samples_seen s) + 1"
  proof (cases rule: p2_update_inner_cases)
    case boot
    have n: "unat (p2_samples_seen s + 1) = unat (p2_samples_seen s) + 1" using boot(2) by (rule unat_inc)
    have "length (p2_initial s) = unat (p2_samples_seen s)" using assms(1) boot(3) by (simp add: p2_ok_def)
    then show ?thesis
      using n boot positions_initial [of "p2_samples_seen s + 1"]
      by (auto simp: p2_bootstrap_seen p2_ok_def) (auto simp: p2_bootstrap_def Let_def marker_count_def)
  next
    case (full cell h ps ds t)
    have n: "unat (p2_samples_seen s + 1) = unat (p2_samples_seen s) + 1" using full(2) by (rule unat_inc)
    have "positions_ok (p2_samples_seen s) (p2_positions s)" using assms(1) full(3) by (simp add: p2_ok_def)
    moreover have "cell < 4" using full(4) by (auto simp: find_cell_def split: if_splits)
    ultimately have "positions_ok (p2_samples_seen s + 1) ps" using bump_positions_ok full(5) by blast
    then have "positions_ok (p2_samples_seen s + 1) (p2_positions t)"
      using adjust_markers_positions [OF full(6)] by simp
    then show ?thesis using full n by (simp add: p2_ok_def)
  qed
  then show "p2_ok s'" "unat (p2_samples_seen s') = unat (p2_samples_seen s) + 1" by simp_all
qed

lemma heights_initial:
  assumes "length xs = 5" "list_all (\<lambda>v. is_finite v \<and> lo \<le> f_val v \<and> f_val v \<le> hi) xs"
  shows "heights_ok lo hi (sort_f64 xs)"
proof -
  have f: "list_all is_finite xs" using assms(2) by (simp add: list_all_iff)
  have "heights_chain (sort_f64 xs)"
    using sorted_sort_f64 [OF f] by (auto simp: chain_def sorted_iff_nth_Suc)
  moreover have "sort_f64 xs ! 0 \<in> set xs" "sort_f64 xs ! 4 \<in> set xs"
    using assms(1) nth_mem [of _ "sort_f64 xs"] by auto
  ultimately show ?thesis using assms f by (auto simp: heights_ok_def list_all_iff)
qed

lemma p2_update_within:
  assumes "p2_ok s" "p2_within lo hi s" "p2_update_inner v s = Inr s'" "lo \<le> f_val v" "f_val v \<le> hi"
    "unat (p2_samples_seen s') \<le> 2 ^ 53"
  shows "p2_within lo hi s'"
  using assms(3)
proof (cases rule: p2_update_inner_cases)
  case boot
  have n: "unat (p2_samples_seen s + 1) = unat (p2_samples_seen s) + 1" using boot(2) by (rule unat_inc)
  have l: "length (p2_initial s) = unat (p2_samples_seen s)" using assms(1) boot(3) by (simp add: p2_ok_def)
  have b: "list_all (\<lambda>v. is_finite v \<and> lo \<le> f_val v \<and> f_val v \<le> hi) (p2_initial s @ [v])"
    using assms boot by (simp add: p2_within_def)
  have i: "p2_initial s' = (if unat (p2_samples_seen s + 1) = 5 then sort_f64 (p2_initial s @ [v]) else p2_initial s @ [v])"
    and h: "unat (p2_samples_seen s + 1) = 5 \<Longrightarrow> p2_heights s' = sort_f64 (p2_initial s @ [v])"
    using boot(4) by (simp_all add: p2_bootstrap_def Let_def marker_count_def)
  show ?thesis
  proof (cases "unat (p2_samples_seen s + 1) = 5")
    case True
    then have "heights_ok lo hi (sort_f64 (p2_initial s @ [v]))" using heights_initial [OF _ b] l n by simp
    then show ?thesis using True boot(4) h by (simp add: p2_within_def p2_bootstrap_seen)
  next
    case False
    then show ?thesis using n boot i b by (simp add: p2_within_def p2_bootstrap_seen)
  qed
next
  case (full cell h ps ds t)
  have n: "unat (p2_samples_seen s + 1) = unat (p2_samples_seen s) + 1" using full(2) by (rule unat_inc)
  have p: "positions_ok (p2_samples_seen s) (p2_positions s)" and hs: "heights_ok lo hi (p2_heights s)"
    using assms(1,2) full(3) by (simp_all add: p2_ok_def p2_within_def)
  note c = find_cell_ok [OF full(4) hs full(1) assms(4,5)]
  have "positions_ok (p2_samples_seen s + 1) ps" using bump_positions_ok [OF full(5) p c(1)] .
  then have "heights_ok lo hi (p2_heights t)"
    using adjust_markers_heights [OF full(6)] c(2) assms(6) full(7) by simp
  then show ?thesis using full(3,7) n by (simp add: p2_within_def)
qed

lemma p2_reset_ok: "p2_ok (p2_reset s)"
  by (simp add: p2_ok_def p2_reset_def)

interpretation p2: online_statistic p2_update p2_ok p2_samples_seen p2_reset
proof unfold_locales
  show "p2_update x s = (Inl e, s') \<Longrightarrow> s' = s" for x s e s'
    by (simp add: p2_update_def transact_Inl)
  show "p2_ok s \<Longrightarrow> p2_update x s = (Inr r, s') \<Longrightarrow> p2_ok s'" for s x r s'
    using p2_update_ok by (simp add: p2_update_Inr)
  show "p2_update x s = (Inr u, s') \<Longrightarrow> unat (p2_samples_seen s') = unat (p2_samples_seen s) + 1" for x s u s'
    unfolding p2_update_Inr
    by (erule p2_update_inner_cases) (simp_all add: p2_bootstrap_seen unat_inc)
qed (simp_all add: p2_reset_def p2_ok_def)

lemma p2_run_within:
  assumes "p2_ok s" "p2_within lo hi s" "unat (p2_samples_seen s) + length (accepted_ops p2_update xs s) \<le> 2 ^ 53"
    "list_all (\<lambda>v. lo \<le> f_val v \<and> f_val v \<le> hi) (accepted_ops p2_update xs s)"
  shows "p2_within lo hi (run_ops p2_update xs s)"
  using assms
proof (induction xs arbitrary: s)
  case (Cons x xs)
  obtain r s' where e: "p2_update x s = (r, s')" by fastforce
  show ?case
  proof (cases r)
    case (Inl err)
    then have "s' = s" using e by (simp add: p2_update_def transact_Inl)
    then show ?thesis using Cons e Inl by simp
  next
    case (Inr u)
    then have i: "p2_update_inner x s = Inr s'" using e by (simp add: p2_update_Inr)
    have b: "lo \<le> f_val x" "f_val x \<le> hi" "unat (p2_samples_seen s) + 1 + length (accepted_ops p2_update xs s') \<le> 2 ^ 53"
      "list_all (\<lambda>v. lo \<le> f_val v \<and> f_val v \<le> hi) (accepted_ops p2_update xs s')"
      using Cons.prems(3,4) e Inr by simp_all
    note o = p2_update_ok [OF Cons.prems(1) i]
    have "p2_within lo hi s'" using p2_update_within [OF Cons.prems(1,2) i b(1,2)] o(2) b(3) by simp
    then show ?thesis using Cons.IH [of s'] o b(3,4) e by simp
  qed
qed simp

lemma p2_new_ok: "p2_new q = Inr s \<Longrightarrow> p2_ok s \<and> p2_within lo hi s \<and> p2_samples_seen s = 0"
  by (auto simp: p2_new_def result_simps p2_ok_def p2_within_def split: if_splits)

lemma p2_bootstrap_step:
  "is_finite v \<Longrightarrow> unat (p2_samples_seen s) < 5 \<Longrightarrow>
   p2_update v s = (Inr (), p2_bootstrap v (p2_samples_seen s + 1) s)"
  by (simp add: p2_update_Inr p2_update_inner_def checked_increment_def checked_add_u64_def ok_or_def
      marker_count_def ensure_finite_def)

definition demo_p2 :: p2_quantile where
  "demo_p2 = \<lparr>p2_quantile = f_of_rat (1 / 2), p2_samples_seen = 0, p2_initial = [],
     p2_heights = replicate marker_count 0, p2_positions = replicate marker_count 0,
     p2_desired = replicate marker_count 0\<rparr>"

lemma demo_p2_new: "p2_new (f_of_rat (1 / 2)) = Inr demo_p2"
proof -
  have "is_finite (f_of_rat (1 / 2))" "\<not> f_of_rat (1 / 2) \<le> 0" "\<not> 1 \<le> f_of_rat (1 / 2)"
    by code_simp+
  then show ?thesis by (simp add: p2_new_def ensure_finite_def demo_p2_def)
qed

definition demo_values5 :: "f64 list" where
  "demo_values5 = map f_of_nat [3, 1, 4, 5, 9]"

lemma demo_p2_accepted: "accepted_ops p2_update demo_values5 demo_p2 = demo_values5"
  by (simp add: demo_values5_def p2_bootstrap_step p2_bootstrap_seen demo_p2_def)

text \<open>
  C14: markers. After five to \<open>2 ^ 53\<close> accepted observations, the five marker positions increase
  strictly from \<open>1\<close> to the number of observations, the marker heights are sorted, and the estimate
  is a finite double within the range of the observations.
\<close>
theorem p2_markers_ordered:
  assumes "p2_new q = Inr s0" and "s = run_ops p2_update xs s0"
    and "n = length (accepted_ops p2_update xs s0)" "5 \<le> n" "n \<le> 2 ^ 53"
    and "list_all (\<lambda>v. lo \<le> f_val v \<and> f_val v \<le> hi) (accepted_ops p2_update xs s0)"
  shows "chain (<) (p2_positions s) \<and> p2_positions s ! 0 = 1 \<and> unat (p2_positions s ! 4) = n
    \<and> heights_chain (p2_heights s)
    \<and> (\<exists>m. p2_value s = Some m \<and> is_finite m \<and> lo \<le> f_val m \<and> f_val m \<le> hi)"
proof -
  note n = p2_new_ok [OF assms(1), of lo hi]
  have ok: "p2_ok s" and seen: "unat (p2_samples_seen s) = n"
    using n p2.run_inv [of s0 xs] p2.run_seen [of xs s0] assms(2,3) by simp_all
  have "p2_within lo hi s" using p2_run_within [of s0 lo hi xs] n assms by simp
  then have h: "heights_ok lo hi (p2_heights s)" and p: "positions_ok (p2_samples_seen s) (p2_positions s)"
    using ok seen assms(4) by (simp_all add: p2_ok_def p2_within_def)
  have c: "heights_chain (p2_heights s)" and l: "length (p2_heights s) = 5" using h by (simp_all add: heights_ok_def)
  have "p2_value s = Some (p2_heights s ! 2)"
    using seen assms(4) by (auto simp: p2_value_def marker_count_def)
  moreover have "is_finite (p2_heights s ! 2)" "lo \<le> f_val (p2_heights s ! 2)" "f_val (p2_heights s ! 2) \<le> hi"
    using h l heights_chain_le [OF c, of 0 2] heights_chain_le [OF c, of 2 4]
    by (auto simp: heights_ok_def list_all_length)
  ultimately show ?thesis using p c seen by (simp add: positions_ok_def)
qed

lemma p2_markers_ordered_witness:
  "let s = run_ops p2_update demo_values5 demo_p2
   in chain (<) (p2_positions s) \<and> (\<exists>m. p2_value s = Some m \<and> is_finite m \<and> 1 \<le> f_val m \<and> f_val m \<le> 9)"
proof -
  have "length demo_values5 = 5" "list_all (\<lambda>v. 1 \<le> f_val v \<and> f_val v \<le> 9) demo_values5"
    by (simp_all add: demo_values5_def f_val_of_nat_exact)
  then show ?thesis
    using p2_markers_ordered [OF demo_p2_new refl refl, of demo_values5 1 9] by (simp add: demo_p2_accepted)
qed

end
