(* ===== verification/Robust.thy ===== *)
theory Robust imports Stats F64_Order begin

text \<open>
  The robust statistics of \<open>src/stats/robust.rs\<close>: the median and the median absolute deviation of a
  bounded window, and the mean of observations clipped to a fixed interval. The decoder of a stored
  window receives the sequence of numbers that \<open>serde\<close> delivers.
\<close>

section \<open>Median and MAD of a window\<close>

definition max_robust_window_size :: usize where "max_robust_window_size = 65536"

definition mad_normal_consistency_scale :: f64 where
  "mad_normal_consistency_scale = f_of_rat (1482602218505602 / 10 ^ 15)"

definition modified_z_normal_factor :: f64 where
  "modified_z_normal_factor = f_of_rat (6744897501960817 / 10 ^ 16)"

record median_mad_summary =
  mm_samples :: usize
  mm_median :: f64
  mm_mad :: f64

definition normal_scaled_mad :: "median_mad_summary \<Rightarrow> rill_error + f64" where
  "normal_scaled_mad m =
     (let scaled = mm_mad m * mad_normal_consistency_scale in
      and_then (ensure_finite ''normal-scaled MAD'' scaled) (\<lambda>_. Inr scaled))"

datatype modified_z_score =
    Defined (zs_score: f64) (zs_median: f64) (zs_mad: f64)
  | ZeroMad (zs_zero_median: f64) (zs_observation: f64)

fun z_score :: "modified_z_score \<Rightarrow> f64 option" where
  "z_score (Defined s m d) = Some s"
| "z_score (ZeroMad m x) = None"

record rolling_median_mad =
  rmm_window :: "f64 list"
  rmm_capacity :: usize
  rmm_min_samples :: usize
  rmm_samples_seen :: u64

definition validate_median_mad_config :: "usize \<Rightarrow> usize \<Rightarrow> rill_error + unit" where
  "validate_median_mad_config capacity min_samples =
     (if capacity = 0 then Inl (InvalidCapacity capacity)
      else if capacity > max_robust_window_size
      then Inl (InvalidState (''rolling median/MAD capacity '' @ decimal capacity @ '' exceeds maximum ''
                  @ decimal max_robust_window_size))
      else if min_samples = 0 \<or> min_samples > capacity
      then Inl (InvalidState (''rolling median/MAD min_samples '' @ decimal min_samples
                  @ '' must be in 1..='' @ decimal capacity))
      else Inr ())"

definition median_mad_new :: "usize \<Rightarrow> usize \<Rightarrow> rill_error + rolling_median_mad" where
  "median_mad_new capacity min_samples =
     and_then (validate_median_mad_config capacity min_samples) (\<lambda>_.
       Inr \<lparr>rmm_window = [], rmm_capacity = capacity, rmm_min_samples = min_samples, rmm_samples_seen = 0\<rparr>)"

definition median_mad_ready :: "rolling_median_mad \<Rightarrow> bool" where
  "median_mad_ready s \<longleftrightarrow> length (rmm_window s) \<ge> rmm_min_samples s"

definition finite_midpoint :: "f64 \<Rightarrow> f64 \<Rightarrow> f64" where
  "finite_midpoint lower upper =
     (if is_sign_negative lower = is_sign_negative upper
      then lower + (upper - lower) / f_of_nat 2
      else lower / f_of_nat 2 + upper / f_of_nat 2)"

definition median_of_sorted :: "f64 list \<Rightarrow> f64" where
  "median_of_sorted xs =
     (let midpoint = length xs div 2 in
      if length xs mod 2 = 1 then xs ! midpoint
      else finite_midpoint (xs ! (midpoint - 1)) (xs ! midpoint))"

definition absolute_distance :: "f64 \<Rightarrow> f64 \<Rightarrow> f64" where
  "absolute_distance v center = (let d = \<bar>v - center\<bar> in if is_finite d then d else f_inf)"

definition median_mad_of :: "rolling_median_mad \<Rightarrow> rill_error + median_mad_summary" where
  "median_mad_of s =
     (if \<not> median_mad_ready s then Inl InsufficientData
      else let ordered = sort_f64 (rmm_window s);
               median = median_of_sorted ordered;
               distances = sort_f64 (map (\<lambda>v. absolute_distance v median) ordered);
               mad = median_of_sorted distances
           in if \<not> is_finite mad then Inl (InvalidState ''rolling MAD exceeds the finite f64 range'')
              else Inr \<lparr>mm_samples = length distances, mm_median = median, mm_mad = mad\<rparr>)"

definition modified_z_score :: "rolling_median_mad \<Rightarrow> f64 \<Rightarrow> rill_error + modified_z_score" where
  "modified_z_score s observation =
     and_then (ensure_finite ''observation'' observation) (\<lambda>_.
     and_then (median_mad_of s) (\<lambda>m.
       if feq (mm_mad m) 0 then Inr (ZeroMad (mm_median m) observation)
       else let direct = observation - mm_median m;
                standardized = (if is_finite direct then direct / mm_mad m
                                else observation / mm_mad m - mm_median m / mm_mad m);
                score = modified_z_normal_factor * standardized
            in and_then (ensure_finite ''modified z-score'' score) (\<lambda>_.
                 Inr (Defined score (mm_median m) (mm_mad m)))))"

definition median_mad_update :: "f64 \<Rightarrow> rolling_median_mad \<Rightarrow> (rill_error + unit) \<times> rolling_median_mad" where
  "median_mad_update v s = transact s
     (and_then (ensure_finite ''value'' v) (\<lambda>_.
      and_then (checked_increment (rmm_samples_seen s) ''rolling median/MAD'') (\<lambda>n.
        Inr (s\<lparr>rmm_window := window_push (rmm_capacity s) v (rmm_window s), rmm_samples_seen := n\<rparr>))))"

definition median_mad_reset :: "rolling_median_mad \<Rightarrow> rolling_median_mad" where
  "median_mad_reset s = s\<lparr>rmm_window := [], rmm_samples_seen := 0\<rparr>"

definition median_mad_validate_state :: "rolling_median_mad \<Rightarrow> rill_error + unit" where
  "median_mad_validate_state s =
     and_then (validate_median_mad_config (rmm_capacity s) (rmm_min_samples s)) (\<lambda>_.
       if length (rmm_window s) > rmm_capacity s
       then Inl (InvalidState ''rolling median/MAD window exceeds configured capacity'')
       else if length (rmm_window s) \<noteq> min (unat (rmm_samples_seen s)) (rmm_capacity s)
       then Inl (InvalidState ''rolling median/MAD window length disagrees with samples_seen'')
       else try_for_each (ensure_finite ''rolling median/MAD window value'') (rmm_window s))"

text \<open>Reading a stored window: the loop of \<open>visit_seq\<close>, then the validation of the state.\<close>

datatype decode_error = Custom string | Invalid rill_error

fun visit_window :: "f64 list \<Rightarrow> f64 list \<Rightarrow> decode_error + f64 list" where
  "visit_window window [] = Inr window"
| "visit_window window (v # vs) =
     (if length window = max_robust_window_size
      then Inl (Custom (''rolling median/MAD window exceeds maximum '' @ decimal max_robust_window_size))
      else if \<not> is_finite v then Inl (Custom ''rolling median/MAD window contains a non-finite value'')
      else visit_window (window @ [v]) vs)"

definition median_mad_deserialize ::
    "f64 list \<Rightarrow> usize \<Rightarrow> usize \<Rightarrow> u64 \<Rightarrow> decode_error + rolling_median_mad" where
  "median_mad_deserialize values capacity min_samples samples_seen =
     and_then (visit_window [] values) (\<lambda>window.
       let s = \<lparr>rmm_window = window, rmm_capacity = capacity, rmm_min_samples = min_samples,
                rmm_samples_seen = samples_seen\<rparr>
       in and_then (map_err Invalid (median_mad_validate_state s)) (\<lambda>_. Inr s))"

section \<open>Clipped mean\<close>

record clipped_mean =
  cm_lower :: f64
  cm_upper :: f64
  cm_count :: u64
  cm_mean :: f64

definition clipped_mean_new :: "f64 \<Rightarrow> f64 \<Rightarrow> rill_error + clipped_mean" where
  "clipped_mean_new lower upper =
     and_then (ensure_finite ''clipped mean lower'' lower) (\<lambda>_.
     and_then (ensure_finite ''clipped mean upper'' upper) (\<lambda>_.
       if upper < lower then Inl (InvalidState ''clipped mean lower bound exceeds upper bound'')
       else Inr \<lparr>cm_lower = lower, cm_upper = upper, cm_count = 0, cm_mean = 0\<rparr>))"

definition clipped_mean_update :: "f64 \<Rightarrow> clipped_mean \<Rightarrow> (rill_error + unit) \<times> clipped_mean" where
  "clipped_mean_update v s = transact s
     (and_then (ensure_finite ''value'' v) (\<lambda>_.
        let clipped = f_clamp (cm_lower s) (cm_upper s) v in
        and_then (checked_increment (cm_count s) ''clipped mean count'') (\<lambda>n.
          let delta = clipped - cm_mean s in
          and_then (ensure_finite ''clipped mean delta'' delta) (\<lambda>_.
            let next_mean = cm_mean s + delta / f_of_u64 n in
            and_then (ensure_finite ''clipped mean'' next_mean) (\<lambda>_.
              Inr (s\<lparr>cm_count := n, cm_mean := next_mean\<rparr>))))))"

definition clipped_mean_reset :: "clipped_mean \<Rightarrow> clipped_mean" where
  "clipped_mean_reset s = s\<lparr>cm_count := 0, cm_mean := 0\<rparr>"

definition clipped_mean_validate_state :: "clipped_mean \<Rightarrow> rill_error + unit" where
  "clipped_mean_validate_state s =
     and_then (clipped_mean_new (cm_lower s) (cm_upper s)) (\<lambda>_.
     and_then (ensure_finite ''clipped mean'' (cm_mean s)) (\<lambda>_.
       if cm_count s = 0 \<and> \<not> feq (cm_mean s) 0
       then Inl (InvalidState ''empty clipped mean must be zero'')
       else if cm_count s > 0 \<and> (cm_mean s < cm_lower s \<or> cm_mean s > cm_upper s)
       then Inl (InvalidState ''clipped mean lies outside its clipping interval'')
       else Inr ()))"

section \<open>Midpoints and medians\<close>

lemma sign_val:
  "is_finite x \<Longrightarrow> is_sign_negative x \<Longrightarrow> f_val x \<le> 0"
  "is_finite x \<Longrightarrow> \<not> is_sign_negative x \<Longrightarrow> 0 \<le> f_val x"
  by (transfer, case_tac x, auto)+

lemma overflows_between: "f_val a \<le> y \<Longrightarrow> y \<le> f_val b \<Longrightarrow> \<not> overflows y"
  using f_val_no_overflow [of a] f_val_no_overflow [of b] unfolding overflows_iff by linarith

lemma two_f64 [simp]: "f_val (f_of_nat 2) = 2" "is_finite (f_of_nat 2)"
  by (simp_all add: f_val_of_nat_exact)

lemma half_finite:
  assumes "is_finite x"
  shows "is_finite (x / f_of_nat 2)" "f_val (x / f_of_nat 2) = rnd (f_val x / 2)"
    "min 0 (f_val x) \<le> f_val (x / f_of_nat 2) \<and> f_val (x / f_of_nat 2) \<le> max 0 (f_val x)"
proof -
  have b: "min 0 (f_val x) \<le> rnd (f_val x / 2) \<and> rnd (f_val x / 2) \<le> max 0 (f_val x)"
    by (cases "f_val x \<le> 0") (auto intro!: rnd_lower rnd_upper)
  then have "\<not> overflows (rnd (f_val x / 2))"
    using f_val_no_overflow [of x] unfolding overflows_iff by linarith
  then show f: "is_finite (x / f_of_nat 2)" using assms by (simp add: finite_divide)
  show v: "f_val (x / f_of_nat 2) = rnd (f_val x / 2)" by (simp add: f_val_divide [OF f])
  show "min 0 (f_val x) \<le> f_val (x / f_of_nat 2) \<and> f_val (x / f_of_nat 2) \<le> max 0 (f_val x)"
    using b v by simp
qed

lemma finite_midpoint_between:
  assumes fin: "is_finite l" "is_finite u" and le: "f_val l \<le> f_val u"
  shows "is_finite (finite_midpoint l u)" "f_val l \<le> f_val (finite_midpoint l u)"
    "f_val (finite_midpoint l u) \<le> f_val u"
proof -
  have "is_finite (finite_midpoint l u) \<and> f_val l \<le> f_val (finite_midpoint l u) \<and> f_val (finite_midpoint l u) \<le> f_val u"
  proof (cases "is_sign_negative l = is_sign_negative u")
    case True
    have "f_val l \<le> 0 \<and> f_val u \<le> 0 \<or> 0 \<le> f_val l \<and> 0 \<le> f_val u"
      using True sign_val [OF fin(1)] sign_val [OF fin(2)] by blast
    then have "\<bar>rnd (f_val u - f_val l)\<bar> \<le> max \<bar>f_val l\<bar> \<bar>f_val u\<bar>"
    proof
      assume "f_val l \<le> 0 \<and> f_val u \<le> 0"
      then have "rnd (f_val u - f_val l) \<le> - f_val l" "0 \<le> rnd (f_val u - f_val l)"
        using le rnd_upper [of "- f_val l" "f_val u - f_val l"] rnd_pos by auto
      then show ?thesis by auto
    next
      assume "0 \<le> f_val l \<and> 0 \<le> f_val u"
      then have "rnd (f_val u - f_val l) \<le> f_val u" "0 \<le> rnd (f_val u - f_val l)"
        using le rnd_upper [of "f_val u" "f_val u - f_val l"] rnd_pos by auto
      then show ?thesis by auto
    qed
    then have "\<not> overflows (rnd (f_val u - f_val l))"
      using f_val_no_overflow [of l] f_val_no_overflow [of u] unfolding overflows_iff by linarith
    then have d: "is_finite (u - l)" using fin by (simp add: finite_minus)
    note h = half_finite [OF d]
    have b: "f_val l \<le> rnd (f_val l + f_val ((u - l) / f_of_nat 2)) \<and> rnd (f_val l + f_val ((u - l) / f_of_nat 2)) \<le> f_val u"
      using rnd_step_between [of "f_val l" "f_val u" 2] le by (simp add: h(2) f_val_minus [OF d])
    then have "is_finite (l + (u - l) / f_of_nat 2)"
      using fin h(1) overflows_between [of l _ u] by (simp add: finite_plus)
    then show ?thesis using True b by (simp add: finite_midpoint_def f_val_plus)
  next
    case False
    have s: "f_val l \<le> 0" "0 \<le> f_val u"
      using False le sign_val [OF fin(1)] sign_val [OF fin(2)] by fastforce+
    note hl = half_finite [OF fin(1)] and hu = half_finite [OF fin(2)]
    have "f_val l \<le> f_val (l / f_of_nat 2) + f_val (u / f_of_nat 2)"
      "f_val (l / f_of_nat 2) + f_val (u / f_of_nat 2) \<le> f_val u"
      using hl(3) hu(3) s by simp_all
    then have b: "f_val l \<le> rnd (f_val (l / f_of_nat 2) + f_val (u / f_of_nat 2))"
      "rnd (f_val (l / f_of_nat 2) + f_val (u / f_of_nat 2)) \<le> f_val u"
      by (simp_all add: rnd_lower rnd_upper)
    then have "is_finite (l / f_of_nat 2 + u / f_of_nat 2)"
      using hl(1) hu(1) overflows_between [of l _ u] by (simp add: finite_plus)
    then show ?thesis using False b by (simp add: finite_midpoint_def f_val_plus)
  qed
  then show "is_finite (finite_midpoint l u)" "f_val l \<le> f_val (finite_midpoint l u)"
    "f_val (finite_midpoint l u) \<le> f_val u" by simp_all
qed

text \<open>A finite midpoint comes from finite ends.\<close>

lemma finite_midpointD: "is_finite (finite_midpoint l u) \<Longrightarrow> is_finite l \<and> is_finite u"
  unfolding finite_midpoint_def
  by (auto split: if_splits dest!: finite_plusD finite_divideD [OF _ two_f64(2)] finite_minusD)

lemma median_of_sorted_between:
  assumes "sorted (map f_val xs)" "list_all is_finite xs" "xs \<noteq> []" "list_all (\<lambda>v. lo \<le> f_val v \<and> f_val v \<le> hi) xs"
  shows "is_finite (median_of_sorted xs) \<and> lo \<le> f_val (median_of_sorted xs) \<and> f_val (median_of_sorted xs) \<le> hi"
proof -
  let ?m = "length xs div 2"
  have m: "?m < length xs" using assms(3) by (cases xs) auto
  show ?thesis
  proof (cases "length xs mod 2 = 1")
    case True
    then show ?thesis using assms m by (simp add: median_of_sorted_def Let_def list_all_length)
  next
    case False
    have l: "is_finite (xs ! (?m - 1))" "is_finite (xs ! ?m)" "lo \<le> f_val (xs ! (?m - 1))" "f_val (xs ! ?m) \<le> hi"
      using assms(2,4) m by (simp_all add: list_all_length less_imp_diff_less)
    have "f_val (xs ! (?m - 1)) \<le> f_val (xs ! ?m)"
      using assms(1) m by (auto simp: sorted_iff_nth_mono)
    note b = finite_midpoint_between [OF l(1,2) this]
    have "median_of_sorted xs = finite_midpoint (xs ! (?m - 1)) (xs ! ?m)"
      using False by (simp only: median_of_sorted_def Let_def if_False)
    then show ?thesis using b order_trans [OF l(3) b(2)] order_trans [OF b(3) l(4)] by simp
  qed
qed

lemma finite_midpoint_nonneg:
  assumes "is_finite (finite_midpoint l u)" "0 \<le> f_val l" "0 \<le> f_val u"
  shows "0 \<le> f_val (finite_midpoint l u)"
proof (cases "is_sign_negative l = is_sign_negative u")
  case True
  then have "is_finite (l + (u - l) / f_of_nat 2)" using assms(1) by (simp add: finite_midpoint_def)
  from f_step_between [OF this] show ?thesis using True assms(2,3) by (simp add: finite_midpoint_def min_def split: if_splits)
next
  case False
  then have f: "is_finite (l / f_of_nat 2 + u / f_of_nat 2)" using assms(1) by (simp add: finite_midpoint_def)
  have "is_finite l" "is_finite u" using finite_midpointD [OF assms(1)] by simp_all
  then have "0 \<le> f_val (l / f_of_nat 2)" "0 \<le> f_val (u / f_of_nat 2)"
    using half_finite(3) [of l] half_finite(3) [of u] assms(2,3) by simp_all
  then show ?thesis using False rnd_pos by (simp add: finite_midpoint_def f_val_plus [OF f])
qed

lemma median_of_sorted_nonneg:
  assumes "is_finite (median_of_sorted xs)" "xs \<noteq> []" "list_all (\<lambda>v. 0 \<le> f_val v) xs"
  shows "0 \<le> f_val (median_of_sorted xs)"
proof -
  let ?m = "length xs div 2"
  have m: "?m < length xs" using assms(2) by (cases xs) auto
  then have "0 \<le> f_val (xs ! ?m)" "0 \<le> f_val (xs ! (?m - 1))"
    using assms(3) by (simp_all add: list_all_length less_imp_diff_less)
  then show ?thesis
    using assms(1) finite_midpoint_nonneg by (auto simp: median_of_sorted_def Let_def split: if_splits)
qed

lemma absolute_distance_nonneg: "0 \<le> f_val (absolute_distance v c)"
proof -
  have "f_val f_inf = 0" by (transfer, simp)
  then show ?thesis by (simp add: absolute_distance_def Let_def)
qed

section \<open>Invariants\<close>

definition median_mad_ok :: "rolling_median_mad \<Rightarrow> bool" where
  "median_mad_ok s \<longleftrightarrow> validate_median_mad_config (rmm_capacity s) (rmm_min_samples s) = Inr ()
     \<and> length (rmm_window s) = min (unat (rmm_samples_seen s)) (rmm_capacity s) \<and> list_all is_finite (rmm_window s)"

lemma median_mad_update_Inr [result_simps]:
  "median_mad_update v s = (Inr u, s') \<longleftrightarrow> is_finite v \<and> unat (rmm_samples_seen s) + 1 < 2 ^ 64
     \<and> s' = s\<lparr>rmm_window := window_push (rmm_capacity s) v (rmm_window s), rmm_samples_seen := rmm_samples_seen s + 1\<rparr>"
  by (auto simp: median_mad_update_def transact_Inr and_then_Inr checked_increment_Inr ensure_finite_Inr)

lemma validate_median_mad_config_Inr [result_simps]:
  "validate_median_mad_config c m = Inr u \<longleftrightarrow> 0 < c \<and> c \<le> max_robust_window_size \<and> 0 < m \<and> m \<le> c"
  by (auto simp: validate_median_mad_config_def)

interpretation median_mad: online_statistic median_mad_update median_mad_ok rmm_samples_seen median_mad_reset
  by unfold_locales
    (auto simp: median_mad_update_def transact_Inl median_mad_update_Inr [unfolded median_mad_update_def]
      median_mad_ok_def unat_inc median_mad_reset_def validate_median_mad_config_Inr window_push_length window_push_all)

lemma median_mad_window:
  assumes "0 < rmm_capacity s" "rmm_window s = last_n (rmm_capacity s) ys"
  shows "rmm_window (run_ops median_mad_update xs s) = last_n (rmm_capacity s) (ys @ accepted_ops median_mad_update xs s)"
  using assms
proof (induction xs arbitrary: s ys)
  case (Cons x xs)
  obtain r s' where e: "median_mad_update x s = (r, s')" by fastforce
  show ?case
  proof (cases r)
    case (Inl err)
    then have "s' = s" using e median_mad.error_unchanged by blast
    then show ?thesis using Cons e Inl by simp
  next
    case (Inr u)
    then have s': "rmm_capacity s' = rmm_capacity s" "rmm_window s' = last_n (rmm_capacity s) (ys @ [x])"
      using e Cons.prems by (auto simp: median_mad_update_Inr window_push_last_n)
    then show ?thesis using Cons.IH [of s' "ys @ [x]"] Cons.prems(1) e Inr by simp
  qed
qed simp

definition clipped_mean_ok :: "clipped_mean \<Rightarrow> bool" where
  "clipped_mean_ok s \<longleftrightarrow> is_finite (cm_lower s) \<and> is_finite (cm_upper s) \<and> f_val (cm_lower s) \<le> f_val (cm_upper s)
     \<and> is_finite (cm_mean s)
     \<and> (if cm_count s = 0 then cm_mean s = 0
        else f_val (cm_lower s) \<le> f_val (cm_mean s) \<and> f_val (cm_mean s) \<le> f_val (cm_upper s))"

lemma clipped_mean_update_Inr [result_simps]:
  "clipped_mean_update v s = (Inr u, s') \<longleftrightarrow>
     (let c = f_clamp (cm_lower s) (cm_upper s) v; m = cm_mean s + (c - cm_mean s) / f_of_u64 (cm_count s + 1)
      in is_finite v \<and> unat (cm_count s) + 1 < 2 ^ 64 \<and> is_finite (c - cm_mean s) \<and> is_finite m
         \<and> s' = s\<lparr>cm_count := cm_count s + 1, cm_mean := m\<rparr>)"
  by (auto simp: clipped_mean_update_def Let_def transact_Inr and_then_Inr checked_increment_Inr ensure_finite_Inr)

lemma clipped_step_ok:
  assumes ok: "clipped_mean_ok s" and up: "clipped_mean_update v s = (Inr u, s')"
  shows "clipped_mean_ok s'"
proof -
  let ?c = "f_clamp (cm_lower s) (cm_upper s) v"
  let ?m = "cm_mean s + (?c - cm_mean s) / f_of_u64 (cm_count s + 1)"
  have f: "is_finite v" "unat (cm_count s) + 1 < 2 ^ 64" "is_finite (?c - cm_mean s)" "is_finite ?m"
    and s': "s' = s\<lparr>cm_count := cm_count s + 1, cm_mean := ?m\<rparr>"
    using up by (auto simp: clipped_mean_update_Inr Let_def)
  have b: "is_finite (cm_lower s)" "is_finite (cm_upper s)" "f_val (cm_lower s) \<le> f_val (cm_upper s)"
    and m: "is_finite (cm_mean s)" "unat (cm_count s) = 0 \<longrightarrow> f_val (cm_mean s) = 0"
    using ok by (auto simp: clipped_mean_ok_def unat_eq_0)
  have c: "is_finite ?c" "f_val (cm_lower s) \<le> f_val ?c" "f_val ?c \<le> f_val (cm_upper s)"
    using b f(1) by (auto simp: f_clamp_def Let_def less_finite)
  have "f_val (cm_lower s) \<le> f_val ?m \<and> f_val ?m \<le> f_val (cm_upper s)"
    using mean_step [OF m(1) c(1) f(4,2) m(2)] c(2,3) ok
    by (cases "unat (cm_count s) = 0") (auto simp: clipped_mean_ok_def unat_eq_0 min_def max_def split: if_splits)
  then show ?thesis using b f inc_nz [OF f(2)] by (simp add: s' clipped_mean_ok_def)
qed

interpretation clipped: online_statistic clipped_mean_update clipped_mean_ok cm_count clipped_mean_reset
proof unfold_locales
  show "clipped_mean_update x s = (Inl e, s') \<Longrightarrow> s' = s" for x s e s'
    by (simp add: clipped_mean_update_def transact_Inl)
  show "clipped_mean_ok s \<Longrightarrow> clipped_mean_update x s = (Inr r, s') \<Longrightarrow> clipped_mean_ok s'" for s x r s'
    by (rule clipped_step_ok)
qed (auto simp: clipped_mean_update_Inr unat_inc clipped_mean_reset_def clipped_mean_ok_def Let_def)

lemma clipped_new_ok: "clipped_mean_new lo hi = Inr s \<Longrightarrow> clipped_mean_ok s"
  by (auto simp: clipped_mean_new_def result_simps clipped_mean_ok_def less_finite not_less split: if_splits)

lemma clipped_ok_valid: "clipped_mean_ok s \<Longrightarrow> clipped_mean_validate_state s = Inr ()"
  by (auto simp: clipped_mean_validate_state_def clipped_mean_new_def clipped_mean_ok_def ensure_finite_def
      less_finite feq_refl not_less word_neq_0_conv split: if_splits)

text \<open>
  Clipped mean. Every reachable state of the clipped mean passes \<open>validate_state\<close>: its mean lies in
  the clipping interval.
\<close>
theorem clipped_mean_reachable_valid:
  assumes "clipped_mean_new lower upper = Inr s"
  shows "clipped_mean_validate_state (run_ops clipped_mean_update xs s) = Inr ()"
  by (rule clipped_ok_valid, rule clipped.run_inv, rule clipped_new_ok) (rule assms)

lemma clipped_mean_reachable_valid_witness:
  "clipped_mean_validate_state (run_ops clipped_mean_update [f_of_nat 7, f_inf, f_of_nat 2]
     \<lparr>cm_lower = 1, cm_upper = f_of_nat 5, cm_count = 0, cm_mean = 0\<rparr>) = Inr ()"
proof -
  have "\<not> f_of_nat 5 < 1" by code_simp
  then have "clipped_mean_new 1 (f_of_nat 5) = Inr \<lparr>cm_lower = 1, cm_upper = f_of_nat 5, cm_count = 0, cm_mean = 0\<rparr>"
    by (simp add: clipped_mean_new_def ensure_finite_def)
  then show ?thesis by (rule clipped_mean_reachable_valid)
qed

text \<open>
  Median. A warmed-up window of finite observations, however far apart, has a finite median within
  their range, and the summary is rejected only when the median distance exceeds the doubles; an
  accepted one has a non-negative MAD. The window holds the last accepted observations.
\<close>
theorem median_mad_within_window:
  assumes "median_mad_new capacity min_samples = Inr s0" and "s = run_ops median_mad_update xs s0"
    and "min_samples \<le> length (accepted_ops median_mad_update xs s0)"
    and "list_all (\<lambda>v. lo \<le> f_val v \<and> f_val v \<le> hi) (last_n capacity (accepted_ops median_mad_update xs s0))"
  shows "median_mad_validate_state s = Inr ()
    \<and> rmm_window s = last_n capacity (accepted_ops median_mad_update xs s0)
    \<and> (case median_mad_of s of
         Inl e \<Rightarrow> e = InvalidState ''rolling MAD exceeds the finite f64 range''
       | Inr m \<Rightarrow> mm_samples m = length (rmm_window s) \<and> is_finite (mm_median m) \<and> lo \<le> f_val (mm_median m)
           \<and> f_val (mm_median m) \<le> hi \<and> is_finite (mm_mad m) \<and> 0 \<le> f_val (mm_mad m))"
proof -
  let ?acc = "accepted_ops median_mad_update xs s0"
  have c: "0 < capacity" "0 < min_samples" "min_samples \<le> capacity"
    and s0: "s0 = \<lparr>rmm_window = [], rmm_capacity = capacity, rmm_min_samples = min_samples, rmm_samples_seen = 0\<rparr>"
    using assms(1) by (auto simp: median_mad_new_def result_simps)
  have ok0: "median_mad_ok s0" using assms(1) by (auto simp: median_mad_new_def result_simps median_mad_ok_def)
  then have ok: "median_mad_ok s" using median_mad.run_inv assms(2) by simp
  have w: "rmm_window s = last_n capacity ?acc"
    using median_mad_window [of s0 "[]" xs] assms(2) c(1) s0 by (simp add: last_n_def)
  have cfg: "rmm_capacity (run_ops median_mad_update xs t) = rmm_capacity t
      \<and> rmm_min_samples (run_ops median_mad_update xs t) = rmm_min_samples t" for t
  proof (induction xs arbitrary: t)
    case (Cons x xs)
    obtain r t' where e: "median_mad_update x t = (r, t')" by fastforce
    then have "rmm_capacity t' = rmm_capacity t \<and> rmm_min_samples t' = rmm_min_samples t"
      using median_mad.error_unchanged by (cases r) (auto simp: median_mad_update_Inr)
    then show ?case using Cons.IH [of t'] e by simp
  qed simp
  have ready: "median_mad_ready s"
    using w assms(3) cfg [of s0] assms(2) s0 c by (auto simp: median_mad_ready_def last_n_def)
  let ?o = "sort_f64 (rmm_window s)"
  have fin: "list_all is_finite ?o" using ok by (simp add: median_mad_ok_def list_all_iff)
  have ne: "?o \<noteq> []" using ready c cfg [of s0] assms(2) s0 by (auto simp: median_mad_ready_def)
  have m: "is_finite (median_of_sorted ?o) \<and> lo \<le> f_val (median_of_sorted ?o) \<and> f_val (median_of_sorted ?o) \<le> hi"
    using median_of_sorted_between [OF sorted_sort_f64 fin ne, where lo = lo and hi = hi] fin assms(4) w
    by (simp add: list_all_iff)
  have d: "list_all (\<lambda>v. 0 \<le> f_val v) (sort_f64 (map (\<lambda>v. absolute_distance v (median_of_sorted ?o)) ?o))"
    by (simp add: list_all_iff absolute_distance_nonneg)
  have v: "median_mad_validate_state s = Inr ()"
    using ok by (auto simp: median_mad_validate_state_def median_mad_ok_def result_simps list_all_iff)
  show ?thesis
    using v w m ready ne median_of_sorted_nonneg [OF _ _ d]
    by (auto simp: median_mad_of_def Let_def)
qed

lemma median_mad_within_window_witness:
  "rmm_window (run_ops median_mad_update (map f_of_nat [4, 1, 9, 2])
     \<lparr>rmm_window = [], rmm_capacity = 3, rmm_min_samples = 2, rmm_samples_seen = 0\<rparr>)
   = map f_of_nat [1, 9, 2]"
proof -
  let ?s = "\<lparr>rmm_window = [], rmm_capacity = 3, rmm_min_samples = 2, rmm_samples_seen = 0\<rparr>"
  have n: "median_mad_new 3 2 = Inr ?s"
    by (simp add: median_mad_new_def validate_median_mad_config_def max_robust_window_size_def)
  have a: "accepted_ops median_mad_update (map f_of_nat [4, 1, 9, 2]) ?s = map f_of_nat [4, 1, 9, 2]"
    by (simp add: median_mad_update_def ensure_finite_def checked_increment_def checked_add_u64_def ok_or_def)
  have l: "list_all (\<lambda>v. 1 \<le> f_val v \<and> f_val v \<le> 9) (last_n 3 (map f_of_nat [4, 1, 9, 2]))"
    by (simp add: last_n_def f_val_of_nat_exact)
  show ?thesis
    using median_mad_within_window [OF n refl, of "map f_of_nat [4, 1, 9, 2]" 1 9] l
    unfolding a by (simp add: last_n_def)
qed

end
