(* ===== verification/Drift_Core.thy ===== *)
theory Drift_Core imports Rill_Error begin

text \<open>
  Levels, actions and strategies of drift handling: \<open>src/drift/detector.rs\<close>,
  \<open>src/drift/action.rs\<close> and \<open>src/drift/strategy.rs\<close>. The trait \<open>DriftDetector\<close> is an interface
  locale in the theory of the wrapper that relies on it.
\<close>

datatype drift_level = LevelNone | Warning | Drift

fun level_as_str :: "drift_level \<Rightarrow> string" where
  "level_as_str LevelNone = ''none''"
| "level_as_str Warning = ''warning''"
| "level_as_str Drift = ''drift''"

definition is_change :: "drift_level \<Rightarrow> bool" where
  "is_change level \<longleftrightarrow> level = Warning \<or> level = Drift"

datatype drift_action =
    NotifyOnly | ReduceConfidence | ResetModel | ResetPreprocessor | ReplaceWithBaseline
  | IncreaseAdaptationRate

fun action_as_str :: "drift_action \<Rightarrow> string" where
  "action_as_str NotifyOnly = ''notify_only''"
| "action_as_str ReduceConfidence = ''reduce_confidence''"
| "action_as_str ResetModel = ''reset_model''"
| "action_as_str ResetPreprocessor = ''reset_preprocessor''"
| "action_as_str ReplaceWithBaseline = ''replace_with_baseline''"
| "action_as_str IncreaseAdaptationRate = ''increase_adaptation_rate''"

definition is_destructive :: "drift_action \<Rightarrow> bool" where
  "is_destructive a \<longleftrightarrow> a \<in> {ResetModel, ResetPreprocessor, ReplaceWithBaseline, IncreaseAdaptationRate}"

record drift_event =
  de_sample_index :: u64
  de_level :: drift_level
  de_action :: drift_action
  de_detector_value :: f64

definition drift_event_new :: "u64 \<Rightarrow> drift_level \<Rightarrow> drift_action \<Rightarrow> f64 \<Rightarrow> drift_event" where
  "drift_event_new sample_index level action detector_value =
     \<lparr>de_sample_index = sample_index, de_level = level, de_action = action,
      de_detector_value = detector_value\<rparr>"

record static_strategy =
  ss_warning_action :: drift_action
  ss_drift_action :: drift_action

definition static_strategy_new :: "drift_action \<Rightarrow> drift_action \<Rightarrow> static_strategy" where
  "static_strategy_new w d = \<lparr>ss_warning_action = w, ss_drift_action = d\<rparr>"

definition static_strategy_default :: static_strategy where
  "static_strategy_default = \<lparr>ss_warning_action = NotifyOnly, ss_drift_action = NotifyOnly\<rparr>"

fun static_decide :: "static_strategy \<Rightarrow> drift_level \<Rightarrow> u64 \<Rightarrow> drift_action" where
  "static_decide s LevelNone _ = NotifyOnly"
| "static_decide s Warning _ = ss_warning_action s"
| "static_decide s Drift _ = ss_drift_action s"

lemma is_change_simps [simp]: "\<not> is_change LevelNone" "is_change Warning" "is_change Drift"
  by (simp_all add: is_change_def)

lemma static_default_not_destructive: "\<not> is_destructive (static_decide static_strategy_default level n)"
  by (cases level) (simp_all add: static_strategy_default_def is_destructive_def)

end
