(* ===== verification/Drift_Consensus.thy ===== *)
theory Drift_Consensus imports Drift_Core begin

text \<open>
  The vote consensus over several drift detectors, \<open>src/drift/consensus.rs\<close>: a hysteretic level
  with confirmation and clearing streaks, a cooldown after each event and merging of nearby events.
  \<open>update\<close> works on a clone of the state that replaces the original only on success; the model's
  \<open>update_inner\<close> returns the changed state and the result together, or the error alone.
\<close>

section \<open>Votes and configuration\<close>

definition max_detector_name_bytes :: usize where
  "max_detector_name_bytes = 128"

record drift_vote =
  dv_detector :: string
  dv_level :: drift_level
  dv_available :: bool

definition vote_validate :: "drift_vote \<Rightarrow> rill_error + unit" where
  "vote_validate v =
     (if dv_detector v = [] \<or> length (dv_detector v) > max_detector_name_bytes
      then Inl (InvalidState ''drift detector name length must be in 1..=128 bytes'')
      else if \<not> dv_available v \<and> dv_level v \<noteq> LevelNone
      then Inl (InvalidState ''an unavailable detector cannot cast a warning or drift vote'')
      else Inr ())"

definition vote_new :: "string \<Rightarrow> drift_level \<Rightarrow> rill_error + drift_vote" where
  "vote_new detector level =
     (let vote = \<lparr>dv_detector = detector, dv_level = level, dv_available = True\<rparr>
      in and_then (vote_validate vote) (\<lambda>_. Inr vote))"

definition vote_unavailable :: "string \<Rightarrow> rill_error + drift_vote" where
  "vote_unavailable detector =
     (let vote = \<lparr>dv_detector = detector, dv_level = LevelNone, dv_available = False\<rparr>
      in and_then (vote_validate vote) (\<lambda>_. Inr vote))"

record consensus_config =
  minimum_warning_votes :: usize
  minimum_drift_votes :: usize
  confirmation_windows :: u64
  clear_windows :: u64
  cooldown_windows :: u64
  event_merge_horizon :: u64
  warming_windows :: u64
  max_detectors :: usize

definition consensus_config_default :: consensus_config where
  "consensus_config_default = \<lparr>minimum_warning_votes = 1, minimum_drift_votes = 2,
     confirmation_windows = 2, clear_windows = 3, cooldown_windows = 5, event_merge_horizon = 20,
     warming_windows = 1, max_detectors = 16\<rparr>"

definition consensus_config_validate :: "consensus_config \<Rightarrow> rill_error + unit" where
  "consensus_config_validate c =
     (if max_detectors c = 0 \<or> max_detectors c > 128 then Inl (InvalidCapacity (max_detectors c))
      else if minimum_warning_votes c = 0 \<or> minimum_warning_votes c > max_detectors c
        \<or> minimum_drift_votes c = 0 \<or> minimum_drift_votes c > max_detectors c
        \<or> minimum_warning_votes c > minimum_drift_votes c
      then Inl (InvalidState ''drift consensus vote thresholds are inconsistent'')
      else if confirmation_windows c = 0 \<or> clear_windows c = 0
      then Inl (InvalidState ''confirmation_windows and clear_windows must be positive'')
      else Inr ())"

section \<open>State\<close>

record event_summary =
  es_event_id :: u64
  es_first_window :: u64
  es_last_window :: u64
  es_peak_level :: drift_level
  es_detectors :: "string list"
  es_occurrences :: u64
  es_generation :: u64

record consensus_report =
  cr_level :: drift_level
  cr_warning_votes :: usize
  cr_drift_votes :: usize
  cr_available_detectors :: usize
  cr_triggered_detectors :: "string list"
  cr_consecutive_windows :: u64
  cr_clear_streak :: u64
  cr_cooldown_remaining :: u64
  cr_warming :: bool
  cr_incomplete :: bool
  cr_generation_changed :: bool
  cr_new_event :: bool
  cr_merged_event :: bool
  cr_event :: "event_summary option"

record consensus =
  dc_config :: consensus_config
  dc_windows_seen :: u64
  dc_generation_windows :: u64
  dc_active_generation :: "u64 option"
  dc_active_level :: drift_level
  dc_warning_streak :: u64
  dc_drift_streak :: u64
  dc_clear_streak :: u64
  dc_cooldown_remaining :: u64
  dc_next_event_id :: u64
  dc_last_event :: "event_summary option"

definition consensus_new :: "consensus_config \<Rightarrow> rill_error + consensus" where
  "consensus_new c = and_then (consensus_config_validate c) (\<lambda>_. Inr
     \<lparr>dc_config = c, dc_windows_seen = 0, dc_generation_windows = 0, dc_active_generation = None,
      dc_active_level = LevelNone, dc_warning_streak = 0, dc_drift_streak = 0, dc_clear_streak = 0,
      dc_cooldown_remaining = 0, dc_next_event_id = 1, dc_last_event = None\<rparr>)"

definition consensus_reset :: "consensus \<Rightarrow> consensus" where
  "consensus_reset s = s\<lparr>dc_windows_seen := 0, dc_generation_windows := 0,
     dc_active_generation := None, dc_active_level := LevelNone, dc_warning_streak := 0,
     dc_drift_streak := 0, dc_clear_streak := 0, dc_cooldown_remaining := 0,
     dc_next_event_id := 1, dc_last_event := None\<rparr>"

section \<open>One window\<close>

fun validate_votes_from :: "string list \<Rightarrow> drift_vote list \<Rightarrow> rill_error + unit" where
  "validate_votes_from names [] = Inr ()"
| "validate_votes_from names (v # vs) =
     and_then (vote_validate v) (\<lambda>_.
       if dv_detector v \<in> set names
       then Inl (InvalidState (''duplicate drift detector vote: '' @ dv_detector v))
       else validate_votes_from (dv_detector v # names) vs)"

definition validate_votes :: "consensus \<Rightarrow> drift_vote list \<Rightarrow> rill_error + unit" where
  "validate_votes s votes =
     (if length votes > max_detectors (dc_config s) then Inl (InvalidCapacity (length votes))
      else validate_votes_from [] votes)"

fun level_rank :: "drift_level \<Rightarrow> nat" where
  "level_rank LevelNone = 0"
| "level_rank Warning = 1"
| "level_rank Drift = 2"

text \<open>A \<open>BTreeSet<String>\<close> built from names, read back in order.\<close>

definition name_set :: "string list \<Rightarrow> string list" where
  "name_set names = sort (remdups names)"

definition can_merge :: "consensus \<Rightarrow> u64 \<Rightarrow> event_summary \<Rightarrow> bool" where
  "can_merge s generation ev \<longleftrightarrow> es_generation ev = generation \<and>
     saturating_sub_u64 (dc_windows_seen s) (es_last_window ev) \<le> event_merge_horizon (dc_config s)"

definition create_event ::
    "consensus \<Rightarrow> drift_level \<Rightarrow> string list \<Rightarrow> u64 \<Rightarrow> rill_error + ((bool \<times> bool) \<times> consensus)" where
  "create_event s level detectors generation =
     and_then (checked_increment (dc_next_event_id s) ''next_event_id'') (\<lambda>next_id.
       Inr ((True, False),
         s\<lparr>dc_next_event_id := next_id,
           dc_last_event := Some \<lparr>es_event_id = dc_next_event_id s,
             es_first_window = dc_windows_seen s, es_last_window = dc_windows_seen s,
             es_peak_level = level,
             es_detectors = take (max_detectors (dc_config s)) (name_set detectors),
             es_occurrences = 1, es_generation = generation\<rparr>,
           dc_cooldown_remaining := cooldown_windows (dc_config s)\<rparr>))"

definition merge_event ::
    "consensus \<Rightarrow> event_summary \<Rightarrow> drift_level \<Rightarrow> string list
     \<Rightarrow> rill_error + ((bool \<times> bool) \<times> consensus)" where
  "merge_event s ev level detectors =
     and_then (checked_increment (es_occurrences ev) ''event occurrences'') (\<lambda>occ.
       Inr ((False, True),
         s\<lparr>dc_last_event := Some (ev\<lparr>es_last_window := dc_windows_seen s,
             es_occurrences := occ,
             es_peak_level := (if level_rank level > level_rank (es_peak_level ev) then level
                               else es_peak_level ev),
             es_detectors := take (max_detectors (dc_config s))
                               (name_set (es_detectors ev @ detectors))\<rparr>),
           dc_cooldown_remaining := cooldown_windows (dc_config s)\<rparr>))"

definition record_event ::
    "consensus \<Rightarrow> drift_level \<Rightarrow> string list \<Rightarrow> u64 \<Rightarrow> rill_error + ((bool \<times> bool) \<times> consensus)" where
  "record_event s level detectors generation =
     (case dc_last_event s of
        Some ev \<Rightarrow> if can_merge s generation ev then merge_event s ev level detectors
                   else create_event s level detectors generation
      | None \<Rightarrow> create_event s level detectors generation)"

text \<open>The window and generation counters, the generation change, and the cooldown tick.\<close>

definition generation_changed :: "consensus \<Rightarrow> u64 \<Rightarrow> bool" where
  "generation_changed s generation \<longleftrightarrow>
     (case dc_active_generation s of None \<Rightarrow> False | Some old \<Rightarrow> old \<noteq> generation)"

definition begin_window :: "consensus \<Rightarrow> u64 \<Rightarrow> rill_error + (bool \<times> consensus)" where
  "begin_window s generation =
     and_then (checked_increment (dc_windows_seen s) ''consensus windows_seen'') (\<lambda>next_windows.
       let s1 = (if generation_changed s generation
                 then s\<lparr>dc_generation_windows := 0, dc_active_level := LevelNone,
                        dc_warning_streak := 0, dc_drift_streak := 0, dc_clear_streak := 0,
                        dc_cooldown_remaining := 0\<rparr>
                 else s);
           s2 = s1\<lparr>dc_active_generation := Some generation, dc_windows_seen := next_windows\<rparr>
       in and_then (checked_increment (dc_generation_windows s2) ''consensus generation_windows'') (\<lambda>g.
            let s3 = s2\<lparr>dc_generation_windows := g\<rparr>;
                event_allowed = (dc_cooldown_remaining s3 = 0)
            in Inr (event_allowed,
                 if dc_cooldown_remaining s3 > 0
                 then s3\<lparr>dc_cooldown_remaining := dc_cooldown_remaining s3 - 1\<rparr> else s3)))"

definition available_count :: "drift_vote list \<Rightarrow> usize" where
  "available_count votes = length (filter dv_available votes)"

definition drift_count :: "drift_vote list \<Rightarrow> usize" where
  "drift_count votes = length (filter (\<lambda>v. dv_available v \<and> dv_level v = Drift) votes)"

definition warning_count :: "drift_vote list \<Rightarrow> usize" where
  "warning_count votes = length (filter (\<lambda>v. dv_available v \<and> is_change (dv_level v)) votes)"

definition triggered :: "drift_vote list \<Rightarrow> string list" where
  "triggered votes = map dv_detector (filter (\<lambda>v. dv_available v \<and> is_change (dv_level v)) votes)"

definition raw_level :: "consensus_config \<Rightarrow> drift_vote list \<Rightarrow> drift_level" where
  "raw_level c votes =
     (if drift_count votes \<ge> minimum_drift_votes c then Drift
      else if warning_count votes \<ge> minimum_warning_votes c then Warning
      else LevelNone)"

definition consensus_result ::
    "consensus \<Rightarrow> drift_vote list \<Rightarrow> u64 \<Rightarrow> bool \<Rightarrow> bool \<Rightarrow> bool \<Rightarrow> bool \<Rightarrow> bool \<Rightarrow> consensus_report" where
  "consensus_result s votes consecutive warming incomplete changed new_event merged_event =
     \<lparr>cr_level = dc_active_level s, cr_warning_votes = warning_count votes,
      cr_drift_votes = drift_count votes, cr_available_detectors = available_count votes,
      cr_triggered_detectors = triggered votes, cr_consecutive_windows = consecutive,
      cr_clear_streak = dc_clear_streak s, cr_cooldown_remaining = dc_cooldown_remaining s,
      cr_warming = warming, cr_incomplete = incomplete, cr_generation_changed = changed,
      cr_new_event = new_event, cr_merged_event = merged_event, cr_event = dc_last_event s\<rparr>"

definition is_multiple_of :: "u64 \<Rightarrow> u64 \<Rightarrow> bool" where
  "is_multiple_of a b = (if b = 0 then a = 0 else a mod b = 0)"

text \<open>
  The three arms of the match on the raw level. Each returns the consecutive-window count, the
  flags of a new and of a merged event, and the changed state.
\<close>

definition drift_arm ::
    "consensus \<Rightarrow> bool \<Rightarrow> drift_vote list \<Rightarrow> u64 \<Rightarrow> rill_error + ((u64 \<times> bool \<times> bool) \<times> consensus)" where
  "drift_arm s event_allowed votes generation =
     and_then (checked_increment (dc_drift_streak s) ''drift streak'') (\<lambda>streak.
       let s1 = s\<lparr>dc_clear_streak := 0, dc_warning_streak := 0, dc_drift_streak := streak\<rparr> in
       if streak \<ge> confirmation_windows (dc_config s1)
          \<and> (dc_active_level s1 \<noteq> Drift \<or> is_multiple_of streak (confirmation_windows (dc_config s1)))
       then
         (let s2 = s1\<lparr>dc_active_level := Drift\<rparr> in
          if event_allowed then
            and_then (record_event s2 Drift (triggered votes) generation)
              (\<lambda>((new_event, merged_event), s3). Inr ((streak, new_event, merged_event), s3))
          else Inr ((streak, False, False), s2))
       else Inr ((streak, False, False), s1))"

definition warning_arm ::
    "consensus \<Rightarrow> bool \<Rightarrow> drift_vote list \<Rightarrow> u64 \<Rightarrow> rill_error + ((u64 \<times> bool \<times> bool) \<times> consensus)" where
  "warning_arm s event_allowed votes generation =
     and_then (checked_increment (dc_warning_streak s) ''warning streak'') (\<lambda>streak.
       let s1 = s\<lparr>dc_clear_streak := 0, dc_drift_streak := 0, dc_warning_streak := streak\<rparr> in
       if dc_active_level s1 = LevelNone \<and> streak \<ge> confirmation_windows (dc_config s1)
       then
         (let s2 = s1\<lparr>dc_active_level := Warning\<rparr> in
          if event_allowed then
            and_then (record_event s2 Warning (triggered votes) generation)
              (\<lambda>((new_event, merged_event), s3). Inr ((streak, new_event, merged_event), s3))
          else Inr ((streak, False, False), s2))
       else Inr ((streak, False, False), s1))"

definition none_arm :: "consensus \<Rightarrow> rill_error + ((u64 \<times> bool \<times> bool) \<times> consensus)" where
  "none_arm s =
     and_then (checked_increment (dc_clear_streak s) ''clear streak'') (\<lambda>streak.
       let s1 = s\<lparr>dc_warning_streak := 0, dc_drift_streak := 0, dc_clear_streak := streak\<rparr> in
       Inr ((streak, False, False),
         if dc_active_level s1 \<noteq> LevelNone \<and> streak \<ge> clear_windows (dc_config s1)
         then s1\<lparr>dc_active_level := LevelNone, dc_clear_streak := 0\<rparr> else s1))"

definition level_arm ::
    "consensus \<Rightarrow> bool \<Rightarrow> drift_vote list \<Rightarrow> u64 \<Rightarrow> rill_error + ((u64 \<times> bool \<times> bool) \<times> consensus)" where
  "level_arm s event_allowed votes generation =
     (case raw_level (dc_config s) votes of
        Drift \<Rightarrow> drift_arm s event_allowed votes generation
      | Warning \<Rightarrow> warning_arm s event_allowed votes generation
      | LevelNone \<Rightarrow> none_arm s)"

definition update_inner ::
    "consensus \<Rightarrow> drift_vote list \<Rightarrow> u64 \<Rightarrow> rill_error + (consensus_report \<times> consensus)" where
  "update_inner s votes generation =
     and_then (begin_window s generation) (\<lambda>(event_allowed, s1).
       let changed = generation_changed s generation;
           warming = (dc_generation_windows s1 \<le> warming_windows (dc_config s1));
           incomplete = (available_count votes < minimum_warning_votes (dc_config s1))
       in if warming \<or> incomplete
          then let s2 = s1\<lparr>dc_warning_streak := 0, dc_drift_streak := 0\<rparr>
               in Inr (consensus_result s2 votes 0 warming incomplete changed False False, s2)
          else and_then (level_arm s1 event_allowed votes generation)
            (\<lambda>((consecutive, new_event, merged_event), s2).
              Inr (consensus_result s2 votes consecutive False False changed new_event merged_event, s2)))"

definition consensus_update ::
    "consensus \<Rightarrow> drift_vote list \<Rightarrow> u64 \<Rightarrow> (rill_error + consensus_report) \<times> consensus" where
  "consensus_update s votes generation =
     (case and_then (validate_votes s votes) (\<lambda>_. update_inner s votes generation) of
        Inl e \<Rightarrow> (Inl e, s)
      | Inr (r, s') \<Rightarrow> (Inr r, s'))"

section \<open>Validation of a restored state\<close>

fun validate_detectors_from :: "string list \<Rightarrow> string list \<Rightarrow> rill_error + unit" where
  "validate_detectors_from seen [] = Inr ()"
| "validate_detectors_from seen (d # ds) =
     and_then (vote_new d LevelNone) (\<lambda>_.
       if d \<in> set seen
       then Inl (InvalidState ''drift consensus event has duplicate detector names'')
       else validate_detectors_from (d # seen) ds)"

definition validate_event :: "consensus \<Rightarrow> event_summary \<Rightarrow> rill_error + unit" where
  "validate_event s ev =
     (if es_event_id ev \<ge> dc_next_event_id s \<or> es_first_window ev = 0
         \<or> es_first_window ev > es_last_window ev \<or> es_last_window ev > dc_windows_seen s
         \<or> es_occurrences ev = 0 \<or> es_peak_level ev = LevelNone
         \<or> length (es_detectors ev) > max_detectors (dc_config s)
      then Inl (InvalidState ''drift consensus event summary is inconsistent'')
      else validate_detectors_from [] (es_detectors ev))"

definition consensus_validate_state :: "consensus \<Rightarrow> rill_error + unit" where
  "consensus_validate_state s =
     and_then (consensus_config_validate (dc_config s)) (\<lambda>_.
       if dc_generation_windows s > dc_windows_seen s
          \<or> dc_warning_streak s > dc_generation_windows s
          \<or> dc_drift_streak s > dc_generation_windows s
          \<or> dc_clear_streak s > dc_generation_windows s
          \<or> dc_cooldown_remaining s > cooldown_windows (dc_config s)
          \<or> dc_next_event_id s = 0
       then Inl (InvalidState ''drift consensus counters are inconsistent'')
       else if dc_active_generation s = None \<and> dc_generation_windows s \<noteq> 0
       then Inl (InvalidState ''drift consensus generation counter has no generation'')
       else case dc_last_event s of None \<Rightarrow> Inr () | Some ev \<Rightarrow> validate_event s ev)"

section \<open>Names\<close>

definition name_ok :: "string \<Rightarrow> bool" where
  "name_ok n \<longleftrightarrow> n \<noteq> [] \<and> length n \<le> max_detector_name_bytes"

lemma vote_validate_Inr [result_simps]:
  "vote_validate v = Inr u \<longleftrightarrow> name_ok (dv_detector v) \<and> (dv_available v \<or> dv_level v = LevelNone)"
  by (auto simp: vote_validate_def name_ok_def not_less)

lemma vote_new_Inr [result_simps]:
  "vote_new d level = Inr v \<longleftrightarrow> name_ok d \<and> v = \<lparr>dv_detector = d, dv_level = level, dv_available = True\<rparr>"
  by (auto simp: vote_new_def Let_def result_simps)

lemma validate_votes_from_Inr [result_simps]:
  "validate_votes_from names vs = Inr u \<longleftrightarrow> (\<forall>v \<in> set vs. vote_validate v = Inr ())
     \<and> distinct (map dv_detector vs) \<and> set (map dv_detector vs) \<inter> set names = {}"
  by (induction vs arbitrary: names) (auto simp: and_then_Inr)

lemma validate_detectors_from_Inr [result_simps]:
  "validate_detectors_from seen ds = Inr u \<longleftrightarrow> (\<forall>d \<in> set ds. name_ok d) \<and> distinct ds \<and> set ds \<inter> set seen = {}"
  by (induction ds arbitrary: seen) (auto simp: result_simps)

lemma name_set_facts: "set (name_set ns) = set ns" "distinct (name_set ns)"
  by (simp_all add: name_set_def)

lemma take_name_set: "set (take n (name_set ns)) \<subseteq> set ns" "distinct (take n (name_set ns))"
  using set_take_subset [of n "name_set ns"] by (simp_all add: name_set_facts)

section \<open>The invariant\<close>

definition event_ok :: "consensus \<Rightarrow> event_summary \<Rightarrow> bool" where
  "event_ok s ev \<longleftrightarrow> es_event_id ev < dc_next_event_id s \<and> 0 < es_first_window ev
     \<and> es_first_window ev \<le> es_last_window ev \<and> es_last_window ev \<le> dc_windows_seen s
     \<and> 0 < es_occurrences ev \<and> es_peak_level ev \<noteq> LevelNone
     \<and> length (es_detectors ev) \<le> max_detectors (dc_config s)
     \<and> (\<forall>d \<in> set (es_detectors ev). name_ok d) \<and> distinct (es_detectors ev)"

definition counters_ok :: "consensus \<Rightarrow> bool" where
  "counters_ok s \<longleftrightarrow> dc_generation_windows s \<le> dc_windows_seen s
     \<and> dc_warning_streak s \<le> dc_generation_windows s \<and> dc_drift_streak s \<le> dc_generation_windows s
     \<and> dc_clear_streak s \<le> dc_generation_windows s
     \<and> dc_cooldown_remaining s \<le> cooldown_windows (dc_config s) \<and> 0 < dc_next_event_id s
     \<and> (dc_active_generation s = None \<longrightarrow> dc_generation_windows s = 0)"

definition consensus_wf :: "consensus \<Rightarrow> bool" where
  "consensus_wf s \<longleftrightarrow> consensus_config_validate (dc_config s) = Inr () \<and> counters_ok s
     \<and> pred_option (event_ok s) (dc_last_event s)"

lemma word_gt_0: "(0 :: 'a::len word) < w \<longleftrightarrow> w \<noteq> 0"
  by (simp add: word_neq_0_conv)

lemma validate_event_Inr [result_simps]: "validate_event s ev = Inr u \<longleftrightarrow> event_ok s ev"
  by (auto simp: validate_event_def event_ok_def result_simps not_less not_le word_gt_0)

lemma validate_state_iff: "consensus_validate_state s = Inr u \<longleftrightarrow> consensus_wf s"
  by (auto simp: consensus_validate_state_def consensus_wf_def counters_ok_def result_simps
      not_less word_gt_0 split: option.splits)

lemma consensus_new_wf: "consensus_new c = Inr s \<Longrightarrow> consensus_wf s"
  by (auto simp: consensus_new_def consensus_wf_def counters_ok_def result_simps)

lemma consensus_reset_wf: "consensus_wf s \<Longrightarrow> consensus_wf (consensus_reset s)"
  by (auto simp: consensus_reset_def consensus_wf_def counters_ok_def)

lemma inc_le: "unat (a :: u64) + 1 < 2 ^ 64 \<Longrightarrow> b \<le> a \<Longrightarrow> b \<le> a + 1"
  by (simp add: word_le_nat_alt unat_add_u64)

lemma inc_le_inc: "unat (a :: u64) + 1 < 2 ^ 64 \<Longrightarrow> b \<le> a \<Longrightarrow> b + 1 \<le> a + 1"
  by (simp add: word_le_nat_alt unat_add_u64)

lemma one_le_inc: "unat (a :: u64) + 1 < 2 ^ 64 \<Longrightarrow> 1 \<le> a + 1"
  by (simp add: word_le_nat_alt unat_add_u64)

lemma dec_le: "0 < (a :: u64) \<Longrightarrow> a \<le> b \<Longrightarrow> a - 1 \<le> b"
  by (simp add: word_le_nat_alt word_less_nat_alt unat_minus_u64 word_le_nat_alt)

lemma less_inc: "unat (a :: u64) + 1 < 2 ^ 64 \<Longrightarrow> b < a \<Longrightarrow> b < a + 1"
  by (simp add: word_less_nat_alt unat_add_u64)

lemma self_less_inc: "unat (a :: u64) + 1 < 2 ^ 64 \<Longrightarrow> a < a + 1"
  by (simp add: word_less_nat_alt unat_add_u64)

lemma pos_inc: "unat (a :: u64) + 1 < 2 ^ 64 \<Longrightarrow> 0 < a + 1"
  by (simp add: word_less_nat_alt unat_add_u64)

lemmas inc_facts = inc_le inc_le_inc one_le_inc dec_le less_inc self_less_inc pos_inc

text \<open>After \<open>begin_window\<close> the streaks leave room for one increment.\<close>

definition room :: "consensus \<Rightarrow> bool" where
  "room s \<longleftrightarrow> dc_warning_streak s < dc_generation_windows s \<and> dc_drift_streak s < dc_generation_windows s
     \<and> dc_clear_streak s < dc_generation_windows s \<and> 0 < dc_windows_seen s"

lemma begin_window_wf:
  assumes "consensus_wf s" "begin_window s g = Inr (allowed, s1)"
  shows "consensus_wf s1 \<and> room s1 \<and> dc_config s1 = dc_config s"
proof -
  have e: "pred_option (event_ok s) (dc_last_event s) \<Longrightarrow> dc_next_event_id t = dc_next_event_id s
      \<Longrightarrow> dc_windows_seen t = dc_windows_seen s + 1 \<Longrightarrow> dc_config t = dc_config s
      \<Longrightarrow> unat (dc_windows_seen s) + 1 < 2 ^ 64 \<Longrightarrow> pred_option (event_ok t) (dc_last_event s)" for t
    by (cases "dc_last_event s") (auto simp: event_ok_def inc_facts)
  show ?thesis
    using assms
    by (auto simp: begin_window_def Let_def result_simps consensus_wf_def counters_ok_def room_def
        inc_facts le_less_trans self_less_inc intro!: e split: if_splits)
qed

lemma inc_le_of_less: "(b :: u64) < a \<Longrightarrow> b + 1 \<le> a"
  by (rule Word.inc_le)

definition levels_ok :: "drift_level \<Rightarrow> string list \<Rightarrow> bool" where
  "levels_ok level names \<longleftrightarrow> level \<noteq> LevelNone \<and> (\<forall>n \<in> set names. name_ok n)"

lemma take_names_ok: "\<forall>n \<in> set ns. name_ok n \<Longrightarrow> d \<in> set (take k (name_set ns)) \<Longrightarrow> name_ok d"
  using take_name_set(1) [of k ns] by blast

lemma create_event_wf:
  assumes wf: "consensus_wf s" and w: "0 < dc_windows_seen s" and l: "levels_ok level names"
    and c: "create_event s level names g = Inr (fl, s')"
  shows "consensus_wf s'"
proof -
  let ?m = "max_detectors (dc_config s)"
  have n: "unat (dc_next_event_id s) + 1 < 2 ^ 64"
    using c by (auto simp: create_event_def result_simps)
  have s': "s' = s\<lparr>dc_next_event_id := dc_next_event_id s + 1,
      dc_last_event := Some \<lparr>es_event_id = dc_next_event_id s, es_first_window = dc_windows_seen s,
        es_last_window = dc_windows_seen s, es_peak_level = level,
        es_detectors = take ?m (name_set names), es_occurrences = 1, es_generation = g\<rparr>,
      dc_cooldown_remaining := cooldown_windows (dc_config s)\<rparr>"
    using c by (auto simp: create_event_def result_simps)
  have d: "\<forall>d \<in> set (take ?m (name_set names)). name_ok d" "distinct (take ?m (name_set names))"
    using l take_names_ok take_name_set(2) by (auto simp: levels_ok_def)
  show ?thesis
    using wf w l unfolding s' consensus_wf_def counters_ok_def event_ok_def levels_ok_def
    by (simp add: d self_less_inc [OF n] pos_inc [OF n])
qed

lemma merge_event_wf:
  assumes wf: "consensus_wf s" and l: "levels_ok level names" and ev: "dc_last_event s = Some ev"
    and c: "merge_event s ev level names = Inr (fl, s')"
  shows "consensus_wf s'"
proof -
  let ?m = "max_detectors (dc_config s)" and ?ns = "es_detectors ev @ names"
  have n: "unat (es_occurrences ev) + 1 < 2 ^ 64"
    using c by (auto simp: merge_event_def result_simps)
  have s': "s' = s\<lparr>dc_last_event := Some (ev\<lparr>es_last_window := dc_windows_seen s,
      es_occurrences := es_occurrences ev + 1,
      es_peak_level := (if level_rank level > level_rank (es_peak_level ev) then level
        else es_peak_level ev), es_detectors := take ?m (name_set ?ns)\<rparr>),
      dc_cooldown_remaining := cooldown_windows (dc_config s)\<rparr>"
    using c by (auto simp: merge_event_def result_simps)
  have e: "event_ok s ev" using wf ev by (simp add: consensus_wf_def)
  then have "\<forall>d \<in> set ?ns. name_ok d"
    using l by (auto simp: levels_ok_def event_ok_def)
  then have d: "\<forall>d \<in> set (take ?m (name_set ?ns)). name_ok d" "distinct (take ?m (name_set ?ns))"
    using take_names_ok [of ?ns] take_name_set(2) by blast+
  have w: "es_first_window ev \<le> dc_windows_seen s"
    using e unfolding event_ok_def by (elim conjE) (rule order_trans)
  show ?thesis
    using wf l e w unfolding s' consensus_wf_def counters_ok_def event_ok_def levels_ok_def
    by (simp add: d pos_inc [OF n])
qed

lemma record_event_wf:
  assumes "consensus_wf s" "0 < dc_windows_seen s" "levels_ok level names"
    and "record_event s level names g = Inr (fl, s')"
  shows "consensus_wf s'"
proof (cases "\<exists>ev. dc_last_event s = Some ev \<and> can_merge s g ev")
  case True
  then obtain ev where ev: "dc_last_event s = Some ev" "can_merge s g ev" by blast
  then have "merge_event s ev level names = Inr (fl, s')"
    using assms(4) by (simp add: record_event_def)
  then show ?thesis by (rule merge_event_wf [OF assms(1,3) ev(1)])
next
  case False
  then have "create_event s level names g = Inr (fl, s')"
    using assms(4) by (auto simp: record_event_def split: option.splits)
  then show ?thesis by (rule create_event_wf [OF assms(1-3)])
qed

lemma record_event_frame:
  assumes "record_event s level names g = Inr (fl, s')"
  shows "dc_config s' = dc_config s \<and> dc_active_level s' = dc_active_level s
     \<and> dc_drift_streak s' = dc_drift_streak s \<and> dc_warning_streak s' = dc_warning_streak s
     \<and> dc_clear_streak s' = dc_clear_streak s \<and> dc_generation_windows s' = dc_generation_windows s
     \<and> dc_windows_seen s' = dc_windows_seen s \<and> dc_active_generation s' = dc_active_generation s
     \<and> dc_cooldown_remaining s' = cooldown_windows (dc_config s) \<and> fst fl = (\<not> snd fl)"
  using assms
  by (auto simp: record_event_def create_event_def merge_event_def result_simps split: option.splits if_splits)

lemma triggered_names: "validate_votes s votes = Inr u \<Longrightarrow> \<forall>n \<in> set (triggered votes). name_ok n"
  by (auto simp: validate_votes_def triggered_def result_simps split: if_splits)

lemma streak_wf:
  assumes "consensus_wf s" "room s" "dc_config t = dc_config s"
    "dc_windows_seen t = dc_windows_seen s" "dc_generation_windows t = dc_generation_windows s"
    "dc_active_generation t = dc_active_generation s" "dc_next_event_id t = dc_next_event_id s"
    "dc_last_event t = dc_last_event s" "dc_cooldown_remaining t = dc_cooldown_remaining s"
    and "dc_drift_streak t \<in> {0, dc_drift_streak s + 1}"
    and "dc_warning_streak t \<in> {0, dc_warning_streak s + 1}"
    and "dc_clear_streak t \<in> {0, dc_clear_streak s, dc_clear_streak s + 1}"
  shows "consensus_wf t"
proof -
  have le: "dc_drift_streak s + 1 \<le> dc_generation_windows s" "dc_warning_streak s + 1 \<le> dc_generation_windows s"
    "dc_clear_streak s + 1 \<le> dc_generation_windows s" "dc_clear_streak s \<le> dc_generation_windows s"
    using assms(2) inc_le_of_less less_imp_le unfolding room_def by blast+
  have ev: "event_ok t = event_ok s"
    using assms(3-7) by (simp add: event_ok_def fun_eq_iff)
  have "dc_drift_streak t \<le> dc_generation_windows s" "dc_warning_streak t \<le> dc_generation_windows s"
    "dc_clear_streak t \<le> dc_generation_windows s"
    using assms(10-12) le by auto
  then show ?thesis
    using assms(1,3-9) by (simp add: consensus_wf_def counters_ok_def ev)
qed

lemma drift_arm_wf:
  assumes wf: "consensus_wf s" "room s" and names: "\<forall>n \<in> set (triggered votes). name_ok n"
    and arm: "drift_arm s allowed votes g = Inr (r, s')"
  shows "consensus_wf s'"
proof -
  define t where "t = s\<lparr>dc_clear_streak := 0, dc_warning_streak := 0, dc_drift_streak := dc_drift_streak s + 1\<rparr>"
  have t: "consensus_wf t" "consensus_wf (t\<lparr>dc_active_level := Drift\<rparr>)"
    by (rule streak_wf [OF wf]; simp add: t_def)+
  have w: "0 < dc_windows_seen (t\<lparr>dc_active_level := Drift\<rparr>)"
    using wf(2) by (simp add: t_def room_def)
  have "levels_ok Drift (triggered votes)" using names by (simp add: levels_ok_def)
  note rec = record_event_wf [OF t(2) w this]
  show ?thesis
    using arm t rec
    by (auto simp: drift_arm_def Let_def and_then_Inr checked_increment_Inr simp flip: t_def split: if_splits)
qed

lemma warning_arm_wf:
  assumes wf: "consensus_wf s" "room s" and names: "\<forall>n \<in> set (triggered votes). name_ok n"
    and arm: "warning_arm s allowed votes g = Inr (r, s')"
  shows "consensus_wf s'"
proof -
  define t where "t = s\<lparr>dc_clear_streak := 0, dc_drift_streak := 0, dc_warning_streak := dc_warning_streak s + 1\<rparr>"
  have t: "consensus_wf t" "consensus_wf (t\<lparr>dc_active_level := Warning\<rparr>)"
    by (rule streak_wf [OF wf]; simp add: t_def)+
  have w: "0 < dc_windows_seen (t\<lparr>dc_active_level := Warning\<rparr>)"
    using wf(2) by (simp add: t_def room_def)
  have "levels_ok Warning (triggered votes)" using names by (simp add: levels_ok_def)
  note rec = record_event_wf [OF t(2) w this]
  show ?thesis
    using arm t rec
    by (auto simp: warning_arm_def Let_def and_then_Inr checked_increment_Inr simp flip: t_def split: if_splits)
qed

lemma none_arm_wf:
  assumes wf: "consensus_wf s" "room s" and arm: "none_arm s = Inr (r, s')"
  shows "consensus_wf s'"
  by (rule streak_wf [OF wf])
    (use arm in \<open>auto simp: none_arm_def Let_def and_then_Inr checked_increment_Inr split: if_splits\<close>)

lemma level_arm_wf:
  assumes "consensus_wf s" "room s" "\<forall>n \<in> set (triggered votes). name_ok n"
    and "level_arm s allowed votes g = Inr (r, s')"
  shows "consensus_wf s'"
proof (cases "raw_level (dc_config s) votes")
  case LevelNone
  then show ?thesis using assms none_arm_wf by (simp add: level_arm_def)
next
  case Warning
  then show ?thesis using assms warning_arm_wf by (simp add: level_arm_def)
next
  case Drift
  then show ?thesis using assms drift_arm_wf by (simp add: level_arm_def)
qed

lemma consensus_update_wf:
  assumes wf: "consensus_wf s"
  shows "consensus_wf (snd (consensus_update s votes g))"
proof (cases "and_then (validate_votes s votes) (\<lambda>_. update_inner s votes g)")
  case (Inr rs)
  obtain r s' where rs: "rs = (r, s')" by fastforce
  have v: "validate_votes s votes = Inr ()" and u: "update_inner s votes g = Inr (r, s')"
    using Inr rs by (auto simp: and_then_Inr)
  obtain allowed s1 where b: "begin_window s g = Inr (allowed, s1)"
    using u by (auto simp: update_inner_def and_then_Inr)
  note s1 = begin_window_wf [OF wf b]
  note arm = level_arm_wf [OF _ _ triggered_names [OF v], of s1 allowed g]
  have "consensus_wf (s1\<lparr>dc_warning_streak := 0, dc_drift_streak := 0\<rparr>)"
    using s1 by (auto simp: consensus_wf_def counters_ok_def event_ok_def elim: option.pred_mono_strong)
  then have "consensus_wf s'"
    using u b s1 arm by (auto simp: update_inner_def Let_def and_then_Inr split: if_splits)
  then show ?thesis using Inr rs by (simp add: consensus_update_def)
qed (simp add: consensus_update_def wf)


section \<open>Histories\<close>

text \<open>
  A run of a consensus built from a configuration: the windows that were accepted since the last
  reset, in order, and the state they lead to. A rejected window leaves no trace.
\<close>

inductive consensus_run :: "consensus_config \<Rightarrow> (drift_vote list \<times> u64) list \<Rightarrow> consensus \<Rightarrow> bool"
  for c :: consensus_config where
  run_new: "consensus_new c = Inr s \<Longrightarrow> consensus_run c [] s"
| run_window: "consensus_run c hs s \<Longrightarrow> consensus_update s votes g = (Inr r, s')
    \<Longrightarrow> consensus_run c (hs @ [(votes, g)]) s'"
| run_rejected: "consensus_run c hs s \<Longrightarrow> consensus_update s votes g = (Inl e, s')
    \<Longrightarrow> consensus_run c hs s'"
| run_reset: "consensus_run c hs s \<Longrightarrow> consensus_run c [] (consensus_reset s)"

lemma run_wf: "consensus_run c hs s \<Longrightarrow> consensus_wf s"
proof (induction rule: consensus_run.induct)
  case (run_window hs s votes g r s')
  then show ?case using consensus_update_wf [of s votes g] by simp
next
  case (run_rejected hs s votes g e s')
  then show ?case using consensus_update_wf [of s votes g] by simp
qed (simp_all add: consensus_new_wf consensus_reset_wf)

lemma update_Inl: "consensus_update s votes g = (Inl e, s') \<Longrightarrow> s' = s"
  by (auto simp: consensus_update_def split: sum.splits)

lemma update_Inr:
  assumes "consensus_update s votes g = (Inr r, s')"
  shows "update_inner s votes g = Inr (r, s')"
  using assms by (auto simp: consensus_update_def and_then_Inr split: sum.splits)

lemma begin_window_changed:
  assumes "begin_window s g = Inr (allowed, s1)" "generation_changed s g"
  shows "dc_config s1 = dc_config s" "dc_active_generation s1 = Some g" "dc_drift_streak s1 = 0"
    "dc_active_level s1 = LevelNone" "allowed"
  using assms
  by (cases "checked_increment (dc_windows_seen s) ''consensus windows_seen''";
      cases "checked_increment 0 ''consensus generation_windows''"; auto simp: begin_window_def Let_def)+

lemma begin_window_same:
  assumes "begin_window s g = Inr (allowed, s1)" "\<not> generation_changed s g"
  shows "dc_config s1 = dc_config s" "dc_active_generation s1 = Some g"
    "dc_drift_streak s1 = dc_drift_streak s" "dc_active_level s1 = dc_active_level s"
    "allowed = (dc_cooldown_remaining s = 0)"
    "dc_cooldown_remaining s1 = (if dc_cooldown_remaining s = 0 then 0 else dc_cooldown_remaining s - 1)"
  using assms
  by (cases "checked_increment (dc_windows_seen s) ''consensus windows_seen''";
      cases "checked_increment (dc_generation_windows s) ''consensus generation_windows''";
      auto simp: begin_window_def Let_def word_gt_0 split: if_splits)+

text \<open>What the level match does to the drift streak, the level and the cooldown.\<close>

definition arm_effect ::
    "consensus \<Rightarrow> bool \<Rightarrow> drift_vote list \<Rightarrow> bool \<times> bool \<Rightarrow> consensus \<Rightarrow> bool" where
  "arm_effect s allowed votes flags s' \<longleftrightarrow>
     dc_config s' = dc_config s \<and> dc_active_generation s' = dc_active_generation s
     \<and> (dc_drift_streak s' = 0
        \<or> raw_level (dc_config s) votes = Drift \<and> unat (dc_drift_streak s) + 1 < 2 ^ 64
          \<and> dc_drift_streak s' = dc_drift_streak s + 1)
     \<and> (dc_active_level s' = Drift \<longrightarrow> dc_active_level s = Drift
        \<or> raw_level (dc_config s) votes = Drift \<and> confirmation_windows (dc_config s) \<le> dc_drift_streak s'
          \<and> dc_drift_streak s' = dc_drift_streak s + 1)
     \<and> (if fst flags \<or> snd flags then allowed \<and> dc_cooldown_remaining s' = cooldown_windows (dc_config s)
        else dc_cooldown_remaining s' = dc_cooldown_remaining s)"

lemma drift_arm_effect:
  assumes "drift_arm s allowed votes g = Inr ((n, fl), s')" "raw_level (dc_config s) votes = Drift"
  shows "arm_effect s allowed votes fl s'"
  using assms unfolding drift_arm_def arm_effect_def
  by (auto simp: Let_def and_then_Inr checked_increment_Inr dest!: record_event_frame split: if_splits)

lemma warning_arm_effect:
  assumes "warning_arm s allowed votes g = Inr ((n, fl), s')"
  shows "arm_effect s allowed votes fl s'"
  using assms unfolding warning_arm_def arm_effect_def
  by (auto simp: Let_def and_then_Inr checked_increment_Inr dest!: record_event_frame split: if_splits)

lemma none_arm_effect:
  assumes "none_arm s = Inr ((n, fl), s')"
  shows "arm_effect s allowed votes fl s'"
  using assms unfolding none_arm_def arm_effect_def
  by (auto simp: Let_def and_then_Inr checked_increment_Inr split: if_splits)

lemma level_arm_effect:
  assumes "level_arm s allowed votes g = Inr ((n, fl), s')"
  shows "arm_effect s allowed votes fl s'"
proof (cases "raw_level (dc_config s) votes")
  case LevelNone
  then show ?thesis using assms none_arm_effect by (simp add: level_arm_def)
next
  case Warning
  then show ?thesis using assms warning_arm_effect by (simp add: level_arm_def)
next
  case Drift
  then show ?thesis using assms drift_arm_effect [OF _ Drift] by (simp add: level_arm_def)
qed

text \<open>The effect of a whole accepted window, relative to the state after \<open>begin_window\<close>.\<close>

lemma update_effect:
  assumes "consensus_update s votes g = (Inr r, s')"
  obtains allowed s1 where "begin_window s g = Inr (allowed, s1)"
    "arm_effect s1 allowed votes (cr_new_event r, cr_merged_event r) s'"
proof -
  let ?quiet = "\<lambda>s1. dc_generation_windows s1 \<le> warming_windows (dc_config s1)
      \<or> available_count votes < minimum_warning_votes (dc_config s1)"
  note u = update_Inr [OF assms]
  then obtain allowed s1 where b: "begin_window s g = Inr (allowed, s1)"
    by (cases "begin_window s g") (auto simp: update_inner_def)
  note u = u [unfolded update_inner_def b and_then.simps Let_def prod.case]
  have "arm_effect s1 allowed votes (cr_new_event r, cr_merged_event r) s'"
  proof (cases "?quiet s1")
    case True
    then show ?thesis using u by (auto simp: arm_effect_def consensus_result_def)
  next
    case False
    then obtain k ne me where a: "level_arm s1 allowed votes g = Inr ((k, ne, me), s')"
      and r: "r = consensus_result s' votes k False False (generation_changed s g) ne me"
      using u by (cases "level_arm s1 allowed votes g") (auto split: prod.splits)
    show ?thesis using level_arm_effect [OF a] by (simp add: r consensus_result_def)
  qed
  with b show thesis by (rule that)
qed

lemma update_level: "consensus_update s votes g = (Inr r, s') \<Longrightarrow> cr_level r = dc_active_level s'"
  by (drule update_Inr)
    (auto simp: update_inner_def Let_def and_then_Inr consensus_result_def split: if_splits prod.splits)

lemma update_config: "consensus_update s votes g = (Inr r, s') \<Longrightarrow> dc_config s' = dc_config s"
  by (erule update_effect) (metis arm_effect_def begin_window_changed(1) begin_window_same(1))

lemma run_config: "consensus_run c hs s \<Longrightarrow> dc_config s = c"
  by (induction rule: consensus_run.induct)
    (auto simp: consensus_new_def and_then_Inr consensus_reset_def dest: update_config update_Inl)

text \<open>The last \<open>drift_streak\<close> windows of the history had a raw drift level in one generation.\<close>

definition drift_suffix :: "(drift_vote list \<times> u64) list \<Rightarrow> consensus \<Rightarrow> nat \<Rightarrow> bool" where
  "drift_suffix hs s n \<longleftrightarrow> n \<le> length hs
     \<and> (\<forall>w \<in> set (drop (length hs - n) hs). raw_level (dc_config s) (fst w) = Drift
          \<and> dc_active_generation s = Some (snd w))"

lemma drift_suffix_0 [simp]: "drift_suffix hs s 0"
  by (simp add: drift_suffix_def)

lemma drift_suffix_snoc:
  assumes "drift_suffix hs s n" "raw_level (dc_config s') votes = Drift"
    "dc_config s' = dc_config s" "dc_active_generation s' = Some g"
    "n = 0 \<or> dc_active_generation s = Some g"
  shows "drift_suffix (hs @ [(votes, g)]) s' (Suc n)"
  using assms by (auto simp: drift_suffix_def)

lemma drift_suffix_window:
  assumes up: "consensus_update s votes g = (Inr r, s')"
    and suf: "drift_suffix hs s (unat (dc_drift_streak s))"
    and gen: "dc_active_generation s = None \<longrightarrow> dc_drift_streak s = 0"
  shows "drift_suffix (hs @ [(votes, g)]) s' (unat (dc_drift_streak s'))"
    and "dc_active_level s' = Drift \<Longrightarrow> dc_active_level s \<noteq> Drift
      \<Longrightarrow> confirmation_windows (dc_config s) \<le> dc_drift_streak s' \<and> dc_active_generation s' = Some g"
proof -
  obtain allowed s1 where b: "begin_window s g = Inr (allowed, s1)"
    and e: "arm_effect s1 allowed votes (cr_new_event r, cr_merged_event r) s'"
    using up by (rule update_effect)
  have s1: "dc_config s1 = dc_config s" "dc_active_generation s1 = Some g"
    "dc_active_level s1 = Drift \<longrightarrow> dc_active_level s = Drift"
    using begin_window_changed [OF b] begin_window_same [OF b]
    by (metis, metis, metis drift_level.distinct(3))
  have k: "drift_suffix hs s (unat (dc_drift_streak s1))
      \<and> (unat (dc_drift_streak s1) = 0 \<or> dc_active_generation s = Some g)"
  proof (cases "generation_changed s g")
    case True
    then show ?thesis using begin_window_changed(3) [OF b] by simp
  next
    case False
    then have "dc_active_generation s = Some g \<or> dc_drift_streak s = 0"
      using gen by (auto simp: generation_changed_def split: option.splits)
    then show ?thesis using suf begin_window_same(3) [OF b False] by auto
  qed
  have s': "dc_config s' = dc_config s" "dc_active_generation s' = Some g"
    using e s1 by (simp_all add: arm_effect_def)
  show "drift_suffix (hs @ [(votes, g)]) s' (unat (dc_drift_streak s'))"
  proof (cases "dc_drift_streak s' = 0")
    case False
    then have "raw_level (dc_config s') votes = Drift"
      and n: "unat (dc_drift_streak s') = Suc (unat (dc_drift_streak s1))"
      using e s1 s' by (auto simp: arm_effect_def unat_add_u64)
    then show ?thesis
      using drift_suffix_snoc [OF _ _ s'] k by simp
  qed simp
  show "dc_active_level s' = Drift \<Longrightarrow> dc_active_level s \<noteq> Drift
      \<Longrightarrow> confirmation_windows (dc_config s) \<le> dc_drift_streak s' \<and> dc_active_generation s' = Some g"
    using e s1 s' by (auto simp: arm_effect_def)
qed

lemma run_drift_suffix: "consensus_run c hs s \<Longrightarrow> drift_suffix hs s (unat (dc_drift_streak s))"
proof (induction rule: consensus_run.induct)
  case (run_window hs s votes g r s')
  have "dc_active_generation s = None \<longrightarrow> dc_drift_streak s = 0"
    using run_wf [OF run_window.hyps(1)] by (auto simp: consensus_wf_def counters_ok_def)
  then show ?case
    by (rule drift_suffix_window(1) [OF run_window.hyps(2) run_window.IH])
qed (auto simp: consensus_new_def and_then_Inr consensus_reset_def dest: update_Inl)

text \<open>A sequence of windows of one generation, with the result of each.\<close>

fun window_results :: "consensus \<Rightarrow> u64 \<Rightarrow> drift_vote list list \<Rightarrow> (rill_error + consensus_report) list" where
  "window_results s g [] = []"
| "window_results s g (votes # rest) =
     (let (r, s') = consensus_update s votes g in r # window_results s' g rest)"

definition reports_event :: "rill_error + consensus_report \<Rightarrow> bool" where
  "reports_event r = (case r of Inl _ \<Rightarrow> False | Inr rep \<Rightarrow> cr_new_event rep \<or> cr_merged_event rep)"

lemma update_cooling:
  assumes "consensus_update s votes g = (Inr r, s')" "\<not> generation_changed s g"
    "dc_cooldown_remaining s \<noteq> 0"
  shows "\<not> reports_event (Inr r)" "unat (dc_cooldown_remaining s') = unat (dc_cooldown_remaining s) - 1"
    "\<not> generation_changed s' g"
proof -
  obtain allowed s1 where b: "begin_window s g = Inr (allowed, s1)"
    and e: "arm_effect s1 allowed votes (cr_new_event r, cr_merged_event r) s'"
    using assms(1) by (rule update_effect)
  note s1 = begin_window_same [OF b assms(2)]
  have ev: "\<not> (cr_new_event r \<or> cr_merged_event r)"
    using e s1(5) assms(3) by (auto simp: arm_effect_def)
  then show "\<not> reports_event (Inr r)" by (simp add: reports_event_def)
  have "dc_cooldown_remaining s' = dc_cooldown_remaining s - 1"
    using e ev s1(6) assms(3) by (auto simp: arm_effect_def)
  then show "unat (dc_cooldown_remaining s') = unat (dc_cooldown_remaining s) - 1"
    using assms(3) unat_minus_one by simp
  show "\<not> generation_changed s' g"
    using e s1(2) by (simp add: arm_effect_def generation_changed_def)
qed

lemma cooling_silent:
  assumes "\<not> generation_changed s g" "length ws \<le> unat (dc_cooldown_remaining s)"
  shows "\<forall>r \<in> set (window_results s g ws). \<not> reports_event r"
  using assms
proof (induction ws arbitrary: s)
  case (Cons votes ws)
  obtain r s' where up: "consensus_update s votes g = (r, s')" by fastforce
  show ?case
  proof (cases r)
    case (Inl e)
    then have "s' = s" using up update_Inl by simp
    then show ?thesis using Cons up Inl by (simp add: reports_event_def)
  next
    case (Inr rep)
    have "dc_cooldown_remaining s \<noteq> 0" using Cons.prems(2) by auto
    from update_cooling [OF up [unfolded Inr] Cons.prems(1) this]
    show ?thesis using Cons.IH [of s'] Cons.prems(2) up Inr by simp
  qed
qed simp

lemma event_starts_cooldown:
  assumes "consensus_update s votes g = (Inr r, s')" "reports_event (Inr r)"
  shows "dc_cooldown_remaining s' = cooldown_windows (dc_config s)" "\<not> generation_changed s' g"
proof -
  obtain allowed s1 where b: "begin_window s g = Inr (allowed, s1)"
    and e: "arm_effect s1 allowed votes (cr_new_event r, cr_merged_event r) s'"
    using assms(1) by (rule update_effect)
  have "dc_config s1 = dc_config s" "dc_active_generation s1 = Some g"
    using begin_window_changed [OF b] begin_window_same [OF b] by metis+
  then show "dc_cooldown_remaining s' = cooldown_windows (dc_config s)" "\<not> generation_changed s' g"
    using e assms(2) by (auto simp: arm_effect_def reports_event_def generation_changed_def)
qed

section \<open>Properties\<close>

definition demo_votes :: "drift_vote list" where
  "demo_votes = [\<lparr>dv_detector = ''adwin'', dv_level = Drift, dv_available = True\<rparr>,
     \<lparr>dv_detector = ''kswin'', dv_level = Drift, dv_available = True\<rparr>]"

definition demo_consensus :: "nat \<Rightarrow> consensus" where
  "demo_consensus n = ((\<lambda>s. snd (consensus_update s demo_votes 7)) ^^ n)
     (projr (consensus_new consensus_config_default))"

definition demo_report :: "nat \<Rightarrow> consensus_report" where
  "demo_report n = projr (fst (consensus_update (demo_consensus n) demo_votes 7))"

lemma demo_accepted: "\<not> is_err (fst (consensus_update (demo_consensus 0) demo_votes 7))"
  "\<not> is_err (fst (consensus_update (demo_consensus 1) demo_votes 7))"
  "\<not> is_err (fst (consensus_update (demo_consensus 2) demo_votes 7))"
  by code_simp+

lemma demo_step:
  assumes "\<not> is_err (fst (consensus_update (demo_consensus n) demo_votes 7))"
  shows "consensus_update (demo_consensus n) demo_votes 7 = (Inr (demo_report n), demo_consensus (Suc n))"
  using assms
  by (auto simp: not_is_err_iff demo_report_def demo_consensus_def prod_eq_iff)

lemmas demo_update = demo_accepted [THEN demo_step, unfolded numeral_nat One_nat_def]

lemma demo_run: "consensus_run consensus_config_default [(demo_votes, 7), (demo_votes, 7)] (demo_consensus 2)"
proof -
  have "consensus_config_validate consensus_config_default = Inr ()" by code_simp
  then have "consensus_new consensus_config_default = Inr (demo_consensus 0)"
    by (simp add: consensus_new_def demo_consensus_def)
  from run_window [OF run_window [OF run_new [OF this] demo_update(1)] demo_update(2)]
  show ?thesis by (simp add: numeral_nat)
qed

text \<open>
  Every state that any sequence of accepted windows, rejected windows and resets reaches from
  \<open>new\<close> passes the validation that a restored state must pass: the counters agree with each
  other, the cooldown is within its bound and the last event is well formed and bounded.
\<close>

theorem consensus_reachable_valid:
  assumes "consensus_run c hs s"
  shows "consensus_validate_state s = Inr () \<and> dc_config s = c"
  using run_wf [OF assms] run_config [OF assms] by (simp add: validate_state_iff)

theorem consensus_reachable_valid_witness:
  "consensus_validate_state (demo_consensus 2) = Inr () \<and> dc_config (demo_consensus 2) = consensus_config_default"
  by (rule consensus_reachable_valid [OF demo_run])

text \<open>
  C6: hysteresis. When a window takes the active level to \<open>Drift\<close>, the history ends in at least
  \<open>confirmation_windows\<close> consecutive windows of the same generation that each had enough drift
  votes: no single window, and no votes collected across a model change, raise the alarm.
\<close>

theorem drift_needs_confirmation:
  assumes "consensus_run c hs s" and "consensus_update s votes g = (Inr r, s')"
    and "dc_active_level s \<noteq> Drift" and "cr_level r = Drift"
  shows "\<exists>n. unat (confirmation_windows c) \<le> n \<and> n \<le> length (hs @ [(votes, g)])
    \<and> list_all (\<lambda>w. minimum_drift_votes c \<le> drift_count (fst w) \<and> snd w = g)
         (drop (length (hs @ [(votes, g)]) - n) (hs @ [(votes, g)]))"
proof -
  have gen: "dc_active_generation s = None \<longrightarrow> dc_drift_streak s = 0"
    using run_wf [OF assms(1)] by (auto simp: consensus_wf_def counters_ok_def)
  note w = drift_suffix_window [OF assms(2) run_drift_suffix [OF assms(1)] gen]
  have "dc_active_level s' = Drift"
    using assms(4) update_level [OF assms(2)] by simp
  note conf = w(2) [OF this assms(3)]
  have c: "dc_config s = c" "dc_config s' = c"
    using run_config [OF assms(1)] update_config [OF assms(2)] by simp_all
  have raw: "raw_level c v = Drift \<Longrightarrow> minimum_drift_votes c \<le> drift_count v" for v
    by (simp add: raw_level_def split: if_splits)
  show ?thesis
    unfolding list_all_iff
  proof (intro exI [of _ "unat (dc_drift_streak s')"] conjI ballI)
    show "unat (confirmation_windows c) \<le> unat (dc_drift_streak s')"
      using conf c by (simp add: word_le_nat_alt)
    show "unat (dc_drift_streak s') \<le> length (hs @ [(votes, g)])"
      using w(1) by (simp only: drift_suffix_def)
    fix x assume "x \<in> set (drop (length (hs @ [(votes, g)]) - unat (dc_drift_streak s')) (hs @ [(votes, g)]))"
    then have "raw_level c (fst x) = Drift" "dc_active_generation s' = Some (snd x)"
      using w(1) c by (simp_all only: drift_suffix_def)
    then show "minimum_drift_votes c \<le> drift_count (fst x)" "snd x = g"
      using raw conf by simp_all
  qed
qed

theorem drift_needs_confirmation_witness:
  "let h = [(demo_votes, 7), (demo_votes, 7)] @ [(demo_votes, 7 :: u64)] in
   \<exists>n. unat (confirmation_windows consensus_config_default) \<le> n \<and> n \<le> length h
     \<and> list_all (\<lambda>w. minimum_drift_votes consensus_config_default \<le> drift_count (fst w) \<and> snd w = 7)
          (drop (length h - n) h)"
  unfolding Let_def
  by (rule drift_needs_confirmation [OF demo_run demo_update(3) [folded numeral_2_eq_2]]) code_simp+

text \<open>
  C7: cooldown. After a window that created or merged an event, the next \<open>cooldown_windows\<close>
  windows of the same generation report none, whatever their votes and whether they are accepted.
\<close>

theorem cooldown_separates_events:
  assumes "consensus_update s votes g = (Inr r, s')" and "cr_new_event r \<or> cr_merged_event r"
    and "length ws \<le> unat (cooldown_windows (dc_config s))"
  shows "list_all (\<lambda>x. \<not> reports_event x) (window_results s' g ws)"
proof -
  have "reports_event (Inr r)" using assms(2) by (simp add: reports_event_def)
  note e = event_starts_cooldown [OF assms(1) this]
  show ?thesis
    unfolding list_all_iff by (rule cooling_silent [OF e(2)]) (simp add: e(1) assms(3))
qed

theorem cooldown_separates_events_witness:
  "list_all (\<lambda>x. \<not> reports_event x) (window_results (demo_consensus 3) 7 (replicate 5 demo_votes))"
  by (rule cooldown_separates_events [OF demo_update(3) [folded numeral_3_eq_3]]) code_simp+

text \<open>
  \<open>warming_windows\<close> counts every window: a window without votes uses up the warm-up of the
  default configuration, and the first complete window after it is no longer warming.
\<close>

lemma incomplete_windows_warm_up:
  "let s0 = projr (consensus_new consensus_config_default);
       (r1, s1) = consensus_update s0 [] 7; (r2, s2) = consensus_update s1 demo_votes 7
   in cr_incomplete (projr r1) \<and> cr_warming (projr r1)
      \<and> \<not> cr_incomplete (projr r2) \<and> \<not> cr_warming (projr r2)"
  by code_simp

end
