(* ===== verification/Drift_Detector.thy ===== *)
theory Drift_Detector imports Drift_Core Machine begin

text \<open>
  The trait \<open>DriftDetector\<close> of \<open>src/drift/detector.rs\<close> as an interface: an update is failure atomic,
  returns the level it stores, counts one sample, and reports no change before the detector is
  warmed up. The detectors interpret it.
\<close>

locale drift_detector = atomic_machine update inv
  for update :: "f64 \<Rightarrow> 's \<Rightarrow> (rill_error + drift_level) \<times> 's" and inv :: "'s \<Rightarrow> bool" +
  fixes level :: "'s \<Rightarrow> drift_level" and seen :: "'s \<Rightarrow> u64" and warmup :: "'s \<Rightarrow> nat" and reset :: "'s \<Rightarrow> 's"
  assumes update_level: "update x s = (Inr l, s') \<Longrightarrow> level s' = l"
    and update_seen: "update x s = (Inr l, s') \<Longrightarrow> unat (seen s') = unat (seen s) + 1"
    and update_warmup: "update x s = (Inr l, s') \<Longrightarrow> warmup s' = warmup s"
    and warm: "inv s \<Longrightarrow> level s \<noteq> LevelNone \<Longrightarrow> warmup s \<le> unat (seen s)"
    and reset_state: "level (reset s) = LevelNone \<and> seen (reset s) = 0"
    and reset_inv: "inv s \<Longrightarrow> inv (reset s)"
begin

lemma run_counts:
  "unat (seen (run_ops update xs s)) = unat (seen s) + length (accepted_ops update xs s)
   \<and> warmup (run_ops update xs s) = warmup s"
proof (induction xs arbitrary: s)
  case (Cons x xs)
  obtain r s' where e: "update x s = (r, s')" by fastforce
  show ?case
  proof (cases r)
    case (Inl err)
    then have "s' = s" using e error_unchanged by blast
    then show ?thesis using Cons.IH [of s] e Inl by simp
  next
    case (Inr u)
    then show ?thesis using Cons.IH [of s'] e update_seen update_warmup by simp
  qed
qed simp

text \<open>A reported change has enough samples behind it.\<close>

lemma silent_before_warmup:
  assumes "inv s" "seen s = 0" "length (accepted_ops update xs s) < warmup s"
  shows "level (run_ops update xs s) = LevelNone"
  using warm [OF run_inv [OF assms(1)], of xs] run_counts [of xs s] assms(2,3) by fastforce

text \<open>After a reset the detector is silent for another warm-up.\<close>

lemma silent_after_reset:
  assumes "inv s" "length (accepted_ops update xs (reset s)) < warmup (reset s)"
  shows "level (run_ops update xs (reset s)) = LevelNone"
  using silent_before_warmup [OF reset_inv [OF assms(1)]] reset_state assms(2) by blast

end

end
