(* ===== verification/Page_Hinkley.thy ===== *)
theory Page_Hinkley imports Drift_Detector F64_Step begin

text \<open>
  The Page-Hinkley detector of \<open>src/drift/page_hinkley.rs\<close>, with its portable state. The update
  checks its input and its counter first; the arithmetic that follows is unchecked, as in the source.
\<close>

definition page_hinkley_state_version :: u32 where "page_hinkley_state_version = 1"

record ph_config =
  ph_threshold :: f64
  ph_warning_threshold :: f64
  ph_alpha :: f64
  ph_delta :: f64
  ph_min_samples :: u64

record ph_portable =
  pp_version :: u32
  pp_threshold :: f64
  pp_warning_threshold :: f64
  pp_alpha :: f64
  pp_delta :: f64
  pp_min_samples :: u64
  pp_mean :: f64
  pp_samples :: u64
  pp_cumulative_sum :: f64
  pp_minimum_cumulative_sum :: f64
  pp_current_level :: drift_level

record page_hinkley =
  ph_config :: ph_config
  ph_mean :: f64
  ph_samples :: u64
  ph_cum_sum :: f64
  ph_min_cum_sum :: f64
  ph_current_level :: drift_level

definition ph_config_default :: ph_config where
  "ph_config_default = \<lparr>ph_threshold = f_of_nat 50, ph_warning_threshold = f_of_nat 25, ph_alpha = 1,
     ph_delta = f_of_rat (5 / 1000), ph_min_samples = 30\<rparr>"

definition ph_check_config :: "ph_config \<Rightarrow> rill_error + unit" where
  "ph_check_config c =
     and_then (ensure_finite ''threshold'' (ph_threshold c)) (\<lambda>_.
     and_then (ensure (\<not> ph_threshold c \<le> 0) (InvalidParameter ''threshold'' (ph_threshold c))) (\<lambda>_.
     and_then (ensure_finite ''warning_threshold'' (ph_warning_threshold c)) (\<lambda>_.
     and_then (ensure (\<not> (ph_warning_threshold c < 0 \<or> ph_threshold c < ph_warning_threshold c))
                 (InvalidParameter ''warning_threshold'' (ph_warning_threshold c))) (\<lambda>_.
     and_then (ensure_finite ''alpha'' (ph_alpha c)) (\<lambda>_.
     and_then (ensure (\<not> (ph_alpha c \<le> 0 \<or> 1 < ph_alpha c)) (InvalidParameter ''alpha'' (ph_alpha c))) (\<lambda>_.
     and_then (ensure_finite ''delta'' (ph_delta c)) (\<lambda>_.
     and_then (ensure (\<not> ph_delta c < 0) (InvalidParameter ''delta'' (ph_delta c))) (\<lambda>_.
       ensure (ph_min_samples c \<noteq> 0) (InvalidParameter ''min_samples'' 0)))))))))"

definition ph_new :: "ph_config \<Rightarrow> rill_error + page_hinkley" where
  "ph_new c = and_then (ph_check_config c) (\<lambda>_.
     Inr \<lparr>ph_config = c, ph_mean = 0, ph_samples = 0, ph_cum_sum = 0, ph_min_cum_sum = 0,
          ph_current_level = LevelNone\<rparr>)"

definition ph_statistic :: "page_hinkley \<Rightarrow> f64" where
  "ph_statistic s = ph_cum_sum s - ph_min_cum_sum s"

definition ph_export_state :: "page_hinkley \<Rightarrow> ph_portable" where
  "ph_export_state s =
     \<lparr>pp_version = page_hinkley_state_version, pp_threshold = ph_threshold (ph_config s),
      pp_warning_threshold = ph_warning_threshold (ph_config s), pp_alpha = ph_alpha (ph_config s),
      pp_delta = ph_delta (ph_config s), pp_min_samples = ph_min_samples (ph_config s),
      pp_mean = ph_mean s, pp_samples = ph_samples s, pp_cumulative_sum = ph_cum_sum s,
      pp_minimum_cumulative_sum = ph_min_cum_sum s, pp_current_level = ph_current_level s\<rparr>"

definition ph_portable_config :: "ph_portable \<Rightarrow> ph_config" where
  "ph_portable_config p =
     \<lparr>ph_threshold = pp_threshold p, ph_warning_threshold = pp_warning_threshold p, ph_alpha = pp_alpha p,
      ph_delta = pp_delta p, ph_min_samples = pp_min_samples p\<rparr>"

definition ph_portable_validate :: "ph_portable \<Rightarrow> rill_error + unit" where
  "ph_portable_validate p =
     (if pp_version p \<noteq> page_hinkley_state_version
      then Inl (IncompatibleStateVersion page_hinkley_state_version (pp_version p))
      else and_then (ph_new (ph_portable_config p)) (\<lambda>_.
           and_then (ensure_finite ''portable Page-Hinkley mean'' (pp_mean p)) (\<lambda>_.
           and_then (ensure_finite ''portable Page-Hinkley cumulative_sum'' (pp_cumulative_sum p)) (\<lambda>_.
           and_then (ensure_finite ''portable Page-Hinkley minimum_cumulative_sum''
                       (pp_minimum_cumulative_sum p)) (\<lambda>_.
             if pp_cumulative_sum p < pp_minimum_cumulative_sum p
             then Inl (InvalidState ''Page-Hinkley minimum cumulative sum exceeds cumulative sum'')
             else if pp_samples p = 0 \<and> (\<not> feq (pp_mean p) 0 \<or> \<not> feq (pp_cumulative_sum p) 0
                       \<or> \<not> feq (pp_minimum_cumulative_sum p) 0 \<or> pp_current_level p \<noteq> LevelNone)
             then Inl (InvalidState ''empty Page-Hinkley state must use zero accumulators and no level'')
             else if pp_samples p < pp_min_samples p \<and> pp_current_level p \<noteq> LevelNone
             then Inl (InvalidState ''Page-Hinkley state reports a level before min_samples'')
             else Inr ())))))"

definition ph_restore_state :: "ph_config \<Rightarrow> ph_portable \<Rightarrow> rill_error + page_hinkley" where
  "ph_restore_state c p =
     and_then (ph_portable_validate p) (\<lambda>_.
       if \<not> feq (ph_threshold c) (pp_threshold p)
          \<or> \<not> feq (ph_warning_threshold c) (pp_warning_threshold p)
          \<or> \<not> feq (ph_alpha c) (pp_alpha p) \<or> \<not> feq (ph_delta c) (pp_delta p)
          \<or> ph_min_samples c \<noteq> pp_min_samples p
       then Inl (InvalidState ''Page-Hinkley portable state configuration mismatch'')
       else and_then (ph_new c) (\<lambda>_.
         Inr \<lparr>ph_config = c, ph_mean = pp_mean p, ph_samples = pp_samples p,
              ph_cum_sum = pp_cumulative_sum p, ph_min_cum_sum = pp_minimum_cumulative_sum p,
              ph_current_level = pp_current_level p\<rparr>))"

definition ph_level_of :: "ph_config \<Rightarrow> u64 \<Rightarrow> f64 \<Rightarrow> drift_level" where
  "ph_level_of c samples stat =
     (if samples < ph_min_samples c then LevelNone
      else if ph_threshold c < stat then Drift
      else if ph_warning_threshold c < stat then Warning
      else LevelNone)"

definition ph_update :: "f64 \<Rightarrow> page_hinkley \<Rightarrow> (rill_error + drift_level) \<times> page_hinkley" where
  "ph_update v s =
     (case and_then (ensure_finite ''value'' v) (\<lambda>_. checked_increment (ph_samples s) ''samples'') of
        Inl e \<Rightarrow> (Inl e, s)
      | Inr n \<Rightarrow>
          let delta = v - ph_mean s;
              mean = ph_mean s + delta / f_of_u64 n;
              cum = ph_alpha (ph_config s) * ph_cum_sum s + (v - mean - ph_delta (ph_config s));
              low = (if cum < ph_min_cum_sum s then cum else ph_min_cum_sum s);
              level = ph_level_of (ph_config s) n (cum - low)
          in (Inr level, s\<lparr>ph_mean := mean, ph_samples := n, ph_cum_sum := cum, ph_min_cum_sum := low,
                           ph_current_level := level\<rparr>))"

definition ph_detected :: "page_hinkley \<Rightarrow> bool" where
  "ph_detected s \<longleftrightarrow> ph_current_level s = Drift"

definition ph_warning :: "page_hinkley \<Rightarrow> bool" where
  "ph_warning s \<longleftrightarrow> ph_current_level s = Warning"

definition ph_reset :: "page_hinkley \<Rightarrow> page_hinkley" where
  "ph_reset s = s\<lparr>ph_mean := 0, ph_samples := 0, ph_cum_sum := 0, ph_min_cum_sum := 0,
                  ph_current_level := LevelNone\<rparr>"

section \<open>Invariant\<close>

text \<open>The minimum never exceeds the sum, whenever the sum is a number.\<close>

definition ph_ok :: "page_hinkley \<Rightarrow> bool" where
  "ph_ok s \<longleftrightarrow> ph_check_config (ph_config s) = Inr ()
     \<and> \<not> ph_cum_sum s < ph_min_cum_sum s
     \<and> (ph_samples s = 0 \<longrightarrow> ph_mean s = 0 \<and> ph_cum_sum s = 0 \<and> ph_min_cum_sum s = 0)
     \<and> (ph_current_level s \<noteq> LevelNone \<longrightarrow> ph_min_samples (ph_config s) \<le> ph_samples s)"

lemma ph_update_Inr [result_simps]:
  "ph_update v s = (Inr l, s') \<longleftrightarrow>
     (let n = ph_samples s + 1; mean = ph_mean s + (v - ph_mean s) / f_of_u64 n;
          cum = ph_alpha (ph_config s) * ph_cum_sum s + (v - mean - ph_delta (ph_config s));
          low = (if cum < ph_min_cum_sum s then cum else ph_min_cum_sum s)
      in is_finite v \<and> unat (ph_samples s) + 1 < 2 ^ 64 \<and> l = ph_level_of (ph_config s) n (cum - low)
         \<and> s' = s\<lparr>ph_mean := mean, ph_samples := n, ph_cum_sum := cum, ph_min_cum_sum := low, ph_current_level := l\<rparr>)"
  by (auto simp: ph_update_def Let_def ensure_finite_def checked_increment_def checked_add_u64_def ok_or_def
      split: if_splits)

lemma ph_update_Inl: "ph_update v s = (Inl e, s') \<Longrightarrow> s' = s"
  by (auto simp: ph_update_def Let_def split: sum.splits)

lemma f_less_irrefl: "\<not> x < (x :: f64)"
  by transfer (simp add: fp_less_def)

lemma ph_step_ok:
  assumes "ph_ok s" "ph_update v s = (Inr l, s')"
  shows "ph_ok s'"
proof -
  have n: "ph_samples s + 1 \<noteq> 0" using assms(2) inc_nz [of "ph_samples s"] by (simp only: ph_update_Inr Let_def) blast
  then show ?thesis
    using assms by (auto simp: ph_ok_def ph_update_Inr Let_def f_less_irrefl ph_level_of_def not_less split: if_splits)
qed

lemma ph_new_Inr [result_simps]:
  "ph_new c = Inr s \<longleftrightarrow> ph_check_config c = Inr () \<and>
     s = \<lparr>ph_config = c, ph_mean = 0, ph_samples = 0, ph_cum_sum = 0, ph_min_cum_sum = 0, ph_current_level = LevelNone\<rparr>"
  by (auto simp: ph_new_def and_then_Inr)

lemma ph_new_ok: "ph_new c = Inr s \<Longrightarrow> ph_ok s"
  by (auto simp: ph_new_Inr ph_ok_def f_less_irrefl)

interpretation page_hinkley: drift_detector ph_update ph_ok ph_current_level ph_samples
    "\<lambda>s. unat (ph_min_samples (ph_config s))" ph_reset
proof unfold_locales
  show "ph_update x s = (Inl e, s') \<Longrightarrow> s' = s" for x s e s' by (rule ph_update_Inl)
  show "ph_ok s \<Longrightarrow> ph_update x s = (Inr l, s') \<Longrightarrow> ph_ok s'" for s x l s' by (rule ph_step_ok)
  show "ph_ok s \<Longrightarrow> ph_ok (ph_reset s)" for s by (simp add: ph_ok_def ph_reset_def f_less_irrefl)
qed (auto simp: ph_update_Inr Let_def unat_add_u64 ph_ok_def ph_reset_def word_le_nat_alt)

section \<open>The portable state\<close>

lemma ph_check_config_feq:
  "ph_check_config c = Inr () \<Longrightarrow> feq (ph_threshold c) (ph_threshold c)
     \<and> feq (ph_warning_threshold c) (ph_warning_threshold c) \<and> feq (ph_alpha c) (ph_alpha c) \<and> feq (ph_delta c) (ph_delta c)
     \<and> ph_min_samples c \<noteq> 0"
  by (auto simp: ph_check_config_def result_simps feq_refl)

lemma ph_restore_export:
  assumes "ph_ok s" "is_finite (ph_mean s)" "is_finite (ph_cum_sum s)" "is_finite (ph_min_cum_sum s)"
  shows "ph_restore_state (ph_config s) (ph_export_state s) = Inr s"
proof -
  have c: "ph_check_config (ph_config s) = Inr ()" using assms(1) by (simp add: ph_ok_def)
  have pc: "ph_portable_config (ph_export_state s) = ph_config s"
    by (simp add: ph_portable_config_def ph_export_state_def)
  have "ph_portable_validate (ph_export_state s) = Inr ()"
    using assms c ph_check_config_feq [OF c]
    by (auto simp: ph_portable_validate_def pc ph_new_def ph_ok_def ensure_finite_def feq_refl not_less)
      (auto simp: ph_export_state_def feq_refl not_less)
  then show ?thesis
    using c ph_check_config_feq [OF c]
    by (simp add: ph_restore_state_def ph_new_def ph_export_state_def)
qed

text \<open>
  Portable state. Restoring the exported state of a reachable detector under its own configuration
  gives back the detector, as long as its accumulators did not overflow.
\<close>
theorem ph_state_roundtrip:
  assumes "ph_new c = Inr s0" and "s = run_ops ph_update xs s0"
    and "is_finite (ph_mean s)" "is_finite (ph_cum_sum s)" "is_finite (ph_min_cum_sum s)"
  shows "ph_restore_state (ph_config s) (ph_export_state s) = Inr s"
  using ph_restore_export page_hinkley.run_inv [OF ph_new_ok [OF assms(1)], of xs] assms by simp

definition demo_ph :: page_hinkley where
  "demo_ph = \<lparr>ph_config = ph_config_default, ph_mean = 0, ph_samples = 0, ph_cum_sum = 0, ph_min_cum_sum = 0,
     ph_current_level = LevelNone\<rparr>"

lemma demo_ph_new: "ph_new ph_config_default = Inr demo_ph"
  by code_simp

lemma ph_state_roundtrip_witness:
  "ph_restore_state ph_config_default (ph_export_state (run_ops ph_update [f_of_nat 3] demo_ph))
   = Inr (run_ops ph_update [f_of_nat 3] demo_ph)"
proof -
  have "let s = run_ops ph_update [f_of_nat 3] demo_ph
    in is_finite (ph_mean s) \<and> is_finite (ph_cum_sum s) \<and> is_finite (ph_min_cum_sum s) \<and> ph_config s = ph_config_default"
    by code_simp
  then show ?thesis using ph_state_roundtrip [OF demo_ph_new refl, of "[f_of_nat 3]"] by (simp only: Let_def)
qed

end
