(* ===== verification/Adwin.thy ===== *)
theory Adwin imports Drift_Detector F64_Step Stats "HOL-Library.Sublist" begin

text \<open>
  The ADWIN detector of \<open>src/drift/adwin.rs\<close>: a window of the latest values, cut at the oldest
  split whose two halves differ by more than a Hoeffding bound. The natural logarithm of the platform
  is the parameter \<open>libln\<close>.
\<close>

definition adwin_state_version :: u32 where "adwin_state_version = 1"

record adwin_config =
  aw_delta :: f64
  aw_warning_delta :: f64
  aw_max_window :: usize
  aw_min_samples :: u64

record adwin_portable =
  ap_version :: u32
  ap_delta :: f64
  ap_warning_delta :: f64
  ap_max_window :: usize
  ap_min_samples :: u64
  ap_window :: "f64 list"
  ap_total :: f64
  ap_samples :: u64
  ap_current_level :: drift_level

record adwin =
  aw_config :: adwin_config
  aw_window :: "f64 list"
  aw_total :: f64
  aw_samples :: u64
  aw_current_level :: drift_level

definition adwin_config_default :: adwin_config where
  "adwin_config_default = \<lparr>aw_delta = f_of_rat (2 / 1000), aw_warning_delta = f_of_rat (1 / 100),
     aw_max_window = 1000, aw_min_samples = 10\<rparr>"

definition adwin_check_config :: "adwin_config \<Rightarrow> rill_error + unit" where
  "adwin_check_config c =
     and_then (ensure_finite ''delta'' (aw_delta c)) (\<lambda>_.
     and_then (ensure (\<not> (aw_delta c \<le> 0 \<or> 1 \<le> aw_delta c)) (InvalidSignificanceLevel (aw_delta c))) (\<lambda>_.
     and_then (ensure_finite ''warning_delta'' (aw_warning_delta c)) (\<lambda>_.
     and_then (ensure (\<not> (aw_warning_delta c \<le> 0 \<or> 1 \<le> aw_warning_delta c))
                 (InvalidSignificanceLevel (aw_warning_delta c))) (\<lambda>_.
     and_then (ensure (\<not> aw_warning_delta c < aw_delta c)
                 (InvalidParameter ''warning_delta'' (aw_warning_delta c))) (\<lambda>_.
     and_then (ensure (aw_max_window c \<noteq> 0) (InvalidCapacity (aw_max_window c))) (\<lambda>_.
       ensure (aw_min_samples c \<noteq> 0) (InvalidParameter ''min_samples'' 0)))))))"

definition adwin_new :: "adwin_config \<Rightarrow> rill_error + adwin" where
  "adwin_new c = and_then (adwin_check_config c) (\<lambda>_.
     Inr \<lparr>aw_config = c, aw_window = [], aw_total = 0, aw_samples = 0, aw_current_level = LevelNone\<rparr>)"

definition adwin_window_mean :: "adwin \<Rightarrow> f64" where
  "adwin_window_mean s =
     (if aw_window s = [] then 0 else aw_total s / f_of_nat (length (aw_window s)))"

definition adwin_export_state :: "adwin \<Rightarrow> adwin_portable" where
  "adwin_export_state s =
     \<lparr>ap_version = adwin_state_version, ap_delta = aw_delta (aw_config s),
      ap_warning_delta = aw_warning_delta (aw_config s), ap_max_window = aw_max_window (aw_config s),
      ap_min_samples = aw_min_samples (aw_config s), ap_window = aw_window s, ap_total = aw_total s,
      ap_samples = aw_samples s, ap_current_level = aw_current_level s\<rparr>"

definition adwin_portable_config :: "adwin_portable \<Rightarrow> adwin_config" where
  "adwin_portable_config p =
     \<lparr>aw_delta = ap_delta p, aw_warning_delta = ap_warning_delta p, aw_max_window = ap_max_window p,
      aw_min_samples = ap_min_samples p\<rparr>"

definition adwin_recompute :: "f64 list \<Rightarrow> rill_error + f64" where
  "adwin_recompute w = try_fold (\<lambda>acc v.
     and_then (ensure_finite ''portable ADWIN window value'' v) (\<lambda>_.
       checked_finite_add acc v ''portable ADWIN window sum'')) 0 w"

definition adwin_portable_validate :: "adwin_portable \<Rightarrow> rill_error + unit" where
  "adwin_portable_validate p =
     (if ap_version p \<noteq> adwin_state_version
      then Inl (IncompatibleStateVersion adwin_state_version (ap_version p))
      else and_then (adwin_new (adwin_portable_config p)) (\<lambda>_.
        if length (ap_window p) > ap_max_window p
        then Inl (InvalidState ''ADWIN portable window exceeds max_window'')
        else if unat (ap_samples p) < length (ap_window p)
        then Inl (InvalidState ''ADWIN samples is smaller than the retained window'')
        else and_then (ensure_finite ''portable ADWIN total'' (ap_total p)) (\<lambda>_.
             and_then (adwin_recompute (ap_window p)) (\<lambda>recomputed.
               let tolerance = f_of_rat (1 / 10 ^ 10) * f_max (f_max \<bar>recomputed\<bar> \<bar>ap_total p\<bar>) 1 in
               if \<bar>recomputed - ap_total p\<bar> > tolerance
               then Inl (InvalidState ''ADWIN portable total does not match the retained window'')
               else if ap_samples p < ap_min_samples p \<and> ap_current_level p \<noteq> LevelNone
               then Inl (InvalidState ''ADWIN state reports a level before min_samples'')
               else Inr ()))))"

definition adwin_restore_state :: "adwin_config \<Rightarrow> adwin_portable \<Rightarrow> rill_error + adwin" where
  "adwin_restore_state c p =
     and_then (adwin_portable_validate p) (\<lambda>_.
       if \<not> feq (aw_delta c) (ap_delta p) \<or> \<not> feq (aw_warning_delta c) (ap_warning_delta p)
          \<or> aw_max_window c \<noteq> ap_max_window p \<or> aw_min_samples c \<noteq> ap_min_samples p
       then Inl (InvalidState ''ADWIN portable state configuration mismatch'')
       else and_then (adwin_new c) (\<lambda>_.
         Inr \<lparr>aw_config = c, aw_window = ap_window p, aw_total = ap_total p, aw_samples = ap_samples p,
              aw_current_level = ap_current_level p\<rparr>))"

section \<open>Detection\<close>

definition hoeffding_bound :: "(f64 \<Rightarrow> f64) \<Rightarrow> f64 \<Rightarrow> f64 \<Rightarrow> nat \<Rightarrow> f64 \<Rightarrow> f64" where
  "hoeffding_bound libln n0 n1 n delta =
     (let m = n0 * n1 / (n0 + n1);
          ln_n = f_max (libln (f_of_nat n)) 1;
          delta_eff = delta / ln_n
      in f_sqrt (1 / (f_of_nat 2 * m) * libln (f_of_nat 4 / delta_eff)))"

fun prefix_sums :: "f64 \<Rightarrow> f64 list \<Rightarrow> f64 list" where
  "prefix_sums acc [] = [acc]"
| "prefix_sums acc (v # vs) = acc # prefix_sums (acc + v) vs"

text \<open>The loop over the split points, with the first warning found so far.\<close>

fun scan_splits ::
    "(f64 \<Rightarrow> f64) \<Rightarrow> adwin_config \<Rightarrow> nat \<Rightarrow> f64 \<Rightarrow> (nat \<times> drift_level \<times> f64) option \<Rightarrow> (nat \<times> f64) list
     \<Rightarrow> (nat \<times> drift_level \<times> f64) option" where
  "scan_splits libln c n tot best [] = best"
| "scan_splits libln c n tot best ((k, sum0) # rest) =
     (let n0 = f_of_nat k; n1 = f_of_nat (n - k);
          mean0 = sum0 / n0; mean1 = (tot - sum0) / n1;
          diff = \<bar>mean0 - mean1\<bar>
      in if hoeffding_bound libln n0 n1 n (aw_delta c) < diff then Some (k, Drift, diff)
         else scan_splits libln c n tot
           (if hoeffding_bound libln n0 n1 n (aw_warning_delta c) < diff \<and> best = None
            then Some (k, Warning, diff) else best) rest)"

definition check_splits :: "(f64 \<Rightarrow> f64) \<Rightarrow> adwin \<Rightarrow> (nat \<times> drift_level \<times> f64) option" where
  "check_splits libln s =
     (let n = length (aw_window s) in
      if n < 2 then None
      else let prefix = prefix_sums 0 (aw_window s) in
        scan_splits libln (aw_config s) n (prefix ! n) None (drop 1 (take n (enumerate 0 prefix))))"

fun trim_front :: "nat \<Rightarrow> adwin \<Rightarrow> adwin" where
  "trim_front 0 s = s"
| "trim_front (Suc count) s =
     trim_front count (case aw_window s of
        [] \<Rightarrow> s
      | v # w \<Rightarrow> s\<lparr>aw_window := w, aw_total := aw_total s - v\<rparr>)"

text \<open>The checked part of an update: the counter and the total with the evicted value taken out.\<close>

definition adwin_next :: "f64 \<Rightarrow> adwin \<Rightarrow> rill_error + (u64 \<times> f64 \<times> f64 option)" where
  "adwin_next v s =
     and_then (ensure_finite ''value'' v) (\<lambda>_.
     and_then (checked_increment (aw_samples s) ''ADWIN samples'') (\<lambda>n.
     and_then (checked_finite_add (aw_total s) v ''ADWIN window total'') (\<lambda>tot.
       let evicted = (if length (aw_window s) = aw_max_window (aw_config s)
                      then (case aw_window s of [] \<Rightarrow> None | o' # w \<Rightarrow> Some o') else None) in
       case evicted of
         None \<Rightarrow> Inr (n, tot, None)
       | Some oldest \<Rightarrow>
           and_then (checked_finite_add tot (- oldest) ''ADWIN window total'') (\<lambda>tot'.
             Inr (n, tot', Some oldest)))))"

definition adwin_store :: "f64 \<Rightarrow> u64 \<times> f64 \<times> f64 option \<Rightarrow> adwin \<Rightarrow> adwin" where
  "adwin_store v nx s = (case nx of (n, tot, evicted) \<Rightarrow>
     s\<lparr>aw_samples := n,
       aw_window := (if evicted \<noteq> None then tl (aw_window s) else aw_window s) @ [v],
       aw_total := tot\<rparr>)"

definition adwin_detect :: "(f64 \<Rightarrow> f64) \<Rightarrow> adwin \<Rightarrow> adwin" where
  "adwin_detect libln s =
     (if aw_samples s < aw_min_samples (aw_config s) \<or> length (aw_window s) < 2
      then s\<lparr>aw_current_level := LevelNone\<rparr>
      else case check_splits libln s of
        Some (split, level, _) \<Rightarrow>
          (if level = Drift then trim_front split s else s)\<lparr>aw_current_level := level\<rparr>
      | None \<Rightarrow> s\<lparr>aw_current_level := LevelNone\<rparr>)"

definition adwin_update :: "(f64 \<Rightarrow> f64) \<Rightarrow> f64 \<Rightarrow> adwin \<Rightarrow> (rill_error + drift_level) \<times> adwin" where
  "adwin_update libln v s =
     (case adwin_next v s of
        Inl e \<Rightarrow> (Inl e, s)
      | Inr nx \<Rightarrow> let s' = adwin_detect libln (adwin_store v nx s) in (Inr (aw_current_level s'), s'))"

definition adwin_detected :: "adwin \<Rightarrow> bool" where
  "adwin_detected s \<longleftrightarrow> aw_current_level s = Drift"

definition adwin_warning :: "adwin \<Rightarrow> bool" where
  "adwin_warning s \<longleftrightarrow> aw_current_level s = Warning"

definition adwin_reset :: "adwin \<Rightarrow> adwin" where
  "adwin_reset s = s\<lparr>aw_window := [], aw_total := 0, aw_samples := 0, aw_current_level := LevelNone\<rparr>"

section \<open>Invariant\<close>

definition adwin_ok :: "adwin \<Rightarrow> bool" where
  "adwin_ok s \<longleftrightarrow> adwin_check_config (aw_config s) = Inr ()
     \<and> length (aw_window s) \<le> aw_max_window (aw_config s)
     \<and> length (aw_window s) \<le> unat (aw_samples s)
     \<and> list_all is_finite (aw_window s)
     \<and> (aw_current_level s \<noteq> LevelNone \<longrightarrow> aw_min_samples (aw_config s) \<le> aw_samples s)"

lemma scan_splits_range:
  "scan_splits libln c n tot best ps = Some (k, l, d) \<Longrightarrow> best \<noteq> None \<longrightarrow> fst (the best) \<in> A \<Longrightarrow> fst ` set ps \<subseteq> A \<Longrightarrow>
   k \<in> A"
proof (induction ps arbitrary: best)
  case (Cons p ps)
  obtain j sum0 where p: "p = (j, sum0)" by fastforce
  show ?case using Cons by (auto simp: p Let_def split: if_splits)
qed auto

text \<open>A split lies strictly inside the window.\<close>

lemma prefix_sums_length [simp]: "length (prefix_sums acc w) = Suc (length w)"
  by (induction w arbitrary: acc) auto

lemma check_splits_range:
  "check_splits libln s = Some (k, l, d) \<Longrightarrow> 0 < k \<and> k < length (aw_window s)"
proof -
  assume a: "check_splits libln s = Some (k, l, d)"
  let ?n = "length (aw_window s)" let ?p = "prefix_sums 0 (aw_window s)"
  have "fst ` set (drop 1 (take ?n (enumerate 0 ?p))) \<subseteq> {0<..<?n}"
    by (auto simp: set_conv_nth nth_enumerate_eq)
  from scan_splits_range [of libln "aw_config s" ?n _ None _ k l d, OF _ _ this] a
  show ?thesis by (auto simp: check_splits_def Let_def split: if_splits)
qed

lemma trim_front_fields [simp]:
  "aw_config (trim_front k s) = aw_config s" "aw_samples (trim_front k s) = aw_samples s"
  "aw_window (trim_front k s) = drop k (aw_window s)"
proof -
  have "aw_config (trim_front k s) = aw_config s \<and> aw_samples (trim_front k s) = aw_samples s
    \<and> aw_window (trim_front k s) = drop k (aw_window s)"
    by (induction k s rule: trim_front.induct) (auto split: list.splits)
  then show "aw_config (trim_front k s) = aw_config s" "aw_samples (trim_front k s) = aw_samples s"
    "aw_window (trim_front k s) = drop k (aw_window s)" by simp_all
qed

text \<open>What detection does to the window: it keeps a non-empty suffix, all of it without a drift.\<close>

lemma adwin_detect_cases:
  obtains k where "aw_window (adwin_detect libln s) = drop k (aw_window s)"
    "k = 0 \<or> k < length (aw_window s) \<and> aw_current_level (adwin_detect libln s) = Drift"
    "aw_config (adwin_detect libln s) = aw_config s" "aw_samples (adwin_detect libln s) = aw_samples s"
    "aw_current_level (adwin_detect libln s) \<noteq> LevelNone \<longrightarrow> aw_min_samples (aw_config s) \<le> aw_samples s"
proof (cases "aw_samples s < aw_min_samples (aw_config s) \<or> length (aw_window s) < 2")
  case True
  then show ?thesis by (intro that [of 0]) (auto simp: adwin_detect_def)
next
  case False
  show ?thesis
  proof (cases "check_splits libln s")
    case None
    then show ?thesis using False by (intro that [of 0]) (auto simp: adwin_detect_def not_less)
  next
    case (Some r)
    obtain k l d where r: "r = (k, l, d)" by (metis prod_cases3)
    have k: "0 < k" "k < length (aw_window s)" using check_splits_range [of libln s k l d] Some r by auto
    show ?thesis
      using False Some r k by (intro that [of "if l = Drift then k else 0"]) (auto simp: adwin_detect_def not_less)
  qed
qed

lemma adwin_next_Inr [result_simps]:
  "adwin_next v s = Inr (n, tot, ev) \<longleftrightarrow>
     is_finite v \<and> unat (aw_samples s) + 1 < 2 ^ 64 \<and> n = aw_samples s + 1 \<and> is_finite (aw_total s + v)
     \<and> (if length (aw_window s) = aw_max_window (aw_config s) \<and> aw_window s \<noteq> []
        then ev = Some (hd (aw_window s)) \<and> tot = aw_total s + v + - hd (aw_window s) \<and> is_finite tot
        else ev = None \<and> tot = aw_total s + v)"
  by (auto simp: adwin_next_def Let_def result_simps split: list.splits)

lemma adwin_update_cases:
  assumes "adwin_update libln v s = (Inr l, s')" "0 < aw_max_window (aw_config s)"
  obtains k where "is_finite v" "unat (aw_samples s) + 1 < 2 ^ 64"
    "aw_window s' = drop k (window_push (aw_max_window (aw_config s)) v (aw_window s))"
    "k = 0 \<or> k < length (window_push (aw_max_window (aw_config s)) v (aw_window s)) \<and> l = Drift"
    "aw_config s' = aw_config s" "aw_samples s' = aw_samples s + 1" "aw_current_level s' = l"
    "l \<noteq> LevelNone \<longrightarrow> aw_min_samples (aw_config s) \<le> aw_samples s + 1"
proof -
  obtain n tot ev where nx: "adwin_next v s = Inr (n, tot, ev)"
    and s': "s' = adwin_detect libln (adwin_store v (n, tot, ev) s)" and l: "l = aw_current_level s'"
    using assms(1) by (auto simp: adwin_update_def Let_def split: sum.splits)
  let ?t = "adwin_store v (n, tot, ev) s"
  have t: "aw_window ?t = window_push (aw_max_window (aw_config s)) v (aw_window s)" "aw_config ?t = aw_config s"
    "aw_samples ?t = aw_samples s + 1"
    using nx assms(2) by (auto simp: adwin_store_def adwin_next_Inr window_push_def split: if_splits)
  obtain k where k: "aw_window (adwin_detect libln ?t) = drop k (aw_window ?t)"
    "k = 0 \<or> k < length (aw_window ?t) \<and> aw_current_level (adwin_detect libln ?t) = Drift"
    "aw_config (adwin_detect libln ?t) = aw_config ?t" "aw_samples (adwin_detect libln ?t) = aw_samples ?t"
    "aw_current_level (adwin_detect libln ?t) \<noteq> LevelNone \<longrightarrow> aw_min_samples (aw_config ?t) \<le> aw_samples ?t"
    by (rule adwin_detect_cases)
  show ?thesis
    using that [of k] k nx unfolding t s' [symmetric] l by (simp add: adwin_next_Inr)
qed

lemma adwin_config_pos: "adwin_check_config c = Inr () \<Longrightarrow> 0 < aw_max_window c \<and> aw_min_samples c \<noteq> 0"
  by (auto simp: adwin_check_config_def result_simps)

lemma adwin_step_ok:
  assumes "adwin_ok s" "adwin_update libln v s = (Inr l, s')"
  shows "adwin_ok s'"
proof -
  have c: "0 < aw_max_window (aw_config s)" using assms(1) adwin_config_pos by (auto simp: adwin_ok_def)
  let ?w = "window_push (aw_max_window (aw_config s)) v (aw_window s)"
  from assms(2) c obtain k where v: "is_finite v" "unat (aw_samples s) + 1 < 2 ^ 64"
    and k: "aw_window s' = drop k ?w" "aw_config s' = aw_config s" "aw_samples s' = aw_samples s + 1"
      "aw_current_level s' = l" "l \<noteq> LevelNone \<longrightarrow> aw_min_samples (aw_config s) \<le> aw_samples s + 1"
    by (rule adwin_update_cases)
  have w: "length ?w \<le> aw_max_window (aw_config s)" "length ?w \<le> length (aw_window s) + 1"
    using window_push_length_le [OF c, of "aw_window s" v] assms(1) by (simp_all add: adwin_ok_def)
  have "set ?w \<subseteq> insert v (set (aw_window s))" by (cases "aw_window s") (auto simp: window_push_def)
  then have "list_all is_finite (drop k ?w)"
    using assms(1) v(1) set_drop_subset [of k ?w] by (auto simp: adwin_ok_def list_all_iff)
  then show ?thesis using assms(1) k w unat_inc [OF v(2)] by (auto simp: adwin_ok_def)
qed

lemma adwin_update_Inl: "adwin_update libln v s = (Inl e, s') \<Longrightarrow> s' = s"
  by (auto simp: adwin_update_def Let_def split: sum.splits)

lemma adwin_update_fields:
  assumes "adwin_update libln v s = (Inr l, s')"
  shows "aw_current_level s' = l \<and> aw_config s' = aw_config s \<and> aw_samples s' = aw_samples s + 1 \<and> unat (aw_samples s) + 1 < 2 ^ 64"
proof -
  obtain n total ev where nx: "adwin_next v s = Inr (n, total, ev)"
    and s': "s' = adwin_detect libln (adwin_store v (n, total, ev) s)" and l: "l = aw_current_level s'"
    using assms by (auto simp: adwin_update_def Let_def split: sum.splits)
  have "aw_config (adwin_store v (n, total, ev) s) = aw_config s" "aw_samples (adwin_store v (n, total, ev) s) = aw_samples s + 1"
    using nx by (auto simp: adwin_store_def adwin_next_Inr)
  then show ?thesis
    using nx l s' adwin_detect_cases [of libln "adwin_store v (n, total, ev) s"] by (metis adwin_next_Inr)
qed

lemma adwin_new_Inr [result_simps]:
  "adwin_new c = Inr s \<longleftrightarrow> adwin_check_config c = Inr () \<and>
     s = \<lparr>aw_config = c, aw_window = [], aw_total = 0, aw_samples = 0, aw_current_level = LevelNone\<rparr>"
  by (auto simp: adwin_new_def and_then_Inr)

lemma adwin_new_ok: "adwin_new c = Inr s \<Longrightarrow> adwin_ok s"
  by (auto simp: adwin_new_Inr adwin_ok_def)

interpretation adwin: drift_detector "adwin_update libln" adwin_ok aw_current_level aw_samples
    "\<lambda>s. unat (aw_min_samples (aw_config s))" adwin_reset for libln
proof unfold_locales
  show "adwin_update libln x s = (Inl e, s') \<Longrightarrow> s' = s" for x s e s' by (rule adwin_update_Inl)
  show "adwin_ok s \<Longrightarrow> adwin_update libln x s = (Inr l, s') \<Longrightarrow> adwin_ok s'" for s x l s' by (rule adwin_step_ok)
  show "adwin_ok s \<Longrightarrow> adwin_ok (adwin_reset s)" for s by (simp add: adwin_ok_def adwin_reset_def)
qed (auto dest: adwin_update_fields simp: unat_inc adwin_ok_def adwin_reset_def word_le_nat_alt)

section \<open>The window\<close>

lemma adwin_run_suffix:
  assumes "adwin_ok s" "suffix (aw_window s) ys" "ys \<noteq> [] \<longrightarrow> aw_window s \<noteq> []"
  shows "let zs = ys @ accepted_ops (adwin_update libln) xs s; w = aw_window (run_ops (adwin_update libln) xs s)
    in suffix w zs \<and> (zs \<noteq> [] \<longrightarrow> w \<noteq> [])"
  using assms
proof (induction xs arbitrary: s ys)
  case (Cons x xs)
  obtain r s' where e: "adwin_update libln x s = (r, s')" by fastforce
  show ?case
  proof (cases r)
    case (Inl err)
    then have "s' = s" using e adwin_update_Inl by blast
    then show ?thesis using Cons e Inl by simp
  next
    case (Inr l)
    have c: "0 < aw_max_window (aw_config s)" using Cons.prems(1) adwin_config_pos by (auto simp: adwin_ok_def)
    let ?w = "window_push (aw_max_window (aw_config s)) x (aw_window s)"
    from e Inr have "adwin_update libln x s = (Inr l, s')" by simp
    from this c obtain k where k: "aw_window s' = drop k ?w" "k = 0 \<or> k < length ?w \<and> l = Drift"
      by (rule adwin_update_cases)
    have "suffix ?w (ys @ [x])" using Cons.prems(2)
      by (cases "aw_window s") (auto simp: window_push_def suffix_def)
    then have "suffix (aw_window s') (ys @ [x])" using k(1) suffix_drop suffix_order.trans by metis
    moreover have "aw_window s' \<noteq> []" using k by (auto simp: window_push_def)
    ultimately show ?thesis
      using Cons.IH [of s' "ys @ [x]"] adwin_step_ok [OF Cons.prems(1)] e Inr by simp
  qed
qed (simp add: Let_def)

text \<open>
  C15: adaptive window. The window of a reachable detector is a non-empty suffix of the accepted
  observations, no longer than the configured maximum.
\<close>
theorem adwin_window_is_suffix:
  assumes "adwin_new c = Inr s0" and "s = run_ops (adwin_update libln) xs s0"
  shows "suffix (aw_window s) (accepted_ops (adwin_update libln) xs s0)
    \<and> length (aw_window s) \<le> aw_max_window (aw_config s)
    \<and> (aw_window s = [] \<longleftrightarrow> accepted_ops (adwin_update libln) xs s0 = [])"
proof -
  have ok: "adwin_ok s0" and w: "aw_window s0 = []" using assms(1) adwin_new_ok by (auto simp: adwin_new_Inr)
  have "adwin_ok s" using adwin.run_inv [OF ok] assms(2) by simp
  then show ?thesis
    using adwin_run_suffix [OF ok, of "[]" libln xs] w assms(2) by (auto simp: adwin_ok_def Let_def)
qed

definition demo_adwin :: adwin where
  "demo_adwin = \<lparr>aw_config = \<lparr>aw_delta = f_of_rat (1 / 4), aw_warning_delta = f_of_rat (1 / 2), aw_max_window = 1,
     aw_min_samples = 1\<rparr>, aw_window = [], aw_total = 0, aw_samples = 0, aw_current_level = LevelNone\<rparr>"

lemma demo_adwin_new: "adwin_new (aw_config demo_adwin) = Inr demo_adwin"
  by code_simp

lemma adwin_window_is_suffix_witness:
  "suffix (aw_window (run_ops (adwin_update (\<lambda>x. x)) [1, 1] demo_adwin))
     (accepted_ops (adwin_update (\<lambda>x. x)) [1, 1] demo_adwin)"
  using adwin_window_is_suffix [OF demo_adwin_new refl] by blast

text \<open>
  The total is updated incrementally, so a large evicted value takes smaller ones with it: the
  exported state of this reachable detector is rejected by the restore.
\<close>

definition big_then_one :: "f64 list" where
  "big_then_one = [f_of_nat (2 ^ 54), 1]"

definition diverged_adwin :: adwin where
  "diverged_adwin = demo_adwin\<lparr>aw_window := [1], aw_total := 0, aw_samples := 2\<rparr>"

lemma adwin_small_window:
  "adwin_next v s = Inr nx \<Longrightarrow> aw_max_window (aw_config s) = 1 \<Longrightarrow> length (aw_window s) \<le> 1 \<Longrightarrow>
   adwin_update libln v s = (Inr LevelNone, (adwin_store v nx s)\<lparr>aw_current_level := LevelNone\<rparr>)"
proof -
  assume nx: "adwin_next v s = Inr nx" and c: "aw_max_window (aw_config s) = 1" "length (aw_window s) \<le> 1"
  then have "length (aw_window (adwin_store v nx s)) < 2"
    by (cases nx; cases "aw_window s") (auto simp: adwin_store_def adwin_next_Inr split: if_splits)
  then show ?thesis using nx by (simp add: adwin_update_def adwin_detect_def Let_def)
qed

lemma adwin_total_diverges: "run_ops (adwin_update libln) big_then_one demo_adwin = diverged_adwin"
proof -
  let ?b = "f_of_nat (2 ^ 54)"
  let ?s = "demo_adwin\<lparr>aw_window := [?b], aw_total := 0 + ?b, aw_samples := 1\<rparr>"
  have f: "is_finite ?b" "is_finite (0 + ?b)" "is_finite (0 + ?b + 1)" "is_finite (0 + ?b + 1 + - ?b)"
    "0 + ?b + 1 + - ?b = 0" by code_simp+
  have 1: "adwin_next ?b demo_adwin = Inr (1, 0 + ?b, None)"
    using f by (simp add: adwin_next_Inr demo_adwin_def)
  have 2: "adwin_next 1 ?s = Inr (2, 0 + ?b + 1 + - ?b, Some ?b)"
    using f by (simp add: adwin_next_Inr demo_adwin_def)
  show ?thesis
    using adwin_small_window [OF 1, of libln] adwin_small_window [OF 2, of libln] f(5)
    by (simp add: big_then_one_def adwin_store_def demo_adwin_def diverged_adwin_def)
qed

lemma adwin_export_rejected:
  "is_err (adwin_restore_state (aw_config demo_adwin)
     (adwin_export_state (run_ops (adwin_update libln) big_then_one demo_adwin)))"
  unfolding adwin_total_diverges by code_simp

end
