(* ===== verification/F64_Sign.thy ===== *)
theory F64_Sign imports F64_Step begin

text \<open>
  Doubles that are numbers without a sign bit: zero, the positive ones and infinity. They are closed
  under the operations, apart from zero times infinity and the undefined quotients.
\<close>

definition nonneg :: "f64 \<Rightarrow> bool" where
  "nonneg x \<longleftrightarrow> \<not> is_nan x \<and> \<not> is_sign_negative x"

lemma fp_round_sign: "fp_sign (fp_round s q) = (if rnd q = 0 then s else rnd q < 0)"
  by (auto simp: fp_round_def fp_zero_def Let_def)

lemma fp_sign_False: "\<not> fp_sign x \<Longrightarrow> 0 \<le> fp_val x"
  by (cases x) auto

lemma nonneg_le: "nonneg x \<Longrightarrow> 0 \<le> x"
  unfolding nonneg_def by (transfer, case_tac x) (auto simp: fp_less_eq_def)

lemma nonneg_uminus_le: "nonneg x \<Longrightarrow> - x \<le> 0"
  unfolding nonneg_def by (transfer, case_tac x) (auto simp: fp_less_eq_def)

lemma nonneg_val: "nonneg x \<Longrightarrow> 0 \<le> f_val x"
  unfolding nonneg_def by transfer (simp add: fp_sign_False)

lemma pos_nonneg: "0 < x \<Longrightarrow> nonneg x"
  unfolding nonneg_def by (transfer, case_tac x) (auto simp: fp_less_def split: if_splits)

lemma nonneg_plus: "nonneg x \<Longrightarrow> nonneg y \<Longrightarrow> nonneg (x + y)"
  unfolding nonneg_def
proof transfer
  fix x y
  assume a: "x \<noteq> FNaN \<and> \<not> fp_sign x" "y \<noteq> FNaN \<and> \<not> fp_sign y"
  have "0 \<le> rnd (fp_val x + fp_val y)" using a fp_sign_False rnd_pos by simp
  then show "fp_plus x y \<noteq> FNaN \<and> \<not> fp_sign (fp_plus x y)"
    using a by (cases x; cases y) (auto simp: fp_plus_def Let_def fp_round_sign fp_zero_def)
qed

lemma nonneg_times:
  assumes "nonneg x" "nonneg y" "is_finite x \<and> f_val x \<noteq> 0 \<or> is_finite y \<and> f_val y \<noteq> 0 \<or> is_finite x = is_finite y"
  shows "nonneg (x * y)"
  using assms unfolding nonneg_def
proof transfer
  fix x y
  assume a: "x \<noteq> FNaN \<and> \<not> fp_sign x" "y \<noteq> FNaN \<and> \<not> fp_sign y"
    and b: "fp_finite x \<and> fp_val x \<noteq> 0 \<or> fp_finite y \<and> fp_val y \<noteq> 0 \<or> fp_finite x = fp_finite y"
  have "0 \<le> rnd (fp_val x * fp_val y)" using a fp_sign_False rnd_pos by simp
  then show "fp_times x y \<noteq> FNaN \<and> \<not> fp_sign (fp_times x y)"
    using a b by (auto simp: fp_times_def fp_round_sign)
qed

lemma nonneg_divide:
  assumes "nonneg x" "nonneg y" "is_finite y \<and> f_val y \<noteq> 0 \<or> is_finite x \<and> f_val x \<noteq> 0"
  shows "nonneg (x / y)"
  using assms unfolding nonneg_def
proof transfer
  fix x y
  assume a: "x \<noteq> FNaN \<and> \<not> fp_sign x" "y \<noteq> FNaN \<and> \<not> fp_sign y"
    and b: "fp_finite y \<and> fp_val y \<noteq> 0 \<or> fp_finite x \<and> fp_val x \<noteq> 0"
  have "0 \<le> rnd (fp_val x / fp_val y)" using a fp_sign_False rnd_pos by simp
  then show "fp_divide x y \<noteq> FNaN \<and> \<not> fp_sign (fp_divide x y)"
    using a b by (auto simp: fp_divide_def fp_round_sign fp_zero_def)
qed

lemma rat_sqrt_nonneg: "0 \<le> q \<Longrightarrow> 0 \<le> rat_sqrt q"
proof -
  have "0 \<le> isqrt \<lfloor>t\<rfloor>" if "0 \<le> t" for t :: rat
    using that isqrt_bounds [of "\<lfloor>t\<rfloor>"] by simp
  then have "0 \<le> sqrt_sig t" if "0 \<le> t" for t
    using that by (fastforce simp: sqrt_sig_def Let_def)
  then show "0 \<le> q \<Longrightarrow> 0 \<le> rat_sqrt q" by (simp add: rat_sqrt_def Let_def)
qed

lemma nonneg_sqrt: "nonneg x \<Longrightarrow> nonneg (f_sqrt x)"
  unfolding nonneg_def
proof transfer
  fix x
  assume a: "x \<noteq> FNaN \<and> \<not> fp_sign x"
  show "fp_sqrt x \<noteq> FNaN \<and> \<not> fp_sign (fp_sqrt x)"
  proof (cases x)
    case (FFin q)
    then have "0 \<le> rnd (rat_sqrt q)" using a rat_sqrt_nonneg rnd_pos by simp
    then have r: "\<not> fp_sign (fp_round False (rat_sqrt q))" using fp_round_sign [of False "rat_sqrt q"] by (simp split: if_splits)
    have "\<not> q < 0" using a FFin by simp
    then have "fp_sqrt x = (if q = 0 then FFin 0 else fp_round False (rat_sqrt q))" using FFin by simp
    then show ?thesis using r by simp
  qed (use a in auto)
qed

lemma nonneg_of_rat: "0 \<le> q \<Longrightarrow> nonneg (f_of_rat q)"
  unfolding nonneg_def by (transfer fixing: q) (use rnd_pos [of q] in \<open>auto simp: fp_round_sign\<close>)

lemma f_val_of_nat_ge_1: "0 < n \<Longrightarrow> n < 2 ^ 64 \<Longrightarrow> 1 \<le> f_val (f_of_nat n)"
  using rnd_of_nat_iff_mono [of 1 n] rnd_of_nat [of 1] by (simp add: f_val_of_nat)

lemma nonneg_of_nat [simp]: "nonneg (f_of_nat n)"
  by (simp add: f_of_nat_def nonneg_of_rat)

lemma uminus_times: "- x * y = - (x * y :: f64)"
proof transfer
  fix x y
  have r: "fp_round (\<not> s) (- q) = fp_uminus (fp_round s q)" for s q
    by (auto simp: fp_round_def fp_zero_def Let_def)
  have s: "x \<noteq> FNaN \<Longrightarrow> fp_sign (fp_uminus x) = (\<not> fp_sign x)" for x by (cases x) auto
  show "fp_times (fp_uminus x) y = fp_uminus (fp_times x y)"
  proof (cases "fp_finite x \<and> fp_finite y")
    case True
    then have "fp_sign (fp_uminus x) \<noteq> fp_sign y \<longleftrightarrow> \<not> (fp_sign x \<noteq> fp_sign y)" using s [of x] by (cases "x = FNaN") auto
    then show ?thesis using True r [of "fp_sign x \<noteq> fp_sign y" "fp_val x * fp_val y"] by (simp add: fp_times_def)
  next
    case False
    have "fp_uminus x = FNaN \<longleftrightarrow> x = FNaN" by (cases x) auto
    then show ?thesis using False s [of x] by (auto simp: fp_times_def)
  qed
qed

section \<open>Infinity in the order\<close>

lemma finite_plus_not_nan: "is_finite x \<Longrightarrow> \<not> is_nan y \<Longrightarrow> \<not> is_nan (x + y)"
  by transfer (auto simp: fp_plus_def Let_def fp_zero_def split: if_splits)

lemma le_f_inf: "\<not> is_nan x \<Longrightarrow> x \<le> f_inf"
  by (transfer, rename_tac x, case_tac x) (auto simp: fp_less_eq_def)

lemma neg_inf_le: "\<not> is_nan x \<Longrightarrow> f_neg_inf \<le> x"
  by (transfer, rename_tac x, case_tac x) (auto simp: fp_less_eq_def)

section \<open>Adding and subtracting a margin\<close>

lemma plus_nonneg_ge: "is_finite p \<Longrightarrow> nonneg m \<Longrightarrow> p \<le> p + m"
  unfolding nonneg_def
proof transfer
  fix p m
  assume c: "canonical p" and p: "fp_finite p" and m: "m \<noteq> FNaN \<and> \<not> fp_sign m"
  have r: "rnd (fp_val p) = fp_val p" using c p by (cases p) simp_all
  have "rnd (fp_val p) \<le> rnd (fp_val p + fp_val m)" using m fp_sign_False by (intro rnd_mono) simp
  then have le: "fp_val p \<le> rnd (fp_val p + fp_val m)" using r by simp
  have o: "\<not> overflows (fp_val p)" using c p by (cases p) simp_all
  show "fp_less_eq p (fp_plus p m)"
  proof (cases "fp_finite m")
    case True
    have neg: "\<not> rnd (fp_val p + fp_val m) < 0" if ov: "overflows (rnd (fp_val p + fp_val m))"
      using le o ov by (auto simp: overflows_iff not_le)
    have rk: "fp_rank p = 0" "p \<noteq> FNaN" using fp_finite_rank [OF p] by simp_all
    show ?thesis
      using True p rk le neg by (auto simp: fp_plus_def fp_less_eq_def fp_round_def fp_zero_def Let_def)
  next
    case False
    then have "m = FInf False" using m by (cases m) auto
    then show ?thesis using p fp_finite_rank [OF p] by (simp add: fp_plus_def fp_less_eq_def)
  qed
qed

lemma uminus_plus_le: "is_finite p \<Longrightarrow> nonneg m \<Longrightarrow> p - m \<le> p"
  unfolding minus_as_plus nonneg_def
proof transfer
  fix p m
  assume c: "canonical p" and p: "fp_finite p" and m: "m \<noteq> FNaN \<and> \<not> fp_sign m"
  have r: "rnd (fp_val p) = fp_val p" using c p by (cases p) simp_all
  have v: "fp_val (fp_uminus m) = - fp_val m" by (cases m) simp_all
  have "rnd (fp_val p + fp_val (fp_uminus m)) \<le> rnd (fp_val p)"
    using m fp_sign_False by (intro rnd_mono) (simp add: v)
  then have le: "rnd (fp_val p + fp_val (fp_uminus m)) \<le> fp_val p" using r by simp
  have o: "\<not> overflows (fp_val p)" using c p by (cases p) simp_all
  show "fp_less_eq (fp_plus p (fp_uminus m)) p"
  proof (cases "fp_finite m")
    case True
    have neg: "rnd (fp_val p + fp_val (fp_uminus m)) < 0" if ov: "overflows (rnd (fp_val p + fp_val (fp_uminus m)))"
      using le o ov by (auto simp: overflows_iff not_le)
    have fm: "fp_finite (fp_uminus m)" using True by (cases m) simp_all
    have rk: "fp_rank p = 0" "p \<noteq> FNaN" using fp_finite_rank [OF p] by simp_all
    show ?thesis
      using fm p rk le neg by (auto simp: fp_plus_def fp_less_eq_def fp_round_def fp_zero_def Let_def)
  next
    case False
    then have "m = FInf False" using m by (cases m) auto
    then show ?thesis using p fp_finite_rank [OF p] by (simp add: fp_plus_def fp_less_eq_def)
  qed
qed

lemma nonneg_one_minus: "is_finite a \<Longrightarrow> a \<le> 1 \<Longrightarrow> nonneg (1 - a)"
proof -
  assume a: "is_finite a" "a \<le> 1"
  then have v: "f_val a \<le> 1" by (simp add: less_eq_finite)
  show ?thesis using a(1) v unfolding minus_as_plus nonneg_def
  proof transfer
    fix a
    assume a: "fp_finite a" "fp_val a \<le> 1"
    have f: "fp_finite (fp_uminus a)" "fp_val (fp_uminus a) = - fp_val a" using a(1) by (cases a; simp)+
    have "0 \<le> rnd (1 - fp_val a)" using a(2) rnd_pos by simp
    then show "fp_plus (FFin 1) (fp_uminus a) \<noteq> FNaN \<and> \<not> fp_sign (fp_plus (FFin 1) (fp_uminus a))"
      using f by (auto simp: fp_plus_def Let_def fp_zero_def fp_round_sign)
  qed
qed

lemma nonneg_abs: "\<not> is_nan x \<Longrightarrow> nonneg \<bar>x\<bar>"
  unfolding nonneg_def by (transfer, case_tac x) auto

lemma nonneg_zero: "nonneg 0"
  unfolding nonneg_def by transfer simp

end
