(* ===== verification/Kswin.thy ===== *)
theory Kswin imports Drift_Detector F64_Sign begin

text \<open>
  The KSWIN detector of \<open>src/drift/kswin.rs\<close>: two windows compared by a two-sample
  Kolmogorov-Smirnov test. The exponential function of the platform is the parameter \<open>libexp\<close>; all that
  is relied on is that it maps arguments up to zero into the unit interval.
\<close>

definition kswin_state_version :: u32 where "kswin_state_version = 1"

record kswin_config =
  kc_alpha :: f64
  kc_window_size :: usize
  kc_check_interval :: usize

record kswin_portable =
  kp_version :: u32
  kp_alpha :: f64
  kp_window_size :: usize
  kp_check_interval :: usize
  kp_reference_window :: "f64 list"
  kp_current_window :: "f64 list"
  kp_samples :: u64
  kp_last_check_sample :: u64
  kp_last_pvalue :: f64
  kp_last_statistic :: f64
  kp_current_level :: drift_level

record kswin =
  ks_config :: kswin_config
  ks_reference_window :: "f64 list"
  ks_current_window :: "f64 list"
  ks_samples :: u64
  ks_last_check_sample :: u64
  ks_last_pvalue :: f64
  ks_last_statistic :: f64
  ks_current_level :: drift_level

definition kswin_config_default :: kswin_config where
  "kswin_config_default = \<lparr>kc_alpha = f_of_rat (5 / 1000), kc_window_size = 100, kc_check_interval = 100\<rparr>"

definition kswin_check_config :: "kswin_config \<Rightarrow> rill_error + unit" where
  "kswin_check_config c =
     and_then (ensure_finite ''alpha'' (kc_alpha c)) (\<lambda>_.
     and_then (ensure (\<not> (kc_alpha c \<le> 0 \<or> 1 \<le> kc_alpha c)) (InvalidSignificanceLevel (kc_alpha c))) (\<lambda>_.
     and_then (ensure (kc_window_size c \<noteq> 0) (InvalidCapacity (kc_window_size c))) (\<lambda>_.
       ensure (kc_check_interval c \<noteq> 0) (InvalidCapacity (kc_check_interval c)))))"

definition kswin_new :: "kswin_config \<Rightarrow> rill_error + kswin" where
  "kswin_new c = and_then (kswin_check_config c) (\<lambda>_.
     Inr \<lparr>ks_config = c, ks_reference_window = [], ks_current_window = [], ks_samples = 0,
          ks_last_check_sample = 0, ks_last_pvalue = 1, ks_last_statistic = 0, ks_current_level = LevelNone\<rparr>)"

definition kswin_export_state :: "kswin \<Rightarrow> kswin_portable" where
  "kswin_export_state s =
     \<lparr>kp_version = kswin_state_version, kp_alpha = kc_alpha (ks_config s),
      kp_window_size = kc_window_size (ks_config s), kp_check_interval = kc_check_interval (ks_config s),
      kp_reference_window = ks_reference_window s, kp_current_window = ks_current_window s,
      kp_samples = ks_samples s, kp_last_check_sample = ks_last_check_sample s,
      kp_last_pvalue = ks_last_pvalue s, kp_last_statistic = ks_last_statistic s,
      kp_current_level = ks_current_level s\<rparr>"

definition kswin_portable_config :: "kswin_portable \<Rightarrow> kswin_config" where
  "kswin_portable_config p =
     \<lparr>kc_alpha = kp_alpha p, kc_window_size = kp_window_size p, kc_check_interval = kp_check_interval p\<rparr>"

definition unit_interval :: "f64 \<Rightarrow> bool" where
  "unit_interval x \<longleftrightarrow> 0 \<le> x \<and> x \<le> 1"

definition kswin_portable_validate :: "kswin_portable \<Rightarrow> rill_error + unit" where
  "kswin_portable_validate p =
     (if kp_version p \<noteq> kswin_state_version
      then Inl (IncompatibleStateVersion kswin_state_version (kp_version p))
      else and_then (kswin_new (kswin_portable_config p)) (\<lambda>_.
        if length (kp_reference_window p) > kp_window_size p \<or> length (kp_current_window p) > kp_window_size p
        then Inl (InvalidState ''KSWIN portable window exceeds window_size'')
        else and_then (ok_or (checked_add_usize (length (kp_reference_window p)) (length (kp_current_window p)))
                         (InvalidState ''KSWIN retained length overflow'')) (\<lambda>retained.
          if unat (kp_samples p) < retained \<or> kp_last_check_sample p > kp_samples p
          then Inl (InvalidState ''KSWIN portable counters are inconsistent'')
          else and_then (try_for_each (ensure_finite ''portable KSWIN window value'')
                           (kp_reference_window p @ kp_current_window p)) (\<lambda>_.
               and_then (ensure_finite ''portable KSWIN p-value'' (kp_last_pvalue p)) (\<lambda>_.
               and_then (ensure_finite ''portable KSWIN statistic'' (kp_last_statistic p)) (\<lambda>_.
                 if \<not> unit_interval (kp_last_pvalue p) \<or> \<not> unit_interval (kp_last_statistic p)
                 then Inl (InvalidState ''KSWIN statistic and p-value must be in [0, 1]'')
                 else if kp_current_level p = Warning
                 then Inl (InvalidState ''KSWIN does not emit warning levels'')
                 else if kp_current_level p = Drift
                    \<and> (kp_current_window p \<noteq> [] \<or> length (kp_reference_window p) \<noteq> kp_window_size p)
                 then Inl (InvalidState ''KSWIN drift state must have a full reference and empty current window'')
                 else Inr ()))))))"

definition kswin_restore_state :: "kswin_config \<Rightarrow> kswin_portable \<Rightarrow> rill_error + kswin" where
  "kswin_restore_state c p =
     and_then (kswin_portable_validate p) (\<lambda>_.
       if \<not> feq (kc_alpha c) (kp_alpha p) \<or> kc_window_size c \<noteq> kp_window_size p
          \<or> kc_check_interval c \<noteq> kp_check_interval p
       then Inl (InvalidState ''KSWIN portable state configuration mismatch'')
       else and_then (kswin_new c) (\<lambda>_.
         Inr \<lparr>ks_config = c, ks_reference_window = kp_reference_window p,
              ks_current_window = kp_current_window p, ks_samples = kp_samples p,
              ks_last_check_sample = kp_last_check_sample p, ks_last_pvalue = kp_last_pvalue p,
              ks_last_statistic = kp_last_statistic p, ks_current_level = kp_current_level p\<rparr>))"

section \<open>The Kolmogorov-Smirnov test\<close>

text \<open>\<open>sort_by\<close> with \<open>partial_cmp\<close>, a stable sort; the windows hold no NaN.\<close>

fun insert_partial :: "f64 \<Rightarrow> f64 list \<Rightarrow> f64 list" where
  "insert_partial x [] = [x]"
| "insert_partial x (y # ys) = (if \<not> y < x then x # y # ys else y # insert_partial x ys)"

fun sort_partial :: "f64 list \<Rightarrow> f64 list" where
  "sort_partial [] = []"
| "sort_partial (x # xs) = insert_partial x (sort_partial xs)"

function ks_loop :: "f64 list \<Rightarrow> f64 list \<Rightarrow> nat \<Rightarrow> nat \<Rightarrow> f64 \<Rightarrow> f64" where
  "ks_loop a b i j max_d =
     (if i < length a \<and> j < length b then
        let i' = (if b ! j < a ! i then i else i + 1);
            j' = (if a ! i < b ! j then j else j + 1);
            d = \<bar>f_of_nat i' / f_of_nat (length a) - f_of_nat j' / f_of_nat (length b)\<bar>
        in ks_loop a b i' j' (if max_d < d then d else max_d)
      else max_d)"
  by pat_completeness auto

lemma f_less_asym: "x < y \<Longrightarrow> \<not> y < (x :: f64)"
  by transfer (auto simp: fp_less_def)

termination ks_loop
  by (relation "measure (\<lambda>(a, b, i, j, m). (length a - i) + (length b - j))") (auto dest: f_less_asym)

declare ks_loop.simps [simp del]

definition ks_statistic :: "f64 list \<Rightarrow> f64 list \<Rightarrow> f64" where
  "ks_statistic a b = (if a = [] \<or> b = [] then 0 else ks_loop (sort_partial a) (sort_partial b) 0 0 0)"

text \<open>The alternating series of the survival function, at most 100 terms.\<close>

fun ks_series :: "(f64 \<Rightarrow> f64) \<Rightarrow> f64 \<Rightarrow> f64 \<Rightarrow> f64 \<Rightarrow> nat list \<Rightarrow> f64" where
  "ks_series libexp a2 sm fac [] = sm"
| "ks_series libexp a2 sm fac (k # ks) =
     (let t = fac * libexp (a2 * f_of_nat k * f_of_nat k); sm' = sm + t in
      if \<bar>t\<bar> \<le> f_of_rat (1 / 10 ^ 12) * f_max \<bar>sm'\<bar> (f_of_rat (1 / 10 ^ 300)) then sm'
      else ks_series libexp a2 sm' (- fac) ks)"

definition ks_survival :: "(f64 \<Rightarrow> f64) \<Rightarrow> f64 \<Rightarrow> f64" where
  "ks_survival libexp lambda =
     (if lambda \<le> 0 then 1
      else let a2 = - f_of_nat 2 * lambda * lambda in
        f_clamp 0 1 (ks_series libexp a2 0 (f_of_nat 2) [1..<101]))"

definition ks_pvalue :: "(f64 \<Rightarrow> f64) \<Rightarrow> f64 \<Rightarrow> nat \<Rightarrow> nat \<Rightarrow> f64" where
  "ks_pvalue libexp d n1 n2 =
     (if d \<le> 0 \<or> n1 = 0 \<or> n2 = 0 then 1
      else let n_eff = (f_of_nat n1 * f_of_nat n2) / f_of_nat (n1 + n2);
               lambda = (f_sqrt n_eff + f_of_rat (12 / 100) + f_of_rat (11 / 100) / f_sqrt n_eff) * d
           in ks_survival libexp lambda)"

section \<open>Updates\<close>

definition kswin_rotate :: "kswin \<Rightarrow> kswin" where
  "kswin_rotate s = s\<lparr>ks_reference_window := ks_current_window s, ks_current_window := []\<rparr>"

definition kswin_push :: "f64 \<Rightarrow> u64 \<Rightarrow> kswin \<Rightarrow> kswin" where
  "kswin_push v n s =
     (let s1 = s\<lparr>ks_samples := n, ks_current_level := LevelNone\<rparr>;
          s2 = (if length (ks_current_window s1) \<ge> kc_window_size (ks_config s1) then kswin_rotate s1 else s1)
      in s2\<lparr>ks_current_window := ks_current_window s2 @ [v]\<rparr>)"

definition kswin_check :: "(f64 \<Rightarrow> f64) \<Rightarrow> kswin \<Rightarrow> kswin" where
  "kswin_check libexp s =
     (let both_full = (length (ks_reference_window s) \<ge> kc_window_size (ks_config s)
                       \<and> length (ks_current_window s) \<ge> kc_window_size (ks_config s));
          interval_ok = (unat (ks_samples s - ks_last_check_sample s) \<ge> kc_check_interval (ks_config s))
      in if both_full \<and> interval_ok then
           let d = ks_statistic (ks_reference_window s) (ks_current_window s);
               p = ks_pvalue libexp d (length (ks_reference_window s)) (length (ks_current_window s));
               s' = s\<lparr>ks_last_statistic := d, ks_last_pvalue := p, ks_last_check_sample := ks_samples s\<rparr>
           in if p < kc_alpha (ks_config s) then kswin_rotate (s'\<lparr>ks_current_level := Drift\<rparr>) else s'
         else s)"

definition kswin_update :: "(f64 \<Rightarrow> f64) \<Rightarrow> f64 \<Rightarrow> kswin \<Rightarrow> (rill_error + drift_level) \<times> kswin" where
  "kswin_update libexp v s =
     (case and_then (ensure_finite ''value'' v) (\<lambda>_. checked_increment (ks_samples s) ''samples'') of
        Inl e \<Rightarrow> (Inl e, s)
      | Inr n \<Rightarrow> let s' = kswin_check libexp (kswin_push v n s) in (Inr (ks_current_level s'), s'))"

definition kswin_detected :: "kswin \<Rightarrow> bool" where
  "kswin_detected s \<longleftrightarrow> ks_current_level s = Drift"

definition kswin_warning :: "kswin \<Rightarrow> bool" where
  "kswin_warning s \<longleftrightarrow> ks_current_level s = Warning"

definition kswin_reset :: "kswin \<Rightarrow> kswin" where
  "kswin_reset s = s\<lparr>ks_reference_window := [], ks_current_window := [], ks_samples := 0,
     ks_last_check_sample := 0, ks_last_pvalue := 1, ks_last_statistic := 0, ks_current_level := LevelNone\<rparr>"

section \<open>The statistic and the p-value are probabilities\<close>

definition in_unit :: "f64 \<Rightarrow> bool" where
  "in_unit x \<longleftrightarrow> is_finite x \<and> 0 \<le> f_val x \<and> f_val x \<le> 1"

lemma in_unit_interval: "in_unit x \<Longrightarrow> unit_interval x"
  by (simp add: in_unit_def unit_interval_def less_eq_finite)

lemma in_unitI: "is_finite x \<Longrightarrow> is_finite y \<Longrightarrow> f_val y = q \<Longrightarrow> 0 \<le> f_val x \<Longrightarrow> f_val x \<le> 1 \<Longrightarrow> in_unit x"
  by (simp add: in_unit_def)

lemma not_overflows_le_1: "\<bar>y\<bar> \<le> 1 \<Longrightarrow> \<not> overflows y"
  by (rule overflows_small [of _ 0]) simp_all

lemma rnd_abs_le: "rnd y = y \<Longrightarrow> \<bar>x\<bar> \<le> y \<Longrightarrow> \<bar>rnd x\<bar> \<le> y"
  using rnd_upper [of y x] rnd_lower [of "- y" x] by (simp add: abs_le_iff)

lemma cdf_in_unit:
  assumes "i \<le> n" "0 < n" "n < 2 ^ 64"
  shows "in_unit (f_of_nat i / f_of_nat n)"
proof -
  have f: "is_finite (f_of_nat i)" "is_finite (f_of_nat n)" using assms by simp_all
  have v: "f_val (f_of_nat i) = rnd (of_nat i)" "f_val (f_of_nat n) = rnd (of_nat n)"
    using assms by (simp_all add: f_val_of_nat)
  have n: "1 \<le> (rnd (of_nat n) :: rat)" using f_val_of_nat_ge_1 [OF assms(2,3)] v by simp
  have i: "rnd (of_nat i) \<le> (rnd (of_nat n) :: rat)" "0 \<le> (rnd (of_nat i) :: rat)"
    using assms(1) by (simp_all add: rnd_of_nat_iff_mono rnd_pos)
  let ?q = "rnd (of_nat i) / rnd (of_nat n) :: rat"
  have q: "0 \<le> ?q" "?q \<le> 1" using n i by (simp_all add: divide_le_eq)
  have r: "0 \<le> rnd ?q" "rnd ?q \<le> 1" using q rnd_pos [of ?q] rnd_upper [of 1 ?q] rnd_of_int [of 1] by simp_all
  have d: "is_finite (f_of_nat i / f_of_nat n)"
    using f n r by (simp add: finite_divide v not_overflows_le_1)
  show ?thesis using r by (simp add: in_unit_def d f_val_divide [OF d] f v)
qed

lemma gap_in_unit: "in_unit x \<Longrightarrow> in_unit y \<Longrightarrow> in_unit \<bar>x - y\<bar>"
proof -
  assume a: "in_unit x" "in_unit y"
  then have "\<bar>f_val x - f_val y\<bar> \<le> 1" by (auto simp: in_unit_def)
  then have r: "\<bar>rnd (f_val x - f_val y)\<bar> \<le> 1"
    using rnd_of_int [of 1] by (intro rnd_abs_le) simp_all
  then have d: "is_finite (x - y)" using a by (simp add: finite_minus in_unit_def not_overflows_le_1)
  show ?thesis using r by (simp add: in_unit_def d f_val_minus [OF d])
qed

lemma ks_loop_in_unit:
  assumes "in_unit m" "i \<le> length a" "j \<le> length b" "length a < 2 ^ 64" "length b < 2 ^ 64"
  shows "in_unit (ks_loop a b i j m)"
  using assms
proof (induction a b i j m rule: ks_loop.induct)
  case (1 a b i j m)
  show ?case
  proof (cases "i < length a \<and> j < length b")
    case True
    let ?i = "if b ! j < a ! i then i else i + 1" let ?j = "if a ! i < b ! j then j else j + 1"
    let ?d = "\<bar>f_of_nat ?i / f_of_nat (length a) - f_of_nat ?j / f_of_nat (length b)\<bar>"
    have l: "?i \<le> length a" "?j \<le> length b" "0 < length a" "0 < length b" using True by auto
    have "in_unit ?d" by (intro gap_in_unit cdf_in_unit l 1)
    then have "in_unit (if m < ?d then ?d else m)" using "1.prems"(1) by simp
    from "1.IH" [OF True refl refl refl this l(1,2) "1.prems"(4,5)] show ?thesis
      using True by (subst ks_loop.simps) (simp only: Let_def if_True simp_thms)
  qed (subst ks_loop.simps, use 1 in auto)
qed

lemma length_sort_partial [simp]: "length (sort_partial xs) = length xs"
proof -
  have "length (insert_partial x ys) = Suc (length ys)" for x ys by (induction ys) auto
  then show ?thesis by (induction xs) auto
qed

lemma in_unit_simps [simp]: "in_unit 0" "in_unit 1"
  by (simp_all add: in_unit_def)

lemma ks_statistic_in_unit: "length a < 2 ^ 64 \<Longrightarrow> length b < 2 ^ 64 \<Longrightarrow> in_unit (ks_statistic a b)"
  by (simp add: ks_statistic_def ks_loop_in_unit)

text \<open>What is relied on of the exponential function.\<close>

definition exp_contract :: "(f64 \<Rightarrow> f64) \<Rightarrow> bool" where
  "exp_contract libexp \<longleftrightarrow> (\<forall>x. x \<le> 0 \<longrightarrow> in_unit (libexp x))"

lemma ks_term:
  assumes "in_unit e" "is_finite fac" "\<bar>f_val fac\<bar> = 2"
  shows "is_finite (fac * e) \<and> \<bar>f_val (fac * e)\<bar> \<le> 2"
proof -
  have "\<bar>f_val fac * f_val e\<bar> \<le> 2 * 1"
    unfolding abs_mult using assms by (intro mult_mono) (auto simp: in_unit_def)
  then have r: "\<bar>rnd (f_val fac * f_val e)\<bar> \<le> 2"
    using rnd_of_int [of 2] by (intro rnd_abs_le) simp_all
  then have "\<not> overflows (rnd (f_val fac * f_val e))" by (intro overflows_small [of _ 1]) simp_all
  then have f: "is_finite (fac * e)" using assms by (simp add: finite_times in_unit_def)
  show ?thesis using r by (simp add: f f_val_times [OF f])
qed

lemma ks_sum:
  assumes "is_finite sm" "\<bar>f_val sm\<bar> \<le> of_nat n" "is_finite t" "\<bar>f_val t\<bar> \<le> 2" "n \<le> 1000"
  shows "is_finite (sm + t) \<and> \<bar>f_val (sm + t)\<bar> \<le> of_nat (n + 2)"
proof -
  have "\<bar>f_val sm + f_val t\<bar> \<le> of_nat (n + 2)" using assms(2,4) by simp
  then have r: "\<bar>rnd (f_val sm + f_val t)\<bar> \<le> of_nat (n + 2)"
    using rnd_of_nat [of "n + 2"] assms(5) by (intro rnd_abs_le) simp_all
  have "of_nat (n + 2) \<le> (of_nat (2 ^ 10) :: rat)" using assms(5) by (simp only: of_nat_le_iff) simp
  then have "\<not> overflows (rnd (f_val sm + f_val t))" using r by (intro overflows_small [of _ 10]) simp_all
  then have f: "is_finite (sm + t)" using assms by (simp add: finite_plus)
  show ?thesis using r by (simp add: f f_val_plus [OF f])
qed

lemma ks_series_finite:
  assumes "exp_contract libexp" "nonneg b" "is_finite fac" "\<bar>f_val fac\<bar> = 2"
    "is_finite sm" "\<bar>f_val sm\<bar> \<le> of_nat n" "n + 2 * length ks \<le> 1000" "list_all (\<lambda>k. 0 < k \<and> k < 2 ^ 53) ks"
  shows "is_finite (ks_series libexp (- b) sm fac ks)"
  using assms
proof (induction ks arbitrary: sm fac n)
  case (Cons k ks)
  have k: "is_finite (f_of_nat k)" "f_val (f_of_nat k) \<noteq> 0"
    using Cons.prems(8) by (simp_all add: f_val_of_nat_exact)
  have "nonneg (b * f_of_nat k * f_of_nat k)" using Cons.prems(2) k by (intro nonneg_times) simp_all
  then have "- (b * f_of_nat k * f_of_nat k) \<le> 0" by (rule nonneg_uminus_le)
  then have e: "in_unit (libexp (- b * f_of_nat k * f_of_nat k))"
    using Cons.prems(1) by (simp add: uminus_times exp_contract_def)
  let ?t = "fac * libexp (- b * f_of_nat k * f_of_nat k)"
  have t: "is_finite ?t" "\<bar>f_val ?t\<bar> \<le> 2" using ks_term [OF e Cons.prems(3,4)] by simp_all
  have s: "is_finite (sm + ?t)" "\<bar>f_val (sm + ?t)\<bar> \<le> of_nat (n + 2)"
    using ks_sum [OF Cons.prems(5,6) t] Cons.prems(7) by simp_all
  show ?case
    using s Cons.IH [of "- fac" "sm + ?t" "n + 2"] Cons.prems by (simp add: Let_def)
qed simp

lemma clamp_in_unit: "is_finite x \<Longrightarrow> in_unit (f_clamp 0 1 x)"
  by (auto simp: f_clamp_def Let_def in_unit_def less_finite)

lemma double_pos: "0 < x \<Longrightarrow> nonneg (f_of_nat 2 * x * x)"
proof (cases "is_finite x")
  case True
  assume "0 < x"
  then show ?thesis using True by (intro nonneg_times) (auto simp: pos_nonneg less_finite f_val_of_nat_exact)
next
  case False
  assume "0 < x"
  then have "x = f_inf" using False by transfer (auto simp: fp_not_finite fp_less_def)
  moreover have "nonneg (f_of_nat 2 * f_inf * f_inf)" by code_simp
  ultimately show ?thesis by simp
qed

lemma ks_survival_in_unit:
  assumes "exp_contract libexp" "nonneg lambda"
  shows "in_unit (ks_survival libexp lambda)"
proof (cases "lambda \<le> 0")
  case False
  then have "0 < lambda" using f_not_less [of 0 lambda] assms(2) by (auto simp: nonneg_def)
  then have "is_finite (ks_series libexp (- (f_of_nat 2 * lambda * lambda)) 0 (f_of_nat 2) [1..<101])"
    using assms(1) by (intro ks_series_finite [where n = 0] double_pos) (simp_all add: f_val_of_nat_exact list_all_iff)
  then show ?thesis using False by (simp add: ks_survival_def Let_def uminus_times clamp_in_unit)
qed (simp add: ks_survival_def)

lemma ks_pvalue_in_unit:
  assumes "exp_contract libexp" "in_unit d" "n1 + n2 < 2 ^ 64"
  shows "in_unit (ks_pvalue libexp d n1 n2)"
proof (cases "d \<le> 0 \<or> n1 = 0 \<or> n2 = 0")
  case False
  let ?e = "(f_of_nat n1 * f_of_nat n2) / f_of_nat (n1 + n2)"
  have "nonneg (f_of_nat n1 * f_of_nat n2)" using assms(3) by (intro nonneg_times) simp_all
  moreover have "0 < f_val (f_of_nat (n1 + n2))"
    using False assms(3) f_val_of_nat_ge_1 [of "n1 + n2"] by simp
  ultimately have "nonneg ?e" using assms(3) by (intro nonneg_divide) auto
  then have s: "nonneg (f_sqrt ?e)" by (rule nonneg_sqrt)
  have c: "is_finite (f_of_rat (11 / 100)) \<and> f_val (f_of_rat (11 / 100)) \<noteq> 0" by code_simp
  have "nonneg (f_sqrt ?e + f_of_rat (12 / 100) + f_of_rat (11 / 100) / f_sqrt ?e)"
    by (intro nonneg_plus nonneg_divide s nonneg_of_rat) (use c in simp_all)
  moreover have "0 < f_val d" "is_finite d"
    using False assms(2) by (auto simp: in_unit_def less_eq_finite)
  ultimately have "nonneg ((f_sqrt ?e + f_of_rat (12 / 100) + f_of_rat (11 / 100) / f_sqrt ?e) * d)"
    by (intro nonneg_times) (auto simp: pos_nonneg less_finite)
  then show ?thesis using False assms(1) by (simp add: ks_pvalue_def Let_def ks_survival_in_unit)
qed (auto simp: ks_pvalue_def)


section \<open>Invariant\<close>

definition kswin_ok :: "kswin \<Rightarrow> bool" where
  "kswin_ok s \<longleftrightarrow> kswin_check_config (ks_config s) = Inr ()
     \<and> length (ks_reference_window s) \<le> kc_window_size (ks_config s)
     \<and> length (ks_current_window s) \<le> kc_window_size (ks_config s)
     \<and> length (ks_reference_window s) + length (ks_current_window s) \<le> unat (ks_samples s)
     \<and> ks_last_check_sample s \<le> ks_samples s
     \<and> list_all is_finite (ks_reference_window s @ ks_current_window s)
     \<and> in_unit (ks_last_pvalue s) \<and> in_unit (ks_last_statistic s)
     \<and> ks_current_level s \<noteq> Warning
     \<and> (ks_current_level s = Drift \<longrightarrow> ks_current_window s = []
          \<and> length (ks_reference_window s) = kc_window_size (ks_config s)
          \<and> 2 * kc_window_size (ks_config s) \<le> unat (ks_samples s))"

lemma kswin_push_ok:
  assumes "kswin_ok s" "is_finite v" "unat (ks_samples s) + 1 < 2 ^ 64"
  shows "kswin_ok (kswin_push v (ks_samples s + 1) s)"
proof -
  have n: "unat (ks_samples s + 1) = unat (ks_samples s) + 1" using assms(3) by (rule unat_inc)
  then have l: "ks_last_check_sample s \<le> ks_samples s + 1"
    using assms(1) by (simp add: kswin_ok_def word_le_nat_alt)
  have w: "0 < kc_window_size (ks_config s)"
    using assms(1) by (auto simp: kswin_ok_def kswin_check_config_def result_simps)
  show ?thesis
    using assms n l w by (auto simp: kswin_ok_def kswin_push_def kswin_rotate_def Let_def)
qed

lemma kswin_push_fields:
  "ks_current_level (kswin_push v n s) = LevelNone" "ks_samples (kswin_push v n s) = n"
  "ks_config (kswin_push v n s) = ks_config s"
  by (simp_all add: kswin_push_def kswin_rotate_def Let_def)

lemma kswin_check_ok:
  assumes "kswin_ok s" "ks_current_level s = LevelNone" "exp_contract libexp"
  shows "kswin_ok (kswin_check libexp s)"
proof -
  let ?r = "ks_reference_window s" let ?c = "ks_current_window s"
  have l: "length ?r + length ?c < 2 ^ 64"
    using assms(1) unat_u64_less [of "ks_samples s"] by (simp add: kswin_ok_def)
  then have d: "in_unit (ks_statistic ?r ?c)" by (intro ks_statistic_in_unit) simp_all
  then have p: "in_unit (ks_pvalue libexp (ks_statistic ?r ?c) (length ?r) (length ?c))"
    using l assms(3) by (intro ks_pvalue_in_unit)
  show ?thesis
    using assms(1,2) d p by (auto simp: kswin_ok_def kswin_check_def kswin_rotate_def Let_def)
qed

lemma kswin_check_fields:
  "ks_samples (kswin_check libexp s) = ks_samples s" "ks_config (kswin_check libexp s) = ks_config s"
  by (simp_all add: kswin_check_def kswin_rotate_def Let_def)

lemma kswin_update_Inr [result_simps]:
  "kswin_update libexp v s = (Inr l, s') \<longleftrightarrow> is_finite v \<and> unat (ks_samples s) + 1 < 2 ^ 64
     \<and> s' = kswin_check libexp (kswin_push v (ks_samples s + 1) s) \<and> l = ks_current_level s'"
  by (auto simp: kswin_update_def Let_def ensure_finite_def checked_increment_def checked_add_u64_def ok_or_def
      split: if_splits)

lemma kswin_update_Inl: "kswin_update libexp v s = (Inl e, s') \<Longrightarrow> s' = s"
  by (auto simp: kswin_update_def Let_def split: sum.splits)

lemma kswin_step_ok:
  "exp_contract libexp \<Longrightarrow> kswin_ok s \<Longrightarrow> kswin_update libexp v s = (Inr l, s') \<Longrightarrow> kswin_ok s'"
  by (auto simp: kswin_update_Inr kswin_push_ok kswin_push_fields intro!: kswin_check_ok)

lemma kswin_new_Inr [result_simps]:
  "kswin_new c = Inr s \<longleftrightarrow> kswin_check_config c = Inr () \<and>
     s = \<lparr>ks_config = c, ks_reference_window = [], ks_current_window = [], ks_samples = 0,
          ks_last_check_sample = 0, ks_last_pvalue = 1, ks_last_statistic = 0, ks_current_level = LevelNone\<rparr>"
  by (auto simp: kswin_new_def and_then_Inr)

lemma kswin_new_ok: "kswin_new c = Inr s \<Longrightarrow> kswin_ok s"
  by (auto simp: kswin_new_Inr kswin_ok_def)

text \<open>An exponential that keeps the contract, for the interpretation and the witnesses.\<close>

definition step_exp :: "f64 \<Rightarrow> f64" where
  "step_exp x = (if x < 0 then 0 else 1)"

lemma step_exp_contract: "exp_contract step_exp"
  by (simp add: exp_contract_def step_exp_def)

definition checked_exp :: "(f64 \<Rightarrow> f64) \<Rightarrow> f64 \<Rightarrow> f64" where
  "checked_exp libexp = (if exp_contract libexp then libexp else step_exp)"

lemma checked_exp_contract: "exp_contract (checked_exp libexp)"
  by (simp add: checked_exp_def step_exp_contract)

interpretation kswin: drift_detector "kswin_update (checked_exp libexp)" kswin_ok ks_current_level ks_samples
    "\<lambda>s. 2 * kc_window_size (ks_config s)" kswin_reset for libexp
proof unfold_locales
  show "kswin_update (checked_exp libexp) x s = (Inl e, s') \<Longrightarrow> s' = s" for x s e s' by (rule kswin_update_Inl)
  show "kswin_ok s \<Longrightarrow> kswin_update (checked_exp libexp) x s = (Inr l, s') \<Longrightarrow> kswin_ok s'" for x s l s'
    by (rule kswin_step_ok [OF checked_exp_contract])
  show "kswin_ok s \<Longrightarrow> ks_current_level s \<noteq> LevelNone \<Longrightarrow> 2 * kc_window_size (ks_config s) \<le> unat (ks_samples s)" for s
    by (cases "ks_current_level s") (auto simp: kswin_ok_def)
  show "kswin_ok s \<Longrightarrow> kswin_ok (kswin_reset s)" for s by (simp add: kswin_ok_def kswin_reset_def)
qed (auto simp: kswin_update_Inr kswin_check_fields kswin_push_fields unat_inc kswin_reset_def)

lemma kswin_reachable_ok:
  assumes "kswin_new c = Inr s0" "exp_contract libexp"
  shows "kswin_ok (run_ops (kswin_update libexp) xs s0)"
  using kswin.run_inv [OF kswin_new_ok [OF assms(1)], of libexp xs] assms(2) by (simp add: checked_exp_def)

lemma kswin_restore_export:
  assumes "kswin_ok s"
  shows "kswin_restore_state (ks_config s) (kswin_export_state s) = Inr s"
proof -
  have c: "kswin_check_config (ks_config s) = Inr ()" using assms by (simp add: kswin_ok_def)
  then have feq: "feq (kc_alpha (ks_config s)) (kc_alpha (ks_config s))"
    by (auto simp: kswin_check_config_def result_simps feq_refl)
  have pc: "kswin_portable_config (kswin_export_state s) = ks_config s"
    by (simp add: kswin_portable_config_def kswin_export_state_def)
  have sz: "length (ks_reference_window s) + length (ks_current_window s) \<le> usize_max"
    using assms unat_u64_less [of "ks_samples s"] by (simp add: kswin_ok_def usize_max_def)
  have u: "is_finite (ks_last_pvalue s)" "is_finite (ks_last_statistic s)"
    using assms by (auto simp: kswin_ok_def in_unit_def)
  have fin: "try_for_each (ensure_finite m) (ks_reference_window s @ ks_current_window s) = Inr ()" for m
    using assms by (auto simp: try_for_each_Inr ensure_finite_def kswin_ok_def list_all_iff)
  have "kswin_portable_validate (kswin_export_state s) = Inr ()"
    unfolding kswin_portable_validate_def pc
    using assms c sz u fin
    by (auto simp: kswin_export_state_def kswin_new_def kswin_ok_def checked_add_usize_def ok_or_def
        in_unit_interval ensure_finite_def not_less)
  then show ?thesis using c feq by (simp add: kswin_restore_state_def kswin_new_def kswin_export_state_def)
qed

text \<open>
  Portable state. Every reachable KSWIN state can be exported and restored without loss, under the
  contract of the exponential function: all its statistics are probabilities and its windows fit.
\<close>
theorem kswin_state_roundtrip:
  assumes "kswin_new c = Inr s0" and "exp_contract libexp" and "s = run_ops (kswin_update libexp) xs s0"
  shows "kswin_restore_state (ks_config s) (kswin_export_state s) = Inr s"
  using kswin_restore_export kswin_reachable_ok assms by simp

definition demo_kswin :: kswin where
  "demo_kswin = \<lparr>ks_config = \<lparr>kc_alpha = f_of_rat (1 / 2), kc_window_size = 2, kc_check_interval = 1\<rparr>,
     ks_reference_window = [], ks_current_window = [], ks_samples = 0, ks_last_check_sample = 0,
     ks_last_pvalue = 1, ks_last_statistic = 0, ks_current_level = LevelNone\<rparr>"

lemma demo_kswin_new: "kswin_new (ks_config demo_kswin) = Inr demo_kswin"
  by code_simp

lemma kswin_state_roundtrip_witness:
  "let s = run_ops (kswin_update step_exp) [0, 1, f_of_nat 7, f_of_nat 8] demo_kswin
   in kswin_restore_state (ks_config s) (kswin_export_state s) = Inr s"
  unfolding Let_def by (rule kswin_state_roundtrip [OF demo_kswin_new step_exp_contract refl])

end
