(* ===== verification/Drift_Decay.thy ===== *)
theory Drift_Decay imports Drift_Core Kswin Stats begin

text \<open>
  The helpers of \<open>src/drift/decay.rs\<close>: the time-decayed mean, the learning-rate scheduler and the ring
  buffer \<open>FixedWindowBuffer\<close>, which refines a queue of the latest values.
\<close>

section \<open>Time-decayed mean\<close>

record decayed_mean =
  td_decay :: f64
  td_weighted_sum :: f64
  td_weight_total :: f64
  td_last_time :: "f64 option"

definition decayed_mean_new :: "f64 \<Rightarrow> rill_error + decayed_mean" where
  "decayed_mean_new d =
     and_then (ensure_finite ''decay'' d) (\<lambda>_.
       if d \<le> 0 then Inl (InvalidParameter ''decay'' d)
       else Inr \<lparr>td_decay = d, td_weighted_sum = 0, td_weight_total = 0, td_last_time = None\<rparr>)"

text \<open>The two assignments of the source happen one after the other, each after its own check.\<close>

definition decayed_mean_update ::
    "(f64 \<Rightarrow> f64) \<Rightarrow> f64 \<times> f64 \<Rightarrow> decayed_mean \<Rightarrow> (rill_error + unit) \<times> decayed_mean" where
  "decayed_mean_update libexp tv s = (case tv of (time, v) \<Rightarrow>
     (case and_then (ensure_finite ''time'' time) (\<lambda>_. ensure_finite ''value'' v) of
        Inl e \<Rightarrow> (Inl e, s)
      | Inr _ \<Rightarrow>
     (case td_last_time s of
        None \<Rightarrow> (Inr (), s\<lparr>td_weighted_sum := v, td_weight_total := 1, td_last_time := Some time\<rparr>)
      | Some prev \<Rightarrow>
          if time < prev then (Inl (InvalidParameter ''time'' time), s)
          else let factor = libexp (- td_decay s * (time - prev)) in
            case checked_finite_add (factor * td_weighted_sum s) v ''weighted_sum'' of
              Inl e \<Rightarrow> (Inl e, s)
            | Inr sm \<Rightarrow>
                let s1 = s\<lparr>td_weighted_sum := sm\<rparr> in
                case checked_finite_add (factor * td_weight_total s1) 1 ''weight_total'' of
                  Inl e \<Rightarrow> (Inl e, s1)
                | Inr w \<Rightarrow> (Inr (), s1\<lparr>td_weight_total := w, td_last_time := Some time\<rparr>))))"

definition decayed_mean_value :: "decayed_mean \<Rightarrow> f64 option" where
  "decayed_mean_value s = (if 0 < td_weight_total s then Some (td_weighted_sum s / td_weight_total s) else None)"

definition decayed_mean_reset :: "decayed_mean \<Rightarrow> decayed_mean" where
  "decayed_mean_reset s = s\<lparr>td_weighted_sum := 0, td_weight_total := 0, td_last_time := None\<rparr>"

section \<open>Learning-rate scheduler\<close>

record lr_scheduler =
  lr_base :: f64
  lr_warning_multiplier :: f64
  lr_drift_multiplier :: f64
  lr_current_state :: drift_level

definition lr_scheduler_new :: "f64 \<Rightarrow> f64 \<Rightarrow> f64 \<Rightarrow> rill_error + lr_scheduler" where
  "lr_scheduler_new base w d =
     and_then (ensure_finite ''base_lr'' base) (\<lambda>_.
     and_then (ensure_finite ''warning_multiplier'' w) (\<lambda>_.
     and_then (ensure_finite ''drift_multiplier'' d) (\<lambda>_.
       if base \<le> 0 then Inl (InvalidLearningRate base)
       else if w < 1 then Inl (InvalidParameter ''warning_multiplier'' w)
       else if d < w then Inl (InvalidParameter ''drift_multiplier'' d)
       else Inr \<lparr>lr_base = base, lr_warning_multiplier = w, lr_drift_multiplier = d,
                 lr_current_state = LevelNone\<rparr>)))"

definition on_drift_level :: "drift_level \<Rightarrow> lr_scheduler \<Rightarrow> lr_scheduler" where
  "on_drift_level level s = s\<lparr>lr_current_state := level\<rparr>"

definition current_lr :: "lr_scheduler \<Rightarrow> f64" where
  "current_lr s = (case lr_current_state s of
     LevelNone \<Rightarrow> lr_base s
   | Warning \<Rightarrow> lr_base s * lr_warning_multiplier s
   | Drift \<Rightarrow> lr_base s * lr_drift_multiplier s)"

definition lr_scheduler_reset :: "lr_scheduler \<Rightarrow> lr_scheduler" where
  "lr_scheduler_reset s = s\<lparr>lr_current_state := LevelNone\<rparr>"

section \<open>Ring buffer\<close>

record ring =
  rg_buffer :: "f64 list"
  rg_capacity :: usize
  rg_head :: usize
  rg_len :: usize

definition ring_new :: "usize \<Rightarrow> rill_error + ring" where
  "ring_new capacity =
     (if capacity = 0 then Inl (InvalidCapacity capacity)
      else Inr \<lparr>rg_buffer = replicate capacity 0, rg_capacity = capacity, rg_head = 0, rg_len = 0\<rparr>)"

definition ring_is_full :: "ring \<Rightarrow> bool" where
  "ring_is_full s \<longleftrightarrow> rg_len s = rg_capacity s"

definition ring_push :: "f64 \<Rightarrow> ring \<Rightarrow> (rill_error + unit) \<times> ring" where
  "ring_push v s = transact s
     (and_then (ensure_finite ''value'' v) (\<lambda>_.
        Inr (s\<lparr>rg_buffer := (rg_buffer s)[rg_head s := v],
               rg_head := (rg_head s + 1) mod rg_capacity s,
               rg_len := (if rg_len s < rg_capacity s then rg_len s + 1 else rg_len s)\<rparr>)))"

definition ring_iter :: "ring \<Rightarrow> f64 list" where
  "ring_iter s = (let start = (if ring_is_full s then rg_head s else 0) in
     map (\<lambda>i. rg_buffer s ! ((start + i) mod rg_capacity s)) [0..<rg_len s])"

definition ring_mean :: "ring \<Rightarrow> f64 option" where
  "ring_mean s =
     (if rg_len s = 0 then None
      else let sm = f_sum (ring_iter s) in
        if \<not> is_finite sm then None else Some (sm / f_of_nat (rg_len s)))"

definition ring_reset :: "ring \<Rightarrow> ring" where
  "ring_reset s = s\<lparr>rg_head := 0, rg_len := 0\<rparr>"

definition ring_validate :: "ring \<Rightarrow> rill_error + unit" where
  "ring_validate s =
     (if rg_capacity s = 0 then Inl (InvalidState ''fixed-window capacity must be greater than zero'')
      else if length (rg_buffer s) \<noteq> rg_capacity s
      then Inl (InvalidState (''fixed-window backing length '' @ decimal (length (rg_buffer s))
                  @ '' does not match capacity '' @ decimal (rg_capacity s)))
      else if rg_len s > rg_capacity s
      then Inl (InvalidState (''fixed-window length '' @ decimal (rg_len s) @ '' exceeds capacity ''
                  @ decimal (rg_capacity s)))
      else if rg_head s \<ge> rg_capacity s
      then Inl (InvalidState (''fixed-window head '' @ decimal (rg_head s) @ '' is outside capacity ''
                  @ decimal (rg_capacity s)))
      else if rg_len s < rg_capacity s \<and> rg_head s \<noteq> rg_len s
      then Inl (InvalidState (''fixed-window head '' @ decimal (rg_head s) @ '' must equal length ''
                  @ decimal (rg_len s) @ '' before the buffer is full''))
      else try_for_each (ensure_finite ''buffer value'') (take (rg_len s) (rg_buffer s)))"

definition ring_restore :: "ring \<Rightarrow> rill_error + ring" where
  "ring_restore persisted = and_then (ring_validate persisted) (\<lambda>_. Inr persisted)"

section \<open>The ring buffer is a queue\<close>

definition ring_shape :: "ring \<Rightarrow> bool" where
  "ring_shape s \<longleftrightarrow> 0 < rg_capacity s \<and> length (rg_buffer s) = rg_capacity s \<and> rg_len s \<le> rg_capacity s
     \<and> rg_head s < rg_capacity s \<and> (rg_len s < rg_capacity s \<longrightarrow> rg_head s = rg_len s)"

lemma ring_push_Inr [result_simps]:
  "ring_push v s = (Inr u, s') \<longleftrightarrow> is_finite v \<and>
     s' = s\<lparr>rg_buffer := (rg_buffer s)[rg_head s := v], rg_head := (rg_head s + 1) mod rg_capacity s,
            rg_len := (if rg_len s < rg_capacity s then rg_len s + 1 else rg_len s)\<rparr>"
  by (auto simp: ring_push_def transact_Inr and_then_Inr ensure_finite_Inr)

lemma ring_iter_eq:
  assumes "ring_shape s"
  shows "ring_iter s = (if rg_len s < rg_capacity s then take (rg_len s) (rg_buffer s)
    else drop (rg_head s) (rg_buffer s) @ take (rg_head s) (rg_buffer s))"
proof (cases "rg_len s < rg_capacity s")
  case True
  then show ?thesis
    using assms by (auto simp: ring_shape_def ring_iter_def ring_is_full_def Let_def intro!: nth_equalityI)
next
  case False
  have a: "h + i < 2 * c \<Longrightarrow> (h + i) mod c = (if h + i < c then h + i else h + i - c)" for h i c :: nat
    by (simp add: mod_if)
  show ?thesis
    using assms False
    by (auto simp: ring_shape_def ring_iter_def ring_is_full_def Let_def nth_append a add.commute intro!: nth_equalityI)
qed

lemma set_ring_iter: "ring_shape s \<Longrightarrow> set (take (rg_len s) (rg_buffer s)) = set (ring_iter s)"
proof -
  have "set (rg_buffer s) = set (take (rg_head s) (rg_buffer s)) \<union> set (drop (rg_head s) (rg_buffer s))"
    by (metis append_take_drop_id set_append)
  then show "ring_shape s \<Longrightarrow> set (take (rg_len s) (rg_buffer s)) = set (ring_iter s)"
    by (simp add: ring_iter_eq ring_shape_def Un_commute)
qed

lemma ring_push_iter:
  assumes s: "ring_shape s" and s': "ring_push v s = (Inr u, s')"
  shows "ring_shape s'" "ring_iter s' = window_push (rg_capacity s) v (ring_iter s)" "rg_capacity s' = rg_capacity s"
proof -
  have e: "s' = s\<lparr>rg_buffer := (rg_buffer s)[rg_head s := v], rg_head := (rg_head s + 1) mod rg_capacity s,
            rg_len := (if rg_len s < rg_capacity s then rg_len s + 1 else rg_len s)\<rparr>"
    using s' by (simp add: ring_push_Inr)
  show "rg_capacity s' = rg_capacity s" using e by simp
  show sh: "ring_shape s'" using s e by (auto simp: ring_shape_def mod_if)
  let ?b = "rg_buffer s" let ?h = "rg_head s" let ?c = "rg_capacity s"
  have b: "?h < length ?b" "length ?b = ?c" using s by (simp_all add: ring_shape_def)
  have up: "take (Suc ?h) (?b[?h := v]) = take ?h ?b @ [v]"
    using b(1) by (simp add: take_Suc_conv_app_nth)
  have dr: "drop (Suc ?h) (?b[?h := v]) = drop (Suc ?h) ?b" by simp
  show "ring_iter s' = window_push ?c v (ring_iter s)"
  proof (cases "rg_len s < ?c")
    case True
    then have h: "?h = rg_len s" using s by (simp add: ring_shape_def)
    have w: "window_push ?c v (ring_iter s) = take ?h ?b @ [v]"
      using True h b by (simp add: ring_iter_eq [OF s] window_push_def)
    show ?thesis
    proof (cases "Suc (rg_len s) = ?c")
      case True
      then have "?b[?h := v] = take (Suc ?h) (?b[?h := v])" using b h by simp
      then show ?thesis using True w up h by (simp add: ring_iter_eq [OF sh]) (simp add: e)
    next
      case False
      then show ?thesis using True w up h by (simp add: ring_iter_eq [OF sh]) (simp add: e)
    qed
  next
    case False
    then have w: "window_push ?c v (ring_iter s) = drop (Suc ?h) ?b @ take ?h ?b @ [v]"
      using b by (simp add: ring_iter_eq [OF s] window_push_def Cons_nth_drop_Suc [symmetric])
    show ?thesis
    proof (cases "Suc ?h = ?c")
      case True
      then have "?b[?h := v] = take (Suc ?h) (?b[?h := v])" "drop (Suc ?h) ?b = []" using b by simp_all
      then show ?thesis using True False w up by (simp add: ring_iter_eq [OF sh]) (simp add: e)
    next
      case F: False
      then have "Suc ?h mod ?c = Suc ?h" using b by simp
      then show ?thesis using False w up dr by (simp add: ring_iter_eq [OF sh]) (simp add: e)
    qed
  qed
qed

definition ring_ok :: "ring \<Rightarrow> bool" where
  "ring_ok s \<longleftrightarrow> ring_shape s \<and> list_all is_finite (ring_iter s)"

lemma ring_ok_valid: "ring_ok s \<Longrightarrow> ring_validate s = Inr ()"
  using set_ring_iter [of s]
  by (auto simp: ring_ok_def ring_validate_def result_simps ring_shape_def list_all_iff not_less)

lemma ring_push_ok: "ring_ok s \<Longrightarrow> ring_push v s = (Inr u, s') \<Longrightarrow> ring_ok s'"
  using ring_push_iter [of s v u s'] window_push_all [of is_finite "ring_iter s" v]
  by (simp add: ring_ok_def ring_push_Inr)

interpretation ring: atomic_machine ring_push ring_ok
  by unfold_locales (auto simp: ring_push_def transact_Inl intro: ring_push_ok [unfolded ring_push_def])

lemma ring_run_iter:
  assumes "ring_shape s" "ring_iter s = last_n (rg_capacity s) ys"
  shows "ring_iter (run_ops ring_push xs s) = last_n (rg_capacity s) (ys @ filter is_finite xs)"
  using assms
proof (induction xs arbitrary: s ys)
  case (Cons x xs)
  obtain r s' where e: "ring_push x s = (r, s')" by fastforce
  show ?case
  proof (cases "is_finite x")
    case True
    then have r: "ring_push x s = (Inr (), s')" using e by (cases r) (auto simp: ring_push_def ensure_finite_def transact_Inl)
    have "0 < rg_capacity s" using Cons.prems(1) by (simp add: ring_shape_def)
    then have "ring_iter s' = last_n (rg_capacity s') (ys @ [x])"
      using ring_push_iter [OF Cons.prems(1) r] Cons.prems(2) by (simp add: window_push_last_n)
    then show ?thesis using Cons.IH [of s' "ys @ [x]"] ring_push_iter [OF Cons.prems(1) r] True e by simp
  next
    case False
    then have "s' = s" using e by (simp add: ring_push_def ensure_finite_def)
    then show ?thesis using Cons False e by simp
  qed
qed simp

lemma ring_new_ok: "ring_new c = Inr s \<Longrightarrow> ring_ok s \<and> ring_iter s = [] \<and> rg_capacity s = c"
  by (auto simp: ring_new_def ring_ok_def ring_shape_def ring_iter_def split: if_splits)

text \<open>
  Ring buffer. A reachable buffer yields the last \<open>capacity\<close> finite values pushed into it, oldest
  first, and its stored form passes the validation of a restore.
\<close>
theorem ring_refines_queue:
  assumes "ring_new capacity = Inr s0" and "s = run_ops ring_push xs s0"
  shows "ring_iter s = last_n capacity (filter is_finite xs) \<and> ring_restore s = Inr s"
proof -
  have ok: "ring_ok s0" "ring_iter s0 = last_n (rg_capacity s0) []" "rg_capacity s0 = capacity"
    using ring_new_ok [OF assms(1)] by (simp_all add: last_n_def)
  have "ring_iter s = last_n capacity (filter is_finite xs)"
    using ring_run_iter [of s0 "[]" xs] ok assms(2) by (simp add: ring_ok_def)
  moreover have "ring_ok s" using ring.run_inv [OF ok(1)] assms(2) by simp
  ultimately show ?thesis by (simp add: ring_restore_def ring_ok_valid)
qed

lemma ring_refines_queue_witness:
  "ring_iter (run_ops ring_push (map f_of_nat [1, 2, 3])
     \<lparr>rg_buffer = [0, 0], rg_capacity = 2, rg_head = 0, rg_len = 0\<rparr>) = map f_of_nat [2, 3]"
proof -
  have "ring_new 2 = Inr \<lparr>rg_buffer = [0, 0], rg_capacity = 2, rg_head = 0, rg_len = 0\<rparr>"
    by (simp add: ring_new_def numeral_2_eq_2)
  from ring_refines_queue [OF this refl, of "map f_of_nat [1, 2, 3]"] show ?thesis by (simp add: last_n_def)
qed

end
