(* ===== verification/Drift_Aware.thy ===== *)
theory Drift_Aware imports Drift_Core Machine begin

text \<open>
  The wrapper \<open>DriftAwareModel\<close> of \<open>src/drift/aware_model.rs\<close>, generic in the model, the detector and
  the strategy. Their traits are records of operations; the error of one step leaves what the earlier
  steps of \<open>learn\<close> already did, as in the source.
\<close>

record 'm regressor_ops =
  op_predict :: "'m \<Rightarrow> f64 list \<Rightarrow> rill_error + f64"
  op_learn :: "f64 list \<times> f64 \<Rightarrow> 'm \<Rightarrow> (rill_error + unit) \<times> 'm"
  op_reset :: "'m \<Rightarrow> 'm"

record 'd detector_ops =
  op_update :: "f64 \<Rightarrow> 'd \<Rightarrow> (rill_error + drift_level) \<times> 'd"
  op_last_value :: "'d \<Rightarrow> f64"
  op_detector_reset :: "'d \<Rightarrow> 'd"

definition default_max_events :: usize where "default_max_events = 1000"

record ('m, 'd, 'a) aware_model =
  am_model :: 'm
  am_detector :: 'd
  am_strategy :: 'a
  am_events :: "drift_event list"
  am_max_events :: usize
  am_samples_seen :: u64
  am_last_action :: "drift_action option"

definition aware_new :: "'m \<Rightarrow> 'd \<Rightarrow> 'a \<Rightarrow> ('m, 'd, 'a) aware_model" where
  "aware_new m d a = \<lparr>am_model = m, am_detector = d, am_strategy = a, am_events = [],
     am_max_events = default_max_events, am_samples_seen = 0, am_last_action = None\<rparr>"

definition aware_with_max_events :: "'m \<Rightarrow> 'd \<Rightarrow> 'a \<Rightarrow> usize \<Rightarrow> rill_error + ('m, 'd, 'a) aware_model" where
  "aware_with_max_events m d a n =
     (if n = 0 then Inl (InvalidCapacity n) else Inr ((aware_new m d a)\<lparr>am_max_events := n\<rparr>))"

definition push_event :: "usize \<Rightarrow> drift_event \<Rightarrow> drift_event list \<Rightarrow> drift_event list" where
  "push_event n ev events = (let es = events @ [ev] in drop (length es - n) es)"

text \<open>The detector's step, the event log and the strategy's action.\<close>

definition aware_react ::
    "'m regressor_ops \<Rightarrow> 'd detector_ops \<Rightarrow> ('a \<Rightarrow> drift_level \<Rightarrow> u64 \<Rightarrow> drift_action)
     \<Rightarrow> drift_level \<Rightarrow> ('m, 'd, 'a) aware_model \<Rightarrow> ('m, 'd, 'a) aware_model" where
  "aware_react mo d decide level s =
     (let action = decide (am_strategy s) level (am_samples_seen s);
          s1 = (if is_change level
                then s\<lparr>am_events := push_event (am_max_events s)
                         (drift_event_new (am_samples_seen s) level action (op_last_value d (am_detector s)))
                         (am_events s)\<rparr>
                else s);
          s2 = (if action = ResetModel then s1\<lparr>am_model := op_reset mo (am_model s1)\<rparr> else s1)
      in s2\<lparr>am_last_action := Some action\<rparr>)"

definition aware_learn ::
    "'m regressor_ops \<Rightarrow> 'd detector_ops \<Rightarrow> ('a \<Rightarrow> drift_level \<Rightarrow> u64 \<Rightarrow> drift_action)
     \<Rightarrow> f64 list \<times> f64 \<Rightarrow> ('m, 'd, 'a) aware_model \<Rightarrow> (rill_error + unit) \<times> ('m, 'd, 'a) aware_model" where
  "aware_learn mo d decide xy s = (case xy of (features, target) \<Rightarrow>
     (case op_predict mo (am_model s) features of
        Inl e \<Rightarrow> (Inl e, s)
      | Inr prediction \<Rightarrow>
     (case op_update d \<bar>target - prediction\<bar> (am_detector s) of
        (Inl e, det) \<Rightarrow> (Inl e, s\<lparr>am_detector := det\<rparr>)
      | (Inr level, det) \<Rightarrow>
          let s1 = aware_react mo d decide level (s\<lparr>am_detector := det\<rparr>) in
          (case op_learn mo (features, target) (am_model s1) of
             (Inl e, m) \<Rightarrow> (Inl e, s1\<lparr>am_model := m\<rparr>)
           | (Inr _, m) \<Rightarrow>
               let s2 = s1\<lparr>am_model := m\<rparr> in
               (case checked_increment (am_samples_seen s2) ''samples_seen'' of
                  Inl e \<Rightarrow> (Inl e, s2)
                | Inr n \<Rightarrow> (Inr (), s2\<lparr>am_samples_seen := n\<rparr>))))))"

definition aware_reset :: "'m regressor_ops \<Rightarrow> 'd detector_ops \<Rightarrow> ('m, 'd, 'a) aware_model \<Rightarrow> ('m, 'd, 'a) aware_model" where
  "aware_reset mo d s = s\<lparr>am_model := op_reset mo (am_model s), am_detector := op_detector_reset d (am_detector s),
     am_events := [], am_samples_seen := 0, am_last_action := None\<rparr>"

section \<open>The event log\<close>

definition log_ok :: "('m, 'd, 'a) aware_model \<Rightarrow> bool" where
  "log_ok s \<longleftrightarrow> length (am_events s) \<le> am_max_events s \<and> list_all (\<lambda>e. is_change (de_level e)) (am_events s)
     \<and> sorted (map de_sample_index (am_events s)) \<and> list_all (\<lambda>e. de_sample_index e \<le> am_samples_seen s) (am_events s)"

lemma push_event_ok:
  assumes "length es \<le> n" "0 < n" "list_all p es" "p ev" "sorted (map f es)" "list_all (\<lambda>e. f e \<le> f ev) es"
  shows "length (push_event n ev es) \<le> n \<and> list_all p (push_event n ev es) \<and> sorted (map f (push_event n ev es))"
proof -
  have "sorted (map f (es @ [ev]))" using assms(5,6) by (simp add: sorted_append list_all_iff)
  then have "sorted (map f (drop k (es @ [ev])))" for k
    unfolding drop_map [symmetric] by (rule sorted_wrt_drop)
  moreover have "list_all p (drop k (es @ [ev]))" for k
    using assms(3,4) set_drop_subset [of k "es @ [ev]"] by (auto simp: list_all_iff)
  moreover have "length (push_event n ev es) \<le> n" using assms(1) by (simp add: push_event_def Let_def)
  ultimately show ?thesis unfolding push_event_def Let_def by blast
qed

lemma set_push_event: "set (push_event n ev es) \<subseteq> insert ev (set es)"
  using set_drop_subset by (fastforce simp: push_event_def Let_def)

lemma aware_react_log:
  assumes "log_ok s" "0 < am_max_events s"
  shows "log_ok (aware_react mo d decide level s)"
    and "am_max_events (aware_react mo d decide level s) = am_max_events s"
    and "am_samples_seen (aware_react mo d decide level s) = am_samples_seen s"
proof -
  show "am_max_events (aware_react mo d decide level s) = am_max_events s"
    "am_samples_seen (aware_react mo d decide level s) = am_samples_seen s"
    by (simp_all add: aware_react_def Let_def)
  let ?ev = "drift_event_new (am_samples_seen s) level (decide (am_strategy s) level (am_samples_seen s))
    (op_last_value d (am_detector s))"
  have "is_change level \<Longrightarrow> length (push_event (am_max_events s) ?ev (am_events s)) \<le> am_max_events s
    \<and> list_all (\<lambda>e. is_change (de_level e)) (push_event (am_max_events s) ?ev (am_events s))
    \<and> sorted (map de_sample_index (push_event (am_max_events s) ?ev (am_events s)))"
    using assms by (intro push_event_ok) (auto simp: log_ok_def drift_event_new_def)
  then show "log_ok (aware_react mo d decide level s)"
    using assms set_push_event [of "am_max_events s" ?ev "am_events s"]
    by (auto simp: aware_react_def Let_def log_ok_def list_all_iff drift_event_new_def)
qed

lemma aware_learn_log:
  fixes s :: "('m, 'd, 'a) aware_model"
  assumes "log_ok s" "0 < am_max_events s"
  shows "log_ok (snd (aware_learn mo d decide xy s)) \<and> am_max_events (snd (aware_learn mo d decide xy s)) = am_max_events s"
proof -
  obtain features target where xy: "xy = (features, target)" by fastforce
  have base: "log_ok (s\<lparr>am_detector := det\<rparr>)" for det using assms(1) by (simp add: log_ok_def)
  have p: "0 < am_max_events (s\<lparr>am_detector := det\<rparr>)" for det using assms(2) by simp
  note r = aware_react_log [OF base p, of mo d decide]
  have inc: "log_ok (s'\<lparr>am_model := m, am_samples_seen := n\<rparr>)"
    if "log_ok s'" "checked_increment k f = Inr n" "am_samples_seen s' = k" for s' :: "('m, 'd, 'a) aware_model" and m n f k
    using that checked_increment_gt [OF that(2)] by (auto simp: log_ok_def list_all_iff)
  have mod: "log_ok (s'\<lparr>am_model := m\<rparr>)" if "log_ok s'" for s' :: "('m, 'd, 'a) aware_model" and m
    using that by (simp add: log_ok_def)
  show ?thesis
    using assms base r inc [OF r(1) _ r(3)] mod
    by (auto simp: xy aware_learn_def Let_def split: sum.splits prod.splits)
qed

lemma aware_run_log:
  "log_ok s \<Longrightarrow> 0 < am_max_events s \<Longrightarrow>
   log_ok (run_ops (aware_learn mo d decide) xs s) \<and> am_max_events (run_ops (aware_learn mo d decide) xs s) = am_max_events s"
proof (induction xs arbitrary: s)
  case (Cons x xs)
  then show ?case using aware_learn_log [OF Cons.prems, of mo d decide x] by simp
qed simp

text \<open>
  Event log. Whatever the model, the detector and the strategy do, the log of a wrapper never holds
  more than \<open>max_events\<close> events, all of them report a change, and their sample indices are ordered and
  within the samples learned.
\<close>
theorem aware_log_bounded:
  assumes "aware_with_max_events m det a n = Inr s0" and "s = run_ops (aware_learn mo d decide) xs s0"
  shows "length (am_events s) \<le> n \<and> list_all (\<lambda>e. is_change (de_level e)) (am_events s)
    \<and> sorted (map de_sample_index (am_events s))
    \<and> list_all (\<lambda>e. de_sample_index e \<le> am_samples_seen s) (am_events s)"
proof -
  have s0: "log_ok s0" "am_max_events s0 = n" "0 < n"
    using assms(1) by (auto simp: aware_with_max_events_def aware_new_def log_ok_def split: if_splits)
  from aware_run_log [OF s0(1), of mo d decide xs] s0(2,3) show ?thesis using assms(2) by (simp add: log_ok_def)
qed

text \<open>A model that predicts the last target, a detector that reports every error as a drift.\<close>

definition last_target_ops :: "f64 regressor_ops" where
  "last_target_ops = \<lparr>op_predict = \<lambda>m xs. Inr m, op_learn = \<lambda>xy m. (Inr (), snd xy), op_reset = \<lambda>m. 0\<rparr>"

definition every_error_ops :: "f64 detector_ops" where
  "every_error_ops = \<lparr>op_update = \<lambda>e d. (Inr (if 0 < e then Drift else LevelNone), e),
     op_last_value = \<lambda>d. d, op_detector_reset = \<lambda>d. 0\<rparr>"

definition demo_aware :: "(f64, f64, static_strategy) aware_model" where
  "demo_aware = (aware_new 0 0 static_strategy_default)\<lparr>am_max_events := 1\<rparr>"

lemma aware_log_bounded_witness:
  "length (am_events (run_ops (aware_learn last_target_ops every_error_ops static_decide)
     [([], 1), ([], 0), ([], 1)] demo_aware)) \<le> 1"
proof -
  have "aware_with_max_events 0 0 static_strategy_default 1 = Inr demo_aware"
    by (simp add: aware_with_max_events_def demo_aware_def)
  from aware_log_bounded [OF this refl] show ?thesis by blast
qed

end
