(* ===== verification/Optim.thy ===== *)
theory Optim imports Kswin F64_Text begin

text \<open>
  Losses and optimizers: \<open>src/loss\<close> and \<open>src/optim\<close>. A \<open>step\<close> computes all new parameters before
  it writes any, so it is modelled by its result: the new optimizer, weights and intercept, or the
  error with nothing changed.
\<close>

section \<open>Losses\<close>

definition f_half :: f64 where "f_half = f_of_rat (1 / 2)"

definition f_signum :: "f64 \<Rightarrow> f64" where
  "f_signum x = (if is_nan x then x else if is_sign_negative x then - 1 else 1)"

definition squared_loss :: "f64 \<Rightarrow> f64 \<Rightarrow> f64" where
  "squared_loss prediction target = (let diff = prediction - target in f_half * diff * diff)"

definition squared_gradient :: "f64 \<Rightarrow> f64 \<Rightarrow> f64" where
  "squared_gradient prediction target = prediction - target"

definition squared_validate :: "f64 \<Rightarrow> f64 \<Rightarrow> rill_error + unit" where
  "squared_validate prediction target =
     and_then (ensure_finite ''prediction'' prediction) (\<lambda>_. ensure_finite_target target)"

record huber_loss =
  hl_delta :: f64

definition huber_new :: "f64 \<Rightarrow> rill_error + huber_loss" where
  "huber_new d = and_then (ensure_finite ''delta'' d) (\<lambda>_.
     if d \<le> 0 then Inl (InvalidParameter ''delta'' d) else Inr \<lparr>hl_delta = d\<rparr>)"

definition huber_default :: huber_loss where
  "huber_default = \<lparr>hl_delta = 1\<rparr>"

definition huber_value :: "huber_loss \<Rightarrow> f64 \<Rightarrow> f64 \<Rightarrow> f64" where
  "huber_value h prediction target =
     (let residual = prediction - target; abs_r = \<bar>residual\<bar> in
      if abs_r \<le> hl_delta h then f_half * residual * residual
      else hl_delta h * (abs_r - f_half * hl_delta h))"

definition huber_gradient :: "huber_loss \<Rightarrow> f64 \<Rightarrow> f64 \<Rightarrow> f64" where
  "huber_gradient h prediction target =
     (let residual = prediction - target in
      if \<bar>residual\<bar> \<le> hl_delta h then residual else hl_delta h * f_signum residual)"

datatype regression_loss = SquaredError | Huber huber_loss

fun loss_value :: "regression_loss \<Rightarrow> f64 \<Rightarrow> f64 \<Rightarrow> f64" where
  "loss_value SquaredError p t = squared_loss p t"
| "loss_value (Huber h) p t = huber_value h p t"

fun regression_gradient :: "regression_loss \<Rightarrow> f64 \<Rightarrow> f64 \<Rightarrow> f64" where
  "regression_gradient SquaredError p t = squared_gradient p t"
| "regression_gradient (Huber h) p t = huber_gradient h p t"

definition default_epsilon :: f64 where "default_epsilon = f_of_rat (1 / 10 ^ 15)"

record binary_log_loss =
  bl_epsilon :: f64

definition log_loss_new :: binary_log_loss where
  "log_loss_new = \<lparr>bl_epsilon = default_epsilon\<rparr>"

definition log_loss_with_epsilon :: "f64 \<Rightarrow> rill_error + binary_log_loss" where
  "log_loss_with_epsilon e = and_then (ensure_finite ''epsilon'' e) (\<lambda>_.
     if e \<le> 0 \<or> f_half \<le> e then Inl (InvalidParameter ''epsilon'' e) else Inr \<lparr>bl_epsilon = e\<rparr>)"

definition log_loss_clip :: "binary_log_loss \<Rightarrow> f64 \<Rightarrow> f64" where
  "log_loss_clip l p = f_clamp (bl_epsilon l) (1 - bl_epsilon l) p"

definition f_of_bool :: "bool \<Rightarrow> f64" where
  "f_of_bool b = (if b then 1 else 0)"

definition log_loss :: "(f64 \<Rightarrow> f64) \<Rightarrow> binary_log_loss \<Rightarrow> f64 \<Rightarrow> bool \<Rightarrow> f64" where
  "log_loss libln l probability target =
     (let p = log_loss_clip l probability; y = f_of_bool target
      in - (y * libln p + (1 - y) * libln (1 - p)))"

definition gradient_wrt_logit :: "f64 \<Rightarrow> bool \<Rightarrow> f64" where
  "gradient_wrt_logit probability target = probability - f_of_bool target"

definition sigmoid :: "(f64 \<Rightarrow> f64) \<Rightarrow> f64 \<Rightarrow> f64" where
  "sigmoid libexp z =
     (if 0 \<le> z then 1 / (1 + libexp (- z)) else let e = libexp z in e / (1 + e))"

section \<open>Stochastic gradient descent\<close>

record sgd_config =
  sc_learning_rate :: f64
  sc_l2 :: f64

definition sgd_config_default :: sgd_config where
  "sgd_config_default = \<lparr>sc_learning_rate = f_of_rat (1 / 100), sc_l2 = 0\<rparr>"

record sgd =
  sg_feature_count :: usize
  sg_config :: sgd_config
  sg_samples_seen :: u64

definition sgd_check :: "usize \<Rightarrow> sgd_config \<Rightarrow> rill_error + unit" where
  "sgd_check feature_count c =
     and_then (ensure (feature_count \<noteq> 0) EmptyFeatures) (\<lambda>_.
     and_then (ensure_finite ''learning_rate'' (sc_learning_rate c)) (\<lambda>_.
     and_then (ensure_finite ''l2'' (sc_l2 c)) (\<lambda>_.
     and_then (ensure (\<not> sc_learning_rate c \<le> 0) (InvalidLearningRate (sc_learning_rate c))) (\<lambda>_.
       ensure (\<not> sc_l2 c < 0) (InvalidParameter ''l2'' (sc_l2 c))))))"

definition sgd_new :: "usize \<Rightarrow> sgd_config \<Rightarrow> rill_error + sgd" where
  "sgd_new feature_count c = and_then (sgd_check feature_count c) (\<lambda>_.
     Inr \<lparr>sg_feature_count = feature_count, sg_config = c, sg_samples_seen = 0\<rparr>)"

text \<open>The checks on the arguments of a step, common to both optimizers.\<close>

definition check_step :: "usize \<Rightarrow> f64 list \<Rightarrow> f64 list \<Rightarrow> f64 \<Rightarrow> rill_error + unit" where
  "check_step n ws gs g0 =
     (if length ws \<noteq> n then Inl (DimensionMismatch n (length ws))
      else if length gs \<noteq> n then Inl (DimensionMismatch n (length gs))
      else and_then (try_for_each (ensure_finite ''grad_weight'') gs) (\<lambda>_.
             ensure_finite ''grad_intercept'' g0))"

definition sgd_weight :: "f64 \<Rightarrow> f64 \<Rightarrow> f64 \<times> f64 \<Rightarrow> rill_error + f64" where
  "sgd_weight lr l2 wg = (case wg of (w, g) \<Rightarrow>
     let regularized = g + l2 * w; w' = w - lr * regularized in
     and_then (ensure_finite ''regularized gradient'' regularized) (\<lambda>_.
     and_then (ensure_finite ''weight'' w') (\<lambda>_. Inr w')))"

definition sgd_step :: "f64 list \<Rightarrow> f64 \<Rightarrow> f64 list \<Rightarrow> f64 \<Rightarrow> sgd \<Rightarrow> rill_error + (sgd \<times> f64 list \<times> f64)" where
  "sgd_step ws b gs g0 s =
     and_then (check_step (sg_feature_count s) ws gs g0) (\<lambda>_.
     and_then (checked_increment (sg_samples_seen s) ''SGD sample'') (\<lambda>n.
     and_then (try_map (sgd_weight (sc_learning_rate (sg_config s)) (sc_l2 (sg_config s))) (zip ws gs)) (\<lambda>ws'.
       let b' = b - sc_learning_rate (sg_config s) * g0 in
       and_then (ensure_finite ''intercept'' b') (\<lambda>_.
         Inr (s\<lparr>sg_samples_seen := n\<rparr>, ws', b')))))"

definition sgd_reset :: "sgd \<Rightarrow> sgd" where
  "sgd_reset s = s\<lparr>sg_samples_seen := 0\<rparr>"

definition sgd_validate_state :: "sgd \<Rightarrow> rill_error + unit" where
  "sgd_validate_state s = sgd_check (sg_feature_count s) (sg_config s)"

section \<open>AdaGrad\<close>

record adagrad_config =
  ac_learning_rate :: f64
  ac_l2 :: f64
  ac_epsilon :: f64

definition adagrad_config_default :: adagrad_config where
  "adagrad_config_default = \<lparr>ac_learning_rate = f_of_rat (1 / 10), ac_l2 = 0, ac_epsilon = f_of_rat (1 / 10 ^ 8)\<rparr>"

record adagrad =
  ag_feature_count :: usize
  ag_config :: adagrad_config
  ag_sq_weights :: "f64 list"
  ag_sq_intercept :: f64
  ag_samples_seen :: u64

definition adagrad_check :: "usize \<Rightarrow> adagrad_config \<Rightarrow> rill_error + unit" where
  "adagrad_check feature_count c =
     and_then (ensure (feature_count \<noteq> 0) EmptyFeatures) (\<lambda>_.
     and_then (ensure_finite ''learning_rate'' (ac_learning_rate c)) (\<lambda>_.
     and_then (ensure_finite ''l2'' (ac_l2 c)) (\<lambda>_.
     and_then (ensure_finite ''epsilon'' (ac_epsilon c)) (\<lambda>_.
     and_then (ensure (\<not> ac_learning_rate c \<le> 0) (InvalidLearningRate (ac_learning_rate c))) (\<lambda>_.
     and_then (ensure (\<not> ac_l2 c < 0) (InvalidParameter ''l2'' (ac_l2 c))) (\<lambda>_.
       ensure (\<not> ac_epsilon c \<le> 0) (InvalidParameter ''epsilon'' (ac_epsilon c))))))))"

definition adagrad_new :: "usize \<Rightarrow> adagrad_config \<Rightarrow> rill_error + adagrad" where
  "adagrad_new feature_count c = and_then (adagrad_check feature_count c) (\<lambda>_.
     Inr \<lparr>ag_feature_count = feature_count, ag_config = c, ag_sq_weights = replicate feature_count 0,
          ag_sq_intercept = 0, ag_samples_seen = 0\<rparr>)"

text \<open>
  One weight, with its accumulator: the labels are the names in the error messages. The accumulators
  have one entry for each weight in every state that \<open>new\<close> builds or \<open>validate_state\<close> accepts.
\<close>

definition adagrad_weight :: "adagrad_config \<Rightarrow> f64 \<times> f64 \<times> f64 \<Rightarrow> rill_error + (f64 \<times> f64)" where
  "adagrad_weight c awg = (case awg of (a, w, g) \<Rightarrow>
     let sq = g * g in
     and_then (ensure_finite ''squared gradient'' sq) (\<lambda>_.
     and_then (checked_finite_add a sq ''AdaGrad accumulator'') (\<lambda>a'.
       let scale = f_sqrt (a' + ac_epsilon c) in
       and_then (ensure_finite ''AdaGrad scale'' scale) (\<lambda>_.
         let regularized = g + ac_l2 c * w in
         and_then (ensure_finite ''regularized gradient'' regularized) (\<lambda>_.
           let w' = w - ac_learning_rate c / scale * regularized in
           and_then (ensure_finite ''weight'' w') (\<lambda>_. Inr (a', w')))))))"

definition adagrad_step ::
    "f64 list \<Rightarrow> f64 \<Rightarrow> f64 list \<Rightarrow> f64 \<Rightarrow> adagrad \<Rightarrow> rill_error + (adagrad \<times> f64 list \<times> f64)" where
  "adagrad_step ws b gs g0 s =
     and_then (check_step (ag_feature_count s) ws gs g0) (\<lambda>_.
     and_then (checked_increment (ag_samples_seen s) ''AdaGrad sample'') (\<lambda>n.
     and_then (try_map (adagrad_weight (ag_config s)) (zip (ag_sq_weights s) (zip ws gs))) (\<lambda>aws.
       let sq = g0 * g0 in
       and_then (ensure_finite ''squared intercept gradient'' sq) (\<lambda>_.
       and_then (checked_finite_add (ag_sq_intercept s) sq ''AdaGrad intercept accumulator'') (\<lambda>a0.
         let scale = f_sqrt (a0 + ac_epsilon (ag_config s)) in
         and_then (ensure_finite ''AdaGrad intercept scale'' scale) (\<lambda>_.
           let b' = b - ac_learning_rate (ag_config s) / scale * g0 in
           and_then (ensure_finite ''intercept'' b') (\<lambda>_.
             Inr (s\<lparr>ag_sq_weights := map fst aws, ag_sq_intercept := a0, ag_samples_seen := n\<rparr>,
                  map snd aws, b'))))))))"

definition adagrad_reset :: "adagrad \<Rightarrow> adagrad" where
  "adagrad_reset s = s\<lparr>ag_sq_weights := map (\<lambda>_. 0) (ag_sq_weights s), ag_sq_intercept := 0, ag_samples_seen := 0\<rparr>"

definition check_accumulator :: "f64 \<Rightarrow> rill_error + unit" where
  "check_accumulator g =
     and_then (ensure_finite ''grad_sq_weights'' g) (\<lambda>_.
       if g < 0 then Inl (InvalidState (''adagrad grad_sq_weights must be non-negative, got '' @ f64_to_string g))
       else Inr ())"

definition adagrad_validate_state :: "adagrad \<Rightarrow> rill_error + unit" where
  "adagrad_validate_state s =
     and_then (adagrad_check (ag_feature_count s) (ag_config s)) (\<lambda>_.
       if length (ag_sq_weights s) \<noteq> ag_feature_count s
       then Inl (InvalidState (''adagrad grad_sq_weights length '' @ decimal (length (ag_sq_weights s))
                   @ '' does not match feature_count '' @ decimal (ag_feature_count s)))
       else and_then (ensure_finite ''grad_sq_intercept'' (ag_sq_intercept s)) (\<lambda>_.
            and_then (try_for_each check_accumulator (ag_sq_weights s)) (\<lambda>_.
              if ag_sq_intercept s < 0
              then Inl (InvalidState (''adagrad grad_sq_intercept must be non-negative, got ''
                          @ f64_to_string (ag_sq_intercept s)))
              else Inr ())))"

section \<open>The optimizer enum\<close>

datatype optimizer = Sgd sgd | AdaGrad adagrad

definition optimizer_sgd :: "usize \<Rightarrow> sgd_config \<Rightarrow> rill_error + optimizer" where
  "optimizer_sgd n c = and_then (sgd_new n c) (\<lambda>o'. Inr (Sgd o'))"

definition optimizer_adagrad :: "usize \<Rightarrow> adagrad_config \<Rightarrow> rill_error + optimizer" where
  "optimizer_adagrad n c = and_then (adagrad_new n c) (\<lambda>o'. Inr (AdaGrad o'))"

fun param_count :: "optimizer \<Rightarrow> usize" where
  "param_count (Sgd s) = sg_feature_count s + 1"
| "param_count (AdaGrad s) = ag_feature_count s + 1"

fun optimizer_samples :: "optimizer \<Rightarrow> u64" where
  "optimizer_samples (Sgd s) = sg_samples_seen s"
| "optimizer_samples (AdaGrad s) = ag_samples_seen s"

fun optimizer_step ::
    "f64 list \<Rightarrow> f64 \<Rightarrow> f64 list \<Rightarrow> f64 \<Rightarrow> optimizer \<Rightarrow> rill_error + (optimizer \<times> f64 list \<times> f64)" where
  "optimizer_step ws b gs g0 (Sgd s) =
     and_then (sgd_step ws b gs g0 s) (\<lambda>(s', ws', b'). Inr (Sgd s', ws', b'))"
| "optimizer_step ws b gs g0 (AdaGrad s) =
     and_then (adagrad_step ws b gs g0 s) (\<lambda>(s', ws', b'). Inr (AdaGrad s', ws', b'))"

fun optimizer_reset :: "optimizer \<Rightarrow> optimizer" where
  "optimizer_reset (Sgd s) = Sgd (sgd_reset s)"
| "optimizer_reset (AdaGrad s) = AdaGrad (adagrad_reset s)"

fun optimizer_validate_state :: "optimizer \<Rightarrow> rill_error + unit" where
  "optimizer_validate_state (Sgd s) = sgd_validate_state s"
| "optimizer_validate_state (AdaGrad s) = adagrad_validate_state s"

section \<open>Facts on steps\<close>

lemma times_one [simp]: "x * 1 = (x :: f64)"
proof transfer
  fix x assume c: "canonical x"
  show "fp_times x (FFin 1) = x"
    using c by (cases x) (auto simp: fp_times_def fp_round_def fp_zero_def Let_def)
qed

lemma square_nonneg: "is_finite (g * g) \<Longrightarrow> 0 \<le> f_val (g * g)"
  by (simp add: f_val_times rnd_pos)

lemma sum_nonneg: "is_finite (a + b) \<Longrightarrow> 0 \<le> f_val a \<Longrightarrow> 0 \<le> f_val b \<Longrightarrow> 0 \<le> f_val (a + b)"
  by (simp add: f_val_plus rnd_pos)

lemma check_step_Inr [result_simps]:
  "check_step n ws gs g0 = Inr u \<longleftrightarrow> length ws = n \<and> length gs = n \<and> (\<forall>g \<in> set gs. is_finite g) \<and> is_finite g0"
  by (auto simp: check_step_def result_simps)

lemma sgd_step_finite:
  assumes "sgd_step ws b gs g0 s = Inr (s', ws', b')"
  shows "length ws' = length ws \<and> list_all is_finite ws' \<and> is_finite b'
    \<and> sg_feature_count s' = sg_feature_count s \<and> sg_config s' = sg_config s"
proof -
  have l: "length ws = sg_feature_count s" "length gs = sg_feature_count s"
    and w: "list_all2 (\<lambda>wg w'. sgd_weight (sc_learning_rate (sg_config s)) (sc_l2 (sg_config s)) wg = Inr w') (zip ws gs) ws'"
    and r: "is_finite b'" "sg_feature_count s' = sg_feature_count s" "sg_config s' = sg_config s"
    using assms by (auto simp: sgd_step_def result_simps Let_def)
  have "is_finite w'" if "w' \<in> set ws'" for w'
    using w that by (rule list_all2_right) (auto simp: sgd_weight_def result_simps Let_def split: prod.splits)
  then show ?thesis using l r list_all2_lengthD [OF w] by (simp add: list_all_iff)
qed

lemma adagrad_weight_Inr:
  "adagrad_weight c (a, w, g) = Inr (a', w') \<Longrightarrow> is_finite a' \<and> is_finite w' \<and> (0 \<le> f_val a \<longrightarrow> 0 \<le> f_val a')"
  by (auto simp: adagrad_weight_def result_simps Let_def square_nonneg sum_nonneg)

lemma adagrad_step_ok:
  assumes "adagrad_step ws b gs g0 s = Inr (s', ws', b')" "adagrad_validate_state s = Inr ()"
  shows "adagrad_validate_state s' = Inr () \<and> length ws' = length ws \<and> list_all is_finite ws' \<and> is_finite b'
    \<and> ag_feature_count s' = ag_feature_count s"
proof -
  have v: "adagrad_check (ag_feature_count s) (ag_config s) = Inr ()" "length (ag_sq_weights s) = ag_feature_count s"
    "is_finite (ag_sq_intercept s)" "0 \<le> f_val (ag_sq_intercept s)" "\<forall>a \<in> set (ag_sq_weights s). is_finite a \<and> 0 \<le> f_val a"
    using assms(2) by (auto simp: adagrad_validate_state_def result_simps check_accumulator_def less_finite not_less split: if_splits)
  obtain aws where l: "length ws = ag_feature_count s" "length gs = ag_feature_count s"
    and w: "list_all2 (\<lambda>x y. adagrad_weight (ag_config s) x = Inr y) (zip (ag_sq_weights s) (zip ws gs)) aws"
    and ws': "ws' = map snd aws" and r: "is_finite b'" "is_finite (g0 * g0)" "is_finite (ag_sq_intercept s + g0 * g0)"
    and s': "ag_sq_weights s' = map fst aws" "ag_sq_intercept s' = ag_sq_intercept s + g0 * g0"
      "ag_feature_count s' = ag_feature_count s" "ag_config s' = ag_config s"
    using assms(1) by (auto simp: adagrad_step_def result_simps Let_def)
  have len: "length aws = length ws" using list_all2_lengthD [OF w] l v(2) by simp
  have each: "is_finite a \<and> is_finite w \<and> \<not> f_val a < 0" if y: "(a, w) \<in> set aws" for a w
    using w y
  proof (rule list_all2_right)
    fix x assume x: "x \<in> set (zip (ag_sq_weights s) (zip ws gs))" "adagrad_weight (ag_config s) x = Inr (a, w)"
    obtain a0 w0 g where "x = (a0, w0, g)" by (metis prod_cases3)
    moreover from this have "a0 \<in> set (ag_sq_weights s)" using x(1) set_zip_leftD by fast
    ultimately show "is_finite a \<and> is_finite w \<and> \<not> f_val a < 0" using adagrad_weight_Inr x(2) v(5) by fastforce
  qed
  have "0 \<le> f_val (ag_sq_intercept s')" using v(4) r s'(2) by (simp add: square_nonneg sum_nonneg)
  then show ?thesis
    using v each len l r s' ws'
    by (auto simp: adagrad_validate_state_def result_simps check_accumulator_def less_finite list_all_iff)
qed

lemma optimizer_step_ok:
  assumes "optimizer_step ws b gs g0 o' = Inr (o'', ws', b')" "optimizer_validate_state o' = Inr ()"
  shows "optimizer_validate_state o'' = Inr () \<and> param_count o'' = param_count o' \<and> length ws' = length ws
    \<and> list_all is_finite ws' \<and> is_finite b'"
proof (cases o')
  case (Sgd s)
  then obtain s' where s': "sgd_step ws b gs g0 s = Inr (s', ws', b')" "o'' = Sgd s'"
    using assms(1) by (auto simp: and_then_Inr)
  then show ?thesis using assms(2) Sgd sgd_step_finite [OF s'(1)] by (simp add: sgd_validate_state_def)
next
  case (AdaGrad s)
  then obtain s' where s': "adagrad_step ws b gs g0 s = Inr (s', ws', b')" "o'' = AdaGrad s'"
    using assms(1) by (auto simp: and_then_Inr)
  then show ?thesis using assms(2) AdaGrad adagrad_step_ok [OF s'(1)] by simp
qed

lemma optimizer_reset_ok:
  "optimizer_validate_state o' = Inr () \<Longrightarrow>
   optimizer_validate_state (optimizer_reset o') = Inr () \<and> param_count (optimizer_reset o') = param_count o'"
  by (cases o') (auto simp: sgd_validate_state_def sgd_reset_def adagrad_validate_state_def adagrad_reset_def
      result_simps check_accumulator_def less_finite split: if_splits)

lemma sigmoid_in_unit:
  assumes "exp_contract libexp" "is_finite z"
  shows "in_unit (sigmoid libexp z)"
proof -
  have q: "in_unit (x / (1 + e))" if x: "is_finite x" "0 \<le> f_val x" "f_val x \<le> 1" "f_val x \<le> 1 + f_val e" and e: "in_unit e" for x e
  proof -
    have b: "0 \<le> f_val e" "f_val e \<le> 1" "is_finite e" using e by (simp_all add: in_unit_def)
    have r: "\<bar>rnd (1 + f_val e)\<bar> \<le> 2" using b rnd_of_int [of 2] by (intro rnd_abs_le) simp_all
    then have "\<not> overflows (rnd (1 + f_val e))" by (intro overflows_small [of _ 1]) simp_all
    then have f: "is_finite (1 + e)" using b by (simp add: finite_plus)
    have one: "1 \<le> f_val (1 + e)" using b rnd_lower [of 1 "1 + f_val e"] rnd_of_int [of 1] by (simp add: f_val_plus [OF f])
    have "0 \<le> f_val x / f_val (1 + e)" "f_val x / f_val (1 + e) \<le> 1" using one x by (simp_all add: divide_le_eq)
    then have u: "0 \<le> rnd (f_val x / f_val (1 + e))" "rnd (f_val x / f_val (1 + e)) \<le> 1"
      using rnd_pos rnd_upper [of 1] rnd_of_int [of 1] by simp_all
    then have d: "is_finite (x / (1 + e))" using x f one by (simp add: finite_divide not_overflows_le_1)
    show ?thesis using u by (simp add: in_unit_def d f_val_divide [OF d f])
  qed
  show ?thesis
  proof (cases "0 \<le> z")
    case True
    then have "in_unit (libexp (- z))" using assms by (simp add: exp_contract_def less_eq_finite)
    then show ?thesis using q [of 1 "libexp (- z)"] True by (simp add: sigmoid_def in_unit_def)
  next
    case False
    then have "in_unit (libexp z)" using assms by (simp add: exp_contract_def less_eq_finite)
    then show ?thesis using q [of "libexp z" "libexp z"] False by (simp add: sigmoid_def in_unit_def Let_def)
  qed
qed

end
