(* ===== verification/Weighted.thy ===== *)
theory Weighted imports Machine Rill_Error F64_Step begin

text \<open>
  Weighted statistics and metrics of \<open>src/weighted.rs\<close>. A zero weight is accepted and changes
  nothing. The function \<open>powf\<close> of the platform is a parameter.
\<close>

definition validate_weight :: "f64 \<Rightarrow> rill_error + unit" where
  "validate_weight w =
     and_then (ensure_finite ''weight'' w) (\<lambda>_.
       if w < 0 then Inl (InvalidParameter ''weight'' w) else Inr ())"

text \<open>Value and weight are checked, then a zero weight returns early.\<close>

definition weighted_guard :: "f64 \<Rightarrow> f64 \<Rightarrow> 's \<Rightarrow> rill_error + 's \<Rightarrow> (rill_error + unit) \<times> 's" where
  "weighted_guard v w s next_state = transact s
     (and_then (ensure_finite ''value'' v) (\<lambda>_.
      and_then (validate_weight w) (\<lambda>_. if feq w 0 then Inr s else next_state)))"

record weighted_mean =
  wm_total_weight :: f64
  wm_mean :: f64
  wm_samples_seen :: u64

definition weighted_mean_new :: weighted_mean where
  "weighted_mean_new = \<lparr>wm_total_weight = 0, wm_mean = 0, wm_samples_seen = 0\<rparr>"

definition weighted_mean_value :: "weighted_mean \<Rightarrow> f64 option" where
  "weighted_mean_value s = (if 0 < wm_total_weight s then Some (wm_mean s) else None)"

definition weighted_mean_update :: "f64 \<times> f64 \<Rightarrow> weighted_mean \<Rightarrow> (rill_error + unit) \<times> weighted_mean" where
  "weighted_mean_update vw s = (case vw of (v, w) \<Rightarrow> weighted_guard v w s
     (and_then (checked_finite_add (wm_total_weight s) w ''total weight'') (\<lambda>tw.
        let delta = v - wm_mean s in
        and_then (ensure_finite ''weighted mean delta'' delta) (\<lambda>_.
          let mean = wm_mean s + delta * (w / tw) in
          and_then (ensure_finite ''weighted mean'' mean) (\<lambda>_.
          and_then (checked_increment (wm_samples_seen s) ''weighted mean sample'') (\<lambda>n.
            Inr (s\<lparr>wm_total_weight := tw, wm_mean := mean, wm_samples_seen := n\<rparr>)))))))"

definition weighted_mean_reset :: "weighted_mean \<Rightarrow> weighted_mean" where
  "weighted_mean_reset s = weighted_mean_new"

record weighted_variance =
  wv_total_weight :: f64
  wv_mean :: f64
  wv_m2 :: f64
  wv_samples_seen :: u64

definition weighted_variance_new :: weighted_variance where
  "weighted_variance_new = \<lparr>wv_total_weight = 0, wv_mean = 0, wv_m2 = 0, wv_samples_seen = 0\<rparr>"

definition weighted_variance_mean :: "weighted_variance \<Rightarrow> f64 option" where
  "weighted_variance_mean s = (if 0 < wv_total_weight s then Some (wv_mean s) else None)"

definition weighted_variance_value :: "weighted_variance \<Rightarrow> f64 option" where
  "weighted_variance_value s = (if 0 < wv_total_weight s then Some (wv_m2 s / wv_total_weight s) else None)"

definition f_epsilon :: f64 where "f_epsilon = f_of_rat (1 / 2 ^ 52)"

definition weighted_variance_update ::
    "f64 \<times> f64 \<Rightarrow> weighted_variance \<Rightarrow> (rill_error + unit) \<times> weighted_variance" where
  "weighted_variance_update vw s = (case vw of (v, w) \<Rightarrow> weighted_guard v w s
     (and_then (checked_finite_add (wv_total_weight s) w ''total weight'') (\<lambda>tw.
        let delta = v - wv_mean s in
        and_then (ensure_finite ''weighted variance delta'' delta) (\<lambda>_.
          let ratio = w / tw; mean = wv_mean s + ratio * delta in
          and_then (ensure_finite ''weighted variance mean'' mean) (\<lambda>_.
            let m2_delta = w * delta * (v - mean) in
            and_then (ensure_finite ''weighted variance m2 delta'' m2_delta) (\<lambda>_.
            and_then (checked_finite_add (wv_m2 s) m2_delta ''weighted variance m2'') (\<lambda>m2.
              if m2 < - f_epsilon * f_max tw 1
              then Inl (InvalidState ''weighted variance became negative'')
              else and_then (checked_increment (wv_samples_seen s) ''weighted variance sample'') (\<lambda>n.
                Inr (s\<lparr>wv_total_weight := tw, wv_mean := mean, wv_m2 := f_max m2 0, wv_samples_seen := n\<rparr>))))))))) "

definition weighted_variance_reset :: "weighted_variance \<Rightarrow> weighted_variance" where
  "weighted_variance_reset s = weighted_variance_new"

record weighted_ew_mean =
  we_alpha :: f64
  we_total_weight :: f64
  we_mean :: f64
  we_samples_seen :: u64

definition weighted_ew_new :: "f64 \<Rightarrow> rill_error + weighted_ew_mean" where
  "weighted_ew_new alpha =
     and_then (ensure_finite ''alpha'' alpha) (\<lambda>_.
       if \<not> (0 < alpha \<and> alpha \<le> 1) then Inl (InvalidParameter ''alpha'' alpha)
       else Inr \<lparr>we_alpha = alpha, we_total_weight = 0, we_mean = 0, we_samples_seen = 0\<rparr>)"

definition weighted_ew_value :: "weighted_ew_mean \<Rightarrow> f64 option" where
  "weighted_ew_value s = (if 0 < we_total_weight s then Some (we_mean s) else None)"

definition weighted_ew_next :: "(f64 \<Rightarrow> f64 \<Rightarrow> f64) \<Rightarrow> f64 \<Rightarrow> f64 \<Rightarrow> weighted_ew_mean \<Rightarrow> rill_error + f64" where
  "weighted_ew_next powf v w s =
     (if feq (we_total_weight s) 0 then Inr v
      else let effective = 1 - powf (1 - we_alpha s) w in
        and_then (ensure_finite ''effective alpha'' effective) (\<lambda>_.
          Inr (we_mean s + effective * (v - we_mean s))))"

definition weighted_ew_update ::
    "(f64 \<Rightarrow> f64 \<Rightarrow> f64) \<Rightarrow> f64 \<times> f64 \<Rightarrow> weighted_ew_mean \<Rightarrow> (rill_error + unit) \<times> weighted_ew_mean" where
  "weighted_ew_update powf vw s = (case vw of (v, w) \<Rightarrow> weighted_guard v w s
     (and_then (checked_finite_add (we_total_weight s) w ''total weight'') (\<lambda>tw.
      and_then (checked_increment (we_samples_seen s) ''weighted EW mean sample'') (\<lambda>n.
      and_then (weighted_ew_next powf v w s) (\<lambda>mean.
      and_then (ensure_finite ''weighted EW mean'' mean) (\<lambda>_.
        Inr (s\<lparr>we_total_weight := tw, we_samples_seen := n, we_mean := mean\<rparr>)))))))"

definition weighted_ew_reset :: "weighted_ew_mean \<Rightarrow> weighted_ew_mean" where
  "weighted_ew_reset s = s\<lparr>we_total_weight := 0, we_mean := 0, we_samples_seen := 0\<rparr>"

section \<open>Weighted errors\<close>

definition weighted_mae_update ::
    "f64 \<times> f64 \<times> f64 \<Rightarrow> weighted_mean \<Rightarrow> (rill_error + unit) \<times> weighted_mean" where
  "weighted_mae_update tpw s = (case tpw of (truth, prediction, w) \<Rightarrow>
     let e = \<bar>truth - prediction\<bar> in
     (case and_then (ensure_finite ''truth'' truth) (\<lambda>_.
           and_then (ensure_finite ''prediction'' prediction) (\<lambda>_. ensure_finite ''absolute error'' e)) of
        Inl err \<Rightarrow> (Inl err, s)
      | Inr _ \<Rightarrow> weighted_mean_update (e, w) s))"

definition weighted_mse_update ::
    "f64 \<times> f64 \<times> f64 \<Rightarrow> weighted_mean \<Rightarrow> (rill_error + unit) \<times> weighted_mean" where
  "weighted_mse_update tpw s = (case tpw of (truth, prediction, w) \<Rightarrow>
     let e = truth - prediction; sq = e * e in
     (case and_then (ensure_finite ''truth'' truth) (\<lambda>_.
           and_then (ensure_finite ''prediction'' prediction) (\<lambda>_. ensure_finite ''squared error'' sq)) of
        Inl err \<Rightarrow> (Inl err, s)
      | Inr _ \<Rightarrow> weighted_mean_update (sq, w) s))"

section \<open>Validation\<close>

definition validate_weighted_moments :: "f64 \<Rightarrow> u64 \<Rightarrow> (string \<times> f64) list \<Rightarrow> rill_error + unit" where
  "validate_weighted_moments tw n vs =
     and_then (ensure_finite ''total weight'' tw) (\<lambda>_.
       if tw < 0 \<or> (n = 0) \<noteq> feq tw 0
       then Inl (InvalidState ''weighted state has inconsistent count and total weight'')
       else try_for_each (\<lambda>(name, v). ensure_finite name v) vs)"

definition weighted_mean_validate_state :: "weighted_mean \<Rightarrow> rill_error + unit" where
  "weighted_mean_validate_state s =
     validate_weighted_moments (wm_total_weight s) (wm_samples_seen s) [(''mean'', wm_mean s)]"

definition weighted_variance_validate_state :: "weighted_variance \<Rightarrow> rill_error + unit" where
  "weighted_variance_validate_state s =
     and_then (validate_weighted_moments (wv_total_weight s) (wv_samples_seen s)
                 [(''mean'', wv_mean s), (''m2'', wv_m2 s)]) (\<lambda>_.
       if wv_m2 s < 0 then Inl (InvalidState ''weighted variance m2 must be non-negative'') else Inr ())"

definition weighted_ew_validate_state :: "weighted_ew_mean \<Rightarrow> rill_error + unit" where
  "weighted_ew_validate_state s =
     (if \<not> (is_finite (we_alpha s) \<and> 0 < we_alpha s \<and> we_alpha s \<le> 1)
      then Inl (InvalidState ''weighted EW mean alpha must be in (0, 1]'')
      else validate_weighted_moments (we_total_weight s) (we_samples_seen s) [(''mean'', we_mean s)])"

section \<open>Reachable states pass validation\<close>

lemma validate_weight_Inr [result_simps]: "validate_weight w = Inr u \<longleftrightarrow> is_finite w \<and> 0 \<le> f_val w"
  by (auto simp: validate_weight_def result_simps less_finite not_less split: if_splits)

lemma weighted_guard_Inr [result_simps]:
  "weighted_guard v w s nx = (Inr u, s') \<longleftrightarrow> is_finite v \<and> is_finite w \<and> 0 \<le> f_val w
     \<and> (if f_val w = 0 then s' = s else nx = Inr s')"
  by (auto simp: weighted_guard_def result_simps feq_finite)

lemma weighted_guard_Inl: "weighted_guard v w s nx = (Inl e, s') \<Longrightarrow> s' = s"
  by (simp add: weighted_guard_def transact_Inl)

lemma validate_weighted_moments_Inr [result_simps]:
  "validate_weighted_moments tw n vs = Inr u \<longleftrightarrow> is_finite tw \<and> 0 \<le> f_val tw \<and> (n = 0 \<longleftrightarrow> f_val tw = 0)
     \<and> list_all (\<lambda>(m, v). is_finite v) vs"
  by (auto simp: validate_weighted_moments_def result_simps less_finite feq_finite not_less list_all_iff split: if_splits)

text \<open>A positive weight keeps the total positive.\<close>

lemma total_pos: "is_finite (t + w) \<Longrightarrow> 0 \<le> f_val t \<Longrightarrow> 0 < f_val w \<Longrightarrow> 0 < f_val (t + w)"
proof -
  assume a: "is_finite (t + w)" "0 \<le> f_val t" "0 < f_val w"
  have "f_val w \<le> rnd (f_val t + f_val w)" using a(2) by (intro rnd_lower) simp_all
  then show ?thesis using a by (simp add: f_val_plus)
qed

interpretation weighted_mean: atomic_machine weighted_mean_update "\<lambda>s. weighted_mean_validate_state s = Inr ()"
proof unfold_locales
  show "weighted_mean_update x s = (Inl e, s') \<Longrightarrow> s' = s" for x s e s'
    by (auto simp: weighted_mean_update_def dest: weighted_guard_Inl split: prod.splits)
  show "weighted_mean_validate_state s = Inr () \<Longrightarrow> weighted_mean_update x s = (Inr r, s') \<Longrightarrow> weighted_mean_validate_state s' = Inr ()"
    for s x r s'
    using total_pos [of "wm_total_weight s" "snd x"]
    by (auto simp: weighted_mean_update_def weighted_mean_validate_state_def result_simps Let_def inc_nz split: prod.splits if_splits)
qed

interpretation weighted_variance: atomic_machine weighted_variance_update "\<lambda>s. weighted_variance_validate_state s = Inr ()"
proof unfold_locales
  show "weighted_variance_update x s = (Inl e, s') \<Longrightarrow> s' = s" for x s e s'
    by (auto simp: weighted_variance_update_def dest: weighted_guard_Inl split: prod.splits)
  show "weighted_variance_validate_state s = Inr () \<Longrightarrow> weighted_variance_update x s = (Inr r, s') \<Longrightarrow>
    weighted_variance_validate_state s' = Inr ()" for s x r s'
    using total_pos [of "wv_total_weight s" "snd x"]
    by (auto simp: weighted_variance_update_def weighted_variance_validate_state_def result_simps Let_def inc_nz
        f_max_finite f_val_max less_finite split: prod.splits if_splits)
qed

interpretation weighted_ew: atomic_machine "weighted_ew_update powf" "\<lambda>s. weighted_ew_validate_state s = Inr ()" for powf
proof unfold_locales
  show "weighted_ew_update powf x s = (Inl e, s') \<Longrightarrow> s' = s" for x s e s'
    by (auto simp: weighted_ew_update_def dest: weighted_guard_Inl split: prod.splits)
  show "weighted_ew_validate_state s = Inr () \<Longrightarrow> weighted_ew_update powf x s = (Inr r, s') \<Longrightarrow> weighted_ew_validate_state s' = Inr ()"
    for s x r s'
    using total_pos [of "we_total_weight s" "snd x"]
    by (auto simp: weighted_ew_update_def weighted_ew_validate_state_def result_simps Let_def inc_nz split: prod.splits if_splits)
qed

interpretation weighted_mae: atomic_machine weighted_mae_update "\<lambda>s. weighted_mean_validate_state s = Inr ()"
  by unfold_locales (auto simp: weighted_mae_update_def Let_def split: prod.splits sum.splits
      dest: weighted_mean.error_unchanged intro: weighted_mean.step_inv)

interpretation weighted_mse: atomic_machine weighted_mse_update "\<lambda>s. weighted_mean_validate_state s = Inr ()"
  by unfold_locales (auto simp: weighted_mse_update_def Let_def split: prod.splits sum.splits
      dest: weighted_mean.error_unchanged intro: weighted_mean.step_inv)

end
