(* ===== verification/Linear_Models.thy ===== *)
theory Linear_Models imports Optim Weighted Stats begin

text \<open>
  The dense models of \<open>src/models\<close>: linear regression, logistic regression and the baseline
  regressors, with the traits \<open>OnlineRegressor\<close> and \<open>OnlineBinaryClassifier\<close> of \<open>src/traits.rs\<close> as
  interpretations of \<open>counted_machine\<close>. The exponential of the platform is the parameter \<open>libexp\<close>.
\<close>

section \<open>What the linear models share\<close>

text \<open>The dot product and intercept, every partial result checked.\<close>

definition linear_score :: "string \<Rightarrow> string \<Rightarrow> f64 list \<Rightarrow> f64 \<Rightarrow> f64 list \<Rightarrow> rill_error + f64" where
  "linear_score term_label label ws b xs =
     and_then (try_fold (\<lambda>s wx. case wx of (w, x) \<Rightarrow>
                 let t = w * x in
                 and_then (ensure_finite term_label t) (\<lambda>_. checked_finite_add s t label)) 0 (zip ws xs)) (\<lambda>dot.
       checked_finite_add dot b label)"

definition feature_gradient :: "string \<Rightarrow> f64 \<Rightarrow> f64 list \<Rightarrow> rill_error + f64 list" where
  "feature_gradient label grad xs =
     try_map (\<lambda>x. let g = grad * x in and_then (ensure_finite label g) (\<lambda>_. Inr g)) xs"

definition check_linear_state :: "string \<Rightarrow> usize \<Rightarrow> f64 list \<Rightarrow> f64 \<Rightarrow> optimizer \<Rightarrow> rill_error + unit" where
  "check_linear_state model n ws b opt =
     (if n = 0 then Inl EmptyFeatures
      else if length ws \<noteq> n
      then Inl (InvalidState (model @ '' weights length '' @ decimal (length ws)
                  @ '' does not match feature_count '' @ decimal n))
      else if param_count opt \<noteq> n + 1
      then Inl (InvalidState (model @ '' optimizer param_count '' @ decimal (param_count opt)
                  @ '' does not match feature_count+1 '' @ decimal (n + 1)))
      else and_then (ensure_finite ''intercept'' b) (\<lambda>_.
           and_then (try_for_each (ensure_finite ''weights'') ws) (\<lambda>_. optimizer_validate_state opt)))"

section \<open>Linear regression\<close>

record linear_regression_config =
  lrc_optimizer :: optimizer
  lrc_loss :: regression_loss

record linear_regression =
  lr_feature_count :: usize
  lr_weights :: "f64 list"
  lr_intercept :: f64
  lr_optimizer :: optimizer
  lr_loss :: regression_loss
  lr_samples_seen :: u64

definition linear_regression_new :: "usize \<Rightarrow> linear_regression_config \<Rightarrow> rill_error + linear_regression" where
  "linear_regression_new n c =
     (if n = 0 then Inl EmptyFeatures
      else if param_count (lrc_optimizer c) \<noteq> n + 1
      then Inl (DimensionMismatch (n + 1) (param_count (lrc_optimizer c)))
      else Inr \<lparr>lr_feature_count = n, lr_weights = replicate n 0, lr_intercept = 0,
                lr_optimizer = lrc_optimizer c, lr_loss = lrc_loss c, lr_samples_seen = 0\<rparr>)"

definition linear_regression_predict :: "linear_regression \<Rightarrow> f64 list \<Rightarrow> rill_error + f64" where
  "linear_regression_predict m xs =
     and_then (validate_features (lr_feature_count m) xs) (\<lambda>_.
       linear_score ''linear prediction term'' ''linear prediction'' (lr_weights m) (lr_intercept m) xs)"

definition linear_regression_apply ::
    "f64 list \<Rightarrow> f64 \<Rightarrow> u64 \<Rightarrow> linear_regression \<Rightarrow> rill_error + linear_regression" where
  "linear_regression_apply gs grad n m =
     and_then (optimizer_step (lr_weights m) (lr_intercept m) gs grad (lr_optimizer m)) (\<lambda>(opt, ws, b).
       Inr (m\<lparr>lr_optimizer := opt, lr_weights := ws, lr_intercept := b, lr_samples_seen := n\<rparr>))"

definition linear_regression_learn ::
    "f64 list \<times> f64 \<Rightarrow> linear_regression \<Rightarrow> (rill_error + unit) \<times> linear_regression" where
  "linear_regression_learn xy m = (case xy of (xs, target) \<Rightarrow> transact m
     (and_then (validate_features (lr_feature_count m) xs) (\<lambda>_.
      and_then (ensure_finite_target target) (\<lambda>_.
      and_then (checked_increment (lr_samples_seen m) ''linear regression sample'') (\<lambda>n.
      and_then (linear_regression_predict m xs) (\<lambda>prediction.
        let grad = regression_gradient (lr_loss m) prediction target in
        and_then (ensure_finite ''loss gradient'' grad) (\<lambda>_.
        and_then (feature_gradient ''weight gradient'' grad xs) (\<lambda>gs.
          linear_regression_apply gs grad n m))))))))"

definition linear_regression_learn_weighted ::
    "f64 list \<times> f64 \<times> f64 \<Rightarrow> linear_regression \<Rightarrow> (rill_error + unit) \<times> linear_regression" where
  "linear_regression_learn_weighted xyw m = (case xyw of (xs, target, weight) \<Rightarrow> transact m
     (and_then (validate_weight weight) (\<lambda>_.
      and_then (validate_features (lr_feature_count m) xs) (\<lambda>_.
      and_then (ensure_finite_target target) (\<lambda>_.
        if feq weight 0 then Inr m
        else and_then (checked_increment (lr_samples_seen m) ''linear regression sample'') (\<lambda>n.
             and_then (linear_regression_predict m xs) (\<lambda>prediction.
               let grad = regression_gradient (lr_loss m) prediction target * weight in
               and_then (ensure_finite ''weighted loss gradient'' grad) (\<lambda>_.
               and_then (feature_gradient ''weighted weight gradient'' grad xs) (\<lambda>gs.
                 linear_regression_apply gs grad n m))))))))) "

definition linear_regression_reset :: "linear_regression \<Rightarrow> linear_regression" where
  "linear_regression_reset m =
     m\<lparr>lr_weights := map (\<lambda>_. 0) (lr_weights m), lr_intercept := 0,
       lr_optimizer := optimizer_reset (lr_optimizer m), lr_samples_seen := 0\<rparr>"

definition linear_regression_validate_state :: "linear_regression \<Rightarrow> rill_error + unit" where
  "linear_regression_validate_state m =
     check_linear_state ''linear regression'' (lr_feature_count m) (lr_weights m) (lr_intercept m) (lr_optimizer m)"

section \<open>Logistic regression\<close>

record logistic_regression_config =
  lgc_optimizer :: optimizer
  lgc_loss :: binary_log_loss

record logistic_regression =
  lg_feature_count :: usize
  lg_weights :: "f64 list"
  lg_intercept :: f64
  lg_optimizer :: optimizer
  lg_loss :: binary_log_loss
  lg_samples_seen :: u64

definition logistic_regression_new :: "usize \<Rightarrow> logistic_regression_config \<Rightarrow> rill_error + logistic_regression" where
  "logistic_regression_new n c =
     (if n = 0 then Inl EmptyFeatures
      else if param_count (lgc_optimizer c) \<noteq> n + 1
      then Inl (DimensionMismatch (n + 1) (param_count (lgc_optimizer c)))
      else Inr \<lparr>lg_feature_count = n, lg_weights = replicate n 0, lg_intercept = 0,
                lg_optimizer = lgc_optimizer c, lg_loss = lgc_loss c, lg_samples_seen = 0\<rparr>)"

definition logit :: "logistic_regression \<Rightarrow> f64 list \<Rightarrow> rill_error + f64" where
  "logit m xs =
     and_then (validate_features (lg_feature_count m) xs) (\<lambda>_.
       linear_score ''logit term'' ''logit'' (lg_weights m) (lg_intercept m) xs)"

definition logistic_predict_proba :: "(f64 \<Rightarrow> f64) \<Rightarrow> logistic_regression \<Rightarrow> f64 list \<Rightarrow> rill_error + f64" where
  "logistic_predict_proba libexp m xs = and_then (logit m xs) (\<lambda>z. Inr (sigmoid libexp z))"

text \<open>The provided method \<open>predict\<close> of \<open>OnlineBinaryClassifier\<close>.\<close>

definition classifier_predict :: "('m \<Rightarrow> f64 list \<Rightarrow> rill_error + f64) \<Rightarrow> 'm \<Rightarrow> f64 list \<Rightarrow> rill_error + bool" where
  "classifier_predict proba m xs = and_then (proba m xs) (\<lambda>p. Inr (f_half \<le> p))"

definition logistic_apply ::
    "f64 list \<Rightarrow> f64 \<Rightarrow> u64 \<Rightarrow> logistic_regression \<Rightarrow> rill_error + logistic_regression" where
  "logistic_apply gs grad n m =
     and_then (optimizer_step (lg_weights m) (lg_intercept m) gs grad (lg_optimizer m)) (\<lambda>(opt, ws, b).
       Inr (m\<lparr>lg_optimizer := opt, lg_weights := ws, lg_intercept := b, lg_samples_seen := n\<rparr>))"

definition logistic_learn ::
    "(f64 \<Rightarrow> f64) \<Rightarrow> f64 list \<times> bool \<Rightarrow> logistic_regression \<Rightarrow> (rill_error + unit) \<times> logistic_regression" where
  "logistic_learn libexp xy m = (case xy of (xs, target) \<Rightarrow> transact m
     (and_then (validate_features (lg_feature_count m) xs) (\<lambda>_.
      and_then (checked_increment (lg_samples_seen m) ''logistic regression sample'') (\<lambda>n.
      and_then (logit m xs) (\<lambda>z.
        let p = sigmoid libexp z; grad = gradient_wrt_logit p target in
        and_then (ensure_finite ''loss gradient'' grad) (\<lambda>_.
        and_then (feature_gradient ''weight gradient'' grad xs) (\<lambda>gs.
          logistic_apply gs grad n m)))))))"

definition logistic_learn_weighted ::
    "(f64 \<Rightarrow> f64) \<Rightarrow> f64 list \<times> bool \<times> f64 \<Rightarrow> logistic_regression \<Rightarrow> (rill_error + unit) \<times> logistic_regression" where
  "logistic_learn_weighted libexp xyw m = (case xyw of (xs, target, weight) \<Rightarrow> transact m
     (and_then (validate_weight weight) (\<lambda>_.
      and_then (validate_features (lg_feature_count m) xs) (\<lambda>_.
        if feq weight 0 then Inr m
        else and_then (checked_increment (lg_samples_seen m) ''logistic regression sample'') (\<lambda>n.
             and_then (logit m xs) (\<lambda>z.
               let p = sigmoid libexp z; grad = gradient_wrt_logit p target * weight in
               and_then (ensure_finite ''weighted loss gradient'' grad) (\<lambda>_.
               and_then (feature_gradient ''weighted weight gradient'' grad xs) (\<lambda>gs.
                 logistic_apply gs grad n m))))))))"

definition logistic_reset :: "logistic_regression \<Rightarrow> logistic_regression" where
  "logistic_reset m =
     m\<lparr>lg_weights := map (\<lambda>_. 0) (lg_weights m), lg_intercept := 0,
       lg_optimizer := optimizer_reset (lg_optimizer m), lg_samples_seen := 0\<rparr>"

definition logistic_validate_state :: "logistic_regression \<Rightarrow> rill_error + unit" where
  "logistic_validate_state m =
     check_linear_state ''logistic regression'' (lg_feature_count m) (lg_weights m) (lg_intercept m) (lg_optimizer m)"

section \<open>Baseline regressors\<close>

record baseline_config =
  bc_initial_prediction :: f64

definition baseline_config_default :: baseline_config where
  "baseline_config_default = \<lparr>bc_initial_prediction = 0\<rparr>"

definition validate_baseline_config :: "baseline_config \<Rightarrow> rill_error + unit" where
  "validate_baseline_config c = ensure_finite ''initial_prediction'' (bc_initial_prediction c)"

record mean_regressor =
  mr_config :: baseline_config
  mr_mean :: mean_stat

definition mean_regressor_new :: "baseline_config \<Rightarrow> rill_error + mean_regressor" where
  "mean_regressor_new c = and_then (validate_baseline_config c) (\<lambda>_. Inr \<lparr>mr_config = c, mr_mean = mean_new\<rparr>)"

definition mean_regressor_predict :: "mean_regressor \<Rightarrow> f64 list \<Rightarrow> rill_error + f64" where
  "mean_regressor_predict m xs =
     Inr (if me_count (mr_mean m) = 0 then bc_initial_prediction (mr_config m) else me_mean (mr_mean m))"

definition mean_regressor_learn ::
    "f64 list \<times> f64 \<Rightarrow> mean_regressor \<Rightarrow> (rill_error + unit) \<times> mean_regressor" where
  "mean_regressor_learn xy m = (case xy of (xs, target) \<Rightarrow>
     (case ensure_finite_target target of
        Inl e \<Rightarrow> (Inl e, m)
      | Inr _ \<Rightarrow> (case mean_update target (mr_mean m) of (r, me) \<Rightarrow> (r, m\<lparr>mr_mean := me\<rparr>))))"

definition mean_regressor_reset :: "mean_regressor \<Rightarrow> mean_regressor" where
  "mean_regressor_reset m = m\<lparr>mr_mean := mean_reset (mr_mean m)\<rparr>"

definition mean_regressor_validate_state :: "mean_regressor \<Rightarrow> rill_error + unit" where
  "mean_regressor_validate_state m =
     and_then (validate_baseline_config (mr_config m)) (\<lambda>_. mean_validate_state (mr_mean m))"

record last_value_regressor =
  lv_config :: baseline_config
  lv_last_value :: "f64 option"
  lv_count :: u64

definition last_value_new :: "baseline_config \<Rightarrow> rill_error + last_value_regressor" where
  "last_value_new c = and_then (validate_baseline_config c) (\<lambda>_.
     Inr \<lparr>lv_config = c, lv_last_value = None, lv_count = 0\<rparr>)"

definition last_value_predict :: "last_value_regressor \<Rightarrow> f64 list \<Rightarrow> rill_error + f64" where
  "last_value_predict m xs =
     Inr (case lv_last_value m of None \<Rightarrow> bc_initial_prediction (lv_config m) | Some v \<Rightarrow> v)"

definition last_value_learn ::
    "f64 list \<times> f64 \<Rightarrow> last_value_regressor \<Rightarrow> (rill_error + unit) \<times> last_value_regressor" where
  "last_value_learn xy m = (case xy of (xs, target) \<Rightarrow> transact m
     (and_then (ensure_finite_target target) (\<lambda>_.
      and_then (checked_increment (lv_count m) ''last-value sample'') (\<lambda>n.
        Inr (m\<lparr>lv_last_value := Some target, lv_count := n\<rparr>)))))"

definition last_value_reset :: "last_value_regressor \<Rightarrow> last_value_regressor" where
  "last_value_reset m = m\<lparr>lv_last_value := None, lv_count := 0\<rparr>"

definition last_value_validate_state :: "last_value_regressor \<Rightarrow> rill_error + unit" where
  "last_value_validate_state m =
     and_then (validate_baseline_config (lv_config m)) (\<lambda>_.
       (case lv_last_value m of None \<Rightarrow> Inr () | Some v \<Rightarrow> ensure_finite ''last_value'' v))"

record ew_regressor =
  er_config :: baseline_config
  er_ew :: ew_mean_stat

definition ew_regressor_new :: "f64 \<Rightarrow> baseline_config \<Rightarrow> rill_error + ew_regressor" where
  "ew_regressor_new alpha c =
     and_then (validate_baseline_config c) (\<lambda>_. and_then (ew_mean_new alpha) (\<lambda>ew. Inr \<lparr>er_config = c, er_ew = ew\<rparr>))"

definition ew_regressor_predict :: "ew_regressor \<Rightarrow> f64 list \<Rightarrow> rill_error + f64" where
  "ew_regressor_predict m xs =
     Inr (if ew_count (er_ew m) = 0 then bc_initial_prediction (er_config m) else ew_value (er_ew m))"

definition ew_regressor_learn :: "f64 list \<times> f64 \<Rightarrow> ew_regressor \<Rightarrow> (rill_error + unit) \<times> ew_regressor" where
  "ew_regressor_learn xy m = (case xy of (xs, target) \<Rightarrow>
     (case ensure_finite_target target of
        Inl e \<Rightarrow> (Inl e, m)
      | Inr _ \<Rightarrow> (case ew_mean_update target (er_ew m) of (r, ew) \<Rightarrow> (r, m\<lparr>er_ew := ew\<rparr>))))"

definition ew_regressor_reset :: "ew_regressor \<Rightarrow> ew_regressor" where
  "ew_regressor_reset m = m\<lparr>er_ew := ew_mean_reset (er_ew m)\<rparr>"

definition ew_regressor_validate_state :: "ew_regressor \<Rightarrow> rill_error + unit" where
  "ew_regressor_validate_state m =
     and_then (validate_baseline_config (er_config m)) (\<lambda>_. ew_mean_validate_state (er_ew m))"

section \<open>The models as machines\<close>

lemma linear_score_Inr: "linear_score t l ws b xs = Inr z \<Longrightarrow> is_finite z"
  by (auto simp: linear_score_def result_simps)

lemma feature_gradient_Inr: "feature_gradient l g xs = Inr gs \<longleftrightarrow> gs = map ((*) g) xs \<and> list_all is_finite gs"
proof (induction xs arbitrary: gs)
  case (Cons x xs)
  have "feature_gradient l g (x # xs) =
      and_then (ensure_finite l (g * x)) (\<lambda>_. and_then (feature_gradient l g xs) (\<lambda>ys. Inr (g * x # ys)))"
    by (cases "ensure_finite l (g * x)") (simp_all add: feature_gradient_def Let_def)
  then show ?case
    by (simp only: and_then_Inr ensure_finite_Inr Cons.IH list.map sum.inject) auto
qed (auto simp: feature_gradient_def)

lemma check_linear_state_Inr [result_simps]:
  "check_linear_state model n ws b opt = Inr u \<longleftrightarrow> n \<noteq> 0 \<and> length ws = n \<and> param_count opt = n + 1
     \<and> is_finite b \<and> list_all is_finite ws \<and> optimizer_validate_state opt = Inr ()"
  by (auto simp: check_linear_state_def result_simps list_all_iff)

lemma zeros_finite: "list_all is_finite (map (\<lambda>_. 0) xs)"
  by (simp add: list_all_iff)

datatype 'x model_op = Learn 'x | LearnWeighted 'x f64 | ResetAll

fun linear_regression_exec ::
    "(f64 list \<times> f64) model_op \<Rightarrow> linear_regression \<Rightarrow> (rill_error + unit) \<times> linear_regression" where
  "linear_regression_exec (Learn (xs, y)) m = linear_regression_learn (xs, y) m"
| "linear_regression_exec (LearnWeighted (xs, y) w) m = linear_regression_learn_weighted (xs, y, w) m"
| "linear_regression_exec ResetAll m = (Inr (), linear_regression_reset m)"

fun logistic_exec ::
    "(f64 \<Rightarrow> f64) \<Rightarrow> (f64 list \<times> bool) model_op \<Rightarrow> logistic_regression \<Rightarrow> (rill_error + unit) \<times> logistic_regression" where
  "logistic_exec libexp (Learn (xs, y)) m = logistic_learn libexp (xs, y) m"
| "logistic_exec libexp (LearnWeighted (xs, y) w) m = logistic_learn_weighted libexp (xs, y, w) m"
| "logistic_exec libexp ResetAll m = (Inr (), logistic_reset m)"

lemma linear_regression_learn_Inr:
  "linear_regression_learn xy m = (Inr u, m') \<Longrightarrow> \<exists>gs g. unat (lr_samples_seen m) + 1 < 2 ^ 64
     \<and> linear_regression_apply gs g (lr_samples_seen m + 1) m = Inr m'"
  by (auto simp: linear_regression_learn_def result_simps Let_def split: prod.splits)

lemma linear_regression_weighted_Inr:
  "linear_regression_learn_weighted xyw m = (Inr u, m') \<Longrightarrow> m' = m \<or> (\<exists>gs g n. linear_regression_apply gs g n m = Inr m')"
  by (auto simp: linear_regression_learn_weighted_def result_simps Let_def split: prod.splits if_splits)

lemma linear_regression_apply_ok:
  "linear_regression_apply gs g n m = Inr m' \<Longrightarrow> lr_samples_seen m' = n
     \<and> (linear_regression_validate_state m = Inr () \<longrightarrow> linear_regression_validate_state m' = Inr ())"
  by (auto simp: linear_regression_apply_def linear_regression_validate_state_def result_simps dest: optimizer_step_ok)

lemma linear_regression_reset_ok:
  "linear_regression_validate_state m = Inr () \<Longrightarrow> linear_regression_validate_state (linear_regression_reset m) = Inr ()"
  by (auto simp: linear_regression_reset_def linear_regression_validate_state_def result_simps zeros_finite
      dest: optimizer_reset_ok)

interpretation linear_learn: counted_machine linear_regression_learn "\<lambda>m. linear_regression_validate_state m = Inr ()"
  lr_samples_seen linear_regression_reset
proof unfold_locales
  show "linear_regression_learn x m = (Inl e, m') \<Longrightarrow> m' = m" for x m e m'
    by (auto simp: linear_regression_learn_def transact_Inl split: prod.splits)
  show "linear_regression_validate_state m = Inr () \<Longrightarrow> linear_regression_learn x m = (Inr u, m') \<Longrightarrow>
    linear_regression_validate_state m' = Inr ()" for x m u m'
    by (auto dest!: linear_regression_learn_Inr linear_regression_apply_ok)
  show "linear_regression_learn x m = (Inr u, m') \<Longrightarrow> unat (lr_samples_seen m') = unat (lr_samples_seen m) + 1" for x m u m'
    by (auto dest!: linear_regression_learn_Inr linear_regression_apply_ok simp: unat_inc)
qed (simp_all add: linear_regression_reset_ok, simp add: linear_regression_reset_def)

interpretation linear: atomic_machine linear_regression_exec "\<lambda>m. linear_regression_validate_state m = Inr ()"
proof unfold_locales
  show "linear_regression_exec x m = (Inl e, m') \<Longrightarrow> m' = m" for x m e m'
    by (cases "(x, m)" rule: linear_regression_exec.cases)
      (auto dest: linear_learn.error_unchanged simp: linear_regression_learn_weighted_def transact_Inl)
  show "linear_regression_validate_state m = Inr () \<Longrightarrow> linear_regression_exec x m = (Inr u, m') \<Longrightarrow>
    linear_regression_validate_state m' = Inr ()" for x m u m'
    by (cases "(x, m)" rule: linear_regression_exec.cases)
      (auto dest: linear_learn.step_inv dest!: linear_regression_weighted_Inr linear_regression_apply_ok
        simp: linear_regression_reset_ok)
qed

lemma logistic_learn_Inr:
  "logistic_learn libexp xy m = (Inr u, m') \<Longrightarrow> \<exists>gs g. unat (lg_samples_seen m) + 1 < 2 ^ 64
     \<and> logistic_apply gs g (lg_samples_seen m + 1) m = Inr m'"
  by (auto simp: logistic_learn_def result_simps Let_def split: prod.splits)

lemma logistic_weighted_Inr:
  "logistic_learn_weighted libexp xyw m = (Inr u, m') \<Longrightarrow> m' = m \<or> (\<exists>gs g n. logistic_apply gs g n m = Inr m')"
  by (auto simp: logistic_learn_weighted_def result_simps Let_def split: prod.splits if_splits)

lemma logistic_apply_ok:
  "logistic_apply gs g n m = Inr m' \<Longrightarrow> lg_samples_seen m' = n
     \<and> (logistic_validate_state m = Inr () \<longrightarrow> logistic_validate_state m' = Inr ())"
  by (auto simp: logistic_apply_def logistic_validate_state_def result_simps dest: optimizer_step_ok)

lemma logistic_reset_ok: "logistic_validate_state m = Inr () \<Longrightarrow> logistic_validate_state (logistic_reset m) = Inr ()"
  by (auto simp: logistic_reset_def logistic_validate_state_def result_simps zeros_finite dest: optimizer_reset_ok)

interpretation logistic_learn: counted_machine "logistic_learn libexp" "\<lambda>m. logistic_validate_state m = Inr ()"
  lg_samples_seen logistic_reset for libexp
proof unfold_locales
  show "logistic_learn libexp x m = (Inl e, m') \<Longrightarrow> m' = m" for x m e m'
    by (auto simp: logistic_learn_def transact_Inl split: prod.splits)
  show "logistic_validate_state m = Inr () \<Longrightarrow> logistic_learn libexp x m = (Inr u, m') \<Longrightarrow>
    logistic_validate_state m' = Inr ()" for x m u m'
    by (auto dest!: logistic_learn_Inr logistic_apply_ok)
  show "logistic_learn libexp x m = (Inr u, m') \<Longrightarrow> unat (lg_samples_seen m') = unat (lg_samples_seen m) + 1" for x m u m'
    by (auto dest!: logistic_learn_Inr logistic_apply_ok simp: unat_inc)
qed (simp_all add: logistic_reset_ok, simp add: logistic_reset_def)

interpretation logistic: atomic_machine "logistic_exec libexp" "\<lambda>m. logistic_validate_state m = Inr ()" for libexp
proof unfold_locales
  show "logistic_exec libexp x m = (Inl e, m') \<Longrightarrow> m' = m" for x m e m'
    by (cases "(libexp, x, m)" rule: logistic_exec.cases)
      (auto dest: logistic_learn.error_unchanged simp: logistic_learn_weighted_def transact_Inl)
  show "logistic_validate_state m = Inr () \<Longrightarrow> logistic_exec libexp x m = (Inr u, m') \<Longrightarrow>
    logistic_validate_state m' = Inr ()" for x m u m'
    by (cases "(libexp, x, m)" rule: logistic_exec.cases)
      (auto dest: logistic_learn.step_inv dest!: logistic_weighted_Inr logistic_apply_ok simp: logistic_reset_ok)
qed

text \<open>The baselines.\<close>

lemma mean_validate_ok: "mean_ok s \<Longrightarrow> mean_validate_state s = Inr ()"
  by (simp add: mean_ok_def mean_validate_state_def ensure_finite_def)

interpretation mean_regressor: counted_machine mean_regressor_learn
  "\<lambda>m. validate_baseline_config (mr_config m) = Inr () \<and> mean_ok (mr_mean m)" "\<lambda>m. me_count (mr_mean m)" mean_regressor_reset
proof unfold_locales
  show "mean_regressor_learn x m = (Inl e, m') \<Longrightarrow> m' = m" for x m e m'
    by (auto simp: mean_regressor_learn_def split: prod.splits sum.splits dest: mean.error_unchanged)
  show "validate_baseline_config (mr_config m) = Inr () \<and> mean_ok (mr_mean m) \<Longrightarrow> mean_regressor_learn x m = (Inr u, m') \<Longrightarrow>
    validate_baseline_config (mr_config m') = Inr () \<and> mean_ok (mr_mean m')" for x m u m'
    by (auto simp: mean_regressor_learn_def split: prod.splits sum.splits dest: mean.step_inv)
  show "mean_regressor_learn x m = (Inr u, m') \<Longrightarrow> unat (me_count (mr_mean m')) = unat (me_count (mr_mean m)) + 1" for x m u m'
    by (auto simp: mean_regressor_learn_def split: prod.splits sum.splits dest: mean.update_seen)
qed (auto simp: mean_regressor_reset_def mean.reset_seen mean.reset_inv)

interpretation last_value: counted_machine last_value_learn "\<lambda>m. last_value_validate_state m = Inr ()" lv_count last_value_reset
  by unfold_locales
    (auto simp: last_value_learn_def last_value_validate_state_def last_value_reset_def ensure_finite_target_def
      result_simps unat_inc split: prod.splits)

interpretation ew_regressor: counted_machine ew_regressor_learn "\<lambda>m. ew_regressor_validate_state m = Inr ()"
  "\<lambda>m. ew_count (er_ew m)" ew_regressor_reset
proof unfold_locales
  show "ew_regressor_learn x m = (Inl e, m') \<Longrightarrow> m' = m" for x m e m'
    by (auto simp: ew_regressor_learn_def split: prod.splits sum.splits dest: ew.error_unchanged)
  show "ew_regressor_validate_state m = Inr () \<Longrightarrow> ew_regressor_learn x m = (Inr u, m') \<Longrightarrow> ew_regressor_validate_state m' = Inr ()"
    for x m u m'
    by (auto simp: ew_regressor_learn_def ew_regressor_validate_state_def result_simps split: prod.splits sum.splits
        dest: ew.step_inv [unfolded ew_mean_ok_def])
  show "ew_regressor_learn x m = (Inr u, m') \<Longrightarrow> unat (ew_count (er_ew m')) = unat (ew_count (er_ew m)) + 1" for x m u m'
    by (auto simp: ew_regressor_learn_def split: prod.splits sum.splits dest: ew.update_seen)
qed (auto simp: ew_regressor_reset_def ew_regressor_validate_state_def result_simps ew.reset_seen
    dest: ew.reset_inv [unfolded ew_mean_ok_def])

section \<open>Properties\<close>

text \<open>The loss gradient computed with weight one is the unweighted one; the error labels differ.\<close>

lemma weighted_one:
  "fst (linear_regression_learn_weighted (xs, y, 1) m) = Inr u \<longleftrightarrow> fst (linear_regression_learn (xs, y) m) = Inr u"
  "snd (linear_regression_learn_weighted (xs, y, 1) m) = snd (linear_regression_learn (xs, y) m)"
proof -
  have e: "linear_regression_learn_weighted (xs, y, 1) m = (Inr u, m') \<longleftrightarrow> linear_regression_learn (xs, y) m = (Inr u, m')" for m' u
    by (auto simp: linear_regression_learn_weighted_def linear_regression_learn_def result_simps Let_def feature_gradient_Inr
        feq_finite)
  have at: "linear_regression_learn_weighted (xs, y, 1) m = (Inl err, m') \<Longrightarrow> m' = m" for err m'
    by (simp add: linear_regression_learn_weighted_def transact_Inl)
  show "fst (linear_regression_learn_weighted (xs, y, 1) m) = Inr u \<longleftrightarrow> fst (linear_regression_learn (xs, y) m) = Inr u"
    using e [of u] by (metis prod.collapse)
  show "snd (linear_regression_learn_weighted (xs, y, 1) m) = snd (linear_regression_learn (xs, y) m)"
    using e at linear_learn.error_unchanged
    by (metis prod.collapse sum.exhaust)
qed

text \<open>
  Weighted learning. A sample of weight one does to a linear regression exactly what unweighted
  learning does: it succeeds on the same samples and leaves the same model. A sample of weight zero is
  still validated, and changes nothing.
\<close>

theorem weighted_learning_extends_learning:
  "snd (linear_regression_learn_weighted (xs, y, 1) m) = snd (linear_regression_learn (xs, y) m)
    \<and> (fst (linear_regression_learn_weighted (xs, y, 1) m) = Inr () \<longleftrightarrow> fst (linear_regression_learn (xs, y) m) = Inr ())
    \<and> snd (linear_regression_learn_weighted (xs, y, 0) m) = m
    \<and> (fst (linear_regression_learn_weighted (xs, y, 0) m) = Inr () \<longleftrightarrow>
         validate_features (lr_feature_count m) xs = Inr () \<and> is_finite y)"
proof -
  have z: "linear_regression_learn_weighted (xs, y, 0) m =
      (and_then (validate_features (lr_feature_count m) xs) (\<lambda>_. ensure_finite_target y), m)"
    by (cases "validate_features (lr_feature_count m) xs"; cases "ensure_finite_target y")
      (simp_all add: linear_regression_learn_weighted_def validate_weight_def ensure_finite_def less_finite feq_finite)
  show ?thesis by (auto simp: z weighted_one result_simps ensure_finite_target_def)
qed

lemma linear_regression_new_valid:
  assumes "optimizer_validate_state (lrc_optimizer c) = Inr ()" and "linear_regression_new n c = Inr m0"
  shows "linear_regression_validate_state m0 = Inr () \<and> lr_samples_seen m0 = 0"
  using assms by (auto simp: linear_regression_new_def linear_regression_validate_state_def result_simps list_all_iff split: if_splits)

text \<open>
  Reachable regressions are valid. From a new model over a valid optimizer, every sequence of
  plain and weighted learning steps and resets, accepted or rejected, leads to a state that passes
  \<open>validate_state\<close>: as many weights as features, all finite, and non-negative AdaGrad accumulators.
\<close>

theorem linear_regression_reachable_valid:
  assumes "optimizer_validate_state (lrc_optimizer c) = Inr ()" and "linear_regression_new n c = Inr m0"
    and "m = run_ops linear_regression_exec ops m0"
  shows "linear_regression_validate_state m = Inr ()
    \<and> unat (lr_samples_seen (run_ops linear_regression_learn xys m0)) = length (accepted_ops linear_regression_learn xys m0)"
proof -
  have m0: "linear_regression_validate_state m0 = Inr ()" "lr_samples_seen m0 = 0"
    using linear_regression_new_valid [OF assms(1,2)] by simp_all
  show ?thesis using linear.run_inv [OF m0(1), of ops] linear_learn.run_seen [of xys m0] m0(2) assms(3) by simp
qed

definition demo_regression :: linear_regression where
  "demo_regression = \<lparr>lr_feature_count = 1, lr_weights = [0], lr_intercept = 0,
     lr_optimizer = Sgd \<lparr>sg_feature_count = 1, sg_config = \<lparr>sc_learning_rate = 1, sc_l2 = 0\<rparr>, sg_samples_seen = 0\<rparr>,
     lr_loss = SquaredError, lr_samples_seen = 0\<rparr>"

theorem linear_regression_reachable_valid_witness:
  "linear_regression_validate_state (run_ops linear_regression_exec
     [Learn ([1], 1), LearnWeighted ([1], 1) (1 + 1), Learn ([], 1), ResetAll] demo_regression) = Inr ()"
proof -
  let ?o = "Sgd \<lparr>sg_feature_count = 1, sg_config = \<lparr>sc_learning_rate = 1, sc_l2 = 0\<rparr>, sg_samples_seen = 0\<rparr>"
  have "optimizer_validate_state (lrc_optimizer \<lparr>lrc_optimizer = ?o, lrc_loss = SquaredError\<rparr>) = Inr ()"
    by (simp add: sgd_validate_state_def sgd_check_def ensure_def ensure_finite_def less_finite less_eq_finite)
  moreover have "linear_regression_new 1 \<lparr>lrc_optimizer = ?o, lrc_loss = SquaredError\<rparr> = Inr demo_regression"
    by (simp add: linear_regression_new_def demo_regression_def)
  ultimately show ?thesis using linear_regression_reachable_valid [OF _ _ refl] by blast
qed

text \<open>
  Probabilities. Whenever a logistic regression answers, in any state and for any features, the
  probability is a finite number in the closed unit interval, and the predicted class is its
  comparison with one half.
\<close>

theorem logistic_proba_in_unit:
  assumes "exp_contract libexp" "logistic_predict_proba libexp m xs = Inr p"
  shows "in_unit p \<and> classifier_predict (logistic_predict_proba libexp) m xs = Inr (1 / 2 \<le> f_val p)"
proof -
  obtain z where z: "logit m xs = Inr z" "p = sigmoid libexp z"
    using assms(2) by (auto simp: logistic_predict_proba_def result_simps)
  have "is_finite z" using z(1) by (auto simp: logit_def result_simps dest: linear_score_Inr)
  then have u: "in_unit p" using sigmoid_in_unit [OF assms(1)] z(2) by simp
  have h: "is_finite f_half" "f_val f_half = 1 / 2" by code_simp+
  have "f_half \<le> p \<longleftrightarrow> f_val f_half \<le> f_val p" using u h(1) less_eq_finite by (simp add: in_unit_def)
  then have "f_half \<le> p \<longleftrightarrow> 1 / 2 \<le> f_val p" unfolding h(2) .
  then show ?thesis using u assms(2) by (simp add: classifier_predict_def)
qed

definition demo_logistic :: logistic_regression where
  "demo_logistic = \<lparr>lg_feature_count = 1, lg_weights = [0], lg_intercept = 0,
     lg_optimizer = Sgd \<lparr>sg_feature_count = 1, sg_config = sgd_config_default, sg_samples_seen = 0\<rparr>,
     lg_loss = log_loss_new, lg_samples_seen = 0\<rparr>"

theorem logistic_proba_in_unit_witness:
  "\<exists>p. logistic_predict_proba step_exp demo_logistic [1] = Inr p \<and> in_unit p"
proof -
  have "is_finite (0 + 0 :: f64)" "is_finite (0 + 0 + 0 :: f64)" by code_simp+
  then obtain p where p: "logistic_predict_proba step_exp demo_logistic [1] = Inr p"
    by (simp add: logistic_predict_proba_def logit_def demo_logistic_def linear_score_def validate_features_def
        ensure_finite_def checked_finite_add_def Let_def)
  from logistic_proba_in_unit [OF step_exp_contract this] p show ?thesis by blast
qed

end
