(* ===== verification/Preprocessing.thy ===== *)
theory Preprocessing imports Linear_Models begin

text \<open>
  The numeric transformers of \<open>src/preprocessing\<close>. Constructors and validation are results; an
  \<open>update\<close> returns its result with the new state, which for the imputers can be a partial update when
  a later feature is rejected.
\<close>

section \<open>Standard scaler\<close>

record standard_scaler_config =
  ssc_with_mean :: bool
  ssc_with_std :: bool
  ssc_epsilon :: f64

definition standard_scaler_config_default :: standard_scaler_config where
  "standard_scaler_config_default =
     \<lparr>ssc_with_mean = True, ssc_with_std = True, ssc_epsilon = f_of_rat (1 / 10 ^ 12)\<rparr>"

record standard_scaler =
  ss_feature_count :: usize
  ss_config :: standard_scaler_config
  ss_counts :: "u64 list"
  ss_means :: "f64 list"
  ss_m2s :: "f64 list"

definition scaler_check_config :: "usize \<Rightarrow> standard_scaler_config \<Rightarrow> rill_error + unit" where
  "scaler_check_config n c =
     (if n = 0 then Inl EmptyFeatures
      else and_then (ensure_finite ''epsilon'' (ssc_epsilon c)) (\<lambda>_.
           ensure (\<not> ssc_epsilon c < 0) (InvalidParameter ''epsilon'' (ssc_epsilon c))))"

definition standard_scaler_with_config :: "usize \<Rightarrow> standard_scaler_config \<Rightarrow> rill_error + standard_scaler" where
  "standard_scaler_with_config n c = and_then (scaler_check_config n c) (\<lambda>_.
     Inr \<lparr>ss_feature_count = n, ss_config = c, ss_counts = replicate n 0, ss_means = replicate n 0,
          ss_m2s = replicate n 0\<rparr>)"

definition standard_scaler_new :: "usize \<Rightarrow> rill_error + standard_scaler" where
  "standard_scaler_new n = standard_scaler_with_config n standard_scaler_config_default"

definition scaler_variances :: "standard_scaler \<Rightarrow> f64 list" where
  "scaler_variances s = map (\<lambda>(m2, n). if n = 0 then 0 else m2 / f_of_u64 n) (zip (ss_m2s s) (ss_counts s))"

definition scaler_std_devs :: "standard_scaler \<Rightarrow> f64 list" where
  "scaler_std_devs s = map f_sqrt (scaler_variances s)"

definition scaler_scales :: "standard_scaler \<Rightarrow> f64 list" where
  "scaler_scales s = map (\<lambda>v. if v < ssc_epsilon (ss_config s) then 1 else f_sqrt v) (scaler_variances s)"

text \<open>Some two neighbours of a slice differ: \<open>windows(2).any(..)\<close>.\<close>

fun any_window :: "('a \<Rightarrow> 'a \<Rightarrow> bool) \<Rightarrow> 'a list \<Rightarrow> bool" where
  "any_window p (x # y # xs) = (p x y \<or> any_window p (y # xs))"
| "any_window p xs = False"

definition check_zero :: "string \<Rightarrow> string \<Rightarrow> nat \<times> f64 \<Rightarrow> rill_error + unit" where
  "check_zero field when ix = (case ix of (i, x) \<Rightarrow>
     if \<not> feq x 0
     then Inl (InvalidState (''standard scaler '' @ field @ ''['' @ decimal i @ ''] must be 0 when count == '' @ when
                 @ '', got '' @ f64_to_string x))
     else Inr ())"

definition standard_scaler_validate :: "standard_scaler \<Rightarrow> rill_error + unit" where
  "standard_scaler_validate s =
     and_then (scaler_check_config (ss_feature_count s) (ss_config s)) (\<lambda>_.
       if length (ss_counts s) \<noteq> ss_feature_count s \<or> length (ss_means s) \<noteq> ss_feature_count s
            \<or> length (ss_m2s s) \<noteq> ss_feature_count s
       then Inl (InvalidState ''standard scaler feature_count does not match state lengths'')
       else if list_ex (\<lambda>x. \<not> is_finite x) (ss_means s) \<or> list_ex (\<lambda>x. \<not> is_finite x) (ss_m2s s)
       then Inl (InvalidState ''standard scaler state must contain only finite values'')
       else if list_ex (\<lambda>x. x < 0) (ss_m2s s)
       then Inl (InvalidState ''standard scaler m2s must be non-negative'')
       else if any_window (\<noteq>) (ss_counts s)
       then Inl (InvalidState ''standard scaler feature counts must stay synchronized'')
       else let n = (case ss_counts s of [] \<Rightarrow> 0 | c # cs \<Rightarrow> c) in
         and_then (if n = 0
                   then and_then (try_for_each (check_zero ''means'' ''0'') (List.enumerate 0 (ss_means s))) (\<lambda>_.
                          try_for_each (check_zero ''m2s'' ''0'') (List.enumerate 0 (ss_m2s s)))
                   else Inr ()) (\<lambda>_.
           if n = 1 then try_for_each (check_zero ''m2s'' ''1'') (List.enumerate 0 (ss_m2s s)) else Inr ()))"

definition scaler_scale :: "standard_scaler_config \<Rightarrow> u64 \<Rightarrow> f64 \<Rightarrow> f64" where
  "scaler_scale c n m2 =
     (if \<not> ssc_with_std c \<or> n = 0 then 1
      else let v = m2 / f_of_u64 n in if v < ssc_epsilon c then 1 else f_sqrt v)"

definition scaler_feature :: "standard_scaler_config \<Rightarrow> f64 \<times> u64 \<times> f64 \<times> f64 \<Rightarrow> rill_error + f64" where
  "scaler_feature c xnmm = (case xnmm of (x, n, m, m2) \<Rightarrow>
     let scale = scaler_scale c n m2; mean = (if ssc_with_mean c then m else 0); t = (x - mean) / scale in
     and_then (ensure_finite ''transformed feature'' t) (\<lambda>_. Inr t))"

definition standard_scaler_transform :: "standard_scaler \<Rightarrow> f64 list \<Rightarrow> rill_error + f64 list" where
  "standard_scaler_transform s xs =
     and_then (validate_features (ss_feature_count s) xs) (\<lambda>_.
       try_map (scaler_feature (ss_config s)) (zip xs (zip (ss_counts s) (zip (ss_means s) (ss_m2s s)))))"

definition scaler_learn_feature :: "f64 \<times> u64 \<times> f64 \<times> f64 \<Rightarrow> rill_error + (u64 \<times> f64 \<times> f64)" where
  "scaler_learn_feature xnmm = (case xnmm of (x, n, m, m2) \<Rightarrow>
     and_then (checked_increment n ''standard scaler sample'') (\<lambda>n'.
       let delta = x - m in
       and_then (ensure_finite ''standard scaler delta'' delta) (\<lambda>_.
         let m' = m + delta / f_of_u64 n' in
         and_then (ensure_finite ''standard scaler mean'' m') (\<lambda>_.
           let delta2 = x - m' in
           and_then (ensure_finite ''standard scaler delta'' delta2) (\<lambda>_.
             let m2' = m2 + delta * delta2 in
             and_then (ensure_finite ''standard scaler M2'' m2') (\<lambda>_. Inr (n', m', m2')))))))"

definition standard_scaler_update :: "f64 list \<Rightarrow> standard_scaler \<Rightarrow> (rill_error + unit) \<times> standard_scaler" where
  "standard_scaler_update xs s = transact s
     (and_then (standard_scaler_validate s) (\<lambda>_.
      and_then (validate_features (ss_feature_count s) xs) (\<lambda>_.
      and_then (try_map scaler_learn_feature (zip xs (zip (ss_counts s) (zip (ss_means s) (ss_m2s s))))) (\<lambda>rs.
        Inr (s\<lparr>ss_counts := map fst rs, ss_means := map (fst \<circ> snd) rs, ss_m2s := map (snd \<circ> snd) rs\<rparr>)))))"

definition standard_scaler_samples_seen :: "standard_scaler \<Rightarrow> u64" where
  "standard_scaler_samples_seen s = fold max (ss_counts s) 0"

definition standard_scaler_reset :: "standard_scaler \<Rightarrow> standard_scaler" where
  "standard_scaler_reset s =
     s\<lparr>ss_counts := map (\<lambda>_. 0) (ss_counts s), ss_means := map (\<lambda>_. 0) (ss_means s), ss_m2s := map (\<lambda>_. 0) (ss_m2s s)\<rparr>"

section \<open>Min-max scaler\<close>

record min_max_scaler =
  mm_feature_count :: usize
  mm_mins :: "f64 option list"
  mm_maxs :: "f64 option list"
  mm_target_min :: f64
  mm_target_max :: f64

definition min_max_with_range :: "usize \<Rightarrow> f64 \<Rightarrow> f64 \<Rightarrow> rill_error + min_max_scaler" where
  "min_max_with_range n lo hi =
     (if n = 0 then Inl EmptyFeatures
      else and_then (ensure_finite ''target_min'' lo) (\<lambda>_.
           and_then (ensure_finite ''target_max'' hi) (\<lambda>_.
             if hi \<le> lo then Inl (InvalidParameter ''target_min'' lo)
             else Inr \<lparr>mm_feature_count = n, mm_mins = replicate n None, mm_maxs = replicate n None,
                       mm_target_min = lo, mm_target_max = hi\<rparr>)))"

definition min_max_new :: "usize \<Rightarrow> rill_error + min_max_scaler" where
  "min_max_new n = min_max_with_range n 0 1"

definition min_max_feature :: "f64 \<Rightarrow> f64 \<Rightarrow> f64 \<times> f64 option \<times> f64 option \<Rightarrow> f64" where
  "min_max_feature lo rng xmm = (case xmm of
     (x, Some mn, Some mx) \<Rightarrow>
       if \<bar>mx - mn\<bar> < f_epsilon then lo + rng / f_of_nat 2 else lo + (x - mn) / (mx - mn) * rng
   | (x, _, _) \<Rightarrow> x)"

definition min_max_transform :: "min_max_scaler \<Rightarrow> f64 list \<Rightarrow> rill_error + f64 list" where
  "min_max_transform s xs =
     and_then (validate_features (mm_feature_count s) xs) (\<lambda>_.
       let rng = mm_target_max s - mm_target_min s in
       Inr (map (min_max_feature (mm_target_min s) rng) (zip xs (zip (mm_mins s) (mm_maxs s)))))"

definition min_max_observe :: "nat \<times> f64 \<Rightarrow> min_max_scaler \<Rightarrow> (rill_error + unit) \<times> min_max_scaler" where
  "min_max_observe ix s = (case ix of (i, x) \<Rightarrow> transact s
     (and_then (ensure_finite ''feature'' x) (\<lambda>_.
       Inr (s\<lparr>mm_mins := (mm_mins s)[i := Some (case mm_mins s ! i of None \<Rightarrow> x | Some m \<Rightarrow> f_min m x)],
              mm_maxs := (mm_maxs s)[i := Some (case mm_maxs s ! i of None \<Rightarrow> x | Some m \<Rightarrow> f_max m x)]\<rparr>))))"

definition min_max_update :: "f64 list \<Rightarrow> min_max_scaler \<Rightarrow> (rill_error + unit) \<times> min_max_scaler" where
  "min_max_update xs s =
     (case validate_features (mm_feature_count s) xs of
        Inl e \<Rightarrow> (Inl e, s)
      | Inr _ \<Rightarrow> for_each_mut min_max_observe (List.enumerate 0 xs) s)"

text \<open>As the source has it: the number of observed features, not of samples.\<close>

definition min_max_samples_seen :: "min_max_scaler \<Rightarrow> u64" where
  "min_max_samples_seen s = of_nat (length (filter (\<lambda>m. m \<noteq> None) (mm_mins s)))"

definition min_max_reset :: "min_max_scaler \<Rightarrow> min_max_scaler" where
  "min_max_reset s = s\<lparr>mm_mins := map (\<lambda>_. None) (mm_mins s), mm_maxs := map (\<lambda>_. None) (mm_maxs s)\<rparr>"

section \<open>Clipper\<close>

record clipper =
  cl_feature_count :: usize
  cl_min :: f64
  cl_max :: f64

definition clipper_new :: "usize \<Rightarrow> f64 \<Rightarrow> f64 \<Rightarrow> rill_error + clipper" where
  "clipper_new n lo hi =
     (if n = 0 then Inl EmptyFeatures
      else and_then (ensure_finite ''min'' lo) (\<lambda>_.
           and_then (ensure_finite ''max'' hi) (\<lambda>_.
             if hi < lo then Inl (InvalidParameter ''min'' lo)
             else Inr \<lparr>cl_feature_count = n, cl_min = lo, cl_max = hi\<rparr>)))"

definition clipper_transform :: "clipper \<Rightarrow> f64 list \<Rightarrow> rill_error + f64 list" where
  "clipper_transform s xs =
     and_then (validate_features (cl_feature_count s) xs) (\<lambda>_. Inr (map (f_clamp (cl_min s) (cl_max s)) xs))"

definition clipper_update :: "f64 list \<Rightarrow> clipper \<Rightarrow> (rill_error + unit) \<times> clipper" where
  "clipper_update xs s = (Inr (), s)"

section \<open>Transformers for missing values\<close>

text \<open>The dimension check that lets NaN through, and the check of the other values.\<close>

definition check_dimension :: "usize \<Rightarrow> f64 list \<Rightarrow> rill_error + unit" where
  "check_dimension n xs =
     (if xs = [] then Inl EmptyFeatures
      else if length xs \<noteq> n then Inl (DimensionMismatch n (length xs)) else Inr ())"

definition check_present :: "f64 \<Rightarrow> rill_error + unit" where
  "check_present x = (if is_nan x then Inr () else ensure_finite ''feature'' x)"

text \<open>The value put in the place of a missing one.\<close>

definition fill_missing :: "(nat \<Rightarrow> f64) \<Rightarrow> f64 list \<Rightarrow> rill_error + f64 list" where
  "fill_missing fill xs =
     try_map (\<lambda>(i, x). if is_nan x then Inr (fill i) else and_then (ensure_finite ''feature'' x) (\<lambda>_. Inr x))
       (List.enumerate 0 xs)"

record mean_imputer =
  mi_feature_count :: usize
  mi_counts :: "u64 list"
  mi_means :: "f64 list"
  mi_samples_seen :: u64

definition mean_imputer_new :: "usize \<Rightarrow> rill_error + mean_imputer" where
  "mean_imputer_new n =
     (if n = 0 then Inl EmptyFeatures
      else Inr \<lparr>mi_feature_count = n, mi_counts = replicate n 0, mi_means = replicate n 0, mi_samples_seen = 0\<rparr>)"

text \<open>The count is stored before the checks on the mean.\<close>

definition mean_imputer_update_mean :: "nat \<Rightarrow> f64 \<Rightarrow> mean_imputer \<Rightarrow> (rill_error + unit) \<times> mean_imputer" where
  "mean_imputer_update_mean i x s =
     (case checked_increment (mi_counts s ! i) ''feature count'' of
        Inl e \<Rightarrow> (Inl e, s)
      | Inr n \<Rightarrow>
        let s1 = s\<lparr>mi_counts := (mi_counts s)[i := n]\<rparr>; delta = x - mi_means s1 ! i in
        transact s1
          (and_then (ensure_finite ''mean delta'' delta) (\<lambda>_.
           and_then (checked_finite_add (mi_means s1 ! i) (delta / f_of_u64 n) ''mean'') (\<lambda>m.
             Inr (s1\<lparr>mi_means := (mi_means s1)[i := m]\<rparr>)))))"

definition mean_imputer_observe :: "nat \<times> f64 \<Rightarrow> mean_imputer \<Rightarrow> (rill_error + unit) \<times> mean_imputer" where
  "mean_imputer_observe ix s = (case ix of (i, x) \<Rightarrow>
     if is_nan x then (Inr (), s)
     else (case ensure_finite ''feature'' x of
             Inl e \<Rightarrow> (Inl e, s) | Inr _ \<Rightarrow> mean_imputer_update_mean i x s))"

definition mean_imputer_update :: "f64 list \<Rightarrow> mean_imputer \<Rightarrow> (rill_error + unit) \<times> mean_imputer" where
  "mean_imputer_update xs s =
     (case check_dimension (mi_feature_count s) xs of
        Inl e \<Rightarrow> (Inl e, s)
      | Inr _ \<Rightarrow> then_mut (for_each_mut mean_imputer_observe (List.enumerate 0 xs) s) (\<lambda>_ s'. transact s'
          (and_then (checked_increment (mi_samples_seen s') ''samples_seen'') (\<lambda>n.
             Inr (s'\<lparr>mi_samples_seen := n\<rparr>)))))"

definition mean_imputer_transform :: "mean_imputer \<Rightarrow> f64 list \<Rightarrow> rill_error + f64 list" where
  "mean_imputer_transform s xs =
     and_then (check_dimension (mi_feature_count s) xs) (\<lambda>_.
       fill_missing (\<lambda>i. if mi_counts s ! i = 0 then 0 else mi_means s ! i) xs)"

definition mean_imputer_reset :: "mean_imputer \<Rightarrow> mean_imputer" where
  "mean_imputer_reset s =
     s\<lparr>mi_counts := map (\<lambda>_. 0) (mi_counts s), mi_means := map (\<lambda>_. 0) (mi_means s), mi_samples_seen := 0\<rparr>"

definition mean_imputer_validate_state :: "mean_imputer \<Rightarrow> rill_error + unit" where
  "mean_imputer_validate_state s =
     (if mi_feature_count s = 0 then Inl EmptyFeatures
      else if length (mi_counts s) \<noteq> mi_feature_count s
      then Inl (InvalidState (''mean imputer counts length '' @ decimal (length (mi_counts s))
                  @ '' does not match feature_count '' @ decimal (mi_feature_count s)))
      else if length (mi_means s) \<noteq> mi_feature_count s
      then Inl (InvalidState (''mean imputer means length '' @ decimal (length (mi_means s))
                  @ '' does not match feature_count '' @ decimal (mi_feature_count s)))
      else try_for_each (ensure_finite ''mean'') (mi_means s))"

record constant_imputer =
  ci_feature_count :: usize
  ci_fill_value :: f64
  ci_samples_seen :: u64

definition constant_imputer_with_config :: "usize \<Rightarrow> f64 \<Rightarrow> rill_error + constant_imputer" where
  "constant_imputer_with_config n v =
     (if n = 0 then Inl EmptyFeatures
      else and_then (ensure_finite ''fill_value'' v) (\<lambda>_.
           Inr \<lparr>ci_feature_count = n, ci_fill_value = v, ci_samples_seen = 0\<rparr>))"

definition constant_imputer_new :: "usize \<Rightarrow> rill_error + constant_imputer" where
  "constant_imputer_new n = constant_imputer_with_config n 0"

definition constant_imputer_transform :: "constant_imputer \<Rightarrow> f64 list \<Rightarrow> rill_error + f64 list" where
  "constant_imputer_transform s xs =
     and_then (check_dimension (ci_feature_count s) xs) (\<lambda>_. fill_missing (\<lambda>_. ci_fill_value s) xs)"

definition constant_imputer_update :: "f64 list \<Rightarrow> constant_imputer \<Rightarrow> (rill_error + unit) \<times> constant_imputer" where
  "constant_imputer_update xs s = transact s
     (and_then (check_dimension (ci_feature_count s) xs) (\<lambda>_.
      and_then (try_for_each check_present xs) (\<lambda>_.
      and_then (checked_increment (ci_samples_seen s) ''samples_seen'') (\<lambda>n. Inr (s\<lparr>ci_samples_seen := n\<rparr>)))))"

definition constant_imputer_reset :: "constant_imputer \<Rightarrow> constant_imputer" where
  "constant_imputer_reset s = s\<lparr>ci_samples_seen := 0\<rparr>"

definition constant_imputer_validate_state :: "constant_imputer \<Rightarrow> rill_error + unit" where
  "constant_imputer_validate_state s =
     (if ci_feature_count s = 0 then Inl EmptyFeatures else ensure_finite ''fill_value'' (ci_fill_value s))"

record forward_fill =
  ff_feature_count :: usize
  ff_last_values :: "f64 option list"
  ff_samples_seen :: u64

definition forward_fill_new :: "usize \<Rightarrow> rill_error + forward_fill" where
  "forward_fill_new n =
     (if n = 0 then Inl EmptyFeatures
      else Inr \<lparr>ff_feature_count = n, ff_last_values = replicate n None, ff_samples_seen = 0\<rparr>)"

definition forward_fill_transform :: "forward_fill \<Rightarrow> f64 list \<Rightarrow> rill_error + f64 list" where
  "forward_fill_transform s xs =
     and_then (check_dimension (ff_feature_count s) xs) (\<lambda>_.
       fill_missing (\<lambda>i. case ff_last_values s ! i of None \<Rightarrow> 0 | Some v \<Rightarrow> v) xs)"

definition forward_fill_observe :: "nat \<times> f64 \<Rightarrow> forward_fill \<Rightarrow> (rill_error + unit) \<times> forward_fill" where
  "forward_fill_observe ix s = (case ix of (i, x) \<Rightarrow>
     if is_nan x then (Inr (), s)
     else transact s (and_then (ensure_finite ''feature'' x) (\<lambda>_.
            Inr (s\<lparr>ff_last_values := (ff_last_values s)[i := Some x]\<rparr>))))"

definition forward_fill_update :: "f64 list \<Rightarrow> forward_fill \<Rightarrow> (rill_error + unit) \<times> forward_fill" where
  "forward_fill_update xs s =
     (case check_dimension (ff_feature_count s) xs of
        Inl e \<Rightarrow> (Inl e, s)
      | Inr _ \<Rightarrow> then_mut (for_each_mut forward_fill_observe (List.enumerate 0 xs) s) (\<lambda>_ s'. transact s'
          (and_then (checked_increment (ff_samples_seen s') ''samples_seen'') (\<lambda>n.
             Inr (s'\<lparr>ff_samples_seen := n\<rparr>)))))"

definition forward_fill_reset :: "forward_fill \<Rightarrow> forward_fill" where
  "forward_fill_reset s = s\<lparr>ff_last_values := map (\<lambda>_. None) (ff_last_values s), ff_samples_seen := 0\<rparr>"

definition forward_fill_validate_state :: "forward_fill \<Rightarrow> rill_error + unit" where
  "forward_fill_validate_state s =
     (if ff_feature_count s = 0 then Inl EmptyFeatures
      else if length (ff_last_values s) \<noteq> ff_feature_count s
      then Inl (InvalidState (''forward fill last_values length '' @ decimal (length (ff_last_values s))
                  @ '' does not match feature_count '' @ decimal (ff_feature_count s)))
      else try_for_each (\<lambda>v. case v of None \<Rightarrow> Inr () | Some x \<Rightarrow> ensure_finite ''last_value'' x) (ff_last_values s))"

record missing_indicator =
  ms_feature_count :: usize
  ms_samples_seen :: u64

definition missing_indicator_new :: "usize \<Rightarrow> rill_error + missing_indicator" where
  "missing_indicator_new n =
     (if n = 0 then Inl EmptyFeatures else Inr \<lparr>ms_feature_count = n, ms_samples_seen = 0\<rparr>)"

definition missing_indicator_transform :: "missing_indicator \<Rightarrow> f64 list \<Rightarrow> rill_error + f64 list" where
  "missing_indicator_transform s xs =
     and_then (check_dimension (ms_feature_count s) xs) (\<lambda>_.
     and_then (try_for_each check_present xs) (\<lambda>_.
       Inr (concat (map (\<lambda>x. [x, if is_nan x then 1 else 0]) xs))))"

definition missing_indicator_output_dim :: "missing_indicator \<Rightarrow> usize" where
  "missing_indicator_output_dim s = ms_feature_count s * 2"

definition missing_indicator_update :: "f64 list \<Rightarrow> missing_indicator \<Rightarrow> (rill_error + unit) \<times> missing_indicator" where
  "missing_indicator_update xs s = transact s
     (and_then (check_dimension (ms_feature_count s) xs) (\<lambda>_.
      and_then (try_for_each check_present xs) (\<lambda>_.
      and_then (checked_increment (ms_samples_seen s) ''samples_seen'') (\<lambda>n. Inr (s\<lparr>ms_samples_seen := n\<rparr>)))))"

definition missing_indicator_reset :: "missing_indicator \<Rightarrow> missing_indicator" where
  "missing_indicator_reset s = s\<lparr>ms_samples_seen := 0\<rparr>"

section \<open>Reachable scalers are valid\<close>

text \<open>What holds of one feature's count, mean and sum of squares.\<close>

definition feature_stat_ok :: "u64 \<times> f64 \<times> f64 \<Rightarrow> bool" where
  "feature_stat_ok nmm = (case nmm of (n, m, m2) \<Rightarrow> is_finite m \<and> is_finite m2 \<and> 0 \<le> f_val m2
     \<and> (n = 0 \<longrightarrow> f_val m = 0 \<and> f_val m2 = 0) \<and> (n = 1 \<longrightarrow> f_val m2 = 0))"

lemma scaler_learn_feature_ok:
  assumes "scaler_learn_feature (x, n, m, m2) = Inr (n', m', m2')" "feature_stat_ok (n, m, m2)" "is_finite x"
  shows "feature_stat_ok (n', m', m2') \<and> n' = n + 1 \<and> n' \<noteq> 0"
proof -
  have f: "unat n + 1 < 2 ^ 64" "n' = n + 1" "m' = m + (x - m) / f_of_u64 (n + 1)" "is_finite (x - m)" "is_finite m'"
    "is_finite (x - m')" "is_finite m2'" "m2' = m2 + (x - m) * (x - m')"
    using assms(1) by (auto simp: scaler_learn_feature_def result_simps Let_def)
  have ok: "is_finite m" "is_finite m2" "0 \<le> f_val m2" "n = 0 \<Longrightarrow> f_val m = 0 \<and> f_val m2 = 0"
    using assms(2) by (auto simp: feature_stat_ok_def)
  have z: "unat n = 0 \<longrightarrow> f_val m = 0" using ok(4) by (simp add: unat_eq_0)
  have t: "is_finite ((x - m) * (x - m'))" using f(7) finite_plusD unfolding f(8) by blast
  have nn: "0 \<le> f_val ((x - m) * (x - m'))"
    using welford_term [of m x n] ok(1) assms(3) f(1,4-6) t z unfolding f(3) by blast
  have v: "f_val m2' = rnd (f_val m2 + f_val ((x - m) * (x - m')))" using f(7) f_val_plus unfolding f(8) by blast
  have one: "f_val m2' = 0" if "n + 1 = 1"
  proof -
    have n: "n = 0" using that by simp
    have "f_val m' = f_val x" using mean_step [of m x n] ok(1) assms(3) f(1,5) z n unfolding f(3) by simp
    then have "f_val ((x - m) * (x - m')) = 0" using f_val_times [OF t] f_val_minus [OF f(6)] by simp
    then show ?thesis using v ok(4) [OF n] by simp
  qed
  show ?thesis using f inc_nz [OF f(1)] nn v ok(3) one rnd_pos by (auto simp: feature_stat_ok_def)
qed

lemma not_any_window_neq: "\<not> any_window (\<noteq>) xs \<longleftrightarrow> (\<forall>x \<in> set xs. x = hd xs)"
  by (induction xs rule: induct_list012) auto

lemma check_zero_all:
  "(\<forall>ix \<in> set (List.enumerate k xs). check_zero field when ix = Inr ()) \<longleftrightarrow> (\<forall>x \<in> set xs. feq x 0)"
  by (induction xs arbitrary: k) (auto simp: check_zero_def)

lemma scaler_check_config_Inr [result_simps]:
  "scaler_check_config n c = Inr u \<longleftrightarrow> n \<noteq> 0 \<and> is_finite (ssc_epsilon c) \<and> \<not> ssc_epsilon c < 0"
  by (simp add: scaler_check_config_def result_simps)

abbreviation scaler_stats :: "standard_scaler \<Rightarrow> (u64 \<times> f64 \<times> f64) list" where
  "scaler_stats s \<equiv> zip (ss_counts s) (zip (ss_means s) (ss_m2s s))"

lemma standard_scaler_validate_Inr:
  "standard_scaler_validate s = Inr u \<longleftrightarrow> scaler_check_config (ss_feature_count s) (ss_config s) = Inr ()
     \<and> length (ss_counts s) = ss_feature_count s \<and> length (ss_means s) = ss_feature_count s
     \<and> length (ss_m2s s) = ss_feature_count s
     \<and> list_all is_finite (ss_means s) \<and> list_all is_finite (ss_m2s s) \<and> list_all (\<lambda>x. 0 \<le> f_val x) (ss_m2s s)
     \<and> (\<forall>n \<in> set (ss_counts s). n = hd (ss_counts s))
     \<and> (hd (ss_counts s) = 0 \<longrightarrow> list_all (\<lambda>x. f_val x = 0) (ss_means s))
     \<and> (hd (ss_counts s) \<in> {0, 1} \<longrightarrow> list_all (\<lambda>x. f_val x = 0) (ss_m2s s))"
proof (cases "ss_counts s")
  case Nil
  then show ?thesis by (auto simp: standard_scaler_validate_def result_simps)
next
  case (Cons c cs)
  have fin: "list_ex (\<lambda>x. \<not> is_finite x) xs \<longleftrightarrow> \<not> list_all is_finite xs" for xs
    by (auto simp: list_ex_iff list_all_iff)
  have zero: "(\<forall>x \<in> set xs. feq x 0) \<longleftrightarrow> list_all (\<lambda>x. f_val x = 0) xs" if "list_all is_finite xs" for xs
    using that by (auto simp: list_all_iff feq_finite)
  have neg: "list_ex (\<lambda>x. x < 0) xs \<longleftrightarrow> \<not> list_all (\<lambda>x. 0 \<le> f_val x) xs" if "list_all is_finite xs" for xs
    using that by (auto simp: list_all_iff list_ex_iff less_finite not_le)
  show ?thesis
  proof (cases "list_all is_finite (ss_means s) \<and> list_all is_finite (ss_m2s s)")
    case True
    then show ?thesis
      using not_any_window_neq [of "ss_counts s"]
      by (simp add: Cons standard_scaler_validate_def and_then_Inr try_for_each_Inr check_zero_all fin zero neg) blast
  qed (auto simp: Cons standard_scaler_validate_def and_then_Inr fin)
qed

lemma scaler_stats_ok:
  "standard_scaler_validate s = Inr () \<Longrightarrow> y \<in> set (scaler_stats s) \<Longrightarrow> feature_stat_ok y \<and> fst y = hd (ss_counts s)"
proof -
  assume v: "standard_scaler_validate s = Inr ()" and y: "y \<in> set (scaler_stats s)"
  obtain n m m2 where e: "y = (n, m, m2)" by (metis prod_cases3)
  have "n \<in> set (ss_counts s)" "m \<in> set (ss_means s)" "m2 \<in> set (ss_m2s s)"
    using y e by (auto dest: set_zip_leftD set_zip_rightD)
  then show ?thesis using v by (auto simp: e standard_scaler_validate_Inr feature_stat_ok_def list_all_iff)
qed

lemma standard_scaler_update_ok:
  assumes "standard_scaler_update xs s = (Inr u, s')"
  shows "standard_scaler_validate s' = Inr () \<and> hd (ss_counts s') = hd (ss_counts s) + 1
    \<and> unat (hd (ss_counts s)) + 1 < 2 ^ 64 \<and> ss_feature_count s' = ss_feature_count s"
proof -
  obtain rs where v: "standard_scaler_validate s = Inr ()" and x: "length xs = ss_feature_count s" "\<forall>x \<in> set xs. is_finite x"
    and rs: "list_all2 (\<lambda>a r. scaler_learn_feature a = Inr r) (zip xs (scaler_stats s)) rs"
    and s': "s' = s\<lparr>ss_counts := map fst rs, ss_means := map (fst \<circ> snd) rs, ss_m2s := map (snd \<circ> snd) rs\<rparr>"
    using assms by (auto simp: standard_scaler_update_def result_simps)
  have len: "length (ss_counts s) = ss_feature_count s" "length (ss_means s) = ss_feature_count s"
    "length (ss_m2s s) = ss_feature_count s" "ss_feature_count s \<noteq> 0"
    and cfg: "scaler_check_config (ss_feature_count s) (ss_config s) = Inr ()"
    using v by (auto simp: standard_scaler_validate_Inr result_simps)
  have lr: "length rs = ss_feature_count s" using list_all2_lengthD [OF rs] len x by simp
  let ?n = "hd (ss_counts s)"
  have each: "feature_stat_ok r \<and> fst r = ?n + 1 \<and> unat ?n + 1 < 2 ^ 64 \<and> fst r \<noteq> 0" if r: "r \<in> set rs" for r
    using rs r
  proof (rule list_all2_right)
    fix a assume a: "a \<in> set (zip xs (scaler_stats s))" "scaler_learn_feature a = Inr r"
    obtain b n m m2 n' m' m2' where e: "a = (b, n, m, m2)" "r = (n', m', m2')" by (metis prod_cases3)
    have b: "is_finite b" "(n, m, m2) \<in> set (scaler_stats s)"
      using a(1) x(2) e(1) set_zip_leftD set_zip_rightD by fastforce+
    have "unat n + 1 < 2 ^ 64" using a(2) e by (auto simp: scaler_learn_feature_def result_simps Let_def)
    then show "feature_stat_ok r \<and> fst r = ?n + 1 \<and> unat ?n + 1 < 2 ^ 64 \<and> fst r \<noteq> 0"
      using scaler_stats_ok [OF v b(2)] scaler_learn_feature_ok [OF a(2) [unfolded e(1), unfolded e(2)] conjunct1 b(1)]
      unfolding e by auto
  qed
  obtain r0 rs' where r0: "rs = r0 # rs'" using lr len(4) by (cases rs) auto
  have "hd (map fst rs) = ?n + 1" "unat ?n + 1 < 2 ^ 64" using each [of r0] r0 by simp_all
  moreover have "standard_scaler_validate s' = Inr ()"
    using each cfg lr calculation(1)
    by (auto simp: s' standard_scaler_validate_Inr list_all_iff feature_stat_ok_def)
  ultimately show ?thesis by (simp add: s')
qed

lemma standard_scaler_reset_ok:
  "standard_scaler_validate s = Inr () \<Longrightarrow> standard_scaler_validate (standard_scaler_reset s) = Inr ()"
  by (cases "ss_counts s")
    (auto simp: standard_scaler_validate_Inr standard_scaler_reset_def list_all_iff result_simps)

lemma fold_max_const: "(\<forall>x \<in> set xs. x = c) \<Longrightarrow> a \<le> c \<Longrightarrow> xs \<noteq> [] \<Longrightarrow> fold max xs (a :: 'a :: linorder) = c"
proof (induction xs arbitrary: a)
  case (Cons x xs)
  then show ?case by (cases "xs = []") (auto simp: max_def)
qed simp

lemma standard_scaler_samples:
  "standard_scaler_validate s = Inr () \<Longrightarrow> standard_scaler_samples_seen s = hd (ss_counts s)"
  unfolding standard_scaler_samples_seen_def
  by (rule fold_max_const) (auto simp: standard_scaler_validate_Inr result_simps)

interpretation scaler: counted_machine standard_scaler_update "\<lambda>s. standard_scaler_validate s = Inr ()"
  standard_scaler_samples_seen standard_scaler_reset
proof unfold_locales
  show "standard_scaler_update x s = (Inl e, s') \<Longrightarrow> s' = s" for x s e s'
    by (simp add: standard_scaler_update_def transact_Inl)
  show "standard_scaler_validate s = Inr () \<Longrightarrow> standard_scaler_update x s = (Inr u, s') \<Longrightarrow> standard_scaler_validate s' = Inr ()"
    for x s u s'
    using standard_scaler_update_ok by blast
  show "unat (standard_scaler_samples_seen s') = unat (standard_scaler_samples_seen s) + 1"
    if u: "standard_scaler_update x s = (Inr u, s')" for x s u s'
  proof -
    have "standard_scaler_validate s = Inr ()" using u by (auto simp: standard_scaler_update_def result_simps)
    then show ?thesis using standard_scaler_update_ok [OF u] by (simp add: standard_scaler_samples unat_inc)
  qed
  have "fold max (map (\<lambda>_. 0) xs) (0 :: u64) = 0" for xs :: "u64 list" by (induction xs) simp_all
  then show "standard_scaler_samples_seen (standard_scaler_reset s) = 0" for s
    by (simp add: standard_scaler_samples_seen_def standard_scaler_reset_def)
qed (rule standard_scaler_reset_ok)

lemma standard_scaler_new_valid: "standard_scaler_with_config n c = Inr s \<Longrightarrow> standard_scaler_validate s = Inr ()"
  by (auto simp: standard_scaler_with_config_def standard_scaler_validate_Inr and_then_Inr list_all_iff split: if_splits)

text \<open>
  Reachable scalers are valid. After any sequence of accepted and rejected samples the state of a
  scaler passes its own \<open>validate\<close>, which \<open>Deserialize\<close> runs: the counts stay synchronized and equal
  the number of accepted samples, the sums of squares are never negative, and are exactly zero until
  the second sample, in IEEE arithmetic.
\<close>

theorem scaler_reachable_valid:
  assumes "standard_scaler_with_config n c = Inr s0" "s = run_ops standard_scaler_update xss s0"
  shows "standard_scaler_validate s = Inr ()
    \<and> unat (standard_scaler_samples_seen s) = length (accepted_ops standard_scaler_update xss s0)"
proof -
  have s0: "standard_scaler_validate s0 = Inr ()" using standard_scaler_new_valid [OF assms(1)] .
  have "standard_scaler_samples_seen s0 = hd (ss_counts s0)" by (rule standard_scaler_samples [OF s0])
  also have "\<dots> = 0" using assms(1) by (auto simp: standard_scaler_with_config_def result_simps)
  finally show ?thesis
    using scaler.run_inv [OF s0] scaler.run_seen [of xss s0] assms(2) by simp
qed

definition demo_scaler :: standard_scaler where
  "demo_scaler = \<lparr>ss_feature_count = 1, ss_config = \<lparr>ssc_with_mean = True, ssc_with_std = True, ssc_epsilon = 0\<rparr>,
     ss_counts = [0], ss_means = [0], ss_m2s = [0]\<rparr>"

theorem scaler_reachable_valid_witness:
  "standard_scaler_validate (run_ops standard_scaler_update [[1], [f_inf], [1 + 1], []] demo_scaler) = Inr ()"
proof -
  have "standard_scaler_with_config 1 \<lparr>ssc_with_mean = True, ssc_with_std = True, ssc_epsilon = 0\<rparr> = Inr demo_scaler"
    by (simp add: standard_scaler_with_config_def scaler_check_config_def demo_scaler_def ensure_def ensure_finite_def less_finite)
  from scaler_reachable_valid [OF this refl] show ?thesis by blast
qed

end
