(* ===== verification/Pipeline.thy ===== *)
theory Pipeline imports Preprocessing begin

text \<open>
  The two-stage pipelines of \<open>src/pipeline.rs\<close>, generic in the transformer and the model, whose traits
  are records of operations. Regression and classification pipelines have the same code up to the check
  of the target, which is a parameter: \<open>ensure_finite_target\<close> for a regression, none for a
  classification.
\<close>

record 't transformer_ops =
  tr_input_dim :: "'t \<Rightarrow> usize"
  tr_output_dim :: "'t \<Rightarrow> usize"
  tr_transform :: "'t \<Rightarrow> f64 list \<Rightarrow> rill_error + f64 list"
  tr_update :: "f64 list \<Rightarrow> 't \<Rightarrow> (rill_error + unit) \<times> 't"
  tr_samples_seen :: "'t \<Rightarrow> u64"
  tr_reset :: "'t \<Rightarrow> 't"
  tr_validate :: "'t \<Rightarrow> rill_error + unit"

record ('m, 'y) learner_ops =
  le_feature_count :: "'m \<Rightarrow> usize"
  le_predict :: "'m \<Rightarrow> f64 list \<Rightarrow> rill_error + f64"
  le_learn :: "f64 list \<times> 'y \<Rightarrow> 'm \<Rightarrow> (rill_error + unit) \<times> 'm"
  le_learn_weighted :: "f64 list \<times> 'y \<times> f64 \<Rightarrow> 'm \<Rightarrow> (rill_error + unit) \<times> 'm"
  le_reset :: "'m \<Rightarrow> 'm"
  le_validate :: "'m \<Rightarrow> rill_error + unit"

record ('t, 'm) pipeline =
  pl_transformer :: 't
  pl_model :: 'm

definition pipeline_new :: "'t transformer_ops \<Rightarrow> ('m, 'y) learner_ops \<Rightarrow> 't \<Rightarrow> 'm \<Rightarrow> rill_error + ('t, 'm) pipeline" where
  "pipeline_new to mo t m =
     (if tr_output_dim to t \<noteq> le_feature_count mo m
      then Inl (DimensionMismatch (le_feature_count mo m) (tr_output_dim to t))
      else Inr \<lparr>pl_transformer = t, pl_model = m\<rparr>)"

definition pipeline_predict :: "'t transformer_ops \<Rightarrow> ('m, 'y) learner_ops \<Rightarrow> ('t, 'm) pipeline \<Rightarrow> f64 list \<Rightarrow> rill_error + f64" where
  "pipeline_predict to mo p xs = and_then (tr_transform to (pl_transformer p) xs) (le_predict mo (pl_model p))"

text \<open>Plain learning updates the transformer in place, whatever happens next.\<close>

definition pipeline_learn ::
    "('y \<Rightarrow> rill_error + unit) \<Rightarrow> 't transformer_ops \<Rightarrow> ('m, 'y) learner_ops \<Rightarrow> f64 list \<times> 'y
     \<Rightarrow> ('t, 'm) pipeline \<Rightarrow> (rill_error + unit) \<times> ('t, 'm) pipeline" where
  "pipeline_learn check to mo xy p = (case xy of (xs, y) \<Rightarrow>
     (case check y of Inl e \<Rightarrow> (Inl e, p) | Inr _ \<Rightarrow>
     (case tr_update to xs (pl_transformer p) of
        (Inl e, t) \<Rightarrow> (Inl e, p\<lparr>pl_transformer := t\<rparr>)
      | (Inr _, t) \<Rightarrow>
        let p1 = p\<lparr>pl_transformer := t\<rparr> in
        (case tr_transform to t xs of
           Inl e \<Rightarrow> (Inl e, p1)
         | Inr zs \<Rightarrow> (case le_learn mo (zs, y) (pl_model p1) of (r, m) \<Rightarrow> (r, p1\<lparr>pl_model := m\<rparr>))))))"

text \<open>The clones are updated and committed together.\<close>

definition pipeline_commit ::
    "'t transformer_ops \<Rightarrow> f64 list \<Rightarrow> (f64 list \<Rightarrow> 'm \<Rightarrow> (rill_error + unit) \<times> 'm) \<Rightarrow> ('t, 'm) pipeline
     \<Rightarrow> rill_error + ('t, 'm) pipeline" where
  "pipeline_commit to xs learn p =
     (case tr_update to xs (pl_transformer p) of
        (Inl e, t) \<Rightarrow> Inl e
      | (Inr _, t) \<Rightarrow> and_then (tr_transform to t xs) (\<lambda>zs.
          (case learn zs (pl_model p) of
             (Inl e, m) \<Rightarrow> Inl e
           | (Inr _, m) \<Rightarrow> Inr (p\<lparr>pl_transformer := t, pl_model := m\<rparr>))))"

definition pipeline_learn_transactional ::
    "'t transformer_ops \<Rightarrow> ('m, 'y) learner_ops \<Rightarrow> f64 list \<times> 'y \<Rightarrow> ('t, 'm) pipeline
     \<Rightarrow> (rill_error + unit) \<times> ('t, 'm) pipeline" where
  "pipeline_learn_transactional to mo xy p = (case xy of (xs, y) \<Rightarrow>
     transact p (pipeline_commit to xs (\<lambda>zs. le_learn mo (zs, y)) p))"

definition pipeline_learn_weighted ::
    "('y \<Rightarrow> rill_error + unit) \<Rightarrow> 't transformer_ops \<Rightarrow> ('m, 'y) learner_ops \<Rightarrow> f64 list \<times> 'y \<times> f64
     \<Rightarrow> ('t, 'm) pipeline \<Rightarrow> (rill_error + unit) \<times> ('t, 'm) pipeline" where
  "pipeline_learn_weighted check to mo xyw p = (case xyw of (xs, y, w) \<Rightarrow> transact p
     (and_then (validate_weight w) (\<lambda>_.
      and_then (check y) (\<lambda>_.
        if feq w 0 then and_then (tr_transform to (pl_transformer p) xs) (\<lambda>_. Inr p)
        else pipeline_commit to xs (\<lambda>zs. le_learn_weighted mo (zs, y, w)) p))))"

definition pipeline_reset :: "'t transformer_ops \<Rightarrow> ('m, 'y) learner_ops \<Rightarrow> ('t, 'm) pipeline \<Rightarrow> ('t, 'm) pipeline" where
  "pipeline_reset to mo p =
     p\<lparr>pl_transformer := tr_reset to (pl_transformer p), pl_model := le_reset mo (pl_model p)\<rparr>"

definition pipeline_samples_seen :: "'t transformer_ops \<Rightarrow> ('t, 'm) pipeline \<Rightarrow> u64" where
  "pipeline_samples_seen to p = tr_samples_seen to (pl_transformer p)"

definition pipeline_validate_state ::
    "string \<Rightarrow> 't transformer_ops \<Rightarrow> ('m, 'y) learner_ops \<Rightarrow> ('t, 'm) pipeline \<Rightarrow> rill_error + unit" where
  "pipeline_validate_state kind to mo p =
     and_then (tr_validate to (pl_transformer p)) (\<lambda>_.
     and_then (le_validate mo (pl_model p)) (\<lambda>_.
       if tr_output_dim to (pl_transformer p) \<noteq> le_feature_count mo (pl_model p)
       then Inl (InvalidState (kind @ '' pipeline dimension mismatch: transformer output_dim ''
                   @ decimal (tr_output_dim to (pl_transformer p)) @ '' != model feature_count ''
                   @ decimal (le_feature_count mo (pl_model p))))
       else Inr ()))"

text \<open>The kinds of step a pipeline takes.\<close>

datatype 'y pipeline_op = PLearn "f64 list" 'y | PTransactional "f64 list" 'y | PWeighted "f64 list" 'y f64 | PReset

fun pipeline_exec ::
    "('y \<Rightarrow> rill_error + unit) \<Rightarrow> 't transformer_ops \<Rightarrow> ('m, 'y) learner_ops \<Rightarrow> 'y pipeline_op
     \<Rightarrow> ('t, 'm) pipeline \<Rightarrow> (rill_error + unit) \<times> ('t, 'm) pipeline" where
  "pipeline_exec check to mo (PLearn xs y) p = pipeline_learn check to mo (xs, y) p"
| "pipeline_exec check to mo (PTransactional xs y) p = pipeline_learn_transactional to mo (xs, y) p"
| "pipeline_exec check to mo (PWeighted xs y w) p = pipeline_learn_weighted check to mo (xs, y, w) p"
| "pipeline_exec check to mo PReset p = (Inr (), pipeline_reset to mo p)"

section \<open>Stages that keep their invariants\<close>

locale pipeline_stages =
  fixes to :: "'t transformer_ops" and mo :: "('m, 'y) learner_ops"
    and check :: "'y \<Rightarrow> rill_error + unit" and t_ok :: "'t \<Rightarrow> bool" and m_ok :: "'m \<Rightarrow> bool"
  assumes update_ok: "t_ok t \<Longrightarrow> t_ok (snd (tr_update to xs t))"
    and learn_ok: "m_ok m \<Longrightarrow> m_ok (snd (le_learn mo xy m))"
    and weighted_ok: "m_ok m \<Longrightarrow> m_ok (snd (le_learn_weighted mo xyw m))"
    and reset_ok: "t_ok t \<Longrightarrow> t_ok (tr_reset to t)" "m_ok m \<Longrightarrow> m_ok (le_reset mo m)"
    and valid: "t_ok t \<Longrightarrow> tr_validate to t = Inr ()" "m_ok m \<Longrightarrow> le_validate mo m = Inr ()"
    and dims: "t_ok t \<Longrightarrow> m_ok m \<Longrightarrow> tr_output_dim to t = le_feature_count mo m"
begin

definition pipe_ok :: "('t, 'm) pipeline \<Rightarrow> bool" where
  "pipe_ok p \<longleftrightarrow> t_ok (pl_transformer p) \<and> m_ok (pl_model p)"

lemma pipe_ok_valid: "pipe_ok p \<Longrightarrow> pipeline_validate_state kind to mo p = Inr ()"
  by (simp add: pipe_ok_def pipeline_validate_state_def valid dims)

lemma commit_ok:
  assumes "pipeline_commit to xs learn p = Inr p'" "pipe_ok p" "\<And>zs m. m_ok m \<Longrightarrow> m_ok (snd (learn zs m))"
  shows "pipe_ok p'"
proof -
  obtain r t where t: "tr_update to xs (pl_transformer p) = (r, t)" by fastforce
  have "t_ok t" using update_ok [of "pl_transformer p" xs] t assms(2) by (simp add: pipe_ok_def)
  moreover have "\<exists>zs. p' = p\<lparr>pl_transformer := t, pl_model := snd (learn zs (pl_model p))\<rparr>"
  proof -
    obtain zs where "(case learn zs (pl_model p) of (Inl e, m) \<Rightarrow> Inl e
        | (Inr _, m) \<Rightarrow> Inr (p\<lparr>pl_transformer := t, pl_model := m\<rparr>)) = Inr p'"
      using assms(1) t by (cases r) (auto simp: pipeline_commit_def and_then_Inr)
    then show ?thesis
      by (intro exI [of _ zs]) (cases "learn zs (pl_model p)"; cases "fst (learn zs (pl_model p))"; simp)
  qed
  ultimately show ?thesis using assms(2,3) by (auto simp: pipe_ok_def)
qed

lemma transact_ok: "(\<And>p'. r = Inr p' \<Longrightarrow> pipe_ok p') \<Longrightarrow> pipe_ok p \<Longrightarrow> pipe_ok (snd (transact p r))"
  by (cases r) simp_all

lemma learn_pipe_ok: "pipe_ok p \<Longrightarrow> pipe_ok (snd (pipeline_learn check to mo (xs, y) p))"
proof -
  assume p: "pipe_ok p"
  obtain r t where t: "tr_update to xs (pl_transformer p) = (r, t)" by fastforce
  have ok: "t_ok t" "m_ok (pl_model p)" using p update_ok [of "pl_transformer p" xs] t by (simp_all add: pipe_ok_def)
  have m: "m_ok m" if "le_learn mo (zs, y) (pl_model p) = (r', m)" for zs r' m
    using learn_ok [OF ok(2), of "(zs, y)"] that by simp
  show ?thesis
    using p t ok m by (auto simp: pipeline_learn_def pipe_ok_def Let_def split: sum.splits prod.splits)
qed

lemma exec_pipe_ok: "pipe_ok p \<Longrightarrow> pipe_ok (snd (pipeline_exec check to mo x p))"
proof (cases x)
  case (PTransactional xs y)
  assume p: "pipe_ok p"
  show ?thesis
    unfolding PTransactional pipeline_exec.simps pipeline_learn_transactional_def prod.case
    by (rule transact_ok [OF _ p], erule commit_ok [OF _ p], rule learn_ok)
next
  case (PWeighted xs y w)
  assume p: "pipe_ok p"
  show ?thesis
    unfolding PWeighted pipeline_exec.simps pipeline_learn_weighted_def prod.case
    by (rule transact_ok [OF _ p])
      (auto simp: and_then_Inr p split: if_splits elim!: commit_ok [OF _ p] intro: weighted_ok)
qed (simp_all add: learn_pipe_ok, simp add: pipe_ok_def pipeline_reset_def reset_ok)

lemma run_pipe_ok: "pipe_ok p \<Longrightarrow> pipe_ok (run_ops (pipeline_exec check to mo) ops p)"
  by (induction ops arbitrary: p) (simp_all add: exec_pipe_ok)

end

section \<open>A scaler before a linear model\<close>

definition scaler_ops :: "standard_scaler transformer_ops" where
  "scaler_ops = \<lparr>tr_input_dim = ss_feature_count, tr_output_dim = ss_feature_count,
     tr_transform = standard_scaler_transform, tr_update = standard_scaler_update,
     tr_samples_seen = standard_scaler_samples_seen, tr_reset = standard_scaler_reset,
     tr_validate = standard_scaler_validate\<rparr>"

definition linear_ops :: "(linear_regression, f64) learner_ops" where
  "linear_ops = \<lparr>le_feature_count = lr_feature_count, le_predict = linear_regression_predict,
     le_learn = linear_regression_learn, le_learn_weighted = linear_regression_learn_weighted,
     le_reset = linear_regression_reset, le_validate = linear_regression_validate_state\<rparr>"

definition logistic_ops :: "(f64 \<Rightarrow> f64) \<Rightarrow> (logistic_regression, bool) learner_ops" where
  "logistic_ops libexp = \<lparr>le_feature_count = lg_feature_count, le_predict = logistic_predict_proba libexp,
     le_learn = logistic_learn libexp, le_learn_weighted = logistic_learn_weighted libexp,
     le_reset = logistic_reset, le_validate = logistic_validate_state\<rparr>"

lemma scaler_update_count: "ss_feature_count (snd (standard_scaler_update xs s)) = ss_feature_count s"
proof -
  obtain r s' where e: "standard_scaler_update xs s = (r, s')" by fastforce
  then show ?thesis
    using scaler.error_unchanged standard_scaler_update_ok by (cases r) force+
qed

lemma linear_apply_count: "linear_regression_apply gs g n m = Inr m' \<Longrightarrow> lr_feature_count m' = lr_feature_count m"
  by (auto simp: linear_regression_apply_def result_simps)

lemma linear_count:
  "lr_feature_count (snd (linear_regression_learn xy m)) = lr_feature_count m"
  "lr_feature_count (snd (linear_regression_learn_weighted xyw m)) = lr_feature_count m"
proof -
  have t: "lr_feature_count (snd (transact m r)) = lr_feature_count m"
    if "\<And>m'. r = Inr m' \<Longrightarrow> lr_feature_count m' = lr_feature_count m" for r :: "rill_error + linear_regression"
    using that by (cases r) simp_all
  show "lr_feature_count (snd (linear_regression_learn xy m)) = lr_feature_count m"
    by (cases xy) (auto simp: linear_regression_learn_def and_then_Inr Let_def linear_apply_count intro!: t)
  show "lr_feature_count (snd (linear_regression_learn_weighted xyw m)) = lr_feature_count m"
    by (cases xyw)
      (auto simp: linear_regression_learn_weighted_def and_then_Inr Let_def linear_apply_count split: if_splits intro!: t)
qed

lemma linear_weighted_ok:
  "linear_regression_validate_state m = Inr () \<Longrightarrow>
   linear_regression_validate_state (snd (linear_regression_learn_weighted xyw m)) = Inr ()"
  using linear.exec_inv [of m "LearnWeighted (fst xyw, fst (snd xyw)) (snd (snd xyw))"] by simp

definition scaler_dim_ok :: "usize \<Rightarrow> standard_scaler \<Rightarrow> bool" where
  "scaler_dim_ok d s \<longleftrightarrow> standard_scaler_validate s = Inr () \<and> ss_feature_count s = d"

definition linear_dim_ok :: "usize \<Rightarrow> linear_regression \<Rightarrow> bool" where
  "linear_dim_ok d m \<longleftrightarrow> linear_regression_validate_state m = Inr () \<and> lr_feature_count m = d"

interpretation scaled_linear: pipeline_stages scaler_ops linear_ops ensure_finite_target "scaler_dim_ok d" "linear_dim_ok d" for d
proof unfold_locales
  show "scaler_dim_ok d t \<Longrightarrow> scaler_dim_ok d (snd (tr_update scaler_ops xs t))" for t xs
    by (simp add: scaler_dim_ok_def scaler_ops_def scaler_update_count scaler.exec_inv)
  show "linear_dim_ok d m \<Longrightarrow> linear_dim_ok d (snd (le_learn linear_ops xy m))" for m xy
    by (simp add: linear_dim_ok_def linear_ops_def linear_count linear_learn.exec_inv)
  show "linear_dim_ok d m \<Longrightarrow> linear_dim_ok d (snd (le_learn_weighted linear_ops xyw m))" for m xyw
    by (simp add: linear_dim_ok_def linear_ops_def linear_count linear_weighted_ok)
qed (simp_all add: scaler_dim_ok_def linear_dim_ok_def scaler_ops_def linear_ops_def standard_scaler_reset_ok
    linear_regression_reset_ok, simp_all add: standard_scaler_reset_def linear_regression_reset_def)

section \<open>Properties\<close>

text \<open>
  C19: transactional learning. For a target that passes the check, the transactional variant returns what plain
  learning returns, whatever the transformer and the model do; on success it leaves the same pipeline,
  and on an error it leaves the pipeline it started from.
\<close>

theorem transactional_is_atomic_learning:
  assumes "check y = Inr ()"
  shows "pipeline_learn_transactional to mo (xs, y) p =
    (case pipeline_learn check to mo (xs, y) p of
       (Inl e, p') \<Rightarrow> (Inl e, p)
     | (Inr _, p') \<Rightarrow> (Inr (), p'))"
proof -
  obtain r t where t: "tr_update to xs (pl_transformer p) = (r, t)" by fastforce
  show ?thesis
  proof (cases r)
    case (Inr u)
    show ?thesis
    proof (cases "tr_transform to t xs")
      case (Inr zs)
      obtain r' m where "le_learn mo (zs, y) (pl_model p) = (r', m)" by fastforce
      then show ?thesis using assms t Inr \<open>r = Inr u\<close>
        by (cases r') (simp_all add: pipeline_learn_transactional_def pipeline_commit_def pipeline_learn_def Let_def)
    qed (use assms t Inr in \<open>simp add: pipeline_learn_transactional_def pipeline_commit_def pipeline_learn_def Let_def\<close>)
  qed (use assms t in \<open>simp add: pipeline_learn_transactional_def pipeline_commit_def pipeline_learn_def\<close>)
qed

text \<open>
  A scaler before a linear regression. From a pipeline built of a new scaler and a new regression over a valid
  optimizer, every sequence of plain, transactional and weighted learning steps and resets leads to a
  pipeline that passes \<open>validate_state\<close>: both stages are valid and their dimensions match.
\<close>

theorem scaled_regression_reachable_valid:
  assumes "standard_scaler_with_config n sc = Inr t" "optimizer_validate_state (lrc_optimizer c) = Inr ()"
    and "linear_regression_new k c = Inr m" "pipeline_new scaler_ops linear_ops t m = Inr p0"
  shows "pipeline_validate_state ''regression'' scaler_ops linear_ops
    (run_ops (pipeline_exec ensure_finite_target scaler_ops linear_ops) ops p0) = Inr ()"
proof -
  have t: "standard_scaler_validate t = Inr ()" by (rule standard_scaler_new_valid [OF assms(1)])
  have m: "linear_regression_validate_state m = Inr ()"
    using linear_regression_new_valid [OF assms(2,3)] by simp
  have "scaled_linear.pipe_ok (ss_feature_count t) p0"
    using assms(4) t m
    by (auto simp: pipeline_new_def scaled_linear.pipe_ok_def scaler_dim_ok_def linear_dim_ok_def scaler_ops_def linear_ops_def
        split: if_splits)
  from scaled_linear.pipe_ok_valid [OF scaled_linear.run_pipe_ok [OF this]] show ?thesis .
qed

theorem transactional_is_atomic_learning_witness:
  "pipeline_learn_transactional scaler_ops linear_ops ([1], 1) \<lparr>pl_transformer = demo_scaler, pl_model = demo_regression\<rparr> =
    (case pipeline_learn ensure_finite_target scaler_ops linear_ops ([1], 1)
            \<lparr>pl_transformer = demo_scaler, pl_model = demo_regression\<rparr> of
       (Inl e, p') \<Rightarrow> (Inl e, \<lparr>pl_transformer = demo_scaler, pl_model = demo_regression\<rparr>)
     | (Inr _, p') \<Rightarrow> (Inr (), p'))"
  by (rule transactional_is_atomic_learning) (simp add: ensure_finite_target_def ensure_finite_def)

lemma demo_scaler_new:
  "standard_scaler_with_config 1 \<lparr>ssc_with_mean = True, ssc_with_std = True, ssc_epsilon = 0\<rparr> = Inr demo_scaler"
  by (simp add: standard_scaler_with_config_def scaler_check_config_def demo_scaler_def ensure_def ensure_finite_def less_finite)

theorem scaled_regression_reachable_valid_witness:
  "pipeline_validate_state ''regression'' scaler_ops linear_ops
    (run_ops (pipeline_exec ensure_finite_target scaler_ops linear_ops)
       [PLearn [1] 1, PTransactional [f_inf] 1, PWeighted [1] 1 (1 + 1), PReset]
       \<lparr>pl_transformer = demo_scaler, pl_model = demo_regression\<rparr>) = Inr ()"
proof -
  let ?o = "Sgd \<lparr>sg_feature_count = 1, sg_config = \<lparr>sc_learning_rate = 1, sc_l2 = 0\<rparr>, sg_samples_seen = 0\<rparr>"
  have o: "optimizer_validate_state (lrc_optimizer \<lparr>lrc_optimizer = ?o, lrc_loss = SquaredError\<rparr>) = Inr ()"
    by (simp add: sgd_validate_state_def sgd_check_def ensure_def ensure_finite_def less_finite less_eq_finite)
  have m: "linear_regression_new 1 \<lparr>lrc_optimizer = ?o, lrc_loss = SquaredError\<rparr> = Inr demo_regression"
    by (simp add: linear_regression_new_def demo_regression_def)
  show ?thesis
    by (rule scaled_regression_reachable_valid [OF demo_scaler_new o m])
      (simp add: pipeline_new_def scaler_ops_def linear_ops_def demo_scaler_def demo_regression_def)
qed

end
