(* ===== verification/Sorted_Search.thy ===== *)
theory Sorted_Search imports Rill_Prelude begin

text \<open>
  \<open>slice::binary_search_by\<close> of the standard library, as its loop, and what it returns on a slice in
  strictly ascending order: the index of the key, or the index where it has to be inserted.
\<close>

datatype ordering = Less | Equal | Greater

definition compare :: "'a::linorder \<Rightarrow> 'a \<Rightarrow> ordering" where
  "compare a b = (if a < b then Less else if a = b then Equal else Greater)"

text \<open>The loop halves \<open>size\<close> until one candidate is left.\<close>

function search_loop :: "(nat \<Rightarrow> ordering) \<Rightarrow> nat \<Rightarrow> nat \<Rightarrow> nat" where
  "search_loop f base len =
     (if 1 < len
      then let half = len div 2; mid = base + half
           in search_loop f (if f mid = Greater then base else mid) (len - half)
      else base)"
  by pat_completeness auto
termination by (relation "measure (\<lambda>(f, base, len). len)") auto

declare search_loop.simps [simp del]

definition binary_search_by :: "(nat \<Rightarrow> ordering) \<Rightarrow> nat \<Rightarrow> nat + nat" where
  "binary_search_by f n =
     (if n = 0 then Inl 0
      else let b = search_loop f 0 n
           in (case f b of Equal \<Rightarrow> Inr b | Less \<Rightarrow> Inl (b + 1) | Greater \<Rightarrow> Inl b))"

definition search_key :: "'k::linorder \<Rightarrow> 'k list \<Rightarrow> nat + nat" where
  "search_key k ks = binary_search_by (\<lambda>i. compare (ks ! i) k) (length ks)"

definition insert_at :: "nat \<Rightarrow> 'a \<Rightarrow> 'a list \<Rightarrow> 'a list" where
  "insert_at i x xs = take i xs @ x # drop i xs"

lemma compare_simps [simp]:
  "compare a b = Less \<longleftrightarrow> a < b" "compare a b = Equal \<longleftrightarrow> a = b" "compare a b = Greater \<longleftrightarrow> b < a"
  by (auto simp: compare_def)

lemma sorted_below: "sorted_wrt (<) ks \<Longrightarrow> i \<le> j \<Longrightarrow> j < length ks \<Longrightarrow> ks ! i \<le> (ks ! j :: 'k :: linorder)"
  using sorted_wrt_nth_less [of "(<)" ks i j] by (cases "i = j") auto

text \<open>The key is at the returned position, or all keys up to there are smaller and the rest larger.\<close>

lemma search_loop_sound:
  assumes "sorted ks" "0 < len" "base + len \<le> length ks"
    and "base = 0 \<or> ks ! base \<le> k" "base + len = length ks \<or> k < ks ! (base + len)"
  shows "search_loop (\<lambda>i. compare (ks ! i) k) base len < length ks
    \<and> (search_loop (\<lambda>i. compare (ks ! i) k) base len = 0 \<or> ks ! search_loop (\<lambda>i. compare (ks ! i) k) base len \<le> k)
    \<and> (search_loop (\<lambda>i. compare (ks ! i) k) base len + 1 = length ks
       \<or> k < ks ! (search_loop (\<lambda>i. compare (ks ! i) k) base len + 1))"
  using assms
proof (induction "\<lambda>i. compare (ks ! i) k" base len rule: search_loop.induct)
  case (1 base len)
  show ?case
  proof (cases "1 < len")
    case True
    let ?mid = "base + len div 2"
    let ?base = "if compare (ks ! ?mid) k = Greater then base else ?mid"
    have "search_loop (\<lambda>i. compare (ks ! i) k) base len
        = search_loop (\<lambda>i. compare (ks ! i) k) ?base (len - len div 2)"
      using True by (subst search_loop.simps) (simp add: Let_def)
    moreover have "?base = 0 \<or> ks ! ?base \<le> k" using 1 by (simp add: not_less)
    moreover have "?base + (len - len div 2) \<le> length ks" "0 < len - len div 2" using "1.prems" True by auto
    moreover have "?base + (len - len div 2) = length ks \<or> k < ks ! (?base + (len - len div 2))"
    proof (cases "k < ks ! ?mid")
      case g: True
      have m: "?mid \<le> base + (len - len div 2)" by simp
      show ?thesis
      proof (cases "base + (len - len div 2) = length ks")
        case False
        then have "base + (len - len div 2) < length ks" using "1.prems"(2,3) by simp
        then have "ks ! ?mid \<le> ks ! (base + (len - len div 2))" using sorted_nth_mono [OF "1.prems"(1) m] by blast
        then show ?thesis using g by auto
      qed (use g in simp)
    qed (use "1.prems" True in \<open>simp add: not_less\<close>)
    ultimately show ?thesis using "1.hyps" [OF True refl refl] "1.prems"(1) by simp
  next
    case False
    then have "len = 1" using "1.prems" by simp
    then show ?thesis using "1.prems" by (simp add: search_loop.simps)
  qed
qed

lemma search_key_Inr:
  assumes "sorted_wrt (<) ks"
  shows "search_key k ks = Inr i \<longleftrightarrow> i < length ks \<and> ks ! i = k"
proof (cases "ks = []")
  case False
  define b where "b = search_loop (\<lambda>i. compare (ks ! i) k) 0 (length ks)"
  have b: "b < length ks" "b = 0 \<or> ks ! b \<le> k" "b + 1 = length ks \<or> k < ks ! (b + 1)"
    using search_loop_sound [OF strict_sorted_imp_sorted [OF assms], of "length ks" 0 k] False unfolding b_def by auto
  have at: "i = b" if "i < length ks" "ks ! i = k"
  proof (rule ccontr)
    assume "i \<noteq> b"
    then consider "i < b" | "b + 1 \<le> i" by linarith
    then show False
    proof cases
      case 1
      then show False using sorted_wrt_nth_less [OF assms, of i b] b(1,2) that by simp
    next
      case 2
      then show False using sorted_below [OF assms 2 that(1)] b(3) that by auto
    qed
  qed
  have "search_key k ks = (case compare (ks ! b) k of Equal \<Rightarrow> Inr b | Less \<Rightarrow> Inl (b + 1) | Greater \<Rightarrow> Inl b)"
    using False unfolding b_def by (simp add: search_key_def binary_search_by_def Let_def)
  then show ?thesis using at b(1) by (cases "compare (ks ! b) k") (auto simp: compare_def split: if_splits)
qed (simp add: search_key_def binary_search_by_def)

text \<open>On a slice that may repeat keys the search still decides membership.\<close>

lemma search_key_member:
  assumes "sorted ks"
  shows "(\<exists>i. search_key k ks = Inr i) \<longleftrightarrow> k \<in> set ks"
proof (cases "ks = []")
  case False
  define b where "b = search_loop (\<lambda>i. compare (ks ! i) k) 0 (length ks)"
  have b: "b < length ks" "b = 0 \<or> ks ! b \<le> k" "b + 1 = length ks \<or> k < ks ! (b + 1)"
    using search_loop_sound [OF assms, of "length ks" 0 k] False unfolding b_def by auto
  have "ks ! b = k" if k: "k \<in> set ks"
  proof -
    from k obtain j where j: "j < length ks" "ks ! j = k" by (auto simp: in_set_conv_nth)
    have "j \<le> b"
      using sorted_nth_mono [OF assms, of "b + 1" j] b(3) j by (cases "b + 1 \<le> j") auto
    then have "k \<le> ks ! b" using sorted_nth_mono [OF assms, of j b] b(1) j(2) by simp
    then show "ks ! b = k" using b(2) \<open>j \<le> b\<close> j(2) by auto
  qed
  moreover have "search_key k ks = (case compare (ks ! b) k of Equal \<Rightarrow> Inr b | Less \<Rightarrow> Inl (b + 1) | Greater \<Rightarrow> Inl b)"
    using False unfolding b_def by (simp add: search_key_def binary_search_by_def Let_def)
  ultimately show ?thesis using b(1) nth_mem [OF b(1)] by (auto simp: compare_def split: if_splits)
qed (simp add: search_key_def binary_search_by_def)

lemma search_key_Inl:
  assumes "sorted_wrt (<) ks" "search_key k ks = Inl i"
  shows "i \<le> length ks \<and> (\<forall>x \<in> set (take i ks). x < k) \<and> (\<forall>x \<in> set (drop i ks). k < x)"
proof (cases "ks = []")
  case False
  define b where "b = search_loop (\<lambda>i. compare (ks ! i) k) 0 (length ks)"
  have b: "b < length ks" "b = 0 \<or> ks ! b \<le> k" "b + 1 = length ks \<or> k < ks ! (b + 1)"
    using search_loop_sound [OF strict_sorted_imp_sorted [OF assms(1)], of "length ks" 0 k] False unfolding b_def by auto
  have s: "search_key k ks = (case compare (ks ! b) k of Equal \<Rightarrow> Inr b | Less \<Rightarrow> Inl (b + 1) | Greater \<Rightarrow> Inl b)"
    using False unfolding b_def by (simp add: search_key_def binary_search_by_def Let_def)
  have i: "ks ! b < k \<and> i = b + 1 \<or> k < ks ! b \<and> i = b \<and> b = 0"
    using s assms(2) b(2) by (cases "compare (ks ! b) k") (auto simp: compare_def split: if_splits)
  have "ks ! j < k" if "j < i" for j
    using i that sorted_below [OF assms(1), of j b] b(1) by force
  moreover have "k < ks ! j" if "i \<le> j" "j < length ks" for j
    using i that sorted_below [OF assms(1) that(1) that(2)] b(3) by force
  ultimately show ?thesis using i b(1) by (auto simp: in_set_conv_nth)
qed (use assms in \<open>simp add: search_key_def binary_search_by_def\<close>)

lemma insert_at_sorted:
  assumes "sorted_wrt (<) ks" "search_key k ks = Inl i"
  shows "sorted_wrt (<) (insert_at i k ks) \<and> set (insert_at i k ks) = insert k (set ks)"
proof -
  note s = search_key_Inl [OF assms]
  have "sorted_wrt (<) (take i ks @ drop i ks)" using assms(1) by simp
  then have "sorted_wrt (<) (insert_at i k ks)"
    using s by (auto simp: insert_at_def sorted_wrt_append simp del: append_take_drop_id)
  moreover have "set ks = set (take i ks) \<union> set (drop i ks)" by (metis append_take_drop_id set_append)
  ultimately show ?thesis by (auto simp: insert_at_def)
qed

end
