(* ===== verification/Categorical.thy ===== *)
theory Categorical imports Sorted_Search BTree_Map Machine Rill_Error F64_Step F64_Text begin

text \<open>
  The encoders of category names of \<open>src/preprocessing\<close>: ordinal, one-hot and frequency. A name is the
  list of its bytes, whose lexicographic order is the order of \<open>str\<close>.
\<close>

section \<open>Ordinal and one-hot\<close>

text \<open>Both encoders keep the same state.\<close>

record category_encoder =
  ce_categories :: "string list"
  ce_samples_seen :: u64

definition encoder_new :: category_encoder where
  "encoder_new = \<lparr>ce_categories = [], ce_samples_seen = 0\<rparr>"

definition category_index :: "category_encoder \<Rightarrow> string \<Rightarrow> usize option" where
  "category_index s c = (case search_key c (ce_categories s) of Inl i \<Rightarrow> None | Inr i \<Rightarrow> Some i)"

definition fit_one :: "string \<Rightarrow> category_encoder \<Rightarrow> category_encoder" where
  "fit_one c s = (case search_key c (ce_categories s) of
     Inr i \<Rightarrow> s | Inl i \<Rightarrow> s\<lparr>ce_categories := insert_at i c (ce_categories s)\<rparr>)"

definition ordinal_transform :: "category_encoder \<Rightarrow> string list \<Rightarrow> rill_error + f64 list" where
  "ordinal_transform s names =
     (if names = [] then Inl EmptyFeatures
      else if ce_categories s = [] then Inr []
      else try_map (\<lambda>c. ok_or (map_option f_of_nat (category_index s c)) (UnknownCategory c)) names)"

definition ordinal_update :: "string list \<Rightarrow> category_encoder \<Rightarrow> (rill_error + unit) \<times> category_encoder" where
  "ordinal_update names s =
     (if names = [] then (Inl EmptyFeatures, s)
      else let s1 = fold fit_one names s in transact s1
        (and_then (checked_increment (ce_samples_seen s1) ''samples_seen'') (\<lambda>n. Inr (s1\<lparr>ce_samples_seen := n\<rparr>))))"

definition encoder_reset :: "category_encoder \<Rightarrow> category_encoder" where
  "encoder_reset s = s\<lparr>ce_categories := [], ce_samples_seen := 0\<rparr>"

fun strictly_sorted :: "'a::linorder list \<Rightarrow> bool" where
  "strictly_sorted (x # y # xs) = (x < y \<and> strictly_sorted (y # xs))"
| "strictly_sorted xs = True"

definition encoder_validate_state :: "string \<Rightarrow> category_encoder \<Rightarrow> rill_error + unit" where
  "encoder_validate_state kind s =
     (if strictly_sorted (ce_categories s) then Inr ()
      else Inl (InvalidState (kind @ '' encoder categories must be strictly sorted'')))"

definition one_hot_set :: "category_encoder \<Rightarrow> f64 list \<Rightarrow> nat \<times> string \<Rightarrow> rill_error + f64 list" where
  "one_hot_set s out ic = (case ic of (i, c) \<Rightarrow>
     and_then (ok_or (category_index s c) (UnknownCategory c)) (\<lambda>idx.
       Inr (out[i * length (ce_categories s) + idx := 1])))"

definition one_hot_transform :: "category_encoder \<Rightarrow> string list \<Rightarrow> rill_error + f64 list" where
  "one_hot_transform s names =
     (if names = [] then Inl EmptyFeatures
      else if ce_categories s = [] then Inr []
      else try_fold (one_hot_set s) (replicate (length names * length (ce_categories s)) 0) (List.enumerate 0 names))"

text \<open>The counter of the one-hot encoder is incremented without a check: it wraps in a release build.\<close>

definition one_hot_update :: "string list \<Rightarrow> category_encoder \<Rightarrow> (rill_error + unit) \<times> category_encoder" where
  "one_hot_update names s =
     (if names = [] then (Inl EmptyFeatures, s)
      else let s1 = fold fit_one names s in (Inr (), s1\<lparr>ce_samples_seen := ce_samples_seen s1 + 1\<rparr>))"

section \<open>Frequencies\<close>

record frequency_encoder =
  fe_category_counts :: "(string, u64) btree"
  fe_total :: u64
  fe_samples_seen :: u64

definition frequency_new :: frequency_encoder where
  "frequency_new = \<lparr>fe_category_counts = bt_empty, fe_total = 0, fe_samples_seen = 0\<rparr>"

definition frequency_of :: "frequency_encoder \<Rightarrow> string \<Rightarrow> f64" where
  "frequency_of s c = (case bt_get (fe_category_counts s) c of
     None \<Rightarrow> 0 | Some n \<Rightarrow> f_of_u64 n / f_of_u64 (fe_total s))"

definition frequency_transform :: "frequency_encoder \<Rightarrow> string list \<Rightarrow> rill_error + f64 list" where
  "frequency_transform s names =
     (if names = [] then Inl EmptyFeatures
      else if fe_total s = 0 then Inr (map (\<lambda>_. 0) names)
      else Inr (map (frequency_of s) names))"

text \<open>\<open>entry(..).or_insert(0)\<close> stores the zero before the checked increment.\<close>

definition frequency_count :: "string \<Rightarrow> frequency_encoder \<Rightarrow> (rill_error + unit) \<times> frequency_encoder" where
  "frequency_count c s =
     (let n = (case bt_get (fe_category_counts s) c of None \<Rightarrow> 0 | Some n \<Rightarrow> n);
          s1 = s\<lparr>fe_category_counts := bt_insert c n (fe_category_counts s)\<rparr> in
      transact s1 (and_then (checked_increment n ''category_count'') (\<lambda>n'.
        Inr (s1\<lparr>fe_category_counts := bt_insert c n' (fe_category_counts s1)\<rparr>))))"

definition frequency_update :: "string list \<Rightarrow> frequency_encoder \<Rightarrow> (rill_error + unit) \<times> frequency_encoder" where
  "frequency_update names s =
     (if names = [] then (Inl EmptyFeatures, s)
      else then_mut (for_each_mut frequency_count names s) (\<lambda>_ s1.
        (case checked_add_u64 (fe_total s1) (of_nat (length names)) of
           None \<Rightarrow> (Inl (InvalidState ''total counter overflow''), s1)
         | Some t \<Rightarrow>
           let s2 = s1\<lparr>fe_total := t\<rparr> in transact s2
             (and_then (checked_increment (fe_samples_seen s2) ''samples_seen'') (\<lambda>n.
               Inr (s2\<lparr>fe_samples_seen := n\<rparr>))))))"

definition frequency_reset :: "frequency_encoder \<Rightarrow> frequency_encoder" where
  "frequency_reset s = s\<lparr>fe_category_counts := bt_empty, fe_total := 0, fe_samples_seen := 0\<rparr>"

definition frequency_validate_state :: "frequency_encoder \<Rightarrow> rill_error + unit" where
  "frequency_validate_state s =
     and_then (try_for_each (\<lambda>(c, n).
         if n = 0 then Inl (InvalidState (''frequency encoder category `'' @ c @ ''` has zero count'')) else Inr ())
       (bt_entries (fe_category_counts s))) (\<lambda>_.
       let t = sum_list (bt_values (fe_category_counts s)) in
       if fe_total s \<noteq> t
       then Inl (InvalidState (''frequency encoder total ('' @ decimal (unat (fe_total s))
                   @ '') does not match sum of category counts ('' @ decimal (unat t) @ '')''))
       else if fe_total s < fe_samples_seen s
       then Inl (InvalidState (''frequency encoder samples_seen ('' @ decimal (unat (fe_samples_seen s))
                   @ '') cannot exceed total ('' @ decimal (unat (fe_total s)) @ '')''))
       else Inr ())"

section \<open>The encoders keep the set of names\<close>

lemma strictly_sorted_iff: "strictly_sorted xs \<longleftrightarrow> sorted_wrt (<) xs"
  by (induction xs rule: strictly_sorted.induct) (auto intro: less_trans)

definition holds_names :: "string set \<Rightarrow> category_encoder \<Rightarrow> bool" where
  "holds_names N s \<longleftrightarrow> sorted_wrt (<) (ce_categories s) \<and> set (ce_categories s) = N"

lemma fit_one_names: "holds_names N s \<Longrightarrow> holds_names (insert c N) (fit_one c s)"
  using insert_at_sorted [of "ce_categories s" c] search_key_Inr [of "ce_categories s" c]
  by (auto simp: holds_names_def fit_one_def insert_absorb split: sum.splits)

lemma fit_all_names: "holds_names N s \<Longrightarrow> holds_names (set cs \<union> N) (fold fit_one cs s)"
proof (induction cs arbitrary: N s)
  case (Cons c cs)
  from Cons.IH [OF fit_one_names [OF Cons.prems]] show ?case by simp
qed simp

lemma update_names: "holds_names N s \<Longrightarrow> holds_names (set cs \<union> N) (snd (ordinal_update cs s))"
proof -
  assume h: "holds_names N s"
  have t: "ce_categories (snd (transact s1 (and_then r (\<lambda>n. Inr (s1\<lparr>ce_samples_seen := n\<rparr>))))) = ce_categories s1"
    for s1 and r :: "rill_error + u64"
    by (cases r) simp_all
  show ?thesis
    using h fit_all_names [OF h, of cs] t [of "fold fit_one cs s"]
    by (simp add: ordinal_update_def Let_def holds_names_def)
qed

lemma run_names:
  "holds_names N s \<Longrightarrow> holds_names (\<Union> (set ` set css) \<union> N) (run_ops ordinal_update css s)"
proof (induction css arbitrary: N s)
  case (Cons cs css)
  from Cons.IH [OF update_names [OF Cons.prems, of cs]] show ?case by (simp add: Un_ac)
qed simp

lemma rank_in_sorted: "sorted_wrt (<) xs \<Longrightarrow> i < length xs \<Longrightarrow> card {y \<in> set xs. y < xs ! i} = (i :: nat)" for xs :: "'a :: linorder list"
proof -
  assume a: "sorted_wrt (<) xs" "i < length xs"
  have "{y \<in> set xs. y < xs ! i} = (!) xs ` {..<i}"
  proof (intro equalityI subsetI)
    fix y assume "y \<in> {y \<in> set xs. y < xs ! i}"
    then obtain j where j: "j < length xs" "y = xs ! j" "xs ! j < xs ! i" by (auto simp: in_set_conv_nth)
    have "j < i" using sorted_below [OF a(1), of i j] j by (meson leD not_le)
    then show "y \<in> (!) xs ` {..<i}" using j by blast
  next
    fix y assume "y \<in> (!) xs ` {..<i}"
    then show "y \<in> {y \<in> set xs. y < xs ! i}"
      using sorted_wrt_nth_less [OF a(1)] a(2) by (auto intro: nth_mem)
  qed
  moreover have "inj_on ((!) xs) {..<i}" using a strict_sorted_iff by (auto intro!: inj_on_nth)
  ultimately show ?thesis using card_image by fastforce
qed

lemma category_index_rank:
  assumes "holds_names N s"
  shows "category_index s c = (if c \<in> N then Some (card {d \<in> N. d < c}) else None)"
proof -
  have s: "sorted_wrt (<) (ce_categories s)" "set (ce_categories s) = N" using assms by (simp_all add: holds_names_def)
  show ?thesis
  proof (cases "search_key c (ce_categories s)")
    case (Inl i)
    then have "\<not> (i < length (ce_categories s) \<and> ce_categories s ! i = c)" for i
      using search_key_Inr [OF s(1), of c i] by simp
    then have "c \<notin> N" unfolding s(2) [symmetric] in_set_conv_nth by blast
    then show ?thesis using Inl by (simp add: category_index_def)
  next
    case (Inr i)
    then have "i < length (ce_categories s)" "ce_categories s ! i = c" using search_key_Inr [OF s(1)] by auto
    then show ?thesis using rank_in_sorted [OF s(1), of i] s(2) Inr by (auto simp: category_index_def)
  qed
qed

lemma try_map_total: "(\<And>x. x \<in> set xs \<Longrightarrow> f x = Inr (g x)) \<Longrightarrow> try_map f xs = Inr (map g xs)"
  by (induction xs) simp_all

text \<open>
  C17: ordinal codes. Whatever the order and the batches in which names were offered, an encoder keeps
  the set of the names it has seen, in strictly ascending order as \<open>validate_state\<close> wants it; the code
  of a known name is its rank in that set, so it does not depend on the history, and names never seen
  are rejected.
\<close>

theorem ordinal_codes_are_ranks:
  assumes "s = run_ops ordinal_update css encoder_new" and "N = \<Union> (set ` set css)"
  shows "ce_categories s = sorted_list_of_set N \<and> encoder_validate_state kind s = Inr ()
    \<and> category_index s c = (if c \<in> N then Some (card {d \<in> N. d < c}) else None)
    \<and> (names \<noteq> [] \<and> set names \<subseteq> N \<longrightarrow>
         ordinal_transform s names = Inr (map (\<lambda>c. f_of_nat (card {d \<in> N. d < c})) names))"
proof -
  have "holds_names {} encoder_new" by (simp add: holds_names_def encoder_new_def)
  then have h: "holds_names N s" using run_names [of "{}" encoder_new css] assms by simp
  then have c: "ce_categories s = sorted_list_of_set N"
    by (metis holds_names_def sorted_list_of_set.idem_if_sorted_distinct strict_sorted_iff)
  have "ordinal_transform s names = Inr (map (\<lambda>c. f_of_nat (card {d \<in> N. d < c})) names)"
    if "names \<noteq> []" "set names \<subseteq> N"
  proof -
    have "ce_categories s \<noteq> []" using that h by (cases names) (auto simp: holds_names_def)
    moreover have "try_map (\<lambda>c. ok_or (map_option f_of_nat (category_index s c)) (UnknownCategory c)) names
        = Inr (map (\<lambda>c. f_of_nat (card {d \<in> N. d < c})) names)"
      using that(2) category_index_rank [OF h] by (intro try_map_total) (auto simp: ok_or_def)
    ultimately show ?thesis using that(1) by (simp add: ordinal_transform_def)
  qed
  then show ?thesis
    using c category_index_rank [OF h] h by (simp add: encoder_validate_state_def strictly_sorted_iff holds_names_def)
qed

theorem ordinal_codes_are_ranks_witness:
  "ce_categories (run_ops ordinal_update [[''b'', ''a''], [], [''b'', ''c'']] encoder_new) = [''a'', ''b'', ''c'']"
proof -
  let ?css = "[[''b'', ''a''], [], [''b'', ''c'']]"
  have n: "\<Union> (set ` set ?css) = set [''a'', ''b'', ''c'']" by auto
  have "sorted [''a'', ''b'', ''c'']" "distinct [''a'', ''b'', ''c'']" by code_simp+
  then have "sorted_list_of_set (set [''a'', ''b'', ''c'']) = [''a'', ''b'', ''c'']"
    by (rule sorted_list_of_set.idem_if_sorted_distinct)
  then show ?thesis
    using conjunct1 [OF ordinal_codes_are_ranks [where css = ?css, OF refl refl]] unfolding n by simp
qed

section \<open>Frequencies stay consistent\<close>

text \<open>
  The counts add up to the total, as natural numbers: no count is zero and, since each is at most the
  total, none overflows.
\<close>

definition count_of :: "frequency_encoder \<Rightarrow> string \<Rightarrow> nat" where
  "count_of s c = (case bt_get (fe_category_counts s) c of None \<Rightarrow> 0 | Some n \<Rightarrow> unat n)"

lemma unat_of_nat_u64: "n < 2 ^ 64 \<Longrightarrow> unat (of_nat n :: u64) = n"
  by (simp add: unsigned_of_nat take_bit_nat_eq_self)

definition counts_total :: "frequency_encoder \<Rightarrow> nat" where
  "counts_total s = sum_list (map unat (bt_values (fe_category_counts s)))"

lemma counts_total_sum: "counts_total s = (\<Sum>c \<in> dom (bt_get (fe_category_counts s)). count_of s c)"
proof -
  let ?m = "fe_category_counts s"
  have "(\<Sum>c \<in> dom (bt_get ?m). count_of s c) = sum_list (map (count_of s) (map fst (bt_entries ?m)))"
    by (simp only: sum_list_distinct_conv_sum_set [OF bt_distinct] dom_bt_get)
  also have "map (count_of s) (map fst (bt_entries ?m)) = map unat (bt_values ?m)"
  proof -
    have "count_of s (fst e) = unat (snd e)" if "e \<in> set (bt_entries ?m)" for e
      using that bt_get_iff [of ?m "fst e" "snd e"] by (simp add: count_of_def)
    then show ?thesis by (simp add: bt_values_def)
  qed
  finally show ?thesis by (simp add: counts_total_def)
qed

lemma frequency_count_Inr:
  assumes "frequency_count c s = (Inr u, s')"
  shows "counts_total s' = counts_total s + 1 \<and> fe_total s' = fe_total s \<and> fe_samples_seen s' = fe_samples_seen s
    \<and> (0 \<notin> ran (bt_get (fe_category_counts s)) \<longrightarrow> 0 \<notin> ran (bt_get (fe_category_counts s')))"
proof -
  let ?m = "fe_category_counts s"
  define n where "n = (case bt_get ?m c of None \<Rightarrow> 0 | Some n \<Rightarrow> n)"
  have n: "unat n + 1 < 2 ^ 64" "s' = s\<lparr>fe_category_counts := bt_insert c (n + 1) (bt_insert c n ?m)\<rparr>"
    using assms by (auto simp: frequency_count_def Let_def n_def [symmetric] result_simps)
  have g: "bt_get (fe_category_counts s') = (bt_get ?m)(c \<mapsto> n + 1)" by (auto simp: n(2))
  have cnt: "count_of s' d = (if d = c then count_of s c + 1 else count_of s d)" for d
    using unat_inc [OF n(1)] by (auto simp: count_of_def g n_def split: option.splits)
  have dom: "dom (bt_get (fe_category_counts s')) = insert c (dom (bt_get ?m))" by (simp add: g)
  have z: "c \<notin> dom (bt_get ?m) \<Longrightarrow> count_of s c = 0" by (auto simp: count_of_def dom_def)
  have fin: "finite (dom (bt_get ?m) - {c})" by simp
  have rest: "(\<Sum>d \<in> dom (bt_get ?m) - {c}. count_of s' d) = (\<Sum>d \<in> dom (bt_get ?m) - {c}. count_of s d)"
    by (intro sum.cong refl) (simp add: cnt)
  have "counts_total s' = count_of s' c + (\<Sum>d \<in> dom (bt_get ?m) - {c}. count_of s' d)"
    unfolding counts_total_sum dom using sum.insert_remove [of "dom (bt_get ?m)" "count_of s'" c] by simp
  also have "\<dots> = count_of s c + 1 + (\<Sum>d \<in> dom (bt_get ?m) - {c}. count_of s d)"
    unfolding rest by (simp add: cnt)
  also have "\<dots> = counts_total s + 1"
    unfolding counts_total_sum using z sum.remove [of "dom (bt_get ?m)" c "count_of s"]
    by (cases "c \<in> dom (bt_get ?m)") simp_all
  finally show ?thesis using n inc_nz [OF n(1)] by (auto simp: n(2) ran_def split: if_splits)
qed

lemma frequency_loop:
  "for_each_mut frequency_count cs s = (Inr u, s') \<Longrightarrow>
   counts_total s' = counts_total s + length cs \<and> fe_total s' = fe_total s \<and> fe_samples_seen s' = fe_samples_seen s
    \<and> (0 \<notin> ran (bt_get (fe_category_counts s)) \<longrightarrow> 0 \<notin> ran (bt_get (fe_category_counts s')))"
proof (induction cs arbitrary: s)
  case (Cons c cs)
  then obtain s1 where "frequency_count c s = (Inr (), s1)" "for_each_mut frequency_count cs s1 = (Inr u, s')"
    by (auto simp: then_mut_Inr)
  then show ?case using frequency_count_Inr Cons.IH by fastforce
qed simp

definition frequency_ok :: "frequency_encoder \<Rightarrow> bool" where
  "frequency_ok s \<longleftrightarrow> counts_total s = unat (fe_total s) \<and> 0 \<notin> ran (bt_get (fe_category_counts s))
     \<and> fe_samples_seen s \<le> fe_total s"

lemma sum_list_of_unat: "sum_list xs = (of_nat (sum_list (map unat xs)) :: u64)"
  by (induction xs) simp_all

lemma frequency_ok_valid: "frequency_ok s \<Longrightarrow> frequency_validate_state s = Inr ()"
proof -
  assume ok: "frequency_ok s"
  have "sum_list (bt_values (fe_category_counts s)) = fe_total s"
    using ok by (simp add: frequency_ok_def sum_list_of_unat counts_total_def)
  moreover have "snd e \<noteq> 0" if "e \<in> set (bt_entries (fe_category_counts s))" for e
    using ok that bt_get_iff [of "fe_category_counts s" "fst e" "snd e"] by (auto simp: frequency_ok_def ran_def)
  ultimately show ?thesis using ok by (auto simp: frequency_validate_state_def result_simps frequency_ok_def Let_def)
qed

text \<open>An accepted update keeps the encoder consistent; nothing smaller than \<open>2 ^ 64\<close> names is rejected.\<close>

lemma frequency_update_ok:
  assumes "frequency_update cs s = (Inr u, s')" "frequency_ok s" "length cs < 2 ^ 64"
  shows "frequency_ok s'"
proof -
  obtain s1 where l: "for_each_mut frequency_count cs s = (Inr (), s1)" "cs \<noteq> []"
    and t: "unat (fe_total s1) + length cs < 2 ^ 64"
    and s': "s' = s1\<lparr>fe_total := fe_total s1 + of_nat (length cs), fe_samples_seen := fe_samples_seen s1 + 1\<rparr>"
    and n: "unat (fe_samples_seen s1) + 1 < 2 ^ 64"
    using assms(1,3)
    by (auto simp: frequency_update_def then_mut_Inr result_simps checked_simps Let_def unat_of_nat_u64
        split: if_splits option.splits)
  have "unat (fe_total s1 + of_nat (length cs)) = unat (fe_total s1) + length cs"
    using t assms(3) by (subst unat_add_u64) (simp_all add: unat_of_nat_u64)
  then show ?thesis
    using frequency_loop [OF l(1)] assms(2) unat_inc [OF n] l(2)
    by (cases cs) (auto simp: s' frequency_ok_def counts_total_def word_le_nat_alt)
qed

end
