(* ===== verification/Sparse.thy ===== *)
theory Sparse imports Sorted_Search Rill_Error F64_Step Machine begin

text \<open>
  Sparse feature vectors (\<open>src/sparse/mod.rs\<close>) and the feature hasher (\<open>src/feature_hasher.rs\<close>). The
  hash functions of the standard library are not specified by their documentation: they are the fields
  of \<open>hash_fns\<close>, a parameter.
\<close>

type_synonym feature_id = u64

record sparse_features =
  sf_values :: "(feature_id \<times> f64) list"

definition sparse_new :: sparse_features where
  "sparse_new = \<lparr>sf_values = []\<rparr>"

definition sparse_validate_finite :: "sparse_features \<Rightarrow> rill_error + unit" where
  "sparse_validate_finite s =
     try_for_each (\<lambda>(i, v). if \<not> is_finite v then Inl (NonFiniteValue ''sparse_value'' v) else Inr ()) (sf_values s)"

text \<open>The pairs of neighbours in order.\<close>

fun check_order :: "(feature_id \<times> f64) list \<Rightarrow> rill_error + unit" where
  "check_order ((i, v) # (j, w) # es) =
     (if j \<le> i then (if i = j then Inl (DuplicateFeatureId i) else Inl UnsortedFeatureIds)
      else check_order ((j, w) # es))"
| "check_order es = Inr ()"

definition sparse_validate :: "sparse_features \<Rightarrow> rill_error + unit" where
  "sparse_validate s = and_then (check_order (sf_values s)) (\<lambda>_. sparse_validate_finite s)"

definition sparse_from_sorted :: "(feature_id \<times> f64) list \<Rightarrow> rill_error + sparse_features" where
  "sparse_from_sorted es =
     (let result = \<lparr>sf_values = es\<rparr> in and_then (sparse_validate result) (\<lambda>_. Inr result))"

definition merge_value :: "(feature_id \<times> f64) list \<Rightarrow> feature_id \<times> f64 \<Rightarrow> rill_error + (feature_id \<times> f64) list" where
  "merge_value merged iv = (case iv of (i, v) \<Rightarrow>
     if merged \<noteq> [] \<and> fst (last merged) = i
     then and_then (checked_finite_add (snd (last merged)) v ''sparse value'') (\<lambda>w.
            Inr (butlast merged @ [(i, w)]))
     else Inr (merged @ [(i, v)]))"

definition sparse_from_unsorted :: "(feature_id \<times> f64) list \<Rightarrow> rill_error + sparse_features" where
  "sparse_from_unsorted es =
     (if es = [] then Inr sparse_new
      else and_then (try_fold merge_value [] (sort_key fst es)) (\<lambda>merged.
             let result = \<lparr>sf_values = merged\<rparr> in
             and_then (sparse_validate_finite result) (\<lambda>_. Inr result)))"

definition sparse_push :: "feature_id \<Rightarrow> f64 \<Rightarrow> sparse_features \<Rightarrow> (rill_error + unit) \<times> sparse_features" where
  "sparse_push i v s = transact s
     (if sf_values s \<noteq> [] \<and> i \<le> fst (last (sf_values s)) then Inl UnsortedFeatureIds
      else if \<not> is_finite v then Inl (NonFiniteValue ''sparse_value'' v)
      else Inr (s\<lparr>sf_values := sf_values s @ [(i, v)]\<rparr>))"

definition sparse_get :: "sparse_features \<Rightarrow> feature_id \<Rightarrow> f64 option" where
  "sparse_get s i = (case search_key i (map fst (sf_values s)) of
     Inl _ \<Rightarrow> None | Inr k \<Rightarrow> Some (snd (sf_values s ! k)))"

section \<open>Feature hashing\<close>

record hash_fns =
  hash_pair :: "u64 \<Rightarrow> u64 \<Rightarrow> u64"
  hash_name :: "u64 \<Rightarrow> string \<Rightarrow> u64"

record feature_hasher =
  fh_dimension :: usize
  fh_seed :: u64
  fh_signed :: bool

definition feature_hasher_default :: feature_hasher where
  "feature_hasher_default = \<lparr>fh_dimension = 1024, fh_seed = 0, fh_signed = True\<rparr>"

definition hasher_with_config :: "feature_hasher \<Rightarrow> rill_error + feature_hasher" where
  "hasher_with_config c = (if fh_dimension c = 0 then Inl (InvalidHashDimension 0) else Inr c)"

definition hasher_new :: "usize \<Rightarrow> u64 \<Rightarrow> rill_error + feature_hasher" where
  "hasher_new d seed = hasher_with_config \<lparr>fh_dimension = d, fh_seed = seed, fh_signed = True\<rparr>"

definition hash_bucket :: "hash_fns \<Rightarrow> feature_hasher \<Rightarrow> feature_id \<Rightarrow> usize" where
  "hash_bucket H h i = unat (hash_pair H (fh_seed h) i) mod fh_dimension h"

definition hash_sign :: "hash_fns \<Rightarrow> feature_hasher \<Rightarrow> feature_id \<Rightarrow> f64" where
  "hash_sign H h i = (if bit (hash_pair H (fh_seed h * 0x517cc1b727220a95) i) 0 then - 1 else 1)"

definition hash_id :: "hash_fns \<Rightarrow> feature_hasher \<Rightarrow> feature_id \<Rightarrow> usize \<times> f64" where
  "hash_id H h i = (hash_bucket H h i, if fh_signed h then hash_sign H h i else 1)"

definition hash_strings :: "hash_fns \<Rightarrow> feature_hasher \<Rightarrow> (string \<times> f64) list \<Rightarrow> rill_error + sparse_features" where
  "hash_strings H h ps =
     and_then (try_map (\<lambda>(name, v). and_then (ensure_finite ''hash_value'' v) (\<lambda>_.
                 Inr (hash_name H (fh_seed h) name, v))) ps) sparse_from_unsorted"

definition hash_add :: "hash_fns \<Rightarrow> feature_hasher \<Rightarrow> f64 list \<Rightarrow> feature_id \<times> f64 \<Rightarrow> rill_error + f64 list" where
  "hash_add H h out iv = (case iv of (i, v) \<Rightarrow>
     and_then (ensure_finite ''sparse_value'' v) (\<lambda>_.
       case hash_id H h i of (b, sign) \<Rightarrow>
         and_then (checked_finite_add (out ! b) (sign * v) ''hashed feature'') (\<lambda>x. Inr (out[b := x]))))"

definition hasher_transform :: "hash_fns \<Rightarrow> feature_hasher \<Rightarrow> sparse_features \<Rightarrow> rill_error + f64 list" where
  "hasher_transform H h s =
     (if fh_dimension h = 0 then Inl (InvalidHashDimension 0)
      else and_then (sparse_validate s) (\<lambda>_.
           try_fold (hash_add H h) (replicate (fh_dimension h) 0) (sf_values s)))"

section \<open>Look-up and construction\<close>

lemma check_order_Inr: "check_order es = Inr u \<longleftrightarrow> sorted_wrt (<) (map fst es)"
  by (induction es rule: check_order.induct) (auto intro: less_trans)

lemma sparse_validate_finite_Inr:
  "sparse_validate_finite s = Inr u \<longleftrightarrow> list_all (\<lambda>e. is_finite (snd e)) (sf_values s)"
  by (simp add: sparse_validate_finite_def try_for_each_Inr list_all_iff split_beta)

lemma sparse_validate_Inr [result_simps]:
  "sparse_validate s = Inr u \<longleftrightarrow> sorted_wrt (<) (map fst (sf_values s)) \<and> list_all (\<lambda>e. is_finite (snd e)) (sf_values s)"
  by (simp add: sparse_validate_def and_then_Inr check_order_Inr sparse_validate_finite_Inr)

text \<open>The binary search finds what the entries map to.\<close>

lemma sparse_get_map_of:
  assumes "sorted_wrt (<) (map fst (sf_values s))"
  shows "sparse_get s i = map_of (sf_values s) i"
proof (cases "search_key i (map fst (sf_values s))")
  case (Inl k)
  then have "\<not> (j < length (sf_values s) \<and> fst (sf_values s ! j) = i)" for j
    using search_key_Inr [OF assms, of i j] by auto
  then have "i \<notin> fst ` set (sf_values s)" by (metis imageE in_set_conv_nth)
  then have "map_of (sf_values s) i = None" by (simp only: map_of_eq_None_iff not_False_eq_True)
  then show ?thesis using Inl by (simp add: sparse_get_def)
next
  case (Inr k)
  then have k: "k < length (sf_values s)" "fst (sf_values s ! k) = i" using search_key_Inr [OF assms, of i k] by auto
  have "distinct (map fst (sf_values s))" using assms strict_sorted_iff by blast
  moreover have "(i, snd (sf_values s ! k)) \<in> set (sf_values s)" using k by (metis nth_mem prod.collapse)
  ultimately show ?thesis using Inr by (simp add: sparse_get_def map_of_eq_Some_iff)
qed

text \<open>The values given for an id, in order, added from the left.\<close>

definition summed :: "(feature_id \<times> f64) list \<Rightarrow> feature_id \<Rightarrow> f64 option" where
  "summed es i = (case map snd (filter (\<lambda>e. fst e = i) es) of [] \<Rightarrow> None | v # vs \<Rightarrow> Some (foldl (+) v vs))"

lemma summed_append:
  "summed (es @ [(j, v)]) i =
     (if j = i then Some (case summed es i of None \<Rightarrow> v | Some w \<Rightarrow> w + v) else summed es i)"
  by (auto simp: summed_def split: list.splits)

lemma summed_None: "summed es i = None \<longleftrightarrow> i \<notin> fst ` set es"
proof -
  have "summed es i = None \<longleftrightarrow> filter (\<lambda>e. fst e = i) es = []" by (auto simp: summed_def split: list.splits)
  then show ?thesis by (auto simp: filter_empty_conv)
qed

lemma map_of_snoc: "i \<notin> fst ` set xs \<Longrightarrow> map_of (xs @ [(i, w)]) = (map_of xs)(i \<mapsto> w)"
  by (induction xs) (auto simp: fun_eq_iff)

lemma merge_sound:
  "sorted (map fst ps) \<Longrightarrow> try_fold merge_value [] ps = Inr merged \<Longrightarrow>
   sorted_wrt (<) (map fst merged) \<and> map_of merged = summed ps \<and> (ps \<noteq> [] \<longrightarrow> merged \<noteq> [] \<and> fst (last merged) = fst (last ps))"
proof (induction ps arbitrary: merged rule: rev_induct)
  case Nil
  then show ?case by (simp add: summed_def fun_eq_iff)
next
  case (snoc p ps)
  obtain i v where p: "p = (i, v)" by fastforce
  obtain m where m: "try_fold merge_value [] ps = Inr m" "merge_value m (i, v) = Inr merged"
    using snoc.prems(2) by (auto simp: try_fold_append and_then_Inr p)
  have "sorted (map fst ps)" using snoc.prems(1) by (simp add: sorted_append)
  from snoc.IH [OF this m(1)] have ih: "sorted_wrt (<) (map fst m)" "map_of m = summed ps"
    "ps \<noteq> [] \<Longrightarrow> m \<noteq> [] \<and> fst (last m) = fst (last ps)" by auto
  have le: "\<forall>e \<in> set ps. fst e \<le> i" using snoc.prems(1) by (auto simp: sorted_append p)
  have keys: "fst ` set m = fst ` set ps"
    using ih(2) map_of_eq_None_iff [of m] summed_None [of ps] by (metis (no_types, lifting) subsetI subset_antisym)
  show ?case
  proof (cases "m \<noteq> [] \<and> fst (last m) = i")
    case True
    then obtain w where w: "merged = butlast m @ [(i, w + v)]" "last m = (i, w)" "m \<noteq> []"
      using m(2) by (cases "last m") (auto simp: merge_value_def result_simps)
    have split: "m = butlast m @ [(i, w)]" using w(2,3) by (metis append_butlast_last_id)
    then have k: "map fst merged = map fst m"
      using w(1) by (metis (no_types, lifting) fst_conv list.simps(8,9) map_append)
    have "sorted_wrt (<) (map fst (butlast m @ [(i, w)]))" using ih(1) split by simp
    then have n: "i \<notin> fst ` set (butlast m)" by (auto simp: sorted_wrt_append)
    have mo: "map_of m = (map_of (butlast m))(i \<mapsto> w)" using map_of_snoc [OF n, of w] split by simp
    have "map_of merged j = summed (ps @ [(i, v)]) j" for j
    proof -
      have "map_of merged j = (if j = i then Some (w + v) else map_of m j)"
        using map_of_snoc [OF n, of "w + v"] mo by (simp add: w(1))
      moreover have "summed ps i = Some w" using ih(2) mo by (metis fun_upd_same)
      ultimately show ?thesis using ih(2) by (cases "j = i") (simp_all add: summed_append)
    qed
    then have "map_of merged = summed (ps @ [(i, v)])" by blast
    moreover have "merged \<noteq> [] \<and> fst (last merged) = i" by (simp add: w(1))
    ultimately show ?thesis using ih(1) k by (simp add: p)
  next
    case False
    have e: "merged = m @ [(i, v)]" using m(2) False by (auto simp: merge_value_def)
    have lem: "fst d \<le> i" if "d \<in> set m" for d
    proof -
      have "fst d \<in> fst ` set ps" using that keys by blast
      then show ?thesis using le by auto
    qed
    have new: "i \<notin> fst ` set m"
    proof
      assume i: "i \<in> fst ` set m"
      then have m0: "m \<noteq> []" by auto
      then have lt: "fst (last m) < i"
        using False lem [of "last m"] m0 by (simp add: order_le_less)
      have split: "m = butlast m @ [last m]" using m0 by simp
      have "sorted_wrt (<) (map fst (butlast m @ [last m]))" using ih(1) split by simp
      then have "\<forall>e \<in> set m. fst e \<le> fst (last m)" by (subst split) (auto simp: sorted_wrt_append less_imp_le)
      then show False using i lt by auto
    qed
    have "fst d < i" if "d \<in> set m" for d using lem [OF that] that new by (auto simp: order_le_less)
    then have "sorted_wrt (<) (map fst merged)" using ih(1) by (simp add: e sorted_wrt_append)
    moreover have "map_of merged = summed (ps @ [(i, v)])"
    proof
      fix j
      have "map_of merged j = (if j = i then Some v else summed ps j)"
        using map_of_snoc [OF new, of v] ih(2) unfolding e by simp
      moreover have "summed ps i = None" using new keys by (simp add: summed_None)
      ultimately show "map_of merged j = summed (ps @ [(i, v)]) j" by (cases "j = i") (simp_all add: summed_append)
    qed
    ultimately show ?thesis by (simp add: p e)
  qed
qed

lemma summed_sort: "summed (sort_key fst es) = summed es"
  unfolding summed_def fun_eq_iff by (simp add: sort_key_stable)

text \<open>
  C18: sparse vectors. What \<open>from_unsorted\<close> accepts is a valid sparse vector, with ids in strictly
  ascending order, and looking up an id by binary search gives exactly the values that were given for
  it, added in their order; it is absent when there was none. Such a vector is accepted unchanged by
  \<open>from_sorted\<close>, as when it is read back from its serialized form.
\<close>

theorem sparse_from_unsorted_sound:
  assumes "sparse_from_unsorted es = Inr s"
  shows "sparse_validate s = Inr () \<and> sparse_get s i = summed es i \<and> sparse_from_sorted (sf_values s) = Inr s"
proof -
  have s: "sorted_wrt (<) (map fst (sf_values s)) \<and> map_of (sf_values s) = summed es \<and> list_all (\<lambda>e. is_finite (snd e)) (sf_values s)"
  proof (cases "es = []")
    case True
    then show ?thesis using assms by (auto simp: sparse_from_unsorted_def sparse_new_def summed_def fun_eq_iff)
  next
    case False
    then obtain merged where "try_fold merge_value [] (sort_key fst es) = Inr merged" "s = \<lparr>sf_values = merged\<rparr>"
      "sparse_validate_finite s = Inr ()"
      using assms by (auto simp: sparse_from_unsorted_def and_then_Inr Let_def)
    then show ?thesis
      using merge_sound [of "sort_key fst es" merged]
      by (simp add: summed_sort sparse_validate_finite_Inr)
  qed
  then show ?thesis
    using sparse_get_map_of [of s i]
    by (cases s) (simp add: sparse_from_sorted_def Let_def and_then_Inr sparse_validate_Inr)
qed

lemma sparse_from_unsorted_sound_witness:
  "sparse_get \<lparr>sf_values = [(3, 1), (7, 1 + 1)]\<rparr> 7 = Some (1 + 1)"
proof -
  have "is_finite (1 + 1 :: f64)" by code_simp
  then have "sparse_from_unsorted [(7, 1), (3, 1), (7, 1)] = Inr \<lparr>sf_values = [(3, 1), (7, 1 + 1)]\<rparr>"
    by (simp add: sparse_from_unsorted_def merge_value_def checked_finite_add_def ensure_finite_def sparse_validate_finite_def)
  from sparse_from_unsorted_sound [OF this, of 7] show ?thesis by (simp add: summed_def)
qed

text \<open>A hashed vector has the configured dimension and only finite entries.\<close>

lemma hash_add_ok:
  "hash_add H h out e = Inr out' \<Longrightarrow> length out' = length out \<and> (list_all is_finite out \<longrightarrow> list_all is_finite out')"
  by (auto simp: hash_add_def result_simps list_all_iff split: prod.splits dest!: set_update_subset_insert [THEN subsetD])

lemma hasher_transform_ok:
  assumes "hasher_transform H h s = Inr out"
  shows "length out = fh_dimension h \<and> list_all is_finite out"
proof -
  have t: "try_fold (hash_add H h) (replicate (fh_dimension h) 0) (sf_values s) = Inr out"
    using assms by (auto simp: hasher_transform_def result_simps split: if_splits)
  show ?thesis
    by (rule try_fold_invariant [OF t, of "\<lambda>out. length out = fh_dimension h \<and> list_all is_finite out"])
      (auto simp: list_all_iff dest!: hash_add_ok)
qed

end
