(* ===== verification/Bandits.thy ===== *)
theory Bandits imports Machine Rill_Error F64_Sign F64_Text begin

text \<open>
  The multi-armed bandits of \<open>src/bandit\<close>: epsilon-greedy, UCB1 and Thompson sampling, with the arm
  statistics. The random generator is the parameter \<open>rng\<close> with a state that is passed on; the logarithm
  and the other functions of the platform are parameters.
\<close>

section \<open>Shared pieces\<close>

record arm_stats =
  as_pulls :: u64
  as_total_reward :: f64
  as_mean_reward :: f64

definition arm_stats_empty :: arm_stats where
  "arm_stats_empty = \<lparr>as_pulls = 0, as_total_reward = 0, as_mean_reward = 0\<rparr>"

definition arm_stats_new :: "u64 \<Rightarrow> f64 \<Rightarrow> rill_error + arm_stats" where
  "arm_stats_new pulls t =
     (if \<not> is_finite t then Inl (NonFiniteValue ''total_reward'' t)
      else Inr \<lparr>as_pulls = pulls, as_total_reward = t,
                as_mean_reward = (if 0 < pulls then t / f_of_u64 pulls else 0)\<rparr>)"

definition validate_arm :: "usize \<Rightarrow> usize \<Rightarrow> rill_error + unit" where
  "validate_arm n arm = (if n \<le> arm then Inl (InvalidArm n arm) else Inr ())"

definition validate_reward_finite :: "f64 \<Rightarrow> rill_error + unit" where
  "validate_reward_finite r = (if is_finite r then Inr () else Inl (InvalidReward r))"

definition validate_reward_01 :: "f64 \<Rightarrow> rill_error + unit" where
  "validate_reward_01 r = (if is_finite r \<and> 0 \<le> r \<and> r \<le> 1 then Inr () else Inl (InvalidReward r))"

definition bandit_increment :: "u64 \<Rightarrow> string \<Rightarrow> rill_error + u64" where
  "bandit_increment v field = ok_or (checked_add_u64 v 1) (InvalidState (field @ '' overflow''))"

definition validate_sample_count :: "u64 list \<Rightarrow> u64 \<Rightarrow> rill_error + unit" where
  "validate_sample_count pulls n =
     and_then (try_fold (\<lambda>s p. ok_or (checked_add_u64 s p) (InvalidState ''pull count sum overflow'')) 0 pulls) (\<lambda>t.
       if t = n then Inr ()
       else Inl (InvalidState (''samples_seen is '' @ decimal (unat n) @ '', but per-arm pulls sum to '' @ decimal (unat t))))"

record 'g rng =
  gen_index :: "nat \<Rightarrow> 'g \<Rightarrow> nat \<times> 'g"
  gen_f64 :: "f64 \<Rightarrow> f64 \<Rightarrow> 'g \<Rightarrow> f64 \<times> 'g"

text \<open>\<open>gen_range(0..n)\<close> returns an index below \<open>n\<close>.\<close>

definition rng_contract :: "'g rng \<Rightarrow> bool" where
  "rng_contract R \<longleftrightarrow> (\<forall>n g. 0 < n \<longrightarrow> fst (gen_index R n g) < n)"

text \<open>The scan for the best arm: the first one with a strictly larger value wins.\<close>

fun scan_best :: "nat \<times> f64 \<Rightarrow> (nat \<times> f64) list \<Rightarrow> nat \<times> f64" where
  "scan_best b [] = b"
| "scan_best (best, bv) ((i, v) # es) = scan_best (if bv < v then (i, v) else (best, bv)) es"

section \<open>Epsilon-greedy\<close>

record epsilon_greedy_config =
  eg_epsilon :: f64
  eg_decay :: f64
  eg_min_epsilon :: f64

definition epsilon_greedy_config_default :: epsilon_greedy_config where
  "epsilon_greedy_config_default =
     \<lparr>eg_epsilon = f_of_rat (1 / 10), eg_decay = 1, eg_min_epsilon = f_of_rat (1 / 100)\<rparr>"

definition epsilon_config_validate :: "epsilon_greedy_config \<Rightarrow> rill_error + unit" where
  "epsilon_config_validate c =
     (if \<not> (0 \<le> eg_epsilon c \<and> eg_epsilon c \<le> 1) then Inl (InvalidEpsilon (eg_epsilon c))
      else if \<not> (0 < eg_decay c \<and> eg_decay c \<le> 1) then Inl (InvalidParameter ''decay'' (eg_decay c))
      else if \<not> (0 \<le> eg_min_epsilon c \<and> eg_min_epsilon c \<le> eg_epsilon c)
      then Inl (InvalidParameter ''min_epsilon'' (eg_min_epsilon c))
      else Inr ())"

record epsilon_greedy =
  eb_arm_count :: usize
  eb_config :: epsilon_greedy_config
  eb_pulls :: "u64 list"
  eb_total_rewards :: "f64 list"
  eb_samples_seen :: u64
  eb_current_epsilon :: f64

definition epsilon_greedy_new :: "usize \<Rightarrow> epsilon_greedy_config \<Rightarrow> rill_error + epsilon_greedy" where
  "epsilon_greedy_new n c =
     (if n = 0 then Inl (InvalidArmCount n)
      else and_then (epsilon_config_validate c) (\<lambda>_.
        Inr \<lparr>eb_arm_count = n, eb_config = c, eb_pulls = replicate n 0, eb_total_rewards = replicate n 0,
             eb_samples_seen = 0, eb_current_epsilon = eg_epsilon c\<rparr>))"

definition epsilon_greedy_validate :: "epsilon_greedy \<Rightarrow> rill_error + unit" where
  "epsilon_greedy_validate s =
     (if eb_arm_count s = 0 then Inl (InvalidArmCount (eb_arm_count s))
      else and_then (epsilon_config_validate (eb_config s)) (\<lambda>_.
        if length (eb_pulls s) \<noteq> eb_arm_count s \<or> length (eb_total_rewards s) \<noteq> eb_arm_count s
        then Inl (InvalidState ''arm_count does not match per-arm state lengths'')
        else if list_ex (\<lambda>r. \<not> is_finite r) (eb_total_rewards s)
        then Inl (InvalidState ''total_rewards must contain only finite values'')
        else and_then (validate_sample_count (eb_pulls s) (eb_samples_seen s)) (\<lambda>_.
          if \<not> is_finite (eb_current_epsilon s) \<or> eb_current_epsilon s < eg_min_epsilon (eb_config s)
               \<or> eg_epsilon (eb_config s) < eb_current_epsilon s
          then Inl (InvalidState ''current_epsilon is outside the configured bounds'')
          else Inr ())))"

definition epsilon_best_arm :: "epsilon_greedy \<Rightarrow> usize" where
  "epsilon_best_arm s =
     fst (scan_best (0, f_neg_inf)
       (List.enumerate 0 (map (\<lambda>(p, t). if 0 < p then t / f_of_u64 p else f_neg_inf)
          (zip (eb_pulls s) (eb_total_rewards s)))))"

definition epsilon_greedy_select :: "'g rng \<Rightarrow> epsilon_greedy \<Rightarrow> 'g \<Rightarrow> (rill_error + usize) \<times> 'g" where
  "epsilon_greedy_select R s g =
     (if eb_samples_seen s = 0 \<or> list_all (\<lambda>p. p = 0) (eb_pulls s)
      then (case gen_index R (eb_arm_count s) g of (arm, g1) \<Rightarrow> (Inr arm, g1))
      else (case gen_f64 R 0 1 g of (r, g1) \<Rightarrow>
        if r < eb_current_epsilon s
        then (case gen_index R (eb_arm_count s) g1 of (arm, g2) \<Rightarrow> (Inr arm, g2))
        else (Inr (epsilon_best_arm s), g1)))"

definition epsilon_greedy_update :: "usize \<times> f64 \<Rightarrow> epsilon_greedy \<Rightarrow> (rill_error + unit) \<times> epsilon_greedy" where
  "epsilon_greedy_update ar s = (case ar of (arm, reward) \<Rightarrow> transact s
     (and_then (validate_arm (eb_arm_count s) arm) (\<lambda>_.
      and_then (validate_reward_finite reward) (\<lambda>_.
      and_then (bandit_increment (eb_pulls s ! arm) ''pulls'') (\<lambda>p.
      and_then (checked_finite_add (eb_total_rewards s ! arm) reward ''total_rewards'') (\<lambda>t.
      and_then (bandit_increment (eb_samples_seen s) ''samples_seen'') (\<lambda>n.
        let e = (if eg_decay (eb_config s) < 1
                 then f_max (eb_current_epsilon s * eg_decay (eb_config s)) (eg_min_epsilon (eb_config s))
                 else eb_current_epsilon s) in
        Inr (s\<lparr>eb_pulls := (eb_pulls s)[arm := p], eb_total_rewards := (eb_total_rewards s)[arm := t],
               eb_samples_seen := n, eb_current_epsilon := e\<rparr>))))))))"

definition epsilon_greedy_reset :: "epsilon_greedy \<Rightarrow> epsilon_greedy" where
  "epsilon_greedy_reset s =
     s\<lparr>eb_pulls := map (\<lambda>_. 0) (eb_pulls s), eb_total_rewards := map (\<lambda>_. 0) (eb_total_rewards s),
       eb_samples_seen := 0, eb_current_epsilon := eg_epsilon (eb_config s)\<rparr>"

definition epsilon_greedy_arm_stats :: "epsilon_greedy \<Rightarrow> usize \<Rightarrow> rill_error + arm_stats" where
  "epsilon_greedy_arm_stats s arm =
     and_then (validate_arm (eb_arm_count s) arm) (\<lambda>_. arm_stats_new (eb_pulls s ! arm) (eb_total_rewards s ! arm))"

section \<open>UCB1\<close>

record ucb1 =
  ub_arm_count :: usize
  ub_exploration_constant :: f64
  ub_pulls :: "u64 list"
  ub_total_rewards :: "f64 list"
  ub_samples_seen :: u64

definition ucb1_config_validate :: "f64 \<Rightarrow> rill_error + unit" where
  "ucb1_config_validate c =
     (if \<not> is_finite c \<or> c \<le> 0 then Inl (InvalidParameter ''exploration_constant'' c) else Inr ())"

definition ucb1_new :: "usize \<Rightarrow> f64 \<Rightarrow> rill_error + ucb1" where
  "ucb1_new n c =
     (if n = 0 then Inl (InvalidArmCount n)
      else and_then (ucb1_config_validate c) (\<lambda>_.
        Inr \<lparr>ub_arm_count = n, ub_exploration_constant = c, ub_pulls = replicate n 0,
             ub_total_rewards = replicate n 0, ub_samples_seen = 0\<rparr>))"

definition inconsistent_total :: "u64 \<Rightarrow> f64 \<Rightarrow> bool" where
  "inconsistent_total p r \<longleftrightarrow> \<not> is_finite r \<or> r < 0 \<or> f_of_u64 p < r"

definition inconsistent_reward_msg :: "nat \<Rightarrow> string" where
  "inconsistent_reward_msg arm = ''total reward for arm '' @ decimal arm @ '' is inconsistent with [0, 1] rewards''"

definition ucb1_validate :: "ucb1 \<Rightarrow> rill_error + unit" where
  "ucb1_validate s =
     (if ub_arm_count s = 0 then Inl (InvalidArmCount (ub_arm_count s))
      else and_then (ucb1_config_validate (ub_exploration_constant s)) (\<lambda>_.
        if length (ub_pulls s) \<noteq> ub_arm_count s \<or> length (ub_total_rewards s) \<noteq> ub_arm_count s
        then Inl (InvalidState ''arm_count does not match per-arm state lengths'')
        else and_then (validate_sample_count (ub_pulls s) (ub_samples_seen s)) (\<lambda>_.
          try_for_each (\<lambda>(arm, p, r).
            if inconsistent_total p r then Inl (InvalidState (inconsistent_reward_msg arm)) else Inr ())
            (List.enumerate 0 (zip (ub_pulls s) (ub_total_rewards s))))))"

definition ucb_value :: "(f64 \<Rightarrow> f64) \<Rightarrow> ucb1 \<Rightarrow> usize \<Rightarrow> f64" where
  "ucb_value libln s arm =
     (let pulls = ub_pulls s ! arm in
      if pulls = 0 then f_inf
      else let mean = ub_total_rewards s ! arm / f_of_u64 pulls;
               log_total = libln (f_of_u64 (ub_samples_seen s));
               exploration = ub_exploration_constant s * f_sqrt (f_of_nat 2 * log_total / f_of_u64 pulls)
           in mean + exploration)"

definition ucb1_select :: "(f64 \<Rightarrow> f64) \<Rightarrow> 'g rng \<Rightarrow> ucb1 \<Rightarrow> 'g \<Rightarrow> (rill_error + usize) \<times> 'g" where
  "ucb1_select libln R s g =
     (let arms = [0..<ub_arm_count s];
          unexplored = filter (\<lambda>a. ub_pulls s ! a = 0) arms;
          best = fst (scan_best (0, f_neg_inf)
                   (map (\<lambda>a. (a, ucb_value libln s a)) (filter (\<lambda>a. ub_pulls s ! a \<noteq> 0) arms)))
      in if unexplored \<noteq> []
         then (case gen_index R (length unexplored) g of (i, g1) \<Rightarrow> (Inr (unexplored ! i), g1))
         else (Inr best, g))"

definition ucb1_update :: "usize \<times> f64 \<Rightarrow> ucb1 \<Rightarrow> (rill_error + unit) \<times> ucb1" where
  "ucb1_update ar s = (case ar of (arm, reward) \<Rightarrow> transact s
     (and_then (validate_arm (ub_arm_count s) arm) (\<lambda>_.
      and_then (validate_reward_01 reward) (\<lambda>_.
      and_then (bandit_increment (ub_pulls s ! arm) ''pulls'') (\<lambda>p.
      and_then (checked_finite_add (ub_total_rewards s ! arm) reward ''total_rewards'') (\<lambda>t.
      and_then (bandit_increment (ub_samples_seen s) ''samples_seen'') (\<lambda>n.
        Inr (s\<lparr>ub_pulls := (ub_pulls s)[arm := p], ub_total_rewards := (ub_total_rewards s)[arm := t],
               ub_samples_seen := n\<rparr>))))))))"

definition ucb1_reset :: "ucb1 \<Rightarrow> ucb1" where
  "ucb1_reset s =
     s\<lparr>ub_pulls := map (\<lambda>_. 0) (ub_pulls s), ub_total_rewards := map (\<lambda>_. 0) (ub_total_rewards s), ub_samples_seen := 0\<rparr>"

definition ucb1_arm_stats :: "ucb1 \<Rightarrow> usize \<Rightarrow> rill_error + arm_stats" where
  "ucb1_arm_stats s arm =
     and_then (validate_arm (ub_arm_count s) arm) (\<lambda>_. arm_stats_new (ub_pulls s ! arm) (ub_total_rewards s ! arm))"

section \<open>Thompson sampling\<close>

record thompson_config =
  tc_alpha_prior :: f64
  tc_beta_prior :: f64

definition thompson_config_default :: thompson_config where
  "thompson_config_default = \<lparr>tc_alpha_prior = 1, tc_beta_prior = 1\<rparr>"

definition thompson_config_validate :: "thompson_config \<Rightarrow> rill_error + unit" where
  "thompson_config_validate c =
     (if \<not> is_finite (tc_alpha_prior c) \<or> tc_alpha_prior c \<le> 0
      then Inl (InvalidParameter ''alpha_prior'' (tc_alpha_prior c))
      else if \<not> is_finite (tc_beta_prior c) \<or> tc_beta_prior c \<le> 0
      then Inl (InvalidParameter ''beta_prior'' (tc_beta_prior c))
      else Inr ())"

record thompson =
  ts_arm_count :: usize
  ts_config :: thompson_config
  ts_alphas :: "f64 list"
  ts_betas :: "f64 list"
  ts_pulls :: "u64 list"
  ts_total_rewards :: "f64 list"
  ts_samples_seen :: u64

definition thompson_new :: "usize \<Rightarrow> thompson_config \<Rightarrow> rill_error + thompson" where
  "thompson_new n c =
     (if n = 0 then Inl (InvalidArmCount n)
      else and_then (thompson_config_validate c) (\<lambda>_.
        Inr \<lparr>ts_arm_count = n, ts_config = c, ts_alphas = replicate n (tc_alpha_prior c),
             ts_betas = replicate n (tc_beta_prior c), ts_pulls = replicate n 0,
             ts_total_rewards = replicate n 0, ts_samples_seen = 0\<rparr>))"

definition posterior_tolerance :: f64 where
  "posterior_tolerance = f_of_rat (1 / 10 ^ 9)"

definition thompson_check_arm :: "thompson \<Rightarrow> nat \<Rightarrow> rill_error + unit" where
  "thompson_check_arm s arm =
     (let pulls = f_of_u64 (ts_pulls s ! arm); t = ts_total_rewards s ! arm;
          alpha = ts_alphas s ! arm; beta = ts_betas s ! arm in
      if \<not> is_finite t \<or> t < 0 \<or> pulls < t then Inl (InvalidState (inconsistent_reward_msg arm))
      else let expected_alpha = tc_alpha_prior (ts_config s) + t;
               expected_beta = tc_beta_prior (ts_config s) + pulls - t;
               alpha_tolerance = posterior_tolerance * f_max \<bar>expected_alpha\<bar> 1;
               beta_tolerance = posterior_tolerance * f_max \<bar>expected_beta\<bar> 1
           in if \<not> is_finite alpha \<or> \<not> is_finite beta \<or> alpha_tolerance < \<bar>alpha - expected_alpha\<bar>
                   \<or> beta_tolerance < \<bar>beta - expected_beta\<bar>
              then Inl (InvalidState (''posterior parameters for arm '' @ decimal arm
                          @ '' are inconsistent with observations''))
              else Inr ())"

definition thompson_validate :: "thompson \<Rightarrow> rill_error + unit" where
  "thompson_validate s =
     (if ts_arm_count s = 0 then Inl (InvalidArmCount (ts_arm_count s))
      else and_then (thompson_config_validate (ts_config s)) (\<lambda>_.
        if length (ts_alphas s) \<noteq> ts_arm_count s \<or> length (ts_betas s) \<noteq> ts_arm_count s
             \<or> length (ts_pulls s) \<noteq> ts_arm_count s \<or> length (ts_total_rewards s) \<noteq> ts_arm_count s
        then Inl (InvalidState ''arm_count does not match per-arm state lengths'')
        else and_then (validate_sample_count (ts_pulls s) (ts_samples_seen s)) (\<lambda>_.
          try_for_each (thompson_check_arm s) [0..<ts_arm_count s])))"

definition thompson_update :: "usize \<times> f64 \<Rightarrow> thompson \<Rightarrow> (rill_error + unit) \<times> thompson" where
  "thompson_update ar s = (case ar of (arm, reward) \<Rightarrow> transact s
     (and_then (validate_arm (ts_arm_count s) arm) (\<lambda>_.
      and_then (validate_reward_01 reward) (\<lambda>_.
      and_then (checked_finite_add (ts_alphas s ! arm) reward ''alpha'') (\<lambda>a.
      and_then (checked_finite_add (ts_betas s ! arm) (1 - reward) ''beta'') (\<lambda>b.
      and_then (bandit_increment (ts_pulls s ! arm) ''pulls'') (\<lambda>p.
      and_then (checked_finite_add (ts_total_rewards s ! arm) reward ''total_rewards'') (\<lambda>t.
      and_then (bandit_increment (ts_samples_seen s) ''samples_seen'') (\<lambda>n.
        Inr (s\<lparr>ts_alphas := (ts_alphas s)[arm := a], ts_betas := (ts_betas s)[arm := b],
               ts_pulls := (ts_pulls s)[arm := p], ts_total_rewards := (ts_total_rewards s)[arm := t],
               ts_samples_seen := n\<rparr>))))))))))"

definition thompson_reset :: "thompson \<Rightarrow> thompson" where
  "thompson_reset s =
     s\<lparr>ts_alphas := map (\<lambda>_. tc_alpha_prior (ts_config s)) (ts_alphas s),
       ts_betas := map (\<lambda>_. tc_beta_prior (ts_config s)) (ts_betas s),
       ts_pulls := map (\<lambda>_. 0) (ts_pulls s), ts_total_rewards := map (\<lambda>_. 0) (ts_total_rewards s),
       ts_samples_seen := 0\<rparr>"

definition thompson_arm_stats :: "thompson \<Rightarrow> usize \<Rightarrow> rill_error + arm_stats" where
  "thompson_arm_stats s arm =
     and_then (validate_arm (ts_arm_count s) arm) (\<lambda>_. arm_stats_new (ts_pulls s ! arm) (ts_total_rewards s ! arm))"

subsection \<open>Sampling\<close>

text \<open>
  The elementary functions the samplers use, \<open>pi\<close> as the literal of the standard library. The rejection loop
  need not end for a generator that never offers an acceptable draw, so not returning is \<open>None\<close>.
\<close>

record libm =
  lm_ln :: "f64 \<Rightarrow> f64"
  lm_cos :: "f64 \<Rightarrow> f64"
  lm_sin :: "f64 \<Rightarrow> f64"
  lm_pow :: "f64 \<Rightarrow> f64 \<Rightarrow> f64"

definition f_pi :: f64 where
  "f_pi = f_of_rat (884279719003555 / 2 ^ 48)"

definition smallest_draw :: f64 where
  "smallest_draw = f_of_rat (1 / 10 ^ 10)"

definition box_muller :: "libm \<Rightarrow> 'g rng \<Rightarrow> 'g \<Rightarrow> (f64 \<times> f64) \<times> 'g" where
  "box_muller L R g =
     (case gen_f64 R smallest_draw 1 g of (u1, g1) \<Rightarrow>
     (case gen_f64 R 0 1 g1 of (u2, g2) \<Rightarrow>
        let mag = f_sqrt (- f_of_nat 2 * lm_ln L u1)
        in ((mag * lm_cos L (f_of_nat 2 * f_pi * u2), mag * lm_sin L (f_of_nat 2 * f_pi * u2)), g2)))"

partial_function (option) gamma_loop :: "libm \<Rightarrow> 'g rng \<Rightarrow> f64 \<Rightarrow> f64 \<Rightarrow> 'g \<Rightarrow> (f64 \<times> 'g) option" where
  "gamma_loop L R d c g =
     (case box_muller L R g of ((x, unused), g1) \<Rightarrow>
        let w = 1 + c * x; v = w * w * w in
        if v \<le> 0 then gamma_loop L R d c g1
        else (case gen_f64 R 0 1 g1 of (u, g2) \<Rightarrow>
          if u < 1 - f_of_rat (331 / 10000) * ((x * x) * (x * x)) then Some (d * v, g2)
          else if lm_ln L u < f_of_rat (1 / 2) * x * x + d * (1 - v + lm_ln L v) then Some (d * v, g2)
          else gamma_loop L R d c g2))"

definition gamma_unboosted :: "libm \<Rightarrow> 'g rng \<Rightarrow> f64 \<Rightarrow> 'g \<Rightarrow> (f64 \<times> 'g) option" where
  "gamma_unboosted L R shape g =
     (let d = shape - 1 / f_of_nat 3; c = 1 / f_sqrt (f_of_nat 9 * d) in gamma_loop L R d c g)"

text \<open>For a positive shape below one the recursion is one level deep: \<open>shape + 1\<close> is at least one.\<close>

definition sample_gamma :: "libm \<Rightarrow> 'g rng \<Rightarrow> f64 \<Rightarrow> 'g \<Rightarrow> (f64 \<times> 'g) option" where
  "sample_gamma L R shape g =
     (if shape < 1
      then (case gen_f64 R smallest_draw 1 g of (u, g1) \<Rightarrow>
              map_option (\<lambda>(x, g2). (x * lm_pow L u (1 / shape), g2)) (gamma_unboosted L R (shape + 1) g1))
      else gamma_unboosted L R shape g)"

definition sample_beta :: "libm \<Rightarrow> 'g rng \<Rightarrow> f64 \<Rightarrow> f64 \<Rightarrow> 'g \<Rightarrow> (f64 \<times> 'g) option" where
  "sample_beta L R alpha beta g =
     (case sample_gamma L R alpha g of None \<Rightarrow> None | Some (x, g1) \<Rightarrow>
     (case sample_gamma L R beta g1 of None \<Rightarrow> None | Some (y, g2) \<Rightarrow>
        let denom = x + y in Some (if denom \<le> 0 then f_of_rat (1 / 2) else x / denom, g2)))"

fun thompson_scan ::
    "libm \<Rightarrow> 'g rng \<Rightarrow> thompson \<Rightarrow> nat list \<Rightarrow> nat \<times> f64 \<Rightarrow> 'g \<Rightarrow> (nat \<times> 'g) option" where
  "thompson_scan L R s [] (best, bv) g = Some (best, g)"
| "thompson_scan L R s (a # as) (best, bv) g =
     (case sample_beta L R (ts_alphas s ! a) (ts_betas s ! a) g of
        None \<Rightarrow> None
      | Some (v, g1) \<Rightarrow> thompson_scan L R s as (if bv < v then (a, v) else (best, bv)) g1)"

definition thompson_select :: "libm \<Rightarrow> 'g rng \<Rightarrow> thompson \<Rightarrow> 'g \<Rightarrow> ((rill_error + usize) \<times> 'g) option" where
  "thompson_select L R s g =
     map_option (\<lambda>(a, g1). (Inr a, g1)) (thompson_scan L R s [0..<ts_arm_count s] (0, f_neg_inf) g)"

section \<open>Counts\<close>

lemma bandit_increment_Inr [result_simps]: "bandit_increment v f = Inr w \<longleftrightarrow> unat v + 1 < 2 ^ 64 \<and> w = v + 1"
  by (auto simp: bandit_increment_def result_simps checked_simps)

lemma validate_arm_Inr [result_simps]: "validate_arm n a = Inr u \<longleftrightarrow> a < n"
  by (auto simp: validate_arm_def)

lemma validate_reward_Inr [result_simps]:
  "validate_reward_finite r = Inr u \<longleftrightarrow> is_finite r"
  "validate_reward_01 r = Inr u \<longleftrightarrow> is_finite r \<and> 0 \<le> f_val r \<and> f_val r \<le> 1"
  by (auto simp: validate_reward_finite_def validate_reward_01_def less_eq_finite)

lemma add_pulls_Inr:
  "try_fold (\<lambda>s p. ok_or (checked_add_u64 s p) e) s ps = Inr t \<longleftrightarrow> unat t = unat s + sum_list (map unat ps)"
proof (induction ps arbitrary: s)
  case Nil
  show ?case by (simp add: word_eq_iff_unsigned eq_commute)
next
  case (Cons p ps)
  show ?case
  proof (cases "unat s + unat p < 2 ^ 64")
    case True
    then show ?thesis using Cons.IH [of "s + p"] by (simp add: checked_add_u64_def ok_or_def unat_add_u64 add.assoc)
  next
    case False
    have "unat t < 2 ^ 64" by (rule unat_u64_less)
    then have "unat t \<noteq> unat s + (unat p + sum_list (map unat ps))" using False by simp
    then show ?thesis using False by (simp add: checked_add_u64_def ok_or_def)
  qed
qed

lemma validate_sample_count_Inr [result_simps]:
  "validate_sample_count ps n = Inr u \<longleftrightarrow> sum_list (map unat ps) = unat n"
proof
  assume "validate_sample_count ps n = Inr u"
  then show "sum_list (map unat ps) = unat n"
    by (auto simp: validate_sample_count_def and_then_Inr add_pulls_Inr split: if_splits)
next
  assume a: "sum_list (map unat ps) = unat n"
  have "try_fold (\<lambda>s p. ok_or (checked_add_u64 s p) (InvalidState ''pull count sum overflow'')) 0 ps = Inr n"
    using a by (simp add: add_pulls_Inr)
  then show "validate_sample_count ps n = Inr u" by (simp add: validate_sample_count_def)
qed

lemma sum_pulls_update:
  "a < length ps \<Longrightarrow> unat (ps ! a) + 1 < 2 ^ 64 \<Longrightarrow>
   sum_list (map unat (ps[a := ps ! a + 1 :: u64])) = sum_list (map unat ps) + 1"
proof -
  assume a: "a < length ps" "unat (ps ! a) + 1 < 2 ^ 64"
  have "unat (ps ! a) \<le> sum_list (map unat ps)"
    using a(1) member_le_sum_list [of "unat (ps ! a)" "map unat ps"] by simp
  then show ?thesis
    using a sum_list_update [of a "map unat ps" "unat (ps ! a) + 1"] unat_inc [OF a(2)] by (simp add: map_update)
qed

lemma zero_pulls: "sum_list (map unat (map (\<lambda>_. 0 :: u64) xs)) = 0"
  by (induction xs) simp_all

section \<open>Epsilon-greedy stays valid\<close>

lemma epsilon_config_Inr:
  "epsilon_config_validate c = Inr u \<Longrightarrow>
   is_finite (eg_epsilon c) \<and> is_finite (eg_decay c) \<and> is_finite (eg_min_epsilon c)
    \<and> 0 \<le> f_val (eg_min_epsilon c) \<and> f_val (eg_min_epsilon c) \<le> f_val (eg_epsilon c) \<and> f_val (eg_epsilon c) \<le> 1
    \<and> 0 < f_val (eg_decay c) \<and> f_val (eg_decay c) \<le> 1"
proof -
  assume "epsilon_config_validate c = Inr u"
  then have c: "0 \<le> eg_epsilon c" "eg_epsilon c \<le> 1" "0 < eg_decay c" "eg_decay c \<le> 1"
    "0 \<le> eg_min_epsilon c" "eg_min_epsilon c \<le> eg_epsilon c"
    by (auto simp: epsilon_config_validate_def split: if_splits)
  have f: "is_finite (eg_epsilon c)" using f_not_nan_finite_between [of 0 1] c(1,2) by simp
  have d: "is_finite (eg_decay c)"
    using f_not_nan_finite_between [of 0 1 "eg_decay c"] c(3,4) by (auto dest: f_less_imp_le)
  have m: "is_finite (eg_min_epsilon c)" using f_not_nan_finite_between [of 0 "eg_epsilon c"] f c(5,6) by simp
  show ?thesis using c f d m by (simp add: less_eq_finite less_finite)
qed

lemma epsilon_decay:
  assumes "is_finite e" "is_finite d" "is_finite m" "0 \<le> f_val m" "f_val m \<le> f_val e" "f_val e \<le> E" "E \<le> 1" "0 < f_val d" "f_val d \<le> 1"
  shows "is_finite (f_max (e * d) m) \<and> f_val m \<le> f_val (f_max (e * d) m) \<and> f_val (f_max (e * d) m) \<le> E"
proof -
  have p: "0 \<le> f_val e * f_val d" "f_val e * f_val d \<le> f_val e"
    using assms mult_left_le [of "f_val d" "f_val e"] by simp_all
  have r: "0 \<le> rnd (f_val e * f_val d)" "rnd (f_val e * f_val d) \<le> f_val e"
    using rnd_pos [OF p(1)] rnd_mono [OF p(2)] by simp_all
  have o: "\<not> overflows (rnd (f_val e * f_val d))" using r assms by (intro overflows_small [of _ 0]) simp_all
  then have f: "is_finite (e * d)" using assms by (simp add: finite_times)
  show ?thesis using f assms r by (simp add: f_max_finite f_val_max f_val_times)
qed

lemma epsilon_greedy_validate_Inr:
  "epsilon_greedy_validate s = Inr u \<longleftrightarrow> eb_arm_count s \<noteq> 0 \<and> epsilon_config_validate (eb_config s) = Inr ()
     \<and> length (eb_pulls s) = eb_arm_count s \<and> length (eb_total_rewards s) = eb_arm_count s
     \<and> list_all is_finite (eb_total_rewards s) \<and> sum_list (map unat (eb_pulls s)) = unat (eb_samples_seen s)
     \<and> is_finite (eb_current_epsilon s) \<and> \<not> eb_current_epsilon s < eg_min_epsilon (eb_config s)
     \<and> \<not> eg_epsilon (eb_config s) < eb_current_epsilon s"
  by (auto simp: epsilon_greedy_validate_def and_then_Inr validate_sample_count_Inr list_all_iff list_ex_iff)

lemma epsilon_update_ok:
  assumes "epsilon_greedy_validate s = Inr ()" "epsilon_greedy_update ar s = (Inr u, s')"
  shows "epsilon_greedy_validate s' = Inr ()"
proof -
  obtain arm r where ar: "ar = (arm, r)" by fastforce
  let ?e = "if eg_decay (eb_config s) < 1 then f_max (eb_current_epsilon s * eg_decay (eb_config s)) (eg_min_epsilon (eb_config s))
            else eb_current_epsilon s"
  have u: "arm < eb_arm_count s" "unat (eb_pulls s ! arm) + 1 < 2 ^ 64" "is_finite (eb_total_rewards s ! arm + r)"
    "unat (eb_samples_seen s) + 1 < 2 ^ 64"
    "s' = s\<lparr>eb_pulls := (eb_pulls s)[arm := eb_pulls s ! arm + 1],
       eb_total_rewards := (eb_total_rewards s)[arm := eb_total_rewards s ! arm + r],
       eb_samples_seen := eb_samples_seen s + 1, eb_current_epsilon := ?e\<rparr>"
    using assms(2) unfolding ar by (auto simp: epsilon_greedy_update_def result_simps Let_def)
  have v: "length (eb_pulls s) = eb_arm_count s" "length (eb_total_rewards s) = eb_arm_count s"
    "list_all is_finite (eb_total_rewards s)" "sum_list (map unat (eb_pulls s)) = unat (eb_samples_seen s)"
    "is_finite (eb_current_epsilon s)" "epsilon_config_validate (eb_config s) = Inr ()" "eb_arm_count s \<noteq> 0"
    "\<not> eb_current_epsilon s < eg_min_epsilon (eb_config s)" "\<not> eg_epsilon (eb_config s) < eb_current_epsilon s"
    using assms(1) by (simp_all add: epsilon_greedy_validate_Inr)
  note c = epsilon_config_Inr [OF v(6)]
  have "is_finite ?e \<and> f_val (eg_min_epsilon (eb_config s)) \<le> f_val ?e \<and> f_val ?e \<le> f_val (eg_epsilon (eb_config s))"
    using epsilon_decay [of "eb_current_epsilon s" "eg_decay (eb_config s)" "eg_min_epsilon (eb_config s)" "f_val (eg_epsilon (eb_config s))"]
      c v(5,8,9) by (simp add: less_finite not_less)
  moreover have "list_all is_finite ((eb_total_rewards s)[arm := eb_total_rewards s ! arm + r])"
    using v(3) u(3) by (auto simp: list_all_iff dest!: set_update_subset_insert [THEN subsetD])
  moreover have "sum_list (map unat ((eb_pulls s)[arm := eb_pulls s ! arm + 1])) = unat (eb_samples_seen s + 1)"
    using sum_pulls_update [of arm "eb_pulls s"] u v(1,4) unat_inc [OF u(4)] by simp
  ultimately show ?thesis
    using v c by (simp add: u(5) epsilon_greedy_validate_Inr less_finite not_less)
qed

interpretation epsilon_greedy: counted_machine epsilon_greedy_update "\<lambda>s. epsilon_greedy_validate s = Inr ()"
  eb_samples_seen epsilon_greedy_reset
proof unfold_locales
  show "epsilon_greedy_update x s = (Inl e, s') \<Longrightarrow> s' = s" for x s e s'
    by (cases x) (simp add: epsilon_greedy_update_def transact_Inl)
  show "epsilon_greedy_validate s = Inr () \<Longrightarrow> epsilon_greedy_update x s = (Inr u, s') \<Longrightarrow> epsilon_greedy_validate s' = Inr ()"
    for x s u s' by (rule epsilon_update_ok)
  show "epsilon_greedy_update x s = (Inr u, s') \<Longrightarrow> unat (eb_samples_seen s') = unat (eb_samples_seen s) + 1" for x s u s'
    by (cases x) (auto simp: epsilon_greedy_update_def result_simps Let_def unat_inc)
  show "epsilon_greedy_validate s = Inr () \<Longrightarrow> epsilon_greedy_validate (epsilon_greedy_reset s) = Inr ()" for s
    using epsilon_config_Inr [of "eb_config s"] zero_pulls [of "eb_pulls s"]
    by (auto simp: epsilon_greedy_validate_Inr epsilon_greedy_reset_def list_all_iff less_finite not_less)
qed (simp add: epsilon_greedy_reset_def)


section \<open>UCB1 stays valid and picks a best arm\<close>

text \<open>
  The totals are sums of rewards in the unit interval. Rounding cannot take a total above its number of
  pulls while that number is a double, that is up to \<open>2 ^ 53\<close> pulls.
\<close>

definition totals_ok :: "u64 list \<Rightarrow> f64 list \<Rightarrow> bool" where
  "totals_ok ps rs \<longleftrightarrow> list_all2 (\<lambda>p r. is_finite r \<and> 0 \<le> f_val r \<and> f_val r \<le> of_nat (unat p)) ps rs"

lemma total_step:
  assumes "is_finite (t + r)" "0 \<le> f_val t" "f_val t \<le> of_nat n" "0 \<le> f_val r" "f_val r \<le> 1" "n + 1 \<le> 2 ^ 53"
  shows "0 \<le> f_val (t + r) \<and> f_val (t + r) \<le> of_nat (n + 1)"
proof -
  have "rnd (of_nat (n + 1)) = of_nat (n + 1)" by (rule rnd_of_nat [OF assms(6)])
  moreover have "f_val t + f_val r \<le> of_nat (n + 1)" using assms(3,5) by simp
  ultimately have "rnd (f_val t + f_val r) \<le> of_nat (n + 1)" by (rule rnd_upper)
  then show ?thesis using assms rnd_pos by (simp add: f_val_plus)
qed

lemma totals_update:
  assumes "totals_ok ps rs" "a < length ps" "unat (ps ! a) + 1 \<le> 2 ^ 53" "is_finite (rs ! a + r)" "0 \<le> f_val r" "f_val r \<le> 1"
  shows "totals_ok (ps[a := ps ! a + 1]) (rs[a := rs ! a + r])"
proof -
  have "is_finite (rs ! a) \<and> 0 \<le> f_val (rs ! a) \<and> f_val (rs ! a) \<le> of_nat (unat (ps ! a))"
    using assms(1,2) by (auto simp: totals_ok_def list_all2_conv_all_nth)
  then have "0 \<le> f_val (rs ! a + r) \<and> f_val (rs ! a + r) \<le> of_nat (unat (ps ! a) + 1)"
    using total_step [of "rs ! a" r "unat (ps ! a)"] assms by simp
  moreover have "unat (ps ! a + 1) = unat (ps ! a) + 1" using assms(3) by (intro unat_inc) simp
  ultimately show ?thesis
    using assms(1,4) unfolding totals_ok_def by (intro list_all2_update_cong) simp_all
qed

definition ucb1_shape :: "ucb1 \<Rightarrow> bool" where
  "ucb1_shape s \<longleftrightarrow> ub_arm_count s \<noteq> 0 \<and> is_finite (ub_exploration_constant s) \<and> 0 < f_val (ub_exploration_constant s)
     \<and> length (ub_pulls s) = ub_arm_count s \<and> length (ub_total_rewards s) = ub_arm_count s
     \<and> sum_list (map unat (ub_pulls s)) = unat (ub_samples_seen s)"

lemma ucb1_validate_Inr:
  "ucb1_validate s = Inr u \<longleftrightarrow> ucb1_shape s
     \<and> list_all2 (\<lambda>p r. \<not> inconsistent_total p r) (ub_pulls s) (ub_total_rewards s)"
proof -
  have e: "(\<forall>x \<in> set (List.enumerate k (zip ps rs)). (case x of (arm, p, r) \<Rightarrow>
      if inconsistent_total p r then Inl (InvalidState (inconsistent_reward_msg arm)) else Inr ()) = Inr ())
    \<longleftrightarrow> (\<forall>(p, r) \<in> set (zip ps rs). \<not> inconsistent_total p r)" for k and ps :: "u64 list" and rs
  proof (induction ps arbitrary: k rs)
    case (Cons p ps)
    then show ?case by (cases rs) auto
  qed simp
  have c: "ucb1_config_validate c = Inr () \<longleftrightarrow> is_finite c \<and> 0 < f_val c" for c
    by (auto simp: ucb1_config_validate_def less_eq_finite)
  show ?thesis
    by (auto simp: ucb1_validate_def ucb1_shape_def and_then_Inr validate_sample_count_Inr try_for_each_Inr e c list_all2_iff)
qed

lemma pulls_le_samples:
  "p \<in> set ps \<Longrightarrow> sum_list (map unat ps) = n \<Longrightarrow> unat (p :: u64) \<le> n"
  using member_le_sum_list [of "unat p" "map unat ps"] by auto

definition ucb1_inv :: "ucb1 \<Rightarrow> bool" where
  "ucb1_inv s \<longleftrightarrow> ucb1_shape s \<and> (unat (ub_samples_seen s) \<le> 2 ^ 53 \<longrightarrow> totals_ok (ub_pulls s) (ub_total_rewards s))"

lemma ucb1_inv_valid:
  assumes "ucb1_inv s" "unat (ub_samples_seen s) \<le> 2 ^ 53"
  shows "ucb1_validate s = Inr ()"
proof -
  have s: "ucb1_shape s" "totals_ok (ub_pulls s) (ub_total_rewards s)" using assms by (auto simp: ucb1_inv_def)
  have "\<not> inconsistent_total p r" if "is_finite r" "0 \<le> f_val r" "f_val r \<le> of_nat (unat p)" "p \<in> set (ub_pulls s)" for p r
  proof -
    have "unat p \<le> 2 ^ 53" using pulls_le_samples [OF that(4)] s(1) assms(2) by (auto simp: ucb1_shape_def)
    then have "f_val (f_of_u64 p) = of_nat (unat p)" unfolding f_val_of_u64 by (rule rnd_of_nat)
    then show ?thesis using that by (simp add: inconsistent_total_def less_finite)
  qed
  then have "list_all2 (\<lambda>p r. \<not> inconsistent_total p r) (ub_pulls s) (ub_total_rewards s)"
    using s(2) by (auto simp: totals_ok_def list_all2_conv_all_nth)
  then show ?thesis using s(1) by (simp add: ucb1_validate_Inr)
qed

lemma ucb1_step:
  assumes "ucb1_inv s" "ucb1_update ar s = (Inr u, s')"
  shows "ucb1_inv s' \<and> unat (ub_samples_seen s') = unat (ub_samples_seen s) + 1"
proof -
  obtain arm r where ar: "ar = (arm, r)" by fastforce
  have u: "arm < ub_arm_count s" "unat (ub_pulls s ! arm) + 1 < 2 ^ 64" "is_finite (ub_total_rewards s ! arm + r)"
    "unat (ub_samples_seen s) + 1 < 2 ^ 64" "0 \<le> f_val r" "f_val r \<le> 1"
    "s' = s\<lparr>ub_pulls := (ub_pulls s)[arm := ub_pulls s ! arm + 1],
       ub_total_rewards := (ub_total_rewards s)[arm := ub_total_rewards s ! arm + r],
       ub_samples_seen := ub_samples_seen s + 1\<rparr>"
    using assms(2) unfolding ar by (auto simp: ucb1_update_def result_simps)
  have sh: "ucb1_shape s" using assms(1) by (simp add: ucb1_inv_def)
  have shape: "ucb1_shape s'"
    using sh u sum_pulls_update [of arm "ub_pulls s"] unat_inc [OF u(4)] by (simp add: ucb1_shape_def)
  have "totals_ok (ub_pulls s') (ub_total_rewards s')" if "unat (ub_samples_seen s') \<le> 2 ^ 53"
  proof -
    have n: "unat (ub_samples_seen s) + 1 \<le> 2 ^ 53" using that unat_inc [OF u(4)] by (simp add: u(7))
    have "unat (ub_pulls s ! arm) \<le> unat (ub_samples_seen s)"
      using pulls_le_samples [of "ub_pulls s ! arm" "ub_pulls s"] sh u(1) by (auto simp: ucb1_shape_def)
    moreover have "totals_ok (ub_pulls s) (ub_total_rewards s)" using assms(1) n by (simp add: ucb1_inv_def)
    ultimately show ?thesis
      using totals_update [of "ub_pulls s" "ub_total_rewards s" arm r] u n sh by (simp add: ucb1_shape_def)
  qed
  then show ?thesis using shape unat_inc [OF u(4)] u(7) by (simp add: ucb1_inv_def)
qed

lemma ucb1_reset_inv: "ucb1_inv s \<Longrightarrow> ucb1_inv (ucb1_reset s)"
  using zero_pulls [of "ub_pulls s"]
  by (auto simp: ucb1_inv_def ucb1_shape_def ucb1_reset_def totals_ok_def list_all2_conv_all_nth)

interpretation ucb1: counted_machine ucb1_update ucb1_inv ub_samples_seen ucb1_reset
proof unfold_locales
  show "ucb1_update x s = (Inl e, s') \<Longrightarrow> s' = s" for x s e s'
    by (cases x) (simp add: ucb1_update_def transact_Inl)
  show "ucb1_inv s \<Longrightarrow> ucb1_update x s = (Inr u, s') \<Longrightarrow> ucb1_inv s'" for x s u s' using ucb1_step by blast
  show "ucb1_update x s = (Inr u, s') \<Longrightarrow> unat (ub_samples_seen s') = unat (ub_samples_seen s) + 1" for x s u s'
    by (cases x) (auto simp: ucb1_update_def result_simps unat_inc)
qed (simp_all add: ucb1_reset_inv, simp add: ucb1_reset_def)

lemma accepted_le: "length (accepted_ops exec xs s) \<le> length xs"
  by (induction xs arbitrary: s) (auto simp: Let_def le_SucI split: prod.splits)

datatype bandit_op = Update usize f64 | ResetBandit

fun ucb1_apply :: "bandit_op \<Rightarrow> ucb1 \<Rightarrow> (rill_error + unit) \<times> ucb1" where
  "ucb1_apply (Update arm r) s = ucb1_update (arm, r) s"
| "ucb1_apply ResetBandit s = (Inr (), ucb1_reset s)"

lemma ucb1_apply_updates: "run_ops ucb1_apply (map (\<lambda>(arm, r). Update arm r) ars) s = run_ops ucb1_update ars s"
  by (induction ars arbitrary: s) auto

text \<open>The number of arms and the exploration constant never change, and a count grows by at most one each step.\<close>

lemma ucb1_apply_keeps:
  assumes "ucb1_inv s"
  shows "ucb1_inv (snd (ucb1_apply x s)) \<and> ub_arm_count (snd (ucb1_apply x s)) = ub_arm_count s
    \<and> ub_exploration_constant (snd (ucb1_apply x s)) = ub_exploration_constant s
    \<and> unat (ub_samples_seen (snd (ucb1_apply x s))) \<le> unat (ub_samples_seen s) + 1"
proof (cases x)
  case (Update arm r)
  obtain v s' where u: "ucb1_update (arm, r) s = (v, s')" by fastforce
  have "ub_arm_count s' = ub_arm_count s \<and> ub_exploration_constant s' = ub_exploration_constant s
      \<and> unat (ub_samples_seen s') \<le> unat (ub_samples_seen s) + 1"
    using u by (cases v) (auto simp: ucb1_update_def result_simps transact_Inl unat_inc)
  then show ?thesis using ucb1.exec_inv [OF assms, of "(arm, r)"] u Update by simp
next
  case ResetBandit
  then show ?thesis using ucb1_reset_inv [OF assms] by (simp add: ucb1_reset_def)
qed

lemma ucb1_run_keeps:
  assumes "ucb1_inv s" "s' = run_ops ucb1_apply ops s"
  shows "ucb1_inv s' \<and> ub_arm_count s' = ub_arm_count s \<and> ub_exploration_constant s' = ub_exploration_constant s
    \<and> unat (ub_samples_seen s') \<le> unat (ub_samples_seen s) + length ops"
  using assms
proof (induction ops arbitrary: s)
  case (Cons x ops)
  then show ?case using ucb1_apply_keeps [OF Cons.prems(1), of x] by fastforce
qed simp

lemma ucb1_new_inv:
  assumes "ucb1_new n c = Inr s0"
  shows "ucb1_inv s0 \<and> ub_samples_seen s0 = 0 \<and> ub_pulls s0 = replicate n 0 \<and> ub_total_rewards s0 = replicate n 0
    \<and> ub_arm_count s0 = n"
  using assms zero_pulls [of "replicate n 0"]
  by (auto simp: ucb1_new_def ucb1_inv_def ucb1_shape_def totals_ok_def and_then_Inr ucb1_config_validate_def
      less_eq_finite list_all2_conv_all_nth map_replicate_const split: if_splits)

text \<open>
  C20: reachable UCB1 states are valid. After up to \<open>2 ^ 53\<close> updates, accepted or rejected, and resets, in any
  order, the state passes the checks that \<open>Deserialize\<close> runs: the pulls add up to the sample count, and no
  total exceeds the pulls of its arm, in IEEE arithmetic. A reset at that point gives back the bandit
  \<open>new\<close> made, and without resets the sample count is the number of accepted updates.
\<close>

theorem ucb1_reachable_valid:
  assumes "ucb1_new n c = Inr s0" "length ops \<le> 2 ^ 53" "s = run_ops ucb1_apply ops s0"
  shows "ucb1_validate s = Inr () \<and> run_ops ucb1_apply (ops @ [ResetBandit]) s0 = s0
    \<and> (\<forall>ars. ops = map (\<lambda>(arm, r). Update arm r) ars \<longrightarrow>
         unat (ub_samples_seen s) = length (accepted_ops ucb1_update ars s0))"
proof -
  note s0 = ucb1_new_inv [OF assms(1)]
  have s: "ucb1_inv s" "ub_arm_count s = n" "ub_exploration_constant s = ub_exploration_constant s0"
    "unat (ub_samples_seen s) \<le> 2 ^ 53"
    using ucb1_run_keeps [OF _ assms(3)] s0 assms(2) by auto
  then have "ucb1_reset s = s0"
    using s0 by (auto simp: ucb1_reset_def ucb1_inv_def ucb1_shape_def map_replicate_const intro!: ucb1.equality)
  then have "run_ops ucb1_apply (ops @ [ResetBandit]) s0 = s0" by (simp add: run_ops_append assms(3) [symmetric])
  moreover have "unat (ub_samples_seen s) = length (accepted_ops ucb1_update ars s0)"
    if "ops = map (\<lambda>(arm, r). Update arm r) ars" for ars
    using ucb1.run_seen [of ars s0] s0 assms(3) by (simp add: that ucb1_apply_updates)
  ultimately show ?thesis using ucb1_inv_valid s(1,4) by blast
qed

definition demo_ucb1 :: ucb1 where
  "demo_ucb1 = \<lparr>ub_arm_count = 2, ub_exploration_constant = 1, ub_pulls = [0, 0], ub_total_rewards = [0, 0], ub_samples_seen = 0\<rparr>"

lemma demo_ucb1_new: "ucb1_new 2 1 = Inr demo_ucb1"
  by (simp add: ucb1_new_def demo_ucb1_def ucb1_config_validate_def less_eq_finite numeral_2_eq_2)

theorem ucb1_reachable_valid_witness:
  "ucb1_validate (run_ops ucb1_apply [Update 0 1, Update 1 f_inf, ResetBandit, Update 2 1, Update 1 0] demo_ucb1) = Inr ()"
  using ucb1_reachable_valid [OF demo_ucb1_new _ refl,
      of "[Update 0 1, Update 1 f_inf, ResetBandit, Update 2 1, Update 1 0]"] by simp

section \<open>The arm UCB1 selects\<close>

lemma scan_best_max:
  assumes "scan_best (b, bv) es = (i, v)" "\<not> is_nan bv" "\<And>j w. (j, w) \<in> set es \<Longrightarrow> \<not> is_nan w"
  shows "(i, v) \<in> insert (b, bv) (set es) \<and> bv \<le> v \<and> (\<forall>(j, w) \<in> set es. w \<le> v)"
  using assms
proof (induction es arbitrary: b bv)
  case (Cons e es)
  obtain j w where e: "e = (j, w)" by fastforce
  have nw: "\<not> is_nan w" using Cons.prems(3) e by auto
  define c where "c = (if bv < w then (j, w) else (b, bv))"
  have c: "\<not> is_nan (snd c)" "bv \<le> snd c" "w \<le> snd c"
    using nw Cons.prems(2) f_not_less by (auto simp: c_def f_le_refl f_less_imp_le)
  have "scan_best (fst c, snd c) es = (i, v)" using Cons.prems(1) by (simp add: e c_def)
  from Cons.IH [OF this c(1)] Cons.prems(3) have "(i, v) \<in> insert c (set es) \<and> snd c \<le> v \<and> (\<forall>(j, w) \<in> set es. w \<le> v)"
    by auto
  moreover from this have "bv \<le> v" "w \<le> v" using f_le_trans [OF c(2)] f_le_trans [OF c(3)] by blast+
  ultimately show ?case by (auto simp: e c_def split: if_splits)
qed (auto simp: f_le_refl)

text \<open>What is used of the logarithm: of a finite number from one on, it is finite and not negative.\<close>

definition ln_contract :: "(f64 \<Rightarrow> f64) \<Rightarrow> bool" where
  "ln_contract libln \<longleftrightarrow> (\<forall>x. is_finite x \<and> 1 \<le> f_val x \<longrightarrow> is_finite (libln x) \<and> nonneg (libln x))"

lemma nonneg_of_u64: "nonneg (f_of_u64 n)"
  by (simp add: f_of_u64_def)

lemma f_val_of_u64_ge_1: "n \<noteq> 0 \<Longrightarrow> 1 \<le> f_val (f_of_u64 n)"
  using f_val_of_u64_ge [of 1 n] by (simp add: unat_gt_0 Suc_leI)

lemma ucb_value_not_nan:
  assumes "ucb1_validate s = Inr ()" "ln_contract libln" "arm < ub_arm_count s"
  shows "\<not> is_nan (ucb_value libln s arm)"
proof (cases "ub_pulls s ! arm = 0")
  case True
  have "\<not> is_nan f_inf" by code_simp
  then show ?thesis using True by (simp add: ucb_value_def)
next
  case False
  let ?p = "ub_pulls s ! arm" and ?t = "ub_total_rewards s ! arm"
  have sh: "ucb1_shape s" and "\<not> inconsistent_total ?p ?t"
    using assms(1,3) by (auto simp: ucb1_validate_Inr ucb1_shape_def list_all2_conv_all_nth)
  then have t: "is_finite ?t" "0 \<le> f_val ?t" "f_val ?t \<le> f_val (f_of_u64 ?p)"
    by (auto simp: inconsistent_total_def less_finite not_less)
  have p1: "1 \<le> f_val (f_of_u64 ?p)" using False by (rule f_val_of_u64_ge_1)
  have q: "0 \<le> f_val ?t / f_val (f_of_u64 ?p)" "f_val ?t / f_val (f_of_u64 ?p) \<le> 1" using t p1 by simp_all
  have "\<bar>rnd (f_val ?t / f_val (f_of_u64 ?p))\<bar> \<le> 1"
    using rnd_pos [OF q(1)] rnd_upper [of 1] q(2) rnd_of_nat [of 1] by simp
  then have "\<not> overflows (rnd (f_val ?t / f_val (f_of_u64 ?p)))" by (intro overflows_small [of _ 0]) simp_all
  then have mean: "is_finite (?t / f_of_u64 ?p)" using t p1 by (simp add: finite_divide)
  have "?p \<in> set (ub_pulls s)" using sh assms(3) by (simp add: ucb1_shape_def)
  then have "ub_samples_seen s \<noteq> 0"
    using pulls_le_samples [of ?p "ub_pulls s"] sh False by (auto simp: ucb1_shape_def unat_eq_0)
  then have l: "is_finite (libln (f_of_u64 (ub_samples_seen s)))" "nonneg (libln (f_of_u64 (ub_samples_seen s)))"
    using assms(2) f_val_of_u64_ge_1 by (simp_all add: ln_contract_def)
  have two: "is_finite (f_of_nat 2)" "f_val (f_of_nat 2) \<noteq> 0" by code_simp+
  have "nonneg (f_of_nat 2 * libln (f_of_u64 (ub_samples_seen s)))" using two l(2) by (intro nonneg_times) simp_all
  then have "nonneg (f_of_nat 2 * libln (f_of_u64 (ub_samples_seen s)) / f_of_u64 ?p)"
    using p1 nonneg_of_u64 by (intro nonneg_divide) auto
  then have r: "nonneg (f_sqrt (f_of_nat 2 * libln (f_of_u64 (ub_samples_seen s)) / f_of_u64 ?p))" by (rule nonneg_sqrt)
  have c: "is_finite (ub_exploration_constant s)" "0 < f_val (ub_exploration_constant s)" using sh by (simp_all add: ucb1_shape_def)
  then have "nonneg (ub_exploration_constant s)" by (intro pos_nonneg) (simp add: less_finite)
  then have "nonneg (ub_exploration_constant s * f_sqrt (f_of_nat 2 * libln (f_of_u64 (ub_samples_seen s)) / f_of_u64 ?p))"
    using r c by (intro nonneg_times) auto
  then show ?thesis using False mean finite_plus_not_nan by (simp add: ucb_value_def Let_def nonneg_def)
qed

text \<open>
  UCB1 selects a best arm. On any state that passes \<open>validate\<close>, selection returns an arm in range
  whose upper confidence bound, infinite for an arm never pulled, is at least that of every arm; so an
  unexplored arm is taken while there is one. No bound is NaN on such a state.
\<close>

theorem ucb1_select_best:
  assumes "ucb1_validate s = Inr ()" "rng_contract R" "ln_contract libln"
  shows "\<exists>arm g'. ucb1_select libln R s g = (Inr arm, g') \<and> arm < ub_arm_count s
    \<and> (\<forall>b < ub_arm_count s. ucb_value libln s b \<le> ucb_value libln s arm)
    \<and> ((\<exists>b < ub_arm_count s. ub_pulls s ! b = 0) \<longrightarrow> ub_pulls s ! arm = 0)"
proof -
  let ?n = "ub_arm_count s" and ?un = "filter (\<lambda>a. ub_pulls s ! a = 0) [0..<ub_arm_count s]"
  note nn = ucb_value_not_nan [OF assms(1,3)]
  show ?thesis
  proof (cases "?un = []")
    case False
    obtain i g1 where i: "gen_index R (length ?un) g = (i, g1)" by fastforce
    then have "i < length ?un" using assms(2) False by (metis rng_contract_def fst_conv length_greater_0_conv)
    then have m: "?un ! i \<in> set ?un" by (rule nth_mem)
    then have "ucb_value libln s (?un ! i) = f_inf" by (simp add: ucb_value_def)
    then have "\<forall>b < ?n. ucb_value libln s b \<le> ucb_value libln s (?un ! i)" using le_f_inf nn by simp
    then show ?thesis using m i False by (intro exI [of _ "?un ! i"] exI [of _ g1]) (simp add: ucb1_select_def Let_def)
  next
    case True
    define es where "es = map (\<lambda>a. (a, ucb_value libln s a)) (filter (\<lambda>a. ub_pulls s ! a \<noteq> 0) [0..<?n])"
    have all: "\<forall>b < ?n. ub_pulls s ! b \<noteq> 0" using True by (auto simp: filter_empty_conv)
    then have es: "set es = (\<lambda>a. (a, ucb_value libln s a)) ` {0..<?n}" by (auto simp: es_def)
    obtain a v where av: "scan_best (0, f_neg_inf) es = (a, v)" by fastforce
    have "\<not> is_nan f_neg_inf" by code_simp
    moreover have "\<not> is_nan w" if "(j, w) \<in> set es" for j w using that nn es by auto
    ultimately have "(a, v) \<in> insert (0, f_neg_inf) (set es) \<and> f_neg_inf \<le> v \<and> (\<forall>(j, w) \<in> set es. w \<le> v)"
      by (rule scan_best_max [OF av])
    then have s: "(a, v) \<in> insert (0, f_neg_inf) (set es)" "\<forall>(j, w) \<in> set es. w \<le> v" by blast+
    have n: "0 < ?n" using assms(1) by (auto simp: ucb1_validate_Inr ucb1_shape_def)
    have a: "a < ?n \<and> v \<le> ucb_value libln s a"
    proof (cases "(a, v) \<in> set es")
      case True
      then show ?thesis using es nn by (auto intro: f_le_refl)
    next
      case False
      then show ?thesis using s(1) n neg_inf_le nn by auto
    qed
    have "ucb_value libln s b \<le> ucb_value libln s a" if "b < ?n" for b
    proof -
      have "(b, ucb_value libln s b) \<in> set es" using es that by simp
      then have "ucb_value libln s b \<le> v" using s(2) by blast
      then show ?thesis using a f_le_trans by blast
    qed
    then show ?thesis
      using a True all av by (intro exI [of _ a] exI [of _ g]) (simp add: ucb1_select_def Let_def es_def)
  qed
qed

definition first_rng :: "unit rng" where
  "first_rng = \<lparr>gen_index = \<lambda>n g. (0, g), gen_f64 = \<lambda>lo hi g. (lo, g)\<rparr>"

definition pulled_ucb1 :: ucb1 where
  "pulled_ucb1 = \<lparr>ub_arm_count = 2, ub_exploration_constant = 1, ub_pulls = [1, 1], ub_total_rewards = [0, 1], ub_samples_seen = 2\<rparr>"

theorem ucb1_select_best_witness:
  "\<exists>arm g'. ucb1_select (\<lambda>x. 1) first_rng pulled_ucb1 () = (Inr arm, g') \<and> arm < 2"
proof -
  have "ucb1_validate pulled_ucb1 = Inr ()"
    by (simp add: ucb1_validate_Inr ucb1_shape_def pulled_ucb1_def inconsistent_total_def less_finite)
  moreover have "rng_contract first_rng" by (simp add: rng_contract_def first_rng_def)
  moreover have "ln_contract (\<lambda>x. 1)" by (simp add: ln_contract_def pos_nonneg less_finite)
  ultimately have "\<exists>arm g'. ucb1_select (\<lambda>x. 1) first_rng pulled_ucb1 () = (Inr arm, g') \<and> arm < ub_arm_count pulled_ucb1"
    using ucb1_select_best [of pulled_ucb1 first_rng "\<lambda>x. 1" "()"] by blast
  then show ?thesis by (simp add: pulled_ucb1_def)
qed


section \<open>Thompson sampling can reject its own state\<close>

definition thompson_shape :: "thompson \<Rightarrow> bool" where
  "thompson_shape s \<longleftrightarrow> ts_arm_count s \<noteq> 0 \<and> thompson_config_validate (ts_config s) = Inr ()
     \<and> length (ts_alphas s) = ts_arm_count s \<and> length (ts_betas s) = ts_arm_count s
     \<and> length (ts_pulls s) = ts_arm_count s \<and> length (ts_total_rewards s) = ts_arm_count s
     \<and> sum_list (map unat (ts_pulls s)) = unat (ts_samples_seen s)
     \<and> list_all is_finite (ts_alphas s) \<and> list_all is_finite (ts_betas s) \<and> list_all is_finite (ts_total_rewards s)"

lemma finite_update: "list_all is_finite xs \<Longrightarrow> is_finite x \<Longrightarrow> list_all is_finite (xs[i := x])"
  by (auto simp: list_all_iff dest!: set_update_subset_insert [THEN subsetD])

lemma thompson_update_Inr:
  "thompson_update (arm, r) s = (Inr u, s') \<longleftrightarrow> arm < ts_arm_count s \<and> is_finite r \<and> 0 \<le> f_val r \<and> f_val r \<le> 1
     \<and> is_finite (ts_alphas s ! arm + r) \<and> is_finite (ts_betas s ! arm + (1 - r))
     \<and> unat (ts_pulls s ! arm) + 1 < 2 ^ 64 \<and> is_finite (ts_total_rewards s ! arm + r)
     \<and> unat (ts_samples_seen s) + 1 < 2 ^ 64
     \<and> s' = s\<lparr>ts_alphas := (ts_alphas s)[arm := ts_alphas s ! arm + r],
         ts_betas := (ts_betas s)[arm := ts_betas s ! arm + (1 - r)], ts_pulls := (ts_pulls s)[arm := ts_pulls s ! arm + 1],
         ts_total_rewards := (ts_total_rewards s)[arm := ts_total_rewards s ! arm + r], ts_samples_seen := ts_samples_seen s + 1\<rparr>"
  by (auto simp: thompson_update_def result_simps)

lemma config_finite: "thompson_config_validate c = Inr () \<Longrightarrow> is_finite (tc_alpha_prior c) \<and> is_finite (tc_beta_prior c)"
  by (auto simp: thompson_config_validate_def split: if_splits)

interpretation thompson: counted_machine thompson_update thompson_shape ts_samples_seen thompson_reset
proof unfold_locales
  show "thompson_update x s = (Inl e, s') \<Longrightarrow> s' = s" for x s e s'
    by (cases x) (simp add: thompson_update_def transact_Inl)
  show "thompson_shape s \<Longrightarrow> thompson_update x s = (Inr u, s') \<Longrightarrow> thompson_shape s'" for x s u s'
    by (cases x) (auto simp: thompson_update_Inr thompson_shape_def sum_pulls_update unat_inc finite_update)
  show "thompson_update x s = (Inr u, s') \<Longrightarrow> unat (ts_samples_seen s') = unat (ts_samples_seen s) + 1" for x s u s'
    by (cases x) (auto simp: thompson_update_Inr unat_inc)
  show "thompson_shape s \<Longrightarrow> thompson_shape (thompson_reset s)" for s
    using zero_pulls [of "ts_pulls s"] config_finite [of "ts_config s"]
    by (auto simp: thompson_shape_def thompson_reset_def list_all_iff)
qed (simp add: thompson_reset_def)

text \<open>
  With a prior of \<open>2 ^ 54\<close> the posterior absorbs every reward of one: alpha stays what it is while the
  total grows, and after \<open>2 ^ 25\<close> updates the two differ by more than the tolerance. The state was
  reached by accepted updates only, and \<open>validate\<close>, hence \<open>Deserialize\<close>, rejects it.
\<close>

definition big_prior :: f64 where "big_prior = f_of_nat (2 ^ 54)"

definition absorbed :: "nat \<Rightarrow> thompson \<Rightarrow> bool" where
  "absorbed n s \<longleftrightarrow> ts_arm_count s = 1 \<and> ts_config s = \<lparr>tc_alpha_prior = big_prior, tc_beta_prior = 1\<rparr>
     \<and> ts_alphas s = [big_prior] \<and> ts_betas s = [1] \<and> ts_pulls s = [of_nat n] \<and> ts_samples_seen s = of_nat n
     \<and> (\<exists>t. ts_total_rewards s = [t] \<and> is_finite t \<and> f_val t = of_nat n)"

lemma big_prior_facts: "big_prior + 1 = big_prior" "is_finite big_prior" "f_val big_prior = 2 ^ 54" "1 + (1 - 1) = (1 :: f64)"
  by code_simp+

lemma absorbed_step:
  assumes "absorbed n s" "n < 2 ^ 26"
  shows "\<exists>s'. thompson_update (0, 1) s = (Inr (), s') \<and> absorbed (n + 1) s'"
proof -
  obtain t where t: "ts_total_rewards s = [t]" "is_finite t" "f_val t = of_nat n" using assms(1) by (auto simp: absorbed_def)
  have "rnd (f_val t + 1) = of_nat (n + 1)" using rnd_of_nat [of "n + 1"] assms(2) t(3) by (simp add: add.commute)
  moreover have "\<bar>of_nat (n + 1) :: rat\<bar> \<le> 2 powi 26"
  proof -
    have "n + 1 \<le> 2 ^ 26" using assms(2) by simp
    then have "(of_nat (n + 1) :: rat) \<le> of_nat (2 ^ 26)" by (simp only: of_nat_le_iff)
    then show ?thesis by simp
  qed
  ultimately have f: "is_finite (t + 1)" "f_val (t + 1) = of_nat (n + 1)"
    using t(2) overflows_small [of "of_nat (n + 1)" 26] finite_plus [of t 1] f_val_plus [of t 1] by simp_all
  have n: "unat (of_nat n :: u64) = n" using assms(2) by (simp add: unsigned_of_nat take_bit_nat_eq_self)
  have "is_finite (big_prior + 1)" "is_finite (1 + (1 - 1) :: f64)" using big_prior_facts by simp_all
  then show ?thesis
    using assms t f n big_prior_facts by (simp add: thompson_update_Inr absorbed_def add.commute)
qed

lemma absorbed_run:
  "n \<le> 2 ^ 26 \<Longrightarrow> absorbed 0 s \<Longrightarrow> absorbed n (run_ops thompson_update (replicate n (0, 1)) s)
     \<and> accepted_ops thompson_update (replicate n (0, 1)) s = replicate n (0, 1)"
proof (induction n)
  case (Suc n)
  then have ih: "absorbed n (run_ops thompson_update (replicate n (0, 1)) s)"
    "accepted_ops thompson_update (replicate n (0, 1)) s = replicate n (0, 1)" by simp_all
  obtain s' where s': "thompson_update (0, 1) (run_ops thompson_update (replicate n (0, 1)) s) = (Inr (), s')" "absorbed (n + 1) s'"
    using absorbed_step [OF ih(1)] Suc.prems(1) by auto
  have "accepted_ops exec (xs @ [x]) s = accepted_ops exec xs s @ accepted_ops exec [x] (run_ops exec xs s)"
    for exec :: "nat \<times> f64 \<Rightarrow> thompson \<Rightarrow> (rill_error + unit) \<times> thompson" and xs x s
    by (induction xs arbitrary: s) (auto simp: Let_def split: prod.splits)
  moreover have "replicate (Suc n) (0, 1) = replicate n (0, 1) @ [(0 :: nat, 1 :: f64)]" by (rule replicate_append_same [symmetric, unfolded replicate_Suc [symmetric]])
  ultimately show ?case using ih s' by (simp add: run_ops_append)
qed simp

lemma absorbed_invalid:
  assumes "absorbed (2 ^ 25) s"
  shows "thompson_validate s \<noteq> Inr ()"
proof -
  obtain t where t: "ts_total_rewards s = [t]" "is_finite t" "f_val t = 2 ^ 25" using assms by (auto simp: absorbed_def)
  have r: "rnd (2 ^ 54 + 2 ^ 25) = 2 ^ 54 + 2 ^ 25" using rnd_representable [of "2 ^ 29 + 1" 25] by simp
  have o: "\<not> overflows (2 ^ 54 + 2 ^ 25)" by (rule overflows_small [of _ 55]) simp_all
  have e: "is_finite (big_prior + t)" "f_val (big_prior + t) = 2 ^ 54 + 2 ^ 25"
    using t big_prior_facts r o finite_plus [of big_prior t] f_val_plus [of big_prior t] by simp_all
  have r2: "rnd (2 ^ 54 - (2 ^ 54 + 2 ^ 25)) = - (2 ^ 25)" using rnd_of_int [of "- (2 ^ 25)"] by simp
  have o2: "\<not> overflows (- (2 ^ 25))" by (rule overflows_small [of _ 25]) simp_all
  have d: "is_finite (big_prior - (big_prior + t))" "f_val (big_prior - (big_prior + t)) = - (2 ^ 25)"
    using e big_prior_facts r2 o2 finite_minus [of big_prior "big_prior + t"] f_val_minus [of big_prior "big_prior + t"] by simp_all
  have p: "is_finite posterior_tolerance" "0 \<le> f_val posterior_tolerance" "f_val posterior_tolerance \<le> 3 / 2 ^ 31"
    by code_simp+
  have m: "is_finite (f_max \<bar>big_prior + t\<bar> 1)" "f_val (f_max \<bar>big_prior + t\<bar> 1) = 2 ^ 54 + 2 ^ 25"
    using e by (simp_all add: f_max_finite f_val_max)
  have b: "f_val posterior_tolerance * (2 ^ 54 + 2 ^ 25) \<le> 26214400"
  proof -
    have "f_val posterior_tolerance * (2 ^ 54 + 2 ^ 25) \<le> 3 / 2 ^ 31 * (2 ^ 54 + 2 ^ 25)"
      using p(3) by (intro mult_right_mono) simp_all
    then show ?thesis by simp
  qed
  then have "rnd (f_val posterior_tolerance * (2 ^ 54 + 2 ^ 25)) \<le> 26214400"
    using rnd_upper [of 26214400] rnd_of_nat [of 26214400] by simp
  moreover have "0 \<le> rnd (f_val posterior_tolerance * (2 ^ 54 + 2 ^ 25))" using p(2) by (intro rnd_pos) simp
  ultimately have "\<bar>rnd (f_val posterior_tolerance * (2 ^ 54 + 2 ^ 25))\<bar> \<le> 2 powi 25" by simp
  then have "\<not> overflows (rnd (f_val posterior_tolerance * (2 ^ 54 + 2 ^ 25)))" by (rule overflows_small) simp
  then have "is_finite (posterior_tolerance * f_max \<bar>big_prior + t\<bar> 1)"
    "f_val (posterior_tolerance * f_max \<bar>big_prior + t\<bar> 1) < 2 ^ 25"
    using finite_times [of posterior_tolerance "f_max \<bar>big_prior + t\<bar> 1"] p m
      f_val_times [of posterior_tolerance "f_max \<bar>big_prior + t\<bar> 1"]
      \<open>rnd (f_val posterior_tolerance * (2 ^ 54 + 2 ^ 25)) \<le> 26214400\<close> by auto
  then have "posterior_tolerance * f_max \<bar>big_prior + t\<bar> 1 < \<bar>big_prior - (big_prior + t)\<bar>"
    using d by (simp add: less_finite)
  then have "thompson_check_arm s 0 \<noteq> Inr ()"
    using assms t by (auto simp: thompson_check_arm_def absorbed_def Let_def)
  then show ?thesis using assms by (auto simp: thompson_validate_def and_then_Inr try_for_each_Inr absorbed_def)
qed

lemma thompson_rejects_reached_state:
  assumes "thompson_new 1 \<lparr>tc_alpha_prior = big_prior, tc_beta_prior = 1\<rparr> = Inr s0"
  shows "accepted_ops thompson_update (replicate (2 ^ 25) (0, 1)) s0 = replicate (2 ^ 25) (0, 1)
    \<and> thompson_validate (run_ops thompson_update (replicate (2 ^ 25) (0, 1)) s0) \<noteq> Inr ()"
proof -
  have "absorbed 0 s0" using assms by (auto simp: thompson_new_def absorbed_def and_then_Inr)
  from absorbed_run [OF _ this, of "2 ^ 25"] absorbed_invalid show ?thesis by simp
qed

end
