(* ===== verification/F64_Bounds.thy ===== *)
theory F64_Bounds imports F64_Sign begin

text \<open>
  Non-negative doubles below a power of two: how the bound moves through sums, quotients and square roots,
  so that an overflow can be excluded.
\<close>

definition f_upto :: "int \<Rightarrow> f64 \<Rightarrow> bool" where
  "f_upto e x \<longleftrightarrow> is_finite x \<and> 0 \<le> f_val x \<and> f_val x \<le> 2 powi e"

lemma rnd_powi: "- 1074 \<le> e \<Longrightarrow> rnd (2 powi e) = 2 powi e"
  using rnd_representable [of 1 e] by simp

lemma rnd_upto: "0 \<le> q \<Longrightarrow> q \<le> 2 powi e \<Longrightarrow> - 1074 \<le> e \<Longrightarrow> 0 \<le> rnd q \<and> rnd q \<le> 2 powi e"
  by (simp add: rnd_pos rnd_upper rnd_powi)

lemma f_upto_plus:
  assumes "f_upto e x" "f_upto e y" "- 1074 \<le> e" "e < 1023"
  shows "f_upto (e + 1) (x + y)"
proof -
  have e: "2 powi (e + 1) = (2 powi e + 2 powi e :: rat)" by (simp add: power_int_add)
  have q: "0 \<le> f_val x + f_val y" "f_val x + f_val y \<le> 2 powi (e + 1)"
    using assms(1,2) unfolding f_upto_def e by linarith+
  then have "is_finite (x + y)"
    using assms rnd_small_no_overflow [of "f_val x + f_val y" "e + 1"] by (simp add: f_upto_def finite_plus)
  then show ?thesis using rnd_upto [OF q] assms(3) by (simp add: f_upto_def f_val_plus)
qed

lemma f_upto_mono:
  assumes "f_upto e x" "e \<le> e'"
  shows "f_upto e' x"
proof -
  have "(2 powi e :: rat) \<le> 2 powi e'" using assms(2) by (intro power_int_increasing) simp_all
  then show ?thesis using assms(1) unfolding f_upto_def by linarith
qed

lemma f_upto_finite: "f_upto e x \<Longrightarrow> is_finite x"
  by (simp add: f_upto_def)

lemma f_upto_divide:
  assumes "f_upto e x" "is_finite y" "2 powi k \<le> f_val y" "- 1074 \<le> e - k" "e - k < 1024"
  shows "f_upto (e - k) (x / y)"
proof -
  have k: "(0 :: rat) < 2 powi k" by simp
  then have y: "0 < f_val y" using assms(3) by linarith
  have "f_val x / f_val y \<le> 2 powi e / 2 powi k"
    using assms(1,3) k by (intro frac_le) (simp_all add: f_upto_def)
  then have q: "0 \<le> f_val x / f_val y" "f_val x / f_val y \<le> 2 powi (e - k)"
    using assms(1) y by (simp_all add: f_upto_def power_int_diff)
  then have fin: "is_finite (x / y)"
    using assms y rnd_small_no_overflow [of "f_val x / f_val y" "e - k"] by (simp add: f_upto_def finite_divide)
  then show ?thesis using rnd_upto [OF q] assms y by (simp add: f_upto_def f_val_divide)
qed

text \<open>The square root of a double is at most \<open>2 ^ 512\<close>.\<close>

lemma sqrt_sig_le: "0 \<le> t \<Longrightarrow> t < 2 powi 106 \<Longrightarrow> sqrt_sig t \<le> 2 powi 53"
proof -
  assume t: "0 \<le> t" "t < 2 powi 106"
  have b: "isqrt \<lfloor>t\<rfloor> * isqrt \<lfloor>t\<rfloor> \<le> \<lfloor>t\<rfloor>" "0 \<le> isqrt \<lfloor>t\<rfloor>" using isqrt_bounds [of "\<lfloor>t\<rfloor>"] t(1) by simp_all
  have "t < of_int (2 ^ 106)" using t(2) by (simp add: power_int_def)
  then have "\<lfloor>t\<rfloor> < 2 ^ 106" by (simp only: floor_less_iff)
  moreover have "(2 :: int) ^ 106 = 2 ^ 53 * 2 ^ 53" by simp
  ultimately have "isqrt \<lfloor>t\<rfloor> * isqrt \<lfloor>t\<rfloor> < 2 ^ 53 * 2 ^ 53" using b(1) by linarith
  then have "isqrt \<lfloor>t\<rfloor> < 2 ^ 53" using b(2) by (meson mult_mono not_le zero_le_power zero_le_numeral)
  then have "isqrt \<lfloor>t\<rfloor> + 1 \<le> 2 ^ 53" by simp
  then have "of_int (isqrt \<lfloor>t\<rfloor> + 1) \<le> (of_int (2 ^ 53) :: rat)" by (simp only: of_int_le_iff)
  then show ?thesis using b(2) by (auto simp: sqrt_sig_def Let_def power_int_def)
qed

lemma rat_sqrt_upto:
  assumes "0 < q" "q < 2 powi 1024"
  shows "rat_sqrt q \<le> 2 powi 512"
proof -
  define g where "g = max (ilog2 q div 2 - 52) (- 1074)"
  have e: "2 powi ilog2 q \<le> q" "q < 2 powi (ilog2 q + 1)" using ilog2_bounds [OF assms(1)] by simp_all
  have "(2 :: rat) powi ilog2 q < 2 powi 1024" using e(1) assms(2) by linarith
  then have "ilog2 q < 1024" by (simp only: powi_less_iff)
  then have i: "ilog2 q \<le> 1023" by simp
  then have g1: "g \<le> 459" by (simp add: g_def)
  have "ilog2 q - 2 * (ilog2 q div 2) \<le> 1" "ilog2 q div 2 - 52 \<le> g" by (presburger, simp add: g_def)
  then have "ilog2 q + 1 - 2 * g \<le> 106" by linarith
  note g = g1 this
  have "q / 2 powi (2 * g) < 2 powi (ilog2 q + 1) / 2 powi (2 * g)" using e(2) by (simp add: divide_strict_right_mono)
  also have "\<dots> = 2 powi (ilog2 q + 1 - 2 * g)" by (simp only: powi_diff)
  also have "\<dots> \<le> 2 powi 106" using g(2) by (simp only: powi_le_iff)
  finally have "sqrt_sig (q / 2 powi (2 * g)) \<le> 2 powi 53" using assms(1) by (intro sqrt_sig_le) simp_all
  then have "rat_sqrt q \<le> 2 powi 53 * 2 powi g" by (simp add: rat_sqrt_def g_def Let_def)
  also have "\<dots> = 2 powi (53 + g)" by (simp only: powi_split)
  also have "\<dots> \<le> 2 powi 512" using g(1) by (subst powi_le_iff) simp
  finally show ?thesis .
qed

lemma rnd_rat_sqrt:
  assumes "0 < q" "q < 2 powi 1024"
  shows "rnd (rat_sqrt q) \<le> 2 powi 512" "0 \<le> rnd (rat_sqrt q)" "\<not> overflows (rnd (rat_sqrt q))"
proof -
  show u: "rnd (rat_sqrt q) \<le> 2 powi 512"
    by (rule rnd_upper [OF rnd_powi rat_sqrt_upto [OF assms]]) simp
  show l: "0 \<le> rnd (rat_sqrt q)" using assms(1) by (intro rnd_pos rat_sqrt_nonneg) simp
  show "\<not> overflows (rnd (rat_sqrt q))" using u l by (intro overflows_small [of _ 512]) simp_all
qed

lemma f_upto_sqrt:
  assumes "is_finite x" "0 \<le> f_val x"
  shows "f_upto 512 (f_sqrt x)"
  using assms unfolding f_upto_def
proof transfer
  fix x
  assume c: "canonical x" and x: "fp_finite x" "0 \<le> fp_val x"
  show "fp_finite (fp_sqrt x) \<and> 0 \<le> fp_val (fp_sqrt x) \<and> fp_val (fp_sqrt x) \<le> 2 powi 512"
  proof (cases "fp_val x = 0")
    case True
    then show ?thesis using x by (cases x) simp_all
  next
    case False
    then obtain q where q: "x = FFin q" "0 < q" using x by (cases x) auto
    then have "q < 2 powi 1024" using c by (simp add: overflows_iff)
    note r = rnd_rat_sqrt [OF q(2) this]
    show ?thesis using q r fp_round_val [of False "rat_sqrt q"] by (simp add: fp_round_finite)
  qed
qed

lemma f_sqrt_zero: "is_finite x \<Longrightarrow> f_val x = 0 \<Longrightarrow> f_val (f_sqrt x) = 0"
  by transfer (case_tac x; simp)

end
