(* ===== verification/Metrics.thy ===== *)
theory Metrics imports Optim Stats F64_Bounds begin

text \<open>
  The evaluation metrics of \<open>src/metrics\<close>. Each is a counted machine over pairs of truth and
  prediction; what its \<open>Deserialize\<close> checks is an invariant of the reachable states. The logarithm of
  the log loss is the parameter \<open>libln\<close>.
\<close>

section \<open>Regression\<close>

record mae =
  ma_sum_abs_error :: f64
  ma_count :: u64

definition mae_new :: mae where "mae_new = \<lparr>ma_sum_abs_error = 0, ma_count = 0\<rparr>"

definition mae_update :: "f64 \<times> f64 \<Rightarrow> mae \<Rightarrow> (rill_error + unit) \<times> mae" where
  "mae_update tp s = (case tp of (truth, prediction) \<Rightarrow> transact s
     (and_then (ensure_finite_target truth) (\<lambda>_.
      and_then (ensure_finite ''prediction'' prediction) (\<lambda>_.
        let err = truth - prediction in
        and_then (ensure_finite ''absolute error'' err) (\<lambda>_.
        and_then (checked_finite_add (ma_sum_abs_error s) \<bar>err\<bar> ''MAE sum'') (\<lambda>t.
        and_then (checked_increment (ma_count s) ''MAE sample'') (\<lambda>n.
          Inr (s\<lparr>ma_sum_abs_error := t, ma_count := n\<rparr>))))))))"

definition mae_value :: "mae \<Rightarrow> f64 option" where
  "mae_value s = (if ma_count s = 0 then None else Some (ma_sum_abs_error s / f_of_u64 (ma_count s)))"

definition mae_reset :: "mae \<Rightarrow> mae" where
  "mae_reset s = s\<lparr>ma_sum_abs_error := 0, ma_count := 0\<rparr>"

record mse =
  mq_sum_sq_error :: f64
  mq_count :: u64

definition mse_new :: mse where "mse_new = \<lparr>mq_sum_sq_error = 0, mq_count = 0\<rparr>"

definition mse_update :: "f64 \<times> f64 \<Rightarrow> mse \<Rightarrow> (rill_error + unit) \<times> mse" where
  "mse_update tp s = (case tp of (truth, prediction) \<Rightarrow> transact s
     (and_then (ensure_finite_target truth) (\<lambda>_.
      and_then (ensure_finite ''prediction'' prediction) (\<lambda>_.
        let err = truth - prediction in
        and_then (ensure_finite ''squared error input'' err) (\<lambda>_.
          let sq = err * err in
          and_then (ensure_finite ''squared error'' sq) (\<lambda>_.
          and_then (checked_finite_add (mq_sum_sq_error s) sq ''MSE sum'') (\<lambda>t.
          and_then (checked_increment (mq_count s) ''MSE sample'') (\<lambda>n.
            Inr (s\<lparr>mq_sum_sq_error := t, mq_count := n\<rparr>)))))))))"

definition mse_value :: "mse \<Rightarrow> f64 option" where
  "mse_value s = (if mq_count s = 0 then None else Some (mq_sum_sq_error s / f_of_u64 (mq_count s)))"

definition mse_reset :: "mse \<Rightarrow> mse" where
  "mse_reset s = s\<lparr>mq_sum_sq_error := 0, mq_count := 0\<rparr>"

text \<open>\<open>Rmse\<close> wraps an \<open>Mse\<close>.\<close>

definition rmse_value :: "mse \<Rightarrow> f64 option" where
  "rmse_value s = map_option f_sqrt (mse_value s)"

record r2 =
  r2_ss_res :: f64
  r2_mean_truth :: f64
  r2_m2_truth :: f64
  r2_count :: u64

definition r2_new :: r2 where "r2_new = \<lparr>r2_ss_res = 0, r2_mean_truth = 0, r2_m2_truth = 0, r2_count = 0\<rparr>"

definition r2_update :: "f64 \<times> f64 \<Rightarrow> r2 \<Rightarrow> (rill_error + unit) \<times> r2" where
  "r2_update tp s = (case tp of (truth, prediction) \<Rightarrow> transact s
     (and_then (ensure_finite_target truth) (\<lambda>_.
      and_then (ensure_finite ''prediction'' prediction) (\<lambda>_.
        let err = truth - prediction in
        and_then (ensure_finite ''R2 error'' err) (\<lambda>_.
          let sq = err * err in
          and_then (ensure_finite ''R2 squared error'' sq) (\<lambda>_.
          and_then (checked_increment (r2_count s) ''R2 sample'') (\<lambda>n.
            let delta = truth - r2_mean_truth s in
            and_then (ensure_finite ''R2 welford delta'' delta) (\<lambda>_.
              let mean = r2_mean_truth s + delta / f_of_u64 n in
              and_then (ensure_finite ''R2 welford mean'' mean) (\<lambda>_.
                let delta2 = truth - mean in
                and_then (ensure_finite ''R2 welford delta2'' delta2) (\<lambda>_.
                  let m2_delta = delta * delta2 in
                  and_then (ensure_finite ''R2 welford m2_delta'' m2_delta) (\<lambda>_.
                  and_then (checked_finite_add (r2_m2_truth s) m2_delta ''R2 m2_truth'') (\<lambda>m2.
                  and_then (checked_finite_add (r2_ss_res s) sq ''R2 residual sum'') (\<lambda>res.
                    Inr (s\<lparr>r2_count := n, r2_mean_truth := mean, r2_m2_truth := m2, r2_ss_res := res\<rparr>))))))))))))))"

definition r2_value :: "r2 \<Rightarrow> f64 option" where
  "r2_value s =
     (if r2_count s < 2 then None
      else if r2_m2_truth s \<le> 0 then None
      else Some (1 - r2_ss_res s / r2_m2_truth s))"

definition r2_reset :: "r2 \<Rightarrow> r2" where
  "r2_reset s = s\<lparr>r2_ss_res := 0, r2_mean_truth := 0, r2_m2_truth := 0, r2_count := 0\<rparr>"

text \<open>The checks of \<open>Deserialize for R2\<close>, with their messages.\<close>

definition r2_must_be_zero :: "string \<Rightarrow> string \<Rightarrow> f64 \<Rightarrow> string + unit" where
  "r2_must_be_zero field when x =
     (if \<not> feq x 0
      then Inl (''r2 '' @ field @ '' must be 0 when count == '' @ when @ '', got '' @ f64_to_string x)
      else Inr ())"

definition r2_deserialize :: "r2 \<Rightarrow> string + r2" where
  "r2_deserialize s =
     (if \<not> is_finite (r2_ss_res s) \<or> r2_ss_res s < 0 then Inl ''r2 ss_res must be finite and non-negative''
      else if \<not> is_finite (r2_mean_truth s) then Inl ''r2 mean_truth must be finite''
      else if \<not> is_finite (r2_m2_truth s) \<or> r2_m2_truth s < 0 then Inl ''r2 m2_truth must be finite and non-negative''
      else and_then (if r2_count s = 0
                     then and_then (r2_must_be_zero ''ss_res'' ''0'' (r2_ss_res s)) (\<lambda>_.
                          and_then (r2_must_be_zero ''mean_truth'' ''0'' (r2_mean_truth s)) (\<lambda>_.
                            r2_must_be_zero ''m2_truth'' ''0'' (r2_m2_truth s)))
                     else Inr ()) (\<lambda>_.
           and_then (if r2_count s = 1 then r2_must_be_zero ''m2_truth'' ''1'' (r2_m2_truth s) else Inr ()) (\<lambda>_.
             Inr s)))"

section \<open>Classification\<close>

text \<open>A counter that goes up when a condition holds.\<close>

definition increment_if :: "bool \<Rightarrow> u64 \<Rightarrow> string \<Rightarrow> rill_error + u64" where
  "increment_if b n field = (if b then checked_increment n field else Inr n)"

record accuracy =
  ac_correct :: u64
  ac_count :: u64

definition accuracy_default :: accuracy where "accuracy_default = \<lparr>ac_correct = 0, ac_count = 0\<rparr>"

definition accuracy_update :: "bool \<times> bool \<Rightarrow> accuracy \<Rightarrow> (rill_error + unit) \<times> accuracy" where
  "accuracy_update tp s = (case tp of (truth, prediction) \<Rightarrow> transact s
     (and_then (checked_increment (ac_count s) ''accuracy sample'') (\<lambda>n.
      and_then (increment_if (truth = prediction) (ac_correct s) ''accuracy correct'') (\<lambda>c.
        Inr (s\<lparr>ac_count := n, ac_correct := c\<rparr>)))))"

definition accuracy_value :: "accuracy \<Rightarrow> f64 option" where
  "accuracy_value s = (if ac_count s = 0 then None else Some (f_of_u64 (ac_correct s) / f_of_u64 (ac_count s)))"

definition accuracy_reset :: "accuracy \<Rightarrow> accuracy" where
  "accuracy_reset s = s\<lparr>ac_correct := 0, ac_count := 0\<rparr>"

record precision =
  pr_true_positive :: u64
  pr_false_positive :: u64
  pr_samples_seen :: u64

definition precision_default :: precision where
  "precision_default = \<lparr>pr_true_positive = 0, pr_false_positive = 0, pr_samples_seen = 0\<rparr>"

definition precision_update :: "bool \<times> bool \<Rightarrow> precision \<Rightarrow> (rill_error + unit) \<times> precision" where
  "precision_update tp s = (case tp of (truth, prediction) \<Rightarrow> transact s
     (and_then (checked_increment (pr_samples_seen s) ''precision samples_seen'') (\<lambda>n.
      and_then (increment_if (truth \<and> prediction) (pr_true_positive s) ''precision true positive'') (\<lambda>t.
      and_then (increment_if (\<not> truth \<and> prediction) (pr_false_positive s) ''precision false positive'') (\<lambda>f.
        Inr (s\<lparr>pr_samples_seen := n, pr_true_positive := t, pr_false_positive := f\<rparr>))))))"

text \<open>A quotient of counts, absent when the denominator is zero.\<close>

definition ratio_of :: "f64 \<Rightarrow> f64 \<Rightarrow> f64 option" where
  "ratio_of x d = (if feq d 0 then None else Some (x / d))"

definition precision_value :: "precision \<Rightarrow> f64 option" where
  "precision_value s =
     ratio_of (f_of_u64 (pr_true_positive s)) (f_of_u64 (pr_true_positive s) + f_of_u64 (pr_false_positive s))"

definition precision_reset :: "precision \<Rightarrow> precision" where
  "precision_reset s = s\<lparr>pr_true_positive := 0, pr_false_positive := 0, pr_samples_seen := 0\<rparr>"

definition precision_deserialize :: "precision \<Rightarrow> string + precision" where
  "precision_deserialize s =
     and_then (ok_or (checked_add_u64 (pr_true_positive s) (pr_false_positive s)) ''precision tp + fp overflow'') (\<lambda>c.
       if pr_samples_seen s < c then Inl ''precision samples_seen < tp + fp'' else Inr s)"

record recall =
  re_true_positive :: u64
  re_false_negative :: u64
  re_samples_seen :: u64

definition recall_default :: recall where
  "recall_default = \<lparr>re_true_positive = 0, re_false_negative = 0, re_samples_seen = 0\<rparr>"

definition recall_update :: "bool \<times> bool \<Rightarrow> recall \<Rightarrow> (rill_error + unit) \<times> recall" where
  "recall_update tp s = (case tp of (truth, prediction) \<Rightarrow> transact s
     (and_then (checked_increment (re_samples_seen s) ''recall samples_seen'') (\<lambda>n.
      and_then (increment_if (truth \<and> prediction) (re_true_positive s) ''recall true positive'') (\<lambda>t.
      and_then (increment_if (truth \<and> \<not> prediction) (re_false_negative s) ''recall false negative'') (\<lambda>f.
        Inr (s\<lparr>re_samples_seen := n, re_true_positive := t, re_false_negative := f\<rparr>))))))"

definition recall_value :: "recall \<Rightarrow> f64 option" where
  "recall_value s =
     ratio_of (f_of_u64 (re_true_positive s)) (f_of_u64 (re_true_positive s) + f_of_u64 (re_false_negative s))"

definition recall_reset :: "recall \<Rightarrow> recall" where
  "recall_reset s = s\<lparr>re_true_positive := 0, re_false_negative := 0, re_samples_seen := 0\<rparr>"

definition recall_deserialize :: "recall \<Rightarrow> string + recall" where
  "recall_deserialize s =
     and_then (ok_or (checked_add_u64 (re_true_positive s) (re_false_negative s)) ''recall tp + fn overflow'') (\<lambda>c.
       if re_samples_seen s < c then Inl ''recall samples_seen < tp + fn'' else Inr s)"

record f1_score =
  f1_true_positive :: u64
  f1_false_positive :: u64
  f1_false_negative :: u64
  f1_samples_seen :: u64

definition f1_default :: f1_score where
  "f1_default = \<lparr>f1_true_positive = 0, f1_false_positive = 0, f1_false_negative = 0, f1_samples_seen = 0\<rparr>"

definition f1_update :: "bool \<times> bool \<Rightarrow> f1_score \<Rightarrow> (rill_error + unit) \<times> f1_score" where
  "f1_update tp s = (case tp of (truth, prediction) \<Rightarrow> transact s
     (and_then (checked_increment (f1_samples_seen s) ''F1 samples_seen'') (\<lambda>n.
      and_then (increment_if (truth \<and> prediction) (f1_true_positive s) ''F1 true positive'') (\<lambda>t.
      and_then (increment_if (\<not> truth \<and> prediction) (f1_false_positive s) ''F1 false positive'') (\<lambda>fp.
      and_then (increment_if (truth \<and> \<not> prediction) (f1_false_negative s) ''F1 false negative'') (\<lambda>fn.
        Inr (s\<lparr>f1_samples_seen := n, f1_true_positive := t, f1_false_positive := fp, f1_false_negative := fn\<rparr>)))))))"

definition f1_value :: "f1_score \<Rightarrow> f64 option" where
  "f1_value s =
     (let t2 = f_of_nat 2 * f_of_u64 (f1_true_positive s)
      in ratio_of t2 (t2 + f_of_u64 (f1_false_positive s) + f_of_u64 (f1_false_negative s)))"

definition f1_reset :: "f1_score \<Rightarrow> f1_score" where
  "f1_reset s = s\<lparr>f1_true_positive := 0, f1_false_positive := 0, f1_false_negative := 0, f1_samples_seen := 0\<rparr>"

definition f1_deserialize :: "f1_score \<Rightarrow> string + f1_score" where
  "f1_deserialize s =
     and_then (ok_or (checked_add_u64 (f1_true_positive s) (f1_false_positive s)) ''f1 tp + fp overflow'') (\<lambda>tf.
     and_then (ok_or (checked_add_u64 tf (f1_false_negative s)) ''f1 tp + fp + fn overflow'') (\<lambda>c.
       if f1_samples_seen s < c then Inl ''f1 samples_seen < tp + fp + fn'' else Inr s))"

record log_loss_metric =
  ll_loss :: binary_log_loss
  ll_sum_loss :: f64
  ll_count :: u64

definition log_loss_metric_default :: log_loss_metric where
  "log_loss_metric_default = \<lparr>ll_loss = log_loss_new, ll_sum_loss = 0, ll_count = 0\<rparr>"

definition log_loss_metric_update ::
    "(f64 \<Rightarrow> f64) \<Rightarrow> bool \<times> f64 \<Rightarrow> log_loss_metric \<Rightarrow> (rill_error + unit) \<times> log_loss_metric" where
  "log_loss_metric_update libln tp s = (case tp of (truth, prediction) \<Rightarrow> transact s
     (and_then (ensure_finite ''probability'' prediction) (\<lambda>_.
        if \<not> (0 \<le> prediction \<and> prediction \<le> 1) then Inl (InvalidProbability prediction)
        else let l = log_loss libln (ll_loss s) prediction truth in
          and_then (ensure_finite ''log loss'' l) (\<lambda>_.
          and_then (checked_finite_add (ll_sum_loss s) l ''log loss sum'') (\<lambda>t.
          and_then (checked_increment (ll_count s) ''log loss sample'') (\<lambda>n.
            Inr (s\<lparr>ll_sum_loss := t, ll_count := n\<rparr>)))))))"

definition log_loss_metric_value :: "log_loss_metric \<Rightarrow> f64 option" where
  "log_loss_metric_value s = (if ll_count s = 0 then None else Some (ll_sum_loss s / f_of_u64 (ll_count s)))"

definition log_loss_metric_reset :: "log_loss_metric \<Rightarrow> log_loss_metric" where
  "log_loss_metric_reset s = s\<lparr>ll_sum_loss := 0, ll_count := 0\<rparr>"

section \<open>Rolling metrics\<close>

text \<open>\<open>RollingMae\<close> and \<open>RollingMse\<close> keep the errors of the window and their running sum.\<close>

record rolling_error =
  ro_errors :: "f64 list"
  ro_sum :: f64
  ro_capacity :: usize

definition rolling_error_new :: "usize \<Rightarrow> rill_error + rolling_error" where
  "rolling_error_new n =
     (if n = 0 then Inl InvalidWindowSize else Inr \<lparr>ro_errors = [], ro_sum = 0, ro_capacity = n\<rparr>)"

definition rolling_error_push :: "string \<Rightarrow> f64 \<Rightarrow> rolling_error \<Rightarrow> rill_error + rolling_error" where
  "rolling_error_push label err s =
     and_then (if length (ro_errors s) = ro_capacity s
               then checked_finite_add (ro_sum s) (- (case ro_errors s of [] \<Rightarrow> 0 | e # es \<Rightarrow> e)) label
               else Inr (ro_sum s)) (\<lambda>base.
     and_then (checked_finite_add base err label) (\<lambda>t.
       Inr (s\<lparr>ro_errors := window_push (ro_capacity s) err (ro_errors s), ro_sum := t\<rparr>)))"

definition rolling_mae_update :: "f64 \<times> f64 \<Rightarrow> rolling_error \<Rightarrow> (rill_error + unit) \<times> rolling_error" where
  "rolling_mae_update tp s = (case tp of (truth, prediction) \<Rightarrow> transact s
     (and_then (ensure_finite_target truth) (\<lambda>_.
      and_then (ensure_finite ''prediction'' prediction) (\<lambda>_.
        let err = \<bar>truth - prediction\<bar> in
        and_then (ensure_finite ''rolling absolute error'' err) (\<lambda>_. rolling_error_push ''rolling MAE sum'' err s)))))"

definition rolling_mse_update :: "f64 \<times> f64 \<Rightarrow> rolling_error \<Rightarrow> (rill_error + unit) \<times> rolling_error" where
  "rolling_mse_update tp s = (case tp of (truth, prediction) \<Rightarrow> transact s
     (and_then (ensure_finite_target truth) (\<lambda>_.
      and_then (ensure_finite ''prediction'' prediction) (\<lambda>_.
        let d = truth - prediction in
        and_then (ensure_finite ''rolling squared error input'' d) (\<lambda>_.
          let err = d * d in
          and_then (ensure_finite ''rolling squared error'' err) (\<lambda>_. rolling_error_push ''rolling MSE sum'' err s))))))"

definition rolling_error_value :: "rolling_error \<Rightarrow> f64 option" where
  "rolling_error_value s = (if ro_errors s = [] then None else Some (ro_sum s / f_of_nat (length (ro_errors s))))"

definition rolling_error_reset :: "rolling_error \<Rightarrow> rolling_error" where
  "rolling_error_reset s = s\<lparr>ro_errors := [], ro_sum := 0\<rparr>"

record rolling_accuracy =
  ra_correct :: "bool list"
  ra_sum :: u64
  ra_capacity :: usize

definition rolling_accuracy_new :: "usize \<Rightarrow> rill_error + rolling_accuracy" where
  "rolling_accuracy_new n =
     (if n = 0 then Inl InvalidWindowSize else Inr \<lparr>ra_correct = [], ra_sum = 0, ra_capacity = n\<rparr>)"

definition rolling_accuracy_update :: "bool \<times> bool \<Rightarrow> rolling_accuracy \<Rightarrow> (rill_error + unit) \<times> rolling_accuracy" where
  "rolling_accuracy_update tp s = (case tp of (truth, prediction) \<Rightarrow>
     let c = (truth = prediction);
         s1 = (if length (ra_correct s) = ra_capacity s
               then (case ra_correct s of
                       [] \<Rightarrow> s
                     | old # rest \<Rightarrow> s\<lparr>ra_correct := rest, ra_sum := (if old then ra_sum s - 1 else ra_sum s)\<rparr>)
               else s);
         s2 = s1\<lparr>ra_correct := ra_correct s1 @ [c]\<rparr>
     in (Inr (), if c then s2\<lparr>ra_sum := ra_sum s2 + 1\<rparr> else s2))"

definition rolling_accuracy_value :: "rolling_accuracy \<Rightarrow> f64 option" where
  "rolling_accuracy_value s =
     (if ra_correct s = [] then None else Some (f_of_u64 (ra_sum s) / f_of_nat (length (ra_correct s))))"

definition rolling_accuracy_reset :: "rolling_accuracy \<Rightarrow> rolling_accuracy" where
  "rolling_accuracy_reset s = s\<lparr>ra_correct := [], ra_sum := 0\<rparr>"

section \<open>Metrics as counted machines\<close>

lemma increment_if_Inr [result_simps]:
  "increment_if b n f = Inr m \<longleftrightarrow> (if b then unat n + 1 < 2 ^ 64 \<and> m = n + 1 else m = n)"
  by (auto simp: increment_if_def result_simps)

lemma metric_atomic:
  "mae_update tp ma = (Inl e, ma') \<Longrightarrow> ma' = ma" "mse_update tp mq = (Inl e, mq') \<Longrightarrow> mq' = mq"
  "r2_update tp r = (Inl e, r') \<Longrightarrow> r' = r" "accuracy_update tb a = (Inl e, a') \<Longrightarrow> a' = a"
  "precision_update tb p = (Inl e, p') \<Longrightarrow> p' = p" "recall_update tb c = (Inl e, c') \<Longrightarrow> c' = c"
  "f1_update tb f = (Inl e, f') \<Longrightarrow> f' = f" "log_loss_metric_update libln tq l = (Inl e, l') \<Longrightarrow> l' = l"
  "rolling_mae_update tp ro = (Inl e, ro') \<Longrightarrow> ro' = ro" "rolling_mse_update tp ro = (Inl e, ro') \<Longrightarrow> ro' = ro"
  by (simp_all add: mae_update_def mse_update_def r2_update_def accuracy_update_def precision_update_def recall_update_def
      f1_update_def log_loss_metric_update_def rolling_mae_update_def rolling_mse_update_def transact_Inl split: prod.splits)

interpretation mae: counted_machine mae_update "\<lambda>s. is_finite (ma_sum_abs_error s)" ma_count mae_reset
  by unfold_locales (auto dest: metric_atomic simp: mae_update_def mae_reset_def result_simps Let_def unat_inc split: prod.splits)

interpretation mse: counted_machine mse_update "\<lambda>s. is_finite (mq_sum_sq_error s)" mq_count mse_reset
  by unfold_locales (auto dest: metric_atomic simp: mse_update_def mse_reset_def result_simps Let_def unat_inc split: prod.splits)

interpretation log_loss_metric: counted_machine "log_loss_metric_update libln" "\<lambda>s. is_finite (ll_sum_loss s)" ll_count
  log_loss_metric_reset for libln
  by unfold_locales
    (auto dest: metric_atomic simp: log_loss_metric_update_def log_loss_metric_reset_def result_simps Let_def unat_inc
      split: prod.splits if_splits)

subsection \<open>R2\<close>

definition r2_ok :: "r2 \<Rightarrow> bool" where
  "r2_ok s \<longleftrightarrow> is_finite (r2_ss_res s) \<and> 0 \<le> f_val (r2_ss_res s) \<and> is_finite (r2_mean_truth s)
     \<and> is_finite (r2_m2_truth s) \<and> 0 \<le> f_val (r2_m2_truth s)
     \<and> (r2_count s = 0 \<longrightarrow> f_val (r2_ss_res s) = 0 \<and> f_val (r2_mean_truth s) = 0 \<and> f_val (r2_m2_truth s) = 0)
     \<and> (r2_count s = 1 \<longrightarrow> f_val (r2_m2_truth s) = 0)"

lemma r2_ok_deserialize: "r2_ok s \<longleftrightarrow> r2_deserialize s = Inr s"
  by (auto simp: r2_ok_def r2_deserialize_def r2_must_be_zero_def and_then_Inr less_finite feq_finite not_less
      split: if_splits)

lemma r2_step:
  assumes "r2_update (y, p) s = (Inr u, s')" "r2_ok s"
  shows "r2_ok s' \<and> unat (r2_count s') = unat (r2_count s) + 1"
proof -
  let ?m = "r2_mean_truth s" and ?n = "r2_count s"
  let ?m' = "?m + (y - ?m) / f_of_u64 (?n + 1)"
  let ?d = "(y - ?m) * (y - ?m')" and ?e = "(y - p) * (y - p)"
  have u: "is_finite y" "is_finite ?e" "unat ?n + 1 < 2 ^ 64" "is_finite (y - ?m)" "is_finite ?m'" "is_finite (y - ?m')"
    "is_finite ?d" "is_finite (r2_m2_truth s + ?d)" "is_finite (r2_ss_res s + ?e)"
    "s' = s\<lparr>r2_count := ?n + 1, r2_mean_truth := ?m', r2_m2_truth := r2_m2_truth s + ?d, r2_ss_res := r2_ss_res s + ?e\<rparr>"
    using assms(1) by (auto simp: r2_update_def result_simps Let_def ensure_finite_target_def)
  have ok: "is_finite ?m" "0 \<le> f_val (r2_m2_truth s)" "0 \<le> f_val (r2_ss_res s)" "unat ?n = 0 \<longrightarrow> f_val ?m = 0"
    using assms(2) by (auto simp: r2_ok_def unat_eq_0)
  have d: "0 \<le> f_val ?d" by (rule welford_term [OF ok(1) u(1,5,4,6,7,3) ok(4)])
  have e: "0 \<le> f_val ?e" by (rule square_nonneg [OF u(2)])
  have "f_val (r2_m2_truth s + ?d) = 0" if "?n + 1 = 1"
  proof -
    have n: "?n = 0" using that by simp
    have "f_val ?m' = f_val y" using mean_step [OF ok(1) u(1,5,3) ok(4)] n by simp
    then have "f_val ?d = 0" using f_val_times [OF u(7)] f_val_minus [OF u(6)] by simp
    then show ?thesis using f_val_plus [OF u(8)] assms(2) n by (simp add: r2_ok_def)
  qed
  then show ?thesis
    using u d e ok inc_nz [OF u(3)] unat_inc [OF u(3)] sum_nonneg [OF u(8)] sum_nonneg [OF u(9)]
    by (simp add: r2_ok_def)
qed

interpretation r2: counted_machine r2_update r2_ok r2_count r2_reset
proof unfold_locales
  show "r2_ok s \<Longrightarrow> r2_update x s = (Inr u, s') \<Longrightarrow> r2_ok s'" for x s u s'
    using r2_step [of "fst x" "snd x"] by simp
  show "r2_update x s = (Inr u, s') \<Longrightarrow> unat (r2_count s') = unat (r2_count s) + 1" for x s u s'
    by (cases x) (auto simp: r2_update_def result_simps Let_def unat_inc)
qed (auto dest: metric_atomic simp: r2_reset_def r2_ok_def)

subsection \<open>Counts\<close>

interpretation accuracy: counted_machine accuracy_update "\<lambda>s. ac_correct s \<le> ac_count s" ac_count accuracy_reset
  by unfold_locales
    (auto dest: metric_atomic simp: accuracy_update_def accuracy_reset_def result_simps unat_inc word_le_nat_alt
      split: prod.splits if_splits)

definition precision_ok :: "precision \<Rightarrow> bool" where
  "precision_ok s \<longleftrightarrow> unat (pr_true_positive s) + unat (pr_false_positive s) \<le> unat (pr_samples_seen s)"

lemma precision_ok_deserialize: "precision_ok s \<Longrightarrow> precision_deserialize s = Inr s"
  using unat_u64_less [of "pr_samples_seen s"]
  by (auto simp: precision_ok_def precision_deserialize_def and_then_Inr ok_or_Inr checked_simps word_less_nat_alt unat_add_u64)

interpretation precision: counted_machine precision_update precision_ok pr_samples_seen precision_reset
  by unfold_locales
    (auto dest: metric_atomic simp: precision_update_def precision_ok_def precision_reset_def result_simps unat_inc
      split: prod.splits if_splits)

definition recall_ok :: "recall \<Rightarrow> bool" where
  "recall_ok s \<longleftrightarrow> unat (re_true_positive s) + unat (re_false_negative s) \<le> unat (re_samples_seen s)"

lemma recall_ok_deserialize: "recall_ok s \<Longrightarrow> recall_deserialize s = Inr s"
  using unat_u64_less [of "re_samples_seen s"]
  by (auto simp: recall_ok_def recall_deserialize_def and_then_Inr ok_or_Inr checked_simps word_less_nat_alt unat_add_u64)

interpretation recall: counted_machine recall_update recall_ok re_samples_seen recall_reset
  by unfold_locales
    (auto dest: metric_atomic simp: recall_update_def recall_ok_def recall_reset_def result_simps unat_inc
      split: prod.splits if_splits)

definition f1_ok :: "f1_score \<Rightarrow> bool" where
  "f1_ok s \<longleftrightarrow> unat (f1_true_positive s) + unat (f1_false_positive s) + unat (f1_false_negative s) \<le> unat (f1_samples_seen s)"

lemma f1_ok_deserialize:
  assumes "f1_ok s"
  shows "f1_deserialize s = Inr s"
proof -
  have a: "unat (f1_true_positive s) + unat (f1_false_positive s) < 2 ^ 64"
    "unat (f1_true_positive s) + unat (f1_false_positive s) + unat (f1_false_negative s) < 2 ^ 64"
    using assms unat_u64_less [of "f1_samples_seen s"] unfolding f1_ok_def by linarith+
  have t: "unat (f1_true_positive s + f1_false_positive s) = unat (f1_true_positive s) + unat (f1_false_positive s)"
    by (rule unat_add_u64 [OF a(1)])
  then have "unat (f1_true_positive s + f1_false_positive s + f1_false_negative s)
      = unat (f1_true_positive s) + unat (f1_false_positive s) + unat (f1_false_negative s)"
    using unat_add_u64 [of "f1_true_positive s + f1_false_positive s" "f1_false_negative s"] a(2) by simp
  then have "\<not> f1_samples_seen s < f1_true_positive s + f1_false_positive s + f1_false_negative s"
    using assms by (simp add: f1_ok_def word_less_nat_alt)
  then show ?thesis using a t by (simp add: f1_deserialize_def checked_add_u64_def ok_or_def)
qed

interpretation f1: counted_machine f1_update f1_ok f1_samples_seen f1_reset
  by unfold_locales
    (auto dest: metric_atomic simp: f1_update_def f1_ok_def f1_reset_def result_simps unat_inc
      split: prod.splits if_splits)

text \<open>The confusion counts of a list of truths and predictions.\<close>

definition count_where :: "(bool \<times> bool \<Rightarrow> bool) \<Rightarrow> (bool \<times> bool) list \<Rightarrow> nat" where
  "count_where P tps = length (filter P tps)"

lemma increment_if_small: "unat n + 1 < 2 ^ 64 \<Longrightarrow> increment_if b n f = Inr (if b then n + 1 else n)"
  by (simp add: increment_if_def checked_increment_def checked_add_u64_def ok_or_def)

lemma f1_run:
  assumes "f1_ok s" "unat (f1_samples_seen s) + length tps < 2 ^ 64"
  shows "unat (f1_true_positive (run_ops f1_update tps s)) = unat (f1_true_positive s) + count_where (\<lambda>(t, p). t \<and> p) tps
    \<and> unat (f1_false_positive (run_ops f1_update tps s)) = unat (f1_false_positive s) + count_where (\<lambda>(t, p). \<not> t \<and> p) tps
    \<and> unat (f1_false_negative (run_ops f1_update tps s)) = unat (f1_false_negative s) + count_where (\<lambda>(t, p). t \<and> \<not> p) tps
    \<and> unat (f1_samples_seen (run_ops f1_update tps s)) = unat (f1_samples_seen s) + length tps
    \<and> f1_ok (run_ops f1_update tps s)"
  using assms
proof (induction tps arbitrary: s)
  case (Cons tp tps)
  obtain t p where tp: "tp = (t, p)" by fastforce
  have b: "unat (f1_samples_seen s) + 1 < 2 ^ 64" "unat (f1_true_positive s) + 1 < 2 ^ 64"
    "unat (f1_false_positive s) + 1 < 2 ^ 64" "unat (f1_false_negative s) + 1 < 2 ^ 64"
    using Cons.prems by (auto simp: f1_ok_def)
  define s' where "s' = s\<lparr>f1_samples_seen := f1_samples_seen s + 1,
    f1_true_positive := (if t \<and> p then f1_true_positive s + 1 else f1_true_positive s),
    f1_false_positive := (if \<not> t \<and> p then f1_false_positive s + 1 else f1_false_positive s),
    f1_false_negative := (if t \<and> \<not> p then f1_false_negative s + 1 else f1_false_negative s)\<rparr>"
  have u: "f1_update tp s = (Inr (), s')"
    using b increment_if_small [of "f1_samples_seen s" True]
    by (simp add: f1_update_def tp s'_def increment_if_small increment_if_def checked_increment_def checked_add_u64_def ok_or_def)
  have "f1_ok s'" using f1.step_inv [OF Cons.prems(1) u] .
  moreover have "unat (f1_samples_seen s') = unat (f1_samples_seen s) + 1" using unat_inc [OF b(1)] by (simp add: s'_def)
  ultimately show ?case
    using Cons.IH [of s'] Cons.prems(2) u unat_inc [OF b(2)] unat_inc [OF b(3)] unat_inc [OF b(4)]
    by (simp add: count_where_def tp s'_def)
qed (simp add: count_where_def)

lemma ratio_denominator:
  assumes "is_finite (x + y + z)" "0 \<le> f_val x" "0 \<le> f_val y" "0 \<le> f_val z"
    and "0 < f_val x \<longrightarrow> 1 \<le> f_val x" "0 < f_val y \<longrightarrow> 1 \<le> f_val y" "0 < f_val z \<longrightarrow> 1 \<le> f_val z"
  shows "feq (x + y + z) 0 \<longleftrightarrow> f_val x = 0 \<and> f_val y = 0 \<and> f_val z = 0"
proof -
  have f: "is_finite (x + y)" using finite_plusD [OF assms(1)] by simp
  have v: "f_val (x + y + z) = rnd (rnd (f_val x + f_val y) + f_val z)"
    using f_val_plus [OF assms(1)] f_val_plus [OF f] by simp
  have one: "1 \<le> rnd q" if "1 \<le> q" for q using that rnd_lower [of 1 q] rnd_of_nat [of 1] by simp
  have nn: "0 \<le> rnd (f_val x + f_val y)" using assms by (intro rnd_pos) simp
  have "f_val (x + y + z) = 0 \<longleftrightarrow> f_val x = 0 \<and> f_val y = 0 \<and> f_val z = 0"
  proof (cases "f_val x = 0 \<and> f_val y = 0 \<and> f_val z = 0")
    case False
    then have "1 \<le> rnd (f_val x + f_val y) + f_val z"
      using assms one [of "f_val x + f_val y"] nn by (cases "f_val z = 0") force+
    then show ?thesis using one [of "rnd (f_val x + f_val y) + f_val z"] False v by auto
  qed (simp add: v)
  then show ?thesis using assms(1) by (simp add: feq_finite)
qed

section \<open>Rolling windows\<close>

abbreviation hits :: "bool list \<Rightarrow> nat" where
  "hits bs \<equiv> length (filter (\<lambda>b. b) bs)"

lemma rolling_accuracy_step:
  assumes c: "0 < ra_capacity s" "ra_capacity s < 2 ^ 64" and s: "length (ra_correct s) \<le> ra_capacity s"
    "unat (ra_sum s) = hits (ra_correct s)" and u: "rolling_accuracy_update (t, p) s = (r, s')"
  shows "ra_correct s' = window_push (ra_capacity s) (t = p) (ra_correct s) \<and> ra_capacity s' = ra_capacity s
    \<and> unat (ra_sum s') = hits (ra_correct s') \<and> length (ra_correct s') \<le> ra_capacity s"
proof -
  define w where "w = (if length (ra_correct s) = ra_capacity s then tl (ra_correct s) else ra_correct s)"
  define k where "k = (if length (ra_correct s) = ra_capacity s \<and> hd (ra_correct s) then ra_sum s - 1 else ra_sum s)"
  have w: "length w < ra_capacity s" using c(1) s(1) by (auto simp: w_def)
  have "unat (ra_sum s - 1) = unat (ra_sum s) - 1" if "0 < unat (ra_sum s)"
    using that by (metis unat_minus_one unsigned_eq_0_iff less_not_refl)
  then have k: "unat k = hits w" using s(2) c(1) by (cases "ra_correct s") (auto simp: k_def w_def)
  have s': "s' = s\<lparr>ra_correct := w @ [t = p], ra_sum := (if t = p then k + 1 else k)\<rparr>"
    using u c(1) by (cases "ra_correct s") (auto simp: rolling_accuracy_update_def w_def k_def Let_def)
  have "hits w \<le> length w" by simp
  then have "unat k + 1 < 2 ^ 64" using k w c(2) by linarith
  from unat_inc [OF this] show ?thesis using k w by (simp add: s' w_def window_push_def)
qed

lemma rolling_accuracy_run:
  assumes "0 < ra_capacity s" "ra_capacity s < 2 ^ 64" "length (ra_correct s) \<le> ra_capacity s"
    "unat (ra_sum s) = hits (ra_correct s)" "ra_correct s = last_n (ra_capacity s) bs"
  shows "ra_correct (run_ops rolling_accuracy_update tps s) = last_n (ra_capacity s) (bs @ map (\<lambda>(t, p). t = p) tps)
    \<and> unat (ra_sum (run_ops rolling_accuracy_update tps s)) = hits (ra_correct (run_ops rolling_accuracy_update tps s))"
  using assms
proof (induction tps arbitrary: s bs)
  case (Cons tp tps)
  obtain t p r s' where e: "tp = (t, p)" "rolling_accuracy_update (t, p) s = (r, s')" by (metis surj_pair)
  note st = rolling_accuracy_step [OF Cons.prems(1-4) e(2)]
  have "ra_correct s' = last_n (ra_capacity s') (bs @ [t = p])"
    using st Cons.prems(1,5) window_push_last_n by metis
  note w = this
  have "0 < ra_capacity s'" "ra_capacity s' < 2 ^ 64" "length (ra_correct s') \<le> ra_capacity s'"
    "unat (ra_sum s') = hits (ra_correct s')"
    using st Cons.prems(1,2) by metis+
  from Cons.IH [OF this w] show ?case using st e by simp
qed simp

text \<open>
  The rolling accuracy is the accuracy of the last \<open>capacity\<close> samples. After any list of truths
  and predictions the window is the list of the last \<open>capacity\<close> outcomes, and the value is the number
  of hits among them over their number, absent exactly before the first sample.
\<close>

theorem rolling_accuracy_is_window:
  assumes "rolling_accuracy_new n = Inr s0" and "n < 2 ^ 64" and "s = run_ops rolling_accuracy_update tps s0"
    and "w = last_n n (map (\<lambda>(t, p). t = p) tps)"
  shows "ra_correct s = w \<and> (rolling_accuracy_value s = None \<longleftrightarrow> tps = [])
    \<and> (tps \<noteq> [] \<longrightarrow> rolling_accuracy_value s = Some (f_of_nat (length (filter (\<lambda>b. b) w)) / f_of_nat (length w)))"
proof -
  have n: "0 < n" "s0 = \<lparr>ra_correct = [], ra_sum = 0, ra_capacity = n\<rparr>"
    using assms(1) by (auto simp: rolling_accuracy_new_def split: if_splits)
  from rolling_accuracy_run [of s0 "[]" tps] have r: "ra_correct s = w" "unat (ra_sum s) = hits w"
    using n assms(2-4) by (simp_all add: last_n_def)
  have "w = [] \<longleftrightarrow> tps = []" using n(1) assms(4) by (cases tps) (auto simp: last_n_def)
  then show ?thesis using r by (simp add: rolling_accuracy_value_def f_of_u64_def)
qed

theorem rolling_accuracy_is_window_witness:
  "\<exists>s0. rolling_accuracy_new 2 = Inr s0
    \<and> ra_correct (run_ops rolling_accuracy_update [(True, True), (True, False), (False, False)] s0) = [False, True]"
proof -
  have "rolling_accuracy_new 2 = Inr \<lparr>ra_correct = [], ra_sum = 0, ra_capacity = 2\<rparr>"
    by (simp add: rolling_accuracy_new_def)
  then show ?thesis
    using rolling_accuracy_is_window [OF _ _ refl refl, of 2 _ "[(True, True), (True, False), (False, False)]"]
    by (simp add: last_n_def)
qed

text \<open>
  The rolling error metrics instead update the sum by the rounded difference, so the sum is not that of
  the window: four errors \<open>1.5, 2^54, 0, 0\<close> in a window of two leave a negative mean absolute error.
\<close>

definition absorbed_errors :: rolling_error where
  "absorbed_errors = run_ops rolling_mae_update [(f_of_rat (3 / 2), 0), (f_of_nat (2 ^ 54), 0), (0, 0), (0, 0)]
     \<lparr>ro_errors = [], ro_sum = 0, ro_capacity = 2\<rparr>"

lemma rolling_mae_negative:
  "let s = absorbed_errors in ro_errors s = [0, 0] \<and> rolling_error_value s = Some (- 1)"
  by code_simp

section \<open>The F1 score\<close>

lemma f_upto_of_nat: "n < 2 ^ 64 \<Longrightarrow> f_upto 64 (f_of_nat n)"
proof -
  assume n: "n < 2 ^ 64"
  then have "(of_nat n :: rat) \<le> of_nat (2 ^ 64)" by (simp only: of_nat_le_iff)
  then have "(of_nat n :: rat) \<le> 2 powi 64" by (simp add: power_int_def)
  then show ?thesis using rnd_upto [of "of_nat n" 64] n by (simp add: f_upto_def f_val_of_nat)
qed

lemma twice_of_nat:
  assumes "n < 2 ^ 64"
  shows "f_upto 65 (f_of_nat 2 * f_of_nat n)" "f_val (f_of_nat 2 * f_of_nat n) = 0 \<longleftrightarrow> n = 0"
    "0 < n \<Longrightarrow> 1 \<le> f_val (f_of_nat 2 * f_of_nat n)"
proof -
  have two: "is_finite (f_of_nat 2)" "f_val (f_of_nat 2) = 2" by code_simp+
  have n: "is_finite (f_of_nat n)" "0 \<le> f_val (f_of_nat n)" "f_val (f_of_nat n) \<le> 2 powi 64"
    using f_upto_of_nat [OF assms] by (simp_all add: f_upto_def)
  have e: "(2 powi 65 :: rat) = 2 * 2 powi 64" by (simp add: power_int_def)
  have q: "0 \<le> 2 * f_val (f_of_nat n)" "2 * f_val (f_of_nat n) \<le> 2 powi 65" using n e by linarith+
  have fin: "is_finite (f_of_nat 2 * f_of_nat n)"
    using rnd_small_no_overflow [of "2 * f_val (f_of_nat n)" 65] q two n by (simp add: finite_times)
  have v: "f_val (f_of_nat 2 * f_of_nat n) = rnd (2 * f_val (f_of_nat n))" using f_val_times [OF fin] two by simp
  show "f_upto 65 (f_of_nat 2 * f_of_nat n)" using rnd_upto [OF q] fin v by (simp add: f_upto_def)
  have ge: "1 \<le> rnd (2 * f_val (f_of_nat n))" if "0 < n"
    using f_val_of_nat_ge_1 [OF that assms] rnd_lower [of 1 "2 * f_val (f_of_nat n)"] rnd_of_nat [of 1] by simp
  then show "0 < n \<Longrightarrow> 1 \<le> f_val (f_of_nat 2 * f_of_nat n)" using v by simp
  have "f_val (f_of_nat 0) = 0" by code_simp
  then show "f_val (f_of_nat 2 * f_of_nat n) = 0 \<longleftrightarrow> n = 0" using ge v by (cases "n = 0") auto
qed

lemma f_of_nat_zero_iff: "n < 2 ^ 64 \<Longrightarrow> f_val (f_of_nat n) = 0 \<longleftrightarrow> n = 0"
  using f_val_of_nat_ge_1 [of n] f_val_of_nat [of 0] by (cases "n = 0") auto

lemma f1_denominator:
  assumes "a < 2 ^ 64" "b < 2 ^ 64" "c < 2 ^ 64"
  shows "feq (f_of_nat 2 * f_of_nat a + f_of_nat b + f_of_nat c) 0 \<longleftrightarrow> a = 0 \<and> b = 0 \<and> c = 0"
proof -
  have u: "f_upto 65 (f_of_nat 2 * f_of_nat a)" "f_upto 65 (f_of_nat b)" "f_upto 66 (f_of_nat c)"
    using twice_of_nat(1) [OF assms(1)] f_upto_mono [OF f_upto_of_nat] assms by simp_all
  have "f_upto (65 + 1) (f_of_nat 2 * f_of_nat a + f_of_nat b)" by (rule f_upto_plus [OF u(1,2)]) simp_all
  then have "f_upto (66 + 1) (f_of_nat 2 * f_of_nat a + f_of_nat b + f_of_nat c)"
    using u(3) by (intro f_upto_plus) simp_all
  then have "feq (f_of_nat 2 * f_of_nat a + f_of_nat b + f_of_nat c) 0
      \<longleftrightarrow> f_val (f_of_nat 2 * f_of_nat a) = 0 \<and> f_val (f_of_nat b) = 0 \<and> f_val (f_of_nat c) = 0"
    using u twice_of_nat(2,3) [OF assms(1)] f_val_of_nat_ge_1 [OF _ assms(2)] f_val_of_nat_ge_1 [OF _ assms(3)]
      f_of_nat_zero_iff [OF assms(2)] f_of_nat_zero_iff [OF assms(3)]
    by (intro ratio_denominator) (auto simp: f_upto_def)
  then show ?thesis using twice_of_nat(2) assms f_of_nat_zero_iff by simp
qed

text \<open>
  C21: the F1 score. After any list of fewer than \<open>2 ^ 64\<close> truths and predictions the metric holds the
  confusion counts of the list, none was rejected, its state passes the checks of \<open>Deserialize\<close>, and
  the value is the quotient \<open>2 TP / (2 TP + FP + FN)\<close> in double arithmetic, absent exactly when there
  was no positive truth and no positive prediction.
\<close>

theorem f1_is_reference:
  assumes "length tps < 2 ^ 64" and "s = run_ops f1_update tps f1_default"
    and "TP = count_where (\<lambda>(t, p). t \<and> p) tps" "FP = count_where (\<lambda>(t, p). \<not> t \<and> p) tps"
    and "FN = count_where (\<lambda>(t, p). t \<and> \<not> p) tps"
  shows "unat (f1_true_positive s) = TP \<and> unat (f1_false_positive s) = FP \<and> unat (f1_false_negative s) = FN
    \<and> unat (f1_samples_seen s) = length tps \<and> f1_deserialize s = Inr s
    \<and> f1_value s = (if TP = 0 \<and> FP = 0 \<and> FN = 0 then None
        else Some (f_of_nat 2 * f_of_nat TP / (f_of_nat 2 * f_of_nat TP + f_of_nat FP + f_of_nat FN)))"
proof -
  have "f1_ok f1_default" by (simp add: f1_ok_def f1_default_def)
  from f1_run [OF this, of tps] have r: "unat (f1_true_positive s) = TP" "unat (f1_false_positive s) = FP"
    "unat (f1_false_negative s) = FN" "unat (f1_samples_seen s) = length tps" "f1_ok s"
    using assms by (simp_all add: f1_default_def)
  have lim: "TP < 2 ^ 64" "FP < 2 ^ 64" "FN < 2 ^ 64"
    using r unat_u64_less [of "f1_true_positive s"] unat_u64_less [of "f1_false_positive s"]
      unat_u64_less [of "f1_false_negative s"] by simp_all
  have u: "f_of_u64 (f1_true_positive s) = f_of_nat TP" "f_of_u64 (f1_false_positive s) = f_of_nat FP"
    "f_of_u64 (f1_false_negative s) = f_of_nat FN"
    using r by (simp_all add: f_of_u64_def)
  show ?thesis
    using r(1-4) f1_ok_deserialize [OF r(5)] f1_denominator [OF lim] by (simp add: f1_value_def ratio_of_def u Let_def)
qed

text \<open>A list with one hit, one miss and one false alarm has score one half.\<close>

theorem f1_is_reference_witness:
  "unat (f1_false_positive (run_ops f1_update [(True, True), (True, False), (False, True)] f1_default)) = 1
    \<and> f1_value (run_ops f1_update [(True, True), (True, False), (False, True)] f1_default)
      = Some (f_of_nat 2 * f_of_nat 1 / (f_of_nat 2 * f_of_nat 1 + f_of_nat 1 + f_of_nat 1))"
  using f1_is_reference [of "[(True, True), (True, False), (False, True)]"
      "run_ops f1_update [(True, True), (True, False), (False, True)] f1_default" 1 1 1]
  by (simp add: count_where_def)

end
