(* ===== verification/Protocol_V2.thy ===== *)
theory Protocol_V2 imports Json begin

text \<open>
  The frozen contracts of \<open>crates/rill-runtime-protocol/src/lib.rs\<close>: the manifests of model and handler
  packs, release indexes, trust metadata with its key life cycle, and the requests and responses of the
  first two versions of the IPC. A \<open>&'static str\<close> error is its text.
\<close>

section \<open>Constants\<close>

definition min_runtime_api_version :: u32 where "min_runtime_api_version = 1"
definition runtime_api_version :: u32 where "runtime_api_version = 2"
definition model_pack_format_version :: u32 where "model_pack_format_version = 1"
definition handler_package_format_version :: u32 where "handler_package_format_version = 1"
definition handler_api_version :: u32 where "handler_api_version = 1"
definition release_index_schema_version :: u32 where "release_index_schema_version = 3"
definition trust_metadata_schema_version :: u32 where "trust_metadata_schema_version = 1"
definition release_index_lifecycle_schema_version :: u32 where "release_index_lifecycle_schema_version = 1"
definition runtime_artifact_id :: string where "runtime_artifact_id = ''rill-runtime''"
definition runtime_artifact_id_musl :: string where "runtime_artifact_id_musl = ''rill-runtime-musl''"
definition pm_adapter_artifact_id :: string where "pm_adapter_artifact_id = ''rill-pm-adapter''"
definition pm_adapter_protocol_version :: u32 where "pm_adapter_protocol_version = 1"

section \<open>Error codes\<close>

definition invalid_json :: string where "invalid_json = ''invalidJson''"
definition invalid_request_id :: string where "invalid_request_id = ''invalidRequestId''"
definition incompatible_api_version :: string where "incompatible_api_version = ''incompatibleApiVersion''"
definition invalid_client_identity :: string where "invalid_client_identity = ''invalidClientIdentity''"
definition unsupported_capability :: string where "unsupported_capability = ''unsupportedCapability''"
definition no_invoke_handler :: string where "no_invoke_handler = ''noInvokeHandler''"
definition handler_timeout :: string where "handler_timeout = ''handlerTimeout''"
definition handler_trap :: string where "handler_trap = ''handlerTrap''"
definition handler_output_too_large :: string where "handler_output_too_large = ''handlerOutputTooLarge''"
definition handler_invalid_output :: string where "handler_invalid_output = ''handlerInvalidOutput''"
definition handler_internal_error :: string where "handler_internal_error = ''handlerInternalError''"

lemmas code_defs = invalid_json_def invalid_request_id_def incompatible_api_version_def invalid_client_identity_def
  unsupported_capability_def no_invoke_handler_def handler_timeout_def handler_trap_def handler_output_too_large_def
  handler_invalid_output_def handler_internal_error_def

definition frozen_codes :: "string list" where
  "frozen_codes = [handler_internal_error, handler_invalid_output, handler_output_too_large, handler_timeout,
     handler_trap, incompatible_api_version, invalid_client_identity, invalid_json, invalid_request_id,
     no_invoke_handler, unsupported_capability]"

definition is_frozen :: "string \<Rightarrow> bool" where
  "is_frozen code \<longleftrightarrow> code \<in> set frozen_codes"

section \<open>Pack manifests\<close>

definition bad_length :: "string \<Rightarrow> nat \<Rightarrow> bool" where
  "bad_length s n \<longleftrightarrow> s = [] \<or> length s > n"

definition is_hex_digit :: "char \<Rightarrow> bool" where
  "is_hex_digit c \<longleftrightarrow> CHR ''0'' \<le> c \<and> c \<le> CHR ''9'' \<or> CHR ''a'' \<le> c \<and> c \<le> CHR ''f''
     \<or> CHR ''A'' \<le> c \<and> c \<le> CHR ''F''"

definition bad_hex :: "nat \<Rightarrow> string \<Rightarrow> bool" where
  "bad_hex n s \<longleftrightarrow> length s \<noteq> n \<or> \<not> list_all is_hex_digit s"

definition validate_capability_list :: "string list \<Rightarrow> string + unit" where
  "validate_capability_list cs =
     (if cs = [] \<or> length cs > 32 then Inl ''invalid capabilities list''
      else if \<exists>c \<in> set cs. bad_length c 96 then Inl ''invalid capability string''
      else if \<not> all_fresh [] cs then Inl ''duplicate capability''
      else Inr ())"

record model_manifest =
  mm_format_version :: u32
  mm_id :: string
  mm_version :: string
  mm_runtime_api_version :: u32
  mm_min_runtime_version :: string
  mm_publisher_key_id :: string
  mm_capabilities :: "string list"

definition model_manifest_validate :: "model_manifest \<Rightarrow> string + unit" where
  "model_manifest_validate m =
     (if mm_format_version m \<noteq> model_pack_format_version then Inl ''unsupported model-pack format version''
      else if mm_runtime_api_version m \<noteq> runtime_api_version then Inl ''unsupported runtime API version''
      else if bad_length (mm_id m) 96 then Inl ''invalid model-pack id''
      else if bad_length (mm_version m) 48 then Inl ''invalid model-pack version''
      else if bad_length (mm_publisher_key_id m) 96 then Inl ''invalid publisher key id''
      else validate_capability_list (mm_capabilities m))"

record handler_manifest =
  hn_format_version :: u32
  hn_id :: string
  hn_version :: string
  hn_handler_api_version :: u32
  hn_min_runtime_version :: string
  hn_publisher_key_id :: string
  hn_capabilities :: "string list"
  hn_module_sha256 :: string
  hn_module_size :: u64

definition handler_manifest_validate :: "handler_manifest \<Rightarrow> string + unit" where
  "handler_manifest_validate m =
     (if hn_format_version m \<noteq> handler_package_format_version then Inl ''unsupported handler-pack format version''
      else if hn_handler_api_version m \<noteq> handler_api_version then Inl ''unsupported handler API version''
      else if bad_length (hn_id m) 96 then Inl ''invalid handler id''
      else if bad_length (hn_version m) 48 then Inl ''invalid handler version''
      else if bad_length (hn_publisher_key_id m) 96 then Inl ''invalid handler publisher key id''
      else if bad_length (hn_min_runtime_version m) 48 then Inl ''invalid minimum runtime version''
      else and_then (validate_capability_list (hn_capabilities m)) (\<lambda>_.
        if bad_hex 64 (hn_module_sha256 m) then Inl ''invalid module SHA-256''
        else if hn_module_size m = 0 \<or> unat (hn_module_size m) > 4 * 1024 * 1024 then Inl ''invalid module size''
        else Inr ()))"

section \<open>Release indexes\<close>

datatype artifact_kind = RuntimeArtifact | ModelArtifact | HandlerArtifact | PmAdapterArtifact

record artifact =
  ar_kind :: artifact_kind
  ar_id :: string
  ar_version :: string
  ar_runtime_api_version :: u32
  ar_target_os :: "string option"
  ar_target_arch :: "string option"
  ar_target_libc :: "string option"
  ar_handler_api_version :: "u32 option"
  ar_min_runtime_version :: "string option"
  ar_pm_adapter_protocol_version :: "u32 option"
  ar_url :: string
  ar_sha256 :: string
  ar_size :: u64

definition missing_text :: "string option \<Rightarrow> bool" where
  "missing_text x \<longleftrightarrow> x = None \<or> x = Some []"

definition validate_runtime_artifact :: "artifact \<Rightarrow> string + unit" where
  "validate_runtime_artifact a =
     (if ar_runtime_api_version a \<noteq> runtime_api_version then Inl ''unsupported artifact runtime API version''
      else if (ar_id a \<noteq> runtime_artifact_id \<and> ar_id a \<noteq> runtime_artifact_id_musl)
        \<or> missing_text (ar_target_os a) \<or> missing_text (ar_target_arch a)
      then Inl ''runtime artifact requires a target OS and architecture''
      else and_then
        (if ar_target_os a = Some ''linux''
         then ensure (ar_target_libc a = Some (if ar_id a = runtime_artifact_id_musl then ''musl'' else ''gnu''))
           ''runtime artifact libc variant does not match its id''
         else ensure (ar_target_libc a = None) ''non-Linux runtime artifact must not carry a libc variant'') (\<lambda>_.
        ensure (ar_handler_api_version a = None \<and> ar_min_runtime_version a = None)
          ''runtime artifact must not carry handler fields''))"

definition validate_model_artifact :: "artifact \<Rightarrow> string + unit" where
  "validate_model_artifact a =
     (if ar_runtime_api_version a \<noteq> runtime_api_version then Inl ''unsupported artifact runtime API version''
      else ensure (ar_target_os a = None \<and> ar_target_arch a = None \<and> ar_handler_api_version a = None
        \<and> ar_min_runtime_version a = None) ''model artifact must be platform independent'')"

definition validate_handler_artifact :: "artifact \<Rightarrow> string + unit" where
  "validate_handler_artifact a =
     (if ar_runtime_api_version a \<noteq> runtime_api_version then Inl ''unsupported artifact runtime API version''
      else if ar_target_os a \<noteq> None \<or> ar_target_arch a \<noteq> None then Inl ''handler artifact must be platform independent''
      else and_then (ok_or (ar_handler_api_version a) ''handler artifact requires handler API version'') (\<lambda>api.
        if api \<noteq> handler_api_version then Inl ''unsupported handler API version''
        else and_then (ok_or (ar_min_runtime_version a) ''handler artifact requires minimum runtime version'') (\<lambda>v.
          ensure (\<not> bad_length v 48) ''invalid minimum runtime version'')))"

definition validate_pm_adapter_artifact :: "artifact \<Rightarrow> string + unit" where
  "validate_pm_adapter_artifact a =
     (if ar_runtime_api_version a \<noteq> 0 then Inl ''pm-adapter artifact must not set runtime API version''
      else if ar_id a \<noteq> pm_adapter_artifact_id \<or> missing_text (ar_target_os a) \<or> missing_text (ar_target_arch a)
      then Inl ''pm-adapter artifact requires a target OS and architecture''
      else if ar_handler_api_version a \<noteq> None \<or> ar_min_runtime_version a \<noteq> None
      then Inl ''pm-adapter artifact must not carry handler fields''
      else ensure (ar_pm_adapter_protocol_version a = Some pm_adapter_protocol_version)
        ''unsupported pm-adapter protocol version'')"

definition artifact_validate :: "artifact \<Rightarrow> string + unit" where
  "artifact_validate a =
     (if bad_length (ar_id a) 96 then Inl ''invalid artifact id''
      else if bad_length (ar_version a) 48 then Inl ''invalid artifact version''
      else if bad_length (ar_url a) 2048 then Inl ''invalid artifact URL''
      else if bad_hex 64 (ar_sha256 a) then Inl ''invalid artifact SHA-256''
      else if ar_size a = 0 \<or> unat (ar_size a) > 128 * 1024 * 1024 then Inl ''invalid artifact size''
      else (case ar_kind a of
          RuntimeArtifact \<Rightarrow> validate_runtime_artifact a
        | ModelArtifact \<Rightarrow> validate_model_artifact a
        | HandlerArtifact \<Rightarrow> validate_handler_artifact a
        | PmAdapterArtifact \<Rightarrow> validate_pm_adapter_artifact a))"

record release_payload =
  rp_schema_version :: u32
  rp_channel :: string
  rp_generated_at :: string
  rp_publisher_key_id :: string
  rp_artifacts :: "artifact list"

definition release_payload_validate :: "release_payload \<Rightarrow> string + unit" where
  "release_payload_validate p =
     (if rp_schema_version p \<noteq> release_index_schema_version then Inl ''unsupported release-index schema''
      else if rp_channel p \<noteq> ''stable'' \<and> rp_channel p \<noteq> ''candidate'' then Inl ''unsupported release channel''
      else if bad_length (rp_generated_at p) 64 then Inl ''invalid release-index timestamp''
      else if bad_length (rp_publisher_key_id p) 96 then Inl ''invalid release-index publisher''
      else if rp_artifacts p = [] \<or> length (rp_artifacts p) > 64 then Inl ''invalid release-index artifact count''
      else try_for_each artifact_validate (rp_artifacts p))"

record signed_release_index =
  sr_payload :: release_payload
  sr_signature :: string

section \<open>Trust metadata\<close>

datatype trust_key_role = CurrentKey | NextKey

record trust_key =
  tk_key_id :: string
  tk_public_key_hex :: string
  tk_role :: trust_key_role
  tk_not_before_unix_ms :: u64
  tk_not_after_unix_ms :: "u64 option"
  tk_revoked_at_unix_ms :: "u64 option"
  tk_emergency_revoked :: bool

definition trust_key_validate :: "trust_key \<Rightarrow> string + unit" where
  "trust_key_validate k =
     (if bad_length (tk_key_id k) 96 then Inl ''invalid trust key id''
      else if bad_hex 64 (tk_public_key_hex k) then Inl ''invalid trust public key''
      else (case tk_not_after_unix_ms k of
          Some t \<Rightarrow> ensure (\<not> t \<le> tk_not_before_unix_ms k) ''trust key validity window is empty''
        | None \<Rightarrow> Inr ()))"

definition is_none_or :: "('a \<Rightarrow> bool) \<Rightarrow> 'a option \<Rightarrow> bool" where
  "is_none_or p x = (case x of None \<Rightarrow> True | Some y \<Rightarrow> p y)"

definition is_active_at :: "trust_key \<Rightarrow> u64 \<Rightarrow> bool" where
  "is_active_at k now \<longleftrightarrow> tk_not_before_unix_ms k \<le> now \<and> is_none_or (\<lambda>t. now < t) (tk_not_after_unix_ms k)
     \<and> is_none_or (\<lambda>t. now < t) (tk_revoked_at_unix_ms k) \<and> \<not> tk_emergency_revoked k"

record trust_metadata =
  tm_schema_version :: u32
  tm_metadata_generation :: u64
  tm_minimum_release_generation :: u64
  tm_keys :: "trust_key list"

record trust_floor =
  tf_minimum_metadata_generation :: u64
  tf_minimum_release_generation :: u64
  tf_metadata_digest :: "string option"

text \<open>The loop checks each key and its novelty in turn.\<close>

fun trust_keys_validate :: "string list \<Rightarrow> trust_key list \<Rightarrow> string + unit" where
  "trust_keys_validate seen [] = Inr ()"
| "trust_keys_validate seen (k # ks) =
     and_then (trust_key_validate k) (\<lambda>_.
       if tk_key_id k \<in> set seen then Inl ''duplicate trust key id''
       else trust_keys_validate (tk_key_id k # seen) ks)"

definition trust_metadata_validate :: "trust_metadata \<Rightarrow> string + unit" where
  "trust_metadata_validate m =
     (if tm_schema_version m \<noteq> trust_metadata_schema_version then Inl ''unsupported trust metadata schema''
      else if tm_keys m = [] \<or> length (tm_keys m) > 64 then Inl ''invalid trust key count''
      else and_then (trust_keys_validate [] (tm_keys m)) (\<lambda>_.
        ensure (\<exists>k \<in> set (tm_keys m). tk_role k = CurrentKey) ''trust metadata has no current key''))"

definition active_keys_at :: "trust_metadata \<Rightarrow> u64 \<Rightarrow> string + trust_key list" where
  "active_keys_at m now =
     and_then (trust_metadata_validate m) (\<lambda>_.
       let active = filter (\<lambda>k. is_active_at k now) (tm_keys m)
       in if \<exists>k \<in> set active. tk_role k = CurrentKey then Inr active
          else Inl ''trust metadata has no active current key'')"

record signed_release_generation =
  sg_schema_version :: u32
  sg_release_generation :: u64
  sg_index :: signed_release_index
  sg_lifecycle_signature :: string

definition release_generation_validate :: "signed_release_generation \<Rightarrow> string + unit" where
  "release_generation_validate e =
     (if sg_schema_version e \<noteq> release_index_lifecycle_schema_version then Inl ''unsupported release lifecycle schema''
      else ensure (\<not> bad_hex 128 (sg_lifecycle_signature e)) ''invalid release lifecycle signature'')"

section \<open>Requests and responses\<close>

datatype ipc_request =
    IpcHandshake string u32 string string
  | IpcHealth string u32
  | IpcInvoke string u32 string json

fun request_id :: "ipc_request \<Rightarrow> string" where
  "request_id (IpcHandshake i v n w) = i"
| "request_id (IpcHealth i v) = i"
| "request_id (IpcInvoke i v c x) = i"

fun api_version :: "ipc_request \<Rightarrow> u32" where
  "api_version (IpcHandshake i v n w) = v"
| "api_version (IpcHealth i v) = v"
| "api_version (IpcInvoke i v c x) = v"

datatype response_v1 =
    HandshakeV1 string u32 string string string "string list"
  | HealthV1 string u32 bool string string
  | ResultV1 string u32 json
  | ErrorV1 string u32 string string bool

datatype response_v2 =
    HandshakeV2 string u32 string string string "string list" string string u32 "string list"
  | HealthV2 string u32 bool string string
  | ResultV2 string u32 json
  | ErrorV2 string u32 string string bool

section \<open>Facts\<close>

lemma trust_keys_validate_Inr:
  "trust_keys_validate seen ks = Inr u \<longleftrightarrow>
     (\<forall>k \<in> set ks. trust_key_validate k = Inr ()) \<and> distinct (map tk_key_id ks)
     \<and> set (map tk_key_id ks) \<inter> set seen = {}"
proof (induction ks arbitrary: seen)
  case (Cons k ks)
  then show ?case by (auto simp: and_then_Inr)
qed simp

lemma trust_metadata_validate_Inr:
  "trust_metadata_validate m = Inr u \<longleftrightarrow>
     tm_schema_version m = trust_metadata_schema_version \<and> tm_keys m \<noteq> [] \<and> length (tm_keys m) \<le> 64
     \<and> (\<forall>k \<in> set (tm_keys m). trust_key_validate k = Inr ()) \<and> distinct (map tk_key_id (tm_keys m))
     \<and> (\<exists>k \<in> set (tm_keys m). tk_role k = CurrentKey)"
  by (auto simp: trust_metadata_validate_def and_then_Inr trust_keys_validate_Inr ensure_Inr not_less)

lemma active_keys_at_Inr:
  "active_keys_at m now = Inr ks \<longleftrightarrow>
     trust_metadata_validate m = Inr () \<and> ks = filter (\<lambda>k. is_active_at k now) (tm_keys m)
     \<and> (\<exists>k \<in> set ks. tk_role k = CurrentKey)"
  by (auto simp: active_keys_at_def and_then_Inr Let_def)

lemma validate_capability_list_Inr:
  "validate_capability_list cs = Inr u \<longleftrightarrow> cs \<noteq> [] \<and> length cs \<le> 32 \<and> distinct cs
     \<and> (\<forall>c \<in> set cs. c \<noteq> [] \<and> length c \<le> 96)"
  by (auto simp: validate_capability_list_def all_fresh_iff bad_length_def not_le)

text \<open>Once a key's window has closed or it was revoked, it never becomes active again.\<close>

lemma is_active_at_interval:
  assumes "is_active_at k t1" "is_active_at k t3" "t1 \<le> t2" "t2 \<le> t3"
  shows "is_active_at k t2"
  using assms by (auto simp: is_active_at_def is_none_or_def split: option.splits)

end
