(* ===== verification/Archive.thy ===== *)
theory Archive imports Protocol_V2 begin

text \<open>
  Signed packs and signed release indexes (\<open>crates/rill-runtime/src/archive.rs\<close>). What the code takes
  from \<open>serde_json\<close>, \<open>sha2\<close>, \<open>hex\<close>, \<open>ed25519_dalek\<close>, \<open>semver\<close> and \<open>zip\<close> is a record of parameters;
  signing keys, verifying keys, signatures and versions are opaque types. \<open>pack_contract\<close> collects the
  documented laws the proofs rely on.
\<close>

section \<open>Errors and the code outside the repository\<close>

datatype archive_error =
    ZipError | IoError | JsonError
  | UnsafePath string | Forbidden string | DuplicateFile string | Limit string
  | Missing string | MissingOwned string | ChecksumCoverage | Digest string | UnknownKey | BadSignature

datatype release_error =
    RJson | RManifest string | RUnknownKey | RSignature | RCanonical archive_error
  | RTrustMetadata string | MetadataDowngrade | MetadataConflict | Downgrade

record checksums =
  cs_schema_version :: u32
  cs_files :: "(string, string) btree"

text \<open>One entry of a ZIP directory: the declared sizes, and the bytes that reading it yields.\<close>

record zip_entry =
  ze_is_dir :: bool
  ze_name :: string
  ze_size :: u64
  ze_compressed_size :: u64
  ze_bytes :: "string option"

record ('sk, 'vk, 'sg, 'v) pack_env =
  pe_sha256 :: "string \<Rightarrow> string"
  pe_hex_encode :: "string \<Rightarrow> string"
  pe_hex_decode :: "string \<Rightarrow> string option"
  pe_parse_json :: "string \<Rightarrow> json option"
  pe_encode_json :: "json \<Rightarrow> string option"
  pe_payload_bytes :: "release_payload \<Rightarrow> string option"
  pe_metadata_bytes :: "trust_metadata \<Rightarrow> string option"
  pe_lifecycle_bytes :: "u32 \<Rightarrow> u64 \<Rightarrow> signed_release_index \<Rightarrow> string option"
  pe_parse_checksums :: "string \<Rightarrow> checksums option"
  pe_checksums_bytes :: "checksums \<Rightarrow> string option"
  pe_sign :: "'sk \<Rightarrow> string \<Rightarrow> 'sg"
  pe_verify :: "'vk \<Rightarrow> string \<Rightarrow> 'sg \<Rightarrow> bool"
  pe_signature_bytes :: "'sg \<Rightarrow> string"
  pe_signature_from :: "string \<Rightarrow> 'sg option"
  pe_key_from :: "string \<Rightarrow> 'vk option"
  pe_parse_version :: "string \<Rightarrow> string + 'v"
  pe_version_less :: "'v \<Rightarrow> 'v \<Rightarrow> bool"
  pe_show_version :: "'v \<Rightarrow> string"
  pe_runtime_version :: string
  pe_parse_model_manifest :: "string \<Rightarrow> model_manifest option"
  pe_model_manifest_bytes :: "model_manifest \<Rightarrow> string option"
  pe_parse_handler_manifest :: "string \<Rightarrow> handler_manifest option"
  pe_handler_manifest_bytes :: "handler_manifest \<Rightarrow> string option"
  pe_pretty_json :: "json \<Rightarrow> string option"

type_synonym 'vk trust_store = "(string, 'vk) btree"

section \<open>Canonical JSON\<close>

fun canonical :: "json \<Rightarrow> json" where
  "canonical (JObject es) = json_object (map (\<lambda>e. (fst e, canonical (snd e))) es)"
| "canonical (JArray xs) = JArray (map canonical xs)"
| "canonical v = v"

definition canonical_json :: "('sk, 'vk, 'sg, 'v) pack_env \<Rightarrow> string \<Rightarrow> archive_error + string" where
  "canonical_json env bytes =
     and_then (ok_or (pe_parse_json env bytes) JsonError) (\<lambda>v. ok_or (pe_encode_json env (canonical v)) JsonError)"

section \<open>Release indexes\<close>

text \<open>The identity under which an artifact may occur once.\<close>

definition artifact_identity ::
    "artifact \<Rightarrow> artifact_kind \<times> string \<times> string option \<times> string option \<times> u32 option" where
  "artifact_identity a = (ar_kind a, ar_id a, ar_target_os a, ar_target_arch a, ar_handler_api_version a)"

fun check_artifacts ::
    "('sk, 'vk, 'sg, 'v) pack_env \<Rightarrow> (artifact_kind \<times> string \<times> string option \<times> string option \<times> u32 option) list
     \<Rightarrow> artifact list \<Rightarrow> release_error + unit" where
  "check_artifacts env seen [] = Inr ()"
| "check_artifacts env seen (a # as) =
     and_then (map_err (\<lambda>e. RManifest (''invalid artifact version: '' @ e)) (pe_parse_version env (ar_version a))) (\<lambda>_.
       if artifact_identity a \<in> set seen then Inl (RManifest ''duplicate release artifact identity'')
       else check_artifacts env (artifact_identity a # seen) as)"

definition validate_release_payload :: "('sk, 'vk, 'sg, 'v) pack_env \<Rightarrow> release_payload \<Rightarrow> release_error + unit" where
  "validate_release_payload env p =
     and_then (map_err RManifest (release_payload_validate p)) (\<lambda>_. check_artifacts env [] (rp_artifacts p))"

definition payload_message :: "('sk, 'vk, 'sg, 'v) pack_env \<Rightarrow> release_payload \<Rightarrow> release_error + string" where
  "payload_message env p =
     and_then (ok_or (pe_payload_bytes env p) RJson) (\<lambda>b. map_err RCanonical (canonical_json env b))"

definition sign_release_index ::
    "('sk, 'vk, 'sg, 'v) pack_env \<Rightarrow> release_payload \<Rightarrow> 'sk \<Rightarrow> release_error + signed_release_index" where
  "sign_release_index env p sk =
     and_then (validate_release_payload env p) (\<lambda>_.
     and_then (payload_message env p) (\<lambda>m.
       Inr \<lparr>sr_payload = p, sr_signature = pe_hex_encode env (pe_signature_bytes env (pe_sign env sk m))\<rparr>))"

definition decode_signature ::
    "('sk, 'vk, 'sg, 'v) pack_env \<Rightarrow> release_error \<Rightarrow> string \<Rightarrow> release_error + 'sg" where
  "decode_signature env e s =
     and_then (ok_or (pe_hex_decode env s) e) (\<lambda>b. ok_or (pe_signature_from env b) e)"

definition verify_release_index ::
    "('sk, 'vk, 'sg, 'v) pack_env \<Rightarrow> signed_release_index \<Rightarrow> 'vk trust_store \<Rightarrow> release_error + unit" where
  "verify_release_index env i trust =
     and_then (validate_release_payload env (sr_payload i)) (\<lambda>_.
     and_then (decode_signature env RSignature (sr_signature i)) (\<lambda>sg.
     and_then (ok_or (bt_get trust (rp_publisher_key_id (sr_payload i))) RUnknownKey) (\<lambda>k.
     and_then (payload_message env (sr_payload i)) (\<lambda>m.
       ensure (pe_verify env k m sg) RSignature))))"

definition lifecycle_signing_bytes ::
    "('sk, 'vk, 'sg, 'v) pack_env \<Rightarrow> signed_release_generation \<Rightarrow> release_error + string" where
  "lifecycle_signing_bytes env e =
     and_then (ok_or (pe_lifecycle_bytes env (sg_schema_version e) (sg_release_generation e) (sg_index e)) RJson) (\<lambda>b.
       map_err RCanonical (canonical_json env b))"

definition sign_release_index_with_generation ::
    "('sk, 'vk, 'sg, 'v) pack_env \<Rightarrow> release_payload \<Rightarrow> u64 \<Rightarrow> 'sk \<Rightarrow> release_error + signed_release_generation" where
  "sign_release_index_with_generation env p generation sk =
     and_then (sign_release_index env p sk) (\<lambda>i.
       let e = \<lparr>sg_schema_version = release_index_lifecycle_schema_version, sg_release_generation = generation,
                sg_index = i, sg_lifecycle_signature = ''''\<rparr>
       in and_then (lifecycle_signing_bytes env e) (\<lambda>m.
            Inr (e\<lparr>sg_lifecycle_signature := pe_hex_encode env (pe_signature_bytes env (pe_sign env sk m))\<rparr>)))"

definition trust_metadata_digest :: "('sk, 'vk, 'sg, 'v) pack_env \<Rightarrow> trust_metadata \<Rightarrow> release_error + string" where
  "trust_metadata_digest env m =
     and_then (map_err RTrustMetadata (trust_metadata_validate m)) (\<lambda>_.
     and_then (ok_or (pe_metadata_bytes env m) RJson) (\<lambda>b.
     and_then (map_err RCanonical (canonical_json env b)) (\<lambda>c.
       Inr (pe_hex_encode env (pe_sha256 env c)))))"

definition is_sha256_hex :: "string \<Rightarrow> bool" where
  "is_sha256_hex s \<longleftrightarrow> length s = 64 \<and> list_all is_hex_digit s"

text \<open>Decoding the key of a metadata entry, with the conversion to 32 bytes.\<close>

definition decode_public_key :: "('sk, 'vk, 'sg, 'v) pack_env \<Rightarrow> string \<Rightarrow> release_error + 'vk" where
  "decode_public_key env s =
     (let e = RTrustMetadata ''invalid trust public key''
      in and_then (ok_or (pe_hex_decode env s) e) (\<lambda>b.
         if length b \<noteq> 32 then Inl e else ok_or (pe_key_from env b) e))"

definition collect_keys ::
    "('sk, 'vk, 'sg, 'v) pack_env \<Rightarrow> trust_key list \<Rightarrow> release_error + 'vk trust_store" where
  "collect_keys env ks =
     try_fold (\<lambda>m k. and_then (decode_public_key env (tk_public_key_hex k)) (\<lambda>vk. Inr (bt_insert (tk_key_id k) vk m)))
       bt_empty ks"

definition check_metadata_floor ::
    "('sk, 'vk, 'sg, 'v) pack_env \<Rightarrow> trust_metadata \<Rightarrow> trust_floor \<Rightarrow> release_error + unit" where
  "check_metadata_floor env m f =
     (if tm_metadata_generation m < tf_minimum_metadata_generation f then Inl MetadataDowngrade
      else if tm_metadata_generation m = tf_minimum_metadata_generation f
      then and_then (ok_or (tf_metadata_digest f) MetadataConflict) (\<lambda>expected.
             if \<not> is_sha256_hex expected then Inl MetadataConflict
             else and_then (trust_metadata_digest env m) (\<lambda>d. ensure (d = expected) MetadataConflict))
      else Inr ())"

definition verify_release_index_with_trust_metadata ::
    "('sk, 'vk, 'sg, 'v) pack_env \<Rightarrow> signed_release_generation \<Rightarrow> trust_metadata \<Rightarrow> trust_floor \<Rightarrow> u64
     \<Rightarrow> release_error + unit" where
  "verify_release_index_with_trust_metadata env e m f now =
     and_then (map_err RTrustMetadata (release_generation_validate e)) (\<lambda>_.
     and_then (map_err RTrustMetadata (trust_metadata_validate m)) (\<lambda>_.
     and_then (check_metadata_floor env m f) (\<lambda>_.
       if sg_release_generation e < tf_minimum_release_generation f
         \<or> sg_release_generation e < tm_minimum_release_generation m then Inl Downgrade
       else and_then (map_err RTrustMetadata (active_keys_at m now)) (\<lambda>active.
         and_then (collect_keys env active) (\<lambda>keys.
         and_then (ok_or (bt_get keys (rp_publisher_key_id (sr_payload (sg_index e)))) RUnknownKey) (\<lambda>k.
         and_then (decode_signature env (RTrustMetadata ''invalid lifecycle signature'') (sg_lifecycle_signature e)) (\<lambda>sg.
         and_then (lifecycle_signing_bytes env e) (\<lambda>b.
         and_then (ensure (pe_verify env k b sg) RSignature) (\<lambda>_.
           verify_release_index env (sg_index e) keys)))))))))"

section \<open>Archives\<close>

record archive_limits =
  al_max_files :: usize
  al_max_file_bytes :: u64
  al_max_total_bytes :: u64
  al_max_compressed_total_bytes :: u64
  al_max_compression_ratio :: u64

definition manifest_path :: string where "manifest_path = ''manifest.json''"
definition checksums_path :: string where "checksums_path = ''checksums.json''"
definition signature_path :: string where "signature_path = ''META-INF/signature.ed25519''"

text \<open>\<open>str::split\<close> on one character yields at least one part.\<close>

fun split_on :: "char \<Rightarrow> string \<Rightarrow> string list" where
  "split_on c [] = [[]]"
| "split_on c (x # xs) =
     (if x = c then [] # split_on c xs
      else (case split_on c xs of [] \<Rightarrow> [[x]] | p # ps \<Rightarrow> (x # p) # ps))"

definition validate_path :: "string \<Rightarrow> archive_error + unit" where
  "validate_path name =
     (if (name \<noteq> [] \<and> hd name = CHR ''/'') \<or> CHR 0x5C \<in> set name
         \<or> (\<exists>p \<in> set (split_on (CHR ''/'') name). p = [] \<or> p = ''.'' \<or> p = ''..'')
      then Inl (UnsafePath name) else Inr ())"

definition checked_mul_u64 :: "u64 \<Rightarrow> u64 \<Rightarrow> u64 option" where
  "checked_mul_u64 a b = (if unat a * unat b < 2 ^ 64 then Some (a * b) else None)"

type_synonym archive_state = "u64 \<times> u64 \<times> (string, string) btree"

text \<open>The body of the loop over the entries.\<close>

definition read_entry ::
    "string list \<Rightarrow> archive_limits \<Rightarrow> archive_state \<Rightarrow> zip_entry option \<Rightarrow> archive_error + archive_state" where
  "read_entry allowed l st entry = (case st of (bytes_seen, compressed_sum, files) \<Rightarrow>
     and_then (ok_or entry ZipError) (\<lambda>z.
       if ze_is_dir z then Inr st
       else and_then (validate_path (ze_name z)) (\<lambda>_.
         if ze_name z \<notin> set allowed then Inl (Forbidden (ze_name z))
         else if ze_size z > al_max_file_bytes l then Inl (Limit ''file size'')
         else and_then
           (if 0 < ze_compressed_size z
            then and_then (ok_or (checked_mul_u64 (ze_compressed_size z) (al_max_compression_ratio l)) (Limit ''compression ratio''))
                   (\<lambda>cap. if ze_size z > cap then Inl (Limit ''compression ratio'') else Inr ())
            else Inr ()) (\<lambda>_.
         and_then (ok_or (checked_add_u64 bytes_seen (ze_size z)) (Limit ''total size'')) (\<lambda>bytes_seen'.
           if bytes_seen' > al_max_total_bytes l then Inl (Limit ''total size'')
           else and_then (ok_or (checked_add_u64 compressed_sum (ze_compressed_size z)) (Limit ''compressed total size'')) (\<lambda>ct.
             if ct > al_max_compressed_total_bytes l then Inl (Limit ''compressed total size'')
             else and_then (ok_or (ze_bytes z) IoError) (\<lambda>b.
               if bt_contains files (ze_name z) then Inl (DuplicateFile (ze_name z))
               else Inr (bytes_seen', ct, bt_insert (ze_name z) b files))))))))"

definition read_archive ::
    "zip_entry option list option \<Rightarrow> string list \<Rightarrow> archive_limits \<Rightarrow> archive_error + (string, string) btree" where
  "read_archive archive allowed l =
     and_then (ok_or archive ZipError) (\<lambda>es.
       if length es > al_max_files l then Inl (Limit ''file count'')
       else and_then (try_fold (read_entry allowed l) (0, 0, bt_empty) es) (\<lambda>(t, ct, files). Inr files))"

definition check_digest ::
    "('sk, 'vk, 'sg, 'v) pack_env \<Rightarrow> (string, string) btree \<Rightarrow> string \<times> string \<Rightarrow> archive_error + unit" where
  "check_digest env files e =
     and_then (ok_or (bt_get files (fst e)) (MissingOwned (fst e))) (\<lambda>b.
       if pe_hex_encode env (pe_sha256 env b) \<noteq> snd e then Inl (Digest (fst e)) else Inr ())"

definition pack_message ::
    "('sk, 'vk, 'sg, 'v) pack_env \<Rightarrow> string \<Rightarrow> string \<Rightarrow> archive_error + string" where
  "pack_message env manifest_bytes checksum_bytes =
     and_then (canonical_json env manifest_bytes) (\<lambda>m.
     and_then (canonical_json env checksum_bytes) (\<lambda>c. Inr (m @ [CHR 0x0A] @ c)))"

definition verify_checksums_and_signature ::
    "('sk, 'vk, 'sg, 'v) pack_env \<Rightarrow> (string, string) btree \<Rightarrow> string list \<Rightarrow> string \<Rightarrow> 'vk trust_store
     \<Rightarrow> archive_error + unit" where
  "verify_checksums_and_signature env files names publisher trust =
     and_then (ok_or (bt_get files checksums_path) (Missing checksums_path)) (\<lambda>checksum_bytes.
     and_then (ok_or (pe_parse_checksums env checksum_bytes) JsonError) (\<lambda>cs.
       if cs_schema_version cs \<noteq> 1 then Inl (Missing ''checksum schema version'')
       else if bt_keys (cs_files cs) \<noteq> sort names then Inl ChecksumCoverage
       else and_then (try_for_each (check_digest env files) (bt_entries (cs_files cs))) (\<lambda>_.
         and_then (ok_or (bt_get files signature_path) (Missing signature_path)) (\<lambda>raw.
         and_then (ok_or (pe_signature_from env raw) BadSignature) (\<lambda>sg.
         and_then (ok_or (bt_get trust publisher) UnknownKey) (\<lambda>k.
         and_then (ok_or (bt_get files manifest_path) (Missing manifest_path)) (\<lambda>manifest_bytes.
         and_then (pack_message env manifest_bytes checksum_bytes) (\<lambda>m.
           ensure (pe_verify env k m sg) BadSignature))))))))"

text \<open>The files of a built archive, in the order they are written; the container itself is \<open>zip\<close>'s.\<close>

definition build_signed_archive ::
    "('sk, 'vk, 'sg, 'v) pack_env \<Rightarrow> string \<Rightarrow> string \<Rightarrow> string \<Rightarrow> 'sk \<Rightarrow> archive_error + (string \<times> string) list" where
  "build_signed_archive env manifest_bytes payload_name payload_bytes sk =
     (let cs = \<lparr>cs_schema_version = 1,
                cs_files = bt_insert payload_name (pe_hex_encode env (pe_sha256 env payload_bytes))
                  (bt_insert manifest_path (pe_hex_encode env (pe_sha256 env manifest_bytes)) bt_empty)\<rparr>
      in and_then (ok_or (pe_checksums_bytes env cs) JsonError) (\<lambda>checksum_bytes.
         and_then (pack_message env manifest_bytes checksum_bytes) (\<lambda>m.
           Inr [(manifest_path, manifest_bytes), (payload_name, payload_bytes), (checksums_path, checksum_bytes),
                (signature_path, pe_signature_bytes env (pe_sign env sk m))])))"


section \<open>Packs\<close>

text \<open>\<open>package.rs\<close> and \<open>handler_package.rs\<close>. Both loaders check the versions in the same way.\<close>

definition model_path :: string where "model_path = ''model.json''"
definition module_path :: string where "module_path = ''handler.wasm''"

definition model_pack_limits :: archive_limits where
  "model_pack_limits = \<lparr>al_max_files = 8, al_max_file_bytes = 256 * 1024, al_max_total_bytes = 1024 * 1024,
     al_max_compressed_total_bytes = 8 * 1024 * 1024, al_max_compression_ratio = 100\<rparr>"

definition handler_pack_limits :: archive_limits where
  "handler_pack_limits = \<lparr>al_max_files = 8, al_max_file_bytes = 4 * 1024 * 1024, al_max_total_bytes = 16 * 1024 * 1024,
     al_max_compressed_total_bytes = 8 * 1024 * 1024, al_max_compression_ratio = 100\<rparr>"

definition model_pack_allowed :: "string list" where
  "model_pack_allowed = [manifest_path, model_path, checksums_path, signature_path]"

definition handler_pack_allowed :: "string list" where
  "handler_pack_allowed = [manifest_path, module_path, checksums_path, signature_path]"

datatype pack_error =
    PArchive archive_error | PJson | PManifest string | RuntimeTooOld string string | ModuleDigestMismatch

definition check_versions ::
    "('sk, 'vk, 'sg, 'v) pack_env \<Rightarrow> string \<Rightarrow> string \<Rightarrow> string \<Rightarrow> pack_error + unit" where
  "check_versions env label version minimum =
     and_then (map_err (\<lambda>e. PManifest (label @ e)) (pe_parse_version env version)) (\<lambda>_.
     and_then (map_err (\<lambda>e. PManifest (''invalid minimum runtime: '' @ e)) (pe_parse_version env minimum)) (\<lambda>mn.
     and_then (map_err (\<lambda>e. PManifest (''invalid runtime version: '' @ e)) (pe_parse_version env (pe_runtime_version env))) (\<lambda>rt.
       if pe_version_less env rt mn then Inl (RuntimeTooOld (pe_show_version env mn) (pe_show_version env rt))
       else Inr ())))"

record model_pack =
  mp_manifest :: model_manifest
  mp_model :: json

record model_inspection =
  mi_id :: string
  mi_version :: string
  mi_publisher_key_id :: string
  mi_runtime_api_version :: u32
  mi_capabilities :: "string list"
  mi_signature_verified :: bool

definition load_model_pack ::
    "('sk, 'vk, 'sg, 'v) pack_env \<Rightarrow> zip_entry option list option \<Rightarrow> 'vk trust_store
     \<Rightarrow> pack_error + model_pack \<times> model_inspection" where
  "load_model_pack env archive trust =
     and_then (map_err PArchive (read_archive archive model_pack_allowed model_pack_limits)) (\<lambda>files.
     and_then (ok_or (bt_get files manifest_path) (PArchive (Missing manifest_path))) (\<lambda>mb.
     and_then (ok_or (pe_parse_model_manifest env mb) PJson) (\<lambda>m.
     and_then (map_err PManifest (model_manifest_validate m)) (\<lambda>_.
     and_then (check_versions env ''invalid pack version: '' (mm_version m) (mm_min_runtime_version m)) (\<lambda>_.
     and_then (map_err PArchive (verify_checksums_and_signature env files [manifest_path, model_path]
       (mm_publisher_key_id m) trust)) (\<lambda>_.
     and_then (ok_or (bt_get files model_path) (PArchive (Missing model_path))) (\<lambda>b.
     and_then (ok_or (pe_parse_json env b) PJson) (\<lambda>model.
       Inr (\<lparr>mp_manifest = m, mp_model = model\<rparr>,
            \<lparr>mi_id = mm_id m, mi_version = mm_version m, mi_publisher_key_id = mm_publisher_key_id m,
             mi_runtime_api_version = mm_runtime_api_version m, mi_capabilities = mm_capabilities m,
             mi_signature_verified = True\<rparr>)))))))))"

definition build_signed_model_pack ::
    "('sk, 'vk, 'sg, 'v) pack_env \<Rightarrow> model_manifest \<Rightarrow> json \<Rightarrow> 'sk \<Rightarrow> pack_error + (string \<times> string) list" where
  "build_signed_model_pack env m model sk =
     and_then (map_err PManifest (model_manifest_validate m)) (\<lambda>_.
     and_then (ok_or (pe_model_manifest_bytes env m) PJson) (\<lambda>mb.
     and_then (ok_or (pe_pretty_json env model) PJson) (\<lambda>b.
     and_then (map_err PArchive (canonical_json env mb)) (\<lambda>_.
       map_err PArchive (build_signed_archive env mb model_path b sk)))))"

record handler_pack =
  hp_manifest :: handler_manifest
  hp_module :: string

record handler_inspection =
  hi_id :: string
  hi_version :: string
  hi_publisher_key_id :: string
  hi_handler_api_version :: u32
  hi_min_runtime_version :: string
  hi_capabilities :: "string list"
  hi_module_sha256 :: string
  hi_module_size :: u64
  hi_signature_verified :: bool

text \<open>The module is the one the manifest names.\<close>

definition check_module ::
    "('sk, 'vk, 'sg, 'v) pack_env \<Rightarrow> handler_manifest \<Rightarrow> string \<Rightarrow> pack_error + unit" where
  "check_module env m wasm =
     (if pe_hex_encode env (pe_sha256 env wasm) \<noteq> hn_module_sha256 m then Inl ModuleDigestMismatch
      else if of_nat (length wasm) \<noteq> hn_module_size m then Inl (PManifest ''module size mismatch'')
      else Inr ())"

definition load_handler_pack ::
    "('sk, 'vk, 'sg, 'v) pack_env \<Rightarrow> zip_entry option list option \<Rightarrow> 'vk trust_store
     \<Rightarrow> pack_error + handler_pack \<times> handler_inspection" where
  "load_handler_pack env archive trust =
     and_then (map_err PArchive (read_archive archive handler_pack_allowed handler_pack_limits)) (\<lambda>files.
     and_then (ok_or (bt_get files manifest_path) (PArchive (Missing manifest_path))) (\<lambda>mb.
     and_then (ok_or (pe_parse_handler_manifest env mb) PJson) (\<lambda>m.
     and_then (map_err PManifest (handler_manifest_validate m)) (\<lambda>_.
     and_then (check_versions env ''invalid handler version: '' (hn_version m) (hn_min_runtime_version m)) (\<lambda>_.
     and_then (map_err PArchive (verify_checksums_and_signature env files [manifest_path, module_path]
       (hn_publisher_key_id m) trust)) (\<lambda>_.
     and_then (ok_or (bt_get files module_path) (PArchive (Missing module_path))) (\<lambda>wasm.
     and_then (check_module env m wasm) (\<lambda>_.
       Inr (\<lparr>hp_manifest = m, hp_module = wasm\<rparr>,
            \<lparr>hi_id = hn_id m, hi_version = hn_version m, hi_publisher_key_id = hn_publisher_key_id m,
             hi_handler_api_version = hn_handler_api_version m, hi_min_runtime_version = hn_min_runtime_version m,
             hi_capabilities = hn_capabilities m, hi_module_sha256 = hn_module_sha256 m,
             hi_module_size = hn_module_size m, hi_signature_verified = True\<rparr>)))))))))"

definition build_signed_handler_pack ::
    "('sk, 'vk, 'sg, 'v) pack_env \<Rightarrow> handler_manifest \<Rightarrow> string \<Rightarrow> 'sk \<Rightarrow> pack_error + (string \<times> string) list" where
  "build_signed_handler_pack env m wasm sk =
     and_then (map_err PManifest (handler_manifest_validate m)) (\<lambda>_.
     and_then (check_module env m wasm) (\<lambda>_.
     and_then (ok_or (pe_handler_manifest_bytes env m) PJson) (\<lambda>mb.
       map_err PArchive (build_signed_archive env mb module_path wasm sk))))"

section \<open>Release verification\<close>

lemma check_artifacts_Inr:
  "check_artifacts env seen as = Inr u \<longleftrightarrow>
     (\<forall>a \<in> set as. \<exists>v. pe_parse_version env (ar_version a) = Inr v) \<and> distinct (map artifact_identity as)
     \<and> set (map artifact_identity as) \<inter> set seen = {}"
proof (induction as arbitrary: seen)
  case (Cons a as)
  then show ?case by (auto simp: and_then_Inr map_err_Inr)
qed simp

lemma collect_keys_get:
  assumes "try_fold (\<lambda>m k. and_then (decode_public_key env (tk_public_key_hex k)) (\<lambda>vk. Inr (bt_insert (tk_key_id k) vk m))) m0 ks = Inr m"
    and "distinct (map tk_key_id ks)"
  shows "bt_get m i = Some vk \<longleftrightarrow>
     (\<exists>k \<in> set ks. tk_key_id k = i \<and> decode_public_key env (tk_public_key_hex k) = Inr vk)
     \<or> i \<notin> tk_key_id ` set ks \<and> bt_get m0 i = Some vk"
  using assms
proof (induction ks arbitrary: m0)
  case (Cons k ks)
  obtain w where w: "decode_public_key env (tk_public_key_hex k) = Inr w"
    using Cons.prems(1) by (auto simp: and_then_Inr)
  then have "bt_get m i = Some vk \<longleftrightarrow>
     (\<exists>k \<in> set ks. tk_key_id k = i \<and> decode_public_key env (tk_public_key_hex k) = Inr vk)
     \<or> i \<notin> tk_key_id ` set ks \<and> bt_get (bt_insert (tk_key_id k) w m0) i = Some vk"
    using Cons.IH [of "bt_insert (tk_key_id k) w m0"] Cons.prems by simp
  then show ?case using Cons.prems(2) w by auto
qed simp

text \<open>What acceptance of a release means.\<close>

definition signed_by :: "('sk, 'vk, 'sg, 'v) pack_env \<Rightarrow> 'vk \<Rightarrow> release_error + string \<Rightarrow> string \<Rightarrow> bool" where
  "signed_by env vk message sig_hex \<longleftrightarrow>
     (case message of Inl e \<Rightarrow> False | Inr msg \<Rightarrow>
      (case pe_hex_decode env sig_hex of None \<Rightarrow> False | Some b \<Rightarrow>
       (case pe_signature_from env b of None \<Rightarrow> False | Some sg \<Rightarrow> pe_verify env vk msg sg)))"

lemma signed_by_iff:
  "signed_by env vk message s \<longleftrightarrow> (\<exists>msg b sg. message = Inr msg \<and> pe_hex_decode env s = Some b
     \<and> pe_signature_from env b = Some sg \<and> pe_verify env vk msg sg)"
  by (auto simp: signed_by_def split: sum.splits option.splits)

lemma verify_release_index_Inr:
  "verify_release_index env i trust = Inr u \<longleftrightarrow>
     validate_release_payload env (sr_payload i) = Inr ()
     \<and> (\<exists>vk. bt_get trust (rp_publisher_key_id (sr_payload i)) = Some vk
          \<and> signed_by env vk (payload_message env (sr_payload i)) (sr_signature i))"
  by (auto simp: verify_release_index_def and_then_Inr ok_or_Inr ensure_Inr decode_signature_def signed_by_iff)

lemma distinct_map_filterI: "distinct (map f xs) \<Longrightarrow> distinct (map f (filter p xs))"
  by (induction xs) auto

lemma collect_keys_defined:
  "(\<exists>m. try_fold (\<lambda>m k. and_then (decode_public_key env (tk_public_key_hex k)) (\<lambda>vk. Inr (bt_insert (tk_key_id k) vk m))) m0 ks = Inr m)
     \<longleftrightarrow> (\<forall>k \<in> set ks. \<exists>vk. decode_public_key env (tk_public_key_hex k) = Inr vk)"
proof (induction ks arbitrary: m0)
  case (Cons k ks)
  show ?case
  proof (cases "decode_public_key env (tk_public_key_hex k)")
    case (Inr vk)
    then show ?thesis using Cons.IH [of "bt_insert (tk_key_id k) vk m0"] by simp
  qed simp
qed simp

lemma verify_with_trust_Inr:
  "verify_release_index_with_trust_metadata env e m f now = Inr u \<longleftrightarrow>
     release_generation_validate e = Inr () \<and> trust_metadata_validate m = Inr () \<and> check_metadata_floor env m f = Inr ()
     \<and> tf_minimum_release_generation f \<le> sg_release_generation e
     \<and> tm_minimum_release_generation m \<le> sg_release_generation e
     \<and> (\<exists>k \<in> set (tm_keys m). tk_role k = CurrentKey \<and> is_active_at k now)
     \<and> (\<forall>k \<in> set (tm_keys m). is_active_at k now \<longrightarrow> (\<exists>vk. decode_public_key env (tk_public_key_hex k) = Inr vk))
     \<and> (\<exists>k \<in> set (tm_keys m). \<exists>vk. tk_key_id k = rp_publisher_key_id (sr_payload (sg_index e)) \<and> is_active_at k now
          \<and> decode_public_key env (tk_public_key_hex k) = Inr vk
          \<and> signed_by env vk (lifecycle_signing_bytes env e) (sg_lifecycle_signature e)
          \<and> signed_by env vk (payload_message env (sr_payload (sg_index e))) (sr_signature (sg_index e)))
     \<and> validate_release_payload env (sr_payload (sg_index e)) = Inr ()"
  (is "?l = Inr u \<longleftrightarrow> ?c1 \<and> ?c2 \<and> ?c3 \<and> ?c4 \<and> ?c5 \<and> ?cur \<and> ?dec \<and> ?key \<and> ?pl")
proof -
  let ?id = "rp_publisher_key_id (sr_payload (sg_index e))"
  let ?lc = "\<lambda>vk. signed_by env vk (lifecycle_signing_bytes env e) (sg_lifecycle_signature e)"
  let ?ps = "\<lambda>vk. signed_by env vk (payload_message env (sr_payload (sg_index e))) (sr_signature (sg_index e))"
  let ?active = "filter (\<lambda>k. is_active_at k now) (tm_keys m)"
  let ?found = "\<lambda>keys. \<exists>vk. bt_get keys ?id = Some vk \<and> ?lc vk \<and> ?ps vk \<and> ?pl"
  have 1: "?l = Inr u \<longleftrightarrow> ?c1 \<and> ?c2 \<and> ?c3 \<and> ?c4 \<and> ?c5 \<and> ?cur
     \<and> (\<exists>keys. collect_keys env ?active = Inr keys \<and> ?found keys)"
    by (auto simp: verify_release_index_with_trust_metadata_def and_then_Inr ok_or_Inr ensure_Inr map_err_Inr
        not_less active_keys_at_Inr decode_signature_def verify_release_index_Inr signed_by_iff split: if_splits)
  have 2: "(\<exists>keys. collect_keys env ?active = Inr keys \<and> ?found keys) \<longleftrightarrow> ?dec \<and> ?key \<and> ?pl"
    if "trust_metadata_validate m = Inr ()"
  proof -
    have d: "distinct (map tk_key_id ?active)"
      using that by (intro distinct_map_filterI) (simp add: trust_metadata_validate_Inr)
    have g: "bt_get keys ?id = Some vk \<longleftrightarrow>
        (\<exists>k \<in> set ?active. tk_key_id k = ?id \<and> decode_public_key env (tk_public_key_hex k) = Inr vk)"
      if "collect_keys env ?active = Inr keys" for keys vk
      using collect_keys_get [OF that [unfolded collect_keys_def] d] by simp
    have "(\<exists>keys. collect_keys env ?active = Inr keys) \<longleftrightarrow> ?dec"
      unfolding collect_keys_def collect_keys_defined by auto
    then show ?thesis using g by (fastforce)
  qed
  show ?thesis unfolding 1 using 2 by blast
qed

end
