(* ===== verification/Archive_Trust.thy ===== *)
theory Archive_Trust imports Archive begin

text \<open>
  What the verification of packs and release indexes guarantees, for any implementation of the
  cryptography that satisfies \<open>pack_contract\<close>, and a small concrete one.
\<close>

section \<open>Size limits\<close>

definition total_bytes :: "(string, string) btree \<Rightarrow> nat" where
  "total_bytes files = (\<Sum>n \<in> dom (bt_get files). length (the (bt_get files n)))"

lemma total_bytes_insert:
  assumes "\<not> bt_contains files n"
  shows "total_bytes (bt_insert n b files) = length b + total_bytes files"
proof -
  have n: "n \<notin> dom (bt_get files)" using assms by (simp add: bt_contains_def domIff)
  have "(\<Sum>k \<in> dom (bt_get files). length (the (bt_get (bt_insert n b files) k))) = total_bytes files"
    unfolding total_bytes_def using n by (intro sum.cong) auto
  then show ?thesis using n by (simp add: total_bytes_def dom_bt_insert)
qed

lemma read_entry_Inr:
  "read_entry allowed l (t, ct, files) entry = Inr st' \<longleftrightarrow>
     (\<exists>z. entry = Some z \<and> (if ze_is_dir z then st' = (t, ct, files)
       else validate_path (ze_name z) = Inr () \<and> ze_name z \<in> set allowed \<and> ze_size z \<le> al_max_file_bytes l
         \<and> (0 < ze_compressed_size z \<longrightarrow> unat (ze_compressed_size z) * unat (al_max_compression_ratio l) < 2 ^ 64
              \<and> ze_size z \<le> ze_compressed_size z * al_max_compression_ratio l)
         \<and> unat t + unat (ze_size z) < 2 ^ 64 \<and> t + ze_size z \<le> al_max_total_bytes l
         \<and> unat ct + unat (ze_compressed_size z) < 2 ^ 64 \<and> ct + ze_compressed_size z \<le> al_max_compressed_total_bytes l
         \<and> (\<exists>b. ze_bytes z = Some b \<and> \<not> bt_contains files (ze_name z)
              \<and> st' = (t + ze_size z, ct + ze_compressed_size z, bt_insert (ze_name z) b files))))"
  by (cases entry)
    (auto simp: read_entry_def and_then_Inr ok_or_Inr ok_or_def checked_mul_u64_def checked_add_u64_def not_less
      split: if_splits option.splits)

text \<open>What holds of the files read so far.\<close>

definition limits_kept :: "string list \<Rightarrow> archive_limits \<Rightarrow> archive_state \<Rightarrow> bool" where
  "limits_kept allowed l st = (case st of (t, ct, files) \<Rightarrow>
     (\<forall>n b. bt_get files n = Some b \<longrightarrow>
        n \<in> set allowed \<and> validate_path n = Inr () \<and> length b \<le> unat (al_max_file_bytes l))
     \<and> total_bytes files \<le> unat t \<and> t \<le> al_max_total_bytes l)"

definition honest_sizes :: "zip_entry option list \<Rightarrow> bool" where
  "honest_sizes es \<longleftrightarrow> (\<forall>z \<in> set (List.map_filter id es). \<forall>b. ze_bytes z = Some b \<longrightarrow> unat (ze_size z) = length b)"

lemma limits_step:
  assumes "limits_kept allowed l st" "read_entry allowed l st (Some z) = Inr st'"
    and h: "\<And>b. ze_bytes z = Some b \<Longrightarrow> unat (ze_size z) = length b"
  shows "limits_kept allowed l st'"
proof -
  obtain t ct files where st: "st = (t, ct, files)" by (metis surj_pair)
  show ?thesis
  proof (cases "ze_is_dir z")
    case True
    then show ?thesis using assms(1,2) by (simp add: st read_entry_Inr)
  next
    case False
    from assms(2) False obtain b where b: "ze_bytes z = Some b" "\<not> bt_contains files (ze_name z)"
      "st' = (t + ze_size z, ct + ze_compressed_size z, bt_insert (ze_name z) b files)"
      and c: "validate_path (ze_name z) = Inr ()" "ze_name z \<in> set allowed" "ze_size z \<le> al_max_file_bytes l"
        "unat t + unat (ze_size z) < 2 ^ 64" "t + ze_size z \<le> al_max_total_bytes l"
      unfolding st read_entry_Inr by auto
    have "length b \<le> unat (al_max_file_bytes l)" using c(3) h [OF b(1)] by (simp add: word_le_nat_alt)
    moreover have "total_bytes (bt_insert (ze_name z) b files) \<le> unat (t + ze_size z)"
      using assms(1) h [OF b(1)] unat_add_u64 [OF c(4)] by (simp add: total_bytes_insert [OF b(2)] st limits_kept_def)
    ultimately show ?thesis using assms(1) c(1,2,5) by (auto simp: b(3) st limits_kept_def split: if_splits)
  qed
qed

lemma archive_limits_kept:
  assumes "read_archive (Some es) allowed l = Inr files" "honest_sizes es"
  shows "\<exists>t ct. limits_kept allowed l (t, ct, files)"
proof -
  obtain t ct where f: "try_fold (read_entry allowed l) (0, 0, bt_empty) es = Inr (t, ct, files)"
    using assms(1) by (auto simp: read_archive_def and_then_Inr ok_or_Inr split: if_splits)
  have "limits_kept allowed l (t, ct, files)"
  proof (rule try_fold_invariant [OF f])
    show "limits_kept allowed l (0, 0, bt_empty)" by (simp add: limits_kept_def total_bytes_def dom_def)
  next
    fix s e s' assume s: "limits_kept allowed l s" "e \<in> set es" "read_entry allowed l s e = Inr s'"
    obtain t ct fs where st: "s = (t, ct, fs)" by (metis surj_pair)
    obtain z where z: "e = Some z" using s(3) unfolding st read_entry_Inr by blast
    then have "z \<in> set (List.map_filter id es)" using s(2) by (force simp: List.map_filter_def)
    then show "limits_kept allowed l s'"
      using limits_step [OF s(1) s(3) [unfolded z]] assms(2) by (simp add: honest_sizes_def)
  qed
  then show ?thesis by blast
qed

section \<open>Authenticity\<close>

lemma verify_pack_Inr:
  "verify_checksums_and_signature env files names publisher trust = Inr u \<longleftrightarrow>
     (\<exists>cb cs raw sg vk mb msg. bt_get files checksums_path = Some cb \<and> pe_parse_checksums env cb = Some cs
       \<and> cs_schema_version cs = 1 \<and> bt_keys (cs_files cs) = sort names
       \<and> (\<forall>e \<in> set (bt_entries (cs_files cs)). check_digest env files e = Inr ())
       \<and> bt_get files signature_path = Some raw \<and> pe_signature_from env raw = Some sg
       \<and> bt_get trust publisher = Some vk \<and> bt_get files manifest_path = Some mb
       \<and> pack_message env mb cb = Inr msg \<and> pe_verify env vk msg sg)"
  by (auto simp: verify_checksums_and_signature_def and_then_Inr ok_or_Inr ensure_Inr try_for_each_Inr)

lemma check_digest_Inr:
  "check_digest env files (n, d) = Inr u \<longleftrightarrow>
     (\<exists>b. bt_get files n = Some b \<and> pe_hex_encode env (pe_sha256 env b) = d)"
  by (auto simp: check_digest_def and_then_Inr ok_or_Inr)

text \<open>Every payload name is covered by a checksum that matches.\<close>

lemma covered_digest:
  assumes "bt_keys (cs_files cs) = sort names" "n \<in> set names"
    and "\<forall>e \<in> set (bt_entries (cs_files cs)). check_digest env files e = Inr ()"
  shows "\<exists>b. bt_get files n = Some b \<and> bt_get (cs_files cs) n = Some (pe_hex_encode env (pe_sha256 env b))"
proof -
  have "n \<in> set (bt_keys (cs_files cs))" using assms(1,2) by simp
  then obtain d where d: "bt_get (cs_files cs) n = Some d" by (auto simp: bt_keys_set)
  then have "check_digest env files (n, d) = Inr ()" using assms(3) by (simp add: bt_get_iff)
  then show ?thesis using d by (auto simp: check_digest_Inr)
qed


section \<open>Reading back what was built\<close>

text \<open>The entries \<open>zip\<close> lists for the files that were written: the same names and bytes.\<close>

definition unzipped :: "(string \<times> string) list \<Rightarrow> zip_entry option list \<Rightarrow> bool" where
  "unzipped fs es \<longleftrightarrow> list_all2 (\<lambda>f e. case e of None \<Rightarrow> False
     | Some z \<Rightarrow> \<not> ze_is_dir z \<and> ze_name z = fst f \<and> ze_bytes z = Some (snd f)) fs es"

text \<open>
  The sizes the directory of an archive declares, against the limits: every file, its compression ratio, and
  both totals.
\<close>

definition entry_fits :: "archive_limits \<Rightarrow> zip_entry \<Rightarrow> bool" where
  "entry_fits l z \<longleftrightarrow> ze_size z \<le> al_max_file_bytes l
     \<and> (0 < ze_compressed_size z \<longrightarrow> unat (ze_size z) \<le> unat (ze_compressed_size z) * unat (al_max_compression_ratio l))"

definition declared :: "(zip_entry \<Rightarrow> u64) \<Rightarrow> zip_entry option list \<Rightarrow> nat" where
  "declared f es = sum_list (map (\<lambda>e. case e of None \<Rightarrow> 0 | Some z \<Rightarrow> unat (f z)) es)"

definition fits_after :: "archive_limits \<Rightarrow> nat \<Rightarrow> nat \<Rightarrow> zip_entry option list \<Rightarrow> bool" where
  "fits_after l t ct es \<longleftrightarrow> (\<forall>e \<in> set es. pred_option (entry_fits l) e)
     \<and> t + declared ze_size es \<le> unat (al_max_total_bytes l)
     \<and> ct + declared ze_compressed_size es \<le> unat (al_max_compressed_total_bytes l)"

definition fits :: "archive_limits \<Rightarrow> zip_entry option list \<Rightarrow> bool" where
  "fits l es \<longleftrightarrow> length es \<le> al_max_files l \<and> fits_after l 0 0 es"

lemma fits_after_simps:
  "fits_after l t ct [] \<longleftrightarrow> t \<le> unat (al_max_total_bytes l) \<and> ct \<le> unat (al_max_compressed_total_bytes l)"
  "fits_after l t ct (Some z # es) \<longleftrightarrow> entry_fits l z
     \<and> fits_after l (t + unat (ze_size z)) (ct + unat (ze_compressed_size z)) es"
  by (auto simp: fits_after_def declared_def ac_simps)

lemma fits_after_bound:
  "fits_after l t ct es \<Longrightarrow> t \<le> unat (al_max_total_bytes l) \<and> ct \<le> unat (al_max_compressed_total_bytes l)"
  by (simp add: fits_after_def)

lemma word_le_cap: "unat t + unat s \<le> unat (cap :: u64) \<Longrightarrow> checked_add_u64 t s = Some (t + s) \<and> t + s \<le> cap
    \<and> unat (t + s) = unat t + unat s"
  using unat_u64_less [of cap] by (simp add: checked_add_u64_def word_le_nat_alt unat_add_u64)

lemma word_over_cap:
  "\<not> unat t + unat s \<le> unat (cap :: u64) \<Longrightarrow> checked_add_u64 t s = None \<or> (\<exists>x. checked_add_u64 t s = Some x \<and> cap < x)"
  by (auto simp: checked_add_u64_def word_less_nat_alt unat_add_u64)

text \<open>An allowed entry is read when it fits after the entries before it, and refused by a limit otherwise.\<close>

lemma read_entry_allowed:
  assumes z: "\<not> ze_is_dir z" "validate_path (ze_name z) = Inr ()" "ze_name z \<in> set allowed" "ze_bytes z = Some b"
      "\<not> bt_contains files (ze_name z)"
    and cap: "unat (al_max_compressed_total_bytes l) * unat (al_max_compression_ratio l) < 2 ^ 64"
  shows "(if entry_fits l z \<and> unat t + unat (ze_size z) \<le> unat (al_max_total_bytes l)
         \<and> unat ct + unat (ze_compressed_size z) \<le> unat (al_max_compressed_total_bytes l)
      then read_entry allowed l (t, ct, files) (Some z)
        = Inr (t + ze_size z, ct + ze_compressed_size z, bt_insert (ze_name z) b files)
      else \<exists>w. read_entry allowed l (t, ct, files) (Some z) = Inl (Limit w))"
proof -
  let ?ratio = "if 0 < ze_compressed_size z
    then and_then (ok_or (checked_mul_u64 (ze_compressed_size z) (al_max_compression_ratio l)) (Limit ''compression ratio''))
           (\<lambda>cap. if ze_size z > cap then Inl (Limit ''compression ratio'') else Inr ())
    else Inr ()"
  have r: "?ratio = Inr () \<or> ?ratio = Inl (Limit ''compression ratio'')"
    by (auto simp: ok_or_def split: option.splits)
  let ?fit = "entry_fits l z \<and> unat t + unat (ze_size z) \<le> unat (al_max_total_bytes l)
    \<and> unat ct + unat (ze_compressed_size z) \<le> unat (al_max_compressed_total_bytes l)"
  show ?thesis
  proof (cases ?fit)
    case True
    have "unat (ze_compressed_size z) * unat (al_max_compression_ratio l) < 2 ^ 64"
      using True cap by (meson add_leD2 le_less_trans mult_le_mono1)
    moreover from this have "unat (ze_compressed_size z * al_max_compression_ratio l)
        = unat (ze_compressed_size z) * unat (al_max_compression_ratio l)"
      using unat_mult_lem [of "ze_compressed_size z" "al_max_compression_ratio l"] by simp
    ultimately have "?ratio = Inr ()"
      using True by (auto simp: checked_mul_u64_def ok_or_def entry_fits_def word_less_nat_alt not_less)
    moreover have "checked_add_u64 t (ze_size z) = Some (t + ze_size z) \<and> \<not> al_max_total_bytes l < t + ze_size z"
      "checked_add_u64 ct (ze_compressed_size z) = Some (ct + ze_compressed_size z)
        \<and> \<not> al_max_compressed_total_bytes l < ct + ze_compressed_size z"
      using True word_le_cap [of t "ze_size z" "al_max_total_bytes l"]
        word_le_cap [of ct "ze_compressed_size z" "al_max_compressed_total_bytes l"] by (simp_all add: not_less)
    ultimately show ?thesis
      using z True by (simp add: read_entry_def ok_or_def entry_fits_def not_less)
  next
    case False
    have "?ratio = Inr () \<Longrightarrow> 0 < ze_compressed_size z \<longrightarrow>
        unat (ze_size z) \<le> unat (ze_compressed_size z) * unat (al_max_compression_ratio l)"
      using unat_mult_lem [of "ze_compressed_size z" "al_max_compression_ratio l"]
      by (auto simp: checked_mul_u64_def ok_or_def word_less_nat_alt not_less split: if_splits)
    then have over: "\<not> ze_size z \<le> al_max_file_bytes l \<or> ?ratio \<noteq> Inr ()
        \<or> \<not> unat t + unat (ze_size z) \<le> unat (al_max_total_bytes l)
        \<or> \<not> unat ct + unat (ze_compressed_size z) \<le> unat (al_max_compressed_total_bytes l)"
      using False unfolding entry_fits_def by blast
    have "\<exists>w. read_entry allowed l (t, ct, files) (Some z) = Inl (Limit w)"
    proof (cases "al_max_file_bytes l < ze_size z")
      case True
      then show ?thesis using z by (simp add: read_entry_def ok_or_def)
    next
      case small: False
      show ?thesis
      proof (cases "?ratio = Inr ()")
        case True
        then have "\<not> unat t + unat (ze_size z) \<le> unat (al_max_total_bytes l)
            \<or> \<not> unat ct + unat (ze_compressed_size z) \<le> unat (al_max_compressed_total_bytes l)"
          using over small by (simp add: not_less)
        then show ?thesis
          using z small True word_over_cap [of t "ze_size z"] word_over_cap [of ct "ze_compressed_size z"]
          unfolding read_entry_def by (auto simp: ok_or_def split: option.splits)
      next
        case False
        then have "?ratio = Inl (Limit ''compression ratio'')" using r by blast
        then show ?thesis using z small unfolding read_entry_def by (auto simp: ok_or_def)
      qed
    qed
    then show ?thesis unfolding if_not_P [OF False] .
  qed
qed

lemma read_built:
  assumes "unzipped fs es" "distinct (map fst fs)" "\<forall>n \<in> fst ` set fs. n \<in> set allowed \<and> validate_path n = Inr ()"
    and "\<forall>n \<in> fst ` set fs. \<not> bt_contains files n"
    and cap: "unat (al_max_compressed_total_bytes l) * unat (al_max_compression_ratio l) < 2 ^ 64"
    and "unat t \<le> unat (al_max_total_bytes l)" "unat ct \<le> unat (al_max_compressed_total_bytes l)"
  shows "(if fits_after l (unat t) (unat ct) es
      then \<exists>t' ct'. try_fold (read_entry allowed l) (t, ct, files) es = Inr (t', ct', fold (\<lambda>f. bt_insert (fst f) (snd f)) fs files)
      else \<exists>w. try_fold (read_entry allowed l) (t, ct, files) es = Inl (Limit w))"
  using assms(1-4,6-)
proof (induction fs arbitrary: es t ct files)
  case (Cons f fs)
  then obtain z es' where es: "es = Some z # es'" "unzipped fs es'"
    "\<not> ze_is_dir z" "ze_name z = fst f" "ze_bytes z = Some (snd f)"
    by (auto simp: unzipped_def list_all2_Cons1 split: option.splits)
  let ?fit = "entry_fits l z \<and> unat t + unat (ze_size z) \<le> unat (al_max_total_bytes l)
    \<and> unat ct + unat (ze_compressed_size z) \<le> unat (al_max_compressed_total_bytes l)"
  have step: "if ?fit
      then read_entry allowed l (t, ct, files) (Some z) = Inr (t + ze_size z, ct + ze_compressed_size z, bt_insert (fst f) (snd f) files)
      else \<exists>w. read_entry allowed l (t, ct, files) (Some z) = Inl (Limit w)"
    using read_entry_allowed [of z allowed "snd f" files l t ct] es Cons.prems(3,4) cap by simp
  show ?case
  proof (cases ?fit)
    case True
    have "fst f \<notin> fst ` set fs" "\<forall>n \<in> fst ` set fs. \<not> bt_contains files n" using Cons.prems(2,4) by simp_all
    then have n: "\<forall>n \<in> fst ` set fs. \<not> bt_contains (bt_insert (fst f) (snd f) files) n"
      by (metis bt_contains_simps(2))
    have w: "unat (t + ze_size z) = unat t + unat (ze_size z)"
      "unat (ct + ze_compressed_size z) = unat ct + unat (ze_compressed_size z)"
      using True word_le_cap by blast+
    show ?thesis
      using Cons.IH [OF es(2), of "bt_insert (fst f) (snd f) files" "t + ze_size z" "ct + ze_compressed_size z"]
        Cons.prems n step True w es(1) by (simp add: fits_after_simps)
  next
    case False
    then have "\<not> fits_after l (unat t) (unat ct) es"
      using fits_after_bound [of l "unat t + unat (ze_size z)" "unat ct + unat (ze_compressed_size z)" es']
      by (auto simp: es(1) fits_after_simps)
    then show ?thesis using step False es(1) by auto
  qed
qed (auto simp: unzipped_def fits_after_simps)

definition pack_contract :: "('sk, 'vk, 'sg, 'v) pack_env \<Rightarrow> ('sk \<Rightarrow> 'vk) \<Rightarrow> bool" where
  "pack_contract env pub \<longleftrightarrow>
     (\<forall>b. pe_hex_decode env (pe_hex_encode env b) = Some b)
     \<and> (\<forall>b. length (pe_hex_encode env b) = 2 * length b \<and> list_all is_hex_digit (pe_hex_encode env b))
     \<and> (\<forall>sg. pe_signature_from env (pe_signature_bytes env sg) = Some sg \<and> length (pe_signature_bytes env sg) = 64)
     \<and> (\<forall>sk msg. pe_verify env (pub sk) msg (pe_sign env sk msg))
     \<and> (\<forall>cs b. pe_checksums_bytes env cs = Some b \<longrightarrow> pe_parse_checksums env b = Some cs)
     \<and> (\<forall>m b. pe_model_manifest_bytes env m = Some b \<longrightarrow> pe_parse_model_manifest env b = Some m)
     \<and> (\<forall>m b. pe_handler_manifest_bytes env m = Some b \<longrightarrow> pe_parse_handler_manifest env b = Some m)"

lemma signed_by_sign:
  "pack_contract env pub \<Longrightarrow> signed_by env (pub sk) (Inr msg) (pe_hex_encode env (pe_signature_bytes env (pe_sign env sk msg)))"
  by (simp add: pack_contract_def signed_by_iff)

lemma path_facts [simp]:
  "validate_path manifest_path = Inr ()" "validate_path model_path = Inr ()" "validate_path module_path = Inr ()"
  "validate_path checksums_path = Inr ()" "validate_path signature_path = Inr ()"
  by code_simp+

lemma path_distinct [simp]:
  "manifest_path \<noteq> model_path" "manifest_path \<noteq> module_path" "manifest_path \<noteq> checksums_path" "manifest_path \<noteq> signature_path"
  "model_path \<noteq> manifest_path" "module_path \<noteq> manifest_path" "checksums_path \<noteq> manifest_path" "signature_path \<noteq> manifest_path"
  "model_path \<noteq> checksums_path" "model_path \<noteq> signature_path" "checksums_path \<noteq> model_path" "signature_path \<noteq> model_path"
  "module_path \<noteq> checksums_path" "module_path \<noteq> signature_path" "checksums_path \<noteq> module_path" "signature_path \<noteq> module_path"
  "checksums_path \<noteq> signature_path" "signature_path \<noteq> checksums_path"
  by (simp_all add: manifest_path_def model_path_def module_path_def checksums_path_def signature_path_def)

lemma path_order [simp]: "manifest_path < model_path" "module_path < manifest_path"
  "manifest_path \<le> model_path" "module_path \<le> manifest_path"
  "\<not> model_path \<le> manifest_path" "\<not> manifest_path \<le> module_path"
  "\<not> model_path < manifest_path" "\<not> manifest_path < module_path"
  by code_simp+

text \<open>A built archive that the limits admit passes the verification, for either payload name.\<close>

lemma built_archive_verifies:
  assumes c: "pack_contract env pub" and b: "build_signed_archive env mb payload pb sk = Inr fs"
    and u: "unzipped fs es" and p: "payload \<in> {model_path, module_path}"
    and a: "set allowed = {manifest_path, payload, checksums_path, signature_path}" and l: "4 \<le> al_max_files l"
    and t: "bt_get trust publisher = Some (pub sk)"
    and cap: "unat (al_max_compressed_total_bytes l) * unat (al_max_compression_ratio l) < 2 ^ 64"
  shows "(if fits l es
      then \<exists>files. read_archive (Some es) allowed l = Inr files \<and> bt_get files manifest_path = Some mb
        \<and> bt_get files payload = Some pb
        \<and> verify_checksums_and_signature env files [manifest_path, payload] publisher trust = Inr ()
      else \<exists>w. read_archive (Some es) allowed l = Inl (Limit w))"
proof -
  let ?cs = "\<lparr>cs_schema_version = 1, cs_files = bt_insert payload (pe_hex_encode env (pe_sha256 env pb))
      (bt_insert manifest_path (pe_hex_encode env (pe_sha256 env mb)) bt_empty)\<rparr>"
  obtain cb msg where cb: "pe_checksums_bytes env ?cs = Some cb" and msg: "pack_message env mb cb = Inr msg"
    and fs: "fs = [(manifest_path, mb), (payload, pb), (checksums_path, cb), (signature_path, pe_signature_bytes env (pe_sign env sk msg))]"
    using b by (auto simp: build_signed_archive_def Let_def and_then_Inr ok_or_Inr)
  let ?files = "fold (\<lambda>f. bt_insert (fst f) (snd f)) fs bt_empty"
  have d: "distinct (map fst fs)" "\<forall>n \<in> fst ` set fs. n \<in> set allowed \<and> validate_path n = Inr ()"
    "\<forall>n \<in> fst ` set fs. \<not> bt_contains bt_empty n"
    using p a by (auto simp: fs bt_contains_def)
  have len: "length es \<le> al_max_files l" using u l by (auto simp: unzipped_def fs dest!: list_all2_lengthD)
  have keys: "bt_keys (cs_files ?cs) = sort [manifest_path, payload]"
    using p path_order by (auto simp: bt_keys_def bt_insert.rep_eq)
  have dig: "\<forall>e \<in> set (bt_entries (cs_files ?cs)). check_digest env ?files e = Inr ()"
  proof
    fix e assume e: "e \<in> set (bt_entries (cs_files ?cs))"
    obtain n h where n: "e = (n, h)" by fastforce
    have "bt_get (cs_files ?cs) n = Some h" using e unfolding n bt_get_iff .
    then show "check_digest env ?files e = Inr ()"
      using p by (auto simp: n fs check_digest_Inr split: if_splits)
  qed
  have "verify_checksums_and_signature env ?files [manifest_path, payload] publisher trust = Inr ()"
    unfolding verify_pack_Inr
  proof (intro exI conjI)
    show "bt_get ?files checksums_path = Some cb" "bt_get ?files manifest_path = Some mb"
      "bt_get ?files signature_path = Some (pe_signature_bytes env (pe_sign env sk msg))"
      using p by (auto simp: fs)
    show "pe_parse_checksums env cb = Some ?cs" "pe_verify env (pub sk) msg (pe_sign env sk msg)"
      "pe_signature_from env (pe_signature_bytes env (pe_sign env sk msg)) = Some (pe_sign env sk msg)"
      using c cb by (auto simp: pack_contract_def)
    show "cs_schema_version ?cs = 1" by simp
  qed (use keys dig msg t in blast)+
  moreover have "bt_get ?files manifest_path = Some mb" "bt_get ?files payload = Some pb"
    using p by (auto simp: fs)
  ultimately show ?thesis
    using read_built [OF u d cap, of 0 0] len by (auto simp: read_archive_def ok_or_def fits_def split: if_splits)
qed


section \<open>A concrete instance\<close>

text \<open>Lower-case hexadecimal, and a toy signature of one byte padded to 64.\<close>

definition hex_char :: "nat \<Rightarrow> char" where "hex_char n = ''0123456789abcdef'' ! n"
definition hex_value :: "char \<Rightarrow> nat" where
  "hex_value c = (let n = of_char c in if n < 58 then n - 48 else n - 87)"

fun demo_hex :: "string \<Rightarrow> string" where
  "demo_hex [] = []"
| "demo_hex (c # cs) = hex_char (of_char c div 16) # hex_char (of_char c mod 16) # demo_hex cs"

fun demo_unhex :: "string \<Rightarrow> string option" where
  "demo_unhex [] = Some []"
| "demo_unhex (a # b # cs) = map_option (Cons (char_of (16 * hex_value a + hex_value b))) (demo_unhex cs)"
| "demo_unhex _ = None"

lemma hex_char_facts:
  assumes "n < 16"
  shows "hex_value (hex_char n) = n \<and> is_hex_digit (hex_char n)"
proof -
  have "list_all (\<lambda>n. hex_value (hex_char n) = n \<and> is_hex_digit (hex_char n)) [0..<16]" by code_simp
  then show ?thesis using assms by (simp add: list_all_iff)
qed

lemma demo_hex_facts:
  "demo_unhex (demo_hex s) = Some s \<and> length (demo_hex s) = 2 * length s \<and> list_all is_hex_digit (demo_hex s)"
proof (induction s)
  case (Cons c s)
  have d: "(of_char c :: nat) div 16 < 16" "(of_char c :: nat) mod 16 < 16" by (simp_all add: less_mult_imp_div_less)
  have "16 * ((of_char c :: nat) div 16) + of_char c mod 16 = of_char c" by simp
  then show ?case using Cons hex_char_facts [OF d(1)] hex_char_facts [OF d(2)] by simp
qed simp

definition demo_sign :: "nat \<Rightarrow> string \<Rightarrow> u8" where
  "demo_sign sk msg = of_nat (sk + sum_list (map of_char msg))"

definition demo_payload :: release_payload where
  "demo_payload = \<lparr>rp_schema_version = 3, rp_channel = ''stable'', rp_generated_at = ''now'', rp_publisher_key_id = ''key'',
     rp_artifacts = [\<lparr>ar_kind = ModelArtifact, ar_id = ''model'', ar_version = ''1'', ar_runtime_api_version = 2,
       ar_target_os = None, ar_target_arch = None, ar_target_libc = None, ar_handler_api_version = None,
       ar_min_runtime_version = None, ar_pm_adapter_protocol_version = None, ar_url = ''u'',
       ar_sha256 = replicate 64 (CHR ''0''), ar_size = 1\<rparr>]\<rparr>"

definition demo_model_manifest :: model_manifest where
  "demo_model_manifest = \<lparr>mm_format_version = 1, mm_id = ''m'', mm_version = ''1'', mm_runtime_api_version = 2,
     mm_min_runtime_version = ''1'', mm_publisher_key_id = ''key'', mm_capabilities = [''c'']\<rparr>"

definition demo_module :: string where "demo_module = replicate 32 (CHR ''0'')"

definition demo_handler_manifest :: handler_manifest where
  "demo_handler_manifest = \<lparr>hn_format_version = 1, hn_id = ''h'', hn_version = ''1'', hn_handler_api_version = 1,
     hn_min_runtime_version = ''1'', hn_publisher_key_id = ''key'', hn_capabilities = [''c''],
     hn_module_sha256 = demo_hex demo_module, hn_module_size = 32\<rparr>"

text \<open>Documents are printed as an empty object; what is parsed back is the one document in use.\<close>

definition demo_checksums :: "string \<Rightarrow> string \<Rightarrow> checksums" where
  "demo_checksums payload b = \<lparr>cs_schema_version = 1,
     cs_files = bt_insert payload (demo_hex b) (bt_insert manifest_path (demo_hex ''{}'') bt_empty)\<rparr>"

definition demo_pack_env :: "string \<Rightarrow> string \<Rightarrow> (nat, nat, u8, nat) pack_env" where
  "demo_pack_env payload b = \<lparr>pe_sha256 = (\<lambda>b. b), pe_hex_encode = demo_hex, pe_hex_decode = demo_unhex,
     pe_parse_json = (\<lambda>s. if s = ''{}'' then Some (JObject []) else None), pe_encode_json = (\<lambda>_. Some ''{}''),
     pe_payload_bytes = (\<lambda>_. Some ''{}''), pe_metadata_bytes = (\<lambda>_. Some ''{}''), pe_lifecycle_bytes = (\<lambda>_ _ _. Some ''{}''),
     pe_parse_checksums = (\<lambda>s. Some (demo_checksums payload b)),
     pe_checksums_bytes = (\<lambda>c. if c = demo_checksums payload b then Some ''{}'' else None),
     pe_sign = demo_sign, pe_verify = (\<lambda>k msg sg. sg = demo_sign k msg),
     pe_signature_bytes = (\<lambda>sg. replicate 63 (CHR ''0'') @ [char_of (unat sg)]),
     pe_signature_from = (\<lambda>s. if length s = 64 then Some (of_nat (of_char (s ! 63))) else None),
     pe_key_from = (\<lambda>s. Some (of_char (hd s))), pe_parse_version = (\<lambda>s. Inr (length s)), pe_version_less = (<),
     pe_show_version = (\<lambda>_. ''1''), pe_runtime_version = ''1'',
     pe_parse_model_manifest = (\<lambda>s. Some demo_model_manifest),
     pe_model_manifest_bytes = (\<lambda>m. if m = demo_model_manifest then Some ''{}'' else None),
     pe_parse_handler_manifest = (\<lambda>s. Some demo_handler_manifest),
     pe_handler_manifest_bytes = (\<lambda>m. if m = demo_handler_manifest then Some ''{}'' else None),
     pe_pretty_json = (\<lambda>v. Some ''{}'')\<rparr>"

lemma demo_pack_contract: "pack_contract (demo_pack_env payload b) id"
proof -
  have "unat (sg :: u8) < 256" for sg using unsigned_less [of sg] by simp
  then show ?thesis
    by (simp add: pack_contract_def demo_pack_env_def demo_hex_facts nth_append)
qed

definition demo_trust_key :: trust_key where
  "demo_trust_key = \<lparr>tk_key_id = ''key'', tk_public_key_hex = demo_hex demo_module, tk_role = CurrentKey,
     tk_not_before_unix_ms = 0, tk_not_after_unix_ms = Some 100, tk_revoked_at_unix_ms = None, tk_emergency_revoked = False\<rparr>"

definition demo_trust_metadata :: trust_metadata where
  "demo_trust_metadata = \<lparr>tm_schema_version = 1, tm_metadata_generation = 5, tm_minimum_release_generation = 2,
     tm_keys = [demo_trust_key]\<rparr>"

definition demo_floor :: trust_floor where
  "demo_floor = \<lparr>tf_minimum_metadata_generation = 4, tf_minimum_release_generation = 3, tf_metadata_digest = None\<rparr>"

abbreviation demo_release_env :: "(nat, nat, u8, nat) pack_env" where
  "demo_release_env \<equiv> demo_pack_env model_path ''{}''"

definition demo_release :: signed_release_generation where
  "demo_release = projr (sign_release_index_with_generation demo_release_env demo_payload 7 48)"

definition zip_of :: "(string \<times> string) list \<Rightarrow> zip_entry option list" where
  "zip_of fs = map (\<lambda>(n, b). Some \<lparr>ze_is_dir = False, ze_name = n, ze_size = of_nat (length b),
     ze_compressed_size = of_nat (length b), ze_bytes = Some b\<rparr>) fs"

text \<open>Files stored without compression fit when there are few of them and they are small together.\<close>

lemma zip_of_fits:
  assumes "length fs \<le> 8" "sum_list (map (\<lambda>f. length (snd f)) fs) \<le> 262144"
  shows "fits model_pack_limits (zip_of fs)"
proof -
  have le: "length (snd f) \<le> 262144" if "f \<in> set fs" for f
    using member_le_sum_list [of "length (snd f)" "map (\<lambda>f. length (snd f)) fs"] that assms(2) by simp
  have u: "unat (of_nat (length (snd f)) :: u64) = length (snd f)" if "f \<in> set fs" for f
    using le [OF that] by (simp add: unat_of_nat take_bit_nat_eq_self)
  have d: "declared ze_size (zip_of fs) = sum_list (map (\<lambda>f. length (snd f)) fs)"
    "declared ze_compressed_size (zip_of fs) = sum_list (map (\<lambda>f. length (snd f)) fs)"
    using u by (auto simp: declared_def zip_of_def comp_def split_beta intro!: arg_cong [of _ _ sum_list])
  have "pred_option (entry_fits model_pack_limits) e" if "e \<in> set (zip_of fs)" for e
    using that u le by (auto simp: zip_of_def entry_fits_def model_pack_limits_def word_le_nat_alt)
  then show ?thesis using assms d by (simp add: fits_def fits_after_def) (simp add: model_pack_limits_def zip_of_def)
qed

lemma unzipped_zip_of: "unzipped fs (zip_of fs)"
  by (auto simp: unzipped_def zip_of_def list_all2_conv_all_nth split: prod.splits)

definition demo_model_files :: "(string \<times> string) list" where
  "demo_model_files = projr (build_signed_model_pack demo_release_env demo_model_manifest (JObject []) 48)"

abbreviation demo_handler_env :: "(nat, nat, u8, nat) pack_env" where
  "demo_handler_env \<equiv> demo_pack_env module_path demo_module"

definition demo_handler_files :: "(string \<times> string) list" where
  "demo_handler_files = projr (build_signed_handler_pack demo_handler_env demo_handler_manifest demo_module 48)"

definition demo_store :: "(string, nat) btree" where "demo_store = bt_insert ''key'' 48 bt_empty"

lemma demo_evaluations:
  "sign_release_index_with_generation demo_release_env demo_payload 7 48 = Inr demo_release"
  "build_signed_model_pack demo_release_env demo_model_manifest (JObject []) 48 = Inr demo_model_files"
  "verify_release_index_with_trust_metadata demo_release_env demo_release demo_trust_metadata demo_floor 10 = Inr ()"
  "trust_metadata_validate demo_trust_metadata = Inr ()"
  "check_metadata_floor demo_release_env demo_trust_metadata demo_floor = Inr ()"
  "decode_public_key demo_release_env (tk_public_key_hex demo_trust_key) = Inr (id 48)"
  "\<not> is_err (load_handler_pack demo_handler_env (Some (zip_of demo_handler_files)) demo_store)"
  by code_simp+

section \<open>Properties\<close>

text \<open>
  C22: an accepted release is trusted. When verification against trust metadata succeeds, the publisher
  is a key of the metadata whose validity window contains the present and which is not revoked; both the
  index and its generation are signed by that key; no floor of the consumer or of the metadata is
  undercut, and metadata of the pinned generation has the pinned digest.
\<close>

theorem release_accepted_is_trusted:
  assumes "verify_release_index_with_trust_metadata env e m f now = Inr ()"
  shows "(\<exists>k \<in> set (tm_keys m). \<exists>vk. tk_key_id k = rp_publisher_key_id (sr_payload (sg_index e))
      \<and> tk_not_before_unix_ms k \<le> now \<and> (\<forall>t. tk_not_after_unix_ms k = Some t \<longrightarrow> now < t)
      \<and> (\<forall>t. tk_revoked_at_unix_ms k = Some t \<longrightarrow> now < t) \<and> \<not> tk_emergency_revoked k
      \<and> decode_public_key env (tk_public_key_hex k) = Inr vk
      \<and> signed_by env vk (lifecycle_signing_bytes env e) (sg_lifecycle_signature e)
      \<and> signed_by env vk (payload_message env (sr_payload (sg_index e))) (sr_signature (sg_index e)))
    \<and> tf_minimum_release_generation f \<le> sg_release_generation e
    \<and> tm_minimum_release_generation m \<le> sg_release_generation e
    \<and> tf_minimum_metadata_generation f \<le> tm_metadata_generation m
    \<and> (tm_metadata_generation m = tf_minimum_metadata_generation f \<longrightarrow>
        (\<exists>d. tf_metadata_digest f = Some d \<and> trust_metadata_digest env m = Inr d))"
proof -
  note v = assms [unfolded verify_with_trust_Inr]
  have "tf_minimum_metadata_generation f \<le> tm_metadata_generation m \<and>
    (tm_metadata_generation m = tf_minimum_metadata_generation f \<longrightarrow>
      (\<exists>d. tf_metadata_digest f = Some d \<and> trust_metadata_digest env m = Inr d))"
    using v by (auto simp: check_metadata_floor_def and_then_Inr ok_or_Inr ensure_Inr not_less split: if_splits)
  moreover have "is_active_at k now \<longleftrightarrow> tk_not_before_unix_ms k \<le> now \<and> (\<forall>t. tk_not_after_unix_ms k = Some t \<longrightarrow> now < t)
      \<and> (\<forall>t. tk_revoked_at_unix_ms k = Some t \<longrightarrow> now < t) \<and> \<not> tk_emergency_revoked k" for k
    by (auto simp: is_active_at_def is_none_or_def split: option.splits)
  ultimately show ?thesis using v by blast
qed

theorem release_accepted_is_trusted_witness:
  "\<exists>k \<in> set (tm_keys demo_trust_metadata). \<exists>vk. tk_key_id k = ''key'' \<and> tk_not_before_unix_ms k \<le> 10
    \<and> decode_public_key demo_release_env (tk_public_key_hex k) = Inr vk
    \<and> signed_by demo_release_env vk (lifecycle_signing_bytes demo_release_env demo_release) (sg_lifecycle_signature demo_release)"
proof -
  have "rp_publisher_key_id (sr_payload (sg_index demo_release)) = ''key''" by code_simp
  then show ?thesis using release_accepted_is_trusted [OF demo_evaluations(3)] by (simp only: id_apply) blast
qed

text \<open>
  A release that the publisher signs is accepted. Under the contract of the signature scheme, what is signed
  with the key of an active entry of the metadata verifies, and carries the payload and the generation it was
  signed with, provided that the metadata is valid and passes the stored floor, lists an active current key,
  every key it lists as active decodes, and the generation is at or above the floors of the metadata and
  of the store.
\<close>

theorem signed_release_verifies:
  assumes "pack_contract env pub" and "sign_release_index_with_generation env p generation sk = Inr e"
    and "trust_metadata_validate m = Inr ()" "check_metadata_floor env m f = Inr ()"
    and "\<exists>k \<in> set (tm_keys m). tk_role k = CurrentKey \<and> is_active_at k now"
    and "\<forall>k \<in> set (tm_keys m). is_active_at k now \<longrightarrow> (\<exists>vk. decode_public_key env (tk_public_key_hex k) = Inr vk)"
    and "k \<in> set (tm_keys m)" "tk_key_id k = rp_publisher_key_id p" "is_active_at k now"
    and "decode_public_key env (tk_public_key_hex k) = Inr (pub sk)"
    and "tf_minimum_release_generation f \<le> generation" "tm_minimum_release_generation m \<le> generation"
  shows "sg_release_generation e = generation \<and> sr_payload (sg_index e) = p
    \<and> verify_release_index_with_trust_metadata env e m f now = Inr ()"
proof -
  obtain i pm lm where i: "sign_release_index env p sk = Inr i" and pm: "payload_message env p = Inr pm"
    and p: "validate_release_payload env p = Inr ()"
    and ip: "i = \<lparr>sr_payload = p, sr_signature = pe_hex_encode env (pe_signature_bytes env (pe_sign env sk pm))\<rparr>"
    and lm: "lifecycle_signing_bytes env e = Inr lm"
    and e: "e = \<lparr>sg_schema_version = release_index_lifecycle_schema_version, sg_release_generation = generation,
      sg_index = i, sg_lifecycle_signature = pe_hex_encode env (pe_signature_bytes env (pe_sign env sk lm))\<rparr>"
    using assms(2) by (auto simp: sign_release_index_with_generation_def sign_release_index_def and_then_Inr Let_def
        lifecycle_signing_bytes_def)
  have "release_generation_validate e = Inr ()"
    using assms(1) by (auto simp: e release_generation_validate_def bad_hex_def pack_contract_def ensure_def)
  moreover have "signed_by env (pub sk) (lifecycle_signing_bytes env e) (sg_lifecycle_signature e)"
    unfolding lm using signed_by_sign [OF assms(1)] by (simp add: e)
  moreover have "signed_by env (pub sk) (payload_message env p) (sr_signature i)"
    unfolding pm ip using signed_by_sign [OF assms(1)] by simp
  ultimately show ?thesis
    unfolding verify_with_trust_Inr using assms(3-12) p by (auto simp: e ip)
qed

theorem signed_release_verifies_witness:
  "sg_release_generation demo_release = 7
    \<and> verify_release_index_with_trust_metadata demo_release_env demo_release demo_trust_metadata demo_floor 10 = Inr ()"
proof -
  have k: "tm_keys demo_trust_metadata = [demo_trust_key]" "is_active_at demo_trust_key 10" "tk_role demo_trust_key = CurrentKey"
    "tk_key_id demo_trust_key = rp_publisher_key_id demo_payload"
    "tf_minimum_release_generation demo_floor \<le> 7" "tm_minimum_release_generation demo_trust_metadata \<le> 7"
    by code_simp+
  show ?thesis
    using signed_release_verifies [OF demo_pack_contract demo_evaluations(1,4,5) _ _ _ k(4,2) demo_evaluations(6) k(5,6)]
      k demo_evaluations(6) by (simp only: list.set) blast
qed

text \<open>
  C23: what is built can be loaded. A model pack built for a valid manifest and zipped as it was built is read
  back by a runtime whose trust store holds the signing key under the publisher's name: when its declared sizes
  fit the archive limits, loading fails exactly as the version checks of its manifest do (building does not
  run them), and otherwise returns the same manifest and the same model with a verified signature; when
  they do not fit, loading is refused by a limit.
\<close>

theorem built_model_pack_loads:
  assumes "pack_contract env pub" and "build_signed_model_pack env m model sk = Inr fs" and "unzipped fs es"
    and "bt_get trust (mm_publisher_key_id m) = Some (pub sk)"
    and "\<And>b. pe_pretty_json env model = Some b \<Longrightarrow> pe_parse_json env b = Some model"
  shows "if fits model_pack_limits es
    then case check_versions env ''invalid pack version: '' (mm_version m) (mm_min_runtime_version m) of
        Inl e \<Rightarrow> load_model_pack env (Some es) trust = Inl e
      | Inr _ \<Rightarrow> \<exists>inspection. load_model_pack env (Some es) trust = Inr (\<lparr>mp_manifest = m, mp_model = model\<rparr>, inspection)
          \<and> mi_signature_verified inspection
    else \<exists>w. load_model_pack env (Some es) trust = Inl (PArchive (Limit w))"
proof -
  obtain mb b where v: "model_manifest_validate m = Inr ()" and mb: "pe_model_manifest_bytes env m = Some mb"
    and b: "pe_pretty_json env model = Some b" and fs: "build_signed_archive env mb model_path b sk = Inr fs"
    using assms(2) by (auto simp: build_signed_model_pack_def and_then_Inr ok_or_Inr map_err_Inr)
  have p: "pe_parse_model_manifest env mb = Some m" using assms(1) mb by (auto simp: pack_contract_def)
  have j: "pe_parse_json env b = Some model" by (rule assms(5) [OF b])
  have l: "4 \<le> al_max_files model_pack_limits"
    "unat (al_max_compressed_total_bytes model_pack_limits) * unat (al_max_compression_ratio model_pack_limits) < 2 ^ 64"
    by (simp_all add: model_pack_limits_def)
  note r = built_archive_verifies [OF assms(1) fs assms(3) _ _ l(1) assms(4) l(2), of model_pack_allowed]
  show ?thesis
  proof (cases "fits model_pack_limits es")
    case True
    then obtain files where "read_archive (Some es) model_pack_allowed model_pack_limits = Inr files"
      "bt_get files manifest_path = Some mb" "bt_get files model_path = Some b"
      "verify_checksums_and_signature env files [manifest_path, model_path] (mm_publisher_key_id m) trust = Inr ()"
      using r by (auto simp: model_pack_allowed_def)
    then show ?thesis using True p j v by (auto simp: load_model_pack_def ok_or_def split: sum.splits)
  next
    case False
    then obtain w where "read_archive (Some es) model_pack_allowed model_pack_limits = Inl (Limit w)"
      using r by (auto simp: model_pack_allowed_def)
    then show ?thesis using False by (simp add: load_model_pack_def)
  qed
qed

theorem built_model_pack_loads_witness:
  "\<exists>inspection. load_model_pack demo_release_env (Some (zip_of demo_model_files)) demo_store
      = Inr (\<lparr>mp_manifest = demo_model_manifest, mp_model = JObject []\<rparr>, inspection) \<and> mi_signature_verified inspection"
proof -
  have h: "bt_get demo_store (mm_publisher_key_id demo_model_manifest) = Some (id 48)"
    "check_versions demo_release_env ''invalid pack version: '' (mm_version demo_model_manifest)
       (mm_min_runtime_version demo_model_manifest) = Inr ()"
    and s: "length demo_model_files \<le> 8" "sum_list (map (\<lambda>f. length (snd f)) demo_model_files) \<le> 262144"
    by code_simp+
  have "\<And>b. pe_pretty_json demo_release_env (JObject []) = Some b \<Longrightarrow> pe_parse_json demo_release_env b = Some (JObject [])"
    by (auto simp: demo_pack_env_def)
  from built_model_pack_loads [OF demo_pack_contract demo_evaluations(2) unzipped_zip_of h(1) this] h(2) zip_of_fits [OF s] show ?thesis
    by simp
qed

text \<open>
  A loaded handler pack is authentic. Its publisher is a trusted key which signed the canonical
  manifest and checksums; the checksums cover exactly the manifest and the module, with their digests;
  the manifest is valid, names the digest and the size of the module, and does not ask for a newer runtime.
\<close>

theorem loaded_handler_pack_authentic:
  assumes "load_handler_pack env archive trust = Inr (pack, inspection)"
  shows "\<exists>mb cb cs vk msg raw sg rt mn. bt_get trust (hn_publisher_key_id (hp_manifest pack)) = Some vk
    \<and> pe_parse_handler_manifest env mb = Some (hp_manifest pack) \<and> pe_parse_checksums env cb = Some cs
    \<and> pack_message env mb cb = Inr msg \<and> pe_signature_from env raw = Some sg \<and> pe_verify env vk msg sg
    \<and> dom (bt_get (cs_files cs)) = {manifest_path, module_path}
    \<and> bt_get (cs_files cs) manifest_path = Some (pe_hex_encode env (pe_sha256 env mb))
    \<and> bt_get (cs_files cs) module_path = Some (pe_hex_encode env (pe_sha256 env (hp_module pack)))
    \<and> handler_manifest_validate (hp_manifest pack) = Inr ()
    \<and> hn_module_sha256 (hp_manifest pack) = pe_hex_encode env (pe_sha256 env (hp_module pack))
    \<and> hn_module_size (hp_manifest pack) = of_nat (length (hp_module pack))
    \<and> pe_parse_version env (pe_runtime_version env) = Inr rt
    \<and> pe_parse_version env (hn_min_runtime_version (hp_manifest pack)) = Inr mn \<and> \<not> pe_version_less env rt mn"
proof -
  obtain files mb m where f: "bt_get files manifest_path = Some mb" "pe_parse_handler_manifest env mb = Some m"
    "handler_manifest_validate m = Inr ()"
    "check_versions env ''invalid handler version: '' (hn_version m) (hn_min_runtime_version m) = Inr ()"
    "verify_checksums_and_signature env files [manifest_path, module_path] (hn_publisher_key_id m) trust = Inr ()"
    "bt_get files module_path = Some (hp_module pack)" "check_module env m (hp_module pack) = Inr ()" "hp_manifest pack = m"
    using assms by (auto simp: load_handler_pack_def and_then_Inr ok_or_Inr map_err_Inr)
  from f(5) obtain cb cs raw sg vk msg where v: "pe_parse_checksums env cb = Some cs"
    "bt_keys (cs_files cs) = sort [manifest_path, module_path]"
    "\<forall>e \<in> set (bt_entries (cs_files cs)). check_digest env files e = Inr ()"
    "pe_signature_from env raw = Some sg" "bt_get trust (hn_publisher_key_id m) = Some vk"
    "pack_message env mb cb = Inr msg" "pe_verify env vk msg sg"
    unfolding verify_pack_Inr using f(1) by auto
  have "set (bt_keys (cs_files cs)) = {manifest_path, module_path}" using v(2) by auto
  then have "dom (bt_get (cs_files cs)) = {manifest_path, module_path}" by (simp only: bt_keys_set)
  moreover have "bt_get (cs_files cs) manifest_path = Some (pe_hex_encode env (pe_sha256 env mb))"
    "bt_get (cs_files cs) module_path = Some (pe_hex_encode env (pe_sha256 env (hp_module pack)))"
    using covered_digest [OF v(2) _ v(3), of manifest_path] covered_digest [OF v(2) _ v(3), of module_path] f(1,6) by auto
  moreover obtain rt mn where "pe_parse_version env (pe_runtime_version env) = Inr rt"
    "pe_parse_version env (hn_min_runtime_version m) = Inr mn" "\<not> pe_version_less env rt mn"
    using f(4) by (auto simp: check_versions_def and_then_Inr map_err_Inr split: if_splits)
  moreover have "hn_module_sha256 m = pe_hex_encode env (pe_sha256 env (hp_module pack))"
    "hn_module_size m = of_nat (length (hp_module pack))"
    using f(7) by (auto simp: check_module_def split: if_splits)
  ultimately show ?thesis using v f(2,3,8) by blast
qed

theorem loaded_handler_pack_authentic_witness:
  "\<exists>pack inspection. load_handler_pack demo_handler_env (Some (zip_of demo_handler_files)) demo_store = Inr (pack, inspection)
    \<and> hn_module_size (hp_manifest pack) = of_nat (length (hp_module pack))"
proof -
  obtain pack inspection where
    l: "load_handler_pack demo_handler_env (Some (zip_of demo_handler_files)) demo_store = Inr (pack, inspection)"
    using demo_evaluations(7) by (auto simp: not_is_err_iff)
  then show ?thesis using loaded_handler_pack_authentic [OF l] by blast
qed

text \<open>
  Size limits. What the reader accepts has only allowed and safe names, no file above the file limit
  and no more bytes in all than the total limit, when the archive declares its sizes truly.
\<close>

theorem archive_within_limits:
  assumes "read_archive (Some es) allowed l = Inr files" "honest_sizes es"
  shows "(\<forall>n b. bt_get files n = Some b \<longrightarrow>
      n \<in> set allowed \<and> validate_path n = Inr () \<and> length b \<le> unat (al_max_file_bytes l))
    \<and> total_bytes files \<le> unat (al_max_total_bytes l)"
  using archive_limits_kept [OF assms] by (auto simp: limits_kept_def word_le_nat_alt)

theorem archive_within_limits_witness:
  "\<exists>files. read_archive (Some (zip_of [(model_path, ''{}'')])) model_pack_allowed model_pack_limits = Inr files
    \<and> total_bytes files \<le> 1048576"
proof -
  have "\<not> is_err (read_archive (Some (zip_of [(model_path, ''{}'')])) model_pack_allowed model_pack_limits)" by code_simp
  then obtain files where
    f: "read_archive (Some (zip_of [(model_path, ''{}'')])) model_pack_allowed model_pack_limits = Inr files"
    by (auto simp: not_is_err_iff)
  have "honest_sizes (zip_of [(model_path, ''{}'')])" by (simp add: honest_sizes_def zip_of_def List.map_filter_def)
  then show ?thesis using f archive_within_limits [OF f] by (simp add: model_pack_limits_def)
qed

text \<open>
  The limits bind the declared sizes. What reading an entry yields is not compared with them, so an entry
  that declares one byte may bring more than the file limit.
\<close>

lemma declared_size_not_checked:
  "read_archive (Some [Some \<lparr>ze_is_dir = False, ze_name = model_path, ze_size = 1, ze_compressed_size = 1, ze_bytes = Some b\<rparr>])
     model_pack_allowed model_pack_limits = Inr (bt_insert model_path b bt_empty)"
  by (simp add: read_archive_def ok_or_def read_entry_def model_pack_allowed_def model_pack_limits_def
      checked_mul_u64_def checked_add_u64_def)

end
