(* ===== verification/Runtime_Server.thy ===== *)
theory Runtime_Server imports Protocol_V2 Protocol_V3 Runtime_State Sorted_Search begin

text \<open>
  The stateless runtime: invocation errors, the engine that answers a request
  (\<open>crates/rill-runtime/src/server.rs\<close>), the effective capabilities (\<open>handler/mod.rs\<close>), the built-in
  linear regression (\<open>handler/builtin.rs\<close>) and the serving loop over standard input
  (\<open>bin/rill-runtime.rs\<close>). A handler is a function from capability and input to a result; what the
  log sink receives is part of the result of a request.
\<close>

section \<open>Invocation errors\<close>

datatype invoke_error_kind =
    InvokeInternal | InvokeTimeout | InvokeTrap | InvokeOutputTooLarge | InvokeInvalidOutput
  | InvokeInvalidModel | InvokeInvalidInput | InvokeUnsupportedCapability | InvokeExecutionFailed

record invoke_error =
  ie_kind :: invoke_error_kind
  ie_detail :: "string option"

definition max_detail_bytes :: usize where "max_detail_bytes = 4 * 1024"

definition truncate_to_bytes :: "string \<Rightarrow> usize \<Rightarrow> string" where
  "truncate_to_bytes s n = (if length s \<le> n then s else take (boundary_below s n) s)"

definition invoke_error_new :: "invoke_error_kind \<Rightarrow> invoke_error" where
  "invoke_error_new k = \<lparr>ie_kind = k, ie_detail = None\<rparr>"

definition invoke_error_with_detail :: "invoke_error_kind \<Rightarrow> string \<Rightarrow> invoke_error" where
  "invoke_error_with_detail k d = \<lparr>ie_kind = k, ie_detail = Some (truncate_to_bytes d max_detail_bytes)\<rparr>"

fun stable_code :: "invoke_error_kind \<Rightarrow> string" where
  "stable_code InvokeInternal = handler_internal_error"
| "stable_code InvokeTimeout = handler_timeout"
| "stable_code InvokeTrap = handler_trap"
| "stable_code InvokeOutputTooLarge = handler_output_too_large"
| "stable_code InvokeInvalidOutput = handler_invalid_output"
| "stable_code _ = handler_internal_error"

fun public_message :: "invoke_error_kind \<Rightarrow> string" where
  "public_message InvokeInternal = ''internal runtime error''"
| "public_message InvokeTimeout = ''handler exceeded the wall-clock deadline''"
| "public_message InvokeTrap = ''handler trapped''"
| "public_message InvokeOutputTooLarge = ''handler output exceeded the size limit''"
| "public_message InvokeInvalidOutput = ''handler output was not valid JSON''"
| "public_message InvokeInvalidModel = ''handler rejected the model configuration''"
| "public_message InvokeInvalidInput = ''handler rejected the input''"
| "public_message InvokeUnsupportedCapability = ''handler does not support the capability''"
| "public_message InvokeExecutionFailed = ''handler execution failed''"

definition invoke_retryable :: "invoke_error_kind \<Rightarrow> bool" where
  "invoke_retryable k \<longleftrightarrow> k = InvokeTimeout"

section \<open>Capabilities\<close>

record handler_identity =
  hd_handler_id :: string
  hd_handler_version :: string
  hd_handler_api_version :: u32
  hd_effective_capabilities :: "string list"

definition is_found :: "nat + nat \<Rightarrow> bool" where
  "is_found r \<longleftrightarrow> (case r of Inl _ \<Rightarrow> False | Inr _ \<Rightarrow> True)"

text \<open>An error carries the missing capabilities.\<close>

definition effective_capabilities :: "string list \<Rightarrow> string list \<Rightarrow> string list + string list" where
  "effective_capabilities model handler =
     (let ms = sort model; hs = sort handler; eff = filter (\<lambda>c. is_found (search_key c hs)) ms
      in if length eff \<noteq> length model then Inl (filter (\<lambda>c. \<not> is_found (search_key c hs)) ms) else Inr eff)"

section \<open>The engine\<close>

datatype engine_response =
    EngHandshake string string string string "string list" "handler_identity option"
  | EngHealth string bool string string
  | EngResult string json
  | EngError string string string bool

fun to_v1 :: "u32 \<Rightarrow> engine_response \<Rightarrow> response_v1" where
  "to_v1 v (EngHandshake i rv p pv cs h) = HandshakeV1 i v rv p pv cs"
| "to_v1 v (EngHealth i b p pv) = HealthV1 i v b p pv"
| "to_v1 v (EngResult i x) = ResultV1 i v x"
| "to_v1 v (EngError i c m r) = ErrorV1 i v c m r"

fun to_v2 :: "u32 \<Rightarrow> engine_response \<Rightarrow> response_v2" where
  "to_v2 v (EngHandshake i rv p pv cs (Some h)) =
     HandshakeV2 i v rv p pv cs (hd_handler_id h) (hd_handler_version h) (hd_handler_api_version h) (hd_effective_capabilities h)"
| "to_v2 v (EngHandshake i rv p pv cs None) = HandshakeV2 i v rv p pv cs '''' '''' 0 cs"
| "to_v2 v (EngHealth i b p pv) = HealthV2 i v b p pv"
| "to_v2 v (EngResult i x) = ResultV2 i v x"
| "to_v2 v (EngError i c m r) = ErrorV2 i v c m r"

record runtime_engine =
  ren_manifest :: model_manifest
  ren_invoke_handler :: "(string \<Rightarrow> json \<Rightarrow> invoke_error + json) option"
  ren_handler_identity :: "handler_identity option"
  ren_effective_capabilities :: "string list"

definition runtime_engine_new :: "model_manifest \<Rightarrow> runtime_engine" where
  "runtime_engine_new m = \<lparr>ren_manifest = m, ren_invoke_handler = None, ren_handler_identity = None,
     ren_effective_capabilities = []\<rparr>"

definition with_invoke_handler :: "(string \<Rightarrow> json \<Rightarrow> invoke_error + json) \<Rightarrow> runtime_engine \<Rightarrow> runtime_engine" where
  "with_invoke_handler h e = e\<lparr>ren_invoke_handler := Some h\<rparr>"

definition with_handler_identity :: "handler_identity \<Rightarrow> runtime_engine \<Rightarrow> runtime_engine" where
  "with_handler_identity i e =
     e\<lparr>ren_effective_capabilities := hd_effective_capabilities i, ren_handler_identity := Some i\<rparr>"

definition is_capability_allowed :: "runtime_engine \<Rightarrow> string \<Rightarrow> bool" where
  "is_capability_allowed e c =
     (if ren_effective_capabilities e \<noteq> [] then c \<in> set (ren_effective_capabilities e)
      else c \<in> set (mm_capabilities (ren_manifest e)))"

definition log_line :: "string \<Rightarrow> invoke_error \<Rightarrow> string \<Rightarrow> string" where
  "log_line c err detail =
     ''rill-runtime: invoke '' @ c @ '' -> '' @ stable_code (ie_kind err) @ '' (detail: '' @ detail @ '')''"

text \<open>The response and the lines given to the log sink. The version string is that of the package.\<close>

definition runtime_package_version :: string where "runtime_package_version = ''1.5.6''"

definition handle_invoke :: "runtime_engine \<Rightarrow> string \<Rightarrow> string \<Rightarrow> json \<Rightarrow> engine_response \<times> string list" where
  "handle_invoke e i c input =
     (if \<not> is_capability_allowed e c
      then (EngError i unsupported_capability ''capability is not in the effective set'' False, [])
      else (case ren_invoke_handler e of
          None \<Rightarrow> (EngError i no_invoke_handler ''no invoke handler registered'' False, [])
        | Some h \<Rightarrow> (case h c input of
            Inr out \<Rightarrow> (EngResult i out, [])
          | Inl err \<Rightarrow>
              (EngError i (stable_code (ie_kind err)) (public_message (ie_kind err)) (invoke_retryable (ie_kind err)),
               case ie_detail err of None \<Rightarrow> [] | Some d \<Rightarrow> [log_line c err d]))))"

definition engine_handle :: "runtime_engine \<Rightarrow> ipc_request \<Rightarrow> engine_response \<times> string list" where
  "engine_handle e req =
     (if request_id req = [] \<or> length (request_id req) > 128
      then (EngError (request_id req) invalid_request_id ''invalid request id'' False, [])
      else if \<not> (min_runtime_api_version \<le> api_version req \<and> api_version req \<le> runtime_api_version)
      then (EngError (request_id req) incompatible_api_version ''runtime API version is not supported'' False, [])
      else (case req of
          IpcHandshake i v n w \<Rightarrow>
            if bad_length n 96 \<or> bad_length w 48
            then (EngError i invalid_client_identity ''invalid client identity'' False, [])
            else (EngHandshake i runtime_package_version (mm_id (ren_manifest e)) (mm_version (ren_manifest e))
                    (mm_capabilities (ren_manifest e)) (ren_handler_identity e), [])
        | IpcHealth i v \<Rightarrow> (EngHealth i True (mm_id (ren_manifest e)) (mm_version (ren_manifest e)), [])
        | IpcInvoke i v c input \<Rightarrow> handle_invoke e i c input))"

section \<open>The built-in linear regression\<close>

definition linear_regression_capability :: string where
  "linear_regression_capability = ''rillml.linearRegression.predict''"

record builtin_handler =
  bh_weights :: "f64 list"
  bh_intercept :: f64

text \<open>
  The documents are decoded by \<open>serde\<close>: \<open>decode_model\<close> yields kind, weights and intercept or an error
  text, \<open>decode_input\<close> the features.
\<close>

definition builtin_from_pack ::
    "(json \<Rightarrow> string + string \<times> f64 list \<times> f64) \<Rightarrow> model_manifest \<Rightarrow> json \<Rightarrow> string + builtin_handler" where
  "builtin_from_pack decode_model m model =
     (if mm_capabilities m \<noteq> [linear_regression_capability]
      then Inl (''standalone runtime requires exactly the '' @ linear_regression_capability @ '' capability'')
      else and_then (map_err (\<lambda>t. ''invalid linear-regression model: '' @ t) (decode_model model)) (\<lambda>(kind, ws, b).
        if kind \<noteq> ''linearRegression'' then Inl ''unsupported built-in model kind''
        else if ws = [] \<or> length ws > 65536 then Inl ''linear-regression weights must contain 1..=65536 values''
        else if \<not> is_finite b \<or> (\<exists>w \<in> set ws. \<not> is_finite w)
        then Inl ''linear-regression model values must be finite''
        else Inr \<lparr>bh_weights = ws, bh_intercept = b\<rparr>))"

definition builtin_step :: "f64 \<Rightarrow> f64 \<times> f64 \<Rightarrow> unit + f64" where
  "builtin_step s wx = (let next = s + fst wx * snd wx in if is_finite next then Inr next else Inl ())"

definition builtin_invoke ::
    "(json \<Rightarrow> string + f64 list) \<Rightarrow> builtin_handler \<Rightarrow> string \<Rightarrow> json \<Rightarrow> invoke_error + json" where
  "builtin_invoke decode_input h c input =
     (if c \<noteq> linear_regression_capability
      then Inl (invoke_error_with_detail InvokeInternal (''built-in handler received unsupported capability: '' @ c))
      else and_then (map_err (\<lambda>t. invoke_error_with_detail InvokeInternal (''invalid linear-regression input: '' @ t))
             (decode_input input)) (\<lambda>xs.
        if length xs \<noteq> length (bh_weights h)
        then Inl (invoke_error_with_detail InvokeInternal
          (''expected '' @ decimal (length (bh_weights h)) @ '' features, received '' @ decimal (length xs)))
        else if \<exists>x \<in> set xs. \<not> is_finite x
        then Inl (invoke_error_with_detail InvokeInternal ''linear-regression input values must be finite'')
        else and_then (map_err (\<lambda>_. invoke_error_with_detail InvokeInternal ''linear-regression prediction overflowed'')
               (try_fold builtin_step (bh_intercept h) (zip (bh_weights h) xs))) (\<lambda>p.
          Inr (json_object [(''prediction'', json_of_f64 p)]))))"


section \<open>The serving loop\<close>

abbreviation lf :: char where "lf \<equiv> CHR 0x0A"
abbreviation cr :: char where "cr \<equiv> CHR 0x0D"

text \<open>\<open>take(n).read_until('\n')\<close>: the bytes up to and with the next line feed, but at most \<open>n\<close>.\<close>

definition read_until :: "nat \<Rightarrow> string \<Rightarrow> string \<times> string" where
  "read_until n s =
     (let k = min n (length (takeWhile (\<lambda>c. c \<noteq> lf) s) + 1) in (take k s, drop k s))"

definition strip_eol :: "string \<Rightarrow> string" where
  "strip_eol s = rev (dropWhile (\<lambda>c. c = lf \<or> c = cr) (rev s))"

datatype wire_response = WireV1 response_v1 | WireV2 response_v2

definition respond :: "(string \<Rightarrow> ipc_request option) \<Rightarrow> runtime_engine \<Rightarrow> string \<Rightarrow> wire_response \<times> string list" where
  "respond parse e line =
     (case parse line of
        None \<Rightarrow> (WireV1 (ErrorV1 [] min_runtime_api_version invalid_json ''request is not valid protocol JSON'' False), [])
      | Some req \<Rightarrow> (case engine_handle e req of (r, logs) \<Rightarrow>
          (if runtime_api_version \<le> api_version req then WireV2 (to_v2 (api_version req) r)
           else WireV1 (to_v1 (api_version req) r), logs)))"

function serve :: "(string \<Rightarrow> ipc_request option) \<Rightarrow> runtime_engine \<Rightarrow> string
    \<Rightarrow> (wire_response \<times> string list) list \<times> (string + unit)" where
  "serve parse e input =
     (if input = [] then ([], Inr ())
      else (case read_until (max_message_bytes + 2) input of (line, rest) \<Rightarrow>
        let l = strip_eol line
        in if length l > max_message_bytes then ([], Inl ''IPC message exceeds 1048576 bytes'')
           else if l = [] then serve parse e rest
           else (case serve parse e rest of (rs, out) \<Rightarrow> (respond parse e l # rs, out))))"
  by pat_completeness auto
termination
  by (relation "measure (\<lambda>(parse, e, input). length input)") (auto simp: read_until_def Let_def)

declare serve.simps [simp del]

section \<open>Facts\<close>

lemma frozen_stable_code [simp]: "is_frozen (stable_code k)"
  by (cases k) (simp_all add: is_frozen_def frozen_codes_def)

lemma frozen_codes_all [simp]:
  "is_frozen invalid_request_id" "is_frozen incompatible_api_version" "is_frozen invalid_client_identity"
  "is_frozen unsupported_capability" "is_frozen no_invoke_handler" "is_frozen invalid_json"
  by (simp_all add: is_frozen_def frozen_codes_def)

lemma stable_code_length: "length (stable_code k) \<le> 21"
  by (cases k) (simp_all add: code_defs)

lemma truncate_length: "length (truncate_to_bytes s n) \<le> n"
  using boundary_below_facts(1) [of s n] by (auto simp: truncate_to_bytes_def)

lemma is_found_search: "is_found (search_key c (sort hs)) \<longleftrightarrow> c \<in> set hs"
  using search_key_member [of "sort hs" c] by (auto simp: is_found_def split: sum.splits)

lemma effective_capabilities_eq:
  "effective_capabilities model handler =
     (if set model \<subseteq> set handler then Inr (sort model) else Inl (filter (\<lambda>c. c \<notin> set handler) (sort model)))"
proof -
  have "length (filter (\<lambda>c. c \<in> set handler) (sort model)) = length model \<longleftrightarrow> set model \<subseteq> set handler"
  proof (cases "set model \<subseteq> set handler")
    case True
    then have "filter (\<lambda>c. c \<in> set handler) (sort model) = sort model" by (intro filter_True) auto
    then show ?thesis using True by simp
  next
    case False
    then obtain x where "x \<in> set (sort model)" "x \<notin> set handler" by auto
    from length_filter_less [OF this(1), of "\<lambda>c. c \<in> set handler"] this(2) show ?thesis using False by simp
  qed
  moreover have "set model \<subseteq> set handler \<Longrightarrow> filter (\<lambda>c. c \<in> set handler) (sort model) = sort model"
    by (rule filter_True) auto
  ultimately show ?thesis by (simp add: effective_capabilities_def is_found_search Let_def)
qed

lemma strip_eol_snoc [simp]: "strip_eol (l @ [lf]) = strip_eol l"
  by (simp add: strip_eol_def)

lemma strip_eol_length: "length (strip_eol l) \<le> length l"
  using length_dropWhile_le [of _ "rev l"] by (simp add: strip_eol_def)

lemma read_until_line:
  "lf \<notin> set l \<Longrightarrow> length l < n \<Longrightarrow> read_until n (l @ lf # rest) = (l @ [lf], rest)"
proof -
  assume a: "lf \<notin> set l" "length l < n"
  have "takeWhile (\<lambda>c. c \<noteq> lf) (l @ lf # rest) = l" using a(1) by (subst takeWhile_append2) auto
  then show ?thesis using a(2) by (simp add: read_until_def Let_def)
qed

lemma serve_line:
  assumes "lf \<notin> set l" "length l \<le> max_message_bytes"
  shows "serve parse e (l @ lf # rest) =
    (if strip_eol l = [] then serve parse e rest
     else (respond parse e (strip_eol l) # fst (serve parse e rest), snd (serve parse e rest)))"
proof -
  have "length l < max_message_bytes + 2" using assms(2) by simp
  from read_until_line [OF assms(1) this] have r: "read_until (max_message_bytes + 2) (l @ lf # rest) = (l @ [lf], rest)" .
  have "length (strip_eol l) \<le> max_message_bytes" using strip_eol_length [of l] assms(2) by simp
  then show ?thesis by (subst serve.simps) (simp add: r [simplified] Let_def split_beta)
qed

section \<open>Properties\<close>

text \<open>
  C24: every request is answered. Whatever the parser and the engine do, the loop ends at the end of the
  input and answers the lines of the stream one by one and in order, blank lines aside, as long as no line
  exceeds the frame limit.
\<close>

theorem serve_answers_every_line:
  assumes "\<forall>l \<in> set ls. lf \<notin> set l \<and> length l \<le> max_message_bytes"
  shows "serve parse e (concat (map (\<lambda>l. l @ [lf]) ls)) =
    (map (respond parse e) (filter (\<lambda>l. l \<noteq> []) (map strip_eol ls)), Inr ())"
  using assms
proof (induction ls)
  case Nil
  show ?case by (subst serve.simps) simp
next
  case (Cons l ls)
  then show ?case using serve_line [of l parse e "concat (map (\<lambda>l. l @ [lf]) ls)"] by (simp split: if_splits)
qed


definition demo_server_manifest :: model_manifest where
  "demo_server_manifest = \<lparr>mm_format_version = 1, mm_id = ''m'', mm_version = ''1'', mm_runtime_api_version = 2,
     mm_min_runtime_version = ''1'', mm_publisher_key_id = ''key'', mm_capabilities = [''b'', ''a'']\<rparr>"

theorem serve_answers_every_line_witness:
  "serve (\<lambda>_. None) (runtime_engine_new demo_server_manifest) (concat (map (\<lambda>l. l @ [lf]) [''a'', [cr], ''b'']))
    = (map (respond (\<lambda>_. None) (runtime_engine_new demo_server_manifest)) [''a'', ''b''], Inr ())"
proof -
  have "\<forall>l \<in> set [''a'', [cr], ''b'']. lf \<notin> set l \<and> length l \<le> max_message_bytes"
    by (simp add: max_message_bytes_def)
  from serve_answers_every_line [OF this] show ?thesis by (simp add: strip_eol_def)
qed

text \<open>The fixed texts an error response may carry.\<close>

definition fixed_messages :: "string list" where
  "fixed_messages = [''invalid request id'', ''runtime API version is not supported'', ''invalid client identity'',
     ''capability is not in the effective set'', ''no invoke handler registered'']
     @ map public_message [InvokeInternal, InvokeTimeout, InvokeTrap, InvokeOutputTooLarge, InvokeInvalidOutput,
         InvokeInvalidModel, InvokeInvalidInput, InvokeUnsupportedCapability, InvokeExecutionFailed]"

definition erase_details :: "(string \<Rightarrow> json \<Rightarrow> invoke_error + json) \<Rightarrow> string \<Rightarrow> json \<Rightarrow> invoke_error + json" where
  "erase_details h c x = map_err (\<lambda>err. err\<lparr>ie_detail := None\<rparr>) (h c x)"

lemma public_message_fixed [simp]: "public_message k \<in> set fixed_messages"
  by (cases k) (simp_all add: fixed_messages_def)

lemma fixed_messages_all [simp]:
  "''invalid request id'' \<in> set fixed_messages" "''runtime API version is not supported'' \<in> set fixed_messages"
  "''invalid client identity'' \<in> set fixed_messages" "''capability is not in the effective set'' \<in> set fixed_messages"
  "''no invoke handler registered'' \<in> set fixed_messages"
  by (simp_all add: fixed_messages_def)

text \<open>
  C25: a guest cannot speak through an error. The response is the same when all details are erased from
  what the handler returns; an error response names the request and carries one of the frozen codes and
  one of the fixed messages.
\<close>

theorem error_reveals_no_detail:
  "fst (engine_handle e req)
      = fst (engine_handle (e\<lparr>ren_invoke_handler := map_option erase_details (ren_invoke_handler e)\<rparr>) req)
    \<and> (case fst (engine_handle e req) of
         EngError i c m r \<Rightarrow> i = request_id req \<and> is_frozen c \<and> m \<in> set fixed_messages
       | _ \<Rightarrow> True)"
proof (cases req)
  case (IpcInvoke i v c x)
  show ?thesis
  proof (cases "ren_invoke_handler e")
    case (Some h)
    then show ?thesis
      by (cases "h c x")
        (simp_all add: IpcInvoke engine_handle_def handle_invoke_def is_capability_allowed_def erase_details_def)
  qed (simp add: IpcInvoke engine_handle_def handle_invoke_def is_capability_allowed_def)
qed (simp_all add: engine_handle_def)

definition constructed :: "invoke_error \<Rightarrow> bool" where
  "constructed err \<longleftrightarrow> (\<exists>k d. err = invoke_error_new k \<or> err = invoke_error_with_detail k d)"

lemma log_line_length:
  assumes "constructed err" "ie_detail err = Some d"
  shows "length (log_line c err d) \<le> length c + 4153"
proof -
  obtain k t where "err = invoke_error_with_detail k t"
    using assms by (auto simp: constructed_def invoke_error_new_def)
  then show ?thesis
    using assms(2) stable_code_length [of k] truncate_length [of t max_detail_bytes]
    by (simp add: log_line_def invoke_error_with_detail_def max_detail_bytes_def)
qed

text \<open>
  C26: the capability gate. On an engine built from a valid manifest with the effective capabilities of
  the handler, an invocation that returns a result was for a capability that both the model and the
  handler declare, and the result is what the handler returned; what is logged for any invocation is
  bounded by the length of its capability, at most 96 bytes, and 4153 bytes.
\<close>

theorem invocation_gated:
  assumes "model_manifest_validate m = Inr ()"
    and "effective_capabilities (mm_capabilities m) hcaps = Inr (hd_effective_capabilities ident)"
    and "e = with_handler_identity ident (with_invoke_handler h (runtime_engine_new m))"
    and "\<And>c x err. h c x = Inl err \<Longrightarrow> constructed err"
  shows "(fst (engine_handle e (IpcInvoke i v c x)) = EngResult i' y \<longrightarrow>
      i' = i \<and> c \<in> set (mm_capabilities m) \<and> c \<in> set hcaps \<and> h c x = Inr y)
    \<and> (\<forall>line \<in> set (snd (engine_handle e (IpcInvoke i v c x))). length line \<le> 4249)"
proof -
  have caps: "mm_capabilities m \<noteq> []" "\<forall>c \<in> set (mm_capabilities m). length c \<le> 96"
    using assms(1) by (auto simp: model_manifest_validate_def validate_capability_list_Inr split: if_splits)
  have eff: "hd_effective_capabilities ident = sort (mm_capabilities m)" "set (mm_capabilities m) \<subseteq> set hcaps"
    using assms(2) by (auto simp: effective_capabilities_eq split: if_splits)
  have ne: "sort (mm_capabilities m) \<noteq> []" using caps(1) by (metis set_empty set_sort)
  have e: "is_capability_allowed e c \<longleftrightarrow> c \<in> set (mm_capabilities m)" "ren_invoke_handler e = Some h"
    using ne by (simp_all add: assms(3) with_handler_identity_def with_invoke_handler_def runtime_engine_new_def
        is_capability_allowed_def eff(1))
  show ?thesis
  proof (cases "h c x")
    case (Inl err)
    then have "constructed err" by (rule assms(4))
    note l = log_line_length [OF this]
    have "length (log_line c err d) \<le> 4249" if "ie_detail err = Some d" "c \<in> set (mm_capabilities m)" for d
      using l [OF that(1), of c] caps(2) that(2) by fastforce
    then show ?thesis using e Inl by (auto simp: engine_handle_def handle_invoke_def split: option.splits)
  next
    case (Inr out)
    then show ?thesis using e eff(2) by (auto simp: engine_handle_def handle_invoke_def)
  qed
qed

theorem invocation_gated_witness:
  "let ident = \<lparr>hd_handler_id = ''h'', hd_handler_version = ''1'', hd_handler_api_version = 1, hd_effective_capabilities = [''a'', ''b'']\<rparr>;
     h = (\<lambda>c x. Inr x);
     e = with_handler_identity ident (with_invoke_handler h (runtime_engine_new demo_server_manifest))
   in fst (engine_handle e (IpcInvoke ''1'' 2 ''a'' JNull)) = EngResult ''1'' JNull
     \<and> ''a'' \<in> set (mm_capabilities demo_server_manifest) \<and> ''a'' \<in> set [''c'', ''a'', ''b'']"
proof -
  define ident where "ident = \<lparr>hd_handler_id = ''h'', hd_handler_version = ''1'', hd_handler_api_version = 1,
    hd_effective_capabilities = [''a'', ''b'']\<rparr>"
  define h :: "string \<Rightarrow> json \<Rightarrow> invoke_error + json" where "h = (\<lambda>c x. Inr x)"
  define e where "e = with_handler_identity ident (with_invoke_handler h (runtime_engine_new demo_server_manifest))"
  have "model_manifest_validate demo_server_manifest = Inr ()"
    "effective_capabilities (mm_capabilities demo_server_manifest) [''c'', ''a'', ''b''] = Inr (hd_effective_capabilities ident)"
    unfolding ident_def by code_simp+
  note g = invocation_gated [OF this e_def, of "''1''" 2 "''a''" JNull "''1''" JNull]
  have "fst (engine_handle e (IpcInvoke ''1'' 2 ''a'' JNull)) = EngResult ''1'' JNull"
    unfolding e_def h_def ident_def by code_simp
  with g show ?thesis unfolding Let_def e_def ident_def h_def by simp
qed

text \<open>An identity with no effective capability opens the gate to every capability of the model.\<close>

lemma empty_identity_opens_gate:
  "hd_effective_capabilities ident = [] \<Longrightarrow>
    is_capability_allowed (with_handler_identity ident (runtime_engine_new m)) c \<longleftrightarrow> c \<in> set (mm_capabilities m)"
  by (simp add: is_capability_allowed_def with_handler_identity_def runtime_engine_new_def)

section \<open>The two wire versions\<close>

text \<open>Version 2 extends version 1: dropping the handler fields gives the older response.\<close>

fun v1_of_v2 :: "response_v2 \<Rightarrow> response_v1" where
  "v1_of_v2 (HandshakeV2 i v rv p pv cs h hv ha eff) = HandshakeV1 i v rv p pv cs"
| "v1_of_v2 (HealthV2 i v b p pv) = HealthV1 i v b p pv"
| "v1_of_v2 (ResultV2 i v x) = ResultV1 i v x"
| "v1_of_v2 (ErrorV2 i v c m r) = ErrorV1 i v c m r"

lemma v2_extends_v1: "v1_of_v2 (to_v2 v r) = to_v1 v r"
  by (cases "(v, r)" rule: to_v2.cases) simp_all

end
