(* ===== verification/Preview_Handler.thy ===== *)
theory Preview_Handler imports Runtime_State Stats begin

text \<open>
  The built-in stateful handler of \<open>bin/rill-runtime.rs\<close>: a small contextual learner over opaque action
  names, with its state as a JSON document. Parsing and printing of documents are parameters. Assigning
  to a member of a value that is neither an object nor null panics in \<open>serde_json\<close>; a panic is an
  outcome of its own.
\<close>

section \<open>Documents\<close>

datatype stop = Panicked | Failed handler_error

definition fail_new :: "handler_error_kind \<Rightarrow> stop" where
  "fail_new k = Failed (handler_error_new k)"

definition fail_with :: "handler_error_kind \<Rightarrow> string \<Rightarrow> stop" where
  "fail_with k d = Failed (with_detail k d)"

fun json_set :: "json \<Rightarrow> string \<Rightarrow> json \<Rightarrow> stop + json" where
  "json_set (JObject es) k v = Inr (JObject (put_entry k v es))"
| "json_set JNull k v = Inr (JObject [(k, v)])"
| "json_set _ k v = Inl Panicked"

fun json_as_u64 :: "json \<Rightarrow> u64 option" where
  "json_as_u64 (JNumber (PosInt n)) = Some n"
| "json_as_u64 _ = None"

fun json_as_object :: "json \<Rightarrow> (string \<times> json) list option" where
  "json_as_object (JObject es) = Some es"
| "json_as_object _ = None"

definition get_u64 :: "json \<Rightarrow> string \<Rightarrow> u64 option" where
  "get_u64 v k = Option.bind (json_get v k) json_as_u64"

definition get_str :: "json \<Rightarrow> string \<Rightarrow> string option" where
  "get_str v k = Option.bind (json_get v k) json_as_str"

definition get_f64 :: "json \<Rightarrow> string \<Rightarrow> f64 option" where
  "get_f64 v k = Option.bind (json_get v k) json_as_f64"

definition get_array :: "json \<Rightarrow> string \<Rightarrow> json list option" where
  "get_array v k = Option.bind (json_get v k) json_as_array"

definition get_object :: "json \<Rightarrow> string \<Rightarrow> (string \<times> json) list option" where
  "get_object v k = Option.bind (json_get v k) json_as_object"

definition option_filter :: "('a \<Rightarrow> bool) \<Rightarrow> 'a option \<Rightarrow> 'a option" where
  "option_filter p x = (case x of None \<Rightarrow> None | Some y \<Rightarrow> if p y then Some y else None)"

fun all_numbers :: "json list \<Rightarrow> f64 list option" where
  "all_numbers [] = Some []"
| "all_numbers (x # xs) = (case json_as_f64 x of None \<Rightarrow> None | Some y \<Rightarrow> map_option (Cons y) (all_numbers xs))"

section \<open>Decisions\<close>

type_synonym action_rows = "(string, f64 list) btree"

text \<open>One offered action: its identifier and features.\<close>

definition add_action :: "action_rows \<times> nat option \<Rightarrow> json \<Rightarrow> stop + action_rows \<times> nat option" where
  "add_action st action = (case st of (rows, width) \<Rightarrow>
     and_then (ok_or (option_filter (\<lambda>i. i \<noteq> [] \<and> length i \<le> 96) (get_str action ''id''))
       (fail_with KInvalidEvent ''every action requires a bounded opaque id'')) (\<lambda>i.
     and_then (ok_or (option_filter (\<lambda>f. f \<noteq> [] \<and> length f \<le> 32) (get_array action ''features''))
       (fail_with KInvalidEvent ''every action requires 1..32 features'')) (\<lambda>fs.
       if width \<noteq> None \<and> width \<noteq> Some (length fs)
       then Inl (fail_with KInvalidEvent ''all actions must use the same feature width'')
       else and_then (ok_or (option_filter (list_all is_finite) (all_numbers fs))
              (fail_with KInvalidEvent ''features must be finite numbers'')) (\<lambda>xs.
         if bt_contains rows i then Inl (fail_with KInvalidEvent ''action ids must be unique'')
         else Inr (bt_insert i xs rows, Some (length fs))))))"

definition offered_actions :: "json \<Rightarrow> stop + json list" where
  "offered_actions event =
     and_then (ok_or (Option.bind (json_get event ''context'') (\<lambda>c.
         Option.bind (case json_get c ''actions'' of None \<Rightarrow> json_get c ''arms'' | Some a \<Rightarrow> Some a) json_as_array))
       (fail_with KInvalidEvent ''context.actions is required'')) (\<lambda>as.
       if as = [] \<or> length as > 128
       then Inl (fail_with KInvalidEvent ''actions array is outside the bounded runtime limit'') else Inr as)"

text \<open>The weights of the state, created for the width of the actions.\<close>

definition prepare_weights :: "json \<Rightarrow> nat \<Rightarrow> stop + json \<times> f64 list" where
  "prepare_weights st width =
     and_then (ok_or (get_array st ''weights'') (fail_new KInvalidState)) (\<lambda>ws.
       if ws \<noteq> [] \<and> length ws \<noteq> width
       then Inl (fail_with KInvalidEvent ''feature width does not match the learner model'')
       else and_then (if ws = [] then json_set st ''weights'' (JArray (replicate width (json_of_f64 0))) else Inr st) (\<lambda>st1.
         case get_array st1 ''weights'' of
           None \<Rightarrow> Inl Panicked
         | Some ws1 \<Rightarrow> and_then (ok_or (all_numbers ws1) (fail_new KInvalidState)) (\<lambda>xs. Inr (st1, xs))))"

definition numbers_to_json :: "f64 list \<Rightarrow> json" where
  "numbers_to_json xs = JArray (map json_of_f64 xs)"

text \<open>The stored row of an action takes over the features of the event.\<close>

definition store_row :: "(string \<times> json) list \<Rightarrow> string \<times> f64 list \<Rightarrow> stop + (string \<times> json) list" where
  "store_row stored row = (case row of (i, xs) \<Rightarrow>
     let old = (case map_of stored i of
         None \<Rightarrow> json_object [(''features'', numbers_to_json xs), (''samples'', json_of_u64 0)] | Some r \<Rightarrow> r)
     in and_then (json_set old ''features'' (numbers_to_json xs)) (\<lambda>r. Inr (put_entry i r stored)))"

definition linear_score :: "f64 \<Rightarrow> f64 list \<Rightarrow> f64 list \<Rightarrow> f64" where
  "linear_score bias ws xs = bias + f_sum (map (\<lambda>(w, x). w * x) (zip ws xs))"

type_synonym candidate = "bool \<times> f64 \<times> string"

fun better :: "candidate \<Rightarrow> candidate \<Rightarrow> bool" where
  "better (u, s, i) (u', s', i') \<longleftrightarrow> u \<and> \<not> u' \<or> (u = u' \<and> (s' < s \<or> feq s s' \<and> i < i'))"

definition pick :: "candidate option \<Rightarrow> candidate \<Rightarrow> candidate option" where
  "pick best c = (case best of None \<Rightarrow> Some c | Some b \<Rightarrow> if better c b then Some c else Some b)"

definition candidate_of :: "f64 \<Rightarrow> f64 list \<Rightarrow> (string \<times> json) list \<Rightarrow> string \<times> f64 list \<Rightarrow> candidate" where
  "candidate_of bias ws stored row = (case row of (i, xs) \<Rightarrow>
     let samples = (case Option.bind (map_of stored i) (\<lambda>r. get_u64 r ''samples'') of None \<Rightarrow> 0 | Some n \<Rightarrow> n)
     in (samples = 0, linear_score bias ws xs, i))"

definition record_decision :: "json \<Rightarrow> string option \<Rightarrow> nat \<Rightarrow> u64 option \<Rightarrow> stop + json" where
  "record_decision st selected width seed =
     and_then (json_set st ''lastSelectedActionId'' (json_of_option JString selected)) (\<lambda>st1.
     and_then (json_set st1 ''featureCount'' (json_of_usize width)) (\<lambda>st2.
       case seed of None \<Rightarrow> Inr st2 | Some n \<Rightarrow> json_set st2 ''lastDeterministicSeed'' (json_of_u64 n)))"

definition preview_decide :: "json \<Rightarrow> json \<Rightarrow> u64 option \<Rightarrow> stop + json \<times> string option \<times> json list" where
  "preview_decide event st seed =
     and_then (offered_actions event) (\<lambda>as.
     and_then (try_fold add_action (bt_empty, None) as) (\<lambda>(rows, width).
     and_then (prepare_weights st (case width of None \<Rightarrow> 0 | Some w \<Rightarrow> w)) (\<lambda>(st1, ws).
       let bias = (case get_f64 st1 ''bias'' of None \<Rightarrow> 0 | Some b \<Rightarrow> b)
       in and_then (ok_or (get_object st1 ''actions'') (fail_new KInvalidState)) (\<lambda>stored.
          and_then (try_fold store_row stored (bt_entries rows)) (\<lambda>stored'.
          and_then (json_set st1 ''actions'' (JObject stored')) (\<lambda>st2.
            let cs = map (candidate_of bias ws stored') (bt_entries rows);
                selected = map_option (\<lambda>(u, s, i). i) (fold (\<lambda>c b. pick b c) cs None)
            in and_then (record_decision st2 selected (case width of None \<Rightarrow> 0 | Some w \<Rightarrow> w) seed) (\<lambda>st3.
                 Inr (st3, selected, map (\<lambda>(u, s, i). json_object [(''id'', JString i), (''score'', json_of_f64 s)]) cs))))))))"

section \<open>Feedback\<close>

definition learner_limit :: f64 where "learner_limit = f_of_nat 1000"

definition clamp_learner :: "f64 \<Rightarrow> f64" where
  "clamp_learner x = f_clamp (- learner_limit) learner_limit x"

text \<open>The old weight of a slot plus the step, for the slots that have a feature.\<close>

definition step_weights :: "f64 \<Rightarrow> f64 \<Rightarrow> f64 list \<Rightarrow> f64 list \<Rightarrow> json list \<Rightarrow> json list" where
  "step_weights rate err old xs ws =
     map (\<lambda>(w, x). json_of_f64 (clamp_learner (w + rate * err * x))) (zip old xs) @ drop (min (length old) (length xs)) ws"

definition update_learner :: "json \<Rightarrow> f64 \<Rightarrow> u64 \<Rightarrow> f64 list \<Rightarrow> stop + json" where
  "update_learner st reward samples xs =
     and_then (ok_or (get_array st ''weights'') (fail_new KInvalidState)) (\<lambda>ws.
     and_then (ok_or (all_numbers ws) (fail_new KInvalidState)) (\<lambda>old.
       let bias = (case get_f64 st ''bias'' of None \<Rightarrow> 0 | Some b \<Rightarrow> b);
           rate = f_of_rat (1 / 10) / f_sqrt (f_of_u64 samples);
           err = clamp_learner (reward - linear_score bias old xs)
       in and_then (json_set st ''weights'' (JArray (step_weights rate err old xs ws))) (\<lambda>st1.
            json_set st1 ''bias'' (json_of_f64 (clamp_learner (bias + rate * err))))))"

definition feedback_features :: "json \<Rightarrow> json \<Rightarrow> stop + f64 list" where
  "feedback_features event row =
     and_then (ok_or (case Option.bind (json_get event ''decisionContext'') (\<lambda>c. json_get c ''selectedActionFeatures'') of
         None \<Rightarrow> json_get row ''features'' | Some f \<Rightarrow> Some f) (fail_new KInvalidState)) (\<lambda>features.
       ok_or (Option.bind (json_as_array features) all_numbers) (fail_new KInvalidState))"

definition preview_feedback :: "json \<Rightarrow> json \<Rightarrow> stop + json" where
  "preview_feedback event st =
     and_then (ok_or (option_filter (\<lambda>i. i \<noteq> [] \<and> length i \<le> 96) (get_str event ''selectedActionId''))
       (fail_with KInvalidEvent ''feedback requires selectedActionId'')) (\<lambda>selected.
     and_then (ok_or (option_filter is_finite (get_f64 event ''reward'')) (fail_new KInvalidEvent)) (\<lambda>reward.
     and_then (ok_or (get_object st ''actions'') (fail_new KInvalidState)) (\<lambda>actions.
     and_then (ok_or (map_of actions selected)
       (fail_with KInvalidEvent ''feedback action is not present in the decision ledger'')) (\<lambda>row.
       let samples = saturating_add_u64 (case get_u64 row ''samples'' of None \<Rightarrow> 0 | Some n \<Rightarrow> n) 1
       in and_then (json_set row ''samples'' (json_of_u64 samples)) (\<lambda>row1.
          and_then (json_set row1 ''lastReward'' (json_of_f64 reward)) (\<lambda>row2.
          and_then (json_set st ''actions'' (JObject (put_entry selected row2 actions))) (\<lambda>st1.
          and_then (feedback_features event row2) (\<lambda>xs. update_learner st1 reward samples xs))))))))"

section \<open>The handler\<close>

definition counter_name :: "string \<Rightarrow> string" where
  "counter_name m = (if m = ''observe'' then ''observations'' else if m = ''decide'' then ''decisions''
     else if m = ''feedback'' then ''feedback'' else ''inspections'')"

text \<open>The step on documents: the next state, the selected action and the scores.\<close>

definition preview_step :: "json \<Rightarrow> json \<Rightarrow> u64 option \<Rightarrow> stop + json \<times> string option \<times> json list" where
  "preview_step event st seed =
     (let m = (case get_str event ''method'' of None \<Rightarrow> [] | Some m \<Rightarrow> m);
          c = counter_name m;
          n = saturating_add_u64 (case get_u64 st c of None \<Rightarrow> 0 | Some n \<Rightarrow> n) 1
      in and_then (json_set st c (json_of_u64 n)) (\<lambda>st1.
           if get_u64 st1 ''handlerStateVersion'' \<noteq> Some 2
           then Inl (fail_with KIncompatibleVersion ''contextual learner state version is not supported'')
           else if m = ''decide'' then preview_decide event st1 seed
           else if m = ''feedback'' then and_then (preview_feedback event st1) (\<lambda>st2. Inr (st2, None, []))
           else Inr (st1, None, [])))"

definition preview_handle ::
    "(string \<Rightarrow> json option) \<Rightarrow> (json \<Rightarrow> string option) \<Rightarrow> string \<Rightarrow> string \<Rightarrow> u64 option \<Rightarrow> stop + handler_result" where
  "preview_handle parse encode event_json state_json seed =
     and_then (ok_or (parse state_json) (fail_new KInvalidState)) (\<lambda>st.
     and_then (ok_or (parse event_json) (fail_new KInvalidEvent)) (\<lambda>event.
     and_then (preview_step event st seed) (\<lambda>(st', selected, scores).
       let output = json_object [(''accepted'', JBool True),
             (''method'', JString (case get_str event ''method'' of None \<Rightarrow> [] | Some m \<Rightarrow> m)),
             (''selectedActionId'', json_of_option JString selected), (''scores'', JArray scores),
             (''learner'', JString ''bounded-contextual-linear-v1''), (''stateCounters'', st')]
       in and_then (ok_or (encode st') (fail_new KInternal)) (\<lambda>bytes.
            Inr \<lparr>hr_output = output, hr_next_state = bytes\<rparr>))))"

definition preview_metadata :: handler_metadata where
  "preview_metadata = \<lparr>hm_id = ''rillml.preview.stateful-runtime'', hm_version = ''3.0.0-preview'', hm_api_version = 2,
     hm_capabilities = [''org.rill.preview.observe'', ''org.rill.preview.decide'', ''org.rill.preview.feedback'',
       ''org.rill.preview.inspect'', ''org.rill.preview.snapshot'', ''org.rill.preview.reset''],
     hm_state_schema_version = 2\<rparr>"

definition preview_initial_state :: json where
  "preview_initial_state = json_object [(''handlerStateVersion'', JNumber (PosInt 2)), (''decisions'', JNumber (PosInt 0)),
     (''feedback'', JNumber (PosInt 0)), (''observations'', JNumber (PosInt 0)), (''inspections'', JNumber (PosInt 0)),
     (''weights'', JArray []), (''bias'', JNumber (Float 0)), (''featureCount'', JNumber (PosInt 0)), (''actions'', JObject [])]"


section \<open>The shape of the state\<close>

definition is_row :: "json \<Rightarrow> bool" where
  "is_row r \<longleftrightarrow> (\<exists>es. r = JObject es)"

definition shaped_actions :: "(string \<times> json) list \<Rightarrow> bool" where
  "shaped_actions as \<longleftrightarrow> sorted_wrt (<) (map fst as) \<and> (\<forall>r \<in> snd ` set as. is_row r)"

definition shaped :: "json \<Rightarrow> bool" where
  "shaped st \<longleftrightarrow> (\<exists>es. st = JObject es \<and> sorted_wrt (<) (map fst es)) \<and> get_u64 st ''handlerStateVersion'' = Some 2
     \<and> (\<exists>ws. get_array st ''weights'' = Some ws) \<and> (\<exists>as. get_object st ''actions'' = Some as \<and> shaped_actions as)"

lemma json_set_object:
  assumes "sorted_wrt (<) (map fst es)" "json_set (JObject es) k v = Inr st'"
  shows "\<exists>es'. st' = JObject es' \<and> sorted_wrt (<) (map fst es')"
    "json_get st' k' = (if k' = k then Some v else json_get (JObject es) k')"
  using assms strict_put_entry [OF assms(1)] by (auto simp: map_of_put_entry)

lemma shaped_object: "shaped st \<Longrightarrow> \<exists>es. st = JObject es \<and> sorted_wrt (<) (map fst es)"
  by (simp add: shaped_def)

lemma shaped_set_ok: "shaped st \<Longrightarrow> \<exists>st'. json_set st k v = Inr st'"
  using shaped_object by fastforce

lemma json_get_set:
  "shaped st \<Longrightarrow> json_set st k v = Inr st' \<Longrightarrow> json_get st' k' = (if k' = k then Some v else json_get st k')"
  using shaped_object json_set_object(2) by blast

lemma shaped_set:
  assumes "shaped st" "json_set st k v = Inr st'"
    and "k = ''handlerStateVersion'' \<Longrightarrow> json_as_u64 v = Some 2"
    and "k = ''weights'' \<Longrightarrow> \<exists>ws. v = JArray ws"
    and "k = ''actions'' \<Longrightarrow> \<exists>as. v = JObject as \<and> shaped_actions as"
  shows "shaped st'"
proof -
  obtain es where es: "st = JObject es" "sorted_wrt (<) (map fst es)" using shaped_object [OF assms(1)] by blast
  note g = json_get_set [OF assms(1,2)]
  show ?thesis
    using assms(1,3-5) json_set_object(1) [OF es(2) assms(2) [unfolded es(1)]]
    by (auto simp: shaped_def get_u64_def get_array_def get_object_def g)
qed

lemma counter_not_key: "counter_name m \<noteq> ''handlerStateVersion''" "counter_name m \<noteq> ''weights''" "counter_name m \<noteq> ''actions''"
  by (simp_all add: counter_name_def)

lemma put_row_shaped:
  assumes "shaped_actions as" "is_row r"
  shows "shaped_actions (put_entry i r as)"
proof -
  have "snd ` set (put_entry i r as) \<subseteq> insert r (snd ` set as)"
    by (induction as) (auto simp: not_less)
  then have "\<forall>r' \<in> snd ` set (put_entry i r as). is_row r'" using assms unfolding shaped_actions_def by blast
  then show ?thesis using assms strict_put_entry [of as i r] by (simp add: shaped_actions_def)
qed

lemma row_of: "shaped_actions as \<Longrightarrow> map_of as i = Some r \<Longrightarrow> is_row r"
  using map_of_SomeD [of as i r] by (force simp: shaped_actions_def)

lemma row_set: "is_row r \<Longrightarrow> \<exists>r'. json_set r k v = Inr r' \<and> is_row r'"
  by (auto simp: is_row_def)

text \<open>Storing the rows never panics on shaped rows.\<close>

lemma store_rows_shaped:
  assumes "shaped_actions as"
  shows "\<exists>as'. try_fold store_row as rows = Inr as' \<and> shaped_actions as'"
  using assms
proof (induction rows arbitrary: as)
  case (Cons row rows)
  obtain i xs where row: "row = (i, xs)" by fastforce
  let ?old = "case map_of as i of None \<Rightarrow> json_object [(''features'', numbers_to_json xs), (''samples'', json_of_u64 0)] | Some r \<Rightarrow> r"
  have "is_row ?old" using row_of [OF Cons.prems] by (auto simp: is_row_def json_object_def split: option.splits)
  then obtain r' where r: "json_set ?old ''features'' (numbers_to_json xs) = Inr r'" "is_row r'" using row_set by blast
  have "shaped_actions (put_entry i r' as)" by (rule put_row_shaped [OF Cons.prems r(2)])
  from Cons.IH [OF this] show ?case using r(1) by (simp add: row store_row_def)
qed simp

text \<open>The outcome is an error of the handler or a value with a property, never a panic.\<close>

definition settles :: "('a \<Rightarrow> bool) \<Rightarrow> stop + 'a \<Rightarrow> bool" where
  "settles I m \<longleftrightarrow> m \<noteq> Inl Panicked \<and> (\<forall>x. m = Inr x \<longrightarrow> I x)"

lemma settles_simps [simp]: "settles I (Inr x) \<longleftrightarrow> I x" "settles I (Inl e) \<longleftrightarrow> e \<noteq> Panicked"
  by (auto simp: settles_def)

lemma fail_not_panic [simp]: "fail_new k \<noteq> Panicked" "fail_with k d \<noteq> Panicked"
  by (simp_all add: fail_new_def fail_with_def)

lemma settles_bind:
  assumes "settles Q m" "\<And>x. Q x \<Longrightarrow> settles I (f x)"
  shows "settles I (and_then m f)"
proof (cases m)
  case (Inl e)
  then show ?thesis using assms(1) by simp
next
  case (Inr x)
  then show ?thesis using assms by simp
qed

lemma settles_if: "(b \<Longrightarrow> settles I x) \<Longrightarrow> (\<not> b \<Longrightarrow> settles I y) \<Longrightarrow> settles I (if b then x else y)"
  by simp

lemma settles_ok_or: "e \<noteq> Panicked \<Longrightarrow> settles (\<lambda>x. v = Some x) (ok_or v e)"
  by (cases v) (simp_all add: ok_or_def)

lemma settles_set: "shaped st \<Longrightarrow> settles (\<lambda>st'. json_set st k v = Inr st') (json_set st k v)"
  using shaped_set_ok [of st k v] by auto

lemma settles_plain_set:
  "shaped st \<Longrightarrow> k \<notin> {''handlerStateVersion'', ''weights'', ''actions''} \<Longrightarrow> settles shaped (json_set st k v)"
  using shaped_set_ok [of st k v] shaped_set [of st k v] by auto

lemma settles_weights: "shaped st \<Longrightarrow> settles shaped (json_set st ''weights'' (JArray ws))"
  using shaped_set_ok [of st "''weights''" "JArray ws"] shaped_set [of st "''weights''" "JArray ws"] by auto

lemma settles_actions: "shaped st \<Longrightarrow> shaped_actions as \<Longrightarrow> settles shaped (json_set st ''actions'' (JObject as))"
  using shaped_set_ok [of st "''actions''" "JObject as"] shaped_set [of st "''actions''" "JObject as"] by auto

lemma settles_add_actions: "settles (\<lambda>_. True) (try_fold add_action s as)"
proof (induction as arbitrary: s)
  case (Cons a as)
  have "settles (\<lambda>_. True) (add_action s a)"
    by (cases s) (auto simp: settles_def add_action_def and_then_Inl ok_or_Inl fail_not_panic [symmetric] split: if_splits)
  then show ?case using Cons.IH by (auto intro: settles_bind)
qed simp

lemma settles_prepare:
  assumes "shaped st"
  shows "settles (\<lambda>(st1, ws). shaped st1) (prepare_weights st width)"
  unfolding prepare_weights_def
proof (rule settles_bind [OF settles_ok_or], simp)
  fix ws assume ws: "get_array st ''weights'' = Some ws"
  have s: "settles shaped (if ws = [] then json_set st ''weights'' (JArray (replicate width (json_of_f64 0))) else Inr st)"
    using assms settles_weights by simp
  have "settles (\<lambda>(st1, ws). shaped st1)
      (case get_array st1 ''weights'' of None \<Rightarrow> Inl Panicked
       | Some ws1 \<Rightarrow> and_then (ok_or (all_numbers ws1) (fail_new KInvalidState)) (\<lambda>xs. Inr (st1, xs)))"
    if st1: "shaped st1" for st1
  proof -
    obtain ws1 where "get_array st1 ''weights'' = Some ws1" using st1 by (auto simp: shaped_def)
    then show ?thesis using st1 by (auto intro: settles_bind [OF settles_ok_or])
  qed
  note inner = settles_bind [OF s this]
  show "settles (\<lambda>(st1, ws). shaped st1)
      (if ws \<noteq> [] \<and> length ws \<noteq> width
       then Inl (fail_with KInvalidEvent ''feature width does not match the learner model'')
       else and_then (if ws = [] then json_set st ''weights'' (JArray (replicate width (json_of_f64 0))) else Inr st) (\<lambda>st1.
         case get_array st1 ''weights'' of None \<Rightarrow> Inl Panicked
         | Some ws1 \<Rightarrow> and_then (ok_or (all_numbers ws1) (fail_new KInvalidState)) (\<lambda>xs. Inr (st1, xs))))"
    by (rule settles_if, simp, rule inner)
qed

lemma settles_record: "shaped st \<Longrightarrow> settles shaped (record_decision st selected width seed)"
  unfolding record_decision_def
  by (rule settles_bind [OF settles_plain_set], simp, simp, rule settles_bind [OF settles_plain_set], simp, simp)
    (auto intro: settles_plain_set split: option.splits)

lemma settles_decide:
  assumes "shaped st"
  shows "settles (\<lambda>(st', sel, scores). shaped st') (preview_decide event st seed)"
proof -
  have o: "settles (\<lambda>_. True) (offered_actions event)"
    by (auto simp: offered_actions_def intro: settles_bind [OF settles_ok_or])
  have finish: "settles (\<lambda>(st', sel, scores). shaped st')
      (and_then (json_set st1 ''actions'' (JObject stored')) (\<lambda>st2.
         and_then (record_decision st2 (sel stored') w seed) (\<lambda>st3. Inr (st3, sel stored', scores stored'))))"
    if "shaped st1" "shaped_actions stored'" for st1 stored' w and sel :: "(string \<times> json) list \<Rightarrow> string option"
      and scores :: "(string \<times> json) list \<Rightarrow> json list"
    by (rule settles_bind [OF settles_actions [OF that]], rule settles_bind [OF settles_record]) simp_all
  show ?thesis
    unfolding preview_decide_def Let_def
  proof (rule settles_bind [OF o], rule settles_bind [OF settles_add_actions], clarify,
      rule settles_bind [OF settles_prepare [OF assms]], clarify, rule settles_bind [OF settles_ok_or], simp)
    fix rows :: action_rows and width :: "nat option" and st1 ws stored
    assume st1: "shaped st1" and stored: "get_object st1 ''actions'' = Some stored"
    have "shaped_actions stored" using st1 stored by (auto simp: shaped_def)
    from store_rows_shaped [OF this, of "bt_entries rows"]
    have r: "settles shaped_actions (try_fold store_row stored (bt_entries rows))" by auto
    show "settles (\<lambda>(st', sel, scores). shaped st') (and_then (try_fold store_row stored (bt_entries rows)) (\<lambda>stored'.
        and_then (json_set st1 ''actions'' (JObject stored')) (\<lambda>st2.
          and_then (record_decision st2 (map_option (\<lambda>(u, s, i). i) (fold (\<lambda>c b. pick b c)
              (map (candidate_of (case get_f64 st1 ''bias'' of None \<Rightarrow> 0 | Some b \<Rightarrow> b) ws stored') (bt_entries rows)) None))
            (case width of None \<Rightarrow> 0 | Some w \<Rightarrow> w) seed) (\<lambda>st3.
              Inr (st3, map_option (\<lambda>(u, s, i). i) (fold (\<lambda>c b. pick b c)
                  (map (candidate_of (case get_f64 st1 ''bias'' of None \<Rightarrow> 0 | Some b \<Rightarrow> b) ws stored') (bt_entries rows)) None),
                map (\<lambda>(u, s, i). json_object [(''id'', JString i), (''score'', json_of_f64 s)])
                  (map (candidate_of (case get_f64 st1 ''bias'' of None \<Rightarrow> 0 | Some b \<Rightarrow> b) ws stored') (bt_entries rows)))))))"
      by (rule settles_bind [OF r finish [OF st1]])
  qed
qed

lemma settles_row: "is_row r \<Longrightarrow> settles is_row (json_set r k v)"
  using row_set [of r k v] by auto

lemma settles_features: "settles (\<lambda>_. True) (feedback_features event row)"
  unfolding feedback_features_def
  by (rule settles_bind [OF settles_ok_or], simp)
    (auto simp: settles_def ok_or_Inl fail_not_panic [symmetric])

lemma settles_learner: "shaped st \<Longrightarrow> settles shaped (update_learner st reward samples xs)"
  unfolding update_learner_def Let_def
  by (rule settles_bind [OF settles_ok_or], simp, rule settles_bind [OF settles_ok_or], simp,
      rule settles_bind [OF settles_weights], simp, rule settles_plain_set) simp_all

lemma settles_feedback:
  assumes "shaped st"
  shows "settles shaped (preview_feedback event st)"
  unfolding preview_feedback_def Let_def
proof (rule settles_bind [OF settles_ok_or], simp, rule settles_bind [OF settles_ok_or], simp,
    rule settles_bind [OF settles_ok_or], simp, rule settles_bind [OF settles_ok_or], simp)
  fix selected :: string and reward :: f64 and actions row and samples :: u64
  assume "get_object st ''actions'' = Some actions" and r: "map_of actions selected = Some row"
  then have as: "shaped_actions actions" using assms by (auto simp: shaped_def)
  have k: "settles shaped (and_then (json_set row ''samples'' v) (\<lambda>row1.
      and_then (json_set row1 ''lastReward'' w) (\<lambda>row2.
      and_then (json_set st ''actions'' (JObject (put_entry selected row2 actions))) (\<lambda>st1.
      and_then (feedback_features event row2) (\<lambda>xs. update_learner st1 reward samples xs)))))" for v w samples
    by (rule settles_bind [OF settles_row [OF row_of [OF as r]]], rule settles_bind [OF settles_row], assumption,
        rule settles_bind [OF settles_actions [OF assms put_row_shaped [OF as]]], assumption,
        rule settles_bind [OF settles_features], rule settles_learner)
  show "settles shaped (and_then (json_set row ''samples''
      (json_of_u64 (saturating_add_u64 (case get_u64 row ''samples'' of None \<Rightarrow> 0 | Some n \<Rightarrow> n) 1))) (\<lambda>row1.
      and_then (json_set row1 ''lastReward'' (json_of_f64 reward)) (\<lambda>row2.
      and_then (json_set st ''actions'' (JObject (put_entry selected row2 actions))) (\<lambda>st1.
      and_then (feedback_features event row2)
        (update_learner st1 reward (saturating_add_u64 (case get_u64 row ''samples'' of None \<Rightarrow> 0 | Some n \<Rightarrow> n) 1))))))"
    by (rule k)
qed

text \<open>
  C27: the learner's state keeps its shape. From an object of version 2 with an array of weights and
  objects as action rows, no event, however malformed, makes the handler panic, and every state it
  returns has this shape again; the initial state has it.
\<close>

theorem preview_state_typed:
  assumes "shaped st"
  shows "preview_step event st seed \<noteq> Inl Panicked
    \<and> (\<forall>st' selected scores. preview_step event st seed = Inr (st', selected, scores) \<longrightarrow> shaped st')
    \<and> shaped preview_initial_state"
proof -
  have i: "shaped preview_initial_state"
    by (simp add: shaped_def shaped_actions_def preview_initial_state_def json_object_def get_u64_def get_array_def get_object_def)
  have c: "settles shaped (json_set st (counter_name m) v)" for m v
    using settles_plain_set [OF assms] counter_not_key [of m] by auto
  have "settles (\<lambda>(st', sel, scores). shaped st') (preview_step event st seed)"
    unfolding preview_step_def Let_def
    by (rule settles_bind [OF c], intro settles_if)
      (auto intro: settles_decide settles_bind [OF settles_feedback])
  then show ?thesis using i by (auto simp: settles_def)
qed


definition offer :: "string \<Rightarrow> f64 list \<Rightarrow> json" where
  "offer i xs = json_object [(''id'', JString i), (''features'', numbers_to_json xs)]"

definition decide_event :: "json list \<Rightarrow> json" where
  "decide_event as = json_object [(''method'', JString ''decide''), (''context'', json_object [(''actions'', JArray as)])]"

definition feedback_event :: "string \<Rightarrow> f64 \<Rightarrow> json" where
  "feedback_event i reward = json_object [(''method'', JString ''feedback''), (''selectedActionId'', JString i),
     (''reward'', json_of_f64 reward)]"

lemma preview_state_typed_witness:
  "preview_step (feedback_event ''a'' 1) preview_initial_state None \<noteq> Inl Panicked"
proof -
  have "shaped preview_initial_state"
    by (simp add: shaped_def shaped_actions_def preview_initial_state_def json_object_def get_u64_def get_array_def get_object_def)
  from preview_state_typed [OF this] show ?thesis by blast
qed

text \<open>A restored state that is valid JSON but no object makes the next event panic.\<close>

lemma array_state_panics: "preview_step event (JArray xs) seed = Inl Panicked"
  by (simp add: preview_step_def Let_def)

text \<open>
  The weights are clamped, but a score may overflow both ways: with two weights at the limit, features
  large enough and of opposite signs have no number as their score. The next feedback on such an action
  stores null for every weight, after which every decision is refused.
\<close>

lemma times_overflow:
  "is_finite x \<Longrightarrow> is_finite y \<Longrightarrow> overflows (rnd (f_val x * f_val y)) \<Longrightarrow>
     x * y = (if rnd (f_val x * f_val y) < 0 then f_neg_inf else f_inf)"
  by transfer (auto simp: fp_times_def fp_round_def Let_def)

lemma nan_facts [simp]:
  "f_nan + x = f_nan" "x + f_nan = f_nan" "x - f_nan = f_nan" "x * f_nan = f_nan" "f_nan * x = f_nan"
  "f_inf + f_neg_inf = f_nan" "\<not> f_nan < x" "\<not> x < f_nan" "\<not> is_finite f_nan"
  by (transfer; simp add: fp_plus_def fp_times_def fp_less_def)+

lemma clamp_nan [simp]: "clamp_learner f_nan = f_nan"
  by (simp add: clamp_learner_def f_clamp_def)

lemma opposite_features_no_score:
  assumes "is_finite x" "0 < f_val x" "overflows (rnd (1000 * f_val x))" "is_finite b"
  shows "linear_score b [learner_limit, learner_limit] [x, - x] = f_nan"
proof -
  have l: "is_finite learner_limit" "f_val learner_limit = 1000" by code_simp+
  have p: "0 \<le> rnd (1000 * f_val x)" using assms(2) by (intro rnd_pos) simp
  have "0 < rnd (1000 * f_val x)" using p assms(3) by (cases "rnd (1000 * f_val x) = 0") auto
  then have "learner_limit * x = f_inf" "learner_limit * - x = f_neg_inf"
    using times_overflow [OF l(1) assms(1)] times_overflow [OF l(1), of "- x"] assms(1,3) l(2) by simp_all
  moreover have "- 0 + f_inf = f_inf" by transfer (simp add: fp_plus_def)
  ultimately show ?thesis by (simp add: linear_score_def f_sum_def)
qed

lemma no_score_poisons:
  assumes "linear_score b old xs = f_nan" "length old = length xs" "length ws = length xs"
  shows "step_weights rate (clamp_learner (reward - linear_score b old xs)) old xs ws = replicate (length xs) JNull"
proof -
  have "map (\<lambda>(w, x). json_of_f64 (clamp_learner (w + rate * f_nan * x))) (zip old xs) = replicate (length xs) JNull"
    using assms(2) by (intro replicate_eqI) (auto simp: json_of_f64_def)
  then show ?thesis using assms by (simp add: step_weights_def)
qed

lemma null_weights_refused: "get_array st ''weights'' = Some (JNull # ws) \<Longrightarrow> \<exists>e. prepare_weights st width = Inl e"
  by (auto simp: prepare_weights_def ok_or_def)

section \<open>The selection\<close>

definition sound_candidate :: "candidate \<Rightarrow> bool" where
  "sound_candidate c \<longleftrightarrow> is_finite (fst (snd c))"

lemma better_finite:
  "is_finite s \<Longrightarrow> is_finite s' \<Longrightarrow> better (u, s, i) (u', s', i') \<longleftrightarrow>
     u \<and> \<not> u' \<or> (u = u' \<and> (f_val s' < f_val s \<or> f_val s = f_val s' \<and> i < i'))"
  by (simp add: less_finite feq_finite)

lemma pick_best:
  assumes "\<forall>c \<in> set (b # cs). sound_candidate c"
  shows "\<exists>d. fold (\<lambda>c b. pick b c) cs (Some b) = Some d \<and> d \<in> set (b # cs) \<and> (\<forall>c \<in> set (b # cs). \<not> better c d)"
  using assms
proof (induction cs arbitrary: b)
  case Nil
  then show ?case by (cases b) (auto simp: sound_candidate_def better_finite simp del: better.simps)
next
  case (Cons c cs)
  define d where "d = (if better c b then c else b)"
  have d: "\<forall>x \<in> set (d # cs). sound_candidate x" "d \<in> {b, c}" using Cons.prems by (auto simp: d_def)
  from Cons.IH [OF d(1)] obtain e where e: "fold (\<lambda>c b. pick b c) cs (Some d) = Some e" "e \<in> set (d # cs)"
    "\<forall>x \<in> set (d # cs). \<not> better x e" by blast
  have se: "sound_candidate e" using e(2) d(1) by auto
  have "\<not> better b e \<and> \<not> better c e"
  proof -
    obtain u1 s1 i1 u2 s2 i2 u3 s3 i3 where t: "b = (u1, s1, i1)" "c = (u2, s2, i2)" "e = (u3, s3, i3)"
      by (metis surj_pair)
    have f: "is_finite s1" "is_finite s2" "is_finite s3" using Cons.prems se by (simp_all add: t sound_candidate_def)
    have "\<not> better d e" using e(3) by simp
    then show ?thesis
      using f unfolding d_def t by (auto simp: better_finite simp del: better.simps split: if_splits)
  qed
  moreover have "fold (\<lambda>c b. pick b c) (c # cs) (Some b) = fold (\<lambda>c b. pick b c) cs (Some d)"
    by (simp add: pick_def d_def)
  ultimately show ?case using e d(2) by (intro exI [of _ e]) (auto simp del: better.simps fold.simps)
qed

text \<open>
  What the selection promises is stated on the event and the state as they came in: the name and the features of an
  offered action, the samples the state has for it, and its score under the weights of the state (zeros before
  the first decision).
\<close>

definition action_id :: "json \<Rightarrow> string" where
  "action_id a = (case get_str a ''id'' of None \<Rightarrow> [] | Some i \<Rightarrow> i)"

definition action_features :: "json \<Rightarrow> f64 list" where
  "action_features a = (case Option.bind (get_array a ''features'') all_numbers of None \<Rightarrow> [] | Some xs \<Rightarrow> xs)"

definition row_samples :: "(string \<times> json) list \<Rightarrow> string \<Rightarrow> u64" where
  "row_samples stored i = (case Option.bind (map_of stored i) (\<lambda>r. get_u64 r ''samples'') of None \<Rightarrow> 0 | Some n \<Rightarrow> n)"

definition action_samples :: "json \<Rightarrow> json \<Rightarrow> u64" where
  "action_samples st a = (case get_object st ''actions'' of None \<Rightarrow> 0 | Some stored \<Rightarrow> row_samples stored (action_id a))"

definition state_bias :: "json \<Rightarrow> f64" where
  "state_bias st = (case get_f64 st ''bias'' of None \<Rightarrow> 0 | Some b \<Rightarrow> b)"

definition state_weights :: "json \<Rightarrow> nat \<Rightarrow> f64 list" where
  "state_weights st width = (case get_array st ''weights'' of None \<Rightarrow> []
     | Some ws \<Rightarrow> if ws = [] then replicate width 0 else (case all_numbers ws of None \<Rightarrow> [] | Some xs \<Rightarrow> xs))"

definition action_score :: "json \<Rightarrow> json \<Rightarrow> f64" where
  "action_score st a =
     linear_score (state_bias st) (state_weights st (length (action_features a))) (action_features a)"

lemma all_numbers_length: "all_numbers vs = Some xs \<Longrightarrow> length vs = length xs"
  by (induction vs arbitrary: xs) (auto split: option.splits)

lemma all_numbers_zeros: "all_numbers (replicate n (json_of_f64 0)) = Some (replicate n 0)"
  by (induction n) (simp_all add: json_of_f64_def)

lemma add_action_Inr:
  assumes "add_action (rows, width) a = Inr s"
  shows "\<not> bt_contains rows (action_id a)
    \<and> s = (bt_insert (action_id a) (action_features a) rows, Some (length (action_features a)))
    \<and> (width = None \<or> width = Some (length (action_features a))) \<and> get_str a ''id'' = Some (action_id a)"
  using assms
  by (auto simp: add_action_def action_id_def action_features_def and_then_Inr ok_or_Inr option_filter_def all_numbers_length
      split: option.splits if_splits)

lemma entries_insert:
  "\<not> bt_contains rows i \<Longrightarrow> set (bt_entries (bt_insert i xs rows)) = insert (i, xs) (set (bt_entries rows))"
  by (auto simp: bt_get_iff [symmetric] bt_contains_iff split: if_splits)

text \<open>The rows of a decision are the offered actions, all of one width.\<close>

lemma add_actions_rows:
  assumes "try_fold add_action (rows0, width0) as = Inr (rows, width)"
  shows "set (bt_entries rows) = set (bt_entries rows0) \<union> (\<lambda>a. (action_id a, action_features a)) ` set as
    \<and> (width0 = None \<or> width = width0) \<and> (\<forall>a \<in> set as. width = Some (length (action_features a)))"
  using assms
proof (induction as arbitrary: rows0 width0)
  case (Cons a as)
  from Cons.prems obtain s where s: "add_action (rows0, width0) a = Inr s" "try_fold add_action s as = Inr (rows, width)"
    by (auto simp: and_then_Inr)
  note a = add_action_Inr [OF s(1)]
  show ?case using Cons.IH [of "fst s" "snd s"] s(2) a by (auto simp: entries_insert)
qed simp

lemma map_of_put_other: "k' \<noteq> k \<Longrightarrow> map_of (put_entry k v es) k' = map_of es k'"
  by (induction es) auto

lemma map_of_put_same: "map_of (put_entry k v es) k = Some v"
  by (induction es) auto

lemma json_set_other: "json_set r k v = Inr r' \<Longrightarrow> k' \<noteq> k \<Longrightarrow> get_u64 r' k' = get_u64 r k'"
  by (cases "(r, k, v)" rule: json_set.cases) (auto simp: get_u64_def map_of_put_other)

text \<open>Storing the features of the event leaves the sample counts alone; a new row has none.\<close>

lemma store_rows_samples:
  assumes "try_fold store_row stored rows = Inr stored'"
  shows "row_samples stored' i = row_samples stored i"
  using assms
proof (induction rows arbitrary: stored)
  case (Cons row rows)
  obtain j xs where row: "row = (j, xs)" by fastforce
  let ?old = "case map_of stored j of
    None \<Rightarrow> json_object [(''features'', numbers_to_json xs), (''samples'', json_of_u64 0)] | Some r \<Rightarrow> r"
  from Cons.prems obtain s where s: "store_row stored (j, xs) = Inr s" "try_fold store_row s rows = Inr stored'"
    by (auto simp: row and_then_Inr)
  then obtain r where r: "json_set ?old ''features'' (numbers_to_json xs) = Inr r"
      "try_fold store_row (put_entry j r stored) rows = Inr stored'"
    by (auto simp: store_row_def [of stored] Let_def and_then_Inr)
  have "get_u64 r ''samples'' = get_u64 ?old ''samples''" using json_set_other [OF r(1)] by simp
  moreover have "get_u64 (json_object [(''features'', numbers_to_json xs), (''samples'', json_of_u64 0)]) ''samples'' = Some 0"
    by (simp add: get_u64_def json_get_object json_of_u64_def)
  ultimately have "row_samples (put_entry j r stored) i = row_samples stored i"
    by (cases "i = j") (auto simp: row_samples_def map_of_put_same map_of_put_other split: option.splits)
  then show ?case using Cons.IH [OF r(2)] by simp
qed simp

lemma pick_member: "\<exists>d. fold (\<lambda>c b. pick b c) cs (Some b) = Some d \<and> d \<in> set (b # cs)"
proof (induction cs arbitrary: b)
  case (Cons c cs)
  define d where "d = (if better c b then c else b)"
  have "fold (\<lambda>c b. pick b c) (c # cs) (Some b) = fold (\<lambda>c b. pick b c) cs (Some d)" by (simp add: pick_def d_def)
  then show ?case using Cons.IH [of d] by (auto simp: d_def simp del: fold.simps split: if_splits)
qed simp

lemma add_actions_distinct:
  assumes "try_fold add_action (rows0, width0) as = Inr s"
  shows "distinct (map action_id as) \<and> (\<forall>a \<in> set as. \<not> bt_contains rows0 (action_id a))"
  using assms
proof (induction as arbitrary: rows0 width0)
  case (Cons a as)
  from Cons.prems obtain t where t: "add_action (rows0, width0) a = Inr t" "try_fold add_action t as = Inr s"
    by (auto simp: and_then_Inr)
  note a = add_action_Inr [OF t(1)]
  show ?case using Cons.IH [of "fst t" "snd t"] t(2) a by auto
qed simp

lemma rows_sorted:
  assumes "try_fold add_action (bt_empty, None) as = Inr (rows, width)"
  shows "bt_entries rows = map (\<lambda>a. (action_id a, action_features a)) (sort_key action_id as)"
proof -
  let ?es = "map (\<lambda>a. (action_id a, action_features a)) (sort_key action_id as)"
  have k: "map fst ?es = map action_id (sort_key action_id as)" by simp
  have d: "distinct (map fst ?es)" using add_actions_distinct [OF assms] unfolding k by (simp add: distinct_map)
  have s: "set (bt_entries rows) = set ?es" using add_actions_rows [OF assms] by simp
  have i: "inj_on fst (set (bt_entries rows))" using bt_distinct [of rows] by (simp add: distinct_map)
  show ?thesis
    using i s d bt_distinct [of rows] bt_strict [of rows] sorted_sort_key [of action_id as] unfolding k
    by (intro map_sorted_distinct_set_unique [of fst]) (simp_all add: strict_sorted_iff comp_def)
qed

lemma prepare_weights_state:
  assumes "shaped st" "prepare_weights st width = Inr (st1, ws)"
  shows "shaped st1 \<and> ws = state_weights st width \<and> state_bias st1 = state_bias st
    \<and> get_object st1 ''actions'' = get_object st ''actions''"
proof -
  obtain vs where vs: "get_array st ''weights'' = Some vs" using assms(1) by (auto simp: shaped_def)
  have st1: "(if vs = [] then json_set st ''weights'' (JArray (replicate width (json_of_f64 0))) else Inr st) = Inr st1"
    using assms(2) vs by (auto simp: prepare_weights_def and_then_Inr ok_or_Inr split: option.splits if_splits)
  have sh: "shaped st1" using settles_prepare [OF assms(1), of width] assms(2) by (simp add: settles_def)
  show ?thesis
  proof (cases "vs = []")
    case True
    then have e: "json_get st1 k = (if k = ''weights'' then Some (JArray (replicate width (json_of_f64 0))) else json_get st k)" for k
      using st1 json_get_set [OF assms(1)] by simp
    have "get_array st1 ''weights'' = Some (replicate width (json_of_f64 0))" by (simp add: get_array_def e)
    then have "ws = state_weights st width"
      using assms(2) vs st1 True
      by (auto simp: prepare_weights_def state_weights_def and_then_Inr ok_or_Inr all_numbers_zeros)
    then show ?thesis using sh by (simp add: state_bias_def get_f64_def get_object_def e)
  next
    case False
    then have "st1 = st" using st1 by simp
    then show ?thesis
      using assms(2) vs False sh
      by (auto simp: prepare_weights_def state_weights_def and_then_Inr ok_or_Inr split: if_splits)
  qed
qed

definition state_candidate :: "json \<Rightarrow> json \<Rightarrow> candidate" where
  "state_candidate st a = (action_samples st a = 0, action_score st a, action_id a)"

lemma preview_decide_candidates:
  assumes "shaped st" "preview_decide event st seed = Inr (st', selected, scores)" "offered_actions event = Inr as"
  shows "selected = map_option (\<lambda>c. snd (snd c)) (fold (\<lambda>c b. pick b c) (map (state_candidate st) (sort_key action_id as)) None)
    \<and> scores = map (\<lambda>c. json_object [(''id'', JString (snd (snd c))), (''score'', json_of_f64 (fst (snd c)))])
        (map (state_candidate st) (sort_key action_id as))"
proof -
  obtain rows width st1 ws stored stored' where
    f: "try_fold add_action (bt_empty, None) as = Inr (rows, width)"
      "prepare_weights st (case width of None \<Rightarrow> 0 | Some w \<Rightarrow> w) = Inr (st1, ws)" "get_object st1 ''actions'' = Some stored"
      "try_fold store_row stored (bt_entries rows) = Inr stored'" and
    e: "selected = map_option (\<lambda>(u, s, i). i) (fold (\<lambda>c b. pick b c)
         (map (candidate_of (state_bias st1) ws stored') (bt_entries rows)) None)"
      "scores = map (\<lambda>(u, s, i). json_object [(''id'', JString i), (''score'', json_of_f64 s)])
         (map (candidate_of (state_bias st1) ws stored') (bt_entries rows))"
    using assms(2,3) by (auto simp: preview_decide_def and_then_Inr ok_or_Inr Let_def state_bias_def)
  note w = prepare_weights_state [OF assms(1) f(2)]
  have "candidate_of (state_bias st1) ws stored' (action_id a, action_features a) = state_candidate st a" if "a \<in> set as" for a
  proof -
    have "width = Some (length (action_features a))" using add_actions_rows [OF f(1)] that by blast
    moreover have "get_object st ''actions'' = Some stored" using w f(3) by simp
    ultimately show ?thesis
      using w store_rows_samples [OF f(4), of "action_id a"]
      by (simp add: candidate_of_def state_candidate_def action_score_def action_samples_def flip: row_samples_def)
  qed
  then have "map (candidate_of (state_bias st1) ws stored') (bt_entries rows) = map (state_candidate st) (sort_key action_id as)"
    unfolding rows_sorted [OF f(1)] by simp
  then show ?thesis unfolding e by (simp add: case_prod_unfold)
qed

text \<open>
  C28: the decision is the best offered action. In a state of the learner's shape, \<open>decide\<close> returns the name of one
  of the offered actions, and its scores list the score of every offered action under the weights of that state,
  ordered by name. When all these scores are finite, no offered action is better than the selected one: an action
  the state has no samples for comes first; among actions alike in this, the selected one has the highest score,
  and of those with the highest score the smallest name.
\<close>

theorem preview_decide_best:
  assumes "shaped st" "preview_decide event st seed = Inr (st', selected, scores)" "offered_actions event = Inr as"
  shows "scores = map (\<lambda>a. json_object [(''id'', JString (action_id a)), (''score'', json_of_f64 (action_score st a))])
      (sort_key action_id as)
    \<and> (\<exists>b \<in> set as. selected = Some (action_id b)
      \<and> ((\<forall>a \<in> set as. is_finite (action_score st a)) \<longrightarrow> (\<forall>a \<in> set as.
           (action_samples st a = 0 \<longrightarrow> action_samples st b = 0)
         \<and> ((action_samples st a = 0 \<longleftrightarrow> action_samples st b = 0) \<longrightarrow>
              f_val (action_score st a) \<le> f_val (action_score st b)
            \<and> (f_val (action_score st a) = f_val (action_score st b) \<longrightarrow> action_id b \<le> action_id a)))))"
proof -
  note e = preview_decide_candidates [OF assms]
  have "as \<noteq> []" using assms(3) by (auto simp: offered_actions_def and_then_Inr split: if_splits)
  then have "sort_key action_id as \<noteq> []" by (metis set_empty set_sort)
  then obtain a0 bs where bs: "sort_key action_id as = a0 # bs" by (cases "sort_key action_id as") blast+
  have m: "set (a0 # bs) = set as" using set_sort [of action_id as] unfolding bs .
  let ?c = "state_candidate st"
  obtain d where d: "fold (\<lambda>c b. pick b c) (map ?c bs) (Some (?c a0)) = Some d" "d \<in> set (map ?c (a0 # bs))"
    using pick_member [of "map ?c bs" "?c a0"] by auto
  then obtain b where b: "b \<in> set as" "d = ?c b" using m by auto
  have "selected = Some (action_id b)" using e d b unfolding bs by (simp add: pick_def state_candidate_def)
  moreover have "\<not> better (?c a) (?c b)" if "\<forall>a \<in> set as. is_finite (action_score st a)" "a \<in> set as" for a
  proof -
    have "\<forall>c \<in> set (?c a0 # map ?c bs). sound_candidate c"
      using that(1) m by (auto simp: sound_candidate_def state_candidate_def)
    from pick_best [OF this] have "\<forall>c \<in> set (?c a0 # map ?c bs). \<not> better c (?c b)" using d(1) b(2) by auto
    moreover have "?c a \<in> set (?c a0 # map ?c bs)" using that(2) m by auto
    ultimately show ?thesis by (rule bspec)
  qed
  ultimately show ?thesis
    using e b(1) by (auto simp: state_candidate_def better_finite not_less simp del: better.simps intro!: bexI [of _ b])
qed


definition demo_decide_event :: json where
  "demo_decide_event = decide_event [offer ''b'' [1], offer ''a'' [1]]"

text \<open>Both actions are new and score zero: the smaller name wins.\<close>

lemma preview_decide_best_witness:
  "\<exists>st' scores. preview_decide demo_decide_event preview_initial_state None = Inr (st', Some ''a'', scores)"
proof -
  let ?st = preview_initial_state
  have "\<not> is_err (preview_decide demo_decide_event ?st None)" by code_simp
  then obtain st' selected scores where d: "preview_decide demo_decide_event ?st None = Inr (st', selected, scores)"
    by (metis not_is_err_iff surj_pair)
  have o: "offered_actions demo_decide_event = Inr [offer ''b'' [1], offer ''a'' [1]]"
    by (simp add: offered_actions_def demo_decide_event_def decide_event_def json_object_def ok_or_def)
  have s: "shaped ?st"
    by (simp add: shaped_def shaped_actions_def preview_initial_state_def json_object_def get_u64_def get_array_def get_object_def)
  have v: "is_finite (action_score ?st (offer ''b'' [1]))" "is_finite (action_score ?st (offer ''a'' [1]))"
    "f_val (action_score ?st (offer ''a'' [1])) = f_val (action_score ?st (offer ''b'' [1]))"
    "action_samples ?st (offer ''a'' [1]) = 0" "action_samples ?st (offer ''b'' [1]) = 0"
    "action_id (offer ''a'' [1]) = ''a''" "action_id (offer ''b'' [1]) = ''b''" "\<not> ''b'' \<le> ''a''"
    by code_simp+
  then show ?thesis using preview_decide_best [OF s d o] d by auto
qed

end
