(* ===== verification/Diagnostics.thy ===== *)
theory Diagnostics imports Stats F64_Sign begin

text \<open>
  The diagnostics that accompany a model (\<open>src/diagnostics\<close>): the warm-up tracker, the residual
  interval, the training summary, the prediction reporter that combines them, and the parameter health
  scan. What is proved concerns every reporter that a sequence of operations can reach.
\<close>

section \<open>Warm-up tracking\<close>

datatype warmup_state = WNoData | WWarmingUp | WUsable | WStable | WDegraded

fun warmup_as_str :: "warmup_state \<Rightarrow> string" where
  "warmup_as_str WNoData = ''no_data''"
| "warmup_as_str WWarmingUp = ''warming_up''"
| "warmup_as_str WUsable = ''usable''"
| "warmup_as_str WStable = ''stable''"
| "warmup_as_str WDegraded = ''degraded''"

definition is_ready :: "warmup_state \<Rightarrow> bool" where
  "is_ready s \<longleftrightarrow> s = WUsable \<or> s = WStable"

record warmup_config =
  wc_warming_up_threshold :: u64
  wc_usable_threshold :: u64
  wc_stable_threshold :: u64
  wc_degraded_error_ratio :: f64

definition warmup_config_default :: warmup_config where
  "warmup_config_default = \<lparr>wc_warming_up_threshold = 5, wc_usable_threshold = 30, wc_stable_threshold = 100,
     wc_degraded_error_ratio = f_of_nat 2\<rparr>"

record warmup_tracker =
  wt_config :: warmup_config
  wt_samples :: u64
  wt_recent_error :: "f64 option"
  wt_baseline_error :: "f64 option"

definition warmup_new :: "warmup_config \<Rightarrow> rill_error + warmup_tracker" where
  "warmup_new c =
     (if wc_warming_up_threshold c \<ge> wc_usable_threshold c
      then Inl (InvalidParameter ''warming_up_threshold'' (f_of_u64 (wc_warming_up_threshold c)))
      else if wc_usable_threshold c > wc_stable_threshold c
      then Inl (InvalidParameter ''usable_threshold'' (f_of_u64 (wc_usable_threshold c)))
      else if \<not> 1 < wc_degraded_error_ratio c
      then Inl (InvalidParameter ''degraded_error_ratio'' (wc_degraded_error_ratio c))
      else Inr \<lparr>wt_config = c, wt_samples = 0, wt_recent_error = None, wt_baseline_error = None\<rparr>)"

text \<open>The error is stored before the counter is incremented, so a counter overflow leaves it stored.\<close>

definition observe_sample :: "f64 option \<Rightarrow> warmup_tracker \<Rightarrow> (rill_error + unit) \<times> warmup_tracker" where
  "observe_sample err s = then_mut
     (case err of
        None \<Rightarrow> (Inr (), s)
      | Some e \<Rightarrow> transact s (and_then (ensure_finite ''error'' e) (\<lambda>_. Inr (s\<lparr>wt_recent_error := Some \<bar>e\<bar>\<rparr>))))
     (\<lambda>_ s. transact s (and_then (checked_increment (wt_samples s) ''samples'') (\<lambda>n. Inr (s\<lparr>wt_samples := n\<rparr>))))"

definition warmup_set_baseline :: "f64 \<Rightarrow> warmup_tracker \<Rightarrow> (rill_error + unit) \<times> warmup_tracker" where
  "warmup_set_baseline b s = transact s
     (and_then (ensure_finite ''baseline'' b) (\<lambda>_. Inr (s\<lparr>wt_baseline_error := Some \<bar>b\<bar>\<rparr>)))"

definition warmup_state_of :: "warmup_tracker \<Rightarrow> warmup_state" where
  "warmup_state_of s =
     (if wt_samples s = 0 then WNoData
      else if wt_samples s < wc_warming_up_threshold (wt_config s) then WWarmingUp
      else case (wt_recent_error s, wt_baseline_error s) of
          (Some r, Some b) \<Rightarrow>
            if b * wc_degraded_error_ratio (wt_config s) < r then WDegraded
            else if wt_samples s \<ge> wc_stable_threshold (wt_config s) \<and> r \<le> b then WStable
            else WUsable
        | _ \<Rightarrow> WUsable)"

definition warmup_reset :: "warmup_tracker \<Rightarrow> warmup_tracker" where
  "warmup_reset s = s\<lparr>wt_samples := 0, wt_recent_error := None, wt_baseline_error := None\<rparr>"

section \<open>Residual intervals\<close>

record prediction_interval =
  pi_lower :: f64
  pi_upper :: f64

definition interval_contains :: "prediction_interval \<Rightarrow> f64 \<Rightarrow> bool" where
  "interval_contains i v \<longleftrightarrow> pi_lower i \<le> v \<and> v \<le> pi_upper i"

record residual_config =
  rc_k :: f64
  rc_alpha :: f64

definition residual_config_default :: residual_config where
  "residual_config_default = \<lparr>rc_k = 1, rc_alpha = f_of_rat (1 / 10)\<rparr>"

record residual_interval =
  ri_config :: residual_config
  ri_error_ew :: ew_mean_stat

definition residual_new :: "residual_config \<Rightarrow> rill_error + residual_interval" where
  "residual_new c =
     and_then (ensure_finite ''k'' (rc_k c)) (\<lambda>_.
     and_then (ensure (\<not> rc_k c \<le> 0) (InvalidParameter ''k'' (rc_k c))) (\<lambda>_.
     and_then (ew_mean_new (rc_alpha c)) (\<lambda>ew.
       Inr \<lparr>ri_config = \<lparr>rc_k = rc_k c, rc_alpha = rc_alpha c\<rparr>, ri_error_ew = ew\<rparr>)))"

definition residual_observe :: "f64 \<Rightarrow> f64 \<Rightarrow> residual_interval \<Rightarrow> (rill_error + unit) \<times> residual_interval" where
  "residual_observe prediction truth s =
     (let (r, ew) = ew_mean_update \<bar>truth - prediction\<bar> (ri_error_ew s) in (r, s\<lparr>ri_error_ew := ew\<rparr>))"

definition residual_interval_at :: "f64 \<Rightarrow> residual_interval \<Rightarrow> rill_error + prediction_interval" where
  "residual_interval_at prediction s =
     and_then (ensure_finite ''prediction'' prediction) (\<lambda>_.
       if ew_count (ri_error_ew s) = 0 then Inl InsufficientData
       else let margin = rc_k (ri_config s) * ew_value (ri_error_ew s) in
            Inr \<lparr>pi_lower = prediction - margin, pi_upper = prediction + margin\<rparr>)"

text \<open>The recent error of both the residual interval and the training summary.\<close>

definition ew_recent_error :: "ew_mean_stat \<Rightarrow> f64 option" where
  "ew_recent_error ew = (if ew_count ew = 0 then None else Some (ew_value ew))"

definition residual_recent_error :: "residual_interval \<Rightarrow> f64 option" where
  "residual_recent_error s = ew_recent_error (ri_error_ew s)"

definition residual_reset :: "residual_interval \<Rightarrow> residual_interval" where
  "residual_reset s = s\<lparr>ri_error_ew := ew_mean_reset (ri_error_ew s)\<rparr>"

section \<open>Training summaries\<close>

record training_summary =
  ts_total_samples :: u64
  ts_rejected_samples :: u64
  ts_error_ew :: ew_mean_stat
  ts_best_error :: "f64 option"
  ts_baseline_error :: "f64 option"
  ts_model_switches :: u64
  ts_reset_count :: u64
  ts_load_failures :: u64

text \<open>\<open>TrainingSummaryConfig\<close> has the one field \<open>error_alpha\<close>, the argument here.\<close>

definition summary_new :: "f64 \<Rightarrow> rill_error + training_summary" where
  "summary_new error_alpha =
     and_then (ew_mean_new error_alpha) (\<lambda>ew.
       Inr \<lparr>ts_total_samples = 0, ts_rejected_samples = 0, ts_error_ew = ew, ts_best_error = None,
         ts_baseline_error = None, ts_model_switches = 0, ts_reset_count = 0, ts_load_failures = 0\<rparr>)"

definition record_sample :: "training_summary \<Rightarrow> (rill_error + unit) \<times> training_summary" where
  "record_sample s = transact s
     (and_then (checked_increment (ts_total_samples s) ''total_samples'') (\<lambda>n. Inr (s\<lparr>ts_total_samples := n\<rparr>)))"

definition record_rejection :: "training_summary \<Rightarrow> (rill_error + unit) \<times> training_summary" where
  "record_rejection s = transact s
     (and_then (checked_increment (ts_rejected_samples s) ''rejected_samples'') (\<lambda>n. Inr (s\<lparr>ts_rejected_samples := n\<rparr>)))"

definition record_error :: "f64 \<Rightarrow> training_summary \<Rightarrow> (rill_error + unit) \<times> training_summary" where
  "record_error e s =
     (case ensure_finite ''error'' e of
        Inl err \<Rightarrow> (Inl err, s)
      | Inr _ \<Rightarrow>
          let abs_error = \<bar>e\<bar>;
              (r, ew) = ew_mean_update abs_error (ts_error_ew s) in
          then_mut (r, s\<lparr>ts_error_ew := ew\<rparr>) (\<lambda>_ s.
            (Inr (), case ts_best_error s of
               None \<Rightarrow> s\<lparr>ts_best_error := Some abs_error\<rparr>
             | Some b \<Rightarrow> if abs_error < b then s\<lparr>ts_best_error := Some abs_error\<rparr> else s)))"

definition summary_set_baseline :: "f64 \<Rightarrow> training_summary \<Rightarrow> (rill_error + unit) \<times> training_summary" where
  "summary_set_baseline e s = transact s
     (and_then (ensure_finite ''baseline_error'' e) (\<lambda>_. Inr (s\<lparr>ts_baseline_error := Some \<bar>e\<bar>\<rparr>)))"

definition record_switch :: "training_summary \<Rightarrow> (rill_error + unit) \<times> training_summary" where
  "record_switch s = transact s
     (and_then (checked_increment (ts_model_switches s) ''model_switches'') (\<lambda>n. Inr (s\<lparr>ts_model_switches := n\<rparr>)))"

definition record_reset :: "training_summary \<Rightarrow> (rill_error + unit) \<times> training_summary" where
  "record_reset s = transact s
     (and_then (checked_increment (ts_reset_count s) ''reset_count'') (\<lambda>n. Inr (s\<lparr>ts_reset_count := n\<rparr>)))"

definition record_load_failure :: "training_summary \<Rightarrow> (rill_error + unit) \<times> training_summary" where
  "record_load_failure s = transact s
     (and_then (checked_increment (ts_load_failures s) ''load_failures'') (\<lambda>n. Inr (s\<lparr>ts_load_failures := n\<rparr>)))"

definition summary_recent_error :: "training_summary \<Rightarrow> f64 option" where
  "summary_recent_error s = ew_recent_error (ts_error_ew s)"

definition summary_beats_baseline :: "training_summary \<Rightarrow> bool option" where
  "summary_beats_baseline s =
     (case (summary_recent_error s, ts_baseline_error s) of
        (Some recent, Some baseline) \<Rightarrow> Some (recent < baseline)
      | _ \<Rightarrow> None)"

definition summary_reset :: "training_summary \<Rightarrow> training_summary" where
  "summary_reset s = s\<lparr>ts_total_samples := 0, ts_rejected_samples := 0, ts_error_ew := ew_mean_reset (ts_error_ew s),
     ts_best_error := None, ts_baseline_error := None, ts_model_switches := 0, ts_reset_count := 0, ts_load_failures := 0\<rparr>"

section \<open>Prediction reports\<close>

datatype confidence = CNone | CLow | CMedium | CHigh

fun confidence_as_str :: "confidence \<Rightarrow> string" where
  "confidence_as_str CNone = ''none''"
| "confidence_as_str CLow = ''low''"
| "confidence_as_str CMedium = ''medium''"
| "confidence_as_str CHigh = ''high''"

record prediction_report =
  pr_prediction :: f64
  pr_lower_bound :: "f64 option"
  pr_upper_bound :: "f64 option"
  pr_confidence :: confidence
  pr_samples_seen :: u64
  pr_recent_error :: "f64 option"
  pr_baseline_error :: "f64 option"
  pr_warmup_state :: warmup_state
  pr_beats_baseline :: "bool option"

record prediction_reporter =
  rp_interval :: residual_interval
  rp_warmup :: warmup_tracker
  rp_summary :: training_summary

definition reporter_new :: "residual_config \<Rightarrow> warmup_config \<Rightarrow> f64 \<Rightarrow> rill_error + prediction_reporter" where
  "reporter_new ic wc error_alpha =
     and_then (residual_new ic) (\<lambda>i. and_then (warmup_new wc) (\<lambda>w. and_then (summary_new error_alpha) (\<lambda>s.
       Inr \<lparr>rp_interval = i, rp_warmup = w, rp_summary = s\<rparr>)))"

text \<open>An operation of one of the three parts, as an operation of the reporter.\<close>

definition on_interval :: "(residual_interval \<Rightarrow> (rill_error + unit) \<times> residual_interval) \<Rightarrow>
    prediction_reporter \<Rightarrow> (rill_error + unit) \<times> prediction_reporter" where
  "on_interval f s = (let (r, i) = f (rp_interval s) in (r, s\<lparr>rp_interval := i\<rparr>))"

definition on_warmup :: "(warmup_tracker \<Rightarrow> (rill_error + unit) \<times> warmup_tracker) \<Rightarrow>
    prediction_reporter \<Rightarrow> (rill_error + unit) \<times> prediction_reporter" where
  "on_warmup f s = (let (r, w) = f (rp_warmup s) in (r, s\<lparr>rp_warmup := w\<rparr>))"

definition on_summary :: "(training_summary \<Rightarrow> (rill_error + unit) \<times> training_summary) \<Rightarrow>
    prediction_reporter \<Rightarrow> (rill_error + unit) \<times> prediction_reporter" where
  "on_summary f s = (let (r, t) = f (rp_summary s) in (r, s\<lparr>rp_summary := t\<rparr>))"

definition reporter_observe :: "f64 \<Rightarrow> f64 \<Rightarrow> prediction_reporter \<Rightarrow> (rill_error + unit) \<times> prediction_reporter" where
  "reporter_observe prediction truth s =
     then_mut (on_interval (residual_observe prediction truth) s) (\<lambda>_ s.
       let e = \<bar>truth - prediction\<bar> in
       then_mut (on_warmup (observe_sample (Some e)) s) (\<lambda>_ s.
       then_mut (on_summary (record_error e) s) (\<lambda>_ s. on_summary record_sample s)))"

definition reporter_set_baseline :: "f64 \<Rightarrow> prediction_reporter \<Rightarrow> (rill_error + unit) \<times> prediction_reporter" where
  "reporter_set_baseline b s =
     then_mut (on_warmup (warmup_set_baseline b) s) (\<lambda>_ s. on_summary (summary_set_baseline b) s)"

definition confidence_of :: "warmup_state \<Rightarrow> bool option \<Rightarrow> confidence" where
  "confidence_of w beats =
     (case w of
        WNoData \<Rightarrow> CNone
      | WWarmingUp \<Rightarrow> CLow
      | WDegraded \<Rightarrow> CLow
      | WUsable \<Rightarrow> CMedium
      | WStable \<Rightarrow> if beats = Some True then CHigh else CMedium)"

definition report_bounds :: "f64 \<Rightarrow> residual_interval \<Rightarrow> rill_error + f64 option \<times> f64 option" where
  "report_bounds prediction i =
     (case residual_interval_at prediction i of
        Inr iv \<Rightarrow> Inr (Some (pi_lower iv), Some (pi_upper iv))
      | Inl InsufficientData \<Rightarrow> Inr (None, None)
      | Inl e \<Rightarrow> Inl e)"

definition report :: "f64 \<Rightarrow> prediction_reporter \<Rightarrow> rill_error + prediction_report" where
  "report prediction s =
     and_then (ensure_finite ''prediction'' prediction) (\<lambda>_.
     and_then (report_bounds prediction (rp_interval s)) (\<lambda>(lower, upper).
       let w = warmup_state_of (rp_warmup s); beats = summary_beats_baseline (rp_summary s) in
       Inr \<lparr>pr_prediction = prediction, pr_lower_bound = lower, pr_upper_bound = upper,
         pr_confidence = confidence_of w beats, pr_samples_seen = ts_total_samples (rp_summary s),
         pr_recent_error = summary_recent_error (rp_summary s), pr_baseline_error = ts_baseline_error (rp_summary s),
         pr_warmup_state = w, pr_beats_baseline = beats\<rparr>))"

definition reporter_reset :: "prediction_reporter \<Rightarrow> prediction_reporter" where
  "reporter_reset s = s\<lparr>rp_interval := residual_reset (rp_interval s), rp_warmup := warmup_reset (rp_warmup s),
     rp_summary := summary_reset (rp_summary s)\<rparr>"

section \<open>Parameter health\<close>

record health_report =
  hr_parameter_count :: usize
  hr_weight_min :: "f64 option"
  hr_weight_max :: "f64 option"
  hr_has_nan :: bool
  hr_has_infinity :: bool
  hr_state_size_bytes :: usize

definition health_scan :: "f64 \<Rightarrow> health_report \<Rightarrow> health_report" where
  "health_scan v h = h\<lparr>hr_has_nan := hr_has_nan h \<or> is_nan v,
     hr_has_infinity := hr_has_infinity h \<or> \<not> is_nan v \<and> \<not> is_finite v,
     hr_weight_min := Some (case hr_weight_min h of None \<Rightarrow> v | Some m \<Rightarrow> f_min m v),
     hr_weight_max := Some (case hr_weight_max h of None \<Rightarrow> v | Some m \<Rightarrow> f_max m v)\<rparr>"

definition from_parameters :: "f64 list \<Rightarrow> f64 option \<Rightarrow> health_report" where
  "from_parameters weights intercept =
     (let count = length weights + (case intercept of None \<Rightarrow> 0 | Some _ \<Rightarrow> 1) in
      fold health_scan (weights @ (case intercept of None \<Rightarrow> [] | Some v \<Rightarrow> [v]))
        \<lparr>hr_parameter_count = count, hr_weight_min = None, hr_weight_max = None, hr_has_nan = False,
          hr_has_infinity = False, hr_state_size_bytes = count * 8\<rparr>)"

definition health_is_healthy :: "health_report \<Rightarrow> bool" where
  "health_is_healthy h \<longleftrightarrow> \<not> hr_has_nan h \<and> \<not> hr_has_infinity h"

definition health_weight_range :: "health_report \<Rightarrow> f64 option" where
  "health_weight_range h =
     (case (hr_weight_min h, hr_weight_max h) of (Some lo, Some hi) \<Rightarrow> Some (hi - lo) | _ \<Rightarrow> None)"


section \<open>What a report promises\<close>

datatype reporter_op = Observe f64 f64 | SetBaseline f64 | ResetReporter

fun reporter_apply :: "reporter_op \<Rightarrow> prediction_reporter \<Rightarrow> (rill_error + unit) \<times> prediction_reporter" where
  "reporter_apply (Observe p t) s = reporter_observe p t s"
| "reporter_apply (SetBaseline b) s = reporter_set_baseline b s"
| "reporter_apply ResetReporter s = (Inr (), reporter_reset s)"

definition ew_sound :: "ew_mean_stat \<Rightarrow> bool" where
  "ew_sound s \<longleftrightarrow> is_finite (ew_alpha s) \<and> 0 < ew_alpha s \<and> ew_alpha s \<le> 1 \<and> is_finite (ew_value s) \<and> nonneg (ew_value s)"

lemma ew_mean_new_sound: "ew_mean_new a = Inr s \<Longrightarrow> ew_sound s"
  by (auto simp: ew_mean_new_def ew_sound_def result_simps f64_simps nonneg_zero)

lemma ew_update_sound:
  assumes "ew_sound s" "ew_mean_update \<bar>v\<bar> s = (r, s')"
  shows "ew_sound s'"
proof (cases r)
  case (Inl e)
  then show ?thesis using assms stat_atomic(7) by metis
next
  case (Inr u)
  let ?m = "if ew_count s = 0 then \<bar>v\<bar> else ew_alpha s * \<bar>v\<bar> + (1 - ew_alpha s) * ew_value s"
  from assms(2) Inr have u: "is_finite \<bar>v\<bar>" "is_finite ?m" "s' = s\<lparr>ew_value := ?m, ew_count := ew_count s + 1\<rparr>"
    by (auto simp: ew_mean_update_Inr Let_def)
  have n: "nonneg \<bar>v\<bar>" using u(1) by (intro nonneg_abs) simp
  have m: "nonneg ?m"
  proof (cases "ew_count s = 0")
    case False
    then have "is_finite (ew_alpha s * \<bar>v\<bar> + (1 - ew_alpha s) * ew_value s)" using u(2) by simp
    from finite_plusD [OF this] have f: "is_finite (ew_alpha s * \<bar>v\<bar>)" "is_finite ((1 - ew_alpha s) * ew_value s)"
      by simp_all
    have s: "nonneg (ew_alpha s)" "nonneg (1 - ew_alpha s)" "nonneg (ew_value s)"
      using assms(1) pos_nonneg nonneg_one_minus by (simp_all add: ew_sound_def)
    have "nonneg (ew_alpha s * \<bar>v\<bar>)" by (rule nonneg_times [OF s(1) n]) (use finite_timesD [OF f(1)] in blast)
    moreover have "nonneg ((1 - ew_alpha s) * ew_value s)" by (rule nonneg_times [OF s(2,3)]) (use finite_timesD [OF f(2)] in blast)
    ultimately show ?thesis using False by (simp add: nonneg_plus)
  qed (use n in simp)
  then show ?thesis using assms(1) u(2,3) by (simp add: ew_sound_def)
qed

subsection \<open>The invariant of a reporter\<close>

definition reporter_inv :: "warmup_config \<Rightarrow> prediction_reporter \<Rightarrow> bool" where
  "reporter_inv wc s \<longleftrightarrow> is_finite (rc_k (ri_config (rp_interval s))) \<and> 0 < rc_k (ri_config (rp_interval s))
     \<and> ew_sound (ri_error_ew (rp_interval s)) \<and> wt_config (rp_warmup s) = wc
     \<and> wt_baseline_error (rp_warmup s) = ts_baseline_error (rp_summary s)"

lemma reporter_new_inv: "reporter_new ic wc a = Inr s \<Longrightarrow> reporter_inv wc s"
  by (auto simp: reporter_new_def residual_new_def warmup_new_def summary_new_def reporter_inv_def result_simps
      ew_mean_new_sound f64_simps not_le split: if_splits)

lemma observe_sample_frame:
  "observe_sample e s = (r, s') \<Longrightarrow> wt_config s' = wt_config s \<and> wt_baseline_error s' = wt_baseline_error s"
  by (cases e) (auto simp: observe_sample_def ensure_finite_def checked_increment_def ok_or_def checked_add_u64_def
      split: if_splits)

lemma record_error_frame: "record_error e s = (r, s') \<Longrightarrow> ts_baseline_error s' = ts_baseline_error s"
  by (cases "(ew_mean_update \<bar>e\<bar> (ts_error_ew s))"; cases "fst (ew_mean_update \<bar>e\<bar> (ts_error_ew s))")
    (auto simp: record_error_def ensure_finite_def Let_def split: if_splits option.splits)

lemma record_sample_frame: "record_sample s = (r, s') \<Longrightarrow> ts_baseline_error s' = ts_baseline_error s"
  by (cases "checked_increment (ts_total_samples s) ''total_samples''") (auto simp: record_sample_def)

text \<open>A step that keeps a property, then steps that keep it, keep it.\<close>

lemma then_mut_keeps:
  assumes "P (snd q)" "\<And>x s. P s \<Longrightarrow> P (snd (k x s))"
  shows "P (snd (then_mut q k))"
  using assms by (cases "(q, k)" rule: then_mut.cases) auto

lemma on_interval_inv: "reporter_inv wc s \<Longrightarrow> reporter_inv wc (snd (on_interval (residual_observe p t) s))"
  by (auto simp: on_interval_def residual_observe_def reporter_inv_def Let_def ew_update_sound split: prod.splits)

lemma on_warmup_inv: "reporter_inv wc s \<Longrightarrow> reporter_inv wc (snd (on_warmup (observe_sample e) s))"
  using observe_sample_frame [of e "rp_warmup s"]
  by (auto simp: on_warmup_def reporter_inv_def Let_def split: prod.splits)

lemma on_summary_inv:
  "reporter_inv wc s \<Longrightarrow> reporter_inv wc (snd (on_summary (record_error e) s))"
  "reporter_inv wc s \<Longrightarrow> reporter_inv wc (snd (on_summary record_sample s))"
  using record_error_frame [of e "rp_summary s"] record_sample_frame [of "rp_summary s"]
  by (auto simp: on_summary_def reporter_inv_def Let_def split: prod.splits)

lemma reporter_observe_inv: "reporter_inv wc s \<Longrightarrow> reporter_inv wc (snd (reporter_observe p t s))"
  unfolding reporter_observe_def Let_def
  by (intro then_mut_keeps [where P = "reporter_inv wc"] on_interval_inv on_warmup_inv on_summary_inv)

lemma reporter_set_baseline_inv: "reporter_inv wc s \<Longrightarrow> reporter_inv wc (snd (reporter_set_baseline b s))"
  by (cases "is_finite b")
    (auto simp: reporter_set_baseline_def on_warmup_def on_summary_def warmup_set_baseline_def summary_set_baseline_def
      ensure_finite_def reporter_inv_def Let_def)

lemma ew_reset_sound: "ew_sound s \<Longrightarrow> ew_sound (ew_mean_reset s)"
  by (simp add: ew_sound_def ew_mean_reset_def nonneg_zero)

lemma reporter_reset_inv: "reporter_inv wc s \<Longrightarrow> reporter_inv wc (reporter_reset s)"
  by (simp add: reporter_inv_def reporter_reset_def residual_reset_def warmup_reset_def summary_reset_def ew_reset_sound)

lemma reporter_apply_inv: "reporter_inv wc s \<Longrightarrow> reporter_inv wc (snd (reporter_apply x s))"
  by (cases x) (simp_all add: reporter_observe_inv reporter_set_baseline_inv reporter_reset_inv)

lemma reporter_run_inv: "reporter_inv wc s \<Longrightarrow> reporter_inv wc (run_ops reporter_apply xs s)"
  by (induction xs arbitrary: s) (simp_all add: reporter_apply_inv)

lemma interval_contains_prediction:
  assumes "reporter_inv wc s" "is_finite p" "ew_count (ri_error_ew (rp_interval s)) \<noteq> 0"
  shows "\<exists>iv. residual_interval_at p (rp_interval s) = Inr iv \<and> interval_contains iv p"
proof -
  let ?m = "rc_k (ri_config (rp_interval s)) * ew_value (ri_error_ew (rp_interval s))"
  have "nonneg ?m"
    using assms(1) pos_nonneg by (intro nonneg_times) (auto simp: reporter_inv_def ew_sound_def)
  then show ?thesis
    using assms(2,3) plus_nonneg_ge uminus_plus_le
    by (auto simp: residual_interval_at_def ensure_finite_def interval_contains_def Let_def)
qed

text \<open>
  C29: a report is consistent. After any sequence of observations, baselines and resets, rejected ones
  included, a finite prediction gets a report: its interval, present exactly when an error was observed
  since the last reset, contains the prediction; confidence is absent exactly before the first sample, and
  high only when at least \<open>stable_threshold\<close> samples were seen and the last error does not exceed, and the
  recent error is below, the one baseline that tracker and summary hold.
\<close>

theorem report_consistent:
  assumes "reporter_new ic wc alpha = Inr s0" and "s = run_ops reporter_apply xs s0" and "is_finite p"
  shows "\<exists>rep. report p s = Inr rep \<and> pr_prediction rep = p
    \<and> (case (pr_lower_bound rep, pr_upper_bound rep) of
         (None, None) \<Rightarrow> ew_count (ri_error_ew (rp_interval s)) = 0
       | (Some lo, Some hi) \<Rightarrow> ew_count (ri_error_ew (rp_interval s)) \<noteq> 0 \<and> lo \<le> p \<and> p \<le> hi
       | _ \<Rightarrow> False)
    \<and> (pr_confidence rep = CNone \<longleftrightarrow> wt_samples (rp_warmup s) = 0)
    \<and> (pr_confidence rep = CHigh \<longrightarrow> wc_stable_threshold wc \<le> wt_samples (rp_warmup s)
        \<and> (\<exists>b r l. pr_baseline_error rep = Some b \<and> pr_recent_error rep = Some r \<and> r < b
            \<and> wt_recent_error (rp_warmup s) = Some l \<and> l \<le> b))"
proof -
  have inv: "reporter_inv wc s" using reporter_run_inv reporter_new_inv assms(1,2) by blast
  let ?rep = "\<lambda>l u. \<lparr>pr_prediction = p, pr_lower_bound = l, pr_upper_bound = u,
    pr_confidence = confidence_of (warmup_state_of (rp_warmup s)) (summary_beats_baseline (rp_summary s)),
    pr_samples_seen = ts_total_samples (rp_summary s), pr_recent_error = summary_recent_error (rp_summary s),
    pr_baseline_error = ts_baseline_error (rp_summary s), pr_warmup_state = warmup_state_of (rp_warmup s),
    pr_beats_baseline = summary_beats_baseline (rp_summary s)\<rparr>"
  have none: "confidence_of (warmup_state_of (rp_warmup s)) b = CNone \<longleftrightarrow> wt_samples (rp_warmup s) = 0" for b
    by (auto simp: confidence_of_def warmup_state_of_def split: warmup_state.splits if_splits option.splits prod.splits)
  have high: "wc_stable_threshold wc \<le> wt_samples (rp_warmup s)
      \<and> (\<exists>b r l. ts_baseline_error (rp_summary s) = Some b \<and> summary_recent_error (rp_summary s) = Some r \<and> r < b
          \<and> wt_recent_error (rp_warmup s) = Some l \<and> l \<le> b)"
    if "confidence_of (warmup_state_of (rp_warmup s)) (summary_beats_baseline (rp_summary s)) = CHigh"
  proof -
    have "warmup_state_of (rp_warmup s) = WStable" "summary_beats_baseline (rp_summary s) = Some True"
      using that by (auto simp: confidence_of_def split: warmup_state.splits if_splits)
    then show ?thesis using inv
      by (auto simp: warmup_state_of_def summary_beats_baseline_def reporter_inv_def split: if_splits option.splits)
  qed
  show ?thesis
  proof (cases "ew_count (ri_error_ew (rp_interval s)) = 0")
    case True
    then have "report p s = Inr (?rep None None)"
      using assms(3) by (simp add: report_def report_bounds_def residual_interval_at_def ensure_finite_def Let_def)
    then show ?thesis using True none high by simp
  next
    case False
    then obtain iv where iv: "residual_interval_at p (rp_interval s) = Inr iv" "interval_contains iv p"
      using interval_contains_prediction [OF inv assms(3)] by blast
    then have "report p s = Inr (?rep (Some (pi_lower iv)) (Some (pi_upper iv)))"
      using assms(3) by (simp add: report_def report_bounds_def ensure_finite_def Let_def)
    then show ?thesis using False iv(2) none high by (simp add: interval_contains_def)
  qed
qed

theorem report_consistent_witness:
  "\<exists>s0. reporter_new residual_config_default warmup_config_default (f_of_rat (1 / 2)) = Inr s0
    \<and> (\<exists>rep. report 1 (run_ops reporter_apply [Observe 1 (f_of_nat 3), SetBaseline 1] s0) = Inr rep \<and> pr_prediction rep = 1)"
proof -
  have "\<not> is_err (reporter_new residual_config_default warmup_config_default (f_of_rat (1 / 2)))" by code_simp
  then obtain s0 where s0: "reporter_new residual_config_default warmup_config_default (f_of_rat (1 / 2)) = Inr s0"
    by (auto simp: not_is_err_iff)
  show ?thesis
    using report_consistent [OF s0 refl, of 1 "[Observe 1 (f_of_nat 3), SetBaseline 1]"] s0 by auto
qed

text \<open>
  The threshold from which the configuration promises the state \<open>Usable\<close> has no influence on the state.
\<close>

lemma usable_threshold_ignored:
  "warmup_state_of (s\<lparr>wt_config := (wt_config s)\<lparr>wc_usable_threshold := n\<rparr>\<rparr>) = warmup_state_of s"
  by (simp add: warmup_state_of_def split: option.split)

text \<open>An observation whose error is not finite changes nothing.\<close>

lemma observe_rejects_overflow:
  "\<not> is_finite (truth - prediction) \<Longrightarrow> \<exists>e. reporter_observe prediction truth s = (Inl e, s)"
  by (simp add: reporter_observe_def on_interval_def residual_observe_def ew_mean_update_def ensure_finite_def)

text \<open>The health scan finds a parameter that is not a finite number, and only then reports ill health.\<close>

lemma health_scan_flags:
  "hr_has_nan (fold health_scan xs h) \<longleftrightarrow> hr_has_nan h \<or> (\<exists>x \<in> set xs. is_nan x)"
  "hr_has_infinity (fold health_scan xs h) \<longleftrightarrow> hr_has_infinity h \<or> (\<exists>x \<in> set xs. \<not> is_nan x \<and> \<not> is_finite x)"
  by (induction xs arbitrary: h) (auto simp: health_scan_def)

lemma healthy_iff_finite:
  "health_is_healthy (from_parameters ws b) \<longleftrightarrow> (\<forall>w \<in> set ws. is_finite w) \<and> (\<forall>v. b = Some v \<longrightarrow> is_finite v)"
  unfolding health_is_healthy_def from_parameters_def Let_def health_scan_flags by (cases b) auto

end
