(* ===== verification/Model_Selection.thy ===== *)
theory Model_Selection imports Metrics begin

text \<open>
  Comparing models by their rolling error and selecting among them (\<open>src/diagnostics/baseline_comparator.rs\<close>
  and \<open>model_selector.rs\<close>).
\<close>

section \<open>The comparator\<close>

datatype switch_reason = LowerError | InsufficientDataReason | Tie

record comparator_entry =
  ce_name :: string
  ce_rolling_mae :: rolling_error
  ce_total_samples :: u64

definition entry_error :: "comparator_entry \<Rightarrow> f64 option" where
  "entry_error e = rolling_error_value (ce_rolling_mae e)"

record comparator =
  bc_entries :: "comparator_entry list"
  bc_best_index :: "usize option"
  bc_switch_count :: u64
  bc_last_switch_reason :: "switch_reason option"

definition comparator_new :: "string list \<Rightarrow> usize \<Rightarrow> rill_error + comparator" where
  "comparator_new names window_size =
     (if names = [] then Inl EmptyFeatures
      else if \<not> distinct names then Inl (InvalidParameter ''names'' 0)
      else and_then (try_map (\<lambda>n. and_then (rolling_error_new window_size) (\<lambda>m.
                       Inr \<lparr>ce_name = n, ce_rolling_mae = m, ce_total_samples = 0\<rparr>)) names) (\<lambda>es.
           Inr \<lparr>bc_entries = es, bc_best_index = None, bc_switch_count = 0, bc_last_switch_reason = None\<rparr>))"

text \<open>The rolling error is updated before the counter, so a counter overflow leaves it updated.\<close>

definition entry_record :: "f64 \<Rightarrow> f64 \<Rightarrow> comparator_entry \<Rightarrow> (rill_error + unit) \<times> comparator_entry" where
  "entry_record truth prediction e =
     (let (r, m) = rolling_mae_update (truth, prediction) (ce_rolling_mae e) in
      then_mut (r, e\<lparr>ce_rolling_mae := m\<rparr>) (\<lambda>_ e. transact e
        (and_then (checked_increment (ce_total_samples e) ''total_samples'') (\<lambda>n. Inr (e\<lparr>ce_total_samples := n\<rparr>)))))"

definition comparator_record :: "usize \<Rightarrow> f64 \<Rightarrow> f64 \<Rightarrow> comparator \<Rightarrow> (rill_error + unit) \<times> comparator" where
  "comparator_record i truth prediction s =
     (if i < length (bc_entries s)
      then (let (r, e) = entry_record truth prediction (bc_entries s ! i) in (r, s\<lparr>bc_entries := (bc_entries s)[i := e]\<rparr>))
      else (Inl (DimensionMismatch (length (bc_entries s)) i), s))"

definition scan_entry :: "nat \<times> comparator_entry \<Rightarrow> usize option \<times> f64 \<Rightarrow> usize option \<times> f64" where
  "scan_entry ie best = (case entry_error (snd ie) of
       Some err \<Rightarrow> if err < snd best then (Some (fst ie), err) else best
     | None \<Rightarrow> best)"

definition best_entry :: "comparator_entry list \<Rightarrow> usize option \<times> f64" where
  "best_entry es = fold scan_entry (enumerate 0 es) (None, f_inf)"

definition update_best :: "comparator \<Rightarrow> usize option \<times> comparator" where
  "update_best s =
     (case best_entry (bc_entries s) of
        (None, _) \<Rightarrow> (None, s\<lparr>bc_best_index := None, bc_last_switch_reason := Some InsufficientDataReason\<rparr>)
      | (Some new, best_err) \<Rightarrow>
          if Some new = bc_best_index s then (None, s)
          else let reason = (case bc_best_index s of
                   None \<Rightarrow> LowerError
                 | Some old \<Rightarrow> (case entry_error (bc_entries s ! old) of
                       None \<Rightarrow> LowerError
                     | Some old_err \<Rightarrow> if best_err < old_err then LowerError
                                       else if feq best_err old_err then Tie else LowerError))
               in (Some new, s\<lparr>bc_switch_count := saturating_add_u64 (bc_switch_count s) 1, bc_best_index := Some new,
                     bc_last_switch_reason := Some reason\<rparr>))"

definition best_name :: "comparator \<Rightarrow> string option" where
  "best_name s = map_option (\<lambda>i. ce_name (bc_entries s ! i)) (bc_best_index s)"

definition best_error :: "comparator \<Rightarrow> f64 option" where
  "best_error s = Option.bind (bc_best_index s) (\<lambda>i. entry_error (bc_entries s ! i))"

definition entry_count :: "comparator \<Rightarrow> usize" where
  "entry_count s = length (bc_entries s)"

definition entry_at :: "comparator \<Rightarrow> usize \<Rightarrow> comparator_entry option" where
  "entry_at s i = (if i < length (bc_entries s) then Some (bc_entries s ! i) else None)"

definition comparator_reset :: "comparator \<Rightarrow> comparator" where
  "comparator_reset s = s\<lparr>
     bc_entries := map (\<lambda>e. e\<lparr>ce_rolling_mae := rolling_error_reset (ce_rolling_mae e), ce_total_samples := 0\<rparr>) (bc_entries s),
     bc_best_index := None, bc_switch_count := 0, bc_last_switch_reason := None\<rparr>"

section \<open>The selector\<close>

record selector_config =
  sc_window_size :: usize
  sc_cooling_period :: u64
  sc_min_samples_before_switch :: u64

definition selector_config_default :: selector_config where
  "selector_config_default = \<lparr>sc_window_size = 50, sc_cooling_period = 20, sc_min_samples_before_switch = 10\<rparr>"

record selector =
  ms_comparator :: comparator
  ms_config :: selector_config
  ms_current_best :: "usize option"
  ms_samples_since_switch :: u64

definition selector_new :: "string list \<Rightarrow> selector_config \<Rightarrow> rill_error + selector" where
  "selector_new names c =
     (if sc_window_size c = 0 then Inl InvalidWindowSize
      else and_then (comparator_new names (sc_window_size c)) (\<lambda>bc.
        Inr \<lparr>ms_comparator = bc, ms_config = c, ms_current_best = None, ms_samples_since_switch = 0\<rparr>))"

definition selector_record :: "usize \<Rightarrow> f64 \<Rightarrow> f64 \<Rightarrow> selector \<Rightarrow> (rill_error + unit) \<times> selector" where
  "selector_record i truth prediction s =
     (let (r, bc) = comparator_record i truth prediction (ms_comparator s) in
      then_mut (r, s\<lparr>ms_comparator := bc\<rparr>) (\<lambda>_ s.
        if ms_current_best s = Some i
        then transact s (and_then (checked_increment (ms_samples_since_switch s) ''samples_since_switch'') (\<lambda>n.
               Inr (s\<lparr>ms_samples_since_switch := n\<rparr>)))
        else (Inr (), s)))"

definition selector_select :: "selector \<Rightarrow> usize option \<times> selector" where
  "selector_select s =
     (let (changed, bc) = update_best (ms_comparator s); s1 = s\<lparr>ms_comparator := bc\<rparr> in
      case changed of
        None \<Rightarrow> (ms_current_best s1, s1)
      | Some new_best \<Rightarrow>
          let has_enough = (case entry_at bc new_best of
                None \<Rightarrow> False
              | Some e \<Rightarrow> ce_total_samples e \<ge> sc_min_samples_before_switch (ms_config s1)) in
          if \<not> has_enough then (ms_current_best s1, s1)
          else let s2 = (case ms_current_best s1 of
                   None \<Rightarrow> s1\<lparr>ms_current_best := Some new_best, ms_samples_since_switch := 0\<rparr>
                 | Some current \<Rightarrow>
                     if new_best = current then s1
                     else if ms_samples_since_switch s1 < sc_cooling_period (ms_config s1) then s1
                     else s1\<lparr>ms_current_best := Some new_best, ms_samples_since_switch := 0\<rparr>)
               in (ms_current_best s2, s2))"

definition current_best_name :: "selector \<Rightarrow> string option" where
  "current_best_name s = Option.bind (ms_current_best s) (\<lambda>i. map_option ce_name (entry_at (ms_comparator s) i))"

definition selector_reset :: "selector \<Rightarrow> selector" where
  "selector_reset s = s\<lparr>ms_comparator := comparator_reset (ms_comparator s), ms_current_best := None,
     ms_samples_since_switch := 0\<rparr>"

section \<open>The best entry\<close>

definition errors_finite :: "comparator_entry list \<Rightarrow> bool" where
  "errors_finite es \<longleftrightarrow> (\<forall>e \<in> set es. \<forall>x. entry_error e = Some x \<longrightarrow> is_finite x)"

definition is_best :: "comparator_entry list \<Rightarrow> usize \<Rightarrow> f64 \<Rightarrow> bool" where
  "is_best es i v \<longleftrightarrow> i < length es \<and> entry_error (es ! i) = Some v
     \<and> (\<forall>j < length es. \<forall>x. entry_error (es ! j) = Some x \<longrightarrow> v \<le> x)
     \<and> (\<forall>j < i. \<forall>x. entry_error (es ! j) = Some x \<longrightarrow> v < x)"

lemma best_entry_snoc: "best_entry (es @ [e]) = scan_entry (length es, e) (best_entry es)"
  by (simp add: best_entry_def enumerate_append_eq)

lemma finite_less_f_inf: "is_finite x \<Longrightarrow> x < f_inf"
  by transfer (auto simp: fp_less_def dest: fp_finite_rank)

lemma best_entry_spec:
  "errors_finite es \<Longrightarrow> (case best_entry es of
      (None, v) \<Rightarrow> v = f_inf \<and> (\<forall>e \<in> set es. entry_error e = None)
    | (Some i, v) \<Rightarrow> is_best es i v)"
proof (induction es rule: rev_induct)
  case Nil
  then show ?case by (simp add: best_entry_def)
next
  case (snoc e es)
  obtain b v where b: "best_entry es = (b, v)" by fastforce
  have IH: "case (b, v) of (None, v) \<Rightarrow> v = f_inf \<and> (\<forall>e \<in> set es. entry_error e = None)
      | (Some i, v) \<Rightarrow> is_best es i v"
    using snoc b by (simp add: errors_finite_def)
  show ?case
  proof (cases "entry_error e")
    case None
    then show ?thesis using IH
      by (cases b) (auto simp: best_entry_snoc b scan_entry_def is_best_def nth_append less_Suc_eq)
  next
    case (Some x)
    have x: "is_finite x" using snoc.prems Some by (simp add: errors_finite_def)
    have xx: "x \<le> x" using x f_le_refl by simp
    show ?thesis
    proof (cases b)
      case None
      then have "x < v" "\<forall>e \<in> set es. entry_error e = None" using IH x finite_less_f_inf by auto
      then show ?thesis using Some xx None
        by (auto simp: best_entry_snoc b scan_entry_def is_best_def nth_append less_Suc_eq)
    next
      case (Some i)
      have best: "is_best es i v" using IH Some by simp
      then have v: "is_finite v" using snoc.prems nth_mem by (fastforce simp: is_best_def errors_finite_def)
      show ?thesis
      proof (cases "x < v")
        case True
        have "x < y" if "v \<le> y" for y using True that f_less_le_trans by blast
        then show ?thesis using True best \<open>entry_error e = Some x\<close> Some xx f_less_imp_le
          by (auto simp: best_entry_snoc b scan_entry_def is_best_def nth_append less_Suc_eq)
      next
        case False
        then have "v \<le> x" using x v f_not_less by simp
        then show ?thesis using False best \<open>entry_error e = Some x\<close> Some
          by (auto simp: best_entry_snoc b scan_entry_def is_best_def nth_append less_Suc_eq)
      qed
    qed
  qed
qed

section \<open>Reachable comparators\<close>

datatype comparator_op = RecordError usize f64 f64 | UpdateBest | ResetComparator

fun comparator_apply :: "comparator_op \<Rightarrow> comparator \<Rightarrow> (rill_error + unit) \<times> comparator" where
  "comparator_apply (RecordError i t p) s = comparator_record i t p s"
| "comparator_apply UpdateBest s = (Inr (), snd (update_best s))"
| "comparator_apply ResetComparator s = (Inr (), comparator_reset s)"

definition window_sound :: "usize \<Rightarrow> rolling_error \<Rightarrow> bool" where
  "window_sound n m \<longleftrightarrow> ro_capacity m = n \<and> length (ro_errors m) \<le> n \<and> is_finite (ro_sum m)"

definition entries_sound :: "usize \<Rightarrow> comparator_entry list \<Rightarrow> bool" where
  "entries_sound n es \<longleftrightarrow> (\<forall>e \<in> set es. window_sound n (ce_rolling_mae e))"

lemma finite_divide_of_nat:
  assumes "is_finite x" "0 < n" "n < 2 ^ 64"
  shows "is_finite (x / f_of_nat n)"
proof -
  have n: "is_finite (f_of_nat n)" "1 \<le> f_val (f_of_nat n)" using assms f_val_of_nat_ge_1 by simp_all
  let ?q = "f_val x / f_val (f_of_nat n)"
  have "\<bar>?q\<bar> \<le> \<bar>f_val x\<bar>" using n(2) mult_right_mono [OF n(2), of "\<bar>f_val x\<bar>"] by (simp add: divide_le_eq mult.commute)
  then have "\<bar>rnd ?q\<bar> \<le> \<bar>f_val x\<bar>" by (intro rnd_abs_le) (simp_all add: abs_if rnd_uminus)
  then have "\<not> overflows (rnd ?q)" using f_val_no_overflow [of x] by (simp add: overflows_iff)
  then show ?thesis using assms(1) n by (simp add: finite_divide)
qed

lemma entries_errors_finite: "entries_sound n es \<Longrightarrow> n < 2 ^ 64 \<Longrightarrow> errors_finite es"
  by (auto simp: errors_finite_def entries_sound_def window_sound_def entry_error_def rolling_error_value_def
      split: if_splits intro!: finite_divide_of_nat)

lemma length_window_push: "0 < n \<Longrightarrow> length w \<le> n \<Longrightarrow> length (window_push n x w) \<le> n"
  by (auto simp: window_push_def)

lemma rolling_mae_sound:
  assumes "0 < n" "window_sound n m" "rolling_mae_update tp m = (r, m')"
  shows "window_sound n m'"
proof (cases r)
  case (Inl e)
  then show ?thesis using assms metric_atomic(9) by metis
next
  case (Inr u)
  then show ?thesis using assms length_window_push
    by (auto simp: rolling_mae_update_def rolling_error_push_def window_sound_def result_simps Let_def split: prod.splits)
qed

lemma entry_record_sound:
  assumes "0 < n" "window_sound n (ce_rolling_mae e)"
  shows "window_sound n (ce_rolling_mae (snd (entry_record t p e)))"
proof -
  obtain r m where m: "rolling_mae_update (t, p) (ce_rolling_mae e) = (r, m)" by fastforce
  note s = rolling_mae_sound [OF assms m]
  show ?thesis
  proof (cases r)
    case (Inr u)
    then show ?thesis using s m
      by (cases "checked_increment (ce_total_samples e) ''total_samples''") (simp_all add: entry_record_def)
  qed (use s m in \<open>simp add: entry_record_def\<close>)
qed

definition comparator_inv :: "usize \<Rightarrow> comparator \<Rightarrow> bool" where
  "comparator_inv n s \<longleftrightarrow> entries_sound n (bc_entries s) \<and> (\<forall>i. bc_best_index s = Some i \<longrightarrow> i < length (bc_entries s))"

lemma update_best_frame:
  "bc_entries (snd (update_best s)) = bc_entries s"
  by (auto simp: update_best_def Let_def split: prod.splits option.splits)

lemma update_best_index:
  "bc_best_index (snd (update_best s)) = fst (best_entry (bc_entries s))"
  by (auto simp: update_best_def Let_def split: prod.splits option.splits)

lemma best_entry_less:
  assumes "errors_finite es" "fst (best_entry es) = Some i"
  shows "is_best es i (snd (best_entry es))"
  using best_entry_spec [OF assms(1)] assms(2) by (cases "best_entry es") auto

lemma comparator_apply_inv:
  assumes n: "0 < n" "n < 2 ^ 64" and s: "comparator_inv n s"
  shows "comparator_inv n (snd (comparator_apply x s))"
proof (cases x)
  case (RecordError i t p)
  obtain r e where e: "entry_record t p (bc_entries s ! i) = (r, e)" by fastforce
  have "window_sound n (ce_rolling_mae e)" if "i < length (bc_entries s)"
    using entry_record_sound [OF n(1), of "bc_entries s ! i" t p] s that e by (simp add: comparator_inv_def entries_sound_def)
  then have "entries_sound n ((bc_entries s)[i := e])" if "i < length (bc_entries s)"
    using s that set_update_subset_insert by (fastforce simp: comparator_inv_def entries_sound_def)
  then show ?thesis using RecordError s e by (simp add: comparator_record_def comparator_inv_def)
next
  case UpdateBest
  have "errors_finite (bc_entries s)" using s n(2) entries_errors_finite by (auto simp: comparator_inv_def)
  then show ?thesis using UpdateBest s best_entry_less
    by (auto simp: comparator_inv_def update_best_frame update_best_index is_best_def)
next
  case ResetComparator
  then show ?thesis using s
    by (auto simp: comparator_reset_def comparator_inv_def entries_sound_def window_sound_def rolling_error_reset_def)
qed

lemma comparator_new_inv:
  assumes "comparator_new names n = Inr s"
  shows "0 < n \<and> comparator_inv n s"
proof -
  obtain es where es: "try_map (\<lambda>x. and_then (rolling_error_new n) (\<lambda>m.
      Inr \<lparr>ce_name = x, ce_rolling_mae = m, ce_total_samples = 0\<rparr>)) names = Inr es" "names \<noteq> []"
    and s: "s = \<lparr>bc_entries = es, bc_best_index = None, bc_switch_count = 0, bc_last_switch_reason = None\<rparr>"
    using assms by (auto simp: comparator_new_def and_then_Inr split: if_splits)
  have "list_all2 (\<lambda>x y. and_then (rolling_error_new n) (\<lambda>m.
      Inr \<lparr>ce_name = x, ce_rolling_mae = m, ce_total_samples = 0\<rparr>) = (Inr y :: rill_error + comparator_entry)) names es"
    using es(1) by (simp add: try_map_Inr)
  then have "list_all2 (\<lambda>x y. 0 < n \<and> window_sound n (ce_rolling_mae y)) names es"
    by (rule list_all2_mono) (auto simp: and_then_Inr rolling_error_new_def window_sound_def split: if_splits)
  then have "\<forall>e \<in> set es. 0 < n \<and> window_sound n (ce_rolling_mae e)"
    by (auto simp: list_all2_conv_all_nth in_set_conv_nth)
  moreover have "es \<noteq> []" using es by (cases names) (auto simp: and_then_Inr)
  ultimately show ?thesis using s by (cases es) (auto simp: comparator_inv_def entries_sound_def)
qed

lemma comparator_run_inv:
  assumes "0 < n" "n < 2 ^ 64" "comparator_inv n s"
  shows "comparator_inv n (run_ops comparator_apply xs s)"
  using assms by (induction xs arbitrary: s) (simp_all add: comparator_apply_inv)

text \<open>
  C30: the comparator finds the first entry of least error. After any sequence of records, updates and
  resets, rejected records included, updating the best entry yields none exactly when no entry has an
  error, and otherwise an entry whose rolling error no other entry undercuts and no earlier one reaches;
  the change is reported exactly when there is one.
\<close>

theorem comparator_finds_best:
  assumes "comparator_new names n = Inr s0" and "n < 2 ^ 64" and "s = run_ops comparator_apply xs s0"
    and "update_best s = (changed, s')"
  shows "(bc_best_index s' = None \<longleftrightarrow> (\<forall>e \<in> set (bc_entries s). entry_error e = None))
    \<and> (\<forall>i. bc_best_index s' = Some i \<longrightarrow> i < length (bc_entries s) \<and> (\<exists>v. entry_error (bc_entries s ! i) = Some v
        \<and> (\<forall>j < length (bc_entries s). \<forall>x. entry_error (bc_entries s ! j) = Some x \<longrightarrow> v \<le> x)
        \<and> (\<forall>j < i. \<forall>x. entry_error (bc_entries s ! j) = Some x \<longrightarrow> v < x)))
    \<and> changed = (if bc_best_index s' = bc_best_index s then None else bc_best_index s')"
proof -
  have "comparator_inv n s" using comparator_run_inv comparator_new_inv assms(1-3) by blast
  then have f: "errors_finite (bc_entries s)" using assms(2) entries_errors_finite by (auto simp: comparator_inv_def)
  have i: "bc_best_index s' = fst (best_entry (bc_entries s))" using update_best_index [of s] assms(4) by simp
  have c: "changed = (if bc_best_index s' = bc_best_index s then None else bc_best_index s')"
    using assms(4) by (auto simp: update_best_def Let_def split: prod.splits option.splits if_splits)
  obtain b v where b: "best_entry (bc_entries s) = (b, v)" by fastforce
  show ?thesis
  proof (cases b)
    case None
    then show ?thesis using best_entry_spec [OF f] b i c by simp
  next
    case (Some k)
    then have k: "is_best (bc_entries s) k v" using best_entry_spec [OF f] b by simp
    then have "\<exists>e \<in> set (bc_entries s). entry_error e \<noteq> None"
      by (intro bexI [of _ "bc_entries s ! k"]) (simp_all add: is_best_def)
    then show ?thesis using k b i c Some by (simp add: is_best_def)
  qed
qed

definition demo_comparator :: comparator where
  "demo_comparator = \<lparr>bc_entries = map (\<lambda>x. \<lparr>ce_name = x, ce_rolling_mae = \<lparr>ro_errors = [], ro_sum = 0, ro_capacity = 2\<rparr>,
     ce_total_samples = 0\<rparr>) [''a'', ''b''], bc_best_index = None, bc_switch_count = 0, bc_last_switch_reason = None\<rparr>"

lemma demo_comparator_new: "comparator_new [''a'', ''b''] 2 = Inr demo_comparator"
  by (simp add: comparator_new_def rolling_error_new_def demo_comparator_def)

theorem comparator_finds_best_witness:
  "let s = run_ops comparator_apply [RecordError 0 1 0, RecordError 1 1 1, RecordError 7 1 1] demo_comparator
   in fst (update_best s) = Some 1 \<and> fst (update_best (snd (update_best s))) = None"
proof -
  let ?s = "run_ops comparator_apply [RecordError 0 1 0, RecordError 1 1 1, RecordError 7 1 1] demo_comparator"
  have e: "fst (best_entry (bc_entries ?s)) = Some 1" "bc_best_index ?s = None" by code_simp+
  obtain c s' where u: "update_best ?s = (c, s')" by fastforce
  have i: "bc_best_index s' = Some 1" using update_best_index [of ?s] u e by simp
  then have c: "c = Some 1" using comparator_finds_best [OF demo_comparator_new _ refl u] e by simp
  obtain c2 s2 where u2: "update_best s' = (c2, s2)" by fastforce
  have "run_ops comparator_apply [RecordError 0 1 0, RecordError 1 1 1, RecordError 7 1 1, UpdateBest] demo_comparator = s'"
    using u by simp
  then have r: "s' = run_ops comparator_apply [RecordError 0 1 0, RecordError 1 1 1, RecordError 7 1 1, UpdateBest] demo_comparator" ..
  have "bc_best_index s2 = Some 1"
    using update_best_index [of s'] update_best_frame [of ?s] u u2 e by simp
  then have "c2 = None" using comparator_finds_best [OF demo_comparator_new _ r u2] i by simp
  then show ?thesis using u u2 c by (simp add: Let_def)
qed

section \<open>Cooling\<close>

datatype selector_op = Record usize f64 f64 | Select | ResetSelector

fun selector_apply :: "selector_op \<Rightarrow> selector \<Rightarrow> (rill_error + unit) \<times> selector" where
  "selector_apply (Record i t p) s = selector_record i t p s"
| "selector_apply Select s = (Inr (), snd (selector_select s))"
| "selector_apply ResetSelector s = (Inr (), selector_reset s)"

definition cooling :: "usize \<Rightarrow> selector_config \<Rightarrow> nat \<Rightarrow> selector \<Rightarrow> bool" where
  "cooling j c n s \<longleftrightarrow> ms_config s = c \<and> ms_current_best s = Some j \<and> unat (ms_samples_since_switch s) \<le> n"

fun records_of :: "usize \<Rightarrow> selector_op list \<Rightarrow> nat" where
  "records_of j [] = 0"
| "records_of j (Record i t p # xs) = (if i = j then 1 else 0) + records_of j xs"
| "records_of j (x # xs) = records_of j xs"

lemma selector_record_cooling:
  assumes "cooling j c n s"
  shows "cooling j c (if i = j then n + 1 else n) (snd (selector_record i t p s))"
proof -
  obtain r bc where r: "comparator_record i t p (ms_comparator s) = (r, bc)" by fastforce
  show ?thesis
  proof (cases r)
    case (Inr u)
    then show ?thesis using assms r unat_checked_increment [of "ms_samples_since_switch s"]
      by (cases "checked_increment (ms_samples_since_switch s) ''samples_since_switch''")
        (auto simp: selector_record_def cooling_def)
  qed (use assms r in \<open>auto simp: selector_record_def cooling_def\<close>)
qed

lemma selector_select_cooling:
  assumes "cooling j c n s" "n < unat (sc_cooling_period c)"
  shows "cooling j c n (snd (selector_select s))"
proof -
  have "ms_samples_since_switch s < sc_cooling_period (ms_config s)"
    using assms by (auto simp: cooling_def word_less_nat_alt)
  then show ?thesis using assms(1)
    by (auto simp: selector_select_def cooling_def Let_def split: prod.splits option.splits)
qed

lemma cooling_run:
  assumes "cooling j c n s" "ResetSelector \<notin> set xs" "n + records_of j xs < unat (sc_cooling_period c)"
  shows "ms_current_best (run_ops selector_apply xs s) = Some j"
  using assms
proof (induction xs arbitrary: n s)
  case Nil
  then show ?case by (simp add: cooling_def)
next
  case (Cons x xs)
  show ?case
  proof (cases x)
    case (Record i t p)
    then show ?thesis
      using Cons.IH [OF selector_record_cooling [OF Cons.prems(1), of i t p]] Cons.prems(2,3)
      by (cases "i = j") simp_all
  next
    case Select
    then show ?thesis
      using Cons.IH [OF selector_select_cooling [OF Cons.prems(1)]] Cons.prems(2,3) by auto
  qed (use Cons.prems in simp)
qed

lemma select_switch:
  assumes "selector_select s = (Some j, s')" "ms_current_best s \<noteq> Some j"
  shows "cooling j (ms_config s) 0 s'
    \<and> (\<exists>e. entry_at (ms_comparator s') j = Some e \<and> sc_min_samples_before_switch (ms_config s) \<le> ce_total_samples e)
    \<and> (ms_current_best s \<noteq> None \<longrightarrow> sc_cooling_period (ms_config s) \<le> ms_samples_since_switch s)"
  using assms by (auto simp: selector_select_def cooling_def Let_def not_less split: prod.splits option.splits if_splits)

text \<open>
  A selection that changes is earned and lasts. When selecting replaces the current model, the new one
  has at least \<open>min_samples_before_switch\<close> records, and without a reset it stays selected through any
  records and selections with fewer than \<open>cooling_period\<close> records for it.
\<close>

theorem selection_cools_down:
  assumes "selector_select s0 = (Some j, s)" and "ms_current_best s0 \<noteq> Some j" and "ResetSelector \<notin> set xs"
    and "records_of j xs < unat (sc_cooling_period (ms_config s0))"
  shows "ms_current_best (run_ops selector_apply xs s) = Some j
    \<and> (\<exists>e. entry_at (ms_comparator s) j = Some e \<and> sc_min_samples_before_switch (ms_config s0) \<le> ce_total_samples e)
    \<and> (ms_current_best s0 \<noteq> None \<longrightarrow> sc_cooling_period (ms_config s0) \<le> ms_samples_since_switch s0)"
  using select_switch [OF assms(1,2)] cooling_run [OF _ assms(3), of j "ms_config s0" 0 s] assms(4) by simp

definition demo_selector :: selector where
  "demo_selector = \<lparr>ms_comparator = demo_comparator,
     ms_config = \<lparr>sc_window_size = 2, sc_cooling_period = 2, sc_min_samples_before_switch = 1\<rparr>,
     ms_current_best = None, ms_samples_since_switch = 0\<rparr>"

theorem selection_cools_down_witness:
  "let s0 = snd (selector_record 0 1 0 demo_selector); s = snd (selector_select s0)
   in ms_current_best (run_ops selector_apply [Record 1 1 1, Record 0 1 0, Select] s) = Some 0"
proof -
  define s0 where "s0 = snd (selector_record 0 1 0 demo_selector)"
  define s where "s = snd (selector_select s0)"
  have "fst (selector_select s0) = Some 0" unfolding s0_def by code_simp
  then have a: "selector_select s0 = (Some 0, s)" by (simp add: s_def prod_eq_iff)
  have b: "ms_current_best s0 \<noteq> Some 0" unfolding s0_def by code_simp
  have c: "records_of 0 [Record 1 1 1, Record 0 1 0, Select] < unat (sc_cooling_period (ms_config s0))"
    unfolding s0_def by code_simp
  from selection_cools_down [OF a b _ c] show ?thesis by (simp add: Let_def s_def s0_def)
qed

text \<open>
  A candidate that is refused is forgotten: the comparator has already made it its best entry, and
  reports no change again. So a model that is best from its first record on is never selected when the
  first selection comes before it has enough records.
\<close>

lemma refused_candidate_forgotten:
  assumes "bc_best_index (ms_comparator s) = Some i" "fst (best_entry (bc_entries (ms_comparator s))) = Some i"
  shows "selector_select s = (ms_current_best s, s)"
proof -
  obtain v where "best_entry (bc_entries (ms_comparator s)) = (Some i, v)" using assms(2) by (metis prod.collapse)
  then have "update_best (ms_comparator s) = (None, ms_comparator s)" using assms(1) by (simp add: update_best_def)
  then show ?thesis by (simp add: selector_select_def)
qed

lemma early_selection_starves:
  "let s = demo_selector\<lparr>ms_config := \<lparr>sc_window_size = 2, sc_cooling_period = 0, sc_min_samples_before_switch = 2\<rparr>\<rparr>;
       r = Record 0 1 1; s' = run_ops selector_apply [r, Select, r, r, r] s
   in fst (selector_select s') = None \<and> map_option ce_total_samples (entry_at (ms_comparator s') 0) = Some 4"
  by code_simp

end
