(* ===== verification/Progressive.thy ===== *)
theory Progressive imports Linear_Models Metrics begin

text \<open>
  Progressive evaluation (\<open>src/evaluate/progressive.rs\<close>). The model and the metric are given by their
  operations, as the traits \<open>OnlineRegressor\<close>, \<open>OnlineBinaryClassifier\<close> and \<open>Metric\<close> give them; both are
  updated in place, so an error leaves the progress made so far.
\<close>

record regression_sample =
  rs_features :: "f64 list"
  rs_target :: f64

record binary_sample =
  bs_features :: "f64 list"
  bs_target :: bool

record progressive_step =
  ps_index :: usize
  ps_metric_value :: "f64 option"

text \<open>A read-only fallible step, and an update of one of the two objects.\<close>

definition reading :: "('e + 'a) \<Rightarrow> 's \<Rightarrow> ('e + 'a) \<times> 's" where
  "reading r s = (r, s)"

definition on_model :: "('m \<Rightarrow> ('e + 'a) \<times> 'm) \<Rightarrow> 'm \<times> 't \<Rightarrow> ('e + 'a) \<times> 'm \<times> 't" where
  "on_model f s = (case s of (m, t) \<Rightarrow> let (r, m') = f m in (r, m', t))"

definition on_metric :: "('t \<Rightarrow> ('e + 'a) \<times> 't) \<Rightarrow> 'm \<times> 't \<Rightarrow> ('e + 'a) \<times> 'm \<times> 't" where
  "on_metric f s = (case s of (m, t) \<Rightarrow> let (r, t') = f t in (r, m, t'))"

record ('m, 'y) model_ops =
  mo_predict :: "'m \<Rightarrow> f64 list \<Rightarrow> rill_error + 'y"
  mo_learn :: "f64 list \<times> 'y \<Rightarrow> 'm \<Rightarrow> (rill_error + unit) \<times> 'm"

record ('t, 'y) metric_ops =
  mt_update :: "'y \<times> 'y \<Rightarrow> 't \<Rightarrow> (rill_error + unit) \<times> 't"
  mt_value :: "'t \<Rightarrow> f64 option"

definition regression_step :: "('m, f64) model_ops \<Rightarrow> ('t, f64) metric_ops \<Rightarrow> regression_sample \<Rightarrow>
    'm \<times> 't \<Rightarrow> (rill_error + unit) \<times> 'm \<times> 't" where
  "regression_step mo mt sample s =
     then_mut (reading (ensure_finite_target (rs_target sample)) s) (\<lambda>_ s.
     then_mut (reading (mo_predict mo (fst s) (rs_features sample)) s) (\<lambda>prediction s.
     then_mut (reading (ensure_finite ''prediction'' prediction) s) (\<lambda>_ s.
     then_mut (on_metric (mt_update mt (rs_target sample, prediction)) s) (\<lambda>_ s.
       on_model (mo_learn mo (rs_features sample, rs_target sample)) s))))"

fun regression_loop :: "('m, f64) model_ops \<Rightarrow> ('t, f64) metric_ops \<Rightarrow> nat \<Rightarrow> regression_sample list \<Rightarrow>
    progressive_step list \<Rightarrow> 'm \<times> 't \<Rightarrow> (rill_error + f64 option \<times> progressive_step list) \<times> 'm \<times> 't" where
  "regression_loop mo mt i [] steps s = (Inr (mt_value mt (snd s), steps), s)"
| "regression_loop mo mt i (x # xs) steps s =
     then_mut (regression_step mo mt x s) (\<lambda>_ s.
       regression_loop mo mt (i + 1) xs (steps @ [\<lparr>ps_index = i, ps_metric_value = mt_value mt (snd s)\<rparr>]) s)"

definition evaluate_regression_with_steps :: "('m, f64) model_ops \<Rightarrow> ('t, f64) metric_ops \<Rightarrow> regression_sample list \<Rightarrow>
    'm \<times> 't \<Rightarrow> (rill_error + f64 option \<times> progressive_step list) \<times> 'm \<times> 't" where
  "evaluate_regression_with_steps mo mt samples s = regression_loop mo mt 0 samples [] s"

definition evaluate_regression :: "('m, f64) model_ops \<Rightarrow> ('t, f64) metric_ops \<Rightarrow> regression_sample list \<Rightarrow>
    'm \<times> 't \<Rightarrow> (rill_error + f64 option) \<times> 'm \<times> 't" where
  "evaluate_regression mo mt samples s =
     then_mut (evaluate_regression_with_steps mo mt samples s) (\<lambda>vs s. (Inr (fst vs), s))"

definition classification_step :: "('m, bool) model_ops \<Rightarrow> ('t, bool) metric_ops \<Rightarrow> binary_sample \<Rightarrow>
    'm \<times> 't \<Rightarrow> (rill_error + unit) \<times> 'm \<times> 't" where
  "classification_step mo mt sample s =
     then_mut (reading (mo_predict mo (fst s) (bs_features sample)) s) (\<lambda>prediction s.
     then_mut (on_metric (mt_update mt (bs_target sample, prediction)) s) (\<lambda>_ s.
       on_model (mo_learn mo (bs_features sample, bs_target sample)) s))"

definition evaluate_binary_classification :: "('m, bool) model_ops \<Rightarrow> ('t, bool) metric_ops \<Rightarrow> binary_sample list \<Rightarrow>
    'm \<times> 't \<Rightarrow> (rill_error + f64 option) \<times> 'm \<times> 't" where
  "evaluate_binary_classification mo mt samples s =
     then_mut (for_each_mut (classification_step mo mt) samples s) (\<lambda>_ s. (Inr (mt_value mt (snd s)), s))"

section \<open>Evaluation is prequential\<close>

text \<open>The model after the first \<open>i\<close> samples, its prediction for the next, and the metric over a prefix.\<close>

definition model_at :: "('m, f64) model_ops \<Rightarrow> regression_sample list \<Rightarrow> 'm \<Rightarrow> nat \<Rightarrow> 'm" where
  "model_at mo xs m i = run_ops (mo_learn mo) (map (\<lambda>x. (rs_features x, rs_target x)) (take i xs)) m"

definition prediction_at :: "('m, f64) model_ops \<Rightarrow> regression_sample list \<Rightarrow> 'm \<Rightarrow> nat \<Rightarrow> rill_error + f64" where
  "prediction_at mo xs m i = mo_predict mo (model_at mo xs m i) (rs_features (xs ! i))"

lemma on_metric_Inr [result_simps]:
  "on_metric f s = (Inr y, s') \<longleftrightarrow> (\<exists>t. f (snd s) = (Inr y, t) \<and> s' = (fst s, t))"
  by (auto simp: on_metric_def Let_def split: prod.splits)

lemma on_model_Inr [result_simps]:
  "on_model f s = (Inr y, s') \<longleftrightarrow> (\<exists>m. f (fst s) = (Inr y, m) \<and> s' = (m, snd s))"
  by (auto simp: on_model_def Let_def split: prod.splits)

lemma regression_step_Inr:
  "regression_step mo mt x s = (Inr u, s') \<longleftrightarrow> is_finite (rs_target x)
     \<and> (\<exists>p. mo_predict mo (fst s) (rs_features x) = Inr p \<and> is_finite p
        \<and> (\<exists>t. mt_update mt (rs_target x, p) (snd s) = (Inr (), t)
           \<and> (\<exists>m. mo_learn mo (rs_features x, rs_target x) (fst s) = (Inr u, m) \<and> s' = (m, t))))"
  by (auto simp: regression_step_def reading_def result_simps ensure_finite_target_def)

text \<open>The metric over the first \<open>i\<close> pairs of targets and predictions.\<close>

definition metric_at :: "('t, f64) metric_ops \<Rightarrow> (f64 \<times> f64) list \<Rightarrow> 't \<Rightarrow> nat \<Rightarrow> 't" where
  "metric_at mt pairs t i = run_ops (mt_update mt) (take i pairs) t"

definition steps_of :: "('t, f64) metric_ops \<Rightarrow> (f64 \<times> f64) list \<Rightarrow> 't \<Rightarrow> nat \<Rightarrow> progressive_step list" where
  "steps_of mt pairs t k =
     map (\<lambda>i. \<lparr>ps_index = k + i, ps_metric_value = mt_value mt (metric_at mt pairs t (i + 1))\<rparr>) [0..<length pairs]"

lemma steps_of_Cons:
  assumes "mt_update mt x t = (r, t')"
  shows "steps_of mt (x # pairs) t k = \<lparr>ps_index = k, ps_metric_value = mt_value mt t'\<rparr> # steps_of mt pairs t' (k + 1)"
proof -
  have "[0..<Suc (length pairs)] = 0 # map Suc [0..<length pairs]" 
    by (simp only: map_Suc_upt upt_conv_Cons zero_less_Suc)
  then show ?thesis using assms by (simp add: steps_of_def metric_at_def)
qed

lemma model_at_Cons:
  assumes "mo_learn mo (rs_features x, rs_target x) m = (r, m')"
  shows "model_at mo (x # xs) m (Suc i) = model_at mo xs m' i" "prediction_at mo (x # xs) m (Suc i) = prediction_at mo xs m' i"
  using assms by (simp_all add: prediction_at_def model_at_def)

lemma regression_loop_sound:
  assumes "regression_loop mo mt k xs steps s = (Inr (v, out), s')"
  shows "\<exists>ps. length ps = length xs
    \<and> (\<forall>i < length xs. prediction_at mo xs (fst s) i = Inr (ps ! i) \<and> is_finite (ps ! i))
    \<and> fst s' = model_at mo xs (fst s) (length xs)
    \<and> out = steps @ steps_of mt (zip (map rs_target xs) ps) (snd s) k
    \<and> snd s' = run_ops (mt_update mt) (zip (map rs_target xs) ps) (snd s) \<and> v = mt_value mt (snd s')"
  using assms
proof (induction xs arbitrary: s k steps)
  case Nil
  then show ?case by (auto simp: model_at_def steps_of_def)
next
  case (Cons x xs)
  obtain p t m where x: "is_finite (rs_target x)" "mo_predict mo (fst s) (rs_features x) = Inr p" "is_finite p"
      "mt_update mt (rs_target x, p) (snd s) = (Inr (), t)"
      "mo_learn mo (rs_features x, rs_target x) (fst s) = (Inr (), m)"
    and rest: "regression_loop mo mt (k + 1) xs (steps @ [\<lparr>ps_index = k, ps_metric_value = mt_value mt t\<rparr>]) (m, t) = (Inr (v, out), s')"
    using Cons.prems by (auto simp: result_simps regression_step_Inr)
  obtain ps where ps: "length ps = length xs"
      "\<forall>i < length xs. prediction_at mo xs m i = Inr (ps ! i) \<and> is_finite (ps ! i)"
      "fst s' = model_at mo xs m (length xs)"
      "out = (steps @ [\<lparr>ps_index = k, ps_metric_value = mt_value mt t\<rparr>]) @ steps_of mt (zip (map rs_target xs) ps) t (k + 1)"
      "snd s' = run_ops (mt_update mt) (zip (map rs_target xs) ps) t" "v = mt_value mt (snd s')"
    using Cons.IH [OF rest] by auto
  have "prediction_at mo (x # xs) (fst s) i = Inr ((p # ps) ! i) \<and> is_finite ((p # ps) ! i)" if "i < length (x # xs)" for i
    using that x(2,3) ps(2) model_at_Cons(2) [OF x(5)]
    by (cases i) (auto simp: prediction_at_def model_at_def)
  then show ?case
    using ps x(4) model_at_Cons(1) [OF x(5)] steps_of_Cons [OF x(4)]
    by (intro exI [of _ "p # ps"]) simp
qed

text \<open>
  C31: evaluation is prequential. When it succeeds, every sample was predicted by the model that had
  learned exactly the samples before it, every recorded metric value is that of the targets and
  predictions up to its sample, and at the end the model has learned the whole stream; the final value is
  that of the metric over all pairs.
\<close>

theorem evaluation_is_prequential:
  assumes "evaluate_regression_with_steps mo mt xs (m, t) = (Inr (v, steps), (m', t'))"
  shows "\<exists>ps. length ps = length xs
    \<and> (\<forall>i < length xs. mo_predict mo (run_ops (mo_learn mo) (map (\<lambda>x. (rs_features x, rs_target x)) (take i xs)) m)
          (rs_features (xs ! i)) = Inr (ps ! i))
    \<and> length steps = length xs
    \<and> (\<forall>i < length xs. ps_index (steps ! i) = i \<and> ps_metric_value (steps ! i) =
          mt_value mt (run_ops (mt_update mt) (take (i + 1) (zip (map rs_target xs) ps)) t))
    \<and> m' = run_ops (mo_learn mo) (map (\<lambda>x. (rs_features x, rs_target x)) xs) m
    \<and> t' = run_ops (mt_update mt) (zip (map rs_target xs) ps) t \<and> v = mt_value mt t'"
proof -
  obtain ps where ps: "length ps = length xs"
      "\<forall>i < length xs. prediction_at mo xs m i = Inr (ps ! i) \<and> is_finite (ps ! i)"
      "m' = model_at mo xs m (length xs)" "steps = steps_of mt (zip (map rs_target xs) ps) t 0"
      "t' = run_ops (mt_update mt) (zip (map rs_target xs) ps) t" "v = mt_value mt t'"
    using regression_loop_sound [of mo mt 0 xs "[]" "(m, t)"] assms by (auto simp: evaluate_regression_with_steps_def)
  then show ?thesis
    by (intro exI [of _ ps]) (simp add: prediction_at_def model_at_def steps_of_def metric_at_def)
qed

definition last_value_ops :: "(last_value_regressor, f64) model_ops" where
  "last_value_ops = \<lparr>mo_predict = last_value_predict, mo_learn = last_value_learn\<rparr>"

definition mae_ops :: "(mae, f64) metric_ops" where
  "mae_ops = \<lparr>mt_update = mae_update, mt_value = mae_value\<rparr>"

definition demo_stream :: "regression_sample list" where
  "demo_stream = [\<lparr>rs_features = [], rs_target = 1\<rparr>, \<lparr>rs_features = [], rs_target = 1\<rparr>]"

definition demo_last_value :: last_value_regressor where
  "demo_last_value = \<lparr>lv_config = \<lparr>bc_initial_prediction = 0\<rparr>, lv_last_value = None, lv_count = 0\<rparr>"

theorem evaluation_is_prequential_witness:
  "\<exists>v steps m' t'. evaluate_regression_with_steps last_value_ops mae_ops demo_stream (demo_last_value, mae_new)
      = (Inr (v, steps), (m', t'))
    \<and> length steps = 2 \<and> m' = run_ops last_value_learn [([], 1), ([], 1)] demo_last_value"
proof -
  have "\<not> is_err (fst (evaluate_regression_with_steps last_value_ops mae_ops demo_stream (demo_last_value, mae_new)))"
    by code_simp
  then obtain r where "fst (evaluate_regression_with_steps last_value_ops mae_ops demo_stream (demo_last_value, mae_new)) = Inr r"
    unfolding not_is_err_iff by blast
  then obtain v steps m' t' where
    e: "evaluate_regression_with_steps last_value_ops mae_ops demo_stream (demo_last_value, mae_new) = (Inr (v, steps), (m', t'))"
    by (metis prod.collapse)
  have "length steps = length demo_stream
      \<and> m' = run_ops (mo_learn last_value_ops) (map (\<lambda>x. (rs_features x, rs_target x)) demo_stream) demo_last_value"
    using evaluation_is_prequential [OF e] by blast
  then have "length steps = 2 \<and> m' = run_ops last_value_learn [([], 1), ([], 1)] demo_last_value"
    by (simp add: demo_stream_def last_value_ops_def del: run_ops.simps)
  with e show ?thesis by blast
qed

end
