(* ===== verification/Error_Text.thy ===== *)
theory Error_Text imports Rill_Error F64_Text begin

text \<open>The texts of \<open>RillError\<close> (\<open>src/error.rs\<close>), which other messages embed.\<close>

fun rill_error_text :: "rill_error \<Rightarrow> string" where
  "rill_error_text (DimensionMismatch expected actual) =
     ''dimension mismatch: expected '' @ decimal expected @ '', got '' @ decimal actual"
| "rill_error_text EmptyFeatures = ''empty features are not allowed''"
| "rill_error_text InvalidWindowSize = ''invalid window size: must be greater than zero''"
| "rill_error_text (InvalidLearningRate v) = ''invalid learning rate: '' @ f64_to_string v @ '' (must be finite and > 0)''"
| "rill_error_text (InvalidParameter name v) = ''invalid parameter `'' @ name @ ''`: '' @ f64_to_string v"
| "rill_error_text (NonFiniteValue field v) = ''non-finite value for `'' @ field @ ''`: '' @ f64_to_string v"
| "rill_error_text (InvalidProbability v) = ''invalid probability: '' @ f64_to_string v @ '' (must be in [0, 1])''"
| "rill_error_text InsufficientData = ''insufficient data to compute the requested quantity''"
| "rill_error_text (IncompatibleStateVersion expected actual) =
     ''incompatible state version: expected '' @ decimal (unat expected) @ '', got '' @ decimal (unat actual)"
| "rill_error_text UnsortedFeatureIds = ''sparse features must be sorted by FeatureId''"
| "rill_error_text (DuplicateFeatureId i) = ''duplicate feature id: '' @ decimal (unat i)"
| "rill_error_text (InvalidHashDimension n) = ''invalid hash dimension: '' @ decimal n @ '' (must be > 0)''"
| "rill_error_text (UnknownCategory c) = ''unknown category: '' @ c"
| "rill_error_text (MissingValue i) = ''missing value (NaN) at index '' @ decimal i"
| "rill_error_text (InvalidCapacity n) = ''invalid capacity: '' @ decimal n @ '' (must be greater than zero)''"
| "rill_error_text (InvalidSignificanceLevel v) = ''invalid significance level: '' @ f64_to_string v @ '' (must be in (0, 1))''"
| "rill_error_text (InvalidArmCount n) = ''invalid arm count: '' @ decimal n @ '' (must be greater than zero)''"
| "rill_error_text (InvalidEpsilon v) = ''invalid epsilon: '' @ f64_to_string v @ '' (must be in [0, 1])''"
| "rill_error_text (InvalidArm expected actual) =
     ''invalid arm index: '' @ decimal actual @ '' (must be < '' @ decimal expected @ '')''"
| "rill_error_text (InvalidReward v) = ''invalid reward: '' @ f64_to_string v @ '' (must be finite and in the valid range)''"
| "rill_error_text (InvalidFeatureCount n) = ''invalid feature count: '' @ decimal n @ '' (must be greater than zero)''"
| "rill_error_text (InvalidState m) = ''invalid model state: '' @ m"

end
