(* ===== verification/Ftrl.thy ===== *)
theory Ftrl imports Sparse Optim Error_Text BTree_Map F64_Bounds begin

text \<open>
  FTRL-Proximal on sparse features (\<open>src/models/ftrl.rs\<close>): the regressor and the classifier, which hold
  the same state and share everything after the gradient. Learning computes every next parameter before it
  stores any. What is proved: a model reached from \<open>new\<close> passes the validation that restoring runs, as long
  as the configuration keeps the denominator of the weights finite; and an example of a configuration that
  is accepted and does not.
\<close>

section \<open>Configuration\<close>

datatype new_feature_policy = PolicyReject | PolicyIgnore

record ftrl_config =
  fc_alpha :: f64
  fc_beta :: f64
  fc_l1 :: f64
  fc_l2 :: f64
  fc_max_features :: "usize option"
  fc_policy :: new_feature_policy

definition ftrl_config_default :: ftrl_config where
  "ftrl_config_default = \<lparr>fc_alpha = f_of_rat (1 / 10), fc_beta = 1, fc_l1 = 1, fc_l2 = 1,
     fc_max_features = None, fc_policy = PolicyReject\<rparr>"

definition ftrl_config_validate :: "ftrl_config \<Rightarrow> rill_error + unit" where
  "ftrl_config_validate c =
     and_then (ensure_finite ''alpha'' (fc_alpha c)) (\<lambda>_.
     and_then (ensure_finite ''beta'' (fc_beta c)) (\<lambda>_.
     and_then (ensure_finite ''l1'' (fc_l1 c)) (\<lambda>_.
     and_then (ensure_finite ''l2'' (fc_l2 c)) (\<lambda>_.
       if fc_alpha c \<le> 0 then Inl (InvalidParameter ''alpha'' (fc_alpha c))
       else if fc_beta c < 0 then Inl (InvalidParameter ''beta'' (fc_beta c))
       else if fc_l1 c < 0 then Inl (InvalidParameter ''l1'' (fc_l1 c))
       else if fc_l2 c < 0 then Inl (InvalidParameter ''l2'' (fc_l2 c))
       else if fc_max_features c = Some 0 then Inl (InvalidParameter ''max_features'' 0)
       else Inr ()))))"

definition ftrl_config_deserialize :: "ftrl_config \<Rightarrow> string + ftrl_config" where
  "ftrl_config_deserialize c = map_err rill_error_text (and_then (ftrl_config_validate c) (\<lambda>_. Inr c))"

record ftrl_diagnostics =
  fd_current_features :: usize
  fd_configured_max :: "usize option"
  fd_saturation :: "f64 option"
  fd_new_features_rejected :: bool

definition diagnostics_from_model :: "usize \<Rightarrow> usize option \<Rightarrow> new_feature_policy \<Rightarrow> ftrl_diagnostics" where
  "diagnostics_from_model current configured_max policy =
     \<lparr>fd_current_features = current, fd_configured_max = configured_max,
      fd_saturation = map_option (\<lambda>m. f_of_nat current / f_of_nat m) configured_max,
      fd_new_features_rejected = (case configured_max of None \<Rightarrow> False | Some m \<Rightarrow> m \<le> current \<and> policy = PolicyReject)\<rparr>"

section \<open>Parameters\<close>

record ftrl_param =
  ft_z :: f64
  ft_n :: f64

definition param_default :: ftrl_param where
  "param_default = \<lparr>ft_z = 0, ft_n = 0\<rparr>"

definition weight_denominator :: "ftrl_config \<Rightarrow> f64 \<Rightarrow> f64" where
  "weight_denominator c sqrt_n = fc_l2 c + (fc_beta c + sqrt_n) / fc_alpha c"

definition weight_numerator :: "ftrl_config \<Rightarrow> ftrl_param \<Rightarrow> f64" where
  "weight_numerator c p = - (ft_z p - f_signum (ft_z p) * fc_l1 c)"

definition weight :: "ftrl_config \<Rightarrow> ftrl_param \<Rightarrow> f64" where
  "weight c p =
     (if \<bar>ft_z p\<bar> \<le> fc_l1 c then 0
      else weight_numerator c p / weight_denominator c (f_sqrt (ft_n p)))"

definition intercept_weight :: "ftrl_config \<Rightarrow> ftrl_param \<Rightarrow> f64" where
  "intercept_weight c p =
     (if feq (ft_n p) 0 then 0 else - ft_z p / weight_denominator c (f_sqrt (ft_n p)))"

definition check_z_n :: "ftrl_param \<Rightarrow> rill_error + unit" where
  "check_z_n p =
     and_then (ensure_finite ''ftrl_z'' (ft_z p)) (\<lambda>_.
     and_then (ensure_finite ''ftrl_n'' (ft_n p)) (\<lambda>_.
       if ft_n p < 0 then Inl (InvalidState (''ftrl n must be non-negative, got '' @ f64_to_string (ft_n p))) else Inr ()))"

definition weight_checked :: "ftrl_config \<Rightarrow> ftrl_param \<Rightarrow> rill_error + f64" where
  "weight_checked c p =
     and_then (check_z_n p) (\<lambda>_.
       if \<bar>ft_z p\<bar> \<le> fc_l1 c then Inr 0
       else and_then (ensure_finite ''ftrl_weight_numerator'' (weight_numerator c p)) (\<lambda>_.
         let sqrt_n = f_sqrt (ft_n p) in
         and_then (ensure_finite ''ftrl_weight_sqrt_n'' sqrt_n) (\<lambda>_.
           let d = weight_denominator c sqrt_n in
           and_then (ensure_finite ''ftrl_weight_denominator'' d) (\<lambda>_.
             if feq d 0
             then Inl (InvalidState (''ftrl weight denominator is zero (z='' @ f64_to_string (ft_z p) @ '', n=''
               @ f64_to_string (ft_n p) @ '', alpha='' @ f64_to_string (fc_alpha c) @ '', beta='' @ f64_to_string (fc_beta c)
               @ '', l1='' @ f64_to_string (fc_l1 c) @ '', l2='' @ f64_to_string (fc_l2 c) @ '')''))
             else let w = weight_numerator c p / d in
               and_then (ensure_finite ''ftrl_weight'' w) (\<lambda>_. Inr w)))))"

definition intercept_weight_checked :: "ftrl_config \<Rightarrow> ftrl_param \<Rightarrow> rill_error + f64" where
  "intercept_weight_checked c p =
     and_then (check_z_n p) (\<lambda>_.
       if feq (ft_n p) 0
       then (if \<not> feq (ft_z p) 0
             then Inl (InvalidState (''ftrl intercept has n=0 but z='' @ f64_to_string (ft_z p)
               @ '' (non-zero); cannot produce a finite weight''))
             else Inr 0)
       else and_then (ensure_finite ''ftrl_intercept_numerator'' (- ft_z p)) (\<lambda>_.
         let sqrt_n = f_sqrt (ft_n p) in
         and_then (ensure_finite ''ftrl_intercept_sqrt_n'' sqrt_n) (\<lambda>_.
           let d = weight_denominator c sqrt_n in
           and_then (ensure_finite ''ftrl_intercept_denominator'' d) (\<lambda>_.
             if feq d 0
             then Inl (InvalidState (''ftrl intercept denominator is zero (z='' @ f64_to_string (ft_z p) @ '', n=''
               @ f64_to_string (ft_n p) @ '', alpha='' @ f64_to_string (fc_alpha c) @ '', beta='' @ f64_to_string (fc_beta c)
               @ '', l2='' @ f64_to_string (fc_l2 c) @ '')''))
             else let w = - ft_z p / d in
               and_then (ensure_finite ''ftrl_intercept_weight'' w) (\<lambda>_. Inr w)))))"

definition next_updated :: "ftrl_config \<Rightarrow> ftrl_param \<Rightarrow> f64 \<Rightarrow> f64 \<Rightarrow> rill_error + ftrl_param" where
  "next_updated c p gradient w =
     (let gradient_sq = gradient * gradient in
      and_then (ensure_finite ''ftrl_gradient_squared'' gradient_sq) (\<lambda>_.
        if \<not> feq gradient 0 \<and> feq gradient_sq 0 then Inl (NonFiniteValue ''ftrl_gradient_squared'' gradient_sq)
        else and_then (checked_finite_add (ft_n p) gradient_sq ''ftrl_n_new'') (\<lambda>n_new.
          let sigma = (f_sqrt n_new - f_sqrt (ft_n p)) / fc_alpha c in
          and_then (ensure_finite ''ftrl_sigma'' sigma) (\<lambda>_.
            let sigma_w = sigma * w in
            and_then (ensure_finite ''ftrl_sigma_weight'' sigma_w) (\<lambda>_.
              let z_delta = gradient - sigma_w in
              and_then (ensure_finite ''ftrl_z_delta'' z_delta) (\<lambda>_.
              and_then (checked_finite_add (ft_z p) z_delta ''ftrl_z_new'') (\<lambda>z_new.
                Inr \<lparr>ft_z = z_new, ft_n = n_new\<rparr>)))))))"

definition param_validate :: "ftrl_param \<Rightarrow> rill_error + unit" where
  "param_validate p =
     and_then (check_z_n p) (\<lambda>_.
       if feq (ft_n p) 0 \<and> \<not> feq (ft_z p) 0
       then Inl (InvalidState (''ftrl param has n=0 but z='' @ f64_to_string (ft_z p)
              @ '' (non-zero); this state cannot produce a finite weight''))
       else Inr ())"

definition param_deserialize :: "ftrl_param \<Rightarrow> string + ftrl_param" where
  "param_deserialize p = map_err rill_error_text (and_then (param_validate p) (\<lambda>_. Inr p))"

section \<open>Prediction\<close>

record ftrl_model =
  fm_config :: ftrl_config
  fm_params :: "(feature_id, ftrl_param) btree"
  fm_intercept :: ftrl_param
  fm_samples_seen :: u64

definition add_contribution :: "ftrl_model \<Rightarrow> f64 \<Rightarrow> feature_id \<times> f64 \<Rightarrow> rill_error + f64" where
  "add_contribution m dot iv = (case iv of (i, v) \<Rightarrow>
     and_then (ensure_finite ''sparse_value'' v) (\<lambda>_.
       case bt_get (fm_params m) i of
         None \<Rightarrow> Inr dot
       | Some p \<Rightarrow>
           let w = weight (fm_config m) p in
           and_then (ensure_finite ''ftrl_weight'' w) (\<lambda>_.
           and_then (ensure_finite ''ftrl_dot_contribution'' (w * v)) (\<lambda>_.
             checked_finite_add dot (w * v) ''ftrl_dot''))))"

definition compute_dot :: "ftrl_model \<Rightarrow> sparse_features \<Rightarrow> rill_error + f64" where
  "compute_dot m xs =
     (if sf_values xs = [] then Inl EmptyFeatures else try_fold (add_contribution m) 0 (sf_values xs))"

definition ftrl_new :: "ftrl_config \<Rightarrow> rill_error + ftrl_model" where
  "ftrl_new c = and_then (ftrl_config_validate c) (\<lambda>_.
     Inr \<lparr>fm_config = c, fm_params = bt_empty, fm_intercept = param_default, fm_samples_seen = 0\<rparr>)"

definition ftrl_weights :: "ftrl_model \<Rightarrow> (feature_id \<times> f64) list" where
  "ftrl_weights m = filter (\<lambda>(i, w). \<not> feq w 0) (map (\<lambda>(i, p). (i, weight (fm_config m) p)) (bt_entries (fm_params m)))"

definition ftrl_intercept :: "ftrl_model \<Rightarrow> f64" where
  "ftrl_intercept m = intercept_weight (fm_config m) (fm_intercept m)"

definition ftrl_feature_count :: "ftrl_model \<Rightarrow> usize" where
  "ftrl_feature_count m = bt_len (fm_params m)"

definition resource_diagnostics :: "ftrl_model \<Rightarrow> ftrl_diagnostics" where
  "resource_diagnostics m =
     diagnostics_from_model (bt_len (fm_params m)) (fc_max_features (fm_config m)) (fc_policy (fm_config m))"

definition raw_score :: "string \<Rightarrow> ftrl_model \<Rightarrow> sparse_features \<Rightarrow> rill_error + f64" where
  "raw_score label m xs =
     and_then (compute_dot m xs) (\<lambda>dot.
       let b = intercept_weight (fm_config m) (fm_intercept m) in
       and_then (ensure_finite ''ftrl_intercept'' b) (\<lambda>_. checked_finite_add dot b label))"

definition regressor_predict :: "ftrl_model \<Rightarrow> sparse_features \<Rightarrow> rill_error + f64" where
  "regressor_predict m xs = raw_score ''ftrl_prediction'' m xs"

definition classifier_predict_proba :: "(f64 \<Rightarrow> f64) \<Rightarrow> ftrl_model \<Rightarrow> sparse_features \<Rightarrow> rill_error + f64" where
  "classifier_predict_proba libexp m xs =
     and_then (raw_score ''ftrl_logit'' m xs) (\<lambda>logit. Inr (sigmoid libexp logit))"

section \<open>Learning\<close>

text \<open>Whether new features are skipped, or an error when the policy rejects the sample.\<close>

definition admit_features :: "ftrl_model \<Rightarrow> sparse_features \<Rightarrow> rill_error + bool" where
  "admit_features m xs =
     (let new_ids_count = length (filter (\<lambda>iv. \<not> bt_contains (fm_params m) (fst iv)) (sf_values xs)) in
      case fc_max_features (fm_config m) of
        None \<Rightarrow> Inr False
      | Some max_features \<Rightarrow>
          let projected = min (bt_len (fm_params m) + new_ids_count) usize_max in
          if max_features < projected
          then (case fc_policy (fm_config m) of
                  PolicyReject \<Rightarrow> Inl (InvalidState (''FTRL feature count '' @ decimal projected @ '' exceeds max_features ''
                    @ decimal max_features))
                | PolicyIgnore \<Rightarrow> Inr True)
          else Inr False)"

definition stored_param :: "ftrl_model \<Rightarrow> feature_id \<Rightarrow> ftrl_param" where
  "stored_param m i = (case bt_get (fm_params m) i of Some p \<Rightarrow> p | None \<Rightarrow> param_default)"

definition feature_update :: "ftrl_model \<Rightarrow> f64 \<Rightarrow> feature_id \<times> f64 \<Rightarrow> rill_error + feature_id \<times> ftrl_param" where
  "feature_update m grad iv = (case iv of (i, v) \<Rightarrow>
     let g = grad * v in
     and_then (ensure_finite ''ftrl_feature_gradient'' g) (\<lambda>_.
       let p = stored_param m i in
       and_then (next_updated (fm_config m) p g (weight (fm_config m) p)) (\<lambda>q.
       and_then (ensure_finite ''ftrl_next_weight'' (weight (fm_config m) q)) (\<lambda>_. Inr (i, q)))))"

definition apply_gradient :: "ftrl_model \<Rightarrow> sparse_features \<Rightarrow> f64 \<Rightarrow> u64 \<Rightarrow> rill_error + ftrl_model" where
  "apply_gradient m xs grad next_samples_seen =
     and_then (admit_features m xs) (\<lambda>skip.
     and_then (try_map (feature_update m grad)
                 (filter (\<lambda>iv. \<not> (\<not> bt_contains (fm_params m) (fst iv) \<and> skip)) (sf_values xs))) (\<lambda>updates.
       let w_b = intercept_weight (fm_config m) (fm_intercept m) in
       and_then (next_updated (fm_config m) (fm_intercept m) grad w_b) (\<lambda>b.
       and_then (ensure_finite ''ftrl_next_intercept_weight'' (intercept_weight (fm_config m) b)) (\<lambda>_.
         Inr (m\<lparr>fm_params := fold (\<lambda>u. bt_insert (fst u) (snd u)) updates (fm_params m), fm_intercept := b,
                fm_samples_seen := next_samples_seen\<rparr>)))))"

definition regressor_learn :: "sparse_features \<times> f64 \<Rightarrow> ftrl_model \<Rightarrow> (rill_error + unit) \<times> ftrl_model" where
  "regressor_learn xt m = (case xt of (xs, target) \<Rightarrow> transact m
     (if sf_values xs = [] then Inl EmptyFeatures
      else and_then (ensure_finite ''target'' target) (\<lambda>_.
        and_then (checked_increment (fm_samples_seen m) ''samples_seen'') (\<lambda>n.
        and_then (regressor_predict m xs) (\<lambda>prediction.
        and_then (ensure_finite ''ftrl_prediction'' prediction) (\<lambda>_.
          let grad = prediction - target in
          and_then (ensure_finite ''ftrl_gradient'' grad) (\<lambda>_. apply_gradient m xs grad n)))))))"

definition classifier_learn ::
    "(f64 \<Rightarrow> f64) \<Rightarrow> sparse_features \<times> bool \<Rightarrow> ftrl_model \<Rightarrow> (rill_error + unit) \<times> ftrl_model" where
  "classifier_learn libexp xt m = (case xt of (xs, target) \<Rightarrow> transact m
     (if sf_values xs = [] then Inl EmptyFeatures
      else and_then (checked_increment (fm_samples_seen m) ''samples_seen'') (\<lambda>n.
        and_then (classifier_predict_proba libexp m xs) (\<lambda>probability.
        and_then (ensure_finite ''ftrl_probability'' probability) (\<lambda>_.
          let grad = probability - (if target then 1 else 0) in
          and_then (ensure_finite ''ftrl_gradient'' grad) (\<lambda>_. apply_gradient m xs grad n))))))"

definition ftrl_reset :: "ftrl_model \<Rightarrow> ftrl_model" where
  "ftrl_reset m = m\<lparr>fm_params := bt_empty, fm_intercept := param_default, fm_samples_seen := 0\<rparr>"

section \<open>Validation of a restored model\<close>

definition validate_stored :: "ftrl_config \<Rightarrow> feature_id \<times> ftrl_param \<Rightarrow> rill_error + unit" where
  "validate_stored c ip = (case ip of (i, p) \<Rightarrow>
     and_then (param_validate p) (\<lambda>_.
     and_then (map_err (\<lambda>e. InvalidState (''ftrl feature '' @ decimal (unat i) @ '' weight: '' @ rill_error_text e))
       (weight_checked c p)) (\<lambda>_. Inr ())))"

definition validate_invariants :: "ftrl_model \<Rightarrow> rill_error + unit" where
  "validate_invariants m =
     and_then (ftrl_config_validate (fm_config m)) (\<lambda>_.
     and_then (case fc_max_features (fm_config m) of
                 None \<Rightarrow> Inr ()
               | Some max_features \<Rightarrow> ensure (bt_len (fm_params m) \<le> max_features)
                   (InvalidState (''FTRL stored feature count '' @ decimal (bt_len (fm_params m)) @ '' exceeds max_features ''
                     @ decimal max_features))) (\<lambda>_.
     and_then (try_for_each (validate_stored (fm_config m)) (bt_entries (fm_params m))) (\<lambda>_.
     and_then (param_validate (fm_intercept m)) (\<lambda>_.
     and_then (map_err (\<lambda>e. InvalidState (''ftrl intercept weight: '' @ rill_error_text e))
       (intercept_weight_checked (fm_config m) (fm_intercept m))) (\<lambda>_. Inr ())))))"

text \<open>The \<open>Deserialize\<close> of both models: the parts check themselves first.\<close>

definition ftrl_deserialize :: "ftrl_model \<Rightarrow> string + ftrl_model" where
  "ftrl_deserialize m =
     and_then (ftrl_config_deserialize (fm_config m)) (\<lambda>_.
     and_then (try_for_each (\<lambda>(i, p). and_then (param_deserialize p) (\<lambda>_. Inr ())) (bt_entries (fm_params m))) (\<lambda>_.
     and_then (param_deserialize (fm_intercept m)) (\<lambda>_.
     and_then (map_err rill_error_text (validate_invariants m)) (\<lambda>_. Inr m))))"


text \<open>The classifier repeats the methods of the regressor that only touch the shared state.\<close>

definition classifier_new :: "ftrl_config \<Rightarrow> rill_error + ftrl_model" where
  "classifier_new = ftrl_new"

definition classifier_weights :: "ftrl_model \<Rightarrow> (feature_id \<times> f64) list" where
  "classifier_weights = ftrl_weights"

definition classifier_intercept :: "ftrl_model \<Rightarrow> f64" where
  "classifier_intercept = ftrl_intercept"

definition classifier_feature_count :: "ftrl_model \<Rightarrow> usize" where
  "classifier_feature_count = ftrl_feature_count"

definition classifier_diagnostics :: "ftrl_model \<Rightarrow> ftrl_diagnostics" where
  "classifier_diagnostics = resource_diagnostics"

definition classifier_validate_invariants :: "ftrl_model \<Rightarrow> rill_error + unit" where
  "classifier_validate_invariants = validate_invariants"

definition classifier_deserialize :: "ftrl_model \<Rightarrow> string + ftrl_model" where
  "classifier_deserialize = ftrl_deserialize"

definition classifier_reset :: "ftrl_model \<Rightarrow> ftrl_model" where
  "classifier_reset = ftrl_reset"

section \<open>The denominator of the weights\<close>

text \<open>
  A configuration whose numbers leave room: then no weight has an infinite denominator, whatever squared
  gradients were summed up.
\<close>

definition roomy :: "ftrl_config \<Rightarrow> bool" where
  "roomy c \<longleftrightarrow> 2 powi (- 500) \<le> f_val (fc_alpha c) \<and> f_val (fc_beta c) \<le> 2 powi 500 \<and> f_val (fc_l2 c) \<le> 2 powi 1000"

lemma ftrl_config_validate_Inr [result_simps]:
  "ftrl_config_validate c = Inr u \<longleftrightarrow> is_finite (fc_alpha c) \<and> is_finite (fc_beta c) \<and> is_finite (fc_l1 c)
     \<and> is_finite (fc_l2 c) \<and> 0 < f_val (fc_alpha c) \<and> 0 \<le> f_val (fc_beta c) \<and> 0 \<le> f_val (fc_l1 c)
     \<and> 0 \<le> f_val (fc_l2 c) \<and> fc_max_features c \<noteq> Some 0"
  by (auto simp: ftrl_config_validate_def result_simps f64_simps not_le not_less)

lemma denominator_finite:
  assumes "ftrl_config_validate c = Inr ()" "roomy c" "is_finite n" "0 \<le> f_val n"
  shows "is_finite (weight_denominator c (f_sqrt n))"
proof -
  have c: "is_finite (fc_alpha c)" "is_finite (fc_beta c)" "is_finite (fc_l2 c)" "0 \<le> f_val (fc_beta c)" "0 \<le> f_val (fc_l2 c)"
    using assms(1) by (simp_all add: ftrl_config_validate_Inr)
  have "f_upto 500 (fc_beta c)" "f_upto 1000 (fc_l2 c)" using c assms(2) by (simp_all add: f_upto_def roomy_def)
  then have u: "f_upto 512 (fc_beta c)" "f_upto 1013 (fc_l2 c)" using f_upto_mono by (force, force)
  have "f_upto (512 + 1) (fc_beta c + f_sqrt n)" using u f_upto_sqrt [OF assms(3,4)] by (intro f_upto_plus) simp_all
  then have "f_upto (513 - (- 500)) ((fc_beta c + f_sqrt n) / fc_alpha c)"
    using c assms(2) by (intro f_upto_divide) (simp_all add: roomy_def)
  then have "f_upto (1013 + 1) (fc_l2 c + (fc_beta c + f_sqrt n) / fc_alpha c)" using u by (intro f_upto_plus) simp_all
  then show ?thesis by (simp add: weight_denominator_def f_upto_finite)
qed

section \<open>The invariant of the parameters\<close>

definition param_ok :: "ftrl_param \<Rightarrow> bool" where
  "param_ok p \<longleftrightarrow> is_finite (ft_z p) \<and> is_finite (ft_n p) \<and> 0 \<le> f_val (ft_n p) \<and> (f_val (ft_n p) = 0 \<longrightarrow> f_val (ft_z p) = 0)"

lemma param_default_ok [simp]: "param_ok param_default"
  by (simp add: param_ok_def param_default_def)

lemma check_z_n_Inr [result_simps]:
  "check_z_n p = Inr u \<longleftrightarrow> is_finite (ft_z p) \<and> is_finite (ft_n p) \<and> 0 \<le> f_val (ft_n p)"
  by (auto simp: check_z_n_def result_simps f64_simps not_less)

lemma param_validate_Inr [result_simps]: "param_validate p = Inr u \<longleftrightarrow> param_ok p"
  by (auto simp: param_validate_def param_ok_def result_simps f64_simps)

lemma sum_zero_left:
  assumes "is_finite (a + b)" "0 \<le> f_val a" "0 \<le> f_val b" "f_val (a + b) = 0"
  shows "f_val a = 0 \<and> f_val b = 0"
proof -
  have "rnd (f_val a) \<le> f_val (a + b)" "rnd (f_val b) \<le> f_val (a + b)"
    using assms(2,3) by (simp_all only: f_val_plus [OF assms(1)]) (intro rnd_mono; simp)+
  then show ?thesis using assms by simp
qed

lemma f_val_zero_ops:
  "is_finite (x + y) \<Longrightarrow> f_val x = 0 \<Longrightarrow> f_val y = 0 \<Longrightarrow> f_val (x + y) = 0"
  "is_finite (x - y) \<Longrightarrow> f_val x = 0 \<Longrightarrow> f_val y = 0 \<Longrightarrow> f_val (x - y) = 0"
  "is_finite (x * y) \<Longrightarrow> f_val x = 0 \<Longrightarrow> f_val (x * y) = 0"
  "is_finite (x / y) \<Longrightarrow> is_finite y \<Longrightarrow> f_val x = 0 \<Longrightarrow> f_val (x / y) = 0"
  using finite_divideD [of x y] by (simp_all add: f_val_plus f_val_minus f_val_times f_val_divide)

lemma next_updated_ok:
  assumes "next_updated c p g w = Inr q" "param_ok p" "is_finite (fc_alpha c)"
  shows "param_ok q"
proof -
  let ?n = "ft_n p + g * g"
  let ?s = "(f_sqrt ?n - f_sqrt (ft_n p)) / fc_alpha c"
  from assms(1) have gg: "is_finite (g * g)" "\<not> (\<not> feq g 0 \<and> feq (g * g) 0)" and n: "is_finite ?n"
    and s: "is_finite ?s" "is_finite (?s * w)" "is_finite (g - ?s * w)" "is_finite (ft_z p + (g - ?s * w))"
    and q: "q = \<lparr>ft_z = ft_z p + (g - ?s * w), ft_n = ?n\<rparr>"
    by (auto simp: next_updated_def Let_def result_simps split: if_splits)
  have p: "0 \<le> f_val (ft_n p)" "is_finite (ft_n p)" "f_val (ft_n p) = 0 \<Longrightarrow> f_val (ft_z p) = 0"
    using assms(2) by (simp_all add: param_ok_def)
  have g2: "0 \<le> f_val (g * g)" using square_nonneg gg(1) by blast
  have g: "is_finite g" using finite_timesD [OF gg(1)] by simp
  have n0: "0 \<le> f_val ?n" using sum_nonneg n p(1) g2 by blast
  have "f_val (ft_z p + (g - ?s * w)) = 0" if z: "f_val ?n = 0"
  proof -
    have v: "f_val (ft_n p) = 0" "f_val (g * g) = 0" using sum_zero_left [OF n p(1) g2 z] by simp_all
    then have "f_val g = 0" using gg g by (auto simp: feq_finite)
    moreover have "f_val (f_sqrt ?n) = 0" "f_val (f_sqrt (ft_n p)) = 0" using f_sqrt_zero n z p(2) v(1) by blast+
    moreover have "is_finite (f_sqrt ?n - f_sqrt (ft_n p))" using finite_divideD [OF s(1) assms(3)] by simp
    ultimately show ?thesis using s p(3) v(1) assms(3) by (simp add: f_val_zero_ops)
  qed
  then show ?thesis using n n0 s(4) by (simp add: q param_ok_def)
qed

lemma weight_checked_ok:
  assumes "param_ok p" "is_finite (weight c p)" "is_finite (weight_denominator c (f_sqrt (ft_n p)))"
  shows "\<exists>w. weight_checked c p = Inr w"
proof (cases "\<bar>ft_z p\<bar> \<le> fc_l1 c")
  case True
  then show ?thesis using assms(1) by (simp add: weight_checked_def param_ok_def check_z_n_def ensure_finite_def f64_simps)
next
  case False
  let ?d = "weight_denominator c (f_sqrt (ft_n p))"
  have w: "is_finite (weight_numerator c p / ?d)" using assms(2) False by (simp add: weight_def)
  note d = finite_divideD [OF w assms(3)]
  have "is_finite (f_sqrt (ft_n p))" using f_upto_sqrt assms(1) f_upto_finite by (auto simp: param_ok_def)
  then show ?thesis
    using False assms w d
    by (simp add: weight_checked_def param_ok_def check_z_n_def ensure_finite_def f64_simps Let_def)
qed

lemma intercept_checked_ok:
  assumes "param_ok p" "is_finite (intercept_weight c p)" "is_finite (weight_denominator c (f_sqrt (ft_n p)))"
  shows "\<exists>w. intercept_weight_checked c p = Inr w"
proof (cases "feq (ft_n p) 0")
  case True
  then have "feq (ft_z p) 0" using assms(1) by (simp add: param_ok_def feq_finite)
  then show ?thesis using True assms(1)
    by (simp add: intercept_weight_checked_def param_ok_def check_z_n_def ensure_finite_def f64_simps)
next
  case False
  let ?d = "weight_denominator c (f_sqrt (ft_n p))"
  have w: "is_finite (- ft_z p / ?d)" using assms(2) False by (simp add: intercept_weight_def)
  note d = finite_divideD [OF w assms(3)]
  have "is_finite (f_sqrt (ft_n p))" using f_upto_sqrt assms(1) f_upto_finite by (auto simp: param_ok_def)
  then show ?thesis
    using False assms w d
    by (simp add: intercept_weight_checked_def param_ok_def check_z_n_def ensure_finite_def f64_simps Let_def)
qed

section \<open>Reachable models\<close>

definition stored_ok :: "ftrl_config \<Rightarrow> (feature_id, ftrl_param) btree \<Rightarrow> bool" where
  "stored_ok c ps \<longleftrightarrow> (\<forall>i p. bt_get ps i = Some p \<longrightarrow> param_ok p \<and> is_finite (weight c p))"

definition ftrl_inv :: "ftrl_model \<Rightarrow> bool" where
  "ftrl_inv m \<longleftrightarrow> ftrl_config_validate (fm_config m) = Inr () \<and> stored_ok (fm_config m) (fm_params m)
     \<and> param_ok (fm_intercept m) \<and> is_finite (intercept_weight (fm_config m) (fm_intercept m))
     \<and> (\<forall>k. fc_max_features (fm_config m) = Some k \<longrightarrow> k < usize_max \<longrightarrow> bt_len (fm_params m) \<le> k)"

lemma weight_default: "0 \<le> f_val (fc_l1 c) \<Longrightarrow> is_finite (fc_l1 c) \<Longrightarrow> weight c param_default = 0"
  by (simp add: weight_def param_default_def f64_simps)

lemma intercept_default: "intercept_weight c param_default = 0"
  by (simp add: intercept_weight_def param_default_def feq_finite)

lemma feature_update_Inr:
  "feature_update m g iv = Inr u \<longleftrightarrow> fst u = fst iv \<and> is_finite (g * snd iv)
     \<and> next_updated (fm_config m) (stored_param m (fst u)) (g * snd iv) (weight (fm_config m) (stored_param m (fst u))) = Inr (snd u)
     \<and> is_finite (weight (fm_config m) (snd u))"
  by (auto simp: feature_update_def Let_def result_simps split: prod.splits)

lemma stored_param_ok: "ftrl_inv m \<Longrightarrow> param_ok (stored_param m i)"
  by (auto simp: stored_param_def ftrl_inv_def stored_ok_def split: option.splits)

lemma stored_fold:
  assumes "\<forall>u \<in> set ups. param_ok (snd u) \<and> is_finite (weight c (snd u))" "stored_ok c ps"
  shows "stored_ok c (fold (\<lambda>u. bt_insert (fst u) (snd u)) ups ps)"
  using assms
proof (induction ups arbitrary: ps)
  case (Cons u ups)
  have "stored_ok c (bt_insert (fst u) (snd u) ps)" using Cons.prems by (simp add: stored_ok_def)
  from Cons.IH [OF _ this] show ?case using Cons.prems(1) by simp
qed simp

lemma bt_len_fold:
  "bt_len (fold (\<lambda>u. bt_insert (fst u) (snd u)) ups ps) \<le> bt_len ps + length (filter (\<lambda>u. \<not> bt_contains ps (fst u)) ups)"
proof (induction ups arbitrary: ps)
  case (Cons u ups)
  let ?ps = "bt_insert (fst u) (snd u) ps"
  let ?new = "\<lambda>ps. length (filter (\<lambda>u. \<not> bt_contains ps (fst u)) ups)"
  have 1: "?new ?ps \<le> ?new ps" by (induction ups) auto
  have 2: "bt_len ?ps = bt_len ps + (if bt_contains ps (fst u) then 0 else 1)" by (simp add: bt_len_insert)
  have 3: "length (filter (\<lambda>u. \<not> bt_contains ps (fst u)) (u # ups)) = (if bt_contains ps (fst u) then 0 else 1) + ?new ps" by simp
  have 4: "fold (\<lambda>u. bt_insert (fst u) (snd u)) (u # ups) ps = fold (\<lambda>u. bt_insert (fst u) (snd u)) ups ?ps" by simp
  show ?case using Cons.IH [of ?ps] 1 unfolding 2 3 4 by linarith
qed simp

lemma updates_new:
  assumes "list_all2 (\<lambda>iv u. fst u = fst iv) ivs ups"
  shows "length (filter (\<lambda>u. P (fst u)) ups) = length (filter (\<lambda>iv. P (fst iv)) ivs)"
  using assms by (induction rule: list_all2_induct) simp_all

lemma apply_gradient_Inr:
  assumes "apply_gradient m xs g n = Inr m'"
  shows "\<exists>skip ups b. admit_features m xs = Inr skip
    \<and> list_all2 (\<lambda>iv u. feature_update m g iv = Inr u)
        (filter (\<lambda>iv. \<not> (\<not> bt_contains (fm_params m) (fst iv) \<and> skip)) (sf_values xs)) ups
    \<and> next_updated (fm_config m) (fm_intercept m) g (intercept_weight (fm_config m) (fm_intercept m)) = Inr b
    \<and> is_finite (intercept_weight (fm_config m) b)
    \<and> m' = m\<lparr>fm_params := fold (\<lambda>u. bt_insert (fst u) (snd u)) ups (fm_params m), fm_intercept := b, fm_samples_seen := n\<rparr>"
  using assms by (auto simp: apply_gradient_def Let_def result_simps)

lemma admitted_length:
  assumes "admit_features m xs = Inr skip" "fc_max_features (fm_config m) = Some k" "k < usize_max"
    and "bt_len (fm_params m) \<le> k"
  shows "bt_len (fm_params m)
    + length (filter (\<lambda>iv. \<not> bt_contains (fm_params m) (fst iv))
        (filter (\<lambda>iv. \<not> (\<not> bt_contains (fm_params m) (fst iv) \<and> skip)) (sf_values xs))) \<le> k"
proof (cases skip)
  case True
  then have "filter (\<lambda>iv. \<not> bt_contains (fm_params m) (fst iv))
      (filter (\<lambda>iv. \<not> (\<not> bt_contains (fm_params m) (fst iv) \<and> skip)) (sf_values xs)) = []"
    by (auto simp: filter_empty_conv)
  then show ?thesis using assms(4) by simp
next
  case False
  then show ?thesis using assms
    by (auto simp: admit_features_def Let_def split: if_splits new_feature_policy.splits)
qed

lemma apply_gradient_inv:
  assumes i: "ftrl_inv m" and a: "apply_gradient m xs g n = Inr m'"
  shows "ftrl_inv m' \<and> fm_samples_seen m' = n"
proof -
  obtain skip ups b where k: "admit_features m xs = Inr skip"
    and u: "list_all2 (\<lambda>iv u. feature_update m g iv = Inr u)
        (filter (\<lambda>iv. \<not> (\<not> bt_contains (fm_params m) (fst iv) \<and> skip)) (sf_values xs)) ups"
    and b: "next_updated (fm_config m) (fm_intercept m) g (intercept_weight (fm_config m) (fm_intercept m)) = Inr b"
      "is_finite (intercept_weight (fm_config m) b)"
    and m': "m' = m\<lparr>fm_params := fold (\<lambda>u. bt_insert (fst u) (snd u)) ups (fm_params m), fm_intercept := b, fm_samples_seen := n\<rparr>"
    using apply_gradient_Inr [OF a] by blast
  have alpha: "is_finite (fc_alpha (fm_config m))" using i by (simp add: ftrl_inv_def ftrl_config_validate_Inr)
  have "param_ok (snd v) \<and> is_finite (weight (fm_config m) (snd v))" if "v \<in> set ups" for v
    by (rule list_all2_right [OF u that]) (use next_updated_ok stored_param_ok [OF i] alpha in \<open>auto simp: feature_update_Inr\<close>)
  then have s: "stored_ok (fm_config m) (fold (\<lambda>u. bt_insert (fst u) (snd u)) ups (fm_params m))"
    using i by (intro stored_fold) (auto simp: ftrl_inv_def)
  have "list_all2 (\<lambda>iv u. fst u = fst iv) (filter (\<lambda>iv. \<not> (\<not> bt_contains (fm_params m) (fst iv) \<and> skip)) (sf_values xs)) ups"
    using u by (rule list_all2_mono) (simp add: feature_update_Inr)
  note len = updates_new [OF this, of "\<lambda>i. \<not> bt_contains (fm_params m) i"]
  have "bt_len (fold (\<lambda>u. bt_insert (fst u) (snd u)) ups (fm_params m)) \<le> c"
    if "fc_max_features (fm_config m) = Some c" "c < usize_max" for c
    using admitted_length [OF k that] bt_len_fold [of ups "fm_params m"] i that len by (auto simp: ftrl_inv_def)
  then show ?thesis using i s b next_updated_ok [OF b(1) _ alpha] by (simp add: ftrl_inv_def m')
qed

lemma regressor_learn_Inr [result_simps]:
  "regressor_learn xt m = (Inr u, m') \<longleftrightarrow> sf_values (fst xt) \<noteq> [] \<and> is_finite (snd xt)
     \<and> unat (fm_samples_seen m) + 1 < 2 ^ 64
     \<and> (\<exists>y. regressor_predict m (fst xt) = Inr y \<and> is_finite y \<and> is_finite (y - snd xt)
        \<and> apply_gradient m (fst xt) (y - snd xt) (fm_samples_seen m + 1) = Inr m')"
  by (cases xt) (auto simp: regressor_learn_def Let_def result_simps)

lemma classifier_learn_Inr [result_simps]:
  "classifier_learn libexp xt m = (Inr u, m') \<longleftrightarrow> sf_values (fst xt) \<noteq> []
     \<and> unat (fm_samples_seen m) + 1 < 2 ^ 64
     \<and> (\<exists>y. classifier_predict_proba libexp m (fst xt) = Inr y \<and> is_finite y \<and> is_finite (y - (if snd xt then 1 else 0))
        \<and> apply_gradient m (fst xt) (y - (if snd xt then 1 else 0)) (fm_samples_seen m + 1) = Inr m')"
  by (cases xt) (auto simp: classifier_learn_def Let_def result_simps)

lemma ftrl_atomic:
  "regressor_learn xt m = (Inl e, m') \<Longrightarrow> m' = m" "classifier_learn libexp xb m = (Inl e, m') \<Longrightarrow> m' = m"
  by (simp_all add: regressor_learn_def classifier_learn_def transact_Inl split: prod.splits)

lemma ftrl_reset_inv: "ftrl_inv m \<Longrightarrow> ftrl_inv (ftrl_reset m)"
  by (simp add: ftrl_inv_def ftrl_reset_def stored_ok_def intercept_default)

interpretation ftrl_regressor: counted_machine regressor_learn ftrl_inv fm_samples_seen ftrl_reset
proof unfold_locales
  show "regressor_learn x s = (Inl e, s') \<Longrightarrow> s' = s" for x s e s' by (rule ftrl_atomic)
  show "ftrl_inv s \<Longrightarrow> regressor_learn x s = (Inr r, s') \<Longrightarrow> ftrl_inv s'" for s x r s'
    using apply_gradient_inv by (auto simp: regressor_learn_Inr)
  show "regressor_learn x s = (Inr u, s') \<Longrightarrow> unat (fm_samples_seen s') = unat (fm_samples_seen s) + 1" for x s u s'
    using apply_gradient_Inr by (fastforce simp: regressor_learn_Inr unat_inc)
qed (simp_all add: ftrl_reset_inv, simp add: ftrl_reset_def)

interpretation ftrl_classifier: counted_machine "classifier_learn libexp" ftrl_inv fm_samples_seen ftrl_reset for libexp
proof unfold_locales
  show "classifier_learn libexp x s = (Inl e, s') \<Longrightarrow> s' = s" for x s e s' by (rule ftrl_atomic)
  show "ftrl_inv s \<Longrightarrow> classifier_learn libexp x s = (Inr r, s') \<Longrightarrow> ftrl_inv s'" for s x r s'
    using apply_gradient_inv by (auto simp: classifier_learn_Inr)
  show "classifier_learn libexp x s = (Inr u, s') \<Longrightarrow> unat (fm_samples_seen s') = unat (fm_samples_seen s) + 1" for x s u s'
    using apply_gradient_Inr by (fastforce simp: classifier_learn_Inr unat_inc)
qed (simp_all add: ftrl_reset_inv, simp add: ftrl_reset_def)

lemma ftrl_new_inv: "ftrl_new c = Inr m \<Longrightarrow> ftrl_inv m \<and> fm_config m = c"
  by (auto simp: ftrl_new_def and_then_Inr ftrl_inv_def stored_ok_def intercept_default)

lemma learn_keeps_config:
  "fm_config (snd (regressor_learn xt m)) = fm_config m" "fm_config (snd (classifier_learn libexp xb m)) = fm_config m"
proof -
  have ap: "apply_gradient m xs g n = Inr m' \<Longrightarrow> fm_config m' = fm_config m" for xs g n m'
    using apply_gradient_Inr by fastforce
  obtain r m1 where e: "regressor_learn xt m = (r, m1)" by fastforce
  have "fm_config m1 = fm_config m"
  proof (cases r)
    case (Inl x)
    then show ?thesis using ftrl_atomic(1) e by metis
  next
    case (Inr u)
    then show ?thesis using ap e regressor_learn_Inr by metis
  qed
  then show "fm_config (snd (regressor_learn xt m)) = fm_config m" using e by simp
  obtain q m2 where f: "classifier_learn libexp xb m = (q, m2)" by fastforce
  have "fm_config m2 = fm_config m"
  proof (cases q)
    case (Inl x)
    then show ?thesis using ftrl_atomic(2) f by metis
  next
    case (Inr u)
    then show ?thesis using ap f classifier_learn_Inr by metis
  qed
  then show "fm_config (snd (classifier_learn libexp xb m)) = fm_config m" using f by simp
qed

lemma runs_keep_config:
  "fm_config (run_ops regressor_learn xs m) = fm_config m" "fm_config (run_ops (classifier_learn libexp) ys m) = fm_config m"
  by (induction xs arbitrary: m) (simp_all add: learn_keeps_config, induction ys arbitrary: m, simp_all add: learn_keeps_config)

lemma ftrl_inv_restores:
  assumes i: "ftrl_inv m" and r: "roomy (fm_config m)" and k: "\<forall>k. fc_max_features (fm_config m) = Some k \<longrightarrow> k < usize_max"
  shows "validate_invariants m = Inr () \<and> ftrl_deserialize m = Inr m"
proof -
  let ?c = "fm_config m"
  have c: "ftrl_config_validate ?c = Inr ()" using i by (simp add: ftrl_inv_def)
  have d: "is_finite (weight_denominator ?c (f_sqrt (ft_n p)))" if "param_ok p" for p
    using denominator_finite [OF c r] that by (simp add: param_ok_def)
  have p: "param_ok p \<and> is_finite (weight ?c p)" if "(j, p) \<in> set (bt_entries (fm_params m))" for j p
    using i that by (auto simp: ftrl_inv_def stored_ok_def bt_get_iff)
  have b: "param_ok (fm_intercept m)" "is_finite (intercept_weight ?c (fm_intercept m))" using i by (simp_all add: ftrl_inv_def)
  obtain w where w: "intercept_weight_checked ?c (fm_intercept m) = Inr w" using intercept_checked_ok b d by blast
  have s: "validate_stored ?c ip = Inr ()" if "ip \<in> set (bt_entries (fm_params m))" for ip
  proof -
    obtain j q where ip: "ip = (j, q)" by fastforce
    then have q: "param_ok q" "is_finite (weight ?c q)" using p that by blast+
    then obtain w where "weight_checked ?c q = Inr w" using weight_checked_ok [OF q d] by blast
    then show ?thesis using q(1) by (simp add: ip validate_stored_def and_then_Inr param_validate_Inr)
  qed
  have v: "validate_invariants m = Inr ()"
    using c s b(1) w i k
    by (auto simp: validate_invariants_def and_then_Inr try_for_each_Inr ensure_Inr param_validate_Inr ftrl_inv_def split: option.split)
  have "ftrl_config_deserialize ?c = Inr ?c" using c by (simp add: ftrl_config_deserialize_def)
  moreover have "param_deserialize q = Inr q" if "param_ok q" for q
    using that param_validate_Inr [of q "()"] by (simp add: param_deserialize_def)
  ultimately show ?thesis using v p b(1) by (auto simp: ftrl_deserialize_def and_then_Inr try_for_each_Inr)
qed

lemma ftrl_run_restores:
  assumes "ftrl_new c = Inr m0" and "2 powi (- 500) \<le> f_val (fc_alpha c)" and "f_val (fc_beta c) \<le> 2 powi 500"
    and "f_val (fc_l2 c) \<le> 2 powi 1000" and "\<forall>k. fc_max_features c = Some k \<longrightarrow> k < usize_max"
    and "m = run_ops regressor_learn xs m0 \<or> m = run_ops (classifier_learn libexp) ys m0"
  shows "validate_invariants m = Inr () \<and> ftrl_deserialize m = Inr m
    \<and> (\<forall>k. fc_max_features c = Some k \<longrightarrow> ftrl_feature_count m \<le> k)"
proof -
  have m0: "ftrl_inv m0" "fm_config m0 = c" using ftrl_new_inv [OF assms(1)] by simp_all
  have i: "ftrl_inv m" using assms(6) ftrl_regressor.run_inv ftrl_classifier.run_inv m0(1) by blast
  have c: "fm_config m = c" using assms(6) runs_keep_config m0(2) by metis
  have "roomy (fm_config m)" using assms(2-4) by (simp add: roomy_def c)
  then show ?thesis using ftrl_inv_restores [OF i] assms(5) i by (auto simp: c ftrl_inv_def ftrl_feature_count_def)
qed

text \<open>
  What FTRL learns can be restored. Whatever samples a new regressor or classifier is offered, the model
  it becomes passes the checks that restoring it runs: parameters finite, squared gradients not negative and
  zero only with zero gradient, weights computable, and no more features than configured. The configuration
  is assumed to leave room for the denominator of the weights, \<open>alpha\<close> at least \<open>2 ^ -500\<close>, \<open>beta\<close> at most
  \<open>2 ^ 500\<close> and \<open>l2\<close> at most \<open>2 ^ 1000\<close>; without that the code learns states it refuses to restore.
\<close>

theorem ftrl_reachable_valid:
  assumes "ftrl_new c = Inr m0" and "2 powi (- 500) \<le> f_val (fc_alpha c)" and "f_val (fc_beta c) \<le> 2 powi 500"
    and "f_val (fc_l2 c) \<le> 2 powi 1000" and "\<forall>k. fc_max_features c = Some k \<longrightarrow> k < usize_max"
    and "m = run_ops regressor_learn xs m0 \<or> m = run_ops (classifier_learn libexp) ys m0"
  shows "validate_invariants m = Inr () \<and> ftrl_deserialize m = Inr m
    \<and> (\<forall>k. fc_max_features c = Some k \<longrightarrow> ftrl_feature_count m \<le> k)"
  by (rule ftrl_run_restores [OF assms])

definition demo_ftrl_config :: ftrl_config where
  "demo_ftrl_config = \<lparr>fc_alpha = 1, fc_beta = 1, fc_l1 = 0, fc_l2 = 1, fc_max_features = Some 1, fc_policy = PolicyIgnore\<rparr>"

definition demo_ftrl :: ftrl_model where
  "demo_ftrl = \<lparr>fm_config = demo_ftrl_config, fm_params = bt_empty, fm_intercept = param_default, fm_samples_seen = 0\<rparr>"

lemma demo_ftrl_new: "ftrl_new demo_ftrl_config = Inr demo_ftrl"
  by (simp add: ftrl_new_def demo_ftrl_config_def demo_ftrl_def ftrl_config_validate_def ensure_finite_def f64_simps)

theorem ftrl_reachable_valid_witness:
  "let xs = [(\<lparr>sf_values = [(3, 1)]\<rparr>, 1), (\<lparr>sf_values = [(3, 1), (5, f_inf)]\<rparr>, 1), (\<lparr>sf_values = [(3, - 1)]\<rparr>, 0)]
   in validate_invariants (run_ops regressor_learn xs demo_ftrl) = Inr ()"
proof -
  have "(2 :: rat) powi (- 500) \<le> 2 powi 0" by (simp only: powi_le_iff)
  then have c: "2 powi (- 500) \<le> f_val (fc_alpha demo_ftrl_config)" "f_val (fc_beta demo_ftrl_config) \<le> 2 powi 500"
    "f_val (fc_l2 demo_ftrl_config) \<le> 2 powi 1000" "\<forall>k. fc_max_features demo_ftrl_config = Some k \<longrightarrow> k < usize_max"
    by (simp_all add: demo_ftrl_config_def usize_max_def power_int_def)
  show ?thesis using ftrl_reachable_valid [OF demo_ftrl_new c disjI1 [OF refl]] by (simp only: Let_def)
qed

text \<open>
  A configuration that passes validation and does not leave room: after one accepted sample the denominator
  of the weight overflows, the weight is zero, and the model is refused when it is restored.
\<close>

definition pow2 :: "int \<Rightarrow> f64" where
  "pow2 e = f_of_rat (2 powi e)"

lemma pow2_facts:
  assumes "- 1074 \<le> e" "e < 1024"
  shows "is_finite (pow2 e)" "f_val (pow2 e) = 2 powi e" "0 < f_val (pow2 e)"
proof -
  have r: "rnd (2 powi e) = 2 powi e" using assms(1) by (rule rnd_powi)
  then show f: "is_finite (pow2 e)"
    using overflows_small [of "2 powi e" e] assms(2) by (simp add: f_of_rat_finite pow2_def)
  show v: "f_val (pow2 e) = 2 powi e" using f_val_of_rat f r by (simp add: pow2_def)
  show "0 < f_val (pow2 e)" by (simp only: v powi_pos)
qed

definition cramped_config :: ftrl_config where
  "cramped_config = \<lparr>fc_alpha = pow2 (- 1000), fc_beta = pow2 100, fc_l1 = 0, fc_l2 = 0,
     fc_max_features = None, fc_policy = PolicyReject\<rparr>"

definition cramped :: ftrl_model where
  "cramped = \<lparr>fm_config = cramped_config, fm_params = bt_empty, fm_intercept = param_default, fm_samples_seen = 0\<rparr>"

lemma alpha_facts: "is_finite (pow2 (- 1000))" "f_val (pow2 (- 1000)) = 2 powi (- 1000)" "0 < f_val (pow2 (- 1000))"
  by (rule pow2_facts; simp)+

lemma beta_facts: "is_finite (pow2 100)" "f_val (pow2 100) = 2 powi 100" "0 < f_val (pow2 100)"
  by (rule pow2_facts; simp)+

lemma cramped_valid: "ftrl_new cramped_config = Inr cramped"
proof -
  have "ftrl_config_validate cramped_config = Inr ()"
    using alpha_facts(1,3) beta_facts(1,3) by (simp add: ftrl_config_validate_Inr cramped_config_def)
  then show ?thesis by (simp add: ftrl_new_def cramped_def)
qed

lemma finite_divide_overflow: "is_finite x \<Longrightarrow> \<not> is_nan y \<Longrightarrow> \<not> is_finite y \<Longrightarrow> is_finite (x / y) \<and> f_val (x / y) = 0"
  by transfer (auto simp: fp_divide_def fp_zero_def)

text \<open>The denominator after a squared gradient of one.\<close>

lemma cramped_denominator:
  "\<not> is_finite (weight_denominator cramped_config (f_sqrt 1))" "\<not> is_nan (weight_denominator cramped_config (f_sqrt 1))"
proof -
  have one: "is_finite (f_sqrt 1)" "f_val (f_sqrt 1) = 1" "nonneg (f_sqrt 1)" by code_simp+
  let ?s = "pow2 100 + f_sqrt 1"
  have s: "nonneg ?s" using one(3) beta_facts pos_nonneg by (intro nonneg_plus) (simp_all add: less_finite)
  have q: "nonneg (?s / pow2 (- 1000))"
    using s alpha_facts pos_nonneg by (intro nonneg_divide) (simp_all add: less_finite)
  show "\<not> is_nan (weight_denominator cramped_config (f_sqrt 1))"
    using nonneg_plus [OF nonneg_zero q] by (simp add: weight_denominator_def cramped_config_def nonneg_def)
  have big: "2 powi 100 \<le> f_val ?s" if "is_finite ?s"
    using rnd_lower [OF rnd_powi [of 100]] beta_facts(2) one(2) that by (simp add: f_val_plus)
  have "\<not> is_finite (?s / pow2 (- 1000))"
  proof
    assume f: "is_finite (?s / pow2 (- 1000))"
    then have fs: "is_finite ?s" using finite_divideD alpha_facts(1) by blast
    have "2 powi 100 / 2 powi (- 1000) \<le> f_val ?s / f_val (pow2 (- 1000))"
      unfolding alpha_facts(2) using big [OF fs] by (rule divide_right_mono) (rule less_imp_le, rule powi_pos)
    then have "2 powi (100 - (- 1000)) \<le> f_val ?s / f_val (pow2 (- 1000))" by (simp only: powi_diff)
    moreover have "rnd (2 powi (100 - (- 1000))) = 2 powi (100 - (- 1000))" by (rule rnd_powi) simp
    ultimately have "2 powi (100 - (- 1000)) \<le> rnd (f_val ?s / f_val (pow2 (- 1000)))" using rnd_lower by blast
    moreover have "(2 :: rat) powi 1024 \<le> 2 powi (100 - (- 1000))" by (subst powi_le_iff) simp
    ultimately have "2 powi 1024 \<le> \<bar>rnd (f_val ?s / f_val (pow2 (- 1000)))\<bar>" by linarith
    then have "overflows (rnd (f_val ?s / f_val (pow2 (- 1000))))" by (simp only: overflows_iff)
    then show False using f finite_divide [OF fs alpha_facts(1)] alpha_facts(3) by simp
  qed
  then show "\<not> is_finite (weight_denominator cramped_config (f_sqrt 1))"
    using finite_plusD [of 0 "?s / pow2 (- 1000)"] by (auto simp: weight_denominator_def cramped_config_def)
qed

lemma unit_step: "- 1 * 1 = (- 1 :: f64)" "- 1 * - 1 = (1 :: f64)" "0 + 1 = (1 :: f64)" "- 1 - 0 = (- 1 :: f64)" "0 + - 1 = (- 1 :: f64)"
    "0 + 0 = (0 :: f64)" "0 - 1 = (- 1 :: f64)" "f_sqrt 1 - f_sqrt 0 = 1"
  by code_simp+

lemma cramped_step:
  "\<exists>q. next_updated cramped_config param_default (- 1) 0 = Inr q \<and> ft_n q = 1 \<and> is_finite (ft_z q) \<and> f_val (ft_z q) = - 1"
proof -
  let ?s = "1 / pow2 (- 1000)"
  have "f_val 1 / f_val (pow2 (- 1000)) = 1 / 2 powi (- 1000)" by (simp only: alpha_facts(2) f_val_simps)
  also have "\<dots> = 2 powi (0 - (- 1000))" by (simp only: powi_diff power_int_0_right)
  finally have v: "f_val 1 / f_val (pow2 (- 1000)) = 2 powi 1000" by simp
  have r: "rnd (f_val 1 / f_val (pow2 (- 1000))) = 2 powi 1000" unfolding v by (rule rnd_powi) simp
  have "\<not> overflows (rnd (f_val 1 / f_val (pow2 (- 1000))))"
    unfolding r by (rule overflows_small [of _ 1000]) simp_all
  then have s: "is_finite ?s" using finite_divide [of 1 "pow2 (- 1000)"] alpha_facts(1,3) by simp
  have sw: "is_finite (?s * 0)" "f_val (?s * 0) = 0" using s by (simp_all add: finite_times f_val_times)
  have zd: "is_finite (- 1 - ?s * 0)" "f_val (- 1 - ?s * 0) = - 1"
    using sw rnd_of_int [of "- 1"] by (simp_all add: finite_minus f_val_minus overflows_iff)
  have z: "is_finite (0 + (- 1 - ?s * 0))" "f_val (0 + (- 1 - ?s * 0)) = - 1"
    using zd rnd_of_int [of "- 1"] by (simp_all add: finite_plus f_val_plus overflows_iff)
  have n: "\<not> (\<not> feq (- 1) 0 \<and> feq 1 0)" by code_simp
  show ?thesis
    using s sw(1) zd(1) z n
    by (simp add: next_updated_def param_default_def unit_step ensure_finite_def checked_finite_add_def cramped_config_def Let_def)
qed

lemma accepted_but_not_restorable:
  "\<exists>m. regressor_learn (\<lparr>sf_values = [(3, 1)]\<rparr>, 1) cramped = (Inr (), m) \<and> validate_invariants m \<noteq> Inr ()"
proof -
  obtain q where q: "next_updated cramped_config param_default (- 1) 0 = Inr q" "ft_n q = 1" "is_finite (ft_z q)" "f_val (ft_z q) = - 1"
    using cramped_step by blast
  have l1: "\<not> \<bar>ft_z q\<bar> \<le> fc_l1 cramped_config" using q(3,4) by (simp add: cramped_config_def less_eq_finite)
  have nz: "\<not> feq (ft_n q) 0" unfolding q(2) by code_simp
  note inf = cramped_denominator
  have fw: "is_finite (intercept_weight cramped_config q)"
    using finite_divide_overflow [OF _ inf(2,1), of "- ft_z q"] q nz by (simp add: intercept_weight_def)
  have w0: "weight cramped_config param_default = 0" by (rule weight_default) (simp_all add: cramped_config_def)
  have sg: "f_signum (ft_z q) = - 1"
    using q(3,4) nonneg_val [of "ft_z q"] by (auto simp: f_signum_def nonneg_def)
  have num: "is_finite (weight_numerator cramped_config q)"
  proof -
    have a: "is_finite (- 1 * (0 :: f64))" "f_val (- 1 * (0 :: f64)) = 0" by code_simp+
    have "is_finite (ft_z q - - 1 * 0)"
      using q(3,4) a rnd_of_int [of "- 1"] by (simp add: finite_minus overflows_iff)
    then show ?thesis by (simp add: weight_numerator_def sg cramped_config_def)
  qed
  have gw: "is_finite (weight cramped_config q)"
    using finite_divide_overflow [OF num inf(2,1)] l1 q(2) by (simp add: weight_def)
  define m where "m = \<lparr>fm_config = cramped_config, fm_params = bt_insert 3 q bt_empty, fm_intercept = q, fm_samples_seen = 1\<rparr>"
  have p: "regressor_predict cramped \<lparr>sf_values = [(3, 1)]\<rparr> = Inr 0"
    by (simp add: regressor_predict_def raw_score_def compute_dot_def add_contribution_def cramped_def ensure_finite_def
        intercept_default checked_finite_add_def unit_step)
  have a: "apply_gradient cramped \<lparr>sf_values = [(3, 1)]\<rparr> (- 1) 1 = Inr m"
  proof -
    have k: "fc_max_features cramped_config = None" by (simp add: cramped_config_def)
    then have ad: "admit_features cramped xs = Inr False" for xs by (simp add: admit_features_def cramped_def Let_def)
    have "feature_update cramped (- 1) (3, 1) = Inr (3, q)"
      using q(1) gw w0 by (simp add: feature_update_def stored_param_def cramped_def ensure_finite_def unit_step)
    then show ?thesis
      using q(1) fw by (simp add: apply_gradient_def ad) (simp add: cramped_def intercept_default ensure_finite_def m_def)
  qed
  have "regressor_learn (\<lparr>sf_values = [(3, 1)]\<rparr>, 1) cramped = (Inr (), m)"
    using p a by (simp add: regressor_learn_Inr unit_step cramped_def)
  moreover have "weight_checked cramped_config q \<noteq> Inr w" for w
    using l1 inf(1) q(2) by (simp add: weight_checked_def and_then_Inr ensure_finite_Inr Let_def)
  then have "validate_invariants m \<noteq> Inr ()"
    by (auto simp: validate_invariants_def m_def and_then_Inr try_for_each_Inr validate_stored_def map_err_Inr bt_insert.rep_eq bt_empty.rep_eq)
  ultimately show ?thesis by blast
qed

end
