(* ===== verification/F64_Bits.thy ===== *)
theory F64_Bits imports F64_Sign begin

text \<open>
  The bit pattern of a double (\<open>f64::to_bits\<close>) and big-endian byte strings. A finite magnitude is an integer
  below \<open>2 ^ 53\<close> on the grid of its last place; its pattern is the place, counted from the least one, in the
  upper bits plus that integer, in which the leading bit of a normal number carries into the exponent.
\<close>

definition significand :: "rat \<Rightarrow> int" where
  "significand q = \<lfloor>q / 2 powi fexp q\<rfloor>"

definition magnitude_bits :: "rat \<Rightarrow> nat" where
  "magnitude_bits q = (if q = 0 then 0 else nat ((fexp q + 1074) * 2 ^ 52 + significand q))"

fun fp_bits :: "fp \<Rightarrow> nat" where
  "fp_bits FNaN = 2047 * 2 ^ 52 + 2 ^ 51"
| "fp_bits (FInf s) = (if s then 2 ^ 63 else 0) + 2047 * 2 ^ 52"
| "fp_bits FNegZero = 2 ^ 63"
| "fp_bits (FFin q) = (if q < 0 then 2 ^ 63 else 0) + magnitude_bits \<bar>q\<bar>"

definition f_to_bits :: "f64 \<Rightarrow> u64" where
  "f_to_bits x = of_nat (fp_bits (fp_of x))"

fun be_bytes :: "nat \<Rightarrow> nat \<Rightarrow> string" where
  "be_bytes 0 n = []"
| "be_bytes (Suc k) n = be_bytes k (n div 256) @ [char_of (n mod 256)]"

section \<open>Different finite numbers have different patterns\<close>

lemma significand_bounds:
  assumes "0 < q" "rnd q = q"
  shows "q = of_int (significand q) * 2 powi fexp q" "0 \<le> significand q" "significand q < 2 ^ 53"
    "- 1074 < fexp q \<Longrightarrow> 2 ^ 52 \<le> significand q" "- 1074 \<le> fexp q"
proof -
  have "q / 2 powi fexp q = of_int (rne (q / 2 powi fexp q))"
    using assms by (simp add: rnd_def field_simps)
  then have s: "significand q = rne (q / 2 powi fexp q)" unfolding significand_def by (metis floor_of_int)
  show q: "q = of_int (significand q) * 2 powi fexp q" using assms by (simp add: s rnd_def)
  show "- 1074 \<le> fexp q" by (simp add: fexp_def)
  have e: "2 powi ilog2 q \<le> q" "q < 2 powi (ilog2 q + 1)" using ilog2_bounds [OF assms(1)] by simp_all
  have f: "ilog2 q - 52 \<le> fexp q" using assms(1) by (simp add: fexp_def)
  have d: "of_int (significand q) = q / 2 powi fexp q" using q by (simp add: field_simps)
  show "0 \<le> significand q" using assms(1) by (simp add: significand_def)
  have "of_int (significand q) < (2 :: rat) powi (ilog2 q + 1) / 2 powi fexp q"
    unfolding d using e(2) by (intro divide_strict_right_mono powi_pos)
  also have "\<dots> = 2 powi (ilog2 q + 1 - fexp q)" by (simp only: powi_diff)
  also have "\<dots> \<le> 2 powi 53" using f by (subst powi_le_iff) simp
  also have "(2 :: rat) powi 53 = of_int (2 ^ 53)" by (simp add: power_int_def)
  finally show "significand q < 2 ^ 53" by (simp only: of_int_less_iff)
  assume g: "- 1074 < fexp q"
  then have f': "fexp q = ilog2 q - 52" using assms(1) by (simp add: fexp_def)
  have "of_int (2 ^ 52) = (2 :: rat) powi (ilog2 q - fexp q)" by (simp add: f' power_int_def)
  also have "\<dots> = 2 powi ilog2 q / 2 powi fexp q" by (simp only: powi_diff)
  also have "\<dots> \<le> of_int (significand q)" unfolding d using e(1) by (intro divide_right_mono) simp_all
  finally show "2 ^ 52 \<le> significand q" by (simp only: of_int_le_iff)
qed

lemma grid_code_inj:
  fixes a b k l :: int
  assumes "a * 2 ^ 52 + k = b * 2 ^ 52 + l" "0 \<le> k" "k < 2 ^ 53" "0 \<le> l" "l < 2 ^ 53"
    and "0 < a \<Longrightarrow> 2 ^ 52 \<le> k" "0 < b \<Longrightarrow> 2 ^ 52 \<le> l" "0 \<le> a" "0 \<le> b"
  shows "a = b \<and> k = l"
proof -
  have "\<not> a < b"
  proof
    assume "a < b"
    then have "a + 1 \<le> b" "2 ^ 52 \<le> l" using assms by simp_all
    then show False using assms(1,3) by simp
  qed
  moreover have "\<not> b < a"
  proof
    assume "b < a"
    then have "b + 1 \<le> a" "2 ^ 52 \<le> k" using assms by simp_all
    then show False using assms(1,5) by simp
  qed
  ultimately show ?thesis using assms(1) by simp
qed

lemma magnitude_code:
  assumes "0 < q" "rnd q = q"
  shows "int (magnitude_bits q) = (fexp q + 1074) * 2 ^ 52 + significand q" "0 < magnitude_bits q"
proof -
  note s = significand_bounds [OF assms]
  have p: "0 < significand q" using s(1,2) assms(1) by (cases "significand q = 0") auto
  have "0 \<le> (fexp q + 1074) * 2 ^ 52" using s(5) by simp
  then show "int (magnitude_bits q) = (fexp q + 1074) * 2 ^ 52 + significand q" using assms(1) p by (simp add: magnitude_bits_def)
  then show "0 < magnitude_bits q" using p \<open>0 \<le> (fexp q + 1074) * 2 ^ 52\<close> by linarith
qed

lemma magnitude_inj:
  assumes "0 \<le> q" "rnd q = q" "0 \<le> r" "rnd r = r" "magnitude_bits q = magnitude_bits r"
  shows "q = r"
proof (cases "q = 0 \<or> r = 0")
  case True
  have z: "magnitude_bits u = 0 \<longleftrightarrow> u = 0" if "0 \<le> u" "rnd u = u" for u
    using magnitude_code(2) [of u] that by (cases "u = 0") (simp_all add: magnitude_bits_def [of 0])
  show ?thesis using True z [OF assms(1,2)] z [OF assms(3,4)] assms(5) by metis
next
  case False
  then have p: "0 < q" "0 < r" using assms by simp_all
  note q = significand_bounds [OF p(1) assms(2)] and r = significand_bounds [OF p(2) assms(4)]
  have "(fexp q + 1074) * 2 ^ 52 + significand q = (fexp r + 1074) * 2 ^ 52 + significand r"
    using magnitude_code(1) [OF p(1) assms(2)] magnitude_code(1) [OF p(2) assms(4)] assms(5) by simp
  then have "fexp q + 1074 = fexp r + 1074 \<and> significand q = significand r"
    using q r by (intro grid_code_inj) simp_all
  then show ?thesis using q(1) r(1) by simp
qed

lemma magnitude_small:
  assumes "0 \<le> q" "rnd q = q" "\<not> overflows q"
  shows "magnitude_bits q < 2047 * 2 ^ 52"
proof (cases "q = 0")
  case False
  then have p: "0 < q" using assms(1) by simp
  note s = significand_bounds [OF p assms(2)]
  have "ilog2 q < 1024"
    using assms(3) p ilog2_less [OF p, of 1024] by (simp add: overflows_iff)
  then have "fexp q \<le> 971" using p by (simp add: fexp_def)
  then have "(fexp q + 1074) * 2 ^ 52 \<le> 2045 * 2 ^ 52" by simp
  then have "int (magnitude_bits q) < int (2047 * 2 ^ 52)" using magnitude_code(1) [OF p assms(2)] s(3) by simp
  then show ?thesis by (simp only: of_nat_less_iff)
qed (simp add: magnitude_bits_def)

lemma fp_bits_inj:
  assumes "canonical x" "canonical y" "fp_finite x" "fp_finite y" "fp_bits x = fp_bits y"
  shows "x = y"
proof -
  have m: "magnitude_bits \<bar>q\<bar> < 2 ^ 63" "\<bar>q\<bar> = \<bar>r\<bar>" if "canonical (FFin q)" "canonical (FFin r)" "magnitude_bits \<bar>q\<bar> = magnitude_bits \<bar>r\<bar>" for q r
  proof -
    have c: "rnd \<bar>q\<bar> = \<bar>q\<bar>" "rnd \<bar>r\<bar> = \<bar>r\<bar>" "\<not> overflows \<bar>q\<bar>" using that by (auto simp: abs_if)
    show "magnitude_bits \<bar>q\<bar> < 2 ^ 63" using magnitude_small [OF _ c(1,3)] by simp
    show "\<bar>q\<bar> = \<bar>r\<bar>" by (rule magnitude_inj [OF _ c(1) _ c(2) that(3)]) simp_all
  qed
  show ?thesis
  proof (cases x; cases y)
    fix q r
    assume e: "x = FFin q" "y = FFin r"
    have b: "magnitude_bits \<bar>q\<bar> < 2 ^ 63" "magnitude_bits \<bar>r\<bar> < 2 ^ 63" using m(1) assms(1,2) e by blast+
    then have "magnitude_bits \<bar>q\<bar> = magnitude_bits \<bar>r\<bar>" "q < 0 \<longleftrightarrow> r < 0"
      using assms(5) e by (auto split: if_splits)
    then have "\<bar>q\<bar> = \<bar>r\<bar>" using m(2) assms(1,2) e by blast
    then have "q = r" using \<open>q < 0 \<longleftrightarrow> r < 0\<close> by linarith
    then show ?thesis using e by simp
  next
    fix q
    assume e: "x = FFin q" "y = FNegZero"
    have "magnitude_bits \<bar>q\<bar> < 2 ^ 63" using m(1) assms(1) e by blast
    then have "q < 0" "magnitude_bits \<bar>q\<bar> = 0" using assms(5) e by (auto split: if_splits)
    then show ?thesis using magnitude_inj [of "\<bar>q\<bar>" 0] assms(1) e by (simp add: magnitude_bits_def)
  next
    fix q
    assume e: "x = FNegZero" "y = FFin q"
    have "magnitude_bits \<bar>q\<bar> < 2 ^ 63" using m(1) assms(2) e by blast
    then have "q < 0" "magnitude_bits \<bar>q\<bar> = 0" using assms(5) e by (auto split: if_splits)
    then show ?thesis using magnitude_inj [of "\<bar>q\<bar>" 0] assms(2) e by (simp add: magnitude_bits_def)
  qed (use assms in simp_all)
qed

lemma fp_bits_small: "canonical x \<Longrightarrow> fp_bits x < 2 ^ 64"
proof (cases x)
  case (FFin q)
  moreover assume "canonical x"
  ultimately have "rnd \<bar>q\<bar> = \<bar>q\<bar>" "\<not> overflows \<bar>q\<bar>" by (auto simp: abs_if)
  then have "magnitude_bits \<bar>q\<bar> < 2047 * 2 ^ 52" by (intro magnitude_small) simp_all
  then show ?thesis using FFin by (auto simp: abs_if)
qed simp_all

lemma f_to_bits_inj: "is_finite x \<Longrightarrow> is_finite y \<Longrightarrow> f_to_bits x = f_to_bits y \<Longrightarrow> x = y"
proof -
  assume f: "is_finite x" "is_finite y" and b: "f_to_bits x = f_to_bits y"
  have "fp_bits (fp_of x) < 2 ^ 64" "fp_bits (fp_of y) < 2 ^ 64" using fp_bits_small fp_of by blast+
  then have "fp_bits (fp_of x) = fp_bits (fp_of y)"
    using b of_nat_inverse [of "fp_bits (fp_of x)" "f_to_bits x"] of_nat_inverse [of "fp_bits (fp_of y)" "f_to_bits y"]
    by (simp add: f_to_bits_def)
  then have "fp_of x = fp_of y"
    using f fp_of [of x] fp_of [of y] by (intro fp_bits_inj) (simp_all add: is_finite.rep_eq)
  then show "x = y" by (simp add: fp_of_inject)
qed

section \<open>Byte strings of a fixed length\<close>

lemma length_be_bytes [simp]: "length (be_bytes k n) = k"
  by (induction k n rule: be_bytes.induct) simp_all

lemma be_bytes_inj: "m < 256 ^ k \<Longrightarrow> n < 256 ^ k \<Longrightarrow> be_bytes k m = be_bytes k n \<Longrightarrow> m = n"
proof (induction k arbitrary: m n)
  case (Suc k)
  have "of_char (char_of (m mod 256) :: char) = (of_char (char_of (n mod 256) :: char) :: nat)"
    using Suc.prems(3) by simp
  then have r: "m mod 256 = n mod 256" by simp
  have "m div 256 = n div 256" using Suc by (intro Suc.IH) (simp_all add: less_mult_imp_div_less mult.commute)
  then show ?case using r by (metis div_mult_mod_eq)
qed simp

lemma f64_pattern: "f_to_bits 1 = 0x3ff0000000000000" "f_to_bits (- 1) = 0xbff0000000000000" "f_to_bits f_inf = 0x7ff0000000000000"
  by code_simp+

end
