(* ===== verification/Descriptor.thy ===== *)
theory Descriptor imports BTree_Map Error_Text F64_Bits Machine begin

text \<open>
  Feature schemas and model identities (\<open>src/descriptor.rs\<close>). The schema hash is SHA-256, a parameter, of an
  explicit byte encoding. The encoding is proved to determine the schema: every part of it is self-delimiting
  (locale \<open>self_delimiting\<close>), so the hash of a descriptor accepts no other schema short of a collision of SHA-256.
\<close>

definition max_schema_features :: usize where "max_schema_features = 4096"
definition max_descriptor_string_bytes :: usize where "max_descriptor_string_bytes = 256"
definition max_feature_metadata_entries :: usize where "max_feature_metadata_entries = 64"

section \<open>Descriptors and their checks\<close>

text \<open>
  \<open>char::is_control\<close> on the bytes of a UTF-8 string: U+0000 to U+001F and U+007F are single bytes, U+0080 to
  U+009F are \<open>C2\<close> followed by \<open>80\<close> to \<open>9F\<close>.
\<close>

fun has_control :: "string \<Rightarrow> bool" where
  "has_control [] = False"
| "has_control (c # cs) = (c < CHR '' '' \<or> c = CHR 0x7F
     \<or> c = CHR 0xC2 \<and> cs \<noteq> [] \<and> CHR 0x80 \<le> hd cs \<and> hd cs \<le> CHR 0x9F \<or> has_control cs)"

definition validate_string :: "string \<Rightarrow> string \<Rightarrow> bool \<Rightarrow> rill_error + unit" where
  "validate_string field v allow_empty =
     (if \<not> allow_empty \<and> v = [] \<or> max_descriptor_string_bytes < length v
      then Inl (InvalidState (field @ '' must contain '' @ decimal (if allow_empty then 0 else 1) @ ''..=''
             @ decimal max_descriptor_string_bytes @ '' bytes''))
      else if has_control v then Inl (InvalidState (field @ '' must not contain control characters''))
      else Inr ())"

record feature_constraint =
  fc_min :: "f64 option"
  fc_max :: "f64 option"

definition constraint_validate :: "feature_constraint \<Rightarrow> rill_error + unit" where
  "constraint_validate c =
     (if (\<exists>v \<in> set_option (fc_min c). \<not> is_finite v) \<or> (\<exists>v \<in> set_option (fc_max c). \<not> is_finite v)
      then Inl (InvalidState ''feature constraints must be finite'')
      else case (fc_min c, fc_max c) of
        (Some lo, Some hi) \<Rightarrow> if hi < lo then Inl (InvalidState ''feature constraint minimum exceeds maximum'') else Inr ()
      | _ \<Rightarrow> Inr ())"

record feature_descriptor =
  fd_name :: string
  fd_unit :: "string option"
  fd_transform :: "string option"
  fd_constraint :: "feature_constraint option"
  fd_metadata :: "(string, string) btree"

definition validate_optional :: "('a \<Rightarrow> rill_error + unit) \<Rightarrow> 'a option \<Rightarrow> rill_error + unit" where
  "validate_optional check v = (case v of None \<Rightarrow> Inr () | Some x \<Rightarrow> check x)"

definition feature_validate :: "feature_descriptor \<Rightarrow> rill_error + unit" where
  "feature_validate f =
     and_then (validate_string ''feature name'' (fd_name f) False) (\<lambda>_.
     and_then (validate_optional (\<lambda>u. validate_string ''feature unit'' u False) (fd_unit f)) (\<lambda>_.
     and_then (validate_optional (\<lambda>t. validate_string ''feature transform'' t False) (fd_transform f)) (\<lambda>_.
     and_then (ensure (bt_len (fd_metadata f) \<le> max_feature_metadata_entries)
       (InvalidState (''feature metadata exceeds limit '' @ decimal max_feature_metadata_entries))) (\<lambda>_.
     and_then (try_for_each (\<lambda>(k, v).
         and_then (validate_string ''feature metadata key'' k False) (\<lambda>_.
         validate_string ''feature metadata value'' v True)) (bt_entries (fd_metadata f))) (\<lambda>_.
     validate_optional constraint_validate (fd_constraint f))))))"

definition feature_new :: "string \<Rightarrow> rill_error + feature_descriptor" where
  "feature_new name =
     (let d = \<lparr>fd_name = name, fd_unit = None, fd_transform = None, fd_constraint = None, fd_metadata = bt_empty\<rparr>
      in and_then (feature_validate d) (\<lambda>_. Inr d))"

record feature_schema =
  fs_version :: u32
  fs_features :: "feature_descriptor list"

fun validate_feature_list :: "string list \<Rightarrow> feature_descriptor list \<Rightarrow> rill_error + unit" where
  "validate_feature_list names [] = Inr ()"
| "validate_feature_list names (f # fs) =
     and_then (feature_validate f) (\<lambda>_.
     if fd_name f \<in> set names then Inl (InvalidState (''duplicate feature name `'' @ fd_name f @ ''`''))
     else validate_feature_list (fd_name f # names) fs)"

definition schema_validate :: "feature_schema \<Rightarrow> rill_error + unit" where
  "schema_validate s =
     (if fs_version s = 0 then Inl (InvalidState ''feature schema version must be non-zero'')
      else if fs_features s = [] \<or> max_schema_features < length (fs_features s)
      then Inl (InvalidState (''feature count must be in 1..='' @ decimal max_schema_features))
      else validate_feature_list [] (fs_features s))"

definition schema_new :: "u32 \<Rightarrow> feature_descriptor list \<Rightarrow> rill_error + feature_schema" where
  "schema_new version fs = (let s = \<lparr>fs_version = version, fs_features = fs\<rparr> in and_then (schema_validate s) (\<lambda>_. Inr s))"

record algorithm_descriptor =
  ad_name :: string
  ad_algorithm_version :: string
  ad_state_version :: string

definition algorithm_validate :: "algorithm_descriptor \<Rightarrow> rill_error + unit" where
  "algorithm_validate a =
     and_then (validate_string ''algorithm name'' (ad_name a) False) (\<lambda>_.
     and_then (validate_string ''algorithm version'' (ad_algorithm_version a) False) (\<lambda>_.
     validate_string ''algorithm state version'' (ad_state_version a) False))"

definition algorithm_new :: "string \<Rightarrow> string \<Rightarrow> string \<Rightarrow> rill_error + algorithm_descriptor" where
  "algorithm_new name av sv =
     (let d = \<lparr>ad_name = name, ad_algorithm_version = av, ad_state_version = sv\<rparr>
      in and_then (algorithm_validate d) (\<lambda>_. Inr d))"

section \<open>The schema hash\<close>

text \<open>The bytes fed to the hasher; \<open>sha\<close> is SHA-256 of all of them.\<close>

definition write_len :: "usize \<Rightarrow> string" where
  "write_len n = be_bytes 8 n"

definition write_string :: "string \<Rightarrow> string" where
  "write_string s = write_len (length s) @ s"

definition write_optional :: "('a \<Rightarrow> string) \<Rightarrow> 'a option \<Rightarrow> string" where
  "write_optional w v = (case v of Some x \<Rightarrow> CHR 0x01 # w x | None \<Rightarrow> [CHR 0x00])"

definition write_optional_string :: "string option \<Rightarrow> string" where
  "write_optional_string = write_optional write_string"

definition write_f64 :: "f64 \<Rightarrow> string" where
  "write_f64 x = be_bytes 8 (unat (f_to_bits x))"

definition write_optional_f64 :: "f64 option \<Rightarrow> string" where
  "write_optional_f64 = write_optional write_f64"

definition write_constraint :: "feature_constraint \<Rightarrow> string" where
  "write_constraint c = write_optional_f64 (fc_min c) @ write_optional_f64 (fc_max c)"

definition write_entry :: "string \<times> string \<Rightarrow> string" where
  "write_entry e = write_string (fst e) @ write_string (snd e)"

definition write_list :: "('a \<Rightarrow> string) \<Rightarrow> 'a list \<Rightarrow> string" where
  "write_list w xs = write_len (length xs) @ concat (map w xs)"

definition write_feature :: "feature_descriptor \<Rightarrow> string" where
  "write_feature f = write_string (fd_name f) @ write_optional_string (fd_unit f)
     @ write_optional_string (fd_transform f) @ write_optional write_constraint (fd_constraint f)
     @ write_list write_entry (bt_entries (fd_metadata f))"

definition schema_bytes :: "feature_schema \<Rightarrow> string" where
  "schema_bytes s = ''rill-feature-schema-v1'' @ [CHR 0x00] @ be_bytes 4 (unat (fs_version s))
     @ write_list write_feature (fs_features s)"

definition schema_hash :: "(string \<Rightarrow> string) \<Rightarrow> feature_schema \<Rightarrow> rill_error + string" where
  "schema_hash sha s = and_then (schema_validate s) (\<lambda>_. Inr (sha (schema_bytes s)))"

definition lower_hex_digit :: "nat \<Rightarrow> char" where
  "lower_hex_digit n = ''0123456789abcdef'' ! n"

definition to_hex :: "string \<Rightarrow> string" where
  "to_hex h = concat (map (\<lambda>b. [lower_hex_digit (of_char b div 16), lower_hex_digit (of_char b mod 16)]) h)"

record model_descriptor =
  md_algorithm :: algorithm_descriptor
  md_feature_schema_hash :: string
  md_configuration_digest :: "string option"

definition model_descriptor_validate :: "model_descriptor \<Rightarrow> rill_error + unit" where
  "model_descriptor_validate m = algorithm_validate (md_algorithm m)"

definition model_descriptor_new ::
    "algorithm_descriptor \<Rightarrow> string \<Rightarrow> string option \<Rightarrow> rill_error + model_descriptor" where
  "model_descriptor_new a h d =
     (let m = \<lparr>md_algorithm = a, md_feature_schema_hash = h, md_configuration_digest = d\<rparr>
      in and_then (model_descriptor_validate m) (\<lambda>_. Inr m))"

definition ensure_schema :: "(string \<Rightarrow> string) \<Rightarrow> model_descriptor \<Rightarrow> feature_schema \<Rightarrow> rill_error + unit" where
  "ensure_schema sha m s =
     and_then (schema_hash sha s) (\<lambda>actual.
     if actual \<noteq> md_feature_schema_hash m
     then Inl (InvalidState (''feature schema hash mismatch: expected '' @ to_hex (md_feature_schema_hash m)
            @ '', got '' @ to_hex actual))
     else Inr ())"

section \<open>Self-delimiting encodings\<close>

lemma write_len_cancel:
  assumes "m < 2 ^ 64" "n < 2 ^ 64"
  shows "write_len m @ r = write_len n @ s \<longleftrightarrow> m = n \<and> r = s"
  using assms be_bytes_inj [of m 8 n] by (auto simp: write_len_def)

locale self_delimiting =
  fixes ok :: "'a \<Rightarrow> bool" and enc :: "'a \<Rightarrow> string"
  assumes unique: "ok x \<Longrightarrow> ok y \<Longrightarrow> enc x @ r = enc y @ s \<Longrightarrow> x = y \<and> r = s"
begin

lemma cancel: "ok x \<Longrightarrow> ok y \<Longrightarrow> enc x @ r = enc y @ s \<longleftrightarrow> x = y \<and> r = s"
  using unique by blast

lemma concat_unique:
  "list_all ok xs \<Longrightarrow> list_all ok ys \<Longrightarrow> length xs = length ys
     \<Longrightarrow> concat (map enc xs) @ r = concat (map enc ys) @ s \<Longrightarrow> xs = ys \<and> r = s"
proof (induction xs arbitrary: ys)
  case (Cons x xs)
  then obtain y ys' where y: "ys = y # ys'" by (cases ys) simp_all
  have "x = y \<and> concat (map enc xs) @ r = concat (map enc ys') @ s"
    using Cons.prems unique [of x y] by (simp add: y)
  then show ?case using Cons.IH [of ys'] Cons.prems by (simp add: y)
qed simp

lemma optional_unique:
  "pred_option ok x \<Longrightarrow> pred_option ok y \<Longrightarrow> write_optional enc x @ r = write_optional enc y @ s
     \<Longrightarrow> x = y \<and> r = s"
  by (cases x; cases y) (auto simp: write_optional_def dest: unique)

lemma list_unique:
  assumes "list_all ok xs \<and> length xs < 2 ^ 64" "list_all ok ys \<and> length ys < 2 ^ 64"
    and "write_list enc xs @ r = write_list enc ys @ s"
  shows "xs = ys \<and> r = s"
  using assms concat_unique [of xs ys r s] by (simp add: write_list_def write_len_cancel)

end

definition fits :: "string \<Rightarrow> bool" where
  "fits s \<longleftrightarrow> length s < 2 ^ 64"

interpretation str: self_delimiting fits write_string
  by unfold_locales (auto simp: write_string_def write_len_cancel fits_def)

interpretation num: self_delimiting is_finite write_f64
proof unfold_locales
  fix x y r s
  assume f: "is_finite x" "is_finite y" and "write_f64 x @ r = write_f64 y @ s"
  then have b: "be_bytes 8 (unat (f_to_bits x)) = be_bytes 8 (unat (f_to_bits y))" and r: "r = s"
    by (simp_all add: write_f64_def)
  have "unat (f_to_bits x) = unat (f_to_bits y)"
    by (rule be_bytes_inj [OF _ _ b]) (use unat_u64_less [of "f_to_bits x"] unat_u64_less [of "f_to_bits y"] in simp_all)
  then have "f_to_bits x = f_to_bits y" by (simp add: word_unat_eq_iff)
  then show "x = y \<and> r = s" using f_to_bits_inj f r by blast
qed

interpretation opt_str: self_delimiting "pred_option fits" write_optional_string
  unfolding write_optional_string_def by unfold_locales (rule str.optional_unique)

interpretation opt_num: self_delimiting "pred_option is_finite" write_optional_f64
  unfolding write_optional_f64_def by unfold_locales (rule num.optional_unique)

definition finite_bounds :: "feature_constraint \<Rightarrow> bool" where
  "finite_bounds c \<longleftrightarrow> pred_option is_finite (fc_min c) \<and> pred_option is_finite (fc_max c)"

interpretation con: self_delimiting finite_bounds write_constraint
  by unfold_locales (auto simp: write_constraint_def finite_bounds_def opt_num.cancel intro!: feature_constraint.equality)

interpretation opt_con: self_delimiting "pred_option finite_bounds" "write_optional write_constraint"
  by unfold_locales (rule con.optional_unique)

interpretation entry: self_delimiting "\<lambda>e. fits (fst e) \<and> fits (snd e)" write_entry
  by unfold_locales (auto simp: write_entry_def prod_eq_iff str.cancel)

definition feature_encodable :: "feature_descriptor \<Rightarrow> bool" where
  "feature_encodable f \<longleftrightarrow> fits (fd_name f) \<and> pred_option fits (fd_unit f)
     \<and> pred_option fits (fd_transform f)
     \<and> pred_option finite_bounds (fd_constraint f)
     \<and> list_all (\<lambda>e. fits (fst e) \<and> fits (snd e)) (bt_entries (fd_metadata f))
     \<and> length (bt_entries (fd_metadata f)) < 2 ^ 64"

interpretation feature: self_delimiting feature_encodable write_feature
proof unfold_locales
  fix f g r s
  assume ok: "feature_encodable f" "feature_encodable g" and e: "write_feature f @ r = write_feature g @ s"
  note o = ok [unfolded feature_encodable_def]
  have a: "fd_name f = fd_name g \<and> write_optional_string (fd_unit f)
      @ write_optional_string (fd_transform f) @ write_optional write_constraint (fd_constraint f)
      @ write_list write_entry (bt_entries (fd_metadata f)) @ r = write_optional_string (fd_unit g)
      @ write_optional_string (fd_transform g) @ write_optional write_constraint (fd_constraint g)
      @ write_list write_entry (bt_entries (fd_metadata g)) @ s"
    using e o by (intro str.unique) (simp_all add: write_feature_def)
  have b: "fd_unit f = fd_unit g \<and> write_optional_string (fd_transform f)
      @ write_optional write_constraint (fd_constraint f) @ write_list write_entry (bt_entries (fd_metadata f)) @ r
    = write_optional_string (fd_transform g) @ write_optional write_constraint (fd_constraint g)
      @ write_list write_entry (bt_entries (fd_metadata g)) @ s"
    using a o by (intro opt_str.unique) simp_all
  have c: "fd_transform f = fd_transform g \<and> write_optional write_constraint (fd_constraint f)
      @ write_list write_entry (bt_entries (fd_metadata f)) @ r
    = write_optional write_constraint (fd_constraint g) @ write_list write_entry (bt_entries (fd_metadata g)) @ s"
    using b o by (intro opt_str.unique) simp_all
  have d: "fd_constraint f = fd_constraint g \<and> write_list write_entry (bt_entries (fd_metadata f)) @ r
      = write_list write_entry (bt_entries (fd_metadata g)) @ s"
    using c o by (intro opt_con.unique) simp_all
  have "bt_entries (fd_metadata f) = bt_entries (fd_metadata g) \<and> r = s"
    using d o by (intro entry.list_unique) simp_all
  then show "f = g \<and> r = s"
    using a b c d by (auto intro!: feature_descriptor.equality simp: bt_entries_inject)
qed

section \<open>Valid schemas\<close>

lemma validate_string_fits: "validate_string field v e = Inr u \<Longrightarrow> fits v"
  by (simp add: validate_string_def max_descriptor_string_bytes_def fits_def split: if_splits)

lemma validate_optional_pred:
  "validate_optional check v = Inr u \<Longrightarrow> (\<And>x. check x = Inr () \<Longrightarrow> p x) \<Longrightarrow> pred_option p v"
  by (cases v) (simp_all add: validate_optional_def)

lemma constraint_validate_finite: "constraint_validate c = Inr u \<Longrightarrow> finite_bounds c"
  by (cases "fc_min c"; cases "fc_max c") (auto simp: constraint_validate_def finite_bounds_def split: if_splits)

lemma feature_validate_encodable:
  assumes "feature_validate f = Inr u"
  shows "feature_encodable f"
proof -
  have v: "validate_string ''feature name'' (fd_name f) False = Inr ()"
    "validate_optional (\<lambda>u. validate_string ''feature unit'' u False) (fd_unit f) = Inr ()"
    "validate_optional (\<lambda>t. validate_string ''feature transform'' t False) (fd_transform f) = Inr ()"
    "bt_len (fd_metadata f) \<le> 64" "validate_optional constraint_validate (fd_constraint f) = Inr ()"
    and m: "\<forall>e \<in> set (bt_entries (fd_metadata f)). validate_string ''feature metadata key'' (fst e) False = Inr ()
       \<and> validate_string ''feature metadata value'' (snd e) True = Inr ()"
    using assms by (simp_all add: feature_validate_def result_simps max_feature_metadata_entries_def case_prod_unfold)
  have "list_all (\<lambda>e. fits (fst e) \<and> fits (snd e)) (bt_entries (fd_metadata f))"
    unfolding list_all_iff by (intro ballI conjI; drule bspec [OF m]; elim conjE; erule validate_string_fits)
  moreover have "length (bt_entries (fd_metadata f)) < 2 ^ 64" using v(4) by (simp add: bt_len_def)
  ultimately show ?thesis
    using validate_string_fits [OF v(1)] validate_optional_pred [OF v(2) validate_string_fits]
      validate_optional_pred [OF v(3) validate_string_fits] validate_optional_pred [OF v(5) constraint_validate_finite]
    by (simp add: feature_encodable_def)
qed

lemma validate_feature_list_Inr:
  "validate_feature_list names fs = Inr u \<longleftrightarrow>
     (\<forall>f \<in> set fs. feature_validate f = Inr ()) \<and> distinct (map fd_name fs) \<and> fd_name ` set fs \<inter> set names = {}"
  by (induction names fs rule: validate_feature_list.induct) (auto simp: result_simps)

lemma schema_bytes_inj:
  assumes "schema_validate s = Inr u" "schema_validate t = Inr v" "schema_bytes s = schema_bytes t"
  shows "s = t"
proof -
  have ok: "list_all feature_encodable (fs_features w) \<and> length (fs_features w) < 2 ^ 64"
    if "schema_validate w = Inr u" for w u
    using that feature_validate_encodable
    by (auto simp: schema_validate_def max_schema_features_def validate_feature_list_Inr list_all_iff split: if_splits)
  have e: "be_bytes 4 (unat (fs_version s)) = be_bytes 4 (unat (fs_version t))"
    "write_list write_feature (fs_features s) = write_list write_feature (fs_features t)"
    using assms(3) by (simp_all add: schema_bytes_def)
  have "unat (fs_version s) = unat (fs_version t)"
    by (rule be_bytes_inj [OF _ _ e(1)]) (use unsigned_less [of "fs_version s"] unsigned_less [of "fs_version t"] in simp_all)
  then have "fs_version s = fs_version t" by (simp add: word_unat_eq_iff)
  moreover have "fs_features s = fs_features t"
    using feature.list_unique [OF ok [OF assms(1)] ok [OF assms(2)], of "[]" "[]"] e(2) by simp
  ultimately show ?thesis by simp
qed

section \<open>Properties\<close>

text \<open>
  C32: what the schema check of a model descriptor establishes. A descriptor made with the hash of one schema
  accepts exactly the valid schemas that are equal to it, up to a collision of SHA-256 on two different
  encodings: version, feature order, names, units, transforms, bounds and metadata all matter.
\<close>
theorem ensure_schema_identifies:
  assumes "schema_hash sha s = Inr h" "model_descriptor_new a h d = Inr m"
  shows "ensure_schema sha m t = Inr () \<longleftrightarrow> schema_validate t = Inr ()
    \<and> (t = s \<or> schema_bytes t \<noteq> schema_bytes s \<and> sha (schema_bytes t) = sha (schema_bytes s))"
proof -
  have s: "schema_validate s = Inr ()" "h = sha (schema_bytes s)" and m: "md_feature_schema_hash m = h"
    using assms by (auto simp: schema_hash_def model_descriptor_new_def Let_def result_simps)
  have "ensure_schema sha m t = Inr () \<longleftrightarrow> schema_validate t = Inr () \<and> sha (schema_bytes t) = sha (schema_bytes s)"
    by (auto simp: ensure_schema_def schema_hash_def result_simps m s(2))
  then show ?thesis using schema_bytes_inj [OF s(1), of t] by (cases "schema_bytes t = schema_bytes s") auto
qed

definition demo_schema :: "feature_schema" where
  "demo_schema = \<lparr>fs_version = 1, fs_features = [\<lparr>fd_name = ''a'', fd_unit = Some ''s'', fd_transform = None,
     fd_constraint = Some \<lparr>fc_min = Some 0, fc_max = None\<rparr>, fd_metadata = bt_insert ''k'' ''v'' bt_empty\<rparr>]\<rparr>"

lemma demo_schema_valid: "schema_validate demo_schema = Inr ()" "schema_validate (demo_schema\<lparr>fs_version := 2\<rparr>) = Inr ()"
  by code_simp+

lemma ensure_schema_identifies_witness:
  "ensure_schema (\<lambda>b. b) \<lparr>md_algorithm = \<lparr>ad_name = ''ftrl'', ad_algorithm_version = ''1'', ad_state_version = ''1''\<rparr>,
      md_feature_schema_hash = schema_bytes demo_schema, md_configuration_digest = None\<rparr> (demo_schema\<lparr>fs_version := 2\<rparr>)
    \<noteq> Inr ()"
proof -
  have h: "schema_hash (\<lambda>b. b) demo_schema = Inr (schema_bytes demo_schema)"
    by (simp add: schema_hash_def demo_schema_valid)
  have a: "algorithm_validate \<lparr>ad_name = ''ftrl'', ad_algorithm_version = ''1'', ad_state_version = ''1''\<rparr> = Inr ()"
    by code_simp
  have m: "model_descriptor_new \<lparr>ad_name = ''ftrl'', ad_algorithm_version = ''1'', ad_state_version = ''1''\<rparr>
      (schema_bytes demo_schema) None = Inr \<lparr>md_algorithm = \<lparr>ad_name = ''ftrl'', ad_algorithm_version = ''1'',
        ad_state_version = ''1''\<rparr>, md_feature_schema_hash = schema_bytes demo_schema, md_configuration_digest = None\<rparr>"
    by (simp add: model_descriptor_new_def model_descriptor_validate_def a)
  show ?thesis using ensure_schema_identifies [OF h m, of "demo_schema\<lparr>fs_version := 2\<rparr>"]
    by (simp add: demo_schema_def)
qed

lemma signed_zero_changes_hash_input:
  "(0 :: f64) \<le> - 0 \<and> - 0 \<le> (0 :: f64) \<and> write_f64 0 \<noteq> write_f64 (- 0)"
  by code_simp

end
