(* ===== verification/LinUcb.thy ===== *)
theory LinUcb imports Bandits Error_Text Stats begin

text \<open>
  The contextual bandits of \<open>src/bandit/linucb.rs\<close>: \<open>LinUcb\<close>, which keeps a ridge matrix per arm and factors it
  by Cholesky for every score, and the preview \<open>LinUcbFast\<close>, which keeps the inverse and updates it by the
  Sherman-Morrison formula. A matrix is a list of rows.
\<close>

type_synonym matrix = "f64 list list"

section \<open>Matrix helpers\<close>

definition identity_matrix :: "usize \<Rightarrow> matrix" where
  "identity_matrix d = map (\<lambda>i. (replicate d 0)[i := 1]) [0..<d]"

definition mat_set :: "matrix \<Rightarrow> usize \<Rightarrow> usize \<Rightarrow> f64 \<Rightarrow> matrix" where
  "mat_set m i j v = m[i := (m ! i)[j := v]]"

definition checked_dot :: "f64 list \<Rightarrow> f64 list \<Rightarrow> string \<Rightarrow> rill_error + f64" where
  "checked_dot a b field = try_fold (\<lambda>r lr. checked_finite_add r (fst lr * snd lr) field) 0 (zip a b)"

definition checked_matrix_vector_mul :: "matrix \<Rightarrow> f64 list \<Rightarrow> rill_error + f64 list" where
  "checked_matrix_vector_mul m v = try_map (\<lambda>row. checked_dot row v ''LinUCB matrix-vector product'') m"

definition cholesky_entry :: "matrix \<Rightarrow> usize \<Rightarrow> matrix \<Rightarrow> usize \<Rightarrow> rill_error + matrix" where
  "cholesky_entry m i lower j =
     and_then (checked_dot (take j (lower ! i)) (take j (lower ! j)) ''LinUCB Cholesky correction'') (\<lambda>correction.
     let residual = m ! i ! j - correction in
     if i = j
     then (if \<not> is_finite residual \<or> residual \<le> 0
           then Inl (InvalidState ''LinUCB matrix is not positive definite'')
           else Inr (mat_set lower i j (f_sqrt residual)))
     else (let v = residual / lower ! j ! j in
           if \<not> is_finite v then Inl (InvalidState ''LinUCB Cholesky factor is non-finite'')
           else Inr (mat_set lower i j v)))"

definition cholesky_factor :: "matrix \<Rightarrow> rill_error + matrix" where
  "cholesky_factor m =
     (let n = length m in
      if n = 0 \<or> (\<exists>row \<in> set m. length row \<noteq> n)
      then Inl (InvalidState ''LinUCB matrix must be non-empty and square'')
      else try_fold (\<lambda>lower i. try_fold (cholesky_entry m i) lower [0..<Suc i]) (replicate n (replicate n 0)) [0..<n])"

definition matrix_is_positive_definite :: "matrix \<Rightarrow> bool" where
  "matrix_is_positive_definite m \<longleftrightarrow> \<not> is_err (cholesky_factor m)"

definition solve_step :: "string \<Rightarrow> f64 \<Rightarrow> f64 \<Rightarrow> f64 \<Rightarrow> rill_error + f64" where
  "solve_step field rhs correction diagonal =
     (let v = (rhs - correction) / diagonal in if \<not> is_finite v then Inl (NonFiniteValue field v) else Inr v)"

definition forward_step :: "matrix \<Rightarrow> f64 list \<Rightarrow> f64 list \<Rightarrow> usize \<Rightarrow> rill_error + f64 list" where
  "forward_step lower rhs intermediate i =
     and_then (try_fold (\<lambda>c jv. checked_finite_add c (lower ! i ! fst jv * snd jv) ''LinUCB forward solve'') 0
       (take i (List.enumerate 0 intermediate))) (\<lambda>correction.
     and_then (solve_step ''LinUCB forward solve'' (rhs ! i) correction (lower ! i ! i)) (\<lambda>v.
     Inr (intermediate[i := v])))"

definition backward_step :: "matrix \<Rightarrow> f64 list \<Rightarrow> f64 list \<Rightarrow> usize \<Rightarrow> rill_error + f64 list" where
  "backward_step lower intermediate solution i =
     and_then (try_fold (\<lambda>c j. checked_finite_add c (lower ! j ! i * solution ! j) ''LinUCB backward solve'') 0
       [Suc i..<length lower]) (\<lambda>correction.
     and_then (solve_step ''LinUCB backward solve'' (intermediate ! i) correction (lower ! i ! i)) (\<lambda>v.
     Inr (solution[i := v])))"

definition cholesky_solve :: "matrix \<Rightarrow> f64 list \<Rightarrow> rill_error + f64 list" where
  "cholesky_solve lower rhs =
     (let n = length lower in
      if length rhs \<noteq> n then Inl (DimensionMismatch n (length rhs))
      else and_then (try_fold (forward_step lower rhs) (replicate n 0) [0..<n]) (\<lambda>intermediate.
        try_fold (backward_step lower intermediate) (replicate n 0) (rev [0..<n])))"

definition inverse_column :: "matrix \<Rightarrow> matrix \<Rightarrow> usize \<Rightarrow> rill_error + matrix" where
  "inverse_column lower acc column =
     and_then (cholesky_solve lower ((replicate (length lower) 0)[column := 1])) (\<lambda>solution.
     Inr (map (\<lambda>(row, v). row[column := v]) (zip acc solution)))"

definition symmetrize_entry :: "usize \<Rightarrow> matrix \<Rightarrow> usize \<Rightarrow> rill_error + matrix" where
  "symmetrize_entry i m j =
     (let v = (m ! i ! j + m ! j ! i) / f_of_rat 2 in
      and_then (ensure_finite ''LinUCB inverse'' v) (\<lambda>_. Inr (mat_set (mat_set m i j v) j i v)))"

definition inverse_from_cholesky :: "matrix \<Rightarrow> rill_error + matrix" where
  "inverse_from_cholesky lower =
     (let n = length lower in
      and_then (try_fold (inverse_column lower) (replicate n (replicate n 0)) [0..<n]) (\<lambda>inverse.
      try_fold (\<lambda>m i. try_fold (symmetrize_entry i) m [0..<i]) inverse [0..<n]))"

section \<open>Configuration, scores and the choice among them\<close>

record linucb_config =
  lc_alpha :: f64
  lc_arm_count :: usize
  lc_feature_count :: usize

definition linucb_config_default :: linucb_config where
  "linucb_config_default = \<lparr>lc_alpha = 1, lc_arm_count = 2, lc_feature_count = 1\<rparr>"

definition linucb_config_validate :: "linucb_config \<Rightarrow> rill_error + unit" where
  "linucb_config_validate c =
     (if lc_arm_count c = 0 then Inl (InvalidArmCount (lc_arm_count c))
      else if lc_feature_count c = 0 then Inl (InvalidFeatureCount (lc_feature_count c))
      else if \<not> is_finite (lc_alpha c) \<or> lc_alpha c \<le> 0 then Inl (InvalidParameter ''alpha'' (lc_alpha c))
      else Inr ())"

record arm_score =
  sc_arm :: usize
  sc_exploitation :: f64
  sc_exploration_bonus :: f64
  sc_total_score :: f64

text \<open>One round of the loops that choose at random among equal scores: the best arm so far, its score, the number of ties.\<close>

definition tie_step :: "'g rng \<Rightarrow> usize \<Rightarrow> f64 \<Rightarrow> usize \<times> f64 \<times> usize \<Rightarrow> 'g \<Rightarrow> (usize \<times> f64 \<times> usize) \<times> 'g" where
  "tie_step R arm score st g =
     (case st of (best_arm, best_score, tied) \<Rightarrow>
      if best_score < score then ((arm, score, 1), g)
      else if feq score best_score
      then (case gen_index R (tied + 1) g of (k, g') \<Rightarrow> ((if k = 0 then arm else best_arm, best_score, tied + 1), g'))
      else (st, g))"

fun select_loop ::
    "'g rng \<Rightarrow> (usize \<Rightarrow> rill_error + arm_score) \<Rightarrow> usize list \<Rightarrow> usize \<times> f64 \<times> usize \<Rightarrow> 'g \<Rightarrow> (rill_error + usize) \<times> 'g" where
  "select_loop R score [] st g = (Inr (fst st), g)"
| "select_loop R score (arm # arms) st g =
     (case score arm of
        Inl e \<Rightarrow> (Inl e, g)
      | Inr s \<Rightarrow> (case tie_step R arm (sc_total_score s) st g of (st', g') \<Rightarrow> select_loop R score arms st' g'))"

fun tie_loop :: "'g rng \<Rightarrow> arm_score list \<Rightarrow> usize \<times> f64 \<times> usize \<Rightarrow> 'g \<Rightarrow> usize \<times> 'g" where
  "tie_loop R [] st g = (fst st, g)"
| "tie_loop R (s # ss) st g =
     (case tie_step R (sc_arm s) (sc_total_score s) st g of (st', g') \<Rightarrow> tie_loop R ss st' g')"

definition select_random_tie :: "'g rng \<Rightarrow> arm_score list \<Rightarrow> 'g \<Rightarrow> usize \<times> 'g" where
  "select_random_tie R scores g =
     tie_loop R (tl scores) (sc_arm (hd scores), sc_total_score (hd scores), 1) g"

definition deterministic_step ::
    "(usize \<Rightarrow> rill_error + arm_score) \<Rightarrow> usize \<times> f64 \<Rightarrow> usize \<Rightarrow> rill_error + usize \<times> f64" where
  "deterministic_step score st arm =
     and_then (score arm) (\<lambda>s. Inr (if snd st < sc_total_score s then (arm, sc_total_score s) else st))"

section \<open>LinUCB\<close>

record linucb =
  lu_arm_count :: usize
  lu_feature_count :: usize
  lu_alpha :: f64
  lu_a_matrices :: "matrix list"
  lu_b_vectors :: "f64 list list"
  lu_samples_seen :: u64

definition linucb_new :: "linucb_config \<Rightarrow> rill_error + linucb" where
  "linucb_new c = and_then (linucb_config_validate c) (\<lambda>_.
     Inr \<lparr>lu_arm_count = lc_arm_count c, lu_feature_count = lc_feature_count c, lu_alpha = lc_alpha c,
          lu_a_matrices = map (\<lambda>_. identity_matrix (lc_feature_count c)) [0..<lc_arm_count c],
          lu_b_vectors = map (\<lambda>_. replicate (lc_feature_count c) 0) [0..<lc_arm_count c],
          lu_samples_seen = 0\<rparr>)"

definition linucb_a_matrix :: "linucb \<Rightarrow> usize \<Rightarrow> rill_error + matrix" where
  "linucb_a_matrix m arm = and_then (validate_arm (lu_arm_count m) arm) (\<lambda>_. Inr (lu_a_matrices m ! arm))"

definition linucb_b_vector :: "linucb \<Rightarrow> usize \<Rightarrow> rill_error + f64 list" where
  "linucb_b_vector m arm = and_then (validate_arm (lu_arm_count m) arm) (\<lambda>_. Inr (lu_b_vectors m ! arm))"

definition linucb_validate_arm :: "usize \<Rightarrow> matrix \<Rightarrow> f64 list \<Rightarrow> usize \<Rightarrow> rill_error + unit" where
  "linucb_validate_arm d m v arm =
     (if length m \<noteq> d \<or> (\<exists>row \<in> set m. length row \<noteq> d) \<or> length v \<noteq> d
      then Inl (InvalidState (''arm '' @ decimal arm @ '' state does not match feature_count''))
      else if (\<exists>x \<in> set (concat m). \<not> is_finite x) \<or> (\<exists>x \<in> set v. \<not> is_finite x)
      then Inl (InvalidState (''arm '' @ decimal arm @ '' state contains a non-finite value''))
      else if (\<exists>i \<in> set [0..<length m]. \<exists>j \<in> set [0..<i]. \<not> feq (m ! i ! j) (m ! j ! i))
      then Inl (InvalidState (''A matrix for arm '' @ decimal arm @ '' is not symmetric''))
      else if \<not> matrix_is_positive_definite m
      then Inl (InvalidState (''A matrix for arm '' @ decimal arm @ '' is not positive definite''))
      else Inr ())"

definition linucb_validate :: "linucb \<Rightarrow> rill_error + unit" where
  "linucb_validate m =
     and_then (linucb_config_validate
       \<lparr>lc_alpha = lu_alpha m, lc_arm_count = lu_arm_count m, lc_feature_count = lu_feature_count m\<rparr>) (\<lambda>_.
     if length (lu_a_matrices m) \<noteq> lu_arm_count m \<or> length (lu_b_vectors m) \<noteq> lu_arm_count m
     then Inl (InvalidState ''arm_count does not match per-arm state lengths'')
     else try_for_each (\<lambda>arm. linucb_validate_arm (lu_feature_count m) (lu_a_matrices m ! arm) (lu_b_vectors m ! arm) arm)
       [0..<lu_arm_count m])"

definition linucb_validate_context :: "linucb \<Rightarrow> f64 list \<Rightarrow> rill_error + unit" where
  "linucb_validate_context m context =
     (if length context \<noteq> lu_feature_count m then Inl (DimensionMismatch (lu_feature_count m) (length context))
      else try_for_each (ensure_finite ''context'') context)"

definition linucb_score_arm_validated :: "linucb \<Rightarrow> f64 list \<Rightarrow> usize \<Rightarrow> rill_error + arm_score" where
  "linucb_score_arm_validated m context arm =
     and_then (cholesky_factor (lu_a_matrices m ! arm)) (\<lambda>lower.
     and_then (cholesky_solve lower (lu_b_vectors m ! arm)) (\<lambda>theta.
     and_then (checked_dot theta context ''LinUCB exploitation'') (\<lambda>exploitation.
     and_then (cholesky_solve lower context) (\<lambda>solved_context.
     and_then (checked_dot context solved_context ''LinUCB exploration variance'') (\<lambda>quad.
     let quad_safe = (if quad < 0 then 0 else quad); bonus = lu_alpha m * f_sqrt quad_safe in
     if \<not> is_finite bonus then Inl (NonFiniteValue ''LinUCB exploration bonus'' bonus)
     else and_then (checked_finite_add exploitation bonus ''LinUCB total score'') (\<lambda>t.
       Inr \<lparr>sc_arm = arm, sc_exploitation = exploitation, sc_exploration_bonus = bonus, sc_total_score = t\<rparr>))))))"

definition linucb_score_arm :: "linucb \<Rightarrow> usize \<Rightarrow> f64 list \<Rightarrow> rill_error + arm_score" where
  "linucb_score_arm m arm context =
     and_then (validate_arm (lu_arm_count m) arm) (\<lambda>_.
     and_then (linucb_validate_context m context) (\<lambda>_. linucb_score_arm_validated m context arm))"

definition linucb_score_all :: "linucb \<Rightarrow> f64 list \<Rightarrow> rill_error + arm_score list" where
  "linucb_score_all m context = and_then (linucb_validate_context m context) (\<lambda>_.
     try_map (linucb_score_arm_validated m context) [0..<lu_arm_count m])"

definition linucb_select_with_scores ::
    "'g rng \<Rightarrow> linucb \<Rightarrow> f64 list \<Rightarrow> 'g \<Rightarrow> (rill_error + usize \<times> arm_score list) \<times> 'g" where
  "linucb_select_with_scores R m context g =
     (case linucb_score_all m context of
        Inl e \<Rightarrow> (Inl e, g)
      | Inr scores \<Rightarrow> (case select_random_tie R scores g of (arm, g') \<Rightarrow> (Inr (arm, scores), g')))"

definition linucb_select_deterministic :: "linucb \<Rightarrow> f64 list \<Rightarrow> rill_error + usize" where
  "linucb_select_deterministic m context =
     and_then (linucb_validate_context m context) (\<lambda>_.
     and_then (try_fold (deterministic_step (linucb_score_arm_validated m context)) (0, f_neg_inf) [0..<lu_arm_count m]) (\<lambda>st.
     Inr (fst st)))"

record condition_diagnostics =
  cd_arm :: usize
  cd_min_cholesky_diagonal :: f64
  cd_max_cholesky_diagonal :: f64
  cd_condition_indicator :: f64

definition linucb_condition_diagnostics :: "linucb \<Rightarrow> usize \<Rightarrow> rill_error + condition_diagnostics" where
  "linucb_condition_diagnostics m arm =
     and_then (validate_arm (lu_arm_count m) arm) (\<lambda>_.
     and_then (cholesky_factor (lu_a_matrices m ! arm)) (\<lambda>lower.
     let diagonal = map (\<lambda>i. lower ! i ! i) [0..<length lower];
         lo = foldl f_min f_inf diagonal; hi = foldl f_max 0 diagonal; r = hi / lo; indicator = r * r in
     if \<not> is_finite indicator then Inl (InvalidState ''LinUCB condition indicator is non-finite'')
     else Inr \<lparr>cd_arm = arm, cd_min_cholesky_diagonal = lo, cd_max_cholesky_diagonal = hi,
               cd_condition_indicator = indicator\<rparr>))"

definition linucb_select :: "'g rng \<Rightarrow> linucb \<Rightarrow> f64 list \<Rightarrow> 'g \<Rightarrow> (rill_error + usize) \<times> 'g" where
  "linucb_select R m context g =
     (case linucb_validate_context m context of
        Inl e \<Rightarrow> (Inl e, g)
      | Inr _ \<Rightarrow> select_loop R (linucb_score_arm_validated m context) [0..<lu_arm_count m] (0, f_neg_inf, 0) g)"

definition add_outer :: "usize \<Rightarrow> matrix \<Rightarrow> f64 list \<Rightarrow> rill_error + matrix" where
  "add_outer d a context =
     try_map (\<lambda>i. try_map (\<lambda>j. checked_finite_add (a ! i ! j) (context ! i * context ! j) ''A matrix'') [0..<d]) [0..<d]"

definition add_reward :: "string \<Rightarrow> usize \<Rightarrow> f64 list \<Rightarrow> f64 list \<Rightarrow> f64 \<Rightarrow> rill_error + f64 list" where
  "add_reward field d b context reward =
     try_map (\<lambda>i. checked_finite_add (b ! i) (reward * context ! i) field) [0..<d]"

definition linucb_update :: "usize \<times> f64 list \<times> f64 \<Rightarrow> linucb \<Rightarrow> (rill_error + unit) \<times> linucb" where
  "linucb_update acr m = (case acr of (arm, context, reward) \<Rightarrow> transact m
     (and_then (validate_arm (lu_arm_count m) arm) (\<lambda>_.
      and_then (linucb_validate_context m context) (\<lambda>_.
      and_then (validate_reward_finite reward) (\<lambda>_.
      and_then (add_outer (lu_feature_count m) (lu_a_matrices m ! arm) context) (\<lambda>next_a.
      and_then (add_reward ''b vector'' (lu_feature_count m) (lu_b_vectors m ! arm) context reward) (\<lambda>next_b.
      and_then (bandit_increment (lu_samples_seen m) ''samples_seen'') (\<lambda>next_samples.
      and_then (cholesky_factor next_a) (\<lambda>_.
      Inr (m\<lparr>lu_a_matrices := (lu_a_matrices m)[arm := next_a], lu_b_vectors := (lu_b_vectors m)[arm := next_b],
             lu_samples_seen := next_samples\<rparr>))))))))))"

definition linucb_reset :: "linucb \<Rightarrow> linucb" where
  "linucb_reset m = m\<lparr>lu_a_matrices := map (\<lambda>_. identity_matrix (lu_feature_count m)) (lu_a_matrices m),
     lu_b_vectors := map (map (\<lambda>_. 0)) (lu_b_vectors m), lu_samples_seen := 0\<rparr>"

definition linucb_deserialize :: "linucb \<Rightarrow> string + linucb" where
  "linucb_deserialize m = map_err rill_error_text (and_then (linucb_validate m) (\<lambda>_. Inr m))"

section \<open>The preview implementation\<close>

record linucb_fast =
  lf_arm_count :: usize
  lf_feature_count :: usize
  lf_alpha :: f64
  lf_inverse_matrices :: "matrix list"
  lf_b_vectors :: "f64 list list"
  lf_samples_seen :: u64

definition fast_new :: "linucb_config \<Rightarrow> rill_error + linucb_fast" where
  "fast_new c = and_then (linucb_config_validate c) (\<lambda>_.
     Inr \<lparr>lf_arm_count = lc_arm_count c, lf_feature_count = lc_feature_count c, lf_alpha = lc_alpha c,
          lf_inverse_matrices = map (\<lambda>_. identity_matrix (lc_feature_count c)) [0..<lc_arm_count c],
          lf_b_vectors = map (\<lambda>_. replicate (lc_feature_count c) 0) [0..<lc_arm_count c],
          lf_samples_seen = 0\<rparr>)"

definition almost_symmetric :: "matrix \<Rightarrow> bool" where
  "almost_symmetric m \<longleftrightarrow> (\<forall>i \<in> set [0..<length m]. \<forall>j \<in> set [0..<i].
     let scale = f_max (f_max \<bar>m ! i ! j\<bar> \<bar>m ! j ! i\<bar>) 1 in
     \<not> f_of_rat (1 / 1000000000000) * scale < \<bar>m ! i ! j - m ! j ! i\<bar>)"

definition fast_validate_arm :: "usize \<Rightarrow> matrix \<Rightarrow> f64 list \<Rightarrow> usize \<Rightarrow> rill_error + unit" where
  "fast_validate_arm d m v arm =
     (if length m \<noteq> d \<or> (\<exists>row \<in> set m. length row \<noteq> d) \<or> length v \<noteq> d
         \<or> (\<exists>x \<in> set (concat m). \<not> is_finite x) \<or> (\<exists>x \<in> set v. \<not> is_finite x)
      then Inl (InvalidState (''fast LinUCB arm '' @ decimal arm @ '' has malformed dimensions or values''))
      else if \<not> almost_symmetric m
      then Inl (InvalidState (''fast LinUCB inverse for arm '' @ decimal arm @ '' is not symmetric''))
      else and_then (cholesky_factor m) (\<lambda>_. Inr ()))"

definition fast_validate :: "linucb_fast \<Rightarrow> rill_error + unit" where
  "fast_validate m =
     and_then (linucb_config_validate
       \<lparr>lc_alpha = lf_alpha m, lc_arm_count = lf_arm_count m, lc_feature_count = lf_feature_count m\<rparr>) (\<lambda>_.
     if length (lf_inverse_matrices m) \<noteq> lf_arm_count m \<or> length (lf_b_vectors m) \<noteq> lf_arm_count m
     then Inl (InvalidState ''fast LinUCB arm state lengths are inconsistent'')
     else try_for_each (\<lambda>arm. fast_validate_arm (lf_feature_count m) (lf_inverse_matrices m ! arm) (lf_b_vectors m ! arm) arm)
       [0..<lf_arm_count m])"

definition fast_from_linucb :: "linucb \<Rightarrow> rill_error + linucb_fast" where
  "fast_from_linucb s =
     and_then (linucb_validate s) (\<lambda>_.
     and_then (try_map (\<lambda>m. and_then (cholesky_factor m) inverse_from_cholesky) (lu_a_matrices s)) (\<lambda>inverses.
     let fast = \<lparr>lf_arm_count = lu_arm_count s, lf_feature_count = lu_feature_count s, lf_alpha = lu_alpha s,
                 lf_inverse_matrices = inverses, lf_b_vectors = lu_b_vectors s, lf_samples_seen = lu_samples_seen s\<rparr>
     in and_then (fast_validate fast) (\<lambda>_. Inr fast)))"

definition fast_inverse_matrix :: "linucb_fast \<Rightarrow> usize \<Rightarrow> rill_error + matrix" where
  "fast_inverse_matrix m arm = and_then (validate_arm (lf_arm_count m) arm) (\<lambda>_. Inr (lf_inverse_matrices m ! arm))"

definition state_f64_count :: "linucb_fast \<Rightarrow> usize" where
  "state_f64_count m = lf_arm_count m * (lf_feature_count m * lf_feature_count m + lf_feature_count m) + 1"

definition fast_validate_context :: "linucb_fast \<Rightarrow> f64 list \<Rightarrow> rill_error + unit" where
  "fast_validate_context m context =
     (if length context \<noteq> lf_feature_count m then Inl (DimensionMismatch (lf_feature_count m) (length context))
      else try_for_each (ensure_finite ''context'') context)"

definition fast_score_arm_validated :: "linucb_fast \<Rightarrow> f64 list \<Rightarrow> usize \<Rightarrow> rill_error + arm_score" where
  "fast_score_arm_validated m context arm =
     and_then (checked_matrix_vector_mul (lf_inverse_matrices m ! arm) (lf_b_vectors m ! arm)) (\<lambda>theta.
     and_then (checked_dot theta context ''fast LinUCB exploitation'') (\<lambda>exploitation.
     and_then (checked_matrix_vector_mul (lf_inverse_matrices m ! arm) context) (\<lambda>solved_context.
     and_then (checked_dot context solved_context ''fast LinUCB variance'') (\<lambda>variance.
     let bonus = lf_alpha m * f_sqrt (f_max variance 0) in
     and_then (ensure_finite ''fast LinUCB exploration bonus'' bonus) (\<lambda>_.
     and_then (checked_finite_add exploitation bonus ''fast LinUCB total score'') (\<lambda>t.
     Inr \<lparr>sc_arm = arm, sc_exploitation = exploitation, sc_exploration_bonus = bonus, sc_total_score = t\<rparr>))))))"

definition fast_score_arm :: "linucb_fast \<Rightarrow> usize \<Rightarrow> f64 list \<Rightarrow> rill_error + arm_score" where
  "fast_score_arm m arm context =
     and_then (validate_arm (lf_arm_count m) arm) (\<lambda>_.
     and_then (fast_validate_context m context) (\<lambda>_. fast_score_arm_validated m context arm))"

definition fast_score_all :: "linucb_fast \<Rightarrow> f64 list \<Rightarrow> rill_error + arm_score list" where
  "fast_score_all m context = and_then (fast_validate_context m context) (\<lambda>_.
     try_map (fast_score_arm_validated m context) [0..<lf_arm_count m])"

definition fast_select_deterministic :: "linucb_fast \<Rightarrow> f64 list \<Rightarrow> rill_error + usize" where
  "fast_select_deterministic m context =
     and_then (fast_validate_context m context) (\<lambda>_.
     and_then (try_fold (deterministic_step (fast_score_arm_validated m context)) (0, f_neg_inf) [0..<lf_arm_count m]) (\<lambda>st.
     Inr (fst st)))"

definition fast_select :: "'g rng \<Rightarrow> linucb_fast \<Rightarrow> f64 list \<Rightarrow> 'g \<Rightarrow> (rill_error + usize) \<times> 'g" where
  "fast_select R m context g =
     (case fast_validate_context m context of
        Inl e \<Rightarrow> (Inl e, g)
      | Inr _ \<Rightarrow> select_loop R (fast_score_arm_validated m context) [0..<lf_arm_count m] (0, f_neg_inf, 0) g)"

definition sherman_morrison :: "usize \<Rightarrow> matrix \<Rightarrow> f64 list \<Rightarrow> f64 \<Rightarrow> rill_error + matrix" where
  "sherman_morrison d a projected den =
     try_map (\<lambda>i. try_map (\<lambda>j. checked_finite_add (a ! i ! j) (- (projected ! i * projected ! j / den))
       ''fast LinUCB inverse update'') [0..<d]) [0..<d]"

text \<open>Row \<open>i\<close> takes its entries left of the diagonal from the rows above, and its diagonal entry is checked.\<close>

definition mirror_row :: "matrix \<Rightarrow> usize \<Rightarrow> rill_error + matrix" where
  "mirror_row m i =
     (let row = map (\<lambda>j. if j < i then m ! j ! i else m ! i ! j) [0..<length (m ! i)] in
      if row ! i \<le> 0 then Inl (InvalidState ''fast LinUCB inverse lost a positive diagonal'') else Inr (m[i := row]))"

definition fast_update :: "usize \<times> f64 list \<times> f64 \<Rightarrow> linucb_fast \<Rightarrow> (rill_error + unit) \<times> linucb_fast" where
  "fast_update acr m = (case acr of (arm, context, reward) \<Rightarrow> transact m
     (and_then (validate_arm (lf_arm_count m) arm) (\<lambda>_.
      and_then (fast_validate_context m context) (\<lambda>_.
      and_then (validate_reward_finite reward) (\<lambda>_.
      let current = lf_inverse_matrices m ! arm; d = lf_feature_count m in
      and_then (checked_matrix_vector_mul current context) (\<lambda>projected.
      and_then (checked_dot context projected ''fast LinUCB update variance'') (\<lambda>variance.
      let tolerance = f_of_rat (1 / 1000000000000) * f_max (f_sum (map abs context)) 1 in
      if variance < - tolerance
      then Inl (InvalidState ''fast LinUCB inverse produced a negative update variance'')
      else and_then (checked_finite_add 1 variance ''Sherman-Morrison denominator'') (\<lambda>den.
      if den \<le> f_of_rat (1 / 2 ^ 52)
      then Inl (InvalidState ''fast LinUCB Sherman-Morrison denominator is not positive'')
      else and_then (sherman_morrison d current projected den) (\<lambda>updated.
      and_then (try_fold mirror_row updated [0..<d]) (\<lambda>next_inverse.
      and_then (add_reward ''fast LinUCB b vector'' d (lf_b_vectors m ! arm) context reward) (\<lambda>next_b.
      and_then (bandit_increment (lf_samples_seen m) ''fast LinUCB samples_seen'') (\<lambda>next_samples.
      Inr (m\<lparr>lf_inverse_matrices := (lf_inverse_matrices m)[arm := next_inverse],
             lf_b_vectors := (lf_b_vectors m)[arm := next_b], lf_samples_seen := next_samples\<rparr>)))))))))))))"

definition fast_reset :: "linucb_fast \<Rightarrow> linucb_fast" where
  "fast_reset m = m\<lparr>lf_inverse_matrices := map (\<lambda>_. identity_matrix (lf_feature_count m)) (lf_inverse_matrices m),
     lf_b_vectors := map (map (\<lambda>_. 0)) (lf_b_vectors m), lf_samples_seen := 0\<rparr>"

definition fast_deserialize :: "linucb_fast \<Rightarrow> string + linucb_fast" where
  "fast_deserialize m = map_err rill_error_text (and_then (fast_validate m) (\<lambda>_. Inr m))"

section \<open>Shapes of matrices\<close>

lemma f_times_commute: "x * y = (y * x :: f64)"
proof transfer
  fix x y :: fp
  have "(fp_sign x \<noteq> fp_sign y) = (fp_sign y \<noteq> fp_sign x)" by blast
  then show "fp_times x y = fp_times y x" by (simp add: fp_times_def mult.commute disj_commute conj_commute)
qed

definition square :: "usize \<Rightarrow> matrix \<Rightarrow> bool" where
  "square d m \<longleftrightarrow> length m = d \<and> (\<forall>i < d. length (m ! i) = d)"

definition finite_entries :: "usize \<Rightarrow> matrix \<Rightarrow> bool" where
  "finite_entries d m \<longleftrightarrow> (\<forall>i < d. \<forall>j < d. is_finite (m ! i ! j))"

definition symmetric :: "usize \<Rightarrow> matrix \<Rightarrow> bool" where
  "symmetric d m \<longleftrightarrow> (\<forall>i < d. \<forall>j < i. f_val (m ! i ! j) = f_val (m ! j ! i))"

definition arm_ok :: "usize \<Rightarrow> matrix \<Rightarrow> f64 list \<Rightarrow> bool" where
  "arm_ok d m v \<longleftrightarrow> square d m \<and> finite_entries d m \<and> symmetric d m \<and> length v = d \<and> list_all is_finite v
     \<and> (\<exists>l. cholesky_factor m = Inr l)"

lemma square_alt: "length m = d \<and> (\<forall>row \<in> set m. length row = d) \<longleftrightarrow> square d m"
  by (auto simp: square_def all_set_conv_all_nth)

lemma finite_entries_alt:
  "square d m \<Longrightarrow> (\<forall>row \<in> set m. \<forall>x \<in> set row. is_finite x) \<longleftrightarrow> finite_entries d m"
  by (auto simp: square_def finite_entries_def all_set_conv_all_nth)

lemma symmetric_alt:
  assumes "square d m" "finite_entries d m"
  shows "(\<forall>i \<in> set [0..<length m]. \<forall>j \<in> set [0..<i]. feq (m ! i ! j) (m ! j ! i)) \<longleftrightarrow> symmetric d m"
proof -
  have "feq (m ! i ! j) (m ! j ! i) \<longleftrightarrow> f_val (m ! i ! j) = f_val (m ! j ! i)" if "i < d" "j < i" for i j
    using assms(2) that by (intro feq_finite) (simp_all add: finite_entries_def)
  then show ?thesis using assms(1) by (auto simp: symmetric_def square_def Ball_def)
qed

lemma linucb_validate_arm_Inr: "linucb_validate_arm d m v arm = Inr u \<longleftrightarrow> arm_ok d m v"
proof -
  have "linucb_validate_arm d m v arm = Inr u \<longleftrightarrow> (length m = d \<and> (\<forall>row \<in> set m. length row = d)) \<and> length v = d
      \<and> (\<forall>row \<in> set m. \<forall>x \<in> set row. is_finite x) \<and> list_all is_finite v
      \<and> (\<forall>i \<in> set [0..<length m]. \<forall>j \<in> set [0..<i]. feq (m ! i ! j) (m ! j ! i)) \<and> (\<exists>l. cholesky_factor m = Inr l)"
    by (auto simp: linucb_validate_arm_def matrix_is_positive_definite_def list_all_iff not_is_err_iff)
  also have "\<dots> \<longleftrightarrow> arm_ok d m v"
    unfolding square_alt arm_ok_def using symmetric_alt [of d m] finite_entries_alt [of d m] by blast
  finally show ?thesis .
qed

definition linucb_ok :: "linucb \<Rightarrow> bool" where
  "linucb_ok m \<longleftrightarrow> lu_arm_count m \<noteq> 0 \<and> lu_feature_count m \<noteq> 0 \<and> is_finite (lu_alpha m) \<and> 0 < f_val (lu_alpha m)
     \<and> length (lu_a_matrices m) = lu_arm_count m \<and> length (lu_b_vectors m) = lu_arm_count m
     \<and> (\<forall>arm < lu_arm_count m. arm_ok (lu_feature_count m) (lu_a_matrices m ! arm) (lu_b_vectors m ! arm))"

lemma linucb_config_validate_Inr: "linucb_config_validate c = Inr u \<longleftrightarrow>
    lc_arm_count c \<noteq> 0 \<and> lc_feature_count c \<noteq> 0 \<and> is_finite (lc_alpha c) \<and> 0 < f_val (lc_alpha c)"
  by (auto simp: linucb_config_validate_def less_eq_finite)

lemma linucb_validate_Inr: "linucb_validate m = Inr u \<longleftrightarrow> linucb_ok m"
  by (auto simp: linucb_validate_def linucb_ok_def result_simps linucb_config_validate_Inr linucb_validate_arm_Inr)

section \<open>The identity matrix factors\<close>

lemma f64_units: "(0 :: f64) * 0 = 0" "(0 :: f64) * 1 = 0" "(0 :: f64) + 0 = 0" "(1 :: f64) - 0 = 1" "(0 :: f64) - 0 = 0"
  "(0 :: f64) / 1 = 0" "f_sqrt 1 = 1" "\<not> (1 :: f64) \<le> 0"
  by code_simp+

definition unit_rows :: "usize \<Rightarrow> usize \<Rightarrow> matrix" where
  "unit_rows n k = map (\<lambda>i. if i < k then (replicate n 0)[i := 1] else replicate n 0) [0..<n]"

lemma unit_rows_full: "unit_rows n n = identity_matrix n"
  by (simp add: unit_rows_def identity_matrix_def)

lemma unit_rows_empty: "unit_rows n 0 = replicate n (replicate n 0)"
  by (simp add: unit_rows_def map_replicate_const)

lemma unit_rows_nth: "i < n \<Longrightarrow> unit_rows n k ! i = (if i < k then (replicate n 0)[i := 1] else replicate n 0)"
  by (simp add: unit_rows_def)

lemma unit_rows_step: "k < n \<Longrightarrow> mat_set (unit_rows n k) k k 1 = unit_rows n (Suc k)"
  by (rule nth_equalityI) (auto simp: mat_set_def unit_rows_def nth_list_update)

lemma checked_dot_zero:
  assumes "set ys \<subseteq> {0, 1}"
  shows "checked_dot (replicate k 0) ys field = Inr 0"
  using assms
proof (induction k arbitrary: ys)
  case (Suc k)
  show ?case
  proof (cases ys)
    case (Cons y zs)
    have "0 * y = 0" using Suc.prems Cons f64_units by auto
    then have "checked_dot (replicate (Suc k) 0) ys field = checked_dot (replicate k 0) zs field"
      by (simp add: checked_dot_def Cons checked_finite_add_def ensure_finite_def f64_units)
    then show ?thesis using Suc.IH [of zs] Suc.prems Cons by simp
  qed (simp add: checked_dot_def)
qed (simp add: checked_dot_def)

lemma identity_entry:
  assumes "i < n" "j \<le> i"
  shows "cholesky_entry (identity_matrix n) i (unit_rows n i) j = Inr (if j = i then unit_rows n (Suc i) else unit_rows n i)"
proof -
  have "set (unit_rows n i ! j) \<subseteq> {0, 1}"
    using assms set_update_subset_insert [of "replicate n (0 :: f64)" j 1] by (auto simp: unit_rows_nth)
  then have "set (take j (unit_rows n i ! j)) \<subseteq> {0, 1}" using set_take_subset by fast
  then have d: "checked_dot (take j (unit_rows n i ! i)) (take j (unit_rows n i ! j)) f = Inr 0" for f
    using assms by (simp add: unit_rows_nth checked_dot_zero)
  have z: "mat_set (unit_rows n i) i j 0 = unit_rows n i"
  proof -
    have "(replicate n (0 :: f64))[j := 0] = unit_rows n i ! i"
      using assms by (intro nth_equalityI) (auto simp: unit_rows_nth nth_list_update)
    moreover have "unit_rows n i ! i = replicate n 0" using assms by (simp add: unit_rows_nth)
    ultimately show ?thesis unfolding mat_set_def by (metis list_update_id)
  qed
  show ?thesis
  proof (cases "j = i")
    case True
    then show ?thesis using assms d unit_rows_step [OF assms(1)]
      by (simp add: cholesky_entry_def identity_matrix_def f64_units Let_def)
  next
    case False
    then show ?thesis using assms d z
      by (simp add: cholesky_entry_def identity_matrix_def f64_units Let_def unit_rows_nth)
  qed
qed

lemma identity_row: "i < n \<Longrightarrow> try_fold (cholesky_entry (identity_matrix n) i) (unit_rows n i) [0..<Suc i] = Inr (unit_rows n (Suc i))"
proof -
  assume i: "i < n"
  have "try_fold (cholesky_entry (identity_matrix n) i) (unit_rows n i) [0..<j] = Inr (unit_rows n i)" if "j \<le> i" for j
    using that by (induction j) (simp_all add: try_fold_append identity_entry i)
  then show ?thesis using identity_entry [OF i, of i] by (simp add: try_fold_append)
qed

lemma identity_factor:
  assumes "n \<noteq> 0"
  shows "cholesky_factor (identity_matrix n) = Inr (identity_matrix n)"
proof -
  have "try_fold (\<lambda>lower i. try_fold (cholesky_entry (identity_matrix n) i) lower [0..<Suc i]) (unit_rows n 0) [0..<k]
      = Inr (unit_rows n k)" if "k \<le> n" for k
    using that
  proof (induction k)
    case (Suc k)
    then show ?case using identity_row [of k n] by (simp add: try_fold_append)
  qed simp
  then show ?thesis using assms unit_rows_full [of n] unit_rows_empty [of n]
    by (auto simp: cholesky_factor_def Let_def identity_matrix_def)
qed

lemma identity_ok: "d \<noteq> 0 \<Longrightarrow> arm_ok d (identity_matrix d) (replicate d 0)"
  using identity_factor [of d]
  by (auto simp: arm_ok_def square_def finite_entries_def symmetric_def identity_matrix_def nth_list_update list_all_iff)

section \<open>Reachable states\<close>

lemma add_outer_ok:
  assumes "add_outer d a x = Inr a'" "square d a" "symmetric d a" "length x = d" "list_all is_finite x"
  shows "square d a' \<and> finite_entries d a' \<and> symmetric d a'"
proof -
  have e: "length a' = d" "\<And>i. i < d \<Longrightarrow> length (a' ! i) = d"
    "\<And>i j. i < d \<Longrightarrow> j < d \<Longrightarrow> checked_finite_add (a ! i ! j) (x ! i * x ! j) ''A matrix'' = Inr (a' ! i ! j)"
    using assms(1) unfolding add_outer_def try_map_upt_Inr by auto
  have v: "a' ! i ! j = a ! i ! j + x ! i * x ! j" "is_finite (a ! i ! j + x ! i * x ! j)" if "i < d" "j < d" for i j
    using e(3) [OF that] by (auto simp: result_simps)
  have "f_val (a' ! i ! j) = f_val (a' ! j ! i)" if "i < d" "j < i" for i j
  proof -
    have "f_val (a ! i ! j) = f_val (a ! j ! i)" using assms(3) that unfolding symmetric_def by blast
    then show ?thesis using that v [of i j] v [of j i] f_times_commute [of "x ! i" "x ! j"] by (simp add: f_val_plus)
  qed
  then have "symmetric d a'" unfolding symmetric_def by blast
  moreover have "square d a'" "finite_entries d a'" using e v by (simp_all add: square_def finite_entries_def)
  ultimately show ?thesis by blast
qed

lemma add_reward_ok:
  "add_reward field d b x r = Inr b' \<Longrightarrow> length b' = d \<and> list_all is_finite b'"
  unfolding add_reward_def try_map_upt_Inr by (auto simp: list_all_length checked_finite_add_Inr)

lemma linucb_update_Inr:
  "linucb_update (arm, x, r) m = (Inr u, m') \<longleftrightarrow> (\<exists>a b n l. arm < lu_arm_count m \<and> length x = lu_feature_count m
     \<and> list_all is_finite x \<and> is_finite r \<and> add_outer (lu_feature_count m) (lu_a_matrices m ! arm) x = Inr a
     \<and> add_reward ''b vector'' (lu_feature_count m) (lu_b_vectors m ! arm) x r = Inr b
     \<and> bandit_increment (lu_samples_seen m) ''samples_seen'' = Inr n \<and> cholesky_factor a = Inr l
     \<and> m' = m\<lparr>lu_a_matrices := (lu_a_matrices m)[arm := a], lu_b_vectors := (lu_b_vectors m)[arm := b], lu_samples_seen := n\<rparr>)"
  by (auto simp: linucb_update_def result_simps validate_arm_def linucb_validate_context_def validate_reward_finite_def
      list_all_iff not_le)

lemma linucb_update_ok:
  assumes "linucb_ok m" "linucb_update (arm, x, r) m = (Inr u, m')"
  shows "linucb_ok m'"
proof -
  obtain a b n l where u: "arm < lu_arm_count m" "length x = lu_feature_count m" "list_all is_finite x"
    "add_outer (lu_feature_count m) (lu_a_matrices m ! arm) x = Inr a"
    "add_reward ''b vector'' (lu_feature_count m) (lu_b_vectors m ! arm) x r = Inr b" "cholesky_factor a = Inr l"
    "m' = m\<lparr>lu_a_matrices := (lu_a_matrices m)[arm := a], lu_b_vectors := (lu_b_vectors m)[arm := b], lu_samples_seen := n\<rparr>"
    using assms(2) linucb_update_Inr by blast
  have o: "arm_ok (lu_feature_count m) (lu_a_matrices m ! arm) (lu_b_vectors m ! arm)"
    using assms(1) u(1) by (simp add: linucb_ok_def)
  have "arm_ok (lu_feature_count m) a b"
    using add_outer_ok [OF u(4) _ _ u(2,3)] add_reward_ok [OF u(5)] o u(6) by (simp add: arm_ok_def)
  then show ?thesis using assms(1) u(1,7) by (simp add: linucb_ok_def nth_list_update)
qed

lemma bandit_increment_unat: "bandit_increment v f = Inr w \<Longrightarrow> unat w = unat v + 1"
  by (auto simp: bandit_increment_def result_simps dest!: unat_checked_add_u64)

interpretation linucb: counted_machine linucb_update linucb_ok lu_samples_seen linucb_reset
proof unfold_locales
  fix x :: "usize \<times> f64 list \<times> f64" and s s' e
  obtain arm c r where x: "x = (arm, c, r)" by (cases x)
  show "linucb_update x s = (Inl e, s') \<Longrightarrow> s' = s" by (simp add: x linucb_update_def result_simps)
  fix u
  show "linucb_ok s \<Longrightarrow> linucb_update x s = (Inr u, s') \<Longrightarrow> linucb_ok s'" unfolding x by (rule linucb_update_ok)
  show "linucb_update x s = (Inr u, s') \<Longrightarrow> unat (lu_samples_seen s') = unat (lu_samples_seen s) + 1"
    unfolding x by (auto simp: linucb_update_Inr bandit_increment_unat)
next
  fix s
  show "lu_samples_seen (linucb_reset s) = 0" by (simp add: linucb_reset_def)
  have "map (\<lambda>_. 0) v = replicate (length v) (0 :: f64)" for v :: "f64 list" by (simp add: map_replicate_const)
  then show "linucb_ok s \<Longrightarrow> linucb_ok (linucb_reset s)"
    using identity_ok [of "lu_feature_count s"] by (auto simp: linucb_ok_def linucb_reset_def arm_ok_def)
qed

lemma linucb_new_ok: "linucb_new c = Inr m \<Longrightarrow> linucb_ok m \<and> lu_samples_seen m = 0"
  using identity_ok [of "lc_feature_count c"]
  by (auto simp: linucb_new_def result_simps linucb_config_validate_Inr linucb_ok_def)

text \<open>
  C33: LinUCB keeps restorable states. Whatever updates are offered, and after a reset too, the bandit passes the
  checks that restoring runs: shapes, finite entries, symmetric matrices, and a Cholesky factorisation that goes
  through. The sample count is the number of accepted updates.
\<close>
theorem linucb_reachable_valid:
  assumes "linucb_new c = Inr m0" "m = run_ops linucb_update ys (linucb_reset (run_ops linucb_update xs m0))"
  shows "linucb_validate m = Inr () \<and> linucb_deserialize m = Inr m
    \<and> unat (lu_samples_seen m) = length (accepted_ops linucb_update ys (linucb_reset (run_ops linucb_update xs m0)))"
proof -
  have "linucb_ok m" using assms linucb.run_inv linucb.reset_inv linucb_new_ok by blast
  then have "linucb_validate m = Inr ()" by (simp add: linucb_validate_Inr)
  then show ?thesis using linucb.run_from_reset [of ys "run_ops linucb_update xs m0"] assms(2)
    by (simp add: linucb_deserialize_def)
qed

definition demo_linucb :: linucb where
  "demo_linucb = \<lparr>lu_arm_count = 2, lu_feature_count = 1, lu_alpha = 1, lu_a_matrices = [[[1]], [[1]]],
     lu_b_vectors = [[0], [0]], lu_samples_seen = 0\<rparr>"

lemma demo_linucb_new: "linucb_new linucb_config_default = Inr demo_linucb"
  by code_simp

lemma linucb_reachable_valid_witness:
  "linucb_validate (run_ops linucb_update [(0, [1], 1), (5, [1], 1), (1, [f_inf], 1)]
     (linucb_reset (run_ops linucb_update [(1, [1], 1)] demo_linucb))) = Inr ()"
  using linucb_reachable_valid [OF demo_linucb_new refl, of "[(0, [1], 1), (5, [1], 1), (1, [f_inf], 1)]" "[(1, [1], 1)]"] by blast

section \<open>The selected arm\<close>

text \<open>All ways of choosing look at the same scores; a loop over them keeps a largest one.\<close>

definition best_so_far :: "arm_score list \<Rightarrow> usize \<times> f64 \<times> usize \<Rightarrow> bool" where
  "best_so_far ss st \<longleftrightarrow> is_finite (fst (snd st)) \<and> (\<forall>s \<in> set ss. sc_total_score s \<le> fst (snd st))
     \<and> (\<exists>s \<in> set ss. sc_arm s = fst st \<and> fst (snd st) \<le> sc_total_score s)"

lemma tie_step_best:
  assumes "best_so_far ss st" "is_finite (sc_total_score s)" "tie_step R (sc_arm s) (sc_total_score s) st g = (st', g')"
  shows "best_so_far (ss @ [s]) st'"
proof -
  obtain b v k where st: "st = (b, v, k)" by (cases st)
  have f: "\<not> is_nan v" "\<not> is_nan (sc_total_score s)" "is_finite v" using assms(1,2) by (simp_all add: best_so_far_def st)
  consider "v < sc_total_score s" | "\<not> v < sc_total_score s" "feq (sc_total_score s) v"
    | "\<not> v < sc_total_score s" "\<not> feq (sc_total_score s) v" by blast
  then show ?thesis
  proof cases
    case 1
    then have "st' = (sc_arm s, sc_total_score s, 1)" using assms(3) by (simp add: tie_step_def st)
    then show ?thesis
      using assms(1,2) f_le_trans [OF _ f_less_imp_le [OF 1]] f_le_refl [OF f(2)] by (auto simp: best_so_far_def st)
  next
    case 2
    have e: "sc_total_score s \<le> v" "v \<le> sc_total_score s" using 2(2) by (simp_all add: feq_def)
    show ?thesis using assms 2 e by (auto simp: best_so_far_def st tie_step_def split: prod.splits if_splits)
  next
    case 3
    have e: "sc_total_score s \<le> v" using 3(1) f_not_less [OF f(1,2)] by simp
    show ?thesis using assms 3 e by (auto simp: best_so_far_def st tie_step_def)
  qed
qed

lemma tie_loop_best:
  assumes "best_so_far ss st" "list_all (\<lambda>s. is_finite (sc_total_score s)) ts" "tie_loop R ts st g = (arm, g')"
  shows "\<exists>s \<in> set (ss @ ts). sc_arm s = arm \<and> (\<forall>t \<in> set (ss @ ts). sc_total_score t \<le> sc_total_score s)"
  using assms
proof (induction ts arbitrary: ss st g)
  case Nil
  then obtain s where "s \<in> set ss" "sc_arm s = arm" "fst (snd st) \<le> sc_total_score s"
    by (auto simp: best_so_far_def)
  moreover have "\<forall>t \<in> set ss. sc_total_score t \<le> fst (snd st)" using Nil.prems(1) by (simp add: best_so_far_def)
  ultimately have "\<forall>t \<in> set ss. sc_total_score t \<le> sc_total_score s" using f_le_trans by blast
  then show ?case using \<open>s \<in> set ss\<close> \<open>sc_arm s = arm\<close> by auto
next
  case (Cons t ts)
  obtain st' h where t: "tie_step R (sc_arm t) (sc_total_score t) st g = (st', h)" by fastforce
  have "best_so_far (ss @ [t]) st'" using tie_step_best [OF Cons.prems(1) _ t] Cons.prems(2) by simp
  from Cons.IH [OF this] show ?case using Cons.prems(2,3) t by simp
qed

lemma select_loop_scores:
  "try_map score arms = Inr ss \<Longrightarrow> (\<And>i s. score i = Inr s \<Longrightarrow> sc_arm s = i)
     \<Longrightarrow> select_loop R score arms st g = (case tie_loop R ss st g of (arm, g') \<Rightarrow> (Inr arm, g'))"
proof (induction arms arbitrary: ss st g)
  case (Cons a as)
  then obtain s ss' where s: "score a = Inr s" "try_map score as = Inr ss'" "ss = s # ss'"
    by (auto simp: and_then_Inr)
  have "sc_arm s = a" using Cons.prems(2) s(1) by blast
  then show ?case using Cons.IH [OF s(2) Cons.prems(2)] s(1,3) by (simp split: prod.splits)
qed simp

definition scan_score :: "usize \<times> f64 \<Rightarrow> arm_score \<Rightarrow> usize \<times> f64" where
  "scan_score st s = (if snd st < sc_total_score s then (sc_arm s, sc_total_score s) else st)"

lemma deterministic_fold:
  assumes "try_map score arms = Inr ss" "\<And>i s. score i = Inr s \<Longrightarrow> sc_arm s = i"
  shows "try_fold (deterministic_step score) st arms
    = Inr (foldl scan_score st ss)"
  using assms
proof (induction arms arbitrary: ss st)
  case (Cons a as)
  then obtain s ss' where s: "score a = Inr s" "try_map score as = Inr ss'" "ss = s # ss'"
    by (auto simp: and_then_Inr)
  have "sc_arm s = a" using Cons.prems(2) s(1) by blast
  then show ?case using Cons.IH [OF s(2) Cons.prems(2)] s(1,3) by (simp add: deterministic_step_def scan_score_def)
qed simp

text \<open>The first of the largest scores.\<close>

definition first_best :: "arm_score list \<Rightarrow> f64 \<Rightarrow> usize \<times> f64 \<Rightarrow> bool" where
  "first_best ss v bw \<longleftrightarrow> v < snd bw \<and> (\<exists>i < length ss. fst bw = sc_arm (ss ! i) \<and> snd bw = sc_total_score (ss ! i)
     \<and> (\<forall>j < i. sc_total_score (ss ! j) < snd bw))"

lemma first_best_head: "v < sc_total_score s \<Longrightarrow> first_best (s # ss) v (sc_arm s, sc_total_score s)"
  by (auto simp: first_best_def)

lemma first_best_Cons:
  assumes "first_best ss v bw" "sc_total_score s < snd bw" "u < snd bw"
  shows "first_best (s # ss) u bw"
proof -
  obtain i where i: "i < length ss" "fst bw = sc_arm (ss ! i)" "snd bw = sc_total_score (ss ! i)"
    "\<forall>j < i. sc_total_score (ss ! j) < snd bw" using assms(1) by (auto simp: first_best_def)
  have "\<forall>j < Suc i. sc_total_score ((s # ss) ! j) < snd bw" using i(4) assms(2) by (auto simp: less_Suc_eq_0_disj)
  then show ?thesis using i(1-3) assms(3) by (auto simp: first_best_def intro!: exI [of _ "Suc i"])
qed

lemma foldl_first_best:
  assumes "list_all (\<lambda>s. is_finite (sc_total_score s)) ss" "is_finite v"
  shows "foldl scan_score (a, v) ss = (a, v) \<and> (\<forall>s \<in> set ss. sc_total_score s \<le> v)
    \<or> first_best ss v (foldl scan_score (a, v) ss) \<and> (\<forall>s \<in> set ss. sc_total_score s \<le> snd (foldl scan_score (a, v) ss))"
  using assms
proof (induction ss arbitrary: a v)
  case (Cons s ss)
  have s: "is_finite (sc_total_score s)" "list_all (\<lambda>s. is_finite (sc_total_score s)) ss" using Cons.prems(1) by simp_all
  show ?case
  proof (cases "v < sc_total_score s")
    case True
    have f: "foldl scan_score (a, v) (s # ss) = foldl scan_score (sc_arm s, sc_total_score s) ss" (is "_ = ?w")
      using True by (simp add: scan_score_def)
    from Cons.IH [OF s(2,1), of "sc_arm s"]
    show ?thesis
    proof (elim disjE conjE)
      assume "?w = (sc_arm s, sc_total_score s)" "\<forall>t \<in> set ss. sc_total_score t \<le> sc_total_score s"
      then show ?thesis using first_best_head [OF True] f_le_refl [of "sc_total_score s"] s(1) unfolding f by simp
    next
      assume w: "first_best ss (sc_total_score s) ?w" "\<forall>t \<in> set ss. sc_total_score t \<le> snd ?w"
      then have l: "sc_total_score s < snd ?w" by (simp add: first_best_def)
      have "v < snd ?w" by (rule f_less_le_trans [OF True f_less_imp_le [OF l]])
      then show ?thesis using first_best_Cons [OF w(1) l] f_less_imp_le [OF l] w(2) unfolding f by simp
    qed
  next
    case False
    have f: "foldl scan_score (a, v) (s # ss) = foldl scan_score (a, v) ss" (is "_ = ?w")
      using False by (simp add: scan_score_def)
    have le: "sc_total_score s \<le> v" using False f_not_less Cons.prems(2) s(1) finite_not_nan by blast
    from Cons.IH [OF s(2) Cons.prems(2), of a]
    show ?thesis
    proof (elim disjE conjE)
      assume "?w = (a, v)" "\<forall>t \<in> set ss. sc_total_score t \<le> v"
      then show ?thesis using le unfolding f by simp
    next
      assume w: "first_best ss v ?w" "\<forall>t \<in> set ss. sc_total_score t \<le> snd ?w"
      then have l: "v < snd ?w" by (simp add: first_best_def)
      show ?thesis using first_best_Cons [OF w(1) f_le_less_trans [OF le l] l] f_le_trans [OF le f_less_imp_le [OF l]] w(2)
        unfolding f by simp
    qed
  qed
qed simp

lemma linucb_score_facts:
  "linucb_score_arm_validated m c i = Inr s \<Longrightarrow> sc_arm s = i \<and> is_finite (sc_total_score s)"
  by (auto simp: linucb_score_arm_validated_def Let_def result_simps split: if_splits)

lemma neg_inf_less: "is_finite x \<Longrightarrow> f_neg_inf < x"
  by transfer (auto simp: fp_less_def fp_finite_rank)

lemma deterministic_first_best:
  assumes "try_map score [0..<n] = Inr ss" "\<And>i s. score i = Inr s \<Longrightarrow> sc_arm s = i \<and> is_finite (sc_total_score s)" "0 < n"
  shows "\<exists>d w. try_fold (deterministic_step score) (0, f_neg_inf) [0..<n] = Inr (d, w) \<and> d < length ss
    \<and> (\<forall>s \<in> set ss. sc_total_score s \<le> sc_total_score (ss ! d)) \<and> (\<forall>j < d. sc_total_score (ss ! j) < sc_total_score (ss ! d))"
proof -
  have n: "length ss = n" "\<And>i. i < n \<Longrightarrow> score i = Inr (ss ! i)" using assms(1) unfolding try_map_upt_Inr by auto
  have at: "sc_arm (ss ! i) = i" "is_finite (sc_total_score (ss ! i))" if "i < n" for i using assms(2) n(2) [OF that] by blast+
  obtain s0 rest where s: "ss = s0 # rest" using n(1) assms(3) by (cases ss) simp_all
  have s0: "is_finite (sc_total_score s0)" "sc_arm s0 = 0" using at [OF assms(3)] s by simp_all
  have "is_finite (sc_total_score (rest ! i))" if "i < length rest" for i using at(2) [of "Suc i"] that n(1) by (simp add: s)
  then have fin: "list_all (\<lambda>s. is_finite (sc_total_score s)) rest" by (simp add: list_all_length)
  obtain d w where dw: "foldl scan_score (sc_arm s0, sc_total_score s0) rest = (d, w)" by fastforce
  have "sc_arm t = i" if "score i = Inr t" for i t using assms(2) that by blast
  then have det: "try_fold (deterministic_step score) (0, f_neg_inf) [0..<n] = Inr (d, w)"
    using deterministic_fold [OF assms(1), of "(0, f_neg_inf)"] neg_inf_less [OF s0(1)] dw by (simp add: s scan_score_def)
  have "d < length ss \<and> (\<forall>s \<in> set ss. sc_total_score s \<le> sc_total_score (ss ! d))
      \<and> (\<forall>j < d. sc_total_score (ss ! j) < sc_total_score (ss ! d))"
    using foldl_first_best [OF fin s0(1), of "sc_arm s0"] unfolding dw
  proof (elim disjE conjE)
    assume "(d, w) = (sc_arm s0, sc_total_score s0)" "\<forall>s \<in> set rest. sc_total_score s \<le> sc_total_score s0"
    then show ?thesis using s0 f_le_refl by (simp add: s)
  next
    assume "first_best rest (sc_total_score s0) (d, w)" and le: "\<forall>s \<in> set rest. sc_total_score s \<le> snd (d, w)"
    then obtain i where i: "sc_total_score s0 < w" "i < length rest" "d = sc_arm (rest ! i)" "w = sc_total_score (rest ! i)"
      "\<forall>j < i. sc_total_score (rest ! j) < w" by (auto simp: first_best_def)
    have d: "d = Suc i" using at(1) [of "Suc i"] i(2,3) n(1) by (simp add: s)
    have "\<forall>j < Suc i. sc_total_score (ss ! j) < w" using i(1,5) by (auto simp: s less_Suc_eq_0_disj)
    then show ?thesis using le i(1,2,4) f_less_imp_le by (simp add: s d)
  qed
  then show ?thesis by (intro exI [of _ d] exI [of _ w]) (simp add: det)
qed

text \<open>
  C34: how LinUCB chooses. When every arm has a score, \<open>select\<close> and \<open>select_with_scores\<close> return the same arm from
  the same random numbers, no other arm has a larger score, and \<open>select_deterministic\<close> returns the lowest such arm.
\<close>
theorem linucb_select_best:
  assumes "linucb_validate m = Inr ()" "linucb_score_all m c = Inr scores"
  shows "(\<exists>arm g'. linucb_select R m c g = (Inr arm, g') \<and> linucb_select_with_scores R m c g = (Inr (arm, scores), g')
      \<and> arm < length scores \<and> (\<forall>s \<in> set scores. sc_total_score s \<le> sc_total_score (scores ! arm)))
    \<and> (\<exists>arm. linucb_select_deterministic m c = Inr arm \<and> arm < length scores
      \<and> (\<forall>s \<in> set scores. sc_total_score s \<le> sc_total_score (scores ! arm))
      \<and> (\<forall>j < arm. sc_total_score (scores ! j) < sc_total_score (scores ! arm)))"
proof -
  let ?score = "linucb_score_arm_validated m c"
  have v: "linucb_validate_context m c = Inr ()" and sc: "try_map ?score [0..<lu_arm_count m] = Inr scores"
    using assms(2) by (simp_all add: linucb_score_all_def and_then_Inr)
  have arm: "\<And>i s. ?score i = Inr s \<Longrightarrow> sc_arm s = i" using linucb_score_facts by blast
  have n: "length scores = lu_arm_count m" "\<And>i. i < length scores \<Longrightarrow> ?score i = Inr (scores ! i)"
    using sc unfolding try_map_upt_Inr by auto
  have at: "sc_arm (scores ! i) = i" "is_finite (sc_total_score (scores ! i))" if "i < length scores" for i
    using linucb_score_facts n(2) [OF that] by blast+
  have pos: "0 < length scores" using assms(1) n(1) by (simp add: linucb_validate_Inr linucb_ok_def)
  then obtain s0 ss where s: "scores = s0 # ss" by (cases scores) simp_all
  have s0: "is_finite (sc_total_score s0)" "sc_arm s0 = 0" using at [OF pos] s by simp_all
  have "is_finite (sc_total_score (ss ! i))" if "i < length ss" for i using at(2) [of "Suc i"] that by (simp add: s)
  then have fin: "list_all (\<lambda>s. is_finite (sc_total_score s)) ss" by (simp add: list_all_length)
  obtain k g' where t: "tie_loop R ss (sc_arm s0, sc_total_score s0, 1) g = (k, g')" by fastforce
  have l: "linucb_select R m c g = (Inr k, g')" "linucb_select_with_scores R m c g = (Inr (k, scores), g')"
    using select_loop_scores [OF sc arm, of R "(0, f_neg_inf, 0)" g] t v neg_inf_less [OF s0(1)] assms(2)
    by (simp_all add: linucb_select_def linucb_select_with_scores_def select_random_tie_def s tie_step_def)
  have "best_so_far [s0] (sc_arm s0, sc_total_score s0, 1)" using s0 f_le_refl by (simp add: best_so_far_def)
  from tie_loop_best [OF this fin t] obtain b where b: "b \<in> set scores" "sc_arm b = k"
    "\<forall>u \<in> set scores. sc_total_score u \<le> sc_total_score b" by (auto simp: s)
  then have "k < length scores \<and> scores ! k = b" using at(1) by (metis in_set_conv_nth)
  then have one: "k < length scores \<and> (\<forall>s \<in> set scores. sc_total_score s \<le> sc_total_score (scores ! k))" using b(3) by simp
  have sf: "\<And>i s. ?score i = Inr s \<Longrightarrow> sc_arm s = i \<and> is_finite (sc_total_score s)" by (rule linucb_score_facts)
  obtain d w where dd: "try_fold (deterministic_step ?score) (0, f_neg_inf) [0..<lu_arm_count m] = Inr (d, w)" "d < length scores"
    "\<forall>s \<in> set scores. sc_total_score s \<le> sc_total_score (scores ! d)"
    "\<forall>j < d. sc_total_score (scores ! j) < sc_total_score (scores ! d)"
    using deterministic_first_best [of ?score, OF sc sf] pos n(1) by auto
  have det: "linucb_select_deterministic m c = Inr d" using dd(1) v by (simp add: linucb_select_deterministic_def)
  show ?thesis
    by (rule conjI, rule exI [of _ k], rule exI [of _ g'], use l one in simp, rule exI [of _ d], use det dd(2-4) in simp)
qed

lemma demo_linucb_score:
  "linucb_score_arm_validated demo_linucb [0] i = Inr \<lparr>sc_arm = i, sc_exploitation = 0, sc_exploration_bonus = 0, sc_total_score = 0\<rparr>"
  if "i < 2" for i
proof -
  have f: "cholesky_factor [[1]] = Inr [[1]]" using identity_factor [of 1] by (simp add: identity_matrix_def)
  have z: "f_sqrt 0 = 0" "(1 :: f64) * 0 = 0" "\<not> (0 :: f64) < 0" by code_simp+
  have s: "cholesky_solve [[1]] [0] = Inr [0]"
    by (simp add: cholesky_solve_def forward_step_def backward_step_def solve_step_def f64_units upt_rec)
  have d: "checked_dot [0] [0] field = Inr 0" for field
    by (simp add: checked_dot_def checked_finite_add_def ensure_finite_def f64_units)
  have "lu_a_matrices demo_linucb ! i = [[1]]" "lu_b_vectors demo_linucb ! i = [0]" "lu_alpha demo_linucb = 1"
    using that by (auto simp: demo_linucb_def less_2_cases_iff)
  then show ?thesis
    by (simp add: linucb_score_arm_validated_def f s d z checked_finite_add_def ensure_finite_def f64_units)
qed

lemma linucb_select_best_witness:
  "\<exists>arm. linucb_select_deterministic demo_linucb [0] = Inr arm \<and> arm < 2"
proof -
  have s: "linucb_score_all demo_linucb [0] = Inr [\<lparr>sc_arm = 0, sc_exploitation = 0, sc_exploration_bonus = 0, sc_total_score = 0\<rparr>,
      \<lparr>sc_arm = 1, sc_exploitation = 0, sc_exploration_bonus = 0, sc_total_score = 0\<rparr>]"
    using demo_linucb_score [of 0] demo_linucb_score [of 1]
    by (simp add: linucb_score_all_def linucb_validate_context_def demo_linucb_def ensure_finite_def upt_rec)
  have v: "linucb_validate demo_linucb = Inr ()" using linucb_new_ok [OF demo_linucb_new] by (simp add: linucb_validate_Inr)
  from linucb_select_best [OF v s, THEN conjunct2] obtain arm where "linucb_select_deterministic demo_linucb [0] = Inr arm"
    "arm < Suc (Suc 0)" by auto
  then show ?thesis by auto
qed

text \<open>
  The fast variant commits its update without factoring the new inverse: after one accepted sample with large
  features the inverse is no longer positive definite, and the state is refused when it is restored.
\<close>

definition demo_fast :: linucb_fast where
  "demo_fast = \<lparr>lf_arm_count = 1, lf_feature_count = 2, lf_alpha = 1, lf_inverse_matrices = [[[1, 0], [0, 1]]],
     lf_b_vectors = [[0, 0]], lf_samples_seen = 0\<rparr>"

definition big_x :: f64 where "big_x = f_of_rat (2 ^ 28)"
definition half_x :: f64 where "half_x = f_of_rat (2 ^ 27)"
definition big_sum :: f64 where "big_sum = f_of_rat 90071992547409920"
definition inv_00 :: f64 where "inv_00 = f_of_rat (900719925474099 / 2 ^ 52)"
definition inv_01 :: f64 where "inv_01 = f_of_rat (- 3602879701896397 / 2 ^ 53)"
definition inv_11 :: f64 where "inv_11 = f_of_rat (3602879701896397 / 2 ^ 52)"
definition low_00 :: f64 where "low_00 = f_of_rat (1007035491024315 / 2 ^ 51)"
definition low_10 :: f64 where "low_10 = f_of_rat (- 8056283928194523 / 2 ^ 53)"

lemma project_facts: "0 + 1 * big_x = big_x" "big_x + 0 * half_x = big_x" "0 + 0 * big_x = 0" "0 + 1 * half_x = half_x"
  "is_finite big_x" "is_finite half_x"
  by code_simp+

lemma variance_facts: "is_finite (0 + big_x * big_x)" "0 + big_x * big_x + half_x * half_x = big_sum" "is_finite big_sum"
  "1 + big_sum = big_sum" "\<not> big_sum \<le> f_of_rat (1 / 4503599627370496)"
  "\<not> big_sum < - (f_of_rat (1 / 1000000000000) * f_max (f_sum [\<bar>big_x\<bar>, \<bar>half_x\<bar>]) 1)"
  by code_simp+

lemma inverse_facts: "1 + - (big_x * big_x / big_sum) = inv_00" "0 + - (big_x * half_x / big_sum) = inv_01"
  "0 + - (half_x * big_x / big_sum) = inv_01" "1 + - (half_x * half_x / big_sum) = inv_11"
  "is_finite inv_00" "is_finite inv_01" "is_finite inv_11" "\<not> inv_00 \<le> 0" "\<not> inv_11 \<le> 0"
  by code_simp+

lemma lower_facts: "inv_00 - 0 = inv_00" "f_sqrt inv_00 = low_00" "inv_01 - 0 = inv_01" "inv_01 / low_00 = low_10"
  "is_finite low_10" "is_finite (0 + low_10 * low_10)" "inv_11 - (0 + low_10 * low_10) \<le> 0"
  by code_simp+

lemma fast_accepts_unrestorable_state:
  "fast_new \<lparr>lc_alpha = 1, lc_arm_count = 1, lc_feature_count = 2\<rparr> = Inr demo_fast
   \<and> (\<exists>m e. fast_update (0, [big_x, half_x], 1) demo_fast = (Inr (), m) \<and> fast_validate m = Inl e)"
proof -
  have n: "fast_new \<lparr>lc_alpha = 1, lc_arm_count = 1, lc_feature_count = 2\<rparr> = Inr demo_fast" by code_simp
  let ?m = "demo_fast\<lparr>lf_inverse_matrices := [[[inv_00, inv_01], [inv_01, inv_11]]], lf_b_vectors := [[big_x, half_x]],
    lf_samples_seen := 1\<rparr>"
  note steps = checked_finite_add_def ensure_finite_def f64_units project_facts variance_facts inverse_facts upt_rec
  have p: "checked_matrix_vector_mul [[1, 0], [0, 1]] [big_x, half_x] = Inr [big_x, half_x]"
    by (simp add: checked_matrix_vector_mul_def checked_dot_def steps)
  have v: "checked_dot [big_x, half_x] [big_x, half_x] field = Inr big_sum" for field
    by (simp add: checked_dot_def steps)
  have i: "sherman_morrison 2 [[1, 0], [0, 1]] [big_x, half_x] big_sum = Inr [[inv_00, inv_01], [inv_01, inv_11]]"
    by (simp add: sherman_morrison_def steps)
  have d: "try_fold mirror_row [[inv_00, inv_01], [inv_01, inv_11]] [0..<2] = Inr [[inv_00, inv_01], [inv_01, inv_11]]"
    by (simp add: mirror_row_def steps)
  have b: "add_reward field 2 [0, 0] [big_x, half_x] 1 = Inr [big_x, half_x]" for field
    by (simp add: add_reward_def steps)
  have c: "bandit_increment 0 field = Inr 1" for field by (simp add: bandit_increment_def checked_add_u64_def ok_or_def)
  have u: "fast_update (0, [big_x, half_x], 1) demo_fast = (Inr (), ?m)"
    by (simp add: fast_update_def demo_fast_def validate_arm_def fast_validate_context_def validate_reward_finite_def
        p v i d b c variance_facts project_facts ensure_finite_def checked_finite_add_def Let_def)
  have "\<exists>e. cholesky_factor [[inv_00, inv_01], [inv_01, inv_11]] = Inl e"
    by (simp add: cholesky_factor_def cholesky_entry_def checked_dot_def mat_set_def steps lower_facts)
  then have "fast_validate_arm 2 [[inv_00, inv_01], [inv_01, inv_11]] [big_x, half_x] 0 \<noteq> Inr ()"
    by (auto simp: fast_validate_arm_def split: if_splits)
  then have "fast_validate ?m \<noteq> Inr ()" by (simp add: fast_validate_def demo_fast_def result_simps)
  then obtain e where "fast_validate ?m = Inl e" by (cases "fast_validate ?m") auto
  then show ?thesis using n u by blast
qed

end
