(* ===== verification/Replay.thy ===== *)
theory Replay imports Decision_Ledger LinUcb Descriptor "HOL-Library.Product_Lexorder" begin

text \<open>
  Delayed outcomes applied to a ledger and a LinUCB model together (\<open>apply_contextual_outcome\<close> of
  \<open>src/decision/mod.rs\<close>), and the deterministic replay harness built on it (\<open>src/replay.rs\<close>). The steps of a
  replay work on a clone that is dropped on an error, so they return the next harness or an error.
\<close>

type_synonym contextual_ledger = "(f64 list, usize) decision_ledger"

section \<open>Outcomes for a ledger and a model\<close>

definition ledger_validate :: "contextual_ledger \<Rightarrow> rill_error + unit" where
  "ledger_validate = validate_structure vec_f64_ops usize_ops"

definition apply_contextual_outcome ::
    "usize decision_outcome \<Rightarrow> contextual_ledger \<times> linucb \<Rightarrow> (rill_error + feedback_status) \<times> contextual_ledger \<times> linucb" where
  "apply_contextual_outcome oc lm = (case lm of (l, m) \<Rightarrow>
     (case ledger_pending l (do_decision_id oc) of
        None \<Rightarrow> (Inl (InvalidState ''unknown delayed decision''), lm)
      | Some p \<Rightarrow>
     if length (pd_context p) \<noteq> lu_feature_count m
     then (Inl (DimensionMismatch (lu_feature_count m) (length (pd_context p))), lm)
     else (case try_for_each (ensure_finite ''decision context'') (pd_context p) of
        Inl e \<Rightarrow> (Inl e, lm)
      | Inr _ \<Rightarrow>
     (case apply_feedback usize_ops oc l of
        (Inl e, _) \<Rightarrow> (Inl (state_error e), lm)
      | (Inr status, next_ledger) \<Rightarrow>
     (case linucb_update (do_action oc, pd_context p, do_reward oc) m of
        (Inl e, _) \<Rightarrow> (Inl e, lm)
      | (Inr _, next_model) \<Rightarrow> (Inr status, (next_ledger, next_model)))))))"

section \<open>Records and configuration\<close>

record replay_record =
  rr_timestamp :: u64
  rr_decision_id :: u128
  rr_context :: "f64 list"
  rr_selected_arm :: usize
  rr_outcome_time :: "u64 option"
  rr_reward :: "f64 option"
  rr_generation :: u64
  rr_feature_schema_hash :: string
  rr_baseline_reward :: "f64 option"
  rr_optimal_reward :: "f64 option"
  rr_drift :: bool

record replay_config =
  rc_max_records :: usize
  rc_max_feedback_delay :: u64
  rc_model_generation :: u64
  rc_feature_schema_hash :: string
  rc_max_pending :: usize
  rc_max_completed :: usize

definition replay_config_new :: "usize \<Rightarrow> u64 \<Rightarrow> u64 \<Rightarrow> string \<Rightarrow> rill_error + replay_config" where
  "replay_config_new max_records max_feedback_delay model_generation h =
     (if max_records = 0 \<or> h = [] \<or> 128 < length h then Inl (InvalidState ''invalid decision replay configuration'')
      else Inr \<lparr>rc_max_records = max_records, rc_max_feedback_delay = max_feedback_delay,
                rc_model_generation = model_generation, rc_feature_schema_hash = h,
                rc_max_pending = max_records, rc_max_completed = max_records\<rparr>)"

record latency_summary =
  ls_count :: usize
  ls_min :: u64
  ls_max :: u64
  ls_mean :: f64
  ls_p95 :: u64

record replay_report =
  rp_cumulative_reward :: f64
  rp_approximate_regret :: f64
  rp_baseline_cumulative_reward :: f64
  rp_reward_over_baseline :: f64
  rp_per_arm_pulls :: "u64 list"
  rp_pending :: usize
  rp_completed :: usize
  rp_expired :: usize
  rp_missing_feedback :: usize
  rp_duplicate_feedback :: usize
  rp_rejected :: usize
  rp_generation_transitions :: usize
  rp_drift_events :: usize
  rp_feedback_latency :: "latency_summary option"
  rp_digest :: string

record replay_harness =
  rh_config :: replay_config
  rh_model :: linucb
  rh_ledger :: contextual_ledger
  rh_current_generation :: u64
  rh_cumulative_reward :: f64
  rh_approximate_regret :: f64
  rh_baseline_cumulative_reward :: f64
  rh_per_arm_pulls :: "u64 list"
  rh_latencies :: "u64 list"
  rh_expired :: usize
  rh_duplicate_feedback :: usize
  rh_rejected :: usize
  rh_generation_transitions :: usize
  rh_drift_events :: usize
  rh_missing_feedback :: usize
  rh_processed_records :: usize
  rh_digest :: u64

definition harness_new :: "linucb \<Rightarrow> replay_config \<Rightarrow> rill_error + replay_harness" where
  "harness_new model c =
     (if lu_arm_count model = 0 \<or> lu_feature_count model = 0 then Inl (InvalidState ''invalid replay model'')
      else and_then (map_err state_error (ledger_config_new (rc_max_pending c) (rc_max_completed c))) (\<lambda>lc.
        and_then (map_err state_error (ledger_new lc)) (\<lambda>l.
        Inr \<lparr>rh_config = c, rh_model = model, rh_ledger = l, rh_current_generation = rc_model_generation c,
             rh_cumulative_reward = 0, rh_approximate_regret = 0, rh_baseline_cumulative_reward = 0,
             rh_per_arm_pulls = replicate (lu_arm_count model) 0, rh_latencies = [], rh_expired = 0,
             rh_duplicate_feedback = 0, rh_rejected = 0, rh_generation_transitions = 0, rh_drift_events = 0,
             rh_missing_feedback = 0, rh_processed_records = 0, rh_digest = 0xcbf29ce484222325\<rparr>)))"

section \<open>The digest of accepted facts\<close>

text \<open>FNV-1a over little-endian bytes.\<close>

definition fnv_mix :: "u64 \<Rightarrow> string \<Rightarrow> u64" where
  "fnv_mix digest bytes = foldl (\<lambda>d b. (xor d (of_nat (of_char b))) * 0x100000001b3) digest bytes"

definition le_bytes :: "nat \<Rightarrow> nat \<Rightarrow> string" where
  "le_bytes k n = rev (be_bytes k n)"

definition digest_record :: "replay_record \<Rightarrow> char \<Rightarrow> u64 \<Rightarrow> u64" where
  "digest_record r marker d0 =
     (let d1 = fnv_mix d0 [marker];
          d2 = fnv_mix d1 (le_bytes 8 (unat (rr_timestamp r)));
          d3 = fnv_mix d2 (le_bytes 16 (unat (rr_decision_id r)));
          d4 = fnv_mix d3 (le_bytes 8 (rr_selected_arm r));
          d5 = fnv_mix d4 (le_bytes 8 (unat (rr_generation r)));
          d6 = foldl (\<lambda>d v. fnv_mix d (le_bytes 8 (unat (f_to_bits v)))) d5 (rr_context r)
      in case rr_reward r of None \<Rightarrow> d6 | Some v \<Rightarrow> fnv_mix d6 (le_bytes 8 (unat (f_to_bits v))))"

section \<open>Steps of a replay\<close>

definition checked_increment_usize :: "usize \<Rightarrow> string \<Rightarrow> rill_error + usize" where
  "checked_increment_usize v field = ok_or (checked_add_usize v 1) (InvalidState (field @ '' counter overflow''))"

definition finite_add :: "f64 \<Rightarrow> f64 \<Rightarrow> string \<Rightarrow> rill_error + f64" where
  "finite_add current v field =
     (let next = current + v in if is_finite next then Inr next else Inl (InvalidState (field @ '' overflow'')))"

definition count_rejected :: "replay_harness \<Rightarrow> rill_error + replay_harness" where
  "count_rejected h = and_then (checked_increment_usize (rh_rejected h) ''rejected'') (\<lambda>n. Inr (h\<lparr>rh_rejected := n\<rparr>))"

text \<open>What a new model generation and a recorded drift boundary do before the decision is replayed.\<close>

definition enter_generation :: "replay_record \<Rightarrow> replay_harness \<Rightarrow> rill_error + replay_harness" where
  "enter_generation r h =
     (if rh_current_generation h < rr_generation r
      then and_then (checked_increment_usize (rh_generation_transitions h) ''generation transitions'') (\<lambda>n.
        Inr (h\<lparr>rh_model := linucb_reset (rh_model h), rh_current_generation := rr_generation r,
               rh_generation_transitions := n\<rparr>))
      else Inr h)"

definition enter_drift :: "replay_record \<Rightarrow> replay_harness \<Rightarrow> rill_error + replay_harness" where
  "enter_drift r h =
     (if rr_drift r
      then and_then (checked_increment_usize (rh_drift_events h) ''drift events'') (\<lambda>n.
        Inr (h\<lparr>rh_model := linucb_reset (rh_model h), rh_drift_events := n\<rparr>))
      else Inr h)"

text \<open>\<open>select_deterministic\<close> borrows the model, so the comparison of its sample count before and after never fails.\<close>

definition register_decision :: "replay_record \<Rightarrow> replay_harness \<Rightarrow> rill_error + replay_harness" where
  "register_decision r h =
     and_then (linucb_select_deterministic (rh_model h) (rr_context r)) (\<lambda>selected.
     if selected \<noteq> rr_selected_arm r then count_rejected h
     else and_then (ok_or (checked_add_u64 (rr_timestamp r) (rc_max_feedback_delay (rh_config h)))
         (InvalidState ''decision expiry overflow'')) (\<lambda>expires_at.
     case register vec_f64_ops usize_ops
         \<lparr>pd_id = rr_decision_id r, pd_context = rr_context r, pd_action = rr_selected_arm r,
          pd_created_at = rr_timestamp r, pd_expires_at = expires_at, pd_model_generation = rr_generation r\<rparr> (rh_ledger h) of
       (Inl e, _) \<Rightarrow> Inl (state_error e)
     | (Inr receipt, l) \<Rightarrow>
         (let h' = h\<lparr>rh_ledger := l\<rparr> in
          if rc_status receipt \<noteq> Registered then Inr h'
          else (let h'' = h'\<lparr>rh_digest := digest_record r (CHR ''d'') (rh_digest h)\<rparr> in
            if rr_outcome_time r \<noteq> None then Inr h''
            else and_then (checked_increment_usize (rh_missing_feedback h) ''missing feedback'') (\<lambda>n.
              Inr (h''\<lparr>rh_missing_feedback := n\<rparr>))))))"

definition replay_decision :: "replay_record \<Rightarrow> replay_harness \<Rightarrow> rill_error + replay_harness" where
  "replay_decision r h =
     (if rr_feature_schema_hash r \<noteq> rc_feature_schema_hash (rh_config h) then count_rejected h
      else if rr_generation r < rh_current_generation h then count_rejected h
      else and_then (enter_generation r h) (\<lambda>h1. and_then (enter_drift r h1) (register_decision r)))"

definition settle_outcome :: "replay_record \<Rightarrow> u64 \<Rightarrow> f64 \<Rightarrow> replay_harness \<Rightarrow> rill_error + replay_harness" where
  "settle_outcome r outcome_time reward h =
     and_then (finite_add (rh_cumulative_reward h) reward ''cumulative reward'') (\<lambda>next_reward.
     and_then (case rr_baseline_reward r of
         Some baseline \<Rightarrow> finite_add (rh_baseline_cumulative_reward h) baseline ''baseline reward''
       | None \<Rightarrow> Inr (rh_baseline_cumulative_reward h)) (\<lambda>next_baseline.
     and_then (case rr_optimal_reward r of
         Some optimal \<Rightarrow>
           (let regret = f_max (optimal - reward) 0 in
            if \<not> is_finite regret then Inl (InvalidState ''regret overflow'')
            else finite_add (rh_approximate_regret h) regret ''approximate regret'')
       | None \<Rightarrow> Inr (rh_approximate_regret h)) (\<lambda>next_regret.
     and_then (ok_or (checked_add_u64 (rh_per_arm_pulls h ! rr_selected_arm r) 1)
         (InvalidState ''per-arm pull overflow'')) (\<lambda>next_pulls.
     if rc_max_records (rh_config h) \<le> length (rh_latencies h)
     then Inl (InvalidState ''feedback latency capacity exceeded'')
     else (case apply_contextual_outcome
           \<lparr>do_decision_id = rr_decision_id r, do_action = rr_selected_arm r, do_reward = reward,
            do_observed_at = outcome_time, do_model_generation = rr_generation r\<rparr> (rh_ledger h, rh_model h) of
         (Inl e, _) \<Rightarrow> Inl e
       | (Inr _, (l, m)) \<Rightarrow>
           Inr (h\<lparr>rh_ledger := l, rh_model := m, rh_cumulative_reward := next_reward,
                  rh_baseline_cumulative_reward := next_baseline, rh_approximate_regret := next_regret,
                  rh_per_arm_pulls := (rh_per_arm_pulls h)[rr_selected_arm r := next_pulls],
                  rh_latencies := rh_latencies h @ [outcome_time - rr_timestamp r],
                  rh_digest := digest_record r (CHR ''o'') (rh_digest h)\<rparr>))))))"

definition replay_outcome :: "replay_record \<Rightarrow> replay_harness \<Rightarrow> rill_error + replay_harness" where
  "replay_outcome r h =
     (case rr_outcome_time r of None \<Rightarrow> Inr h | Some outcome_time \<Rightarrow>
     (case rr_reward r of None \<Rightarrow> count_rejected h | Some reward \<Rightarrow>
      if rr_generation r \<noteq> rh_current_generation h then count_rejected h
      else if ledger_completed (rh_ledger h) (rr_decision_id r) \<noteq> None
      then and_then (checked_increment_usize (rh_duplicate_feedback h) ''duplicate feedback'') (\<lambda>n.
        Inr (h\<lparr>rh_duplicate_feedback := n\<rparr>))
      else (case ledger_pending (rh_ledger h) (rr_decision_id r) of
         None \<Rightarrow> count_rejected h
       | Some p \<Rightarrow>
         if pd_expires_at p < outcome_time
         then (case clear_expired outcome_time (rh_ledger h) of (removed, l) \<Rightarrow>
           and_then (ok_or (checked_add_usize (rh_expired h) (length removed)) (InvalidState ''expired counter overflow'')) (\<lambda>n.
           Inr (h\<lparr>rh_ledger := l, rh_expired := n\<rparr>)))
         else if outcome_time < pd_created_at p \<or> rr_generation r \<noteq> pd_model_generation p
           \<or> rr_selected_arm r \<noteq> pd_action p
         then count_rejected h
         else settle_outcome r outcome_time reward h)))"

datatype event_kind = DecisionEvent | OutcomeEvent

text \<open>Events in the order of the records, then sorted by time, decisions first, and position.\<close>

type_synonym event = "u64 \<times> nat \<times> nat \<times> event_kind"

definition record_events :: "nat \<Rightarrow> replay_record \<Rightarrow> event list" where
  "record_events i r = (rr_timestamp r, 0, i, DecisionEvent)
     # (case rr_outcome_time r of None \<Rightarrow> [] | Some t \<Rightarrow> [(t, 1, i, OutcomeEvent)])"

definition event_key :: "event \<Rightarrow> u64 \<times> nat \<times> nat" where
  "event_key e = (fst e, fst (snd e), fst (snd (snd e)))"

definition sorted_events :: "replay_record list \<Rightarrow> event list" where
  "sorted_events rs = sort_key event_key (concat (map (\<lambda>(i, r). record_events i r) (List.enumerate 0 rs)))"

definition replay_event :: "replay_record list \<Rightarrow> replay_harness \<Rightarrow> event \<Rightarrow> rill_error + replay_harness" where
  "replay_event rs h e = (case e of (t, k, i, kind) \<Rightarrow>
     (case kind of DecisionEvent \<Rightarrow> replay_decision (rs ! i) h | OutcomeEvent \<Rightarrow> replay_outcome (rs ! i) h))"

definition replay_in_place :: "replay_record list \<Rightarrow> replay_harness \<Rightarrow> rill_error + replay_harness" where
  "replay_in_place rs h = try_fold (replay_event rs) h (sorted_events rs)"

section \<open>Validation, reports and chunks\<close>

definition pull_sum :: "u64 list \<Rightarrow> rill_error + u64" where
  "pull_sum ps = try_fold (\<lambda>s p. ok_or (checked_add_u64 s p) (InvalidState ''per-arm pull sum overflow'')) 0 ps"

definition harness_validate :: "replay_harness \<Rightarrow> rill_error + unit" where
  "harness_validate h =
     (if rc_max_records (rh_config h) = 0 \<or> rc_max_pending (rh_config h) = 0 \<or> rc_max_completed (rh_config h) = 0
         \<or> rc_feature_schema_hash (rh_config h) = [] \<or> 128 < length (rc_feature_schema_hash (rh_config h))
         \<or> rh_current_generation h < rc_model_generation (rh_config h)
         \<or> rc_max_records (rh_config h) < rh_processed_records h
         \<or> length (rh_per_arm_pulls h) \<noteq> lu_arm_count (rh_model h)
         \<or> rc_max_records (rh_config h) < length (rh_latencies h)
         \<or> \<not> is_finite (rh_cumulative_reward h) \<or> \<not> is_finite (rh_approximate_regret h)
         \<or> \<not> is_finite (rh_baseline_cumulative_reward h)
         \<or> \<not> is_finite (rh_cumulative_reward h - rh_baseline_cumulative_reward h)
      then Inl (InvalidState ''invalid replay state'')
      else and_then (pull_sum (rh_per_arm_pulls h)) (\<lambda>total_pulls.
        if total_pulls < lu_samples_seen (rh_model h) \<or> unat total_pulls \<noteq> completed_len (rh_ledger h)
        then Inl (InvalidState ''replay pulls, model samples, and completed ledger disagree'')
        else and_then (linucb_validate (rh_model h)) (\<lambda>_. ledger_validate (rh_ledger h))))"

definition validate_record :: "replay_record \<Rightarrow> usize \<Rightarrow> usize \<Rightarrow> rill_error + unit" where
  "validate_record r feature_count arm_count =
     (if length (rr_context r) \<noteq> feature_count then Inl (DimensionMismatch feature_count (length (rr_context r)))
      else if \<exists>v \<in> set (rr_context r). \<not> is_finite v then Inl (InvalidState ''non-finite replay context'')
      else if arm_count \<le> rr_selected_arm r then Inl (InvalidArm arm_count (rr_selected_arm r))
      else if (rr_outcome_time r \<noteq> None) \<noteq> (rr_reward r \<noteq> None)
      then Inl (InvalidState ''outcome time and reward must both be present or absent'')
      else if \<exists>t \<in> set_option (rr_outcome_time r). t < rr_timestamp r
      then Inl (InvalidState ''outcome precedes decision'')
      else try_for_each (\<lambda>v. ensure (is_finite v) (InvalidState ''non-finite replay reward''))
        (List.map_filter id [rr_reward r, rr_baseline_reward r, rr_optimal_reward r]))"

definition latency_summary_of :: "u64 list \<Rightarrow> latency_summary option" where
  "latency_summary_of latencies =
     (if latencies = [] then None
      else (let s = sort latencies; n = length s; t = sum_list (map unat s); index = ((n - 1) * 95 + 99) div 100 in
        Some \<lparr>ls_count = n, ls_min = s ! 0, ls_max = last s, ls_mean = f_of_nat t / f_of_nat n, ls_p95 = s ! index\<rparr>))"

definition harness_report :: "replay_harness \<Rightarrow> replay_report" where
  "harness_report h =
     \<lparr>rp_cumulative_reward = rh_cumulative_reward h, rp_approximate_regret = rh_approximate_regret h,
      rp_baseline_cumulative_reward = rh_baseline_cumulative_reward h,
      rp_reward_over_baseline = rh_cumulative_reward h - rh_baseline_cumulative_reward h,
      rp_per_arm_pulls = rh_per_arm_pulls h, rp_pending = pending_len (rh_ledger h),
      rp_completed = completed_len (rh_ledger h), rp_expired = rh_expired h,
      rp_missing_feedback = rh_missing_feedback h, rp_duplicate_feedback = rh_duplicate_feedback h,
      rp_rejected = rh_rejected h, rp_generation_transitions = rh_generation_transitions h,
      rp_drift_events = rh_drift_events h, rp_feedback_latency = latency_summary_of (rh_latencies h),
      rp_digest = to_hex (be_bytes 8 (unat (rh_digest h)))\<rparr>"

definition replay_next :: "replay_record list \<Rightarrow> replay_harness \<Rightarrow> rill_error + replay_harness" where
  "replay_next rs h =
     and_then (ok_or (checked_add_usize (rh_processed_records h) (length rs))
       (InvalidState ''replay record count overflow'')) (\<lambda>processed.
     if rc_max_records (rh_config h) < processed then Inl (InvalidState ''replay record capacity exceeded'')
     else and_then (try_for_each (\<lambda>r. validate_record r (lu_feature_count (rh_model h)) (lu_arm_count (rh_model h))) rs) (\<lambda>_.
     and_then (replay_in_place rs (h\<lparr>rh_processed_records := processed\<rparr>)) (\<lambda>next.
     and_then (harness_validate next) (\<lambda>_. Inr next))))"

definition replay :: "replay_record list \<Rightarrow> replay_harness \<Rightarrow> (rill_error + replay_report) \<times> replay_harness" where
  "replay rs h = (case replay_next rs h of Inl e \<Rightarrow> (Inl e, h) | Inr next \<Rightarrow> (Inr (harness_report next), next))"

text \<open>Saving is \<open>serde_json\<close>; what restoring adds to its parser, an argument, is the validation.\<close>

definition restore_json :: "(string \<Rightarrow> string + replay_harness) \<Rightarrow> string \<Rightarrow> rill_error + replay_harness" where
  "restore_json parse json =
     and_then (map_err InvalidState (parse json)) (\<lambda>h. and_then (harness_validate h) (\<lambda>_. Inr h))"

section \<open>Outcomes count once\<close>

lemma apply_contextual_outcome_Inr:
  "apply_contextual_outcome oc (l, m) = (Inr s, (l', m')) \<longleftrightarrow> (\<exists>p. ledger_pending l (do_decision_id oc) = Some p
     \<and> length (pd_context p) = lu_feature_count m \<and> list_all is_finite (pd_context p)
     \<and> apply_feedback usize_ops oc l = (Inr s, l')
     \<and> linucb_update (do_action oc, pd_context p, do_reward oc) m = (Inr (), m'))"
proof -
  have e: "(\<exists>u. try_for_each (ensure_finite f) xs = Inr u) \<longleftrightarrow> list_all is_finite xs" for f xs
    by (auto simp: result_simps list_all_iff)
  show ?thesis
  proof (cases "ledger_pending l (do_decision_id oc)")
    case (Some p)
    show ?thesis
      using e [of "''decision context''" "pd_context p"]
      by (cases "try_for_each (ensure_finite ''decision context'') (pd_context p)")
        (auto simp: apply_contextual_outcome_def Some split: sum.splits prod.splits)
  qed (simp add: apply_contextual_outcome_def)
qed

lemma apply_contextual_outcome_Inl: "apply_contextual_outcome oc lm = (Inl e, lm') \<Longrightarrow> lm' = lm"
  by (auto simp: apply_contextual_outcome_def split: option.splits sum.splits prod.splits if_splits)

lemma outcome_steps:
  assumes "apply_contextual_outcome oc (l, m) = (Inr s, (l', m'))"
  shows "\<exists>p. bt_get (dl_pending l) (do_decision_id oc) = Some p \<and> do_action oc = pd_action p
    \<and> linucb_update (pd_action p, pd_context p, do_reward oc) m = (Inr (), m')
    \<and> fst (apply_feedback usize_ops oc l) = Inr Applied \<and> l' = snd (apply_feedback usize_ops oc l)
    \<and> bt_get (dl_completed l) (do_decision_id oc) = None
    \<and> l' = l\<lparr>dl_pending := bt_remove (do_decision_id oc) (dl_pending l),
          dl_completed := bt_insert (do_decision_id oc)
            \<lparr>cd_decision = p, cd_reward = do_reward oc, cd_observed_at = do_observed_at oc\<rparr> (dl_completed l)\<rparr>"
proof -
  obtain p where p: "bt_get (dl_pending l) (do_decision_id oc) = Some p" "apply_feedback usize_ops oc l = (Inr s, l')"
    "linucb_update (do_action oc, pd_context p, do_reward oc) m = (Inr (), m')"
    using assms by (auto simp: apply_contextual_outcome_Inr ledger_pending_def)
  have a: "fst (apply_feedback usize_ops oc l) = Inr Applied" using p(2) by (cases s) simp
  have "feedback_accepted usize_ops (dl_config l) oc p" "bt_get (dl_completed l) (do_decision_id oc) = None"
    using a p(1) unfolding feedback_applied by auto
  then show ?thesis using p a feedback_applied_state [OF a p(1)]
    by (simp add: feedback_accepted_def usize_ops_def fixed_ops_def)
qed

text \<open>
  C35: an outcome reaches ledger and model together, once. It is refused and changes neither, or the ledger moves the
  decision to its tombstone and the model learns the reward for exactly the context and the arm that were registered.
  From then on every outcome for the decision is refused, whatever model it is applied to.
\<close>
theorem outcome_applied_to_both:
  assumes "apply_contextual_outcome oc (l, m) = (r, (l', m'))"
  shows "is_err r \<and> l' = l \<and> m' = m
    \<or> r = Inr Applied \<and> (\<exists>p. ledger_pending l (do_decision_id oc) = Some p
      \<and> linucb_update (pd_action p, pd_context p, do_reward oc) m = (Inr (), m')
      \<and> unat (lu_samples_seen m') = unat (lu_samples_seen m) + 1
      \<and> ledger_pending l' (do_decision_id oc) = None
      \<and> ledger_completed l' (do_decision_id oc)
          = Some \<lparr>cd_decision = p, cd_reward = do_reward oc, cd_observed_at = do_observed_at oc\<rparr>
      \<and> (\<forall>x m''. do_decision_id x = do_decision_id oc \<longrightarrow> is_err (fst (apply_contextual_outcome x (l', m'')))))"
proof (cases r)
  case (Inl e)
  then show ?thesis using apply_contextual_outcome_Inl assms by fastforce
next
  case (Inr s)
  obtain p where p: "bt_get (dl_pending l) (do_decision_id oc) = Some p"
    "linucb_update (pd_action p, pd_context p, do_reward oc) m = (Inr (), m')"
    "l' = l\<lparr>dl_pending := bt_remove (do_decision_id oc) (dl_pending l),
        dl_completed := bt_insert (do_decision_id oc)
          \<lparr>cd_decision = p, cd_reward = do_reward oc, cd_observed_at = do_observed_at oc\<rparr> (dl_completed l)\<rparr>"
    using outcome_steps assms unfolding Inr by blast
  have "ledger_pending l' (do_decision_id oc) = None" by (simp add: ledger_pending_def p(3))
  then have "is_err (fst (apply_contextual_outcome x (l', m'')))" if "do_decision_id x = do_decision_id oc" for x m''
    using that by (simp add: apply_contextual_outcome_def)
  moreover have "r = Inr Applied" using Inr by (cases s) simp
  ultimately show ?thesis using p linucb.update_seen [OF p(2)]
    by (simp add: ledger_pending_def ledger_completed_def)
qed

section \<open>The invariant of a replay\<close>

definition arms_in_range :: "usize \<Rightarrow> replay_record \<Rightarrow> bool" where
  "arms_in_range n r \<longleftrightarrow> rr_selected_arm r < n"

definition harness_core :: "replay_harness \<Rightarrow> bool" where
  "harness_core h \<longleftrightarrow> rc_max_records (rh_config h) \<noteq> 0 \<and> rc_max_pending (rh_config h) \<noteq> 0 \<and> rc_max_completed (rh_config h) \<noteq> 0
     \<and> rc_feature_schema_hash (rh_config h) \<noteq> [] \<and> length (rc_feature_schema_hash (rh_config h)) \<le> 128
     \<and> rc_model_generation (rh_config h) \<le> rh_current_generation h
     \<and> length (rh_per_arm_pulls h) = lu_arm_count (rh_model h)
     \<and> length (rh_latencies h) \<le> rc_max_records (rh_config h)
     \<and> is_finite (rh_cumulative_reward h) \<and> is_finite (rh_approximate_regret h) \<and> is_finite (rh_baseline_cumulative_reward h)
     \<and> sum_list (map unat (rh_per_arm_pulls h)) = completed_len (rh_ledger h)
     \<and> unat (lu_samples_seen (rh_model h)) \<le> completed_len (rh_ledger h)
     \<and> linucb_ok (rh_model h) \<and> ledger_wf vec_f64_ops usize_ops (rh_ledger h)
     \<and> max_completed (dl_config (rh_ledger h)) \<le> usize_max"

lemma pull_sum_Inr: "pull_sum ps = Inr t \<longleftrightarrow> unat t = sum_list (map unat ps)"
  by (simp add: pull_sum_def add_pulls_Inr)

lemma harness_validate_Inr:
  assumes "max_completed (dl_config (rh_ledger h)) \<le> usize_max"
  shows "harness_validate h = Inr u \<longleftrightarrow> harness_core h \<and> rh_processed_records h \<le> rc_max_records (rh_config h)
    \<and> is_finite (rh_cumulative_reward h - rh_baseline_cumulative_reward h)"
proof -
  have w: "ledger_wf vec_f64_ops usize_ops (rh_ledger h) \<Longrightarrow> completed_len (rh_ledger h) < 2 ^ 64"
    using assms by (auto simp: ledger_wf_iff completed_len_def usize_max_def)
  have p: "(\<exists>t. pull_sum (rh_per_arm_pulls h) = Inr t \<and> \<not> t < lu_samples_seen (rh_model h)
       \<and> unat t = completed_len (rh_ledger h))
     \<longleftrightarrow> sum_list (map unat (rh_per_arm_pulls h)) = completed_len (rh_ledger h)
       \<and> unat (lu_samples_seen (rh_model h)) \<le> completed_len (rh_ledger h)"
    if "completed_len (rh_ledger h) < 2 ^ 64"
  proof -
    have "unat (of_nat (completed_len (rh_ledger h)) :: u64) = completed_len (rh_ledger h)"
      using that by (simp add: unat_of_nat take_bit_nat_eq_self)
    then show ?thesis unfolding pull_sum_Inr by (metis word_le_nat_alt not_le)
  qed
  show ?thesis
    using p [OF w] assms
    by (auto simp: harness_validate_def harness_core_def result_simps linucb_validate_Inr ledger_validate_def
        not_less ledger_wf_def [symmetric])
qed

lemma count_rejected_core: "count_rejected h = Inr h' \<Longrightarrow> harness_core h \<Longrightarrow> harness_core h'"
  by (auto simp: count_rejected_def result_simps harness_core_def)

lemma enter_core:
  assumes "harness_core h"
  shows "enter_generation r h = Inr h' \<Longrightarrow> harness_core h'" "enter_drift r h = Inr h' \<Longrightarrow> harness_core h'"
  using assms linucb.reset_inv [of "rh_model h"]
  by (auto simp: enter_generation_def enter_drift_def result_simps harness_core_def linucb_reset_def split: if_splits)

lemma ledger_step_core:
  assumes "harness_core h" "l = ledger_apply vec_f64_ops usize_ops (rh_ledger h) x" "dl_completed l = dl_completed (rh_ledger h)"
  shows "harness_core (h\<lparr>rh_ledger := l\<rparr>)"
  using assms ledger_apply_wf [of vec_f64_ops usize_ops "rh_ledger h" x] ledger_apply_frame [of vec_f64_ops usize_ops "rh_ledger h" x]
  by (simp add: harness_core_def completed_len_def)

lemma register_keeps_completed: "dl_completed (snd (register cv av d l)) = dl_completed l"
  by (auto simp: register_def split: sum.splits option.splits)

lemma register_decision_Inr:
  assumes "register_decision r h = Inr h'"
  shows "count_rejected h = Inr h' \<or> (\<exists>d rc l g n. register vec_f64_ops usize_ops d (rh_ledger h) = (Inr rc, l)
    \<and> (h' = h\<lparr>rh_ledger := l\<rparr> \<or> h' = h\<lparr>rh_ledger := l, rh_digest := g\<rparr>
      \<or> h' = h\<lparr>rh_ledger := l, rh_digest := g, rh_missing_feedback := n\<rparr>))"
proof -
  obtain s where s: "linucb_select_deterministic (rh_model h) (rr_context r) = Inr s"
    using assms by (auto simp: register_decision_def and_then_Inr)
  show ?thesis
  proof (cases "s = rr_selected_arm r")
    case False
    then show ?thesis using assms s by (simp add: register_decision_def)
  next
    case True
    obtain t where t: "ok_or (checked_add_u64 (rr_timestamp r) (rc_max_feedback_delay (rh_config h)))
        (InvalidState ''decision expiry overflow'') = Inr t"
      using assms s True by (auto simp: register_decision_def and_then_Inr)
    define d where "d = \<lparr>pd_id = rr_decision_id r, pd_context = rr_context r, pd_action = rr_selected_arm r,
      pd_created_at = rr_timestamp r, pd_expires_at = t, pd_model_generation = rr_generation r\<rparr>"
    obtain rc l where l: "register vec_f64_ops usize_ops d (rh_ledger h) = (Inr rc, l)"
      using assms s True t by (auto simp: register_decision_def d_def [symmetric] split: prod.splits sum.splits)
    have "\<exists>n. h' = h\<lparr>rh_ledger := l\<rparr> \<or> h' = h\<lparr>rh_ledger := l, rh_digest := digest_record r (CHR ''d'') (rh_digest h)\<rparr>
      \<or> h' = h\<lparr>rh_ledger := l, rh_digest := digest_record r (CHR ''d'') (rh_digest h), rh_missing_feedback := n\<rparr>"
      using assms s True t l
      by (simp add: register_decision_def d_def [symmetric] and_then_Inr Let_def split: if_splits) blast
    then show ?thesis using l by blast
  qed
qed

lemma register_decision_core:
  assumes "harness_core h" "register_decision r h = Inr h'"
  shows "harness_core h'"
  using register_decision_Inr [OF assms(2)]
proof (elim disjE [of "count_rejected h = Inr h'"] exE conjE)
  fix d rc l g n
  assume l: "register vec_f64_ops usize_ops d (rh_ledger h) = (Inr rc, l)"
    and h': "h' = h\<lparr>rh_ledger := l\<rparr> \<or> h' = h\<lparr>rh_ledger := l, rh_digest := g\<rparr>
      \<or> h' = h\<lparr>rh_ledger := l, rh_digest := g, rh_missing_feedback := n\<rparr>"
  have "harness_core (h\<lparr>rh_ledger := l\<rparr>)"
    using ledger_step_core [OF assms(1), of l "Op_register d"] register_keeps_completed [of vec_f64_ops usize_ops d "rh_ledger h"] l
    by simp
  then show ?thesis using h' by (auto simp: harness_core_def)
qed (use count_rejected_core assms(1) in blast)

lemma replay_decision_core: "harness_core h \<Longrightarrow> replay_decision r h = Inr h' \<Longrightarrow> harness_core h'"
  using enter_core(1) [of h r] enter_core(2) [of _ r] register_decision_core [of _ r h'] count_rejected_core [of h h']
  unfolding replay_decision_def and_then_Inr by (metis (no_types, lifting) and_then_Inr)

lemma finite_add_Inr: "finite_add a b f = Inr v \<longleftrightarrow> v = a + b \<and> is_finite (a + b)"
  by (auto simp: finite_add_def Let_def)

lemma settle_outcome_Inr:
  assumes "settle_outcome r t v h = Inr h'"
  shows "\<exists>c b g n l m s. is_finite c \<and> (is_finite (rh_baseline_cumulative_reward h) \<longrightarrow> is_finite b)
    \<and> (is_finite (rh_approximate_regret h) \<longrightarrow> is_finite g)
    \<and> checked_add_u64 (rh_per_arm_pulls h ! rr_selected_arm r) 1 = Some n
    \<and> length (rh_latencies h) < rc_max_records (rh_config h)
    \<and> apply_contextual_outcome \<lparr>do_decision_id = rr_decision_id r, do_action = rr_selected_arm r, do_reward = v,
        do_observed_at = t, do_model_generation = rr_generation r\<rparr> (rh_ledger h, rh_model h) = (Inr s, (l, m))
    \<and> h' = h\<lparr>rh_ledger := l, rh_model := m, rh_cumulative_reward := c, rh_baseline_cumulative_reward := b,
        rh_approximate_regret := g, rh_per_arm_pulls := (rh_per_arm_pulls h)[rr_selected_arm r := n],
        rh_latencies := rh_latencies h @ [t - rr_timestamp r], rh_digest := digest_record r (CHR ''o'') (rh_digest h)\<rparr>"
  using assms unfolding settle_outcome_def and_then_Inr
  apply (elim exE conjE)
  subgoal for c b g n
    apply (rule exI [of _ c], rule exI [of _ b], rule exI [of _ g], rule exI [of _ n])
    by (auto simp: finite_add_Inr ok_or_Inr Let_def split: if_splits option.splits sum.splits prod.splits)
  done

lemma settle_outcome_core:
  assumes "harness_core h" "settle_outcome r t v h = Inr h'" "rr_selected_arm r < lu_arm_count (rh_model h)"
  shows "harness_core h'"
proof -
  let ?oc = "\<lparr>do_decision_id = rr_decision_id r, do_action = rr_selected_arm r, do_reward = v,
        do_observed_at = t, do_model_generation = rr_generation r\<rparr>"
  obtain c b g n l m s where u: "is_finite c" "is_finite b" "is_finite g"
    "checked_add_u64 (rh_per_arm_pulls h ! rr_selected_arm r) 1 = Some n" "length (rh_latencies h) < rc_max_records (rh_config h)"
    "apply_contextual_outcome ?oc (rh_ledger h, rh_model h) = (Inr s, (l, m))"
    "h' = h\<lparr>rh_ledger := l, rh_model := m, rh_cumulative_reward := c, rh_baseline_cumulative_reward := b,
        rh_approximate_regret := g, rh_per_arm_pulls := (rh_per_arm_pulls h)[rr_selected_arm r := n],
        rh_latencies := rh_latencies h @ [t - rr_timestamp r], rh_digest := digest_record r (CHR ''o'') (rh_digest h)\<rparr>"
    using settle_outcome_Inr [OF assms(2)] assms(1) unfolding harness_core_def by blast
  obtain p where p: "linucb_update (pd_action p, pd_context p, v) (rh_model h) = (Inr (), m)"
    "l = snd (apply_feedback usize_ops ?oc (rh_ledger h))" "bt_get (dl_completed (rh_ledger h)) (rr_decision_id r) = None"
    "dl_completed l = bt_insert (rr_decision_id r) \<lparr>cd_decision = p, cd_reward = v, cd_observed_at = t\<rparr> (dl_completed (rh_ledger h))"
    using outcome_steps [OF u(6)] by auto
  have l: "ledger_wf vec_f64_ops usize_ops l" "dl_config l = dl_config (rh_ledger h)"
    using ledger_apply_wf [of vec_f64_ops usize_ops "rh_ledger h" "Op_feedback ?oc"]
      ledger_apply_frame(1) [of vec_f64_ops usize_ops "rh_ledger h" "Op_feedback ?oc"] assms(1) p(2)
    by (simp_all add: harness_core_def)
  have n: "completed_len l = completed_len (rh_ledger h) + 1"
    using p(3,4) by (simp add: completed_len_def bt_len_insert bt_contains_def)
  have m: "linucb_ok m" "unat (lu_samples_seen m) = unat (lu_samples_seen (rh_model h)) + 1" "lu_arm_count m = lu_arm_count (rh_model h)"
    using linucb.step_inv [OF _ p(1)] linucb.update_seen [OF p(1)] p(1) assms(1)
    by (auto simp: harness_core_def linucb_update_Inr)
  have a: "rr_selected_arm r < length (rh_per_arm_pulls h)" using assms(1,3) by (simp add: harness_core_def)
  have "n = rh_per_arm_pulls h ! rr_selected_arm r + 1" "unat (rh_per_arm_pulls h ! rr_selected_arm r) + 1 < 2 ^ 64"
    using u(4) by (auto simp: checked_simps)
  then have "sum_list (map unat ((rh_per_arm_pulls h)[rr_selected_arm r := n])) = sum_list (map unat (rh_per_arm_pulls h)) + 1"
    using sum_pulls_update [OF a] by simp
  then show ?thesis using assms(1) u(1-3,5) l n m unfolding harness_core_def u(7) by simp
qed

lemma clear_expired_core:
  "harness_core h \<Longrightarrow> clear_expired t (rh_ledger h) = (ids, l) \<Longrightarrow> harness_core (h\<lparr>rh_ledger := l, rh_expired := n\<rparr>)"
  using ledger_step_core [of h l "Op_clear_expired t"] clear_frame(1) [of t "rh_ledger h"]
  by (simp add: harness_core_def)

lemma replay_outcome_core:
  assumes "harness_core h" "replay_outcome r h = Inr h'" "rr_selected_arm r < lu_arm_count (rh_model h)"
  shows "harness_core h'"
proof (cases "rr_outcome_time r")
  case (Some t)
  show ?thesis
  proof (cases "rr_reward r")
    case None
    then show ?thesis using assms count_rejected_core by (simp add: replay_outcome_def Some)
  next
    case v: (Some v)
    show ?thesis
    proof (cases "rr_generation r \<noteq> rh_current_generation h \<or> ledger_completed (rh_ledger h) (rr_decision_id r) \<noteq> None
        \<or> ledger_pending (rh_ledger h) (rr_decision_id r) = None")
      case True
      then show ?thesis using assms(1,2) count_rejected_core
        by (auto simp: replay_outcome_def Some v and_then_Inr harness_core_def split: if_splits)
    next
      case False
      then obtain p where p: "ledger_pending (rh_ledger h) (rr_decision_id r) = Some p" by auto
      obtain ids l where l: "clear_expired t (rh_ledger h) = (ids, l)" by fastforce
      have c: "replay_outcome r h = (if pd_expires_at p < t
         then and_then (ok_or (checked_add_usize (rh_expired h) (length ids)) (InvalidState ''expired counter overflow'')) (\<lambda>n.
           Inr (h\<lparr>rh_ledger := l, rh_expired := n\<rparr>))
         else if t < pd_created_at p \<or> rr_generation r \<noteq> pd_model_generation p \<or> rr_selected_arm r \<noteq> pd_action p
         then count_rejected h else settle_outcome r t v h)"
        using False by (simp add: replay_outcome_def Some v p l)
      consider "pd_expires_at p < t" | "count_rejected h = Inr h'" | "settle_outcome r t v h = Inr h'"
        using assms(2) unfolding c by (auto split: if_splits)
      then show ?thesis
      proof cases
        case 1
        then obtain n where "h' = h\<lparr>rh_ledger := l, rh_expired := n\<rparr>" using assms(2) unfolding c by (auto simp: and_then_Inr)
        then show ?thesis using clear_expired_core [OF assms(1) l] by simp
      next
        case 2
        then show ?thesis using count_rejected_core assms(1) by blast
      next
        case 3
        then show ?thesis using settle_outcome_core assms(1,3) by blast
      qed
    qed
  qed
qed (use assms in \<open>simp add: replay_outcome_def\<close>)

section \<open>What a step leaves alone\<close>

text \<open>A step neither reads nor changes the number of processed records, the configuration and the shape of the model.\<close>

definition set_processed :: "usize \<Rightarrow> replay_harness \<Rightarrow> replay_harness" where
  "set_processed n h = h\<lparr>rh_processed_records := n\<rparr>"

definition lift_processed :: "usize \<Rightarrow> rill_error + replay_harness \<Rightarrow> rill_error + replay_harness" where
  "lift_processed n r = and_then r (\<lambda>h. Inr (set_processed n h))"

lemma lift_processed_simps [simp]: "lift_processed n (Inl e) = Inl e" "lift_processed n (Inr h) = Inr (set_processed n h)"
  by (simp_all add: lift_processed_def)

lemma lift_processed_then:
  "(\<And>x. g x = lift_processed n (f x)) \<Longrightarrow> and_then m g = lift_processed n (and_then m f)"
  by (cases m) simp_all

lemma lift_processed_step:
  "m' = lift_processed n m \<Longrightarrow> (\<And>h. f (set_processed n h) = lift_processed n (f h))
     \<Longrightarrow> and_then m' f = lift_processed n (and_then m f)"
  by (cases m) simp_all

lemma set_processed_fields [simp]:
  "rh_config (set_processed n h) = rh_config h" "rh_model (set_processed n h) = rh_model h"
  "rh_ledger (set_processed n h) = rh_ledger h" "rh_current_generation (set_processed n h) = rh_current_generation h"
  "rh_cumulative_reward (set_processed n h) = rh_cumulative_reward h"
  "rh_approximate_regret (set_processed n h) = rh_approximate_regret h"
  "rh_baseline_cumulative_reward (set_processed n h) = rh_baseline_cumulative_reward h"
  "rh_per_arm_pulls (set_processed n h) = rh_per_arm_pulls h" "rh_latencies (set_processed n h) = rh_latencies h"
  "rh_expired (set_processed n h) = rh_expired h" "rh_duplicate_feedback (set_processed n h) = rh_duplicate_feedback h"
  "rh_rejected (set_processed n h) = rh_rejected h" "rh_generation_transitions (set_processed n h) = rh_generation_transitions h"
  "rh_drift_events (set_processed n h) = rh_drift_events h" "rh_missing_feedback (set_processed n h) = rh_missing_feedback h"
  "rh_digest (set_processed n h) = rh_digest h" "rh_processed_records (set_processed n h) = n"
  by (simp_all add: set_processed_def)

lemma count_rejected_processed: "count_rejected (set_processed n h) = lift_processed n (count_rejected h)"
  unfolding count_rejected_def set_processed_fields by (rule lift_processed_then) (simp add: set_processed_def)

lemma enter_processed:
  "enter_generation r (set_processed n h) = lift_processed n (enter_generation r h)"
  "enter_drift r (set_processed n h) = lift_processed n (enter_drift r h)"
  unfolding enter_generation_def enter_drift_def
  by (auto simp: set_processed_def intro!: lift_processed_then)

lemma register_decision_processed: "register_decision r (set_processed n h) = lift_processed n (register_decision r h)"
  unfolding register_decision_def set_processed_fields count_rejected_processed
  by (rule lift_processed_then) (auto simp: Let_def set_processed_def intro!: lift_processed_then split: sum.splits prod.splits)

lemma replay_decision_processed: "replay_decision r (set_processed n h) = lift_processed n (replay_decision r h)"
  unfolding replay_decision_def
  by (auto simp: count_rejected_processed enter_processed intro!: lift_processed_step register_decision_processed)

lemma settle_outcome_processed: "settle_outcome r t v (set_processed n h) = lift_processed n (settle_outcome r t v h)"
  unfolding settle_outcome_def set_processed_fields
  by (intro lift_processed_then) (auto simp: set_processed_def split: sum.splits prod.splits)

lemma replay_outcome_processed: "replay_outcome r (set_processed n h) = lift_processed n (replay_outcome r h)"
  unfolding replay_outcome_def set_processed_fields count_rejected_processed settle_outcome_processed
  by (auto simp: set_processed_def intro!: lift_processed_then split: option.splits prod.splits)

lemma replay_fold_processed:
  "try_fold (replay_event rs) (set_processed n h) es = lift_processed n (try_fold (replay_event rs) h es)"
proof (induction es arbitrary: h)
  case (Cons e es)
  have "replay_event rs (set_processed n h) e = lift_processed n (replay_event rs h e)"
    by (auto simp: replay_event_def replay_decision_processed replay_outcome_processed split: prod.splits event_kind.splits)
  then show ?case using Cons.IH by (auto intro: lift_processed_step)
qed simp

lemma linucb_update_shape:
  "linucb_update x m = (Inr u, m') \<Longrightarrow> lu_arm_count m' = lu_arm_count m \<and> lu_feature_count m' = lu_feature_count m"
  by (cases x) (auto simp: linucb_update_Inr)

definition same_shape :: "replay_harness \<Rightarrow> replay_harness \<Rightarrow> bool" where
  "same_shape h h' \<longleftrightarrow> lu_arm_count (rh_model h') = lu_arm_count (rh_model h)
     \<and> lu_feature_count (rh_model h') = lu_feature_count (rh_model h)
     \<and> rh_config h' = rh_config h \<and> rh_processed_records h' = rh_processed_records h"

lemma same_shape_trans: "same_shape h h' \<Longrightarrow> same_shape h' h'' \<Longrightarrow> same_shape h h''"
  by (simp add: same_shape_def)

lemma count_rejected_shape: "count_rejected h = Inr h' \<Longrightarrow> same_shape h h'"
  by (auto simp: count_rejected_def and_then_Inr same_shape_def)

lemma enter_shape:
  "enter_generation r h = Inr h' \<Longrightarrow> same_shape h h'" "enter_drift r h = Inr h' \<Longrightarrow> same_shape h h'"
  by (auto simp: enter_generation_def enter_drift_def and_then_Inr same_shape_def linucb_reset_def split: if_splits)

lemma register_decision_shape: "register_decision r h = Inr h' \<Longrightarrow> same_shape h h'"
  using register_decision_Inr [of r h h'] by (auto simp: same_shape_def dest!: count_rejected_shape)

lemma replay_decision_shape: "replay_decision r h = Inr h' \<Longrightarrow> same_shape h h'"
proof -
  assume a: "replay_decision r h = Inr h'"
  show ?thesis
  proof (cases "count_rejected h = Inr h'")
    case False
    then obtain h1 h2 where "enter_generation r h = Inr h1" "enter_drift r h1 = Inr h2" "register_decision r h2 = Inr h'"
      using a by (auto simp: replay_decision_def and_then_Inr split: if_splits)
    then show ?thesis by (metis enter_shape register_decision_shape same_shape_trans)
  qed (rule count_rejected_shape)
qed

lemma settle_outcome_shape: "settle_outcome r t v h = Inr h' \<Longrightarrow> same_shape h h'"
  using settle_outcome_Inr [of r t v h h'] linucb_update_shape by (fastforce simp: same_shape_def apply_contextual_outcome_Inr)

lemma replay_outcome_shape: "replay_outcome r h = Inr h' \<Longrightarrow> same_shape h h'"
  unfolding replay_outcome_def
  by (auto simp: and_then_Inr dest: count_rejected_shape settle_outcome_shape split: option.splits prod.splits if_splits)
     (auto simp: same_shape_def)

lemma replay_event_shape: "replay_event rs h e = Inr h' \<Longrightarrow> same_shape h h'"
  by (auto simp: replay_event_def split: prod.splits event_kind.splits dest: replay_decision_shape replay_outcome_shape)

lemma replay_fold_shape: "try_fold (replay_event rs) h es = Inr h' \<Longrightarrow> same_shape h h'"
  by (rule try_fold_invariant [of "replay_event rs" h es h' "same_shape h"])
     (auto simp: same_shape_def dest: replay_event_shape)

section \<open>The order of events\<close>

lemma sort_key_map:
  assumes "\<And>x y. f (g x) \<le> f (g y) \<longleftrightarrow> h x \<le> h y"
  shows "sort_key f (map g xs) = map g (sort_key h xs)"
proof -
  have i: "insort_key f (g x) (map g ys) = map g (insort_key h x ys)" for x ys
    by (induction ys) (simp_all add: assms)
  show ?thesis by (induction xs) (simp_all add: i)
qed

lemma insort_key_append: "(\<And>y. y \<in> set ys \<Longrightarrow> f x < f y) \<Longrightarrow> insort_key f x (zs @ ys) = insort_key f x zs @ ys"
proof (induction zs)
  case Nil
  then show ?case by (cases ys) (simp_all add: less_imp_le)
qed simp

lemma sort_key_append:
  "(\<And>x y. x \<in> set xs \<Longrightarrow> y \<in> set ys \<Longrightarrow> f x < f y) \<Longrightarrow> sort_key f (xs @ ys) = sort_key f xs @ sort_key f ys"
proof (induction xs)
  case (Cons x xs)
  then show ?case using insort_key_append [of "sort_key f ys" f x "sort_key f xs"] by simp
qed simp

definition shift_event :: "nat \<Rightarrow> event \<Rightarrow> event" where
  "shift_event n e = (case e of (t, k, i, kind) \<Rightarrow> (t, k, i + n, kind))"

definition events_from :: "nat \<Rightarrow> replay_record list \<Rightarrow> event list" where
  "events_from n rs = concat (map (\<lambda>(i, r). record_events i r) (List.enumerate n rs))"

lemma events_from_shift: "events_from n rs = map (shift_event n) (events_from 0 rs)"
proof -
  have "events_from (m + n) rs = map (shift_event n) (events_from m rs)" for m
    by (induction rs arbitrary: m)
      (auto simp: events_from_def record_events_def shift_event_def simp flip: add_Suc split: option.split)
  then show ?thesis by (metis add_0)
qed

lemma sorted_events_from: "sorted_events rs = sort_key event_key (events_from 0 rs)"
  by (simp add: sorted_events_def events_from_def)

lemma events_from_index: "e \<in> set (events_from n rs) \<Longrightarrow>
    (\<exists>r \<in> set rs. n \<le> fst (snd (snd e)) \<and> fst (snd (snd e)) < n + length rs
      \<and> (fst e = rr_timestamp r \<or> rr_outcome_time r = Some (fst e)))"
  by (induction rs arbitrary: n) (fastforce simp: events_from_def record_events_def split: option.splits)+

definition last_time :: "replay_record \<Rightarrow> u64" where
  "last_time r = (case rr_outcome_time r of None \<Rightarrow> rr_timestamp r | Some t \<Rightarrow> max t (rr_timestamp r))"

lemma sorted_events_append:
  assumes "\<forall>x \<in> set xs. \<forall>y \<in> set ys. last_time x < rr_timestamp y"
    and "\<forall>y \<in> set ys. \<forall>t. rr_outcome_time y = Some t \<longrightarrow> rr_timestamp y \<le> t"
  shows "sorted_events (xs @ ys) = sorted_events xs @ map (shift_event (length xs)) (sorted_events ys)"
proof -
  have "event_key e < event_key e'" if e: "e \<in> set (events_from 0 xs)" and e': "e' \<in> set (events_from (length xs) ys)" for e e'
  proof -
    obtain x where x: "x \<in> set xs" "fst e \<le> last_time x"
      using events_from_index [OF e] by (auto simp: last_time_def split: option.split)
    obtain y where y: "y \<in> set ys" "rr_timestamp y \<le> fst e'"
      using events_from_index [OF e'] assms(2) by auto
    have "fst e < fst e'" using assms(1) x y by (meson le_less_trans less_le_trans)
    then show ?thesis by (simp add: event_key_def less_prod_def)
  qed
  then have "sorted_events (xs @ ys) = sort_key event_key (events_from 0 xs) @ sort_key event_key (events_from (length xs) ys)"
    unfolding sorted_events_from by (subst sort_key_append [symmetric]) (auto simp: events_from_def enumerate_append_eq)
  moreover have "sort_key event_key (events_from (length xs) ys) = map (shift_event (length xs)) (sorted_events ys)"
    unfolding sorted_events_from events_from_shift [of "length xs"]
    by (rule sort_key_map) (auto simp: event_key_def shift_event_def less_eq_prod_def split: prod.splits)
  ultimately show ?thesis by (simp add: sorted_events_from)
qed

lemma try_fold_cong:
  "(\<And>s x. x \<in> set xs \<Longrightarrow> f s x = g s x) \<Longrightarrow> try_fold f s xs = try_fold g s xs"
proof (induction xs arbitrary: s)
  case (Cons x xs)
  then show ?case by (cases "g s x") simp_all
qed simp

lemma try_fold_map: "try_fold f s (map g xs) = try_fold (\<lambda>s x. f s (g x)) s xs"
proof (induction xs arbitrary: s)
  case (Cons x xs)
  then show ?case by (cases "f s (g x)") simp_all
qed simp

lemma replay_in_place_append:
  assumes "\<forall>x \<in> set xs. \<forall>y \<in> set ys. last_time x < rr_timestamp y"
    and "\<forall>y \<in> set ys. \<forall>t. rr_outcome_time y = Some t \<longrightarrow> rr_timestamp y \<le> t"
  shows "replay_in_place (xs @ ys) h = and_then (replay_in_place xs h) (replay_in_place ys)"
proof -
  have "try_fold (replay_event (xs @ ys)) s (sorted_events xs) = try_fold (replay_event xs) s (sorted_events xs)" for s
    using events_from_index [of _ 0 xs]
    by (intro try_fold_cong) (fastforce simp: replay_event_def sorted_events_from nth_append split: prod.split event_kind.split)
  moreover have "replay_event (xs @ ys) s (shift_event (length xs) e) = replay_event ys s e" for s e
    by (simp add: replay_event_def shift_event_def nth_append split: prod.split event_kind.split)
  ultimately show ?thesis
    by (simp add: replay_in_place_def [abs_def] sorted_events_append [OF assms] try_fold_append try_fold_map)
qed

section \<open>Chunks\<close>

lemma replay_Inr: "replay rs h = (Inr p, h') \<longleftrightarrow> replay_next rs h = Inr h' \<and> p = harness_report h'"
  by (auto simp: replay_def split: sum.splits)

lemma replay_next_Inr: "replay_next rs h = Inr h' \<longleftrightarrow>
    rh_processed_records h + length rs \<le> usize_max \<and> rh_processed_records h + length rs \<le> rc_max_records (rh_config h)
    \<and> (\<forall>r \<in> set rs. validate_record r (lu_feature_count (rh_model h)) (lu_arm_count (rh_model h)) = Inr ())
    \<and> replay_in_place rs (set_processed (rh_processed_records h + length rs) h) = Inr h' \<and> harness_validate h' = Inr ()"
  by (auto simp: replay_next_def result_simps checked_simps set_processed_def not_less)

lemma validate_record_times: "validate_record r f a = Inr u \<Longrightarrow> rr_outcome_time r = Some t \<Longrightarrow> rr_timestamp r \<le> t"
  by (auto simp: validate_record_def split: if_splits)

lemma validate_record_arm: "validate_record r f a = Inr u \<Longrightarrow> rr_selected_arm r < a"
  by (auto simp: validate_record_def split: if_splits)

lemma in_place_core:
  assumes "harness_core h" "replay_in_place rs h = Inr h'" "\<forall>r \<in> set rs. rr_selected_arm r < lu_arm_count (rh_model h)"
  shows "harness_core h' \<and> same_shape h h'"
  using assms(2) unfolding replay_in_place_def
proof (rule try_fold_invariant [where I = "\<lambda>s. harness_core s \<and> same_shape h s"])
  fix s e s'
  assume s: "harness_core s \<and> same_shape h s" and e: "e \<in> set (sorted_events rs)" and st: "replay_event rs s e = Inr s'"
  have "fst (snd (snd e)) < length rs" using e events_from_index [of e 0 rs] by (auto simp: sorted_events_from)
  then have "rr_selected_arm (rs ! fst (snd (snd e))) < lu_arm_count (rh_model s)" using assms(3) s by (simp add: same_shape_def)
  moreover have "replay_decision (rs ! fst (snd (snd e))) s = Inr s' \<or> replay_outcome (rs ! fst (snd (snd e))) s = Inr s'"
    using st by (auto simp: replay_event_def split: prod.splits event_kind.splits)
  ultimately have "harness_core s'" using s replay_decision_core replay_outcome_core by blast
  then show "harness_core s' \<and> same_shape h s'" using s replay_event_shape [OF st] same_shape_trans by blast
qed (simp add: assms(1) same_shape_def)

text \<open>
  C36: the check at the end of a replay. From a valid harness, records that pass their validation and replay without an
  error lead to a harness whose pulls, tombstones and model samples agree again and whose model and ledger are valid:
  the final validation can only refuse the chunk because reward minus baseline is no longer finite.
\<close>
theorem replay_keeps_harness_valid:
  assumes "harness_validate h = Inr ()" "max_completed (dl_config (rh_ledger h)) \<le> usize_max"
    and "rh_processed_records h + length rs \<le> min usize_max (rc_max_records (rh_config h))"
    and "\<forall>r \<in> set rs. validate_record r (lu_feature_count (rh_model h)) (lu_arm_count (rh_model h)) = Inr ()"
    and "replay_in_place rs (h\<lparr>rh_processed_records := rh_processed_records h + length rs\<rparr>) = Inr h'"
  shows "if is_finite (rh_cumulative_reward h' - rh_baseline_cumulative_reward h')
    then replay rs h = (Inr (harness_report h'), h') \<and> harness_validate h' = Inr ()
    else replay rs h = (Inl (InvalidState ''invalid replay state''), h)"
proof -
  let ?h = "set_processed (rh_processed_records h + length rs) h"
  have "harness_core h" using assms(1,2) harness_validate_Inr by blast
  then have c: "harness_core ?h" by (simp add: harness_core_def)
  have ip: "replay_in_place rs ?h = Inr h'" using assms(5) by (simp add: set_processed_def)
  have "harness_core h' \<and> same_shape ?h h'"
    using in_place_core [OF c ip] assms(4) validate_record_arm by fastforce
  then have h': "harness_core h'" "rh_processed_records h' \<le> rc_max_records (rh_config h')"
    using assms(3) by (simp_all add: same_shape_def)
  show ?thesis
  proof (cases "is_finite (rh_cumulative_reward h' - rh_baseline_cumulative_reward h')")
    case True
    then have "harness_validate h' = Inr ()" using h' harness_validate_Inr [of h'] by (simp add: harness_core_def)
    then show ?thesis using True assms(3,4) ip replay_next_Inr [of rs h h'] by (simp add: replay_Inr)
  next
    case False
    then have "harness_validate h' = Inl (InvalidState ''invalid replay state'')" by (simp add: harness_validate_def)
    moreover have "replay_next rs h = and_then (harness_validate h') (\<lambda>_. Inr h')"
    proof -
      have "try_for_each (\<lambda>r. validate_record r (lu_feature_count (rh_model h)) (lu_arm_count (rh_model h))) rs = Inr ()"
        using assms(4) by (simp add: try_for_each_Inr)
      then show ?thesis using assms(3,5) by (simp add: replay_next_def checked_add_usize_def ok_or_def)
    qed
    ultimately show ?thesis using False by (simp add: replay_def)
  qed
qed

text \<open>
  C37: chunks compose. When all events of a first chunk precede the decisions of a second one, replaying one after the
  other, for instance with the harness saved in between, ends in the state and the report of replaying all at once.
\<close>
theorem replay_chunks_compose:
  assumes "replay xs h = (Inr p, h1)" "replay ys h1 = (Inr q, h2)"
    and "\<forall>x \<in> set xs. \<forall>y \<in> set ys. last_time x < rr_timestamp y"
  shows "replay (xs @ ys) h = (Inr q, h2)"
proof -
  let ?a = "rh_processed_records h + length xs" and ?b = "rh_processed_records h + length xs + length ys"
  have x: "\<forall>r \<in> set xs. validate_record r (lu_feature_count (rh_model h)) (lu_arm_count (rh_model h)) = Inr ()"
    "replay_in_place xs (set_processed ?a h) = Inr h1"
    using assms(1) unfolding replay_Inr replay_next_Inr by auto
  have y: "rh_processed_records h1 + length ys \<le> usize_max" "rh_processed_records h1 + length ys \<le> rc_max_records (rh_config h1)"
    "\<forall>r \<in> set ys. validate_record r (lu_feature_count (rh_model h1)) (lu_arm_count (rh_model h1)) = Inr ()"
    "replay_in_place ys (set_processed (rh_processed_records h1 + length ys) h1) = Inr h2" "harness_validate h2 = Inr ()" "q = harness_report h2"
    using assms(2) unfolding replay_Inr replay_next_Inr by auto
  have s: "same_shape (set_processed ?a h) h1" using x(2) replay_fold_shape unfolding replay_in_place_def by blast
  have t: "\<forall>y \<in> set ys. \<forall>t. rr_outcome_time y = Some t \<longrightarrow> rr_timestamp y \<le> t" using y(3) validate_record_times by blast
  have e: "set_processed ?b (set_processed ?a h) = set_processed ?b h" by (simp add: set_processed_def)
  have "replay_in_place xs (set_processed ?b h) = Inr (set_processed ?b h1)"
    using replay_fold_processed [of xs ?b "set_processed ?a h" "sorted_events xs"] x(2) unfolding e replay_in_place_def by simp
  then have "replay_in_place (xs @ ys) (set_processed ?b h) = Inr h2"
    using y(4) s by (simp add: replay_in_place_append [OF assms(3) t] same_shape_def)
  then show ?thesis using x(1) y s by (auto simp: replay_Inr replay_next_Inr same_shape_def add.assoc)
qed

section \<open>Witnesses and a warm model\<close>

definition demo_replay_config :: replay_config where
  "demo_replay_config = \<lparr>rc_max_records = 4, rc_max_feedback_delay = 10, rc_model_generation = 1,
     rc_feature_schema_hash = ''a'', rc_max_pending = 4, rc_max_completed = 4\<rparr>"

definition demo_harness :: "linucb \<Rightarrow> replay_harness" where
  "demo_harness m = \<lparr>rh_config = demo_replay_config, rh_model = m,
     rh_ledger = \<lparr>dl_state_version = 1, dl_config = \<lparr>max_pending = 4, max_completed = 4,
       max_context_bytes = default_max_context_bytes, max_action_bytes = default_max_action_bytes\<rparr>,
       dl_pending = bt_empty, dl_completed = bt_empty\<rparr>,
     rh_current_generation = 1, rh_cumulative_reward = 0, rh_approximate_regret = 0, rh_baseline_cumulative_reward = 0,
     rh_per_arm_pulls = replicate (lu_arm_count m) 0, rh_latencies = [], rh_expired = 0, rh_duplicate_feedback = 0,
     rh_rejected = 0, rh_generation_transitions = 0, rh_drift_events = 0, rh_missing_feedback = 0,
     rh_processed_records = 0, rh_digest = 0xcbf29ce484222325\<rparr>"

lemma demo_harness_new: "linucb_ok m \<Longrightarrow> harness_new m demo_replay_config = Inr (demo_harness m)"
  by (simp add: harness_new_def demo_replay_config_def demo_harness_def linucb_ok_def ledger_config_new_def ledger_new_def
      decision_ledger_state_version_def default_max_context_bytes_def default_max_action_bytes_def)

lemma demo_harness_core:
  assumes "linucb_ok m" "lu_samples_seen m = 0"
  shows "harness_core (demo_harness m)"
proof -
  have "ledger_new (dl_config (rh_ledger (demo_harness m))) = Inr (rh_ledger (demo_harness m))"
    by (simp add: demo_harness_def ledger_new_def decision_ledger_state_version_def default_max_context_bytes_def
        default_max_action_bytes_def)
  then have "ledger_wf vec_f64_ops usize_ops (rh_ledger (demo_harness m))" by (rule ledger_new_wf)
  then show ?thesis using assms
    by (simp add: harness_core_def demo_harness_def demo_replay_config_def completed_len_def usize_max_def sum_list_replicate)
qed

lemma demo_linucb_ok: "linucb_ok demo_linucb" "lu_samples_seen demo_linucb = 0"
  using linucb_new_ok [OF demo_linucb_new] by simp_all

lemma zero_minus: "(0 :: f64) - 0 = 0"
  by code_simp

lemma demo_harness_valid: "harness_validate (demo_harness demo_linucb) = Inr ()"
  using harness_validate_Inr [of "demo_harness demo_linucb" "()"] demo_harness_core [OF demo_linucb_ok]
  by (simp add: demo_harness_def demo_replay_config_def usize_max_def zero_minus)

text \<open>A record for another schema: it is counted as rejected.\<close>

definition demo_record :: "u64 \<Rightarrow> replay_record" where
  "demo_record t = \<lparr>rr_timestamp = t, rr_decision_id = 1, rr_context = [0], rr_selected_arm = 0, rr_outcome_time = None,
     rr_reward = None, rr_generation = 1, rr_feature_schema_hash = ''b'', rr_baseline_reward = None,
     rr_optimal_reward = None, rr_drift = False\<rparr>"

lemma demo_record_valid: "validate_record (demo_record t) 1 2 = Inr ()"
  by (simp add: validate_record_def demo_record_def List.map_filter_def)

lemma demo_replay_step:
  "rc_feature_schema_hash (rh_config h) = ''a'' \<Longrightarrow> rh_rejected h < 5 \<Longrightarrow>
     replay_in_place [demo_record t] h = Inr (h\<lparr>rh_rejected := rh_rejected h + 1\<rparr>)"
  by (simp add: replay_in_place_def sorted_events_def record_events_def demo_record_def replay_event_def replay_decision_def
      count_rejected_def checked_increment_usize_def checked_add_usize_def ok_or_def usize_max_def)

lemma demo_shape: "lu_feature_count (rh_model (demo_harness demo_linucb)) = 1" "lu_arm_count (rh_model (demo_harness demo_linucb)) = 2"
  by (simp_all add: demo_harness_def demo_linucb_def)

lemma replay_keeps_harness_valid_witness:
  "fst (replay [demo_record 5] (demo_harness demo_linucb)) \<noteq> Inl (InvalidState ''invalid replay state'')"
proof -
  let ?h = "demo_harness demo_linucb"
  have a: "max_completed (dl_config (rh_ledger ?h)) \<le> usize_max"
    "rh_processed_records ?h + length [demo_record 5] \<le> min usize_max (rc_max_records (rh_config ?h))"
    by (simp_all add: demo_harness_def demo_replay_config_def usize_max_def)
  have r: "\<forall>r \<in> set [demo_record 5]. validate_record r (lu_feature_count (rh_model ?h)) (lu_arm_count (rh_model ?h)) = Inr ()"
    using demo_record_valid [of 5] by (simp add: demo_shape)
  have i: "replay_in_place [demo_record 5] (?h\<lparr>rh_processed_records := rh_processed_records ?h + length [demo_record 5]\<rparr>)
      = Inr (?h\<lparr>rh_processed_records := 1, rh_rejected := 1\<rparr>)"
    by (subst demo_replay_step) (simp_all add: demo_harness_def demo_replay_config_def)
  show ?thesis
    using replay_keeps_harness_valid [OF demo_harness_valid a r i] by (simp add: demo_harness_def zero_minus)
qed

lemma demo_replay:
  assumes "rh_processed_records h = n" "rh_rejected h = n" "n < 4" "harness_core h" "rc_feature_schema_hash (rh_config h) = ''a''"
    and "rc_max_records (rh_config h) = 4" "lu_feature_count (rh_model h) = 1" "lu_arm_count (rh_model h) = 2"
    and "is_finite (rh_cumulative_reward h - rh_baseline_cumulative_reward h)"
  shows "replay [demo_record t] h = (Inr (harness_report (h\<lparr>rh_processed_records := n + 1, rh_rejected := n + 1\<rparr>)),
    h\<lparr>rh_processed_records := n + 1, rh_rejected := n + 1\<rparr>)"
proof -
  let ?h' = "h\<lparr>rh_processed_records := n + 1, rh_rejected := n + 1\<rparr>"
  have "harness_validate ?h' = Inr ()"
    using harness_validate_Inr [of ?h' "()"] assms by (simp add: harness_core_def)
  moreover have "replay_in_place [demo_record t] (set_processed (n + 1) h) = Inr ?h'"
    using assms by (simp add: demo_replay_step set_processed_def)
  ultimately show ?thesis using assms demo_record_valid [of t] by (simp add: replay_Inr replay_next_Inr usize_max_def)
qed

lemma replay_chunks_compose_witness:
  "fst (replay ([demo_record 5] @ [demo_record 6]) (demo_harness demo_linucb)) \<noteq> Inl EmptyFeatures"
proof -
  let ?h = "demo_harness demo_linucb" let ?h1 = "?h\<lparr>rh_processed_records := 1, rh_rejected := 1\<rparr>"
  have c: "harness_core ?h" by (rule demo_harness_core [OF demo_linucb_ok])
  have d: "replay [demo_record 5] ?h = (Inr (harness_report ?h1), ?h1)"
    using demo_replay [of ?h 0 5] c demo_shape
    by (simp add: demo_harness_def demo_replay_config_def zero_minus)
  have e: "replay [demo_record 6] ?h1 = (Inr (harness_report (?h1\<lparr>rh_processed_records := 2, rh_rejected := 2\<rparr>)),
      ?h1\<lparr>rh_processed_records := 2, rh_rejected := 2\<rparr>)"
    using demo_replay [of ?h1 1 6] c demo_shape
    by (simp add: demo_harness_def demo_replay_config_def zero_minus harness_core_def numeral_2_eq_2)
  have o: "\<forall>x \<in> set [demo_record 5]. \<forall>y \<in> set [demo_record 6]. last_time x < rr_timestamp y"
    by (simp add: last_time_def demo_record_def)
  show ?thesis using replay_chunks_compose [OF d e o] by simp
qed

definition waiting :: "(f64 list, usize) pending_decision" where
  "waiting = \<lparr>pd_id = 1, pd_context = [0], pd_action = 0, pd_created_at = 10, pd_expires_at = 20, pd_model_generation = 1\<rparr>"

definition waiting_ledger :: contextual_ledger where
  "waiting_ledger = (rh_ledger (demo_harness demo_linucb))\<lparr>dl_pending := bt_insert 1 waiting bt_empty\<rparr>"

definition arrived :: "usize decision_outcome" where
  "arrived = \<lparr>do_decision_id = 1, do_action = 0, do_reward = 1, do_observed_at = 15, do_model_generation = 1\<rparr>"

lemma demo_linucb_update: "linucb_update (0, [0], 1) demo_linucb = (Inr (), demo_linucb\<lparr>lu_samples_seen := 1\<rparr>)"
proof -
  have "cholesky_factor [[1]] = Inr [[1]]" using identity_factor [of 1] by (simp add: identity_matrix_def)
  moreover have "add_outer 1 [[1]] [0] = Inr [[1]]" "add_reward ''b vector'' 1 [0] [0] 1 = Inr [0]" by code_simp+
  ultimately show ?thesis
    by (simp add: linucb_update_def demo_linucb_def validate_arm_def linucb_validate_context_def ensure_finite_def
        validate_reward_finite_def bandit_increment_def checked_add_u64_def ok_or_def)
qed

lemma arrived_accepted: "apply_feedback usize_ops arrived waiting_ledger = (Inr Applied, snd (apply_feedback usize_ops arrived waiting_ledger))"
proof -
  have "fst (apply_feedback usize_ops arrived waiting_ledger) = Inr Applied"
    by (simp add: feedback_applied feedback_accepted_def waiting_ledger_def waiting_def arrived_def demo_harness_def usize_ops_def
        fixed_ops_def validate_fixed_def default_max_action_bytes_def)
  then show ?thesis by (metis prod.collapse)
qed

lemma outcome_applied_to_both_witness:
  "unat (lu_samples_seen (snd (snd (apply_contextual_outcome arrived (waiting_ledger, demo_linucb))))) = 1
   \<and> is_err (fst (apply_contextual_outcome arrived (snd (apply_contextual_outcome arrived (waiting_ledger, demo_linucb)))))"
proof -
  let ?l = "snd (apply_feedback usize_ops arrived waiting_ledger)" and ?m = "demo_linucb\<lparr>lu_samples_seen := 1\<rparr>"
  have p: "ledger_pending waiting_ledger (do_decision_id arrived) = Some waiting"
    by (simp add: ledger_pending_def waiting_ledger_def arrived_def)
  have a: "apply_contextual_outcome arrived (waiting_ledger, demo_linucb) = (Inr Applied, (?l, ?m))"
    using p arrived_accepted demo_linucb_update
    by (simp add: apply_contextual_outcome_Inr) (simp add: waiting_def arrived_def demo_linucb_def)
  have "is_err (fst (apply_contextual_outcome arrived (?l, ?m)))"
    using outcome_applied_to_both [OF a] by auto
  then show ?thesis by (simp add: a)
qed

text \<open>
  A harness can be made with a model that has learned before, and then refuses every chunk, the empty one too, until a
  chunk resets the model: the model has more samples than the harness has pulls.
\<close>

lemma warm_model_never_replays:
  assumes "linucb_ok m" "lu_samples_seen m \<noteq> 0"
  shows "harness_new m demo_replay_config = Inr (demo_harness m)
    \<and> (\<exists>e. replay [] (demo_harness m) = (Inl (InvalidState e), demo_harness m))"
proof -
  have p: "pull_sum (rh_per_arm_pulls (demo_harness m)) = Inr 0"
    by (simp add: pull_sum_Inr demo_harness_def sum_list_replicate)
  have "0 < lu_samples_seen m" using assms(2) by (simp add: word_gt_0)
  then have "harness_validate (demo_harness m) = Inl (InvalidState ''replay pulls, model samples, and completed ledger disagree'')"
    using p by (simp add: harness_validate_def demo_harness_def demo_replay_config_def zero_minus)
  then show ?thesis using demo_harness_new [OF assms(1)]
    by (simp add: replay_def replay_next_def checked_add_usize_def ok_or_def replay_in_place_def sorted_events_def
        demo_harness_def demo_replay_config_def)
qed

end
