(* ===== verification/Persistence.thy ===== *)
theory Persistence imports Ftrl LinUcb begin

text \<open>
  The versioned envelope around saved models (\<open>src/persistence.rs\<close>). The parser of \<open>serde_json\<close> is an argument; the
  trait \<open>ValidateState\<close> is the locale \<open>restorable\<close>, interpreted by the models whose reachable states validate.
\<close>

definition snapshot_format_version :: u32 where "snapshot_format_version = 1"
definition max_snapshot_json_bytes :: usize where "max_snapshot_json_bytes = 64 * 1024 * 1024"

record 't snapshot =
  sn_format_version :: u32
  sn_model :: 't

definition snapshot_new :: "'t \<Rightarrow> 't snapshot" where
  "snapshot_new model = \<lparr>sn_format_version = snapshot_format_version, sn_model = model\<rparr>"

definition into_model :: "'t snapshot \<Rightarrow> rill_error + 't" where
  "into_model s =
     (if sn_format_version s \<noteq> snapshot_format_version
      then Inl (IncompatibleStateVersion snapshot_format_version (sn_format_version s)) else Inr (sn_model s))"

definition into_model_with_validation :: "('t \<Rightarrow> rill_error + unit) \<Rightarrow> 't snapshot \<Rightarrow> rill_error + 't" where
  "into_model_with_validation validate s = and_then (into_model s) (\<lambda>m. and_then (validate m) (\<lambda>_. Inr m))"

definition into_validated_model :: "('t \<Rightarrow> rill_error + unit) \<Rightarrow> 't snapshot \<Rightarrow> rill_error + 't" where
  "into_validated_model validate_state s = and_then (into_model s) (\<lambda>m. and_then (validate_state m) (\<lambda>_. Inr m))"

definition from_json_validated ::
    "(string \<Rightarrow> string + 't snapshot) \<Rightarrow> ('t \<Rightarrow> rill_error + unit) \<Rightarrow> string \<Rightarrow> rill_error + 't" where
  "from_json_validated parse validate_state json =
     (if max_snapshot_json_bytes < length json
      then Inl (InvalidState (''snapshot JSON exceeds the maximum byte limit ('' @ decimal (length json) @ '' > ''
             @ decimal max_snapshot_json_bytes @ '')''))
      else and_then (map_err InvalidState (parse json)) (into_validated_model validate_state))"

lemma into_validated_model_Inr:
  "into_validated_model v s = Inr m \<longleftrightarrow> sn_format_version s = snapshot_format_version \<and> m = sn_model s \<and> v m = Inr ()"
  by (auto simp: into_validated_model_def into_model_def result_simps)

lemma from_json_validated_Inr:
  "from_json_validated parse v json = Inr m \<longleftrightarrow> length json \<le> max_snapshot_json_bytes
     \<and> (\<exists>s. parse json = Inr s \<and> sn_format_version s = snapshot_format_version \<and> m = sn_model s \<and> v m = Inr ())"
  by (auto simp: from_json_validated_def result_simps into_validated_model_Inr)

section \<open>Types whose reachable states validate\<close>

locale restorable =
  fixes reachable :: "'t \<Rightarrow> bool" and validate_state :: "'t \<Rightarrow> rill_error + unit"
  assumes reachable_validates: "reachable m \<Longrightarrow> validate_state m = Inr ()"
begin

text \<open>A saved state comes back, if the text is not too long and reads back as the envelope it was written from.\<close>

lemma saved_state_restores:
  "reachable m \<Longrightarrow> parse json = Inr (snapshot_new m) \<Longrightarrow> length json \<le> max_snapshot_json_bytes
     \<Longrightarrow> from_json_validated parse validate_state json = Inr m"
  using reachable_validates by (simp add: from_json_validated_Inr snapshot_new_def)

end




interpretation linucb_state: restorable linucb_ok linucb_validate
  by unfold_locales (simp add: linucb_validate_Inr)




end
