(* ===== verification/F64_Relative.thy ===== *)
theory F64_Relative imports F64_Bounds Stats begin

text \<open>
  The relative rounding error of sums of non-negative doubles: every addition is off by at most one part in
  \<open>2 ^ 53\<close>, so two sums of the same numbers in different orders differ by a small multiple of the number of
  additions.
\<close>

definition unit_error :: rat where
  "unit_error = 1 / 2 ^ 53"

lemma unit_error_bounds: "0 < unit_error" "unit_error < 1"
  by (simp_all add: unit_error_def)

text \<open>On the grid of the subnormal numbers the sum is exact, above it the error is half a unit of the last place.\<close>

lemma rnd_sum_error:
  assumes a: "rnd a = a" "0 \<le> a" and b: "rnd b = b" "0 \<le> b"
  shows "\<bar>rnd (a + b) - (a + b)\<bar> \<le> unit_error * (a + b)"
proof (cases "a + b = 0")
  case False
  then have p: "0 < a + b" using a b by linarith
  show ?thesis
  proof (cases "ilog2 (a + b) - 52 \<le> - 1074")
    case True
    obtain i j where "a = of_int i * 2 powi (- 1074)" "b = of_int j * 2 powi (- 1074)"
      using rnd_on_grid [of a] rnd_on_grid [of b] a b by auto
    then have s: "a + b = of_int (i + j) * 2 powi (- 1074)" by (simp only: distrib_right of_int_add)
    have "fexp (a + b) \<le> - 1074" using True p by (simp add: fexp_def)
    then have "rnd (a + b) = a + b" by (rule rnd_exact [OF s])
    then show ?thesis using p unit_error_bounds by simp
  next
    case False
    define g where "g = ilog2 (a + b) - 52"
    have f: "fexp (a + b) = g" using False p by (simp add: fexp_def g_def)
    let ?t = "(a + b) / 2 powi g"
    have "rnd (a + b) - (a + b) = (of_int (rne ?t) - ?t) * 2 powi g"
      using p by (simp add: rnd_def f left_diff_distrib)
    then have "\<bar>rnd (a + b) - (a + b)\<bar> = \<bar>of_int (rne ?t) - ?t\<bar> * 2 powi g" by (simp add: abs_mult)
    also have "\<dots> \<le> 1 / 2 * 2 powi g" using rne_error by (intro mult_right_mono) simp_all
    also have "\<dots> = unit_error * 2 powi ilog2 (a + b)" by (simp add: g_def unit_error_def power_int_diff)
    also have "\<dots> \<le> unit_error * (a + b)"
      using ilog2_bounds(1) [OF p] unit_error_bounds by (intro mult_left_mono) simp_all
    finally show ?thesis .
  qed
qed simp

text \<open>A value that is the exact \<open>q\<close> up to \<open>k\<close> roundings.\<close>

definition near :: "nat \<Rightarrow> rat \<Rightarrow> rat \<Rightarrow> bool" where
  "near k v q \<longleftrightarrow> (1 - unit_error) ^ k * q \<le> v \<and> v \<le> (1 + unit_error) ^ k * q"

lemma near_refl: "near 0 v v"
  by (simp add: near_def)

lemma near_zero: "near k 0 0"
  by (simp add: near_def)

lemma near_mono:
  assumes "near k v q" "k \<le> l" "0 \<le> q"
  shows "near l v q"
proof -
  have "(1 - unit_error) ^ l \<le> (1 - unit_error) ^ k" "(1 + unit_error) ^ k \<le> (1 + unit_error) ^ l"
    using assms(2) unit_error_bounds by (simp_all add: power_decreasing power_increasing)
  then have "(1 - unit_error) ^ l * q \<le> (1 - unit_error) ^ k * q" "(1 + unit_error) ^ k * q \<le> (1 + unit_error) ^ l * q"
    using assms(3) by (simp_all add: mult_right_mono)
  then show ?thesis using assms(1) unfolding near_def by linarith
qed

lemma near_nonneg:
  assumes "near k v q" "0 \<le> q"
  shows "0 \<le> v"
proof -
  have "0 \<le> 1 - unit_error" using unit_error_bounds(2) by simp
  then have "0 \<le> (1 - unit_error) ^ k * q" by (rule mult_nonneg_nonneg [OF zero_le_power assms(2)])
  then show ?thesis using assms(1) unfolding near_def by linarith
qed

lemma near_add:
  assumes "near k v q" "near k w r" "0 \<le> q" "0 \<le> r" "rnd v = v" "rnd w = w"
  shows "near (Suc k) (rnd (v + w)) (q + r)"
proof -
  let ?l = "(1 - unit_error) ^ k" and ?h = "(1 + unit_error) ^ k"
  have e: "\<bar>rnd (v + w) - (v + w)\<bar> \<le> unit_error * (v + w)"
    using rnd_sum_error [OF assms(5) near_nonneg [OF assms(1,3)] assms(6) near_nonneg [OF assms(2,4)]] .
  have s: "?l * (q + r) \<le> v + w" "v + w \<le> ?h * (q + r)" using assms(1,2) unfolding near_def distrib_left by linarith+
  have "(1 - unit_error) * (?l * (q + r)) \<le> (1 - unit_error) * (v + w)"
    using s(1) unit_error_bounds by (intro mult_left_mono) simp_all
  moreover have "(1 + unit_error) * (v + w) \<le> (1 + unit_error) * (?h * (q + r))"
    using s(2) unit_error_bounds by (intro mult_left_mono) simp_all
  moreover have "(1 - unit_error) * (v + w) \<le> rnd (v + w)" "rnd (v + w) \<le> (1 + unit_error) * (v + w)"
    using e [unfolded abs_le_iff] unfolding left_diff_distrib [of 1] distrib_right [of 1] mult_1 by (elim conjE; linarith)+
  ultimately show ?thesis unfolding near_def power_Suc mult.assoc by linarith
qed

text \<open>Few roundings: the factors are close to one.\<close>

lemma power_low: "1 - of_nat k * unit_error \<le> (1 - unit_error) ^ k"
proof (induction k)
  case (Suc k)
  have "(1 - unit_error) * (1 - of_nat k * unit_error) \<le> (1 - unit_error) ^ Suc k"
    using Suc unit_error_bounds by (simp add: mult_left_mono)
  moreover have "0 \<le> of_nat k * unit_error * unit_error" using unit_error_bounds by simp
  ultimately show ?case by (simp add: algebra_simps)
qed simp

lemma power_high: "2 * of_nat k * unit_error \<le> 1 \<Longrightarrow> (1 + unit_error) ^ k \<le> 1 + 2 * of_nat k * unit_error"
proof (induction k)
  case (Suc k)
  have k: "2 * of_nat k * unit_error \<le> 1" using Suc.prems unit_error_bounds by (simp add: algebra_simps)
  have "(1 + unit_error) ^ Suc k \<le> (1 + unit_error) * (1 + 2 * of_nat k * unit_error)"
    using Suc.IH [OF k] unit_error_bounds by (simp add: mult_left_mono)
  also have "\<dots> = 1 + 2 * of_nat k * unit_error + unit_error + (2 * of_nat k * unit_error) * unit_error"
    by (simp add: algebra_simps)
  also have "\<dots> \<le> 1 + 2 * of_nat k * unit_error + unit_error + 1 * unit_error"
    using k unit_error_bounds by (intro add_left_mono mult_right_mono) simp_all
  finally show ?case by (simp add: algebra_simps)
qed simp

text \<open>The bound used below: \<open>2 ^ 30\<close> roundings.\<close>

lemma near_close:
  assumes "near k v q" "k \<le> 2 ^ 30" "0 \<le> q"
  shows "(1 - 1 / 2 ^ 23) * q \<le> v" "v \<le> (1 + 1 / 2 ^ 22) * q"
proof -
  have k: "of_nat k * unit_error \<le> 1 / 2 ^ 23"
    using assms(2) of_nat_mono [of k "2 ^ 30", where 'a = rat] by (simp add: unit_error_def field_simps)
  have "1 - 1 / 2 ^ 23 \<le> (1 - unit_error) ^ k" using power_low [of k] k by linarith
  moreover have "(1 + unit_error) ^ k \<le> 1 + 1 / 2 ^ 22"
    using power_high [of k] k by (simp add: mult.assoc)
  ultimately have "(1 - 1 / 2 ^ 23) * q \<le> (1 - unit_error) ^ k * q" "(1 + unit_error) ^ k * q \<le> (1 + 1 / 2 ^ 22) * q"
    using assms(3) by (simp_all only: mult_right_mono)
  then show "(1 - 1 / 2 ^ 23) * q \<le> v" "v \<le> (1 + 1 / 2 ^ 22) * q" using assms(1) unfolding near_def by linarith+
qed

lemma near_same:
  assumes "near k v q" "near k w q" "k \<le> 2 ^ 30" "0 \<le> q"
  shows "\<bar>v - w\<bar> \<le> 1 / 2 ^ 20 * max v w"
proof -
  note v = near_close [OF assms(1,3,4)] and w = near_close [OF assms(2,3,4)]
  have "v - w \<le> 3 / 2 ^ 23 * q" "w - v \<le> 3 / 2 ^ 23 * q" using v w by (simp_all add: field_simps)
  then have "\<bar>v - w\<bar> \<le> 3 / 2 ^ 23 * q" by (simp only: abs_le_iff minus_diff_eq)
  moreover have "q \<le> 2 * max v w" using v(1) assms(4) by (simp add: max_def field_simps)
  moreover have "0 \<le> max v w" using near_nonneg [OF assms(1,4)] by simp
  ultimately show ?thesis by (simp add: field_simps)
qed

end
