(* ===== verification/Naive_Bayes.thy ===== *)
theory Naive_Bayes imports Optim Stats Bandits Error_Text F64_Relative begin

text \<open>
  The three online naive Bayes classifiers of \<open>src/models/naive_bayes.rs\<close>: Gaussian, Bernoulli and multinomial.
  The natural logarithm and the exponential function of the platform are parameters.
\<close>

section \<open>Shared pieces\<close>

record nb_config =
  nb_alpha :: f64

definition nb_config_default :: nb_config where
  "nb_config_default = \<lparr>nb_alpha = 1\<rparr>"

definition nb_validate_config :: "nb_config \<Rightarrow> rill_error + unit" where
  "nb_validate_config c = and_then (ensure_finite ''alpha'' (nb_alpha c)) (\<lambda>_.
     if nb_alpha c \<le> 0 then Inl (InvalidParameter ''alpha'' (nb_alpha c)) else Inr ())"

definition approx_equal_non_negative :: "f64 \<Rightarrow> f64 \<Rightarrow> f64 \<Rightarrow> f64 \<Rightarrow> bool" where
  "approx_equal_non_negative a b atol rtol \<longleftrightarrow>
     is_finite a \<and> is_finite b \<and>
     (let abs_diff = \<bar>a - b\<bar> in abs_diff \<le> atol \<or> abs_diff \<le> rtol * f_max \<bar>a\<bar> \<bar>b\<bar>)"

definition multinomial_total_atol :: f64 where "multinomial_total_atol = f_of_rat (1 / 10 ^ 9)"
definition multinomial_total_rtol :: f64 where "multinomial_total_rtol = f_of_rat (1 / 10 ^ 6)"

definition ensure_log_domain :: "string \<Rightarrow> f64 \<Rightarrow> rill_error + unit" where
  "ensure_log_domain field v =
     (if is_nan v \<or> \<not> is_finite v \<and> 0 < v then Inl (NonFiniteValue field v) else Inr ())"

definition checked_log_add :: "f64 \<Rightarrow> f64 \<Rightarrow> string \<Rightarrow> rill_error + f64" where
  "checked_log_add current delta field =
     (let v = current + delta in and_then (ensure_log_domain field v) (\<lambda>_. Inr v))"

definition validate_non_negative :: "usize \<Rightarrow> f64 list \<Rightarrow> rill_error + unit" where
  "validate_non_negative feature_count xs =
     and_then (validate_features feature_count xs) (\<lambda>_.
     try_for_each (\<lambda>x. if x < 0 then Inl (InvalidParameter ''feature'' x) else Inr ()) xs)"

text \<open>
  The three \<open>predict_proba\<close> repeat the same steps with other labels: the logarithm of a prior, the sum of the
  log-likelihoods of both classes over the features, and the step from the sums to a probability.
\<close>

definition log_prior :: "(f64 \<Rightarrow> f64) \<Rightarrow> string \<Rightarrow> f64 \<Rightarrow> f64 \<Rightarrow> rill_error + f64" where
  "log_prior libln field count overall =
     (let p = libln (count / overall) in and_then (ensure_log_domain field p) (\<lambda>_. Inr p))"

definition likelihood_step ::
    "string \<Rightarrow> string \<Rightarrow> (nat \<Rightarrow> f64 \<Rightarrow> f64) \<Rightarrow> (nat \<Rightarrow> f64 \<Rightarrow> f64) \<Rightarrow> f64 \<times> f64 \<Rightarrow> nat \<times> f64 \<Rightarrow> rill_error + f64 \<times> f64" where
  "likelihood_step field_true field_false ll_true ll_false acc ix =
     (let lt = ll_true (fst ix) (snd ix); lf = ll_false (fst ix) (snd ix) in
      and_then (ensure_log_domain field_true lt) (\<lambda>_.
      and_then (checked_log_add (fst acc) lt field_true) (\<lambda>t.
      and_then (ensure_log_domain field_false lf) (\<lambda>_.
      and_then (checked_log_add (snd acc) lf field_false) (\<lambda>f. Inr (t, f))))))"

definition nb_probability ::
    "(f64 \<Rightarrow> f64) \<Rightarrow> string \<Rightarrow> f64 \<Rightarrow> f64 \<Rightarrow> f64 \<times> f64 \<Rightarrow> rill_error + f64" where
  "nb_probability libexp kind prior_true prior_false likelihoods =
     and_then (checked_log_add prior_true (fst likelihoods) (kind @ ''_log_p_true'')) (\<lambda>log_p_true.
     and_then (checked_log_add prior_false (snd likelihoods) (kind @ ''_log_p_false'')) (\<lambda>log_p_false.
     let log_odds = log_p_true - log_p_false in
     if is_nan log_odds then Inl (NonFiniteValue (kind @ ''_log_odds'') log_odds)
     else (let probability = sigmoid libexp log_odds in
       and_then (ensure_finite (kind @ ''_probability'') probability) (\<lambda>_.
       if \<not> (0 \<le> probability \<and> probability \<le> 1) then Inl (InvalidProbability probability) else Inr probability))))"

definition nb_predict ::
    "(f64 \<Rightarrow> f64) \<Rightarrow> (f64 \<Rightarrow> f64) \<Rightarrow> string \<Rightarrow> f64 \<Rightarrow> f64 \<Rightarrow> (nat \<Rightarrow> f64 \<Rightarrow> f64) \<Rightarrow> (nat \<Rightarrow> f64 \<Rightarrow> f64)
     \<Rightarrow> f64 list \<Rightarrow> rill_error + f64" where
  "nb_predict libln libexp kind count_true count_false ll_true ll_false xs =
     (let overall = count_true + count_false in
      and_then (log_prior libln (kind @ ''_log_prior_true'') count_true overall) (\<lambda>prior_true.
      and_then (log_prior libln (kind @ ''_log_prior_false'') count_false overall) (\<lambda>prior_false.
      and_then (try_fold (likelihood_step (kind @ ''_log_likelihood_true'') (kind @ ''_log_likelihood_false'') ll_true ll_false)
          (0, 0) (List.enumerate 0 xs)) (\<lambda>likelihoods.
      nb_probability libexp kind prior_true prior_false likelihoods))))"

text \<open>The sum of the class counts is checked against \<open>samples_seen\<close> with the same messages.\<close>

definition check_class_counts :: "string \<Rightarrow> u64 \<Rightarrow> u64 \<Rightarrow> u64 \<Rightarrow> rill_error + unit" where
  "check_class_counts kind cf ct n =
     (let counts = '' class_false('' @ decimal (unat cf) @ '') + class_true('' @ decimal (unat ct) @ '')'' in
      case checked_add_u64 cf ct of
        None \<Rightarrow> Inl (InvalidState (kind @ counts @ '' overflow''))
      | Some t \<Rightarrow> if t \<noteq> n then Inl (InvalidState (kind @ '' samples_seen='' @ decimal (unat n) @ '' !='' @ counts)) else Inr ())"

section \<open>Gaussian\<close>

record gaussian_stats =
  gs_counts :: "u64 list"
  gs_means :: "f64 list"
  gs_m2s :: "f64 list"
  gs_class_count :: u64

definition gaussian_stats_new :: "usize \<Rightarrow> gaussian_stats" where
  "gaussian_stats_new d = \<lparr>gs_counts = replicate d 0, gs_means = replicate d 0, gs_m2s = replicate d 0, gs_class_count = 0\<rparr>"

definition gaussian_variance :: "gaussian_stats \<Rightarrow> nat \<Rightarrow> f64" where
  "gaussian_variance s i = (if gs_counts s ! i < 2 then 0 else gs_m2s s ! i / f_of_u64 (gs_counts s ! i))"

definition gaussian_stats_reset :: "gaussian_stats \<Rightarrow> gaussian_stats" where
  "gaussian_stats_reset s = \<lparr>gs_counts = map (\<lambda>_. 0) (gs_counts s), gs_means = map (\<lambda>_. 0) (gs_means s),
     gs_m2s = map (\<lambda>_. 0) (gs_m2s s), gs_class_count = 0\<rparr>"

definition must_be_zero :: "string \<Rightarrow> f64 \<Rightarrow> rill_error + unit" where
  "must_be_zero what v = ensure (feq v 0) (InvalidState (''gaussian '' @ what @ ''='' @ f64_to_string v @ '' (must be 0)''))"

definition gaussian_stats_validate :: "gaussian_stats \<Rightarrow> rill_error + unit" where
  "gaussian_stats_validate s =
     (let n = length (gs_counts s) in
      if length (gs_means s) \<noteq> n \<or> length (gs_m2s s) \<noteq> n
      then Inl (InvalidState ''gaussian class stats: counts/means/m2s length mismatch'')
      else and_then (try_for_each (\<lambda>c. ensure (c = gs_class_count s) (InvalidState (''gaussian class stats: feature count ''
             @ decimal (unat c) @ '' != class_count '' @ decimal (unat (gs_class_count s))))) (gs_counts s)) (\<lambda>_.
        and_then (try_for_each (ensure_finite ''gaussian mean'') (gs_means s)) (\<lambda>_.
        and_then (try_for_each (\<lambda>m2. and_then (ensure_finite ''gaussian m2'' m2) (\<lambda>_.
            ensure (\<not> m2 < 0) (InvalidState (''gaussian m2 must be non-negative, got '' @ f64_to_string m2)))) (gs_m2s s)) (\<lambda>_.
        and_then (if gs_class_count s = 0
            then and_then (try_for_each (must_be_zero ''class_count=0 but mean'') (gs_means s)) (\<lambda>_.
              try_for_each (must_be_zero ''class_count=0 but m2'') (gs_m2s s))
            else Inr ()) (\<lambda>_.
        if gs_class_count s = 1 then try_for_each (must_be_zero ''class_count=1 but m2'') (gs_m2s s) else Inr ())))))"

definition gaussian_stats_deserialize :: "gaussian_stats \<Rightarrow> string + gaussian_stats" where
  "gaussian_stats_deserialize s = map_err rill_error_text (and_then (gaussian_stats_validate s) (\<lambda>_. Inr s))"

record gaussian_nb =
  gn_feature_count :: usize
  gn_config :: nb_config
  gn_class_false :: gaussian_stats
  gn_class_true :: gaussian_stats
  gn_samples_seen :: u64

definition gaussian_new :: "usize \<Rightarrow> nb_config \<Rightarrow> rill_error + gaussian_nb" where
  "gaussian_new d c = and_then (nb_validate_config c) (\<lambda>_.
     if d = 0 then Inl EmptyFeatures
     else Inr \<lparr>gn_feature_count = d, gn_config = c, gn_class_false = gaussian_stats_new d,
               gn_class_true = gaussian_stats_new d, gn_samples_seen = 0\<rparr>)"

definition gaussian_log_pdf :: "(f64 \<Rightarrow> f64) \<Rightarrow> f64 \<Rightarrow> f64 \<Rightarrow> f64 \<Rightarrow> f64" where
  "gaussian_log_pdf libln x mean variance =
     (if variance \<le> 0 then 0
      else (let sigma = f_sqrt variance; z = (x - mean) / sigma in
        - f_half * (z * z) - libln sigma - f_half * libln (f_of_nat 2 * f_pi)))"

definition gaussian_lengths :: "usize \<Rightarrow> gaussian_stats \<Rightarrow> bool" where
  "gaussian_lengths d s \<longleftrightarrow> length (gs_counts s) = d \<and> length (gs_means s) = d \<and> length (gs_m2s s) = d"

definition gaussian_validate :: "gaussian_nb \<Rightarrow> rill_error + unit" where
  "gaussian_validate m =
     (if gn_feature_count m = 0 then Inl EmptyFeatures
      else and_then (nb_validate_config (gn_config m)) (\<lambda>_.
        if \<not> gaussian_lengths (gn_feature_count m) (gn_class_false m)
        then Inl (InvalidState ''gaussian class_false vector length != feature_count'')
        else if \<not> gaussian_lengths (gn_feature_count m) (gn_class_true m)
        then Inl (InvalidState ''gaussian class_true vector length != feature_count'')
        else and_then (gaussian_stats_validate (gn_class_false m)) (\<lambda>_.
          and_then (gaussian_stats_validate (gn_class_true m)) (\<lambda>_.
          check_class_counts ''gaussian'' (gs_class_count (gn_class_false m)) (gs_class_count (gn_class_true m))
            (gn_samples_seen m)))))"

definition gaussian_deserialize :: "gaussian_nb \<Rightarrow> string + gaussian_nb" where
  "gaussian_deserialize m =
     and_then (gaussian_stats_deserialize (gn_class_false m)) (\<lambda>_.
     and_then (gaussian_stats_deserialize (gn_class_true m)) (\<lambda>_.
     map_err rill_error_text (and_then (gaussian_validate m) (\<lambda>_. Inr m))))"

definition gaussian_predict_proba :: "(f64 \<Rightarrow> f64) \<Rightarrow> (f64 \<Rightarrow> f64) \<Rightarrow> gaussian_nb \<Rightarrow> f64 list \<Rightarrow> rill_error + f64" where
  "gaussian_predict_proba libln libexp m xs =
     and_then (validate_features (gn_feature_count m) xs) (\<lambda>_.
     if gn_samples_seen m = 0 then Inr f_half
     else nb_predict libln libexp ''nb_gaussian'' (f_of_u64 (gs_class_count (gn_class_true m)))
       (f_of_u64 (gs_class_count (gn_class_false m)))
       (\<lambda>i x. gaussian_log_pdf libln x (gs_means (gn_class_true m) ! i) (gaussian_variance (gn_class_true m) i))
       (\<lambda>i x. gaussian_log_pdf libln x (gs_means (gn_class_false m) ! i) (gaussian_variance (gn_class_false m) i)) xs)"

text \<open>The next count, mean and sum of squares of one feature.\<close>

definition gaussian_next :: "gaussian_stats \<Rightarrow> f64 list \<Rightarrow> nat \<Rightarrow> rill_error + u64 \<times> f64 \<times> f64" where
  "gaussian_next s xs i =
     (let x = xs ! i in
      and_then (checked_increment (gs_counts s ! i) ''feature count'') (\<lambda>n.
      let delta = x - gs_means s ! i in
      and_then (ensure_finite ''mean delta'' delta) (\<lambda>_.
      and_then (checked_finite_add (gs_means s ! i) (delta / f_of_u64 n) ''mean'') (\<lambda>new_mean.
      let delta2 = x - new_mean in
      and_then (ensure_finite ''mean delta2'' delta2) (\<lambda>_.
      and_then (checked_finite_add (gs_m2s s ! i) (delta * delta2) ''m2'') (\<lambda>new_m2.
      Inr (n, new_mean, new_m2)))))))"

text \<open>The commit overwrites every entry: features and statistics have the same length.\<close>

definition gaussian_learn :: "f64 list \<times> bool \<Rightarrow> gaussian_nb \<Rightarrow> (rill_error + unit) \<times> gaussian_nb" where
  "gaussian_learn xt m = (case xt of (xs, target) \<Rightarrow> transact m
     (and_then (validate_features (gn_feature_count m) xs) (\<lambda>_.
      let s = (if target then gn_class_true m else gn_class_false m) in
      and_then (try_map (gaussian_next s xs) [0..<length xs]) (\<lambda>next_states.
      and_then (checked_increment (gs_class_count s) ''class_count'') (\<lambda>new_class_count.
      and_then (checked_increment (gn_samples_seen m) ''samples_seen'') (\<lambda>new_samples_seen.
      let s' = \<lparr>gs_counts = map fst next_states, gs_means = map (\<lambda>t. fst (snd t)) next_states,
                gs_m2s = map (\<lambda>t. snd (snd t)) next_states, gs_class_count = new_class_count\<rparr>
      in Inr (if target then m\<lparr>gn_class_true := s', gn_samples_seen := new_samples_seen\<rparr>
              else m\<lparr>gn_class_false := s', gn_samples_seen := new_samples_seen\<rparr>)))))))"

definition gaussian_reset :: "gaussian_nb \<Rightarrow> gaussian_nb" where
  "gaussian_reset m = m\<lparr>gn_class_false := gaussian_stats_reset (gn_class_false m),
     gn_class_true := gaussian_stats_reset (gn_class_true m), gn_samples_seen := 0\<rparr>"

section \<open>Bernoulli\<close>

record bernoulli_nb =
  bn_feature_count :: usize
  bn_config :: nb_config
  bn_feature_true_counts_false :: "u64 list"
  bn_feature_true_counts_true :: "u64 list"
  bn_class_false_count :: u64
  bn_class_true_count :: u64
  bn_samples_seen :: u64

definition bernoulli_new :: "usize \<Rightarrow> nb_config \<Rightarrow> rill_error + bernoulli_nb" where
  "bernoulli_new d c = and_then (nb_validate_config c) (\<lambda>_.
     if d = 0 then Inl EmptyFeatures
     else Inr \<lparr>bn_feature_count = d, bn_config = c, bn_feature_true_counts_false = replicate d 0,
               bn_feature_true_counts_true = replicate d 0, bn_class_false_count = 0, bn_class_true_count = 0,
               bn_samples_seen = 0\<rparr>)"

definition log_bernoulli :: "(f64 \<Rightarrow> f64) \<Rightarrow> f64 \<Rightarrow> f64 \<Rightarrow> f64" where
  "log_bernoulli libln x p = x * libln p + (1 - x) * libln (1 - p)"

definition check_feature_counts :: "string \<Rightarrow> string \<Rightarrow> u64 list \<Rightarrow> u64 \<Rightarrow> rill_error + unit" where
  "check_feature_counts vector count cs n =
     try_for_each (\<lambda>c. ensure (\<not> n < c) (InvalidState (''bernoulli '' @ vector @ '' entry '' @ decimal (unat c) @ '' > ''
       @ count @ '' '' @ decimal (unat n)))) cs"

definition bernoulli_validate :: "bernoulli_nb \<Rightarrow> rill_error + unit" where
  "bernoulli_validate m =
     (if bn_feature_count m = 0 then Inl EmptyFeatures
      else and_then (nb_validate_config (bn_config m)) (\<lambda>_.
        if length (bn_feature_true_counts_false m) \<noteq> bn_feature_count m
           \<or> length (bn_feature_true_counts_true m) \<noteq> bn_feature_count m
        then Inl (InvalidState ''bernoulli feature count vector length != feature_count'')
        else and_then (check_class_counts ''bernoulli'' (bn_class_false_count m) (bn_class_true_count m) (bn_samples_seen m)) (\<lambda>_.
          and_then (check_feature_counts ''feature_true_counts_false'' ''class_false_count'' (bn_feature_true_counts_false m)
            (bn_class_false_count m)) (\<lambda>_.
          check_feature_counts ''feature_true_counts_true'' ''class_true_count'' (bn_feature_true_counts_true m)
            (bn_class_true_count m)))))"

definition bernoulli_deserialize :: "bernoulli_nb \<Rightarrow> string + bernoulli_nb" where
  "bernoulli_deserialize m = map_err rill_error_text (and_then (bernoulli_validate m) (\<lambda>_. Inr m))"

definition smoothed_share :: "nb_config \<Rightarrow> u64 list \<Rightarrow> f64 \<Rightarrow> nat \<Rightarrow> f64" where
  "smoothed_share c counts class_count i =
     (f_of_u64 (counts ! i) + nb_alpha c) / (class_count + f_of_nat 2 * nb_alpha c)"

definition bernoulli_predict_proba :: "(f64 \<Rightarrow> f64) \<Rightarrow> (f64 \<Rightarrow> f64) \<Rightarrow> bernoulli_nb \<Rightarrow> f64 list \<Rightarrow> rill_error + f64" where
  "bernoulli_predict_proba libln libexp m xs =
     and_then (validate_non_negative (bn_feature_count m) xs) (\<lambda>_.
     if bn_samples_seen m = 0 then Inr f_half
     else (let ct = f_of_u64 (bn_class_true_count m); cf = f_of_u64 (bn_class_false_count m) in
       nb_predict libln libexp ''nb_bernoulli'' ct cf
         (\<lambda>i x. log_bernoulli libln x (smoothed_share (bn_config m) (bn_feature_true_counts_true m) ct i))
         (\<lambda>i x. log_bernoulli libln x (smoothed_share (bn_config m) (bn_feature_true_counts_false m) cf i)) xs))"

definition bernoulli_next :: "u64 list \<Rightarrow> nat \<times> f64 \<Rightarrow> rill_error + u64 list" where
  "bernoulli_next cs ix =
     (if f_half < snd ix
      then and_then (checked_increment (cs ! fst ix) ''feature_true_count'') (\<lambda>n. Inr (cs[fst ix := n]))
      else Inr cs)"

definition bernoulli_learn :: "f64 list \<times> bool \<Rightarrow> bernoulli_nb \<Rightarrow> (rill_error + unit) \<times> bernoulli_nb" where
  "bernoulli_learn xt m = (case xt of (xs, target) \<Rightarrow> transact m
     (and_then (validate_non_negative (bn_feature_count m) xs) (\<lambda>_.
      and_then (try_fold bernoulli_next
          (if target then bn_feature_true_counts_true m else bn_feature_true_counts_false m) (List.enumerate 0 xs)) (\<lambda>cs.
      and_then (if target then checked_increment (bn_class_true_count m) ''class_true_count''
                else checked_increment (bn_class_false_count m) ''class_false_count'') (\<lambda>n.
      and_then (checked_increment (bn_samples_seen m) ''samples_seen'') (\<lambda>next_samples_seen.
      Inr (if target
           then m\<lparr>bn_feature_true_counts_true := cs, bn_class_true_count := n, bn_samples_seen := next_samples_seen\<rparr>
           else m\<lparr>bn_feature_true_counts_false := cs, bn_class_false_count := n, bn_samples_seen := next_samples_seen\<rparr>)))))))"

definition bernoulli_reset :: "bernoulli_nb \<Rightarrow> bernoulli_nb" where
  "bernoulli_reset m = m\<lparr>bn_feature_true_counts_false := map (\<lambda>_. 0) (bn_feature_true_counts_false m),
     bn_feature_true_counts_true := map (\<lambda>_. 0) (bn_feature_true_counts_true m), bn_class_false_count := 0,
     bn_class_true_count := 0, bn_samples_seen := 0\<rparr>"

section \<open>Multinomial\<close>

record multinomial_nb =
  mn_feature_count :: usize
  mn_config :: nb_config
  mn_feature_sums_false :: "f64 list"
  mn_feature_sums_true :: "f64 list"
  mn_total_false :: f64
  mn_total_true :: f64
  mn_class_false_count :: u64
  mn_class_true_count :: u64
  mn_samples_seen :: u64

definition multinomial_new :: "usize \<Rightarrow> nb_config \<Rightarrow> rill_error + multinomial_nb" where
  "multinomial_new d c = and_then (nb_validate_config c) (\<lambda>_.
     if d = 0 then Inl EmptyFeatures
     else Inr \<lparr>mn_feature_count = d, mn_config = c, mn_feature_sums_false = replicate d 0,
               mn_feature_sums_true = replicate d 0, mn_total_false = 0, mn_total_true = 0,
               mn_class_false_count = 0, mn_class_true_count = 0, mn_samples_seen = 0\<rparr>)"

definition check_sums :: "string \<Rightarrow> f64 list \<Rightarrow> rill_error + unit" where
  "check_sums name vs = try_for_each (\<lambda>s. and_then (ensure_finite (''multinomial '' @ name) s) (\<lambda>_.
     ensure (\<not> s < 0) (InvalidState (''multinomial '' @ name @ '' entry '' @ f64_to_string s @ '' is negative'')))) vs"

definition check_total :: "string \<Rightarrow> f64 \<Rightarrow> rill_error + unit" where
  "check_total name t = and_then (ensure_finite (''multinomial '' @ name) t) (\<lambda>_.
     ensure (\<not> t < 0) (InvalidState (''multinomial '' @ name @ '' is negative: '' @ f64_to_string t)))"

definition check_cached_total :: "string \<Rightarrow> string \<Rightarrow> f64 list \<Rightarrow> f64 \<Rightarrow> rill_error + unit" where
  "check_cached_total sums_name total_name vs t =
     ensure (approx_equal_non_negative (f_sum vs) t multinomial_total_atol multinomial_total_rtol)
       (InvalidState (''multinomial sum('' @ sums_name @ '')='' @ f64_to_string (f_sum vs) @ '' mismatches '' @ total_name
          @ ''='' @ f64_to_string t @ '' beyond tolerance''))"

definition multinomial_validate :: "multinomial_nb \<Rightarrow> rill_error + unit" where
  "multinomial_validate m =
     (if mn_feature_count m = 0 then Inl EmptyFeatures
      else and_then (nb_validate_config (mn_config m)) (\<lambda>_.
        if length (mn_feature_sums_false m) \<noteq> mn_feature_count m \<or> length (mn_feature_sums_true m) \<noteq> mn_feature_count m
        then Inl (InvalidState ''multinomial feature sum vector length != feature_count'')
        else and_then (check_sums ''feature_sums_false'' (mn_feature_sums_false m)) (\<lambda>_.
          and_then (check_sums ''feature_sums_true'' (mn_feature_sums_true m)) (\<lambda>_.
          and_then (check_total ''total_false'' (mn_total_false m)) (\<lambda>_.
          and_then (check_total ''total_true'' (mn_total_true m)) (\<lambda>_.
          and_then (check_class_counts ''multinomial'' (mn_class_false_count m) (mn_class_true_count m) (mn_samples_seen m)) (\<lambda>_.
          and_then (check_cached_total ''feature_sums_false'' ''total_false'' (mn_feature_sums_false m) (mn_total_false m)) (\<lambda>_.
          check_cached_total ''feature_sums_true'' ''total_true'' (mn_feature_sums_true m) (mn_total_true m)))))))))"

definition multinomial_deserialize :: "multinomial_nb \<Rightarrow> string + multinomial_nb" where
  "multinomial_deserialize m = map_err rill_error_text (and_then (multinomial_validate m) (\<lambda>_. Inr m))"

definition multinomial_share :: "nb_config \<Rightarrow> usize \<Rightarrow> f64 list \<Rightarrow> f64 \<Rightarrow> nat \<Rightarrow> f64" where
  "multinomial_share c d vs t i = (vs ! i + nb_alpha c) / (t + nb_alpha c * f_of_nat d)"

definition multinomial_predict_proba :: "(f64 \<Rightarrow> f64) \<Rightarrow> (f64 \<Rightarrow> f64) \<Rightarrow> multinomial_nb \<Rightarrow> f64 list \<Rightarrow> rill_error + f64" where
  "multinomial_predict_proba libln libexp m xs =
     and_then (validate_non_negative (mn_feature_count m) xs) (\<lambda>_.
     if mn_samples_seen m = 0 then Inr f_half
     else nb_predict libln libexp ''nb_multinomial'' (f_of_u64 (mn_class_true_count m)) (f_of_u64 (mn_class_false_count m))
       (\<lambda>i x. x * libln (multinomial_share (mn_config m) (mn_feature_count m) (mn_feature_sums_true m) (mn_total_true m) i))
       (\<lambda>i x. x * libln (multinomial_share (mn_config m) (mn_feature_count m) (mn_feature_sums_false m) (mn_total_false m) i)) xs)"

definition multinomial_next :: "f64 list \<times> f64 \<Rightarrow> nat \<times> f64 \<Rightarrow> rill_error + f64 list \<times> f64" where
  "multinomial_next st ix =
     and_then (checked_finite_add (fst st ! fst ix) (snd ix) ''feature_sum'') (\<lambda>s.
     and_then (checked_finite_add (snd st) (snd ix) ''total'') (\<lambda>t.
     Inr ((fst st)[fst ix := s], t)))"

definition multinomial_learn :: "f64 list \<times> bool \<Rightarrow> multinomial_nb \<Rightarrow> (rill_error + unit) \<times> multinomial_nb" where
  "multinomial_learn xt m = (case xt of (xs, target) \<Rightarrow> transact m
     (and_then (validate_non_negative (mn_feature_count m) xs) (\<lambda>_.
      and_then (try_fold multinomial_next
          (if target then (mn_feature_sums_true m, mn_total_true m) else (mn_feature_sums_false m, mn_total_false m))
          (List.enumerate 0 xs)) (\<lambda>st.
      and_then (if target then checked_increment (mn_class_true_count m) ''class_true_count''
                else checked_increment (mn_class_false_count m) ''class_false_count'') (\<lambda>n.
      and_then (checked_increment (mn_samples_seen m) ''samples_seen'') (\<lambda>next_samples_seen.
      Inr (if target
           then m\<lparr>mn_feature_sums_true := fst st, mn_total_true := snd st, mn_class_true_count := n,
                  mn_samples_seen := next_samples_seen\<rparr>
           else m\<lparr>mn_feature_sums_false := fst st, mn_total_false := snd st, mn_class_false_count := n,
                  mn_samples_seen := next_samples_seen\<rparr>)))))))"

definition multinomial_reset :: "multinomial_nb \<Rightarrow> multinomial_nb" where
  "multinomial_reset m = m\<lparr>mn_feature_sums_false := map (\<lambda>_. 0) (mn_feature_sums_false m),
     mn_feature_sums_true := map (\<lambda>_. 0) (mn_feature_sums_true m), mn_total_false := 0, mn_total_true := 0,
     mn_class_false_count := 0, mn_class_true_count := 0, mn_samples_seen := 0\<rparr>"

section \<open>Reachable classifiers pass the validation of their snapshots\<close>

lemma nb_validate_config_Inr [result_simps]:
  "nb_validate_config c = Inr u \<longleftrightarrow> is_finite (nb_alpha c) \<and> \<not> nb_alpha c \<le> 0"
  by (simp add: nb_validate_config_def result_simps)

lemma validate_non_negative_Inr [result_simps]:
  "validate_non_negative n xs = Inr u \<longleftrightarrow> xs \<noteq> [] \<and> length xs = n \<and> (\<forall>x \<in> set xs. is_finite x \<and> \<not> x < 0)"
  by (auto simp: validate_non_negative_def result_simps split: if_splits)

lemma check_class_counts_Inr [result_simps]:
  "check_class_counts kind cf ct n = Inr u \<longleftrightarrow> unat cf + unat ct < 2 ^ 64 \<and> cf + ct = n"
  by (auto simp: check_class_counts_def Let_def checked_add_u64_def)

text \<open>Counting one more sample of either class keeps the sum of the classes equal to \<open>samples_seen\<close>.\<close>

lemma class_counts_step:
  assumes "unat cf + unat ct < 2 ^ 64" "unat (cf + ct) + 1 < 2 ^ 64"
  shows "unat (cf + 1) + unat ct < 2 ^ 64 \<and> unat cf + unat (ct + 1) < 2 ^ 64
    \<and> cf + 1 + ct = cf + ct + (1 :: u64) \<and> cf + (ct + 1) = cf + ct + 1"
proof -
  have s: "unat cf + unat ct + 1 < 2 ^ 64" using assms unat_add_u64 [of cf ct] by simp
  then show ?thesis using unat_inc [of cf] unat_inc [of ct] by (simp add: ac_simps)
qed

definition gaussian_feature_ok :: "u64 \<Rightarrow> u64 \<Rightarrow> f64 \<Rightarrow> f64 \<Rightarrow> bool" where
  "gaussian_feature_ok n c mean m2 \<longleftrightarrow> c = n \<and> is_finite mean \<and> is_finite m2 \<and> 0 \<le> f_val m2
     \<and> (n = 0 \<longrightarrow> f_val mean = 0) \<and> (n = 0 \<or> n = 1 \<longrightarrow> f_val m2 = 0)"

lemma must_be_zero_Inr: "is_finite v \<Longrightarrow> must_be_zero w v = Inr u \<longleftrightarrow> f_val v = 0"
  by (simp add: must_be_zero_def ensure_Inr feq_finite)

lemma gaussian_stats_validate_Inr:
  "gaussian_stats_validate s = Inr u \<and> length (gs_counts s) = d \<longleftrightarrow> gaussian_lengths d s \<and>
     (\<forall>i < d. gaussian_feature_ok (gs_class_count s) (gs_counts s ! i) (gs_means s ! i) (gs_m2s s ! i))"
  (is "?l \<longleftrightarrow> ?r")
proof -
  have e: "?l \<longleftrightarrow> gaussian_lengths d s \<and> (\<forall>c \<in> set (gs_counts s). c = gs_class_count s)
     \<and> (\<forall>x \<in> set (gs_means s). is_finite x) \<and> (\<forall>x \<in> set (gs_m2s s). is_finite x \<and> \<not> x < 0)
     \<and> (gs_class_count s = 0 \<longrightarrow> (\<forall>x \<in> set (gs_means s). must_be_zero ''class_count=0 but mean'' x = Inr ())
         \<and> (\<forall>x \<in> set (gs_m2s s). must_be_zero ''class_count=0 but m2'' x = Inr ()))
     \<and> (gs_class_count s = 1 \<longrightarrow> (\<forall>x \<in> set (gs_m2s s). must_be_zero ''class_count=1 but m2'' x = Inr ()))"
    by (auto simp: gaussian_stats_validate_def gaussian_lengths_def Let_def result_simps)
  show ?thesis unfolding e
    by (auto simp: gaussian_lengths_def gaussian_feature_ok_def all_set_conv_all_nth must_be_zero_Inr less_finite)
qed

text \<open>One feature: Welford's step keeps the sum of squares non-negative, and it stays zero for the first sample.\<close>

lemma gaussian_next_Inr:
  "gaussian_next s xs i = Inr t \<longleftrightarrow> (\<exists>m. m = gs_means s ! i + (xs ! i - gs_means s ! i) / f_of_u64 (gs_counts s ! i + 1)
     \<and> unat (gs_counts s ! i) + 1 < 2 ^ 64 \<and> is_finite (xs ! i - gs_means s ! i) \<and> is_finite m \<and> is_finite (xs ! i - m)
     \<and> is_finite (gs_m2s s ! i + (xs ! i - gs_means s ! i) * (xs ! i - m))
     \<and> t = (gs_counts s ! i + 1, m, gs_m2s s ! i + (xs ! i - gs_means s ! i) * (xs ! i - m)))"
  by (auto simp: gaussian_next_def Let_def result_simps)

lemma gaussian_feature_step:
  assumes nx: "gaussian_next s xs i = Inr t" and x: "is_finite (xs ! i)"
    and ok: "gaussian_feature_ok n (gs_counts s ! i) (gs_means s ! i) (gs_m2s s ! i)"
  shows "gaussian_feature_ok (n + 1) (fst t) (fst (snd t)) (snd (snd t))"
proof -
  let ?m = "gs_means s ! i" and ?x = "xs ! i" and ?q = "gs_m2s s ! i"
  let ?m' = "?m + (?x - ?m) / f_of_u64 (n + 1)"
  have c: "gs_counts s ! i = n" using ok by (simp add: gaussian_feature_ok_def)
  have f: "unat n + 1 < 2 ^ 64" "is_finite (?x - ?m)" "is_finite ?m'" "is_finite (?x - ?m')"
      "is_finite (?q + (?x - ?m) * (?x - ?m'))" and t: "t = (n + 1, ?m', ?q + (?x - ?m) * (?x - ?m'))"
    using nx unfolding gaussian_next_Inr c by blast+
  have fm: "is_finite ?m" and z: "unat n = 0 \<longrightarrow> f_val ?m = 0"
    using ok by (auto simp: gaussian_feature_ok_def unat_eq_0)
  have p: "is_finite ((?x - ?m) * (?x - ?m'))" using finite_plusD [OF f(5)] by simp
  have "0 \<le> f_val ((?x - ?m) * (?x - ?m'))" by (rule welford_term [OF fm x f(3,2,4) p f(1) z])
  then have pos: "0 \<le> f_val (?q + (?x - ?m) * (?x - ?m'))"
    using ok rnd_pos by (simp add: f_val_plus [OF f(5)] gaussian_feature_ok_def)
  have one: "f_val (?q + (?x - ?m) * (?x - ?m')) = 0" if "n = 0"
  proof -
    have "f_val ?m' = f_val ?x" using mean_step [OF fm x f(3,1) z] that by simp
    then have "f_val ((?x - ?m) * (?x - ?m')) = 0" by (simp add: f_val_times [OF p] f_val_minus [OF f(4)])
    moreover have "f_val ?q = 0" using ok that by (simp add: gaussian_feature_ok_def)
    ultimately show ?thesis unfolding f_val_plus [OF f(5)] by simp
  qed
  have "n + 1 \<noteq> 0" using inc_nz [OF f(1)] .
  moreover have "n + 1 = 1 \<longrightarrow> n = 0" by simp
  ultimately show ?thesis using f pos one by (simp add: t gaussian_feature_ok_def)
qed

definition gaussian_ok :: "gaussian_nb \<Rightarrow> bool" where
  "gaussian_ok m \<longleftrightarrow> gaussian_validate m = Inr ()"

definition gaussian_class_ok :: "usize \<Rightarrow> gaussian_stats \<Rightarrow> bool" where
  "gaussian_class_ok d s \<longleftrightarrow> gaussian_lengths d s \<and>
     (\<forall>i < d. gaussian_feature_ok (gs_class_count s) (gs_counts s ! i) (gs_means s ! i) (gs_m2s s ! i))"

lemma gaussian_validate_Inr:
  "gaussian_validate m = Inr () \<longleftrightarrow> gn_feature_count m \<noteq> 0 \<and> nb_validate_config (gn_config m) = Inr ()
     \<and> gaussian_class_ok (gn_feature_count m) (gn_class_false m) \<and> gaussian_class_ok (gn_feature_count m) (gn_class_true m)
     \<and> unat (gs_class_count (gn_class_false m)) + unat (gs_class_count (gn_class_true m)) < 2 ^ 64
     \<and> gs_class_count (gn_class_false m) + gs_class_count (gn_class_true m) = gn_samples_seen m"
proof -
  have s: "gaussian_class_ok d s \<longleftrightarrow> gaussian_lengths d s \<and> gaussian_stats_validate s = Inr ()" for d s
    using gaussian_stats_validate_Inr [of s "()" d] by (auto simp: gaussian_class_ok_def gaussian_lengths_def)
  show ?thesis by (auto simp: gaussian_validate_def s and_then_Inr check_class_counts_Inr)
qed

lemma gaussian_class_step:
  assumes "gaussian_class_ok d s" "\<forall>i < d. gaussian_next s xs i = Inr (ts ! i)" "length ts = d" "\<forall>x \<in> set xs. is_finite x"
    "length xs = d"
  shows "gaussian_class_ok d \<lparr>gs_counts = map fst ts, gs_means = map (\<lambda>t. fst (snd t)) ts,
    gs_m2s = map (\<lambda>t. snd (snd t)) ts, gs_class_count = gs_class_count s + 1\<rparr>"
proof -
  have "gaussian_feature_ok (gs_class_count s + 1) (fst (ts ! i)) (fst (snd (ts ! i))) (snd (snd (ts ! i)))" if "i < d" for i
    using assms that by (intro gaussian_feature_step [of s xs i]) (simp_all add: gaussian_class_ok_def)
  then show ?thesis using assms(3) by (simp add: gaussian_class_ok_def gaussian_lengths_def)
qed

lemma gaussian_learn_Inr:
  "gaussian_learn (xs, target) m = (Inr u, m') \<longleftrightarrow> (\<exists>ts. let s = (if target then gn_class_true m else gn_class_false m);
       s' = \<lparr>gs_counts = map fst ts, gs_means = map (\<lambda>t. fst (snd t)) ts, gs_m2s = map (\<lambda>t. snd (snd t)) ts,
             gs_class_count = gs_class_count s + 1\<rparr>
     in validate_features (gn_feature_count m) xs = Inr () \<and> length ts = length xs \<and> (\<forall>i < length xs. gaussian_next s xs i = Inr (ts ! i))
       \<and> unat (gs_class_count s) + 1 < 2 ^ 64 \<and> unat (gn_samples_seen m) + 1 < 2 ^ 64
       \<and> m' = (if target then m\<lparr>gn_class_true := s', gn_samples_seen := gn_samples_seen m + 1\<rparr>
               else m\<lparr>gn_class_false := s', gn_samples_seen := gn_samples_seen m + 1\<rparr>))"
  by (auto simp: gaussian_learn_def Let_def transact_Inr and_then_Inr try_map_upt_Inr checked_increment_Inr)

lemma gaussian_learn_ok:
  assumes "gaussian_ok m" "gaussian_learn xt m = (Inr u, m')"
  shows "gaussian_ok m'"
proof -
  obtain xs target where xt: "xt = (xs, target)" by fastforce
  have v: "gn_feature_count m \<noteq> 0" "nb_validate_config (gn_config m) = Inr ()"
      "gaussian_class_ok (gn_feature_count m) (gn_class_false m)" "gaussian_class_ok (gn_feature_count m) (gn_class_true m)"
      and n: "unat (gs_class_count (gn_class_false m)) + unat (gs_class_count (gn_class_true m)) < 2 ^ 64"
      "gn_samples_seen m = gs_class_count (gn_class_false m) + gs_class_count (gn_class_true m)"
    using assms(1) by (simp_all add: gaussian_ok_def gaussian_validate_Inr)

  show ?thesis
    using assms(2) v n class_counts_step [OF n(1)]
    unfolding xt gaussian_learn_Inr gaussian_ok_def gaussian_validate_Inr Let_def validate_features_Inr
    by (cases target) (auto simp: gaussian_class_step)
qed

lemma gaussian_reset_ok: "gaussian_ok m \<Longrightarrow> gaussian_ok (gaussian_reset m)"
  by (auto simp: gaussian_ok_def gaussian_validate_Inr gaussian_reset_def gaussian_stats_reset_def gaussian_class_ok_def
      gaussian_lengths_def gaussian_feature_ok_def)

interpretation gaussian: counted_machine gaussian_learn gaussian_ok gn_samples_seen gaussian_reset
proof unfold_locales
  show "gaussian_learn xt m = (Inl e, m') \<Longrightarrow> m' = m" for xt m e m'
    by (auto simp: gaussian_learn_def transact_Inl split: prod.splits)
  show "gaussian_learn xt m = (Inr u, m') \<Longrightarrow> unat (gn_samples_seen m') = unat (gn_samples_seen m) + 1" for xt m u m'
    by (cases xt) (auto simp: gaussian_learn_Inr Let_def unat_inc)
qed (rule gaussian_learn_ok gaussian_reset_ok, assumption+ | simp add: gaussian_reset_def)+

text \<open>A naive Bayes classifier in use: samples and resets, from \<open>new\<close>.\<close>

datatype class_op = Train "f64 list" bool | Forget

fun class_exec ::
    "(f64 list \<times> bool \<Rightarrow> 's \<Rightarrow> (rill_error + unit) \<times> 's) \<Rightarrow> ('s \<Rightarrow> 's) \<Rightarrow> class_op \<Rightarrow> 's \<Rightarrow> (rill_error + unit) \<times> 's" where
  "class_exec learn reset (Train xs target) s = learn (xs, target) s"
| "class_exec learn reset Forget s = (Inr (), reset s)"

locale online_classifier = counted_machine learn inv seen reset
  for learn :: "f64 list \<times> bool \<Rightarrow> 's \<Rightarrow> (rill_error + unit) \<times> 's" and inv seen reset +
  fixes new :: "usize \<Rightarrow> nb_config \<Rightarrow> rill_error + 's"
  assumes new_inv: "new d c = Inr s \<Longrightarrow> inv s \<and> seen s = 0"
begin

lemma class_run_inv: "inv s \<Longrightarrow> inv (run_ops (class_exec learn reset) ops s)"
proof (induction ops arbitrary: s)
  case (Cons x ops)
  have "inv (snd (class_exec learn reset x s))" using Cons.prems exec_inv reset_inv by (cases x) simp_all
  then show ?case using Cons.IH by simp
qed simp

lemma class_run_seen:
  "unat (seen (run_ops (class_exec learn reset) ops s)) \<le> unat (seen s) + length ops"
proof (induction ops arbitrary: s)
  case (Cons x ops)
  have "unat (seen (snd (class_exec learn reset x s))) \<le> unat (seen s) + 1"
  proof (cases x)
    case (Train xs target)
    obtain r s' where e: "learn (xs, target) s = (r, s')" by fastforce
    then show ?thesis using Train update_seen error_unchanged by (cases r) fastforce+
  qed (simp add: reset_seen)
  then show ?case using Cons.IH [of "snd (class_exec learn reset x s)"] by simp
qed simp

lemma reachable_inv: "new d c = Inr s0 \<Longrightarrow> inv (run_ops (class_exec learn reset) ops s0)"
  using new_inv class_run_inv by blast

end

lemma gaussian_new_ok: "gaussian_new d c = Inr m \<Longrightarrow> gaussian_ok m \<and> gn_samples_seen m = 0"
  by (auto simp: gaussian_new_def gaussian_ok_def gaussian_validate_Inr gaussian_stats_new_def gaussian_class_ok_def
      gaussian_lengths_def gaussian_feature_ok_def and_then_Inr split: if_splits)

interpretation gaussian_class: online_classifier gaussian_learn gaussian_ok gn_samples_seen gaussian_reset gaussian_new
  by unfold_locales (rule gaussian_new_ok)

text \<open>Bernoulli: a sample raises the count of each feature it has by one.\<close>

lemma bernoulli_counts:
  assumes "try_fold bernoulli_next cs (List.enumerate k xs) = Inr cs'"
  shows "length cs' = length cs \<and> (\<forall>j < length cs. unat (cs' ! j) \<le> unat (cs ! j) + (if k \<le> j then 1 else 0))"
  using assms
proof (induction xs arbitrary: k cs)
  case (Cons x xs)
  from Cons.prems obtain c1 where c1: "bernoulli_next cs (k, x) = Inr c1" "try_fold bernoulli_next c1 (List.enumerate (Suc k) xs) = Inr cs'"
    by (auto simp: and_then_Inr)
  have c: "length c1 = length cs \<and> (\<forall>j < length cs. unat (c1 ! j) \<le> unat (cs ! j) + (if j = k then 1 else 0))"
    using c1(1) by (auto simp: bernoulli_next_def and_then_Inr checked_increment_Inr unat_inc nth_list_update split: if_splits)
  note ih = Cons.IH [OF c1(2)]
  have "unat (cs' ! j) \<le> unat (cs ! j) + (if k \<le> j then 1 else 0)" if j: "j < length cs" for j
  proof -
    have "unat (cs' ! j) \<le> unat (c1 ! j) + (if Suc k \<le> j then 1 else 0)" using ih c j by simp
    moreover have "unat (c1 ! j) \<le> unat (cs ! j) + (if j = k then 1 else 0)" using c j by simp
    ultimately show ?thesis by (simp split: if_splits)
  qed
  then show ?case using ih c by simp
qed simp

definition bernoulli_ok :: "bernoulli_nb \<Rightarrow> bool" where
  "bernoulli_ok m \<longleftrightarrow> bernoulli_validate m = Inr ()"

lemma bernoulli_validate_Inr:
  "bernoulli_validate m = Inr () \<longleftrightarrow> bn_feature_count m \<noteq> 0 \<and> nb_validate_config (bn_config m) = Inr ()
     \<and> length (bn_feature_true_counts_false m) = bn_feature_count m \<and> length (bn_feature_true_counts_true m) = bn_feature_count m
     \<and> unat (bn_class_false_count m) + unat (bn_class_true_count m) < 2 ^ 64
     \<and> bn_class_false_count m + bn_class_true_count m = bn_samples_seen m
     \<and> (\<forall>j < bn_feature_count m. unat (bn_feature_true_counts_false m ! j) \<le> unat (bn_class_false_count m))
     \<and> (\<forall>j < bn_feature_count m. unat (bn_feature_true_counts_true m ! j) \<le> unat (bn_class_true_count m))"
  by (auto simp: bernoulli_validate_def and_then_Inr check_class_counts_Inr check_feature_counts_def try_for_each_Inr ensure_Inr
      all_set_conv_all_nth word_less_nat_alt not_less)

lemma bernoulli_learn_Inr:
  "bernoulli_learn (xs, target) m = (Inr u, m') \<longleftrightarrow> (\<exists>cs. validate_non_negative (bn_feature_count m) xs = Inr ()
     \<and> try_fold bernoulli_next (if target then bn_feature_true_counts_true m else bn_feature_true_counts_false m)
         (List.enumerate 0 xs) = Inr cs
     \<and> unat (if target then bn_class_true_count m else bn_class_false_count m) + 1 < 2 ^ 64 \<and> unat (bn_samples_seen m) + 1 < 2 ^ 64
     \<and> m' = (if target
         then m\<lparr>bn_feature_true_counts_true := cs, bn_class_true_count := bn_class_true_count m + 1, bn_samples_seen := bn_samples_seen m + 1\<rparr>
         else m\<lparr>bn_feature_true_counts_false := cs, bn_class_false_count := bn_class_false_count m + 1,
                bn_samples_seen := bn_samples_seen m + 1\<rparr>))"
  by (cases target) (auto simp: bernoulli_learn_def transact_Inr and_then_Inr checked_increment_Inr)

lemma bernoulli_learn_ok:
  assumes "bernoulli_ok m" "bernoulli_learn xt m = (Inr u, m')"
  shows "bernoulli_ok m'"
proof -
  obtain xs target where xt: "xt = (xs, target)" by fastforce
  have v: "bernoulli_validate m = Inr ()" using assms(1) by (simp add: bernoulli_ok_def)
  have n: "unat (bn_class_false_count m) + unat (bn_class_true_count m) < 2 ^ 64" using v by (simp add: bernoulli_validate_Inr)
  show ?thesis
  proof (cases target)
    case True
    then obtain cs where cs: "try_fold bernoulli_next (bn_feature_true_counts_true m) (List.enumerate 0 xs) = Inr cs"
      and m': "m' = m\<lparr>bn_feature_true_counts_true := cs, bn_class_true_count := bn_class_true_count m + 1,
        bn_samples_seen := bn_samples_seen m + 1\<rparr>"
      and i: "unat (bn_class_true_count m) + 1 < 2 ^ 64" "unat (bn_samples_seen m) + 1 < 2 ^ 64"
      using assms(2) unfolding xt bernoulli_learn_Inr by auto
    show ?thesis
      using v bernoulli_counts [OF cs] class_counts_step [OF n] i unat_inc [OF i(1)]
      by (auto simp: bernoulli_ok_def bernoulli_validate_Inr m' intro: order_trans)
  next
    case False
    then obtain cs where cs: "try_fold bernoulli_next (bn_feature_true_counts_false m) (List.enumerate 0 xs) = Inr cs"
      and m': "m' = m\<lparr>bn_feature_true_counts_false := cs, bn_class_false_count := bn_class_false_count m + 1,
        bn_samples_seen := bn_samples_seen m + 1\<rparr>"
      and i: "unat (bn_class_false_count m) + 1 < 2 ^ 64" "unat (bn_samples_seen m) + 1 < 2 ^ 64"
      using assms(2) unfolding xt bernoulli_learn_Inr by auto
    show ?thesis
      using v bernoulli_counts [OF cs] class_counts_step [OF n] i unat_inc [OF i(1)]
      by (auto simp: bernoulli_ok_def bernoulli_validate_Inr m' intro: order_trans)
  qed
qed

lemma bernoulli_reset_ok: "bernoulli_ok m \<Longrightarrow> bernoulli_ok (bernoulli_reset m)"
  by (auto simp: bernoulli_ok_def bernoulli_validate_Inr bernoulli_reset_def)

lemma bernoulli_new_ok: "bernoulli_new d c = Inr m \<Longrightarrow> bernoulli_ok m \<and> bn_samples_seen m = 0"
  by (auto simp: bernoulli_new_def bernoulli_ok_def bernoulli_validate_Inr and_then_Inr split: if_splits)

interpretation bernoulli: online_classifier bernoulli_learn bernoulli_ok bn_samples_seen bernoulli_reset bernoulli_new
proof unfold_locales
  show "bernoulli_learn xt m = (Inl e, m') \<Longrightarrow> m' = m" for xt m e m'
    by (auto simp: bernoulli_learn_def transact_Inl split: prod.splits)
  show "bernoulli_learn xt m = (Inr u, m') \<Longrightarrow> unat (bn_samples_seen m') = unat (bn_samples_seen m) + 1" for xt m u m'
    by (cases xt) (auto simp: bernoulli_learn_Inr unat_inc)
qed (rule bernoulli_learn_ok bernoulli_reset_ok bernoulli_new_ok, assumption+ | simp add: bernoulli_reset_def)+

section \<open>The cached total of the multinomial classifier\<close>

text \<open>
  The total is summed sample by sample, the validation sums the features: both are roundings of the same exact
  sum of all accepted values, \<open>qs\<close> per feature.
\<close>

definition sums_close :: "nat \<Rightarrow> f64 list \<Rightarrow> f64 \<Rightarrow> bool" where
  "sums_close k vs t \<longleftrightarrow> list_all is_finite vs \<and> is_finite t
     \<and> (\<exists>qs. length qs = length vs \<and> (\<forall>i < length vs. 0 \<le> qs ! i \<and> near k (f_val (vs ! i)) (qs ! i))
          \<and> near k (f_val t) (sum_list qs))"

lemma nth_nonneg_sum: "\<forall>i < length qs. 0 \<le> qs ! i \<Longrightarrow> 0 \<le> sum_list (qs :: rat list)"
  by (intro sum_list_nonneg) (auto simp: in_set_conv_nth)

lemma sums_close_zero: "sums_close k (replicate d 0) 0"
  unfolding sums_close_def by (auto simp: near_zero list_all_length sum_list_replicate intro!: exI [of _ "replicate d 0"])

lemma sum_list_add_at: "i < length qs \<Longrightarrow> sum_list (qs[i := qs ! i + y]) = sum_list qs + (y :: rat)"
  by (induction qs arbitrary: i) (auto simp: nth_Cons split: nat.split)

lemma multinomial_next_close:
  assumes "sums_close k vs t" "multinomial_next (vs, t) (i, x) = Inr (vs', t')" "i < length vs" "is_finite x" "0 \<le> f_val x"
  shows "sums_close (Suc k) vs' t' \<and> length vs' = length vs"
proof -
  obtain qs where qs: "length qs = length vs" "\<forall>i < length vs. 0 \<le> qs ! i \<and> near k (f_val (vs ! i)) (qs ! i)"
    and t: "near k (f_val t) (sum_list qs)" and fin: "list_all is_finite vs" "is_finite t"
    using assms(1) unfolding sums_close_def by blast
  have f: "is_finite (vs ! i + x)" "is_finite (t + x)" and e: "vs' = vs[i := vs ! i + x]" "t' = t + x"
    using assms(2) by (auto simp: multinomial_next_def and_then_Inr checked_finite_add_Inr)
  have x: "near k (f_val x) (f_val x)" by (rule near_mono [OF near_refl _ assms(5)]) simp
  have s: "0 \<le> sum_list qs" using qs by (intro nth_nonneg_sum) simp
  have "near (Suc k) (f_val (vs ! i + x)) (qs ! i + f_val x)"
    unfolding f_val_plus [OF f(1)] using qs assms(3,5) by (intro near_add x) simp_all
  moreover have "near (Suc k) (f_val (t + x)) (sum_list qs + f_val x)"
    unfolding f_val_plus [OF f(2)] by (intro near_add t x s assms(5)) simp_all
  moreover have "near (Suc k) (f_val (vs ! j)) (qs ! j)" if "j < length vs" for j
    using qs(2) that by (intro near_mono [of k _ _ "Suc k"]) simp_all
  moreover have "sum_list (qs[i := qs ! i + f_val x]) = sum_list qs + f_val x"
    using assms(3) qs(1) by (simp add: sum_list_add_at)
  moreover have "list_all is_finite vs'" using fin(1) f(1) assms(3) by (simp add: e list_all_length nth_list_update)
  ultimately show ?thesis
    unfolding sums_close_def e using f(2) qs assms(3,5)
    by (auto simp: nth_list_update intro!: exI [of _ "qs[i := qs ! i + f_val x]"])
qed

lemma multinomial_fold_close:
  assumes "try_fold multinomial_next (vs, t) (List.enumerate j xs) = Inr (vs', t')" "sums_close k vs t"
    and "j + length xs \<le> length vs" "\<forall>x \<in> set xs. is_finite x \<and> 0 \<le> f_val x"
  shows "sums_close (k + length xs) vs' t' \<and> length vs' = length vs"
  using assms
proof (induction xs arbitrary: j vs t k)
  case (Cons x xs)
  from Cons.prems(1) obtain vs1 t1 where s: "multinomial_next (vs, t) (j, x) = Inr (vs1, t1)"
      "try_fold multinomial_next (vs1, t1) (List.enumerate (Suc j) xs) = Inr (vs', t')"
    by (auto simp: and_then_Inr)
  have "sums_close (Suc k) vs1 t1 \<and> length vs1 = length vs"
    using Cons.prems by (intro multinomial_next_close [OF _ s(1)]) simp_all
  then show ?case using Cons.IH [OF s(2), of "Suc k"] Cons.prems(3,4) by simp
qed simp

text \<open>The sum of the features, as the validation takes it.\<close>

lemma fold_sum_close:
  assumes "near k (f_val a) p" "0 \<le> p" "is_finite a" "list_all is_finite vs" "length qs = length vs"
    and "\<forall>i < length vs. 0 \<le> qs ! i \<and> near k (f_val (vs ! i)) (qs ! i)"
    and "k + length vs \<le> 2 ^ 30" "p + sum_list qs \<le> 2 powi 1001"
  shows "is_finite (foldl (+) a vs) \<and> near (k + length vs) (f_val (foldl (+) a vs)) (p + sum_list qs)"
  using assms
proof (induction vs arbitrary: a p k qs)
  case (Cons v vs)
  obtain q qs' where qs: "qs = q # qs'" using Cons.prems(5) by (cases qs) auto
  have v: "is_finite v" "0 \<le> q" "near k (f_val v) q" using Cons.prems(4,6) by (auto simp: qs)
  have rest: "\<forall>i < length vs. 0 \<le> qs' ! i \<and> near (Suc k) (f_val (vs ! i)) (qs' ! i)"
  proof (intro allI impI)
    fix i assume "i < length vs"
    then have "0 \<le> qs' ! i \<and> near k (f_val (vs ! i)) (qs' ! i)" using Cons.prems(6) by (force simp: qs)
    then show "0 \<le> qs' ! i \<and> near (Suc k) (f_val (vs ! i)) (qs' ! i)" using near_mono [of k _ _ "Suc k"] by simp
  qed
  have s: "0 \<le> sum_list qs'" using rest Cons.prems(5) by (intro nth_nonneg_sum) (simp add: qs)
  have "f_val a \<le> (1 + 1 / 2 ^ 22) * p" "f_val v \<le> (1 + 1 / 2 ^ 22) * q"
    using near_close(2) [OF Cons.prems(1) _ Cons.prems(2)] near_close(2) [OF v(3) _ v(2)] Cons.prems(7) by simp_all
  then have "f_val a + f_val v \<le> 2 * (p + q)" using Cons.prems(2) v(2) by (simp add: field_simps)
  also have "\<dots> \<le> 2 * 2 powi 1001" using Cons.prems(8) s by (simp add: qs)
  also have "\<dots> = (2 powi 1002 :: rat)" using powi_split [of 1 1001] by simp
  finally have le: "f_val a + f_val v \<le> 2 powi 1002" .
  have "0 \<le> f_val a + f_val v" using near_nonneg [OF Cons.prems(1,2)] near_nonneg [OF v(3,2)] by simp
  then have f: "is_finite (a + v)"
    using le rnd_small_no_overflow [of "f_val a + f_val v" 1002] Cons.prems(3) v(1) by (simp add: finite_plus)
  have "near (Suc k) (f_val (a + v)) (p + q)"
    unfolding f_val_plus [OF f] by (intro near_add Cons.prems(1,2) v) simp_all
  from Cons.IH [OF this _ f _ _ rest] Cons.prems v(2) show ?case by (simp add: qs add.assoc)
qed simp

lemma rnd_abs: "rnd \<bar>q\<bar> = \<bar>rnd q\<bar>"
  using rnd_pos [of q] rnd_pos [of "- q"] by (cases "0 \<le> q") (simp_all add: abs_if)

lemma rtol_bounds: "is_finite multinomial_total_rtol" "1 / 2 ^ 20 \<le> f_val multinomial_total_rtol" "f_val multinomial_total_rtol \<le> 1"
  by code_simp+

text \<open>Two non-negative numbers that differ by less than one part in \<open>2 ^ 20\<close> pass the comparison.\<close>

lemma approx_equal_close:
  assumes "is_finite a" "is_finite b" "0 \<le> f_val a" "0 \<le> f_val b" "f_val a \<le> 2 powi 1002" "f_val b \<le> 2 powi 1002"
    and "\<bar>f_val a - f_val b\<bar> \<le> 1 / 2 ^ 20 * max (f_val a) (f_val b)"
  shows "approx_equal_non_negative a b atol multinomial_total_rtol"
proof -
  let ?m = "max (f_val a) (f_val b)"
  have "\<bar>f_val a - f_val b\<bar> \<le> 2 powi 1002" using assms(3-6) by (simp add: abs_le_iff)
  then have d: "is_finite (a - b)"
    using rnd_small_no_overflow [of "f_val a - f_val b" 1002] assms(1,2) by (simp add: finite_minus)
  have m: "is_finite (f_max \<bar>a\<bar> \<bar>b\<bar>)" "f_val (f_max \<bar>a\<bar> \<bar>b\<bar>) = ?m"
    using assms(1-4) by (simp_all add: f_max_finite f_val_max)
  have r: "1 / 2 ^ 20 * ?m \<le> f_val multinomial_total_rtol * ?m" "f_val multinomial_total_rtol * ?m \<le> 1 * ?m"
    using rtol_bounds(2,3) assms(3) by (intro mult_right_mono; simp add: le_max_iff_disj)+
  have "0 \<le> f_val multinomial_total_rtol * ?m" using rtol_bounds(2) assms(3) by (intro mult_nonneg_nonneg) (auto simp: le_max_iff_disj)
  then have t: "is_finite (multinomial_total_rtol * f_max \<bar>a\<bar> \<bar>b\<bar>)"
    using rnd_small_no_overflow [of "f_val multinomial_total_rtol * ?m" 1002] r(2) assms(5,6) rtol_bounds(1) m
    by (simp add: finite_times abs_le_iff)
  have "rnd \<bar>f_val a - f_val b\<bar> \<le> rnd (f_val multinomial_total_rtol * ?m)"
    using assms(7) r(1) by (intro rnd_mono) linarith
  then have "\<bar>a - b\<bar> \<le> multinomial_total_rtol * f_max \<bar>a\<bar> \<bar>b\<bar>"
    using d t m by (simp add: less_eq_finite f_val_minus f_val_times rnd_abs)
  then show ?thesis using assms(1,2) by (simp add: approx_equal_non_negative_def Let_def)
qed

lemma cached_total_close:
  assumes "sums_close k vs t" "k + length vs \<le> 2 ^ 30" "f_val t \<le> 2 powi 1000"
  shows "approx_equal_non_negative (f_sum vs) t multinomial_total_atol multinomial_total_rtol"
proof -
  obtain qs where qs: "length qs = length vs" "\<forall>i < length vs. 0 \<le> qs ! i \<and> near k (f_val (vs ! i)) (qs ! i)"
    and t: "near k (f_val t) (sum_list qs)" and fin: "list_all is_finite vs" "is_finite t"
    using assms(1) unfolding sums_close_def by blast
  have s: "0 \<le> sum_list qs" using qs by (intro nth_nonneg_sum) simp
  have "sum_list qs \<le> 2 * f_val t" using near_close(1) [OF t _ s] assms(2) near_nonneg [OF t s] by (simp add: field_simps)
  also have "\<dots> \<le> 2 * 2 powi 1000" using assms(3) by simp
  also have "\<dots> = (2 powi 1001 :: rat)" using powi_split [of 1 1000] by simp
  finally have b: "sum_list qs \<le> 2 powi 1001" .
  have z: "is_finite (- 0)" "f_val (- 0) = 0" by code_simp+
  have f: "is_finite (f_sum vs)" "near (k + length vs) (f_val (f_sum vs)) (sum_list qs)"
    using fold_sum_close [of k "- 0" 0 vs qs] z fin(1) qs assms(2) b by (simp_all add: f_sum_def near_zero)
  have t': "near (k + length vs) (f_val t) (sum_list qs)" by (rule near_mono [OF t _ s]) simp
  have "f_val (f_sum vs) \<le> 2 * sum_list qs"
    using near_close(2) [OF f(2) assms(2) s] s by (simp add: field_simps)
  also have "\<dots> \<le> 2 * 2 powi 1001" using b by simp
  also have "\<dots> = (2 powi 1002 :: rat)" using powi_split [of 1 1001] by simp
  finally have "f_val (f_sum vs) \<le> 2 powi 1002" .
  moreover have "f_val t \<le> 2 powi 1002"
    using assms(3) power_int_increasing [of 1000 1002 "2 :: rat"] by simp
  ultimately show ?thesis
    using near_same [OF f(2) t' assms(2) s] f(1) fin(2) near_nonneg [OF f(2) s] near_nonneg [OF t s]
    by (intro approx_equal_close)
qed

section \<open>Multinomial classifiers\<close>

definition multinomial_class_ok :: "usize \<Rightarrow> u64 \<Rightarrow> f64 list \<Rightarrow> f64 \<Rightarrow> bool" where
  "multinomial_class_ok d n vs t \<longleftrightarrow> length vs = d \<and> sums_close (unat n * d) vs t"

definition multinomial_ok :: "multinomial_nb \<Rightarrow> bool" where
  "multinomial_ok m \<longleftrightarrow> mn_feature_count m \<noteq> 0 \<and> nb_validate_config (mn_config m) = Inr ()
     \<and> multinomial_class_ok (mn_feature_count m) (mn_class_false_count m) (mn_feature_sums_false m) (mn_total_false m)
     \<and> multinomial_class_ok (mn_feature_count m) (mn_class_true_count m) (mn_feature_sums_true m) (mn_total_true m)
     \<and> unat (mn_class_false_count m) + unat (mn_class_true_count m) < 2 ^ 64
     \<and> mn_class_false_count m + mn_class_true_count m = mn_samples_seen m"

lemma sums_close_signs:
  assumes "sums_close k vs t"
  shows "0 \<le> f_val t" "v \<in> set vs \<Longrightarrow> is_finite v \<and> 0 \<le> f_val v"
proof -
  obtain qs where qs: "length qs = length vs" "\<forall>i < length vs. 0 \<le> qs ! i \<and> near k (f_val (vs ! i)) (qs ! i)"
    and t: "near k (f_val t) (sum_list qs)" and fin: "list_all is_finite vs"
    using assms unfolding sums_close_def by blast
  show "0 \<le> f_val t" using t qs by (intro near_nonneg [OF t] nth_nonneg_sum) simp
  show "v \<in> set vs \<Longrightarrow> is_finite v \<and> 0 \<le> f_val v"
    using fin qs(2) near_nonneg by (auto simp: in_set_conv_nth list_all_length)
qed

lemma check_sums_ok: "sums_close k vs t \<Longrightarrow> check_sums name vs = Inr ()"
  using sums_close_signs(2) [of k vs t]
  by (auto simp: check_sums_def try_for_each_Inr and_then_Inr ensure_finite_Inr ensure_Inr less_finite not_less)

lemma check_total_ok: "sums_close k vs t \<Longrightarrow> check_total name t = Inr ()"
  using sums_close_signs(1) [of k vs t]
  by (auto simp: check_total_def and_then_Inr ensure_finite_Inr ensure_Inr less_finite not_less sums_close_def)

lemma multinomial_ok_valid:
  assumes ok: "multinomial_ok m"
    and n: "(unat (mn_samples_seen m) + 1) * mn_feature_count m \<le> 2 ^ 30"
    and t: "f_val (mn_total_false m) \<le> 2 powi 1000" "f_val (mn_total_true m) \<le> 2 powi 1000"
  shows "multinomial_validate m = Inr ()"
proof -
  let ?d = "mn_feature_count m" and ?cf = "mn_class_false_count m" and ?ct = "mn_class_true_count m"
  have c: "length (mn_feature_sums_false m) = ?d" "sums_close (unat ?cf * ?d) (mn_feature_sums_false m) (mn_total_false m)"
      "length (mn_feature_sums_true m) = ?d" "sums_close (unat ?ct * ?d) (mn_feature_sums_true m) (mn_total_true m)"
    using ok by (simp_all add: multinomial_ok_def multinomial_class_ok_def)
  have s: "unat (mn_samples_seen m) = unat ?cf + unat ?ct"
    using ok unat_add_u64 [of ?cf ?ct] by (auto simp: multinomial_ok_def)
  have le: "unat ?cf * ?d + ?d \<le> 2 ^ 30" "unat ?ct * ?d + ?d \<le> 2 ^ 30"
    using n unfolding s add_mult_distrib by simp_all
  have "approx_equal_non_negative (f_sum (mn_feature_sums_false m)) (mn_total_false m) multinomial_total_atol multinomial_total_rtol"
    "approx_equal_non_negative (f_sum (mn_feature_sums_true m)) (mn_total_true m) multinomial_total_atol multinomial_total_rtol"
    using cached_total_close [OF c(2) _ t(1)] cached_total_close [OF c(4) _ t(2)] le c(1,3) by simp_all
  then show ?thesis
    using ok c check_sums_ok check_total_ok
    by (auto simp: multinomial_validate_def multinomial_ok_def check_cached_total_def and_then_Inr ensure_Inr
        check_class_counts_Inr)
qed

lemma multinomial_learn_Inr:
  "multinomial_learn (xs, target) m = (Inr u, m') \<longleftrightarrow> (\<exists>vs t. validate_non_negative (mn_feature_count m) xs = Inr ()
     \<and> try_fold multinomial_next
         (if target then (mn_feature_sums_true m, mn_total_true m) else (mn_feature_sums_false m, mn_total_false m))
         (List.enumerate 0 xs) = Inr (vs, t)
     \<and> unat (if target then mn_class_true_count m else mn_class_false_count m) + 1 < 2 ^ 64 \<and> unat (mn_samples_seen m) + 1 < 2 ^ 64
     \<and> m' = (if target
         then m\<lparr>mn_feature_sums_true := vs, mn_total_true := t, mn_class_true_count := mn_class_true_count m + 1,
                mn_samples_seen := mn_samples_seen m + 1\<rparr>
         else m\<lparr>mn_feature_sums_false := vs, mn_total_false := t, mn_class_false_count := mn_class_false_count m + 1,
                mn_samples_seen := mn_samples_seen m + 1\<rparr>))"
  by (cases target) (auto simp: multinomial_learn_def transact_Inr and_then_Inr checked_increment_Inr)

lemma multinomial_class_step:
  assumes "multinomial_class_ok d n vs t" "validate_non_negative d xs = Inr ()"
    and "try_fold multinomial_next (vs, t) (List.enumerate 0 xs) = Inr (vs', t')" "unat n + 1 < 2 ^ 64"
  shows "multinomial_class_ok d (n + 1) vs' t'"
proof -
  have v: "length vs = d" "sums_close (unat n * d) vs t" using assms(1) by (simp_all add: multinomial_class_ok_def)
  have x: "length xs = d" "\<forall>x \<in> set xs. is_finite x \<and> 0 \<le> f_val x"
    using assms(2) by (auto simp: validate_non_negative_Inr less_finite)
  have "sums_close (unat n * d + length xs) vs' t' \<and> length vs' = length vs"
    using v x by (intro multinomial_fold_close [OF assms(3)]) simp_all
  then show ?thesis using v(1) x(1) unat_inc [OF assms(4)] by (simp add: multinomial_class_ok_def ac_simps)
qed

lemma multinomial_learn_ok:
  assumes "multinomial_ok m" "multinomial_learn xt m = (Inr u, m')"
  shows "multinomial_ok m'"
proof -
  obtain xs target where xt: "xt = (xs, target)" by fastforce
  have n: "unat (mn_class_false_count m) + unat (mn_class_true_count m) < 2 ^ 64"
    using assms(1) by (simp add: multinomial_ok_def)
  show ?thesis
    using assms class_counts_step [OF n] multinomial_class_step unfolding xt multinomial_learn_Inr multinomial_ok_def
    by (cases target) auto
qed

lemma multinomial_class_zero: "multinomial_class_ok d 0 (replicate d 0) 0"
  by (simp add: multinomial_class_ok_def sums_close_zero)

lemma multinomial_reset_ok: "multinomial_ok m \<Longrightarrow> multinomial_ok (multinomial_reset m)"
  using multinomial_class_zero [of "mn_feature_count m"]
  by (auto simp: multinomial_ok_def multinomial_reset_def map_replicate_const multinomial_class_ok_def)

lemma multinomial_new_ok: "multinomial_new d c = Inr m \<Longrightarrow> multinomial_ok m \<and> mn_samples_seen m = 0"
  using multinomial_class_zero [of d]
  by (auto simp: multinomial_new_def multinomial_ok_def and_then_Inr split: if_splits)

interpretation multinomial: online_classifier multinomial_learn multinomial_ok mn_samples_seen multinomial_reset multinomial_new
proof unfold_locales
  show "multinomial_learn xt m = (Inl e, m') \<Longrightarrow> m' = m" for xt m e m'
    by (auto simp: multinomial_learn_def transact_Inl split: prod.splits)
  show "multinomial_learn xt m = (Inr u, m') \<Longrightarrow> unat (mn_samples_seen m') = unat (mn_samples_seen m) + 1" for xt m u m'
    by (cases xt) (auto simp: multinomial_learn_Inr unat_inc)
qed (rule multinomial_learn_ok multinomial_reset_ok multinomial_new_ok, assumption+ | simp add: multinomial_reset_def)+

section \<open>Properties\<close>

lemma gaussian_ok_deserialize: "gaussian_ok m \<Longrightarrow> gaussian_deserialize m = Inr m"
  using gaussian_stats_validate_Inr [of "gn_class_false m" "()" "gn_feature_count m"]
    gaussian_stats_validate_Inr [of "gn_class_true m" "()" "gn_feature_count m"]
  by (simp add: gaussian_ok_def gaussian_deserialize_def gaussian_stats_deserialize_def)
    (auto simp: gaussian_validate_Inr gaussian_class_ok_def)

text \<open>
  C39: Gaussian and Bernoulli classifiers can always be restored. Whatever samples are offered and whenever the
  classifier is reset, a Gaussian or Bernoulli classifier passes the checks of its \<open>Deserialize\<close>: for the
  Gaussian one, every feature has the count of its class, finite means, and sums of squared deviations that are
  not negative though each step rounds, and are zero up to the first sample; for the Bernoulli one, no
  feature was present more often than its class was seen.
\<close>

theorem gaussian_bernoulli_restorable:
  assumes "gaussian_new d c = Inr g0" and "bernoulli_new d c = Inr b0"
    and "g = run_ops (class_exec gaussian_learn gaussian_reset) ops g0"
    and "b = run_ops (class_exec bernoulli_learn bernoulli_reset) ops b0"
  shows "gaussian_deserialize g = Inr g \<and> bernoulli_deserialize b = Inr b"
  using gaussian_class.reachable_inv [OF assms(1)] bernoulli.reachable_inv [OF assms(2)] assms(3,4)
  by (simp add: gaussian_ok_deserialize bernoulli_ok_def bernoulli_deserialize_def)

definition demo_gaussian :: gaussian_nb where
  "demo_gaussian = \<lparr>gn_feature_count = 1, gn_config = nb_config_default, gn_class_false = gaussian_stats_new 1,
     gn_class_true = gaussian_stats_new 1, gn_samples_seen = 0\<rparr>"

definition demo_bernoulli :: bernoulli_nb where
  "demo_bernoulli = \<lparr>bn_feature_count = 1, bn_config = nb_config_default, bn_feature_true_counts_false = [0],
     bn_feature_true_counts_true = [0], bn_class_false_count = 0, bn_class_true_count = 0, bn_samples_seen = 0\<rparr>"

definition demo_samples :: "class_op list" where
  "demo_samples = [Train [1] True, Forget, Train [1 + 1] True, Train [1] True, Train [0] False, Train [] True]"

lemma demo_classifiers: "gaussian_new 1 nb_config_default = Inr demo_gaussian" "bernoulli_new 1 nb_config_default = Inr demo_bernoulli"
  by code_simp+

theorem gaussian_bernoulli_restorable_witness:
  "bernoulli_deserialize (run_ops (class_exec bernoulli_learn bernoulli_reset) demo_samples demo_bernoulli)
     = Inr (run_ops (class_exec bernoulli_learn bernoulli_reset) demo_samples demo_bernoulli)
   \<and> unat (bn_samples_seen (run_ops (class_exec bernoulli_learn bernoulli_reset) demo_samples demo_bernoulli)) = 3"
proof -
  have "unat (bn_samples_seen (run_ops (class_exec bernoulli_learn bernoulli_reset) demo_samples demo_bernoulli)) = 3"
    by code_simp
  then show ?thesis using gaussian_bernoulli_restorable [OF demo_classifiers refl refl] by simp
qed

text \<open>
  C40: the cached total of a multinomial classifier stays within tolerance. A multinomial classifier reached from
  \<open>new\<close> by any samples and resets passes the checks of its \<open>Deserialize\<close>, the comparison of the cached total
  with the sum of the features included, as long as the features of all its samples and of one more
  are at most \<open>2 ^ 30\<close> numbers and both totals are at most \<open>2 ^ 1000\<close>: in that range the two orders of
  rounded additions differ by less than the relative tolerance.
\<close>

theorem multinomial_total_within_tolerance:
  assumes "multinomial_new d c = Inr m0" and "m = run_ops (class_exec multinomial_learn multinomial_reset) ops m0"
    and "(unat (mn_samples_seen m) + 1) * mn_feature_count m \<le> 2 ^ 30"
    and "f_val (mn_total_false m) \<le> 2 powi 1000" and "f_val (mn_total_true m) \<le> 2 powi 1000"
  shows "multinomial_deserialize m = Inr m"
  using multinomial_ok_valid [OF _ assms(3-5)] multinomial.reachable_inv [OF assms(1)] assms(2)
  by (simp add: multinomial_deserialize_def)

definition demo_multinomial :: multinomial_nb where
  "demo_multinomial = \<lparr>mn_feature_count = 2, mn_config = nb_config_default, mn_feature_sums_false = [0, 0],
     mn_feature_sums_true = [0, 0], mn_total_false = 0, mn_total_true = 0, mn_class_false_count = 0,
     mn_class_true_count = 0, mn_samples_seen = 0\<rparr>"

lemma demo_multinomial_new: "multinomial_new 2 nb_config_default = Inr demo_multinomial"
  by code_simp

definition demo_counted :: multinomial_nb where
  "demo_counted = run_ops (class_exec multinomial_learn multinomial_reset) [Train [1, 0] True, Train [0, 1 + 1] True] demo_multinomial"

theorem multinomial_total_within_tolerance_witness:
  "multinomial_deserialize demo_counted = Inr demo_counted \<and> mn_total_true demo_counted = f_of_nat 3"
proof -
  have e: "unat (mn_samples_seen demo_counted) = 2" "mn_feature_count demo_counted = 2" "f_val (mn_total_false demo_counted) = 0"
    "f_val (mn_total_true demo_counted) = 3" "mn_total_true demo_counted = f_of_nat 3"
    by code_simp+
  have "(3 :: rat) \<le> 2 powi 2" by (simp add: power_int_def)
  also have "\<dots> \<le> 2 powi 1000" by (simp only: powi_le_iff)
  finally have "(3 :: rat) \<le> 2 powi 1000" .
  then show ?thesis
    using multinomial_total_within_tolerance [OF demo_multinomial_new demo_counted_def] e by simp
qed

text \<open>
  The bound on the totals matters only near the largest double: there the sum of the features can overflow
  although the cached total, which absorbed the small additions one by one, did not, and the validation
  refuses a state without a finite sum.
\<close>

lemma infinite_sum_refused:
  assumes "\<not> is_finite (f_sum (mn_feature_sums_true m))"
  shows "multinomial_validate m \<noteq> Inr ()"
  using assms by (auto simp: multinomial_validate_def check_cached_total_def and_then_Inr ensure_Inr
      approx_equal_non_negative_def split: if_splits)

text \<open>The smoothing parameter of a Gaussian classifier is stored and checked, but no prediction depends on it.\<close>

lemma gaussian_ignores_alpha:
  "gaussian_predict_proba libln libexp (m\<lparr>gn_config := c\<rparr>) xs = gaussian_predict_proba libln libexp m xs"
  by (simp add: gaussian_predict_proba_def)

end
