(* ===== verification/Spec2Isabelle.thy ===== *)
theory Spec2Isabelle imports Decision_Ledger Stateful_Runtime Quantile Robust Drift_Consensus
  Page_Hinkley Adwin Kswin Drift_Decay Drift_Aware Linear_Models Pipeline Categorical Sparse Bandits Metrics
  Archive_Trust Runtime_Server Preview_Handler
  Diagnostics Model_Selection Progressive Ftrl Descriptor Replay Persistence Naive_Bayes begin

text \<open>
  A verification library for RillML, a Rust library for online machine learning, and for the runtime that
  serves its models.

  \<^bold>\<open>The program.\<close> The library (\<open>src/src\<close>) holds models that learn one sample at a time in bounded memory:
  statistics, preprocessing, linear models, bandits, drift detectors, metrics, diagnostics, and a ledger
  for decisions whose reward arrives later. Every update is meant to be failure atomic, every stored
  number finite, and every state that can be restored is checked on the way in. The runtime
  (\<open>src/crates/rill-runtime\<close>, protocol types in \<open>rill-runtime-protocol\<close>) serves signed model packs over
  line-delimited JSON; its stateful form keeps model state per partition, with generations, atomic
  promotion and rollback, and at-most-once feedback. A stateful request runs a handler (sandboxed or the
  built-in preview learner), whose next state is checked against resource profiles before it replaces the
  old one.

  \<^bold>\<open>Conventions.\<close> A struct is a record, an enum a datatype, an error the left injection of a sum.
  A method on \<open>&mut self\<close> returns its result together with the state afterwards; \<open>transact\<close> stores the new
  state only on success, \<open>then_mut\<close> sequences steps that update in place, so partial updates are visible
  where the code makes them. \<open>u32\<close> and \<open>u64\<close> are words, checked and saturating arithmetic is written out;
  \<open>usize\<close> is \<open>nat\<close>, with the bound \<open>usize_max\<close> where the code checks it. A \<open>String\<close> is its list of bytes, a
  \<open>BTreeMap\<close> the type \<open>btree\<close> of association lists in strictly increasing order, a \<open>VecDeque\<close> a list. A
  panic is an error value of its own kind (\<open>stop\<close>) where an input can reach one. Loops are structural
  recursion, or \<open>function\<close> with a measure (the binary search of \<open>Sorted_Search\<close>), so every operation of the
  model is total; there is no fuel.

  \<^bold>\<open>Doubles.\<close> \<open>F64\<close> is IEEE 754 binary64 computed exactly: a value is a rational on the grid, a signed zero, an
  infinity or NaN; each operation is the exact result rounded to nearest, ties to even, with overflow and
  gradual underflow (\<open>Rounding\<close>, \<open>F64\<close>, \<open>F64_Step\<close>, \<open>F64_Sign\<close>, \<open>F64_Order\<close>, and \<open>F64_Text\<close> for the printed
  form). All NaNs are one value. Sums start at negative zero as \<open>Iterator::sum\<close> does.

  \<^bold>\<open>Parameters.\<close> Code outside the repository is an argument: \<open>exp\<close>, \<open>ln\<close>, \<open>powf\<close> and the sampling functions of the
  mathematical library (contracts such as \<open>exp_contract\<close> state only what is used), the random generator and
  the hashes of \<open>DefaultHasher\<close>; and for the runtime \<open>serde_json\<close>, \<open>sha2\<close>, \<open>hex\<close>, \<open>ed25519\<close>, \<open>semver\<close> and \<open>zip\<close>,
  collected in the records \<open>runtime_env\<close> and \<open>pack_env\<close>, and the handlers. Hypotheses on them are named
  definitions and hold for concrete instances that the witnesses evaluate.

  \<^bold>\<open>Theories.\<close>
  \<^item> \<open>Rill_Prelude\<close>, \<open>BTree_Map\<close>, \<open>Machine\<close>, \<open>Sorted_Search\<close>: error sums with their inversion lemmas (collection
    \<open>result_simps\<close>), checked arithmetic, ordered maps, and the locales \<open>atomic_machine\<close> and \<open>counted_machine\<close> for
    failure-atomic operations and their runs.
  \<^item> \<open>Rill_Error\<close>: \<open>error.rs\<close>. \<open>Stats\<close>, \<open>Weighted\<close>, \<open>Quantile\<close>, \<open>Robust\<close>: \<open>stats/*\<close> and \<open>weighted.rs\<close>. The mean stays
    within the observations, Welford sums stay non-negative, P2 markers stay ordered.
  \<^item> \<open>Optim\<close>, \<open>Linear_Models\<close>, \<open>Preprocessing\<close>, \<open>Categorical\<close>, \<open>Sparse\<close>, \<open>Pipeline\<close>: \<open>loss/*\<close>, \<open>optim/*\<close>, \<open>models/*\<close>,
    \<open>preprocessing/*\<close>, \<open>sparse/mod.rs\<close>, \<open>feature_hasher.rs\<close>, \<open>pipeline.rs\<close>: reachable states validate, encoders
    refine sets, transactional learning is plain learning made atomic.
  \<^item> \<open>Ftrl\<close> (with \<open>F64_Bounds\<close> and \<open>Error_Text\<close>), \<open>Persistence\<close>: \<open>models/ftrl.rs\<close>, the FTRL-proximal regressor and
    classifier on sparse samples, and \<open>persistence.rs\<close>: within stated bounds on the configuration, what was learned
    is restored from a snapshot.
  \<^item> \<open>Naive_Bayes\<close> (with \<open>F64_Relative\<close>): \<open>models/naive_bayes.rs\<close>, three classifiers behind the locale
    \<open>online_classifier\<close>: reachable states can be restored, and the cached total of the multinomial one stays within
    its tolerance of the sum it caches, by a bound on the accumulated rounding error (\<open>2 ^ 30\<close> additions).
  \<^item> \<open>LinUcb\<close>, \<open>Replay\<close>: \<open>bandit/linucb.rs\<close> and \<open>replay.rs\<close>. Every reachable LinUCB state factors and validates, the
    selected arm has a largest score; outcomes reach ledger and model together and once, and chunks compose.
  \<^item> \<open>Descriptor\<close> (with \<open>F64_Bits\<close>): \<open>descriptor.rs\<close>. The bytes under a schema hash determine the schema.
  \<^item> \<open>Bandits\<close>, \<open>Metrics\<close>, \<open>Diagnostics\<close>, \<open>Model_Selection\<close>, \<open>Progressive\<close>: \<open>bandit/*\<close>, \<open>metrics/*\<close>, \<open>diagnostics/*\<close> and
    \<open>evaluate/progressive.rs\<close>: validity of reachable states, agreement with reference definitions, optimality of
    the selection, cooling, prequential evaluation.
  \<^item> \<open>Drift_Core\<close>, \<open>Drift_Detector\<close>, \<open>Page_Hinkley\<close>, \<open>Adwin\<close>, \<open>Kswin\<close>, \<open>Drift_Decay\<close>, \<open>Drift_Aware\<close>,
    \<open>Drift_Consensus\<close>: \<open>drift/*\<close>. The locale of \<open>Drift_Detector\<close> is interpreted by all three detectors; the
    consensus state machine confirms drift over consecutive windows and cools down after an event.
  \<^item> \<open>Decision_Ledger\<close>: \<open>decision/mod.rs\<close>, as a refinement of the life cycle unknown, live, done.
  \<^item> \<open>Json\<close>, \<open>Protocol_V3\<close>, \<open>Runtime_State\<close>, \<open>Runtime_Lifecycle\<close>, \<open>Runtime_Requests\<close>, \<open>Runtime_Invariant\<close>,
    \<open>Stateful_Runtime\<close>: \<open>v3.rs\<close> and \<open>stateful.rs\<close>. Limits and checksums are invariants of every reachable engine;
    feedback counts once and a generation is used once, across whatever a host does short of replacing the state; a
    failed request changes nothing; a snapshot restores the runtime.
  \<^item> \<open>Protocol_V2\<close>, \<open>Archive\<close>, \<open>Archive_Trust\<close>: the frozen protocol, packs, signatures and trust metadata
    (\<open>archive.rs\<close>, \<open>package.rs\<close>, \<open>handler_package.rs\<close>). \<open>Runtime_Server\<close>, \<open>Preview_Handler\<close>: \<open>server.rs\<close>, \<open>handler/*\<close> and
    \<open>bin/rill-runtime.rs\<close>: the capability gate, the serving loop on a byte stream, and the preview learner.
  This theory adds what spans components.

  \<^bold>\<open>How the lemmas are layered.\<close> Each operation has an inversion lemma (\<open>f x s = (Inr u, s') \<longleftrightarrow> ...\<close>), each
  component an invariant kept by every operation, and a run lemma from a locale or an induction over the
  operations; the properties are read off from these. Numbered text blocks (C1, C2, ...) introduce the properties; a
  theorem with hypotheses is followed by its instance at a concrete input. Lemmas that exhibit where the code
  departs from its documentation carry a plain description.

  \<^bold>\<open>Not modelled.\<close> The C, Python, WebAssembly, Arrow, Polars and tokio bindings (glue over the operations modelled
  here and foreign memory models), the Wasmtime sandbox (a third-party virtual machine; handlers are parameters),
  file locks, atomic file replacement, command-line parsing and printing (operating system effects), poisoned
  mutexes outside the stateful engine, and what \<open>serde\<close> derives (the data types themselves; hand-written
  \<open>Deserialize\<close> code is modelled).
\<close>

section \<open>Properties of several components\<close>

text \<open>
  C16: warm-up. Page-Hinkley and ADWIN report no change before they have accepted \<open>min_samples\<close>
  observations, KSWIN none before it has filled both of its windows.
\<close>
theorem detectors_silent_in_warmup:
  assumes "ph_new pc = Inr p" "length (accepted_ops ph_update xs p) < unat (ph_min_samples (ph_config p))"
    and "adwin_new ac = Inr a"
    and "length (accepted_ops (adwin_update libln) ys a) < unat (aw_min_samples (aw_config a))"
    and "kswin_new kc = Inr k" "exp_contract libexp"
    and "length (accepted_ops (kswin_update libexp) zs k) < 2 * kc_window_size (ks_config k)"
  shows "ph_current_level (run_ops ph_update xs p) = LevelNone
    \<and> aw_current_level (run_ops (adwin_update libln) ys a) = LevelNone
    \<and> ks_current_level (run_ops (kswin_update libexp) zs k) = LevelNone"
proof (intro conjI)
  have "ph_samples p = 0" "aw_samples a = 0" "ks_samples k = 0"
    using assms(1,3,5) by (auto simp: ph_new_Inr adwin_new_Inr kswin_new_Inr)
  note z = this
  show "ph_current_level (run_ops ph_update xs p) = LevelNone"
    by (rule page_hinkley.silent_before_warmup [OF ph_new_ok [OF assms(1)] z(1) assms(2)])
  show "aw_current_level (run_ops (adwin_update libln) ys a) = LevelNone"
    by (rule adwin.silent_before_warmup [OF adwin_new_ok [OF assms(3)] z(2) assms(4)])
  show "ks_current_level (run_ops (kswin_update libexp) zs k) = LevelNone"
    using kswin.silent_before_warmup [OF kswin_new_ok [OF assms(5)] z(3), of libexp zs] assms(6,7)
    by (simp add: checked_exp_def)
qed

lemma detectors_silent_in_warmup_witness:
  "ph_current_level (run_ops ph_update [] demo_ph) = LevelNone
   \<and> aw_current_level (run_ops (adwin_update (\<lambda>x. x)) [] demo_adwin) = LevelNone
   \<and> ks_current_level (run_ops (kswin_update step_exp) [1, 1, 1] demo_kswin) = LevelNone"
proof -
  have "length (accepted_ops (kswin_update step_exp) [1, 1, 1] demo_kswin) \<le> 3"
    by (simp split: prod.splits)
  then have "length (accepted_ops (kswin_update step_exp) [1, 1, 1] demo_kswin) < 2 * kc_window_size (ks_config demo_kswin)"
    by (simp add: demo_kswin_def)
  from detectors_silent_in_warmup [OF demo_ph_new _ demo_adwin_new _ demo_kswin_new step_exp_contract this, of "[]" "\<lambda>x. x" "[]"]
  show ?thesis by (simp add: demo_ph_def ph_config_default_def demo_adwin_def)
qed

end
